(* ===== verification/GoPrelude.thy ===== *)
theory GoPrelude
  imports Main
begin

text \<open>
  Shared vocabulary of the development: Go's 64-bit integers with their wrap-around
  written out, truncated division, the parts of \<^verbatim>\<open>strings\<close> and \<^verbatim>\<open>strconv\<close> that the
  packages call, Go slices as lists, Go maps as partial functions, and the lemma
  collections the component theories draw on.  A Go \<^verbatim>\<open>string\<close> is a list of bytes, so it
  is modelled by \<^typ>\<open>string\<close> (a \<^typ>\<open>char\<close> is one byte).  A Go pair
  \<^verbatim>\<open>(value, error)\<close> is a sum whose left part is the error.
\<close>

named_theorems go_int \<open>machine integers: range and wrap-around facts\<close>
named_theorems go_str \<open>facts on the modelled string operations\<close>

section \<open>64-bit integers\<close>

text \<open>The platform's \<^verbatim>\<open>int\<close> and \<^verbatim>\<open>int64\<close>: values in \<open>[-2^63, 2^63)\<close>; \<open>i64\<close> is the wrap-around.\<close>

definition max_int64 :: int where
  "max_int64 = 9223372036854775807"

definition min_int64 :: int where
  "min_int64 = - 9223372036854775808"

definition i64 :: "int \<Rightarrow> int" where
  "i64 x = (x + 9223372036854775808) mod 18446744073709551616 - 9223372036854775808"

definition in_i64 :: "int \<Rightarrow> bool" where
  "in_i64 x \<longleftrightarrow> min_int64 \<le> x \<and> x \<le> max_int64"

lemma i64_range [go_int]: "in_i64 (i64 x)"
proof -
  let ?m = "(x + 9223372036854775808) mod 18446744073709551616"
  have "0 \<le> ?m" and "?m < 18446744073709551616" by simp_all
  then show ?thesis unfolding in_i64_def i64_def min_int64_def max_int64_def by linarith
qed

lemma i64_id [go_int]: "in_i64 x \<Longrightarrow> i64 x = x"
  by (simp add: in_i64_def i64_def min_int64_def max_int64_def)

lemma i64_eq_iff [go_int]: "i64 x = x \<longleftrightarrow> in_i64 x"
  using i64_range[of x] i64_id[of x] by auto

text \<open>Go's \<^verbatim>\<open>/\<close> and \<^verbatim>\<open>%\<close> truncate towards zero.\<close>

definition go_quo :: "int \<Rightarrow> int \<Rightarrow> int" where
  "go_quo a b = sgn a * sgn b * (\<bar>a\<bar> div \<bar>b\<bar>)"

definition go_rem :: "int \<Rightarrow> int \<Rightarrow> int" where
  "go_rem a b = a - b * go_quo a b"

lemma go_quo_nonneg [go_int]: "0 \<le> a \<Longrightarrow> 0 < b \<Longrightarrow> go_quo a b = a div b"
  by (cases "a = 0") (simp_all add: go_quo_def)

lemma go_rem_nonneg [go_int]: "0 \<le> a \<Longrightarrow> 0 < b \<Longrightarrow> go_rem a b = a mod b"
  by (simp add: go_rem_def go_quo_nonneg minus_mult_div_eq_mod)

lemma go_quo_neg [go_int]: "a < 0 \<Longrightarrow> 0 < b \<Longrightarrow> go_quo a b = - ((- a) div b)"
  by (simp add: go_quo_def)

section \<open>Decimal text\<close>

definition is_digit :: "char \<Rightarrow> bool" where
  "is_digit c \<longleftrightarrow> 48 \<le> (of_char c :: nat) \<and> (of_char c :: nat) \<le> 57"

definition digit_val :: "char \<Rightarrow> nat" where
  "digit_val c = of_char c - 48"

definition digit_char :: "nat \<Rightarrow> char" where
  "digit_char d = char_of (48 + d)"

lemma of_char_digit_char [simp]: "d < 10 \<Longrightarrow> (of_char (digit_char d) :: nat) = 48 + d"
  by (simp add: digit_char_def)

lemma is_digit_digit_char [simp]: "d < 10 \<Longrightarrow> is_digit (digit_char d)"
  by (simp add: is_digit_def)

lemma digit_val_digit_char [simp]: "d < 10 \<Longrightarrow> digit_val (digit_char d) = d"
  by (simp add: digit_val_def)

lemma digit_val_less [simp]: "is_digit c \<Longrightarrow> digit_val c < 10"
  by (auto simp: is_digit_def digit_val_def)

fun show_nat :: "nat \<Rightarrow> string" where
  "show_nat n = (if n < 10 then [digit_char n] else show_nat (n div 10) @ [digit_char (n mod 10)])"

declare show_nat.simps [simp del]

lemma show_nat_code [code]:
  "show_nat n = (if n < 10 then [digit_char n] else show_nat (n div 10) @ [digit_char (n mod 10)])"
  by (rule show_nat.simps)

definition show_int :: "int \<Rightarrow> string" where
  "show_int i = (if i < 0 then CHR ''-'' # show_nat (nat (- i)) else show_nat (nat i))"

text \<open>The verb \<^verbatim>\<open>%02d\<close>: at least two columns, the sign included, padded with zeros.\<close>

definition show_pad2 :: "int \<Rightarrow> string" where
  "show_pad2 i = (if 0 \<le> i \<and> i < 10 then CHR ''0'' # show_int i else show_int i)"

definition digits_val :: "string \<Rightarrow> nat" where
  "digits_val ds = foldl (\<lambda>a c. 10 * a + digit_val c) 0 ds"

lemma digits_val_Nil [simp]: "digits_val [] = 0"
  by (simp add: digits_val_def)

lemma digits_val_snoc [simp]: "digits_val (ds @ [c]) = 10 * digits_val ds + digit_val c"
  by (simp add: digits_val_def)

lemma show_nat_digits [simp]: "list_all is_digit (show_nat n)"
proof (induction n rule: show_nat.induct)
  case (1 n)
  then show ?case by (cases "n < 10") (simp_all add: show_nat.simps[of n])
qed

lemma show_nat_nonempty [simp]: "show_nat n \<noteq> []"
  by (simp add: show_nat.simps[of n])

lemma digits_val_show_nat [simp]: "digits_val (show_nat n) = n"
proof (induction n rule: show_nat.induct)
  case (1 n)
  show ?case
  proof (cases "n < 10")
    case True
    then show ?thesis by (simp add: show_nat.simps[of n] digits_val_def)
  next
    case False
    with 1 have "digits_val (show_nat (n div 10)) = n div 10" by simp
    with False show ?thesis by (simp add: show_nat.simps[of n])
  qed
qed

lemma digits_val_bound: "list_all is_digit ds \<Longrightarrow> digits_val ds < 10 ^ length ds"
proof (induction ds rule: rev_induct)
  case Nil
  then show ?case by simp
next
  case (snoc c ds)
  then have "digits_val ds + 1 \<le> 10 ^ length ds" and "digit_val c < 10" by auto
  then show ?case by simp
qed

text \<open>\<^verbatim>\<open>strconv.ParseInt(s, 10, 64)\<close> and \<^verbatim>\<open>strconv.Atoi\<close>: an optional sign, at least one digit, in range.\<close>

definition parse_magnitude :: "bool \<Rightarrow> string \<Rightarrow> int option" where
  "parse_magnitude neg ds =
     (if ds = [] \<or> \<not> list_all is_digit ds then None
      else let v = (if neg then - int (digits_val ds) else int (digits_val ds))
           in if in_i64 v then Some v else None)"

fun parse_int :: "string \<Rightarrow> int option" where
  "parse_int [] = None"
| "parse_int (c # cs) =
     (if c = CHR ''-'' then parse_magnitude True cs
      else if c = CHR ''+'' then parse_magnitude False cs
      else parse_magnitude False (c # cs))"

lemma is_digit_neq_sign: "is_digit c \<Longrightarrow> c \<noteq> CHR ''-'' \<and> c \<noteq> CHR ''+''"
  by (auto simp: is_digit_def)

lemma parse_int_digits [go_str]:
  assumes "list_all is_digit ds" and "ds \<noteq> []"
  shows "parse_int ds = (if in_i64 (int (digits_val ds)) then Some (int (digits_val ds)) else None)"
  using assms
  by (cases ds) (auto simp: parse_magnitude_def Let_def dest: is_digit_neq_sign)

lemma parse_int_range [go_str]: "parse_int s = Some v \<Longrightarrow> in_i64 v"
  by (cases s) (auto simp: parse_magnitude_def Let_def split: if_splits)

lemma parse_int_show_int [go_str]: "in_i64 i \<Longrightarrow> parse_int (show_int i) = Some i"
  by (simp add: show_int_def parse_int_digits parse_magnitude_def Let_def)

section \<open>Byte strings\<close>

fun has_prefix :: "string \<Rightarrow> string \<Rightarrow> bool" where
  "has_prefix s [] = True"
| "has_prefix [] (p # ps) = False"
| "has_prefix (c # cs) (p # ps) = (c = p \<and> has_prefix cs ps)"

definition has_suffix :: "string \<Rightarrow> string \<Rightarrow> bool" where
  "has_suffix s p = has_prefix (rev s) (rev p)"

definition trim_prefix :: "string \<Rightarrow> string \<Rightarrow> string" where
  "trim_prefix s p = (if has_prefix s p then drop (length p) s else s)"

text \<open>\<^verbatim>\<open>strings.Trim(s, cutset)\<close> for an ASCII cutset.\<close>

definition trim_set :: "char list \<Rightarrow> string \<Rightarrow> string" where
  "trim_set cs s = rev (dropWhile (\<lambda>c. c \<in> set cs) (rev (dropWhile (\<lambda>c. c \<in> set cs) s)))"

text \<open>\<^verbatim>\<open>strings.Split(s, sep)\<close> for a one-byte separator: always at least one part.\<close>

fun split_char :: "char \<Rightarrow> string \<Rightarrow> string list" where
  "split_char d [] = [[]]"
| "split_char d (c # cs) =
     (if c = d then [] # split_char d cs
      else (case split_char d cs of [] \<Rightarrow> [[c]] | p # ps \<Rightarrow> (c # p) # ps))"

text \<open>\<^verbatim>\<open>strings.SplitN(s, sep, n)\<close> for \<open>n > 0\<close>: at most \<open>n\<close> parts, the last one unsplit.\<close>

fun splitn_char :: "char \<Rightarrow> nat \<Rightarrow> string \<Rightarrow> string list" where
  "splitn_char d 0 s = []"
| "splitn_char d (Suc 0) s = [s]"
| "splitn_char d (Suc (Suc n)) s =
     (case dropWhile (\<lambda>c. c \<noteq> d) s of
        [] \<Rightarrow> [s]
      | _ # rest \<Rightarrow> takeWhile (\<lambda>c. c \<noteq> d) s # splitn_char d (Suc n) rest)"

fun join_with :: "string \<Rightarrow> string list \<Rightarrow> string" where
  "join_with sep [] = []"
| "join_with sep [p] = p"
| "join_with sep (p # q # ps) = p @ sep @ join_with sep (q # ps)"

lemma has_prefix_append [simp, go_str]: "has_prefix (p @ s) p"
  by (induction p) auto

lemma has_prefix_iff [go_str]: "has_prefix s p \<longleftrightarrow> (\<exists>r. s = p @ r)"
  by (induction s p rule: has_prefix.induct) auto

lemma has_suffix_iff [go_str]: "has_suffix s p \<longleftrightarrow> (\<exists>r. s = r @ p)"
proof -
  have "(\<exists>r. rev s = rev p @ r) \<longleftrightarrow> (\<exists>r. s = r @ p)"
    by (metis rev_append rev_rev_ident)
  then show ?thesis by (simp add: has_suffix_def has_prefix_iff)
qed

lemma split_char_nonempty [simp]: "split_char d s \<noteq> []"
  by (induction s) (auto split: list.splits)

lemma split_char_none [go_str]: "d \<notin> set s \<Longrightarrow> split_char d s = [s]"
  by (induction s) auto

lemma split_char_once [go_str]:
  "d \<notin> set a \<Longrightarrow> split_char d (a @ d # b) = a # split_char d b"
  by (induction a) auto

lemma join_split_char [go_str]: "join_with [d] (split_char d s) = s"
proof (induction s)
  case Nil
  then show ?case by simp
next
  case (Cons c s)
  obtain p ps where ps: "split_char d s = p # ps"
    by (cases "split_char d s") auto
  show ?case
    using Cons ps by (cases ps) auto
qed

lemma split_char_parts [go_str]: "p \<in> set (split_char d s) \<Longrightarrow> d \<notin> set p"
proof (induction s arbitrary: p)
  case Nil
  then show ?case by simp
next
  case (Cons c s)
  obtain q qs where q: "split_char d s = q # qs"
    by (cases "split_char d s") auto
  show ?case
    using Cons q by (cases "c = d") auto
qed

lemma length_splitn_char [go_str]: "length (splitn_char d n s) \<le> n"
  by (induction d n s rule: splitn_char.induct) (auto split: list.splits)

lemma trim_set_id [go_str]:
  assumes "s \<noteq> []" and "hd s \<notin> set cs" and "last s \<notin> set cs"
  shows "trim_set cs s = s"
proof -
  from assms have 1: "dropWhile (\<lambda>c. c \<in> set cs) s = s"
    by (cases s) auto
  from assms have "rev s \<noteq> []" and "hd (rev s) \<notin> set cs"
    by (simp_all add: hd_rev)
  then have "dropWhile (\<lambda>c. c \<in> set cs) (rev s) = rev s"
    by (cases "rev s") auto
  with 1 show ?thesis by (simp add: trim_set_def)
qed

section \<open>Times\<close>

text \<open>
  A time is the number of nanoseconds since some instant, a duration a 64-bit number of
  nanoseconds; \<^verbatim>\<open>Time.Sub\<close> saturates at the ends of that range.
\<close>

type_synonym gotime = int

definition go_second :: int where "go_second = 1000000000"
definition go_minute :: int where "go_minute = 60 * go_second"

definition sub_time :: "gotime \<Rightarrow> gotime \<Rightarrow> int" where
  "sub_time t u = max min_int64 (min max_int64 (t - u))"

lemma sub_time_range [go_int]: "in_i64 (sub_time t u)"
  by (simp add: sub_time_def in_i64_def min_int64_def max_int64_def)

lemma sub_time_mono: "t \<le> t' \<Longrightarrow> u' \<le> u \<Longrightarrow> sub_time t u \<le> sub_time t' u'"
  by (simp add: sub_time_def min_def max_def min_int64_def max_int64_def)

lemma sub_time_self [simp]: "sub_time t t = 0"
  by (simp add: sub_time_def min_int64_def max_int64_def)

lemma sub_time_pos: "0 < sub_time t u \<longleftrightarrow> u < t"
  by (simp add: sub_time_def min_int64_def max_int64_def min_def max_def)

end
