(* ===== verification/Currency.thy ===== *)
theory Currency
  imports GoPrelude
begin

text \<open>
  Package \<^verbatim>\<open>currency\<close> (\<^verbatim>\<open>currency/main.go\<close>): amounts in cents as 64-bit integers, their
  text form, the parser with its overflow guards, and the nullable and JSON wrappers.
\<close>

section \<open>Cents and their text form\<close>

type_synonym cents = int

definition cents_string :: "cents \<Rightarrow> string" where
  "cents_string u =
     (let sign = (if u < 0 then ''-'' else '''');
          v = (if u < 0 then i64 (- u) else u)
      in sign @ show_int (go_quo v 100) @ ''.'' @ show_pad2 (go_rem v 100))"

section \<open>The parser\<close>

datatype currency_error = InvalidFormat string | OutOfRange string

fun is_all_digits :: "string \<Rightarrow> bool" where
  "is_all_digits [] = False"
| "is_all_digits (c # cs) = list_all is_digit (c # cs)"

definition max_dollars :: int where
  "max_dollars = (max_int64 - 99) div 100"

text \<open>\<^verbatim>\<open>Trim(src, "$ ")\<close>, then every comma removed.\<close>

definition sanitize_amount :: "string \<Rightarrow> string" where
  "sanitize_amount src = filter (\<lambda>c. c \<noteq> CHR '','') (trim_set ''$ '' src)"

fun take_sign :: "string \<Rightarrow> bool \<times> string" where
  "take_sign [] = (False, [])"
| "take_sign (c # cs) =
     (if c = CHR ''-'' then (True, cs) else if c = CHR ''+'' then (False, cs) else (False, c # cs))"

definition normal_frac :: "string \<Rightarrow> string" where
  "normal_frac frac =
     (let f2 = (if 2 < length frac then take 2 frac else frac)
      in if length f2 = 1 then f2 @ ''0'' else f2)"

text \<open>The last step of \<^verbatim>\<open>Parse\<close>: the sign, then the check that the amount fits \<^verbatim>\<open>int\<close>.\<close>

definition finish_amount :: "string \<Rightarrow> bool \<Rightarrow> int \<Rightarrow> currency_error + cents" where
  "finish_amount src negative tot =
     (let t = (if negative then i64 (- tot) else tot)
      in if max_int64 < t \<or> t < min_int64 then Inl (OutOfRange src) else Inr t)"

definition parse_cents :: "string \<Rightarrow> currency_error + cents" where
  "parse_cents src =
     (let (negative, sanitized) = take_sign (sanitize_amount src);
          parts = split_char (CHR ''.'') sanitized
      in if 2 < length parts then Inl (InvalidFormat src)
         else if \<not> is_all_digits (parts ! 0) then Inl (InvalidFormat src)
         else (case parse_int (parts ! 0) of
             None \<Rightarrow> Inl (InvalidFormat src)
           | Some dollars \<Rightarrow>
               if max_dollars < dollars then Inl (OutOfRange src)
               else let tot = i64 (dollars * 100)
                    in if length parts = 2 then
                         (let frac = normal_frac (parts ! 1)
                          in if \<not> is_all_digits frac then Inl (InvalidFormat src)
                             else (case parse_int frac of
                                 None \<Rightarrow> Inl (InvalidFormat src)
                               | Some c \<Rightarrow> finish_amount src negative (i64 (tot + c))))
                       else finish_amount src negative tot))"

section \<open>Nullable cents and the JSON encodings\<close>

record null_cents =
  nc_valid :: bool
  nc_cents :: cents

definition zero_null_cents :: null_cents where
  "zero_null_cents = \<lparr>nc_valid = False, nc_cents = 0\<rparr>"

text \<open>
  The values a driver hands to \<^verbatim>\<open>Scan\<close>.  \<^verbatim>\<open>sql.NullInt64.Scan\<close> takes an \<^verbatim>\<open>int64\<close> as it is and
  parses the text of any other value with \<^verbatim>\<open>strconv.ParseInt\<close>; \<open>DText\<close> carries that text
  (bytes and strings as they are, other values as \<^verbatim>\<open>database/sql\<close> renders them).
\<close>

datatype driver_value = DNull | DInt int | DText string

fun null_cents_scan :: "null_cents \<Rightarrow> driver_value \<Rightarrow> string + null_cents" where
  "null_cents_scan n DNull = Inr (n\<lparr>nc_valid := False, nc_cents := 0\<rparr>)"
| "null_cents_scan n (DInt i) = Inr (n\<lparr>nc_valid := True, nc_cents := i\<rparr>)"
| "null_cents_scan n (DText s) =
     (case parse_int s of
        None \<Rightarrow> Inl ''converting driver.Value type''
      | Some i \<Rightarrow> Inr (n\<lparr>nc_valid := True, nc_cents := i\<rparr>))"

definition null_cents_value :: "null_cents \<Rightarrow> driver_value" where
  "null_cents_value n = (if \<not> nc_valid n then DNull else DInt (nc_cents n))"

definition null_cents_marshal :: "null_cents \<Rightarrow> string" where
  "null_cents_marshal n = (if \<not> nc_valid n then ''null'' else show_int (nc_cents n))"

text \<open>
  \<^verbatim>\<open>json.Unmarshal\<close> of one compact token into an integer: the grammar of a JSON integer (no
  plus sign, no leading zero), then the range.
\<close>

definition json_int_syntax :: "string \<Rightarrow> bool" where
  "json_int_syntax s =
     (let ds = (case s of [] \<Rightarrow> [] | c # cs \<Rightarrow> if c = CHR ''-'' then cs else s)
      in list_all is_digit ds \<and> ds \<noteq> [] \<and> (hd ds = CHR ''0'' \<longrightarrow> length ds = 1))"

definition json_int :: "string \<Rightarrow> int option" where
  "json_int s = (if json_int_syntax s then parse_int s else None)"

definition null_cents_unmarshal :: "string \<Rightarrow> string + null_cents" where
  "null_cents_unmarshal data =
     (if data = ''null'' then Inr zero_null_cents
      else (case json_int data of
          None \<Rightarrow> Inl ''json: cannot unmarshal''
        | Some c \<Rightarrow> Inr \<lparr>nc_valid = True, nc_cents = c\<rparr>))"

text \<open>\<^verbatim>\<open>CentsWithJsonEncoding\<close>: the same text form as \<open>cents_string\<close>, written as a bare JSON number.\<close>

definition cents_json_string :: "cents \<Rightarrow> string" where
  "cents_json_string u =
     (let sign = (if u < 0 then ''-'' else '''');
          v = (if u < 0 then i64 (- u) else u)
      in sign @ show_int (go_quo v 100) @ ''.'' @ show_pad2 (go_rem v 100))"

definition cents_json_marshal :: "cents \<Rightarrow> string" where
  "cents_json_marshal u = cents_json_string u"

definition cents_json_unmarshal :: "string \<Rightarrow> currency_error + cents" where
  "cents_json_unmarshal data = parse_cents data"

section \<open>Facts\<close>

lemma max_dollars_val: "max_dollars = 92233720368547757"
  by (simp add: max_dollars_def max_int64_def)

lemma is_all_digits_iff: "is_all_digits s \<longleftrightarrow> s \<noteq> [] \<and> list_all is_digit s"
  by (cases s) auto

lemma show_nat_two_digits: "10 \<le> n \<Longrightarrow> n < 100 \<Longrightarrow> show_nat n = [digit_char (n div 10), digit_char (n mod 10)]"
  by (simp add: show_nat.simps[of n] show_nat.simps[of "n div 10"])

lemma show_pad2_digits:
  assumes "0 \<le> r" and "r < 100"
  shows "list_all is_digit (show_pad2 r) \<and> length (show_pad2 r) = 2 \<and> digits_val (show_pad2 r) = nat r"
proof (cases "r < 10")
  case True
  then have "nat r < 10" by simp
  then have "show_nat (nat r) = [digit_char (nat r)]" by (subst show_nat.simps) simp
  with assms True show ?thesis
    by (simp add: show_pad2_def show_int_def digits_val_def is_digit_def digit_val_def)
next
  case False
  with assms have b: "10 \<le> nat r" "nat r < 100" by auto
  from False assms have s: "show_pad2 r = show_nat (nat r)" by (simp add: show_pad2_def show_int_def)
  show ?thesis using digits_val_show_nat[of "nat r"] b show_nat_digits[of "nat r"]
    by (simp only: s) (simp add: show_nat_two_digits)
qed

lemma filter_no_comma: "list_all is_digit s \<Longrightarrow> filter (\<lambda>c. c \<noteq> CHR '','') s = s"
  by (induction s) (auto simp: is_digit_def)

lemma digit_not_cut: "is_digit c \<Longrightarrow> c \<notin> set ''$ ''"
  by (auto simp: is_digit_def)

lemma digit_not_dot: "list_all is_digit s \<Longrightarrow> CHR ''.'' \<notin> set s"
  by (induction s) (auto simp: is_digit_def)

lemma sanitize_plain:
  assumes "list_all is_digit d" and "d \<noteq> []" and "list_all is_digit f" and "f \<noteq> []"
    and "sg = [] \<or> sg = ''-''"
  shows "sanitize_amount (sg @ d @ ''.'' @ f) = sg @ d @ ''.'' @ f"
proof -
  let ?s = "sg @ d @ ''.'' @ f"
  from assms have "is_digit (hd d)" and "is_digit (last f)"
    by (simp_all add: list_all_iff)
  with assms have "hd ?s \<notin> set ''$ ''" and "last ?s \<notin> set ''$ ''" and "?s \<noteq> []"
    by (auto dest: digit_not_cut)
  then have "trim_set ''$ '' ?s = ?s" by (intro trim_set_id)
  with assms show ?thesis
    by (auto simp: sanitize_amount_def filter_no_comma)
qed

lemma take_sign_plain:
  assumes "list_all is_digit d" and "d \<noteq> []"
  shows "take_sign (d @ r) = (False, d @ r)" and "take_sign (''-'' @ d @ r) = (True, d @ r)"
  using assms by (cases d; auto dest: is_digit_neq_sign)+

lemma split_plain:
  assumes "list_all is_digit d" and "list_all is_digit f"
  shows "split_char (CHR ''.'') (d @ ''.'' @ f) = [d, f]"
  using assms by (simp add: split_char_once split_char_none digit_not_dot)

text \<open>The canonical text \<open>ddd.ff\<close> with an optional minus sign parses to its value, within the bounds.\<close>

lemma parse_canonical:
  assumes "list_all is_digit d" and "d \<noteq> []" and "list_all is_digit f" and "length f = 2"
    and "int (digits_val d) \<le> max_dollars" and sg_def: "sg = (if neg then ''-'' else [])"
  shows "parse_cents (sg @ d @ ''.'' @ f) =
           Inr (if neg then - (int (digits_val d) * 100 + int (digits_val f))
                else int (digits_val d) * 100 + int (digits_val f))"
proof -
  from assms have f: "f \<noteq> []" by auto
  have pf: "digits_val f < 100" using digits_val_bound[of f] assms by simp
  have ts: "take_sign (sg @ d @ ''.'' @ f) = (neg, d @ ''.'' @ f)"
    using take_sign_plain[of d "''.'' @ f"] assms by (simp add: sg_def)
  have sa: "sanitize_amount (sg @ d @ ''.'' @ f) = sg @ d @ ''.'' @ f"
    by (rule sanitize_plain) (use assms f sg_def in auto)
  have nf: "normal_frac f = f" using assms by (simp add: normal_frac_def)
  from pf assms have b: "in_i64 (int (digits_val d))" "in_i64 (int (digits_val f))"
    "in_i64 (int (digits_val d) * 100)" "in_i64 (int (digits_val d) * 100 + int (digits_val f))"
    "in_i64 (- (int (digits_val d) * 100 + int (digits_val f)))"
    by (auto simp: in_i64_def max_dollars_val min_int64_def max_int64_def)
  show ?thesis using assms(5) b f assms(1-4)
    unfolding parse_cents_def sa ts
    by (simp only: split_plain[OF assms(1,3)] prod.case Let_def)
       (simp add: parse_int_digits is_all_digits_iff nf i64_id finish_amount_def Let_def,
        simp add: in_i64_def)
qed

lemma show_nat_no_leading_zero: "hd (show_nat n) = CHR ''0'' \<Longrightarrow> length (show_nat n) = 1"
proof (induction n rule: show_nat.induct)
  case (1 n)
  have z: "digit_char d = CHR ''0'' \<Longrightarrow> d < 10 \<Longrightarrow> d = 0" for d
    using digit_val_digit_char[of d] by (simp add: digit_val_def)
  show ?case
  proof (cases "n < 10")
    case True
    then show ?thesis by (simp add: show_nat.simps[of n])
  next
    case False
    with 1 have l: "length (show_nat (n div 10)) = 1"
      by (simp add: show_nat.simps[of n])
    with False have "n div 10 < 10"
      by (simp add: show_nat.simps[of "n div 10"] split: if_splits)
    with 1 False z[of "n div 10"] have "n div 10 = 0"
      by (simp add: show_nat.simps[of n] show_nat.simps[of "n div 10"])
    with False show ?thesis by simp
  qed
qed

lemma json_int_syntax_show: "json_int_syntax (show_int i)"
proof (cases "i < 0")
  case True
  then show ?thesis
    using show_nat_no_leading_zero[of "nat (- i)"] by (simp add: json_int_syntax_def show_int_def)
next
  case False
  obtain c cs where c: "show_nat (nat i) = c # cs"
    using show_nat_nonempty[of "nat i"] by (cases "show_nat (nat i)") auto
  with show_nat_digits[of "nat i"] have "c \<noteq> CHR ''-''" by (auto dest: is_digit_neq_sign)
  with c False show ?thesis
    using show_nat_no_leading_zero[of "nat i"] show_nat_digits[of "nat i"]
    by (simp add: json_int_syntax_def show_int_def)
qed

section \<open>What the parser computes\<close>

text \<open>
  The specification: the value of an amount over unbounded integers, with no overflow guard
  and no wrap-around.  At most two decimals count; the rest of the fraction is ignored.
\<close>

definition frac_value :: "string \<Rightarrow> nat option" where
  "frac_value f =
     (case f of
        [] \<Rightarrow> None
      | [a] \<Rightarrow> if is_digit a then Some (10 * digit_val a) else None
      | a # b # _ \<Rightarrow> if is_digit a \<and> is_digit b then Some (10 * digit_val a + digit_val b) else None)"

definition amount_value :: "string \<Rightarrow> int option" where
  "amount_value src =
     (let (neg, body) = take_sign (sanitize_amount src);
          signed = (\<lambda>n. if neg then - int n else int n)
      in case split_char (CHR ''.'') body of
           [d] \<Rightarrow> if is_all_digits d then Some (signed (100 * digits_val d)) else None
         | [d, f] \<Rightarrow>
             (case frac_value f of
                None \<Rightarrow> None
              | Some c \<Rightarrow> if is_all_digits d then Some (signed (100 * digits_val d + c)) else None)
         | _ \<Rightarrow> None)"

lemma frac_value_normal:
  "frac_value f = (if is_all_digits (normal_frac f) then Some (digits_val (normal_frac f)) else None)"
proof -
  have z: "is_digit CHR ''0''" "digit_val CHR ''0'' = 0"
    by (simp_all add: is_digit_def digit_val_def)
  show ?thesis
  proof (cases f)
    case Nil
    then show ?thesis by (simp add: frac_value_def normal_frac_def)
  next
    case (Cons a g)
    then show ?thesis using z
      by (cases g) (auto simp: frac_value_def normal_frac_def Let_def digits_val_def numeral_2_eq_2)
  qed
qed

lemma frac_value_less: "frac_value f = Some c \<Longrightarrow> c < 100"
proof -
  assume a: "frac_value f = Some c"
  have one: "10 * digit_val x < 100" if "is_digit x" for x
    using digit_val_less[OF that] by linarith
  have two: "10 * digit_val x + digit_val y < 100" if "is_digit x" "is_digit y" for x y
    using digit_val_less[OF that(1)] digit_val_less[OF that(2)] by linarith
  from a show "c < 100"
    by (auto simp: frac_value_def one two split: list.splits if_splits)
qed

lemma parse_int_frac:
  assumes "frac_value f = Some c"
  shows "parse_int (normal_frac f) = Some (int c)"
proof -
  from assms have d: "is_all_digits (normal_frac f)" "c = digits_val (normal_frac f)"
    by (auto simp: frac_value_normal split: if_splits)
  have "in_i64 (int c)" using frac_value_less[OF assms] by (simp add: in_i64_def min_int64_def max_int64_def)
  with d show ?thesis by (simp add: parse_int_digits is_all_digits_iff)
qed

lemma finish_amount_small:
  assumes "0 \<le> t" and "t \<le> 9223372036854775799"
  shows "finish_amount src neg t = Inr (if neg then - t else t)"
  using assms
  by (auto simp: finish_amount_def Let_def i64_id in_i64_def min_int64_def max_int64_def)

lemma parse_dollars:
  assumes "is_all_digits d"
  shows "(case parse_int d of
            None \<Rightarrow> Inl e1
          | Some v \<Rightarrow> if max_dollars < v then Inl e2 else g v) = Inr c
       \<longleftrightarrow> digits_val d \<le> 92233720368547757 \<and> g (int (digits_val d)) = Inr c"
  using assms
  by (simp add: parse_int_digits is_all_digits_iff max_dollars_val in_i64_def min_int64_def max_int64_def)

lemma dollars_i64: "n \<le> 92233720368547757 \<Longrightarrow> k < 100 \<Longrightarrow>
   i64 (int n * 100) = int n * 100 \<and> i64 (int n * 100 + int k) = int n * 100 + int k
   \<and> int n * 100 + int k \<le> 9223372036854775799"
  by (simp add: i64_eq_iff in_i64_def min_int64_def max_int64_def)

lemma parse_cents_whole:
  assumes "take_sign (sanitize_amount src) = (neg, body)" and "split_char (CHR ''.'') body = [d]"
  shows "parse_cents src = Inr c \<longleftrightarrow> is_all_digits d \<and> digits_val d \<le> 92233720368547757
    \<and> c = (if neg then - int (100 * digits_val d) else int (100 * digits_val d))"
proof (cases "is_all_digits d")
  case True
  have "parse_cents src = Inr c \<longleftrightarrow> digits_val d \<le> 92233720368547757
      \<and> finish_amount src neg (i64 (int (digits_val d) * 100)) = Inr c"
    using True by (simp add: parse_cents_def assms Let_def parse_dollars)
  then show ?thesis
    using True dollars_i64[of "digits_val d" 0] finish_amount_small[of "int (digits_val d) * 100" src neg]
    by auto
next
  case False
  then show ?thesis by (simp add: parse_cents_def assms)
qed

lemma parse_cents_frac:
  assumes "take_sign (sanitize_amount src) = (neg, body)" and "split_char (CHR ''.'') body = [d, f]"
  shows "parse_cents src = Inr c \<longleftrightarrow> is_all_digits d \<and> digits_val d \<le> 92233720368547757
    \<and> (\<exists>k. frac_value f = Some k
       \<and> c = (if neg then - int (100 * digits_val d + k) else int (100 * digits_val d + k)))"
proof (cases "is_all_digits d \<and> frac_value f \<noteq> None")
  case True
  then obtain k where k: "frac_value f = Some k" by auto
  have n: "is_all_digits (normal_frac f)" using k by (simp add: frac_value_normal split: if_splits)
  have "parse_cents src = Inr c \<longleftrightarrow> digits_val d \<le> 92233720368547757
      \<and> finish_amount src neg (i64 (i64 (int (digits_val d) * 100) + int k)) = Inr c"
    using True k n by (simp add: parse_cents_def assms Let_def parse_dollars parse_int_frac)
  then show ?thesis
    using True k dollars_i64[OF _ frac_value_less[OF k], of "digits_val d"]
      finish_amount_small[of "int (digits_val d) * 100 + int k" src neg]
    by auto
next
  case False
  then show ?thesis
    by (auto simp: parse_cents_def assms Let_def parse_dollars frac_value_normal split: if_splits)
qed

lemma dollars_bound: "k < 100 \<Longrightarrow> n \<le> 92233720368547757 \<longleftrightarrow> 100 * n + k \<le> (9223372036854775799 :: nat)"
  by arith


text \<open>
  C9: an amount whose magnitude is at most 9223372036854775799 prints to a text that parses
  back to it.
\<close>

theorem cents_roundtrip:
  assumes "\<bar>u\<bar> \<le> 9223372036854775799"
  shows "parse_cents (cents_string u) = Inr u"
proof -
  let ?v = "\<bar>u\<bar>"
  let ?d = "show_nat (nat (?v div 100))" and ?f = "show_pad2 (?v mod 100)"
  have v: "(if u < 0 then i64 (- u) else u) = ?v"
    using assms by (auto simp: i64_id in_i64_def min_int64_def max_int64_def)
  have s: "cents_string u = (if u < 0 then ''-'' else []) @ ?d @ ''.'' @ ?f"
    unfolding cents_string_def v by (simp add: Let_def go_quo_nonneg go_rem_nonneg show_int_def)
  have f: "list_all is_digit ?f" "length ?f = 2" "digits_val ?f = nat (?v mod 100)"
    using show_pad2_digits[of "?v mod 100"] by simp_all
  have d: "int (digits_val ?d) \<le> max_dollars"
  proof -
    have "?v div 100 \<le> 92233720368547757" using assms by linarith
    then show ?thesis by (simp add: max_dollars_val)
  qed
  have "parse_cents (cents_string u) =
      Inr (if u < 0 then - (int (digits_val ?d) * 100 + int (digits_val ?f))
           else int (digits_val ?d) * 100 + int (digits_val ?f))"
    unfolding s by (rule parse_canonical) (use f d in auto)
  also have "int (digits_val ?d) * 100 + int (digits_val ?f) = ?v"
    using f(3) by (simp add: pos_imp_zdiv_nonneg_iff)
  finally show ?thesis by auto
qed

theorem cents_roundtrip_witness:
  "\<bar>- 12345 :: int\<bar> \<le> 9223372036854775799 \<and> parse_cents (cents_string (- 12345)) = Inr (- 12345)"
  using cents_roundtrip[of "- 12345"] by simp

text \<open>The JSON form of a nullable amount decodes to the same amount, and the driver value scans back.\<close>

theorem null_cents_json_roundtrip:
  assumes "nc_valid n \<or> nc_cents n = 0" and "in_i64 (nc_cents n)"
  shows "null_cents_unmarshal (null_cents_marshal n) = Inr n
    \<and> null_cents_scan m (null_cents_value n) = Inr n"
proof -
  have nn: "show_int i \<noteq> ''null''" for i
  proof
    assume "show_int i = ''null''"
    moreover have "hd (show_int i) = CHR ''-'' \<or> is_digit (hd (show_int i))"
      using show_nat_digits[of "nat i"] show_nat_nonempty[of "nat i"]
      by (auto simp: show_int_def list_all_iff)
    ultimately show False by (simp add: is_digit_def)
  qed
  show ?thesis
    using assms
    by (cases n; cases m) (auto simp: null_cents_unmarshal_def null_cents_marshal_def zero_null_cents_def
      json_int_def json_int_syntax_show nn parse_int_show_int null_cents_value_def)
qed

theorem null_cents_json_roundtrip_witness:
  "null_cents_unmarshal (null_cents_marshal \<lparr>nc_valid = True, nc_cents = - 5\<rparr>) = Inr \<lparr>nc_valid = True, nc_cents = - 5\<rparr>"
  using null_cents_json_roundtrip[of "\<lparr>nc_valid = True, nc_cents = - 5\<rparr>"]
  by (simp add: in_i64_def min_int64_def max_int64_def)

text \<open>
  Two behaviours at the edges: the text form of the least 64-bit amount has two minus signs
  (its negation wraps around), and characters after the second decimal are not checked.
\<close>

lemma cents_string_min: "cents_string min_int64 = ''--92233720368547758.-8''"
  by (simp add: cents_string_def min_int64_def i64_def go_quo_def go_rem_def show_int_def show_pad2_def
      show_nat.simps digit_char_def char_of_def bit_0)

lemma parse_ignores_trailing: "parse_cents ''1.23abc'' = Inr 123"
  by code_simp

end
