(* ===== verification/JvArray.thy ===== *)
theory JvArray
  imports GoPrelude "HOL-Library.Multiset"
begin

text \<open>
  Package \<^verbatim>\<open>jv\<close>, slice utilities (\<^verbatim>\<open>jv/arrayutil.go\<close>), and the source of \<^verbatim>\<open>randomish.Int\<close>
  they draw on.  A slice is a list, the zero value of a type parameter is the argument
  \<open>zero\<close>, a panic is \<^const>\<open>None\<close>.  Where the code keeps a \<^verbatim>\<open>map[T]bool\<close> only to test
  membership, the model keeps the set of the keys that are true.
\<close>

section \<open>Comparison and sorting\<close>

fun items_equal :: "'a list \<Rightarrow> 'a list \<Rightarrow> bool" where
  "items_equal [] bs = True"
| "items_equal (a # as) bs = (case bs of [] \<Rightarrow> False | b # bs' \<Rightarrow> if b \<noteq> a then False else items_equal as bs')"

definition array_item_compare :: "'a list \<Rightarrow> 'a list \<Rightarrow> bool" where
  "array_item_compare a b = (if length a \<noteq> length b then False else items_equal a b)"

text \<open>
  \<^verbatim>\<open>sort.IsSorted\<close> looks at neighbours from the end.  \<^verbatim>\<open>sort.Sort\<close> is not stable; what the
  callers may rely on is the relation \<open>sort_result\<close>: some rearrangement in which no later
  element is less than an earlier one.
\<close>

fun is_sorted_from :: "('a \<Rightarrow> 'a \<Rightarrow> bool) \<Rightarrow> 'a list \<Rightarrow> nat \<Rightarrow> bool" where
  "is_sorted_from lt xs 0 = True"
| "is_sorted_from lt xs (Suc i) =
     (if i = 0 then True
      else if lt (xs ! i) (xs ! (i - 1)) then False
      else is_sorted_from lt xs i)"

definition is_sorted :: "('a \<Rightarrow> 'a \<Rightarrow> bool) \<Rightarrow> 'a list \<Rightarrow> bool" where
  "is_sorted lt xs = is_sorted_from lt xs (length xs)"

definition sort_result :: "('a \<Rightarrow> 'a \<Rightarrow> bool) \<Rightarrow> 'a list \<Rightarrow> 'a list \<Rightarrow> bool" where
  "sort_result lt xs ys \<longleftrightarrow> mset ys = mset xs \<and> sorted_wrt (\<lambda>a b. \<not> lt b a) ys"

definition sort_fx2 :: "('a \<Rightarrow> 'a \<Rightarrow> bool) \<Rightarrow> 'a list \<Rightarrow> 'a list \<Rightarrow> bool" where
  "sort_fx2 lt xs ys = sort_result lt xs ys"

definition sort_asc :: "'a::ord list \<Rightarrow> 'a list \<Rightarrow> bool" where
  "sort_asc xs ys = sort_result (\<lambda>a b. a < b) xs ys"

definition sort_desc :: "'a::ord list \<Rightarrow> 'a list \<Rightarrow> bool" where
  "sort_desc xs ys = sort_result (\<lambda>a b. b < a) xs ys"

definition sort_fx :: "('a \<Rightarrow> 'u::ord) \<Rightarrow> 'a list \<Rightarrow> 'a list \<Rightarrow> bool" where
  "sort_fx score xs ys = sort_result (\<lambda>a b. score a < score b) xs ys"

definition is_sorted_asc :: "'a::ord list \<Rightarrow> bool" where
  "is_sorted_asc xs = is_sorted (\<lambda>a b. a < b) xs"

definition is_sorted_desc :: "'a::ord list \<Rightarrow> bool" where
  "is_sorted_desc xs = is_sorted (\<lambda>a b. b < a) xs"

definition detect_sorting :: "'a list \<Rightarrow> ('a \<Rightarrow> 'u::ord) \<Rightarrow> bool \<times> bool" where
  "detect_sorting input lookup =
     (is_sorted (\<lambda>a b. lookup a < lookup b) input, is_sorted (\<lambda>a b. lookup b < lookup a) input)"

section \<open>Searching, filtering, folding\<close>

text \<open>The loop of \<^verbatim>\<open>Reverse\<close>: \<open>i\<close> counts down, each element is appended.\<close>

fun reverse_loop :: "'a list \<Rightarrow> nat \<Rightarrow> 'a list \<Rightarrow> 'a list" where
  "reverse_loop input 0 out = out"
| "reverse_loop input (Suc i) out = reverse_loop input i (out @ [input ! i])"

definition jv_reverse :: "'a list \<Rightarrow> 'a list" where
  "jv_reverse input = reverse_loop input (length input) []"

fun index_of_from :: "int \<Rightarrow> 'a list \<Rightarrow> ('a \<Rightarrow> bool) \<Rightarrow> int" where
  "index_of_from i [] f = - 1"
| "index_of_from i (x # xs) f = (if f x then i else index_of_from (i + 1) xs f)"

definition index_of :: "'a list \<Rightarrow> ('a \<Rightarrow> bool) \<Rightarrow> int" where
  "index_of input f = index_of_from 0 input f"

definition index_of_item :: "'a list \<Rightarrow> 'a \<Rightarrow> int" where
  "index_of_item input item = index_of input (\<lambda>it. it = item)"

fun indexes_of_from :: "int \<Rightarrow> 'a list \<Rightarrow> ('a \<Rightarrow> bool) \<Rightarrow> int list" where
  "indexes_of_from i [] f = []"
| "indexes_of_from i (x # xs) f =
     (if f x then i # indexes_of_from (i + 1) xs f else indexes_of_from (i + 1) xs f)"

definition indexes_of :: "'a list \<Rightarrow> ('a \<Rightarrow> bool) \<Rightarrow> int list" where
  "indexes_of input f = indexes_of_from 0 input f"

definition indexes_of_item :: "'a list \<Rightarrow> 'a \<Rightarrow> int list" where
  "indexes_of_item input item = indexes_of input (\<lambda>it. it = item)"

text \<open>
  \<^verbatim>\<open>randomish.Int(min, max)\<close> is \<^verbatim>\<open>rand.Intn(max-min) + min\<close>; \<^verbatim>\<open>rand.Intn(n)\<close> panics unless
  \<open>n > 0\<close>.  The generator is the argument \<open>intn\<close>: the number it draws below \<open>n\<close>.
\<close>

definition randomish_int :: "(int \<Rightarrow> int) \<Rightarrow> int \<Rightarrow> int \<Rightarrow> int option" where
  "randomish_int intn mn mx = (if mx - mn \<le> 0 then None else Some (intn (mx - mn) + mn))"

definition random_array_element :: "(int \<Rightarrow> int) \<Rightarrow> 'a list \<Rightarrow> 'a option" where
  "random_array_element intn input =
     (if length input = 0 then None
      else (case randomish_int intn 0 (int (length input) - 1) of
          None \<Rightarrow> None
        | Some i \<Rightarrow> if 0 \<le> i \<and> i < int (length input) then Some (input ! nat i) else None))"

fun unique_loop :: "'a set \<Rightarrow> 'a list \<Rightarrow> 'a list \<Rightarrow> 'a list" where
  "unique_loop mp acc [] = acc"
| "unique_loop mp acc (x # xs) =
     (if x \<in> mp then unique_loop mp acc xs else unique_loop (insert x mp) (acc @ [x]) xs)"

definition jv_unique :: "'a list \<Rightarrow> 'a list" where
  "jv_unique input = unique_loop {} [] input"

fun jv_first :: "'a \<Rightarrow> 'a list \<Rightarrow> ('a \<Rightarrow> bool) \<Rightarrow> 'a" where
  "jv_first zero [] f = zero"
| "jv_first zero (x # xs) f = (if f x then x else jv_first zero xs f)"

fun last_loop :: "'a \<Rightarrow> 'a list \<Rightarrow> ('a \<Rightarrow> bool) \<Rightarrow> nat \<Rightarrow> 'a" where
  "last_loop zero input f 0 = zero"
| "last_loop zero input f (Suc i) = (if f (input ! i) then input ! i else last_loop zero input f i)"

definition jv_last :: "'a \<Rightarrow> 'a list \<Rightarrow> ('a \<Rightarrow> bool) \<Rightarrow> 'a" where
  "jv_last zero input f = last_loop zero input f (length input)"

fun jv_contains :: "'a list \<Rightarrow> ('a \<Rightarrow> bool) \<Rightarrow> bool" where
  "jv_contains [] f = False"
| "jv_contains (x # xs) f = (if f x then True else jv_contains xs f)"

fun mapper_loop :: "'u list \<Rightarrow> 'a list \<Rightarrow> ('a \<Rightarrow> 'u) \<Rightarrow> 'u list" where
  "mapper_loop out [] m = out"
| "mapper_loop out (x # xs) m = mapper_loop (out @ [m x]) xs m"

definition jv_mapper :: "'a list \<Rightarrow> ('a \<Rightarrow> 'u) \<Rightarrow> 'u list" where
  "jv_mapper input m = mapper_loop [] input m"

fun jv_reduce :: "'a list \<Rightarrow> ('a \<Rightarrow> 'u \<Rightarrow> 'u) \<Rightarrow> 'u \<Rightarrow> 'u" where
  "jv_reduce [] reducer current = current"
| "jv_reduce (x # xs) reducer current = jv_reduce xs reducer (reducer x current)"

fun contains_item :: "'a list \<Rightarrow> 'a \<Rightarrow> bool" where
  "contains_item [] item = False"
| "contains_item (v # vs) item = (if v = item then True else contains_item vs item)"

fun jv_filter :: "'a list \<Rightarrow> ('a \<Rightarrow> bool) \<Rightarrow> 'a list" where
  "jv_filter [] f = []"
| "jv_filter (x # xs) f = (if f x then x # jv_filter xs f else jv_filter xs f)"

fun jv_intersection :: "'a list \<Rightarrow> 'a list \<Rightarrow> 'a list" where
  "jv_intersection [] b = []"
| "jv_intersection (x # xs) b =
     (if contains_item b x then x # jv_intersection xs b else jv_intersection xs b)"

fun found_in :: "'a \<Rightarrow> 'a list \<Rightarrow> ('a \<Rightarrow> 'a \<Rightarrow> bool) \<Rightarrow> bool" where
  "found_in a [] cmp = False"
| "found_in a (b # bs) cmp = (if cmp a b then True else found_in a bs cmp)"

fun intersection_fx :: "'a list \<Rightarrow> 'a list \<Rightarrow> ('a \<Rightarrow> 'a \<Rightarrow> bool) \<Rightarrow> 'a list" where
  "intersection_fx [] b cmp = []"
| "intersection_fx (x # xs) b cmp =
     (if found_in x b cmp then x # intersection_fx xs b cmp else intersection_fx xs b cmp)"

fun remove_loop :: "'a set \<Rightarrow> 'a list \<Rightarrow> 'a list" where
  "remove_loop rm [] = []"
| "remove_loop rm (x # xs) = (if x \<notin> rm then x # remove_loop rm xs else remove_loop rm xs)"

definition remove_from_list :: "'a list \<Rightarrow> 'a list \<Rightarrow> 'a list" where
  "remove_from_list src to_remove = remove_loop (set to_remove) src"

fun select_many :: "'a list list \<Rightarrow> 'a list" where
  "select_many [] = []"
| "select_many (xs # xss) = xs @ select_many xss"

fun jv_all :: "'a list \<Rightarrow> ('a \<Rightarrow> bool) \<Rightarrow> bool" where
  "jv_all [] check = True"
| "jv_all (x # xs) check = (if \<not> check x then False else jv_all xs check)"

fun jv_any :: "'a list \<Rightarrow> ('a \<Rightarrow> bool) \<Rightarrow> bool" where
  "jv_any [] check = False"
| "jv_any (x # xs) check = (if check x then True else jv_any xs check)"

fun filter_by_map_key :: "'a list \<Rightarrow> ('a \<Rightarrow> bool) \<Rightarrow> 'a list" where
  "filter_by_map_key [] rm = []"
| "filter_by_map_key (x # xs) rm = (if rm x then filter_by_map_key xs rm else x # filter_by_map_key xs rm)"

fun union_all :: "'a list \<Rightarrow> 'a list \<Rightarrow> 'a list" where
  "union_all a [] = a"
| "union_all a (b # bs) = union_all (a @ [b]) bs"

text \<open>
  \<^verbatim>\<open>MergeObjects\<close>: the inner loop folds later, still valid elements into \<open>a\<close>; the outer
  loop visits every position, absorbed ones included.
\<close>

fun merge_inner :: "('a \<Rightarrow> 'a \<Rightarrow> 'a \<times> bool) \<Rightarrow> 'a \<Rightarrow> 'a list \<Rightarrow> 'a set \<Rightarrow> 'a \<times> 'a set" where
  "merge_inner merger a [] invalid = (a, invalid)"
| "merge_inner merger a (b # bs) invalid =
     (if b \<in> invalid then merge_inner merger a bs invalid
      else (case merger a b of (rs, merged) \<Rightarrow>
          if merged then merge_inner merger rs bs (insert b invalid)
          else merge_inner merger a bs invalid))"

fun merge_outer :: "('a \<Rightarrow> 'a \<Rightarrow> 'a \<times> bool) \<Rightarrow> 'a list \<Rightarrow> 'a set \<Rightarrow> 'a list \<times> 'a set" where
  "merge_outer merger [] invalid = ([], invalid)"
| "merge_outer merger (a # rest) invalid =
     (let (a', inv') = merge_inner merger a rest invalid;
          (rest', inv'') = merge_outer merger rest inv'
      in (a' # rest', inv''))"

definition merge_objects :: "'a list \<Rightarrow> ('a \<Rightarrow> 'a \<Rightarrow> 'a \<times> bool) \<Rightarrow> 'a list" where
  "merge_objects xs merger =
     (let (ys, invalid) = merge_outer merger xs {} in remove_loop invalid ys)"

fun group_loop :: "('u \<rightharpoonup> 'a list) \<Rightarrow> 'a list \<Rightarrow> ('a \<Rightarrow> 'u) \<Rightarrow> ('u \<rightharpoonup> 'a list)" where
  "group_loop out [] grouper = out"
| "group_loop out (x # xs) grouper =
     (let key = grouper x; old = (case out key of None \<Rightarrow> [] | Some ys \<Rightarrow> ys)
      in group_loop (out(key \<mapsto> old @ [x])) xs grouper)"

definition group_by :: "'a list \<Rightarrow> ('a \<Rightarrow> 'u) \<Rightarrow> ('u \<rightharpoonup> 'a list)" where
  "group_by xs grouper = group_loop Map.empty xs grouper"

section \<open>Permutations: the odometer\<close>

text \<open>
  A \<^verbatim>\<open>permCounter\<close> chain is the list of its cells from the root (the last column) along
  \<^verbatim>\<open>next\<close>; a cell is \<open>(value, max)\<close>, and \<open>max = -1\<close> for an empty column.
\<close>

type_synonym perm_counter = "(int \<times> int) list"

fun pc_value :: "perm_counter \<Rightarrow> int list" where
  "pc_value [] = []"
| "pc_value ((v, m) # next) = pc_value next @ [if m < 0 then - 1 else v]"

fun pc_incr :: "perm_counter \<Rightarrow> bool \<times> perm_counter" where
  "pc_incr [] = (False, [])"
| "pc_incr ((v, m) # next) =
     (if m \<le> v then
        (if next = [] then (False, [(v, m)])
         else (let (ok, next') = pc_incr next in (ok, (0, m) # next')))
      else (True, (v + 1, m) # next))"

fun select_indexes :: "'a \<Rightarrow> 'a list list \<Rightarrow> int list \<Rightarrow> 'a list" where
  "select_indexes zero (row # rows) (i # is) =
     (if i = - 1 then zero else row ! nat i) # select_indexes zero rows is"
| "select_indexes zero rows is = []"

text \<open>How many increments are left; it bounds the loop.\<close>

fun pc_left :: "perm_counter \<Rightarrow> nat" where
  "pc_left [] = 0"
| "pc_left ((v, m) # next) = nat (m - v) + (nat m + 1) * pc_left next"

lemma pc_incr_decreases: "pc_incr st = (True, st') \<Longrightarrow> pc_left st' < pc_left st"
proof (induction st arbitrary: st')
  case Nil
  then show ?case by simp
next
  case (Cons c nx)
  obtain v m where c: "c = (v, m)" by fastforce
  show ?case
  proof (cases "m \<le> v")
    case True
    with Cons.prems c obtain n' where n': "pc_incr nx = (True, n')" and st': "st' = (0, m) # n'"
      by (auto simp: Let_def split: if_splits prod.splits)
    from Cons.IH[OF n'] have "pc_left n' + 1 \<le> pc_left nx" by simp
    then have "(nat m + 1) * (pc_left n' + 1) \<le> (nat m + 1) * pc_left nx"
      by (rule mult_le_mono2)
    with True c st' show ?thesis by simp
  next
    case False
    with Cons.prems c show ?thesis by auto
  qed
qed

function perm_loop :: "perm_counter \<Rightarrow> int list list" where
  "perm_loop st =
     pc_value st # (case pc_incr st of (ok, st') \<Rightarrow> if ok then perm_loop st' else [])"
  by pat_completeness auto
termination
  by (relation "measure pc_left") (auto dest: pc_incr_decreases[OF sym])

declare perm_loop.simps [simp del]

text \<open>\<^verbatim>\<open>Permutations\<close>: the sequence of arguments the callback is called with.\<close>

definition permutations :: "'u \<Rightarrow> 'a list \<Rightarrow> ('a \<Rightarrow> 'u list) \<Rightarrow> ('a list \<times> 'u list) list" where
  "permutations zero input extract =
     (if length input = 0 then []
      else let options = map extract input;
               root = map (\<lambda>row. (0, int (length row) - 1)) (jv_reverse options)
           in map (\<lambda>indexes. (input, select_indexes zero options indexes)) (perm_loop root))"

section \<open>Whole-list predicates, mode, maximum, average\<close>

fun all_same_as :: "'a \<Rightarrow> 'a list \<Rightarrow> bool" where
  "all_same_as mn [] = True"
| "all_same_as mn (x # xs) = (if x \<noteq> mn then False else all_same_as mn xs)"

definition are_all_the_same :: "'a list \<Rightarrow> bool" where
  "are_all_the_same input = (case input of [] \<Rightarrow> True | mn # _ \<Rightarrow> all_same_as mn input)"

fun all_unique_loop :: "'a set \<Rightarrow> 'a list \<Rightarrow> bool" where
  "all_unique_loop parts [] = True"
| "all_unique_loop parts (x # xs) = (if x \<in> parts then False else all_unique_loop (insert x parts) xs)"

definition are_all_unique :: "'a list \<Rightarrow> bool" where
  "are_all_unique input = (if length input = 0 then True else all_unique_loop {} input)"

definition last_item :: "'a \<Rightarrow> 'a list \<Rightarrow> 'a" where
  "last_item zero input = (if length input = 0 then zero else input ! (length input - 1))"

fun mode_loop :: "('a \<Rightarrow> nat) \<Rightarrow> nat \<Rightarrow> 'a \<Rightarrow> 'a list \<Rightarrow> 'a" where
  "mode_loop counter mx mxv [] = mxv"
| "mode_loop counter mx mxv (x # xs) =
     (let val = counter x + 1; counter' = counter(x := val)
      in if mx < val then mode_loop counter' val x xs else mode_loop counter' mx mxv xs)"

definition jv_mode :: "'a \<Rightarrow> 'a list \<Rightarrow> 'a option" where
  "jv_mode zero input = (if length input = 0 then None else Some (mode_loop (\<lambda>_. 0) 0 zero input))"

fun max_fx_loop :: "('a \<Rightarrow> 'u::ord) \<Rightarrow> 'u \<Rightarrow> 'a \<Rightarrow> 'a list \<Rightarrow> 'a" where
  "max_fx_loop lookup best bestv [] = bestv"
| "max_fx_loop lookup best bestv (x # xs) =
     (if best < lookup x then max_fx_loop lookup (lookup x) x xs else max_fx_loop lookup best bestv xs)"

definition max_fx :: "'a \<Rightarrow> 'a list \<Rightarrow> ('a \<Rightarrow> 'u::ord) \<Rightarrow> 'a" where
  "max_fx zero input lookup =
     (case input of [] \<Rightarrow> zero | x # xs \<Rightarrow> max_fx_loop lookup (lookup x) x xs)"

text \<open>\<^verbatim>\<open>Average\<close> at the 64-bit integer instance: wrapping sum, truncating division, a panic on no input.\<close>

definition average_int :: "int list \<Rightarrow> int option" where
  "average_int input =
     (if input = [] then None
      else Some (i64 (go_quo (foldl (\<lambda>s x. i64 (s + x)) 0 input) (int (length input)))))"

section \<open>Facts\<close>

lemma is_sorted_from_iff:
  "is_sorted_from lt xs n \<longleftrightarrow> (\<forall>i. 0 < i \<and> i < n \<longrightarrow> \<not> lt (xs ! i) (xs ! (i - 1)))"
  by (induction lt xs n rule: is_sorted_from.induct) (auto simp: less_Suc_eq)

lemma is_sorted_iff: "is_sorted lt xs \<longleftrightarrow> (\<forall>i. Suc i < length xs \<longrightarrow> \<not> lt (xs ! Suc i) (xs ! i))"
proof -
  have "(\<forall>i. 0 < i \<and> i < n \<longrightarrow> \<not> lt (xs ! i) (xs ! (i - 1)))
      \<longleftrightarrow> (\<forall>i. Suc i < n \<longrightarrow> \<not> lt (xs ! Suc i) (xs ! i))" for n
    by (metis diff_Suc_1 gr0_conv_Suc zero_less_Suc)
  then show ?thesis by (simp add: is_sorted_def is_sorted_from_iff)
qed

lemma is_sorted_asc_sorted: "is_sorted_asc (xs :: 'a::linorder list) \<longleftrightarrow> sorted xs"
  by (auto simp: is_sorted_asc_def is_sorted_iff sorted_iff_nth_Suc not_less)

lemma is_sorted_desc_sorted: "is_sorted_desc (xs :: 'a::linorder list) \<longleftrightarrow> sorted (rev xs)"
  by (auto simp: is_sorted_desc_def is_sorted_iff sorted_rev_iff_nth_Suc not_less)

lemma sort_asc_is: "sort_asc xs ys \<longleftrightarrow> ys = sort (xs :: 'a::linorder list)"
proof
  assume "sort_asc xs ys"
  then have "mset ys = mset xs" and "sorted ys"
    by (auto simp: sort_asc_def sort_result_def not_less)
  then show "ys = sort xs" by (metis properties_for_sort)
next
  assume "ys = sort xs"
  then show "sort_asc xs ys" by (simp add: sort_asc_def sort_result_def not_less)
qed

lemma reverse_loop_eq: "n \<le> length xs \<Longrightarrow> reverse_loop xs n out = out @ rev (take n xs)"
  by (induction xs n out rule: reverse_loop.induct) (auto simp: take_Suc_conv_app_nth)

lemma jv_reverse_rev [simp]: "jv_reverse xs = rev xs"
  by (simp add: jv_reverse_def reverse_loop_eq)

lemma index_of_from_cases:
  "(index_of_from i xs f = - 1 \<and> (\<forall>x\<in>set xs. \<not> f x)) \<or>
   (\<exists>j<length xs. index_of_from i xs f = i + int j \<and> f (xs ! j) \<and> (\<forall>k<j. \<not> f (xs ! k)))"
proof (induction i xs f rule: index_of_from.induct)
  case (1 i f)
  then show ?case by simp
next
  case (2 i x xs f)
  show ?case
  proof (cases "f x")
    case True
    then show ?thesis by force
  next
    case False
    from 2[OF False] show ?thesis
    proof (elim disjE exE conjE)
      fix j assume "j < length xs" "index_of_from (i + 1) xs f = i + 1 + int j" "f (xs ! j)" "\<forall>k<j. \<not> f (xs ! k)"
      with False show ?thesis
        by (intro disjI2 exI[of _ "Suc j"]) (auto simp: less_Suc_eq_0_disj)
    qed (simp add: False)
  qed
qed

lemma unique_loop_spec:
  "distinct acc \<Longrightarrow> mp = set acc \<Longrightarrow>
   distinct (unique_loop mp acc xs) \<and> set (unique_loop mp acc xs) = set acc \<union> set xs"
  by (induction mp acc xs rule: unique_loop.induct) auto

lemma remdups_snoc: "remdups (ys @ [x]) = remdups (filter (\<lambda>y. y \<noteq> x) ys) @ [x]"
  by (induction ys) auto

lemma unique_loop_eq:
  "unique_loop (set acc) acc xs = acc @ rev (remdups (rev (filter (\<lambda>x. x \<notin> set acc) xs)))"
proof (induction xs arbitrary: acc)
  case Nil
  then show ?case by simp
next
  case (Cons x xs)
  show ?case
  proof (cases "x \<in> set acc")
    case True
    with Cons.IH[of acc] show ?thesis by simp
  next
    case False
    have "filter (\<lambda>y. y \<noteq> x) (rev (filter (\<lambda>y. y \<notin> set acc) xs))
        = rev (filter (\<lambda>y. y \<notin> set (acc @ [x])) xs)"
      by (simp add: rev_filter conj_commute)
    with False Cons.IH[of "acc @ [x]"] show ?thesis by (simp add: remdups_snoc)
  qed
qed

text \<open>The first occurrence of every element is kept, in order.\<close>

lemma jv_unique_eq: "jv_unique xs = rev (remdups (rev xs))"
  using unique_loop_eq[of "[]" xs] by (simp add: jv_unique_def)

lemma all_unique_loop_eq: "all_unique_loop parts xs \<longleftrightarrow> distinct xs \<and> set xs \<inter> parts = {}"
  by (induction parts xs rule: all_unique_loop.induct) auto

lemma are_all_unique_eq: "are_all_unique xs \<longleftrightarrow> distinct xs"
  by (simp add: are_all_unique_def all_unique_loop_eq)

lemma jv_filter_eq [simp]: "jv_filter xs f = filter f xs"
  by (induction xs) auto

lemma jv_contains_eq [simp]: "jv_contains xs f \<longleftrightarrow> (\<exists>x\<in>set xs. f x)"
  by (induction xs) auto

lemma contains_item_eq [simp]: "contains_item xs x \<longleftrightarrow> x \<in> set xs"
  by (induction xs) auto

lemma jv_intersection_eq: "jv_intersection xs b = filter (\<lambda>x. x \<in> set b) xs"
  by (induction xs) auto

lemma remove_loop_eq: "remove_loop rm xs = filter (\<lambda>x. x \<notin> rm) xs"
  by (induction xs) auto

lemma jv_any_eq [simp]: "jv_any xs f \<longleftrightarrow> (\<exists>x\<in>set xs. f x)"
  by (induction xs) auto

lemma jv_all_eq [simp]: "jv_all xs f \<longleftrightarrow> (\<forall>x\<in>set xs. f x)"
  by (induction xs) auto

lemma mapper_loop_eq: "mapper_loop out xs m = out @ map m xs"
  by (induction out xs m rule: mapper_loop.induct) auto

lemma jv_reduce_fold: "jv_reduce xs r c = fold r xs c"
  by (induction xs arbitrary: c) auto

lemma union_all_append: "union_all a b = a @ b"
  by (induction a b rule: union_all.induct) auto

lemma jv_first_cases:
  "(jv_first zero xs f = zero \<and> (\<forall>x\<in>set xs. \<not> f x)) \<or>
   (\<exists>ys y zs. xs = ys @ y # zs \<and> jv_first zero xs f = y \<and> f y \<and> (\<forall>x\<in>set ys. \<not> f x))"
proof (induction zero xs f rule: jv_first.induct)
  case (1 zero f)
  then show ?case by simp
next
  case (2 zero x xs f)
  show ?case
  proof (cases "f x")
    case True
    then show ?thesis by (intro disjI2 exI[of _ "[]"]) auto
  next
    case False
    from 2[OF False] show ?thesis
    proof (elim disjE exE conjE)
      fix ys y zs
      assume "xs = ys @ y # zs" "jv_first zero xs f = y" "f y" "\<forall>x\<in>set ys. \<not> f x"
      with False show ?thesis by (intro disjI2 exI[of _ "x # ys"]) auto
    qed (simp add: False)
  qed
qed

lemma group_loop_eq:
  "group_loop out xs g k =
     (let ys = filter (\<lambda>x. g x = k) xs
      in if ys = [] then out k else Some ((case out k of None \<Rightarrow> [] | Some zs \<Rightarrow> zs) @ ys))"
proof (induction xs arbitrary: out)
  case Nil
  then show ?case by simp
next
  case (Cons x xs)
  show ?case
    by (cases "g x = k"; cases "out k") (simp_all add: Cons.IH Let_def)
qed

text \<open>Each group is the sublist of its key's elements, in the input's order; no key has an empty group.\<close>

lemma group_by_eq:
  "group_by xs g k = (let ys = filter (\<lambda>x. g x = k) xs in if ys = [] then None else Some ys)"
  by (simp add: group_by_def group_loop_eq Let_def)

subsection \<open>The odometer enumerates the product\<close>

definition col_from :: "int \<Rightarrow> int \<Rightarrow> int list" where
  "col_from v m = (if m < 0 then [- 1] else [v..m])"

lemma perm_loop_head: "perm_loop st = pc_value st # tl (perm_loop st)"
  by (subst (1 2) perm_loop.simps) simp

lemma perm_loop_tl: "tl (perm_loop st) = (case pc_incr st of (ok, st') \<Rightarrow> if ok then perm_loop st' else [])"
  by (subst perm_loop.simps) simp

lemma perm_loop_Cons:
  "0 \<le> v \<Longrightarrow> v \<le> max 0 m \<Longrightarrow> perm_loop ((v, m) # nx) =
     map (\<lambda>x. pc_value nx @ [x]) (col_from v m)
     @ concat (map (\<lambda>rv. map (\<lambda>x. rv @ [x]) (col_from 0 m)) (tl (perm_loop nx)))"
proof (induction "(v, m) # nx" arbitrary: v m nx rule: perm_loop.induct)
  case 1
  show ?case
  proof (cases "m \<le> v")
    case False
    then have i: "pc_incr ((v, m) # nx) = (True, (v + 1, m) # nx)" by simp
    from "1.hyps"[OF i[symmetric]] False "1.prems"
    have "perm_loop ((v + 1, m) # nx) = map (\<lambda>x. pc_value nx @ [x]) (col_from (v + 1) m)
        @ concat (map (\<lambda>rv. map (\<lambda>x. rv @ [x]) (col_from 0 m)) (tl (perm_loop nx)))" by simp
    with False "1.prems" i show ?thesis
      by (subst perm_loop.simps) (auto simp: col_from_def upto_rec1)
  next
    case True
    with "1.prems" have c: "col_from v m = [if m < 0 then - 1 else v]"
      by (auto simp: col_from_def)
    obtain ok nx' where o: "pc_incr nx = (ok, nx')" by fastforce
    show ?thesis
    proof (cases "nx \<noteq> [] \<and> ok")
      case False
      with True o have "perm_loop ((v, m) # nx) = [pc_value ((v, m) # nx)]"
        by (subst perm_loop.simps) (auto simp: Let_def)
      moreover from False o have "tl (perm_loop nx) = []"
        by (auto simp: perm_loop_tl)
      ultimately show ?thesis by (simp add: c)
    next
      case nx: True
      with True o have i: "pc_incr ((v, m) # nx) = (True, (0, m) # nx')" by simp
      from "1.hyps"[OF i[symmetric]]
      have "perm_loop ((0, m) # nx') = map (\<lambda>x. pc_value nx' @ [x]) (col_from 0 m)
          @ concat (map (\<lambda>rv. map (\<lambda>x. rv @ [x]) (col_from 0 m)) (tl (perm_loop nx')))" by simp
      moreover from nx o have "tl (perm_loop nx) = perm_loop nx'"
        by (simp add: perm_loop_tl)
      then have "tl (perm_loop nx) = pc_value nx' # tl (perm_loop nx')"
        by (subst (asm) perm_loop_head)
      ultimately show ?thesis using i
        by (subst perm_loop.simps) (simp add: c)
    qed
  qed
qed

lemma perm_loop_Nil: "perm_loop [] = [[]]"
  by (subst perm_loop.simps) simp

lemma perm_loop_zeros_Cons:
  "perm_loop ((0, m) # nx) =
     concat (map (\<lambda>rv. map (\<lambda>x. rv @ [x]) (col_from 0 m)) (perm_loop nx))"
  by (subst perm_loop_head[of nx]) (simp add: perm_loop_Cons)

lemma product_lists_snoc:
  "product_lists (xss @ [xs]) = concat (map (\<lambda>r. map (\<lambda>x. r @ [x]) xs) (product_lists xss))"
proof (induction xss)
  case Nil
  then show ?case by (induction xs) simp_all
next
  case (Cons ys xss)
  show ?case by (induction ys) (simp_all add: Cons map_concat o_def)
qed

lemma upto_int_upt: "[0..int n - 1] = map int [0..<n]"
  by (induction n) (simp_all add: upto_rec2)

lemma perm_loop_zeros:
  "perm_loop (map (\<lambda>m. (0, m)) (rev ms)) = product_lists (map (col_from 0) ms)"
  by (induction ms rule: rev_induct)
    (simp_all add: perm_loop_Nil perm_loop_zeros_Cons product_lists_snoc)

definition pad_options :: "'a \<Rightarrow> 'a list \<Rightarrow> 'a list" where
  "pad_options zero row = (if row = [] then [zero] else row)"

lemma pick_col:
  "map (\<lambda>i. if i = - 1 then zero else row ! nat i) (col_from 0 (int (length row) - 1)) = pad_options zero row"
proof (cases "row = []")
  case True
  then show ?thesis by (simp add: col_from_def pad_options_def)
next
  case False
  then have "col_from 0 (int (length row) - 1) = map int [0..<length row]"
    by (simp add: col_from_def upto_int_upt)
  then show ?thesis using False
    by (simp add: pad_options_def o_def map_nth)
qed

lemma select_product:
  "map (select_indexes zero rows) (product_lists (map (\<lambda>row. col_from 0 (int (length row) - 1)) rows))
     = product_lists (map (pad_options zero) rows)"
proof (induction rows)
  case Nil
  then show ?case by simp
next
  case (Cons row rows)
  let ?P = "product_lists (map (\<lambda>row. col_from 0 (int (length row) - 1)) rows)"
  let ?pick = "\<lambda>i. if i = - 1 then zero else row ! nat i"
  have "map (select_indexes zero (row # rows)) (product_lists (map (\<lambda>row. col_from 0 (int (length row) - 1)) (row # rows)))
      = concat (map (\<lambda>i. map ((#) (?pick i)) (map (select_indexes zero rows) ?P)) (col_from 0 (int (length row) - 1)))"
    by (simp add: map_concat o_def)
  also have "\<dots> = concat (map (\<lambda>y. map ((#) y) (map (select_indexes zero rows) ?P))
      (map ?pick (col_from 0 (int (length row) - 1))))"
    by (simp add: o_def)
  finally show ?case by (simp add: pick_col Cons.IH)
qed

text \<open>
  \<^verbatim>\<open>Permutations\<close> terminates and calls back with every row of the product of the columns'
  options exactly in lexicographic order, an empty column standing for the zero value.
\<close>

theorem permutations_product:
  "permutations zero input extract =
     (if input = [] then []
      else map (\<lambda>row. (input, row))
        (product_lists (map (\<lambda>x. if extract x = [] then [zero] else extract x) input)))"
proof -
  let ?o = "map extract input"
  have r: "map (\<lambda>row. (0, int (length row) - 1)) (jv_reverse ?o)
      = map (\<lambda>m. (0, m)) (rev (map (\<lambda>row. int (length row) - 1) ?o))"
    by (simp add: rev_map)
  let ?L = "perm_loop (map (\<lambda>row. (0, int (length row) - 1)) (jv_reverse ?o))"
  have sel: "map (select_indexes zero ?o) ?L = product_lists (map (pad_options zero) ?o)"
    unfolding r perm_loop_zeros using select_product[of zero ?o] by (simp add: o_def)
  have "map (\<lambda>idx. (input, select_indexes zero ?o idx)) ?L = map (Pair input) (map (select_indexes zero ?o) ?L)"
    by simp
  also have "\<dots> = map (Pair input) (product_lists (map (pad_options zero) ?o))"
    by (simp only: sel)
  finally have main: "map (\<lambda>idx. (input, select_indexes zero ?o idx)) ?L
      = map (Pair input) (product_lists (map (\<lambda>x. if extract x = [] then [zero] else extract x) input))"
    by (simp add: pad_options_def o_def)
  show ?thesis
  proof (cases "input = []")
    case False
    then show ?thesis using main by (simp only: permutations_def Let_def length_0_conv if_False)
  qed (simp add: permutations_def)
qed

subsection \<open>Mode and maximum\<close>

lemma mode_loop_max:
  assumes "\<forall>y. counter y \<le> mx" and "counter mxv = mx"
  shows "\<forall>y. counter y + count_list xs y
      \<le> counter (mode_loop counter mx mxv xs) + count_list xs (mode_loop counter mx mxv xs)"
  using assms
proof (induction counter mx mxv xs rule: mode_loop.induct)
  case (1 counter mx mxv)
  then show ?case by simp
next
  case (2 counter mx mxv x xs)
  define c where "c = counter(x := counter x + 1)"
  have eq: "counter y + count_list (x # xs) y = c y + count_list xs y" for y by (simp add: c_def)
  show ?case
  proof (cases "mx < counter x + 1")
    case True
    have m: "mode_loop counter mx mxv (x # xs) = mode_loop c (counter x + 1) x xs"
      using True by (simp add: c_def Let_def)
    have "\<forall>y. c y \<le> counter x + 1" and "c x = counter x + 1"
      using 2(3) True by (auto simp: c_def intro: le_trans less_imp_le)
    then show ?thesis unfolding m eq by (rule 2(1)[OF refl refl True, folded c_def])
  next
    case False
    have m: "mode_loop counter mx mxv (x # xs) = mode_loop c mx mxv xs"
      using False by (simp add: c_def Let_def)
    have "\<forall>y. c y \<le> mx" and "c mxv = mx" using 2(3,4) False by (auto simp: c_def)
    then show ?thesis unfolding m eq by (rule 2(2)[OF refl refl False, folded c_def])
  qed
qed

text \<open>
  \<^verbatim>\<open>Mode\<close> panics exactly on no input; otherwise it returns an element of the input that
  occurs at least as often as any other.
\<close>

theorem mode_most_frequent:
  "case jv_mode zero input of
     None \<Rightarrow> input = []
   | Some m \<Rightarrow> m \<in> set input \<and> (\<forall>y. count_list input y \<le> count_list input m)"
proof (cases input)
  case Nil
  then show ?thesis by (simp add: jv_mode_def)
next
  case (Cons x xs)
  let ?m = "mode_loop (\<lambda>_. 0) 0 zero input"
  have a: "\<forall>y. count_list input y \<le> count_list input ?m"
    using mode_loop_max[of "\<lambda>_. 0" 0 zero input] by simp
  from Cons have "0 < count_list input x" by simp
  with a have "count_list input ?m \<noteq> 0" by (metis not_less_zero le_zero_eq)
  then have "?m \<in> set input" by (metis count_list_0_iff)
  with a Cons show ?thesis by (simp add: jv_mode_def)
qed

lemma max_fx_loop_max:
  fixes lookup :: "'a \<Rightarrow> 'u::linorder"
  assumes "best = lookup bestv"
  shows "let r = max_fx_loop lookup best bestv xs in
    r \<in> insert bestv (set xs) \<and> (\<forall>x\<in>insert bestv (set xs). lookup x \<le> lookup r)"
  using assms
proof (induction lookup best bestv xs rule: max_fx_loop.induct)
  case (1 lookup best bestv)
  then show ?case by simp
next
  case (2 lookup best bestv x xs)
  then show ?case by (cases "best < lookup x") (auto simp: Let_def not_less intro: le_trans less_imp_le)
qed

lemma max_fx_max:
  fixes lookup :: "'a \<Rightarrow> 'u::linorder"
  assumes "input \<noteq> []"
  shows "max_fx zero input lookup \<in> set input \<and> (\<forall>x\<in>set input. lookup x \<le> lookup (max_fx zero input lookup))"
  using assms max_fx_loop_max[of "lookup (hd input)" lookup "hd input" "tl input"]
  by (cases input) (auto simp: max_fx_def Let_def)

subsection \<open>Two behaviours of the code that its callers may not expect\<close>

text \<open>
  \<^verbatim>\<open>RandomArrayElement\<close> passes \<open>len - 1\<close> as the exclusive bound: it panics on a one-element
  slice and never returns the last position of a longer one.
\<close>

lemma random_array_element_single: "random_array_element intn [x] = None"
  by (simp add: random_array_element_def randomish_int_def)

lemma random_array_element_never_last:
  assumes "\<forall>n>0. 0 \<le> intn n \<and> intn n < n" and "2 \<le> length xs"
  shows "\<exists>i < length xs - 1. random_array_element intn xs = Some (xs ! i)"
proof -
  let ?n = "int (length xs) - 1"
  have b: "0 \<le> intn ?n" "intn ?n < ?n" using assms(1)[rule_format, of ?n] assms(2) by auto
  with assms(2) have "random_array_element intn xs = Some (xs ! nat (intn ?n))" and "nat (intn ?n) < length xs - 1"
    by (auto simp: random_array_element_def randomish_int_def)
  then show ?thesis by blast
qed

text \<open>\<^verbatim>\<open>MergeObjects\<close> lets an absorbed element absorb later ones: adding up neighbours loses part of the sum.\<close>

lemma merge_objects_loses:
  "merge_objects [1, 2, 3 :: int] (\<lambda>a b. (a + b, \<bar>a - b\<bar> = 1)) = [5]"
  by (simp add: merge_objects_def Let_def)

end
