(* ===== verification/GoText.thy ===== *)
theory GoText
  imports GoPrelude
begin

text \<open>
  The rest of the \<^verbatim>\<open>strings\<close> package that the components call: search, replacement, white
  space and letter case.  Outside ASCII, letter case depends on the Unicode tables, which are
  not part of the program: a function \<open>uni\<close> stands for the library's answer on a string with a
  non-ASCII byte, as in the library's own ASCII fast path.
\<close>

section \<open>Bytes\<close>

abbreviation byte :: "char \<Rightarrow> nat" where
  "byte c \<equiv> of_char c"

definition is_ascii :: "char \<Rightarrow> bool" where
  "is_ascii c \<longleftrightarrow> byte c < 128"

definition is_lower_letter :: "char \<Rightarrow> bool" where
  "is_lower_letter c \<longleftrightarrow> 97 \<le> byte c \<and> byte c \<le> 122"

definition is_upper_letter :: "char \<Rightarrow> bool" where
  "is_upper_letter c \<longleftrightarrow> 65 \<le> byte c \<and> byte c \<le> 90"

definition lower_char :: "char \<Rightarrow> char" where
  "lower_char c = (if is_upper_letter c then char_of (byte c + 32) else c)"

definition upper_char :: "char \<Rightarrow> char" where
  "upper_char c = (if is_lower_letter c then char_of (byte c - 32) else c)"

definition to_lower :: "(string \<Rightarrow> string) \<Rightarrow> string \<Rightarrow> string" where
  "to_lower uni s = (if list_all is_ascii s then map lower_char s else uni s)"

definition to_upper :: "(string \<Rightarrow> string) \<Rightarrow> string \<Rightarrow> string" where
  "to_upper uni s = (if list_all is_ascii s then map upper_char s else uni s)"

lemma byte_less_256 [simp]: "byte c < 256"
  using of_char_mod_256[of c] by (metis mod_less_divisor zero_less_numeral)

lemma byte_lower_char: "byte (lower_char c) = (if is_upper_letter c then byte c + 32 else byte c)"
  by (auto simp: lower_char_def is_upper_letter_def)

lemma lower_char_idem [simp]: "lower_char (lower_char c) = lower_char c"
  by (auto simp: lower_char_def is_upper_letter_def)

lemma lower_char_ascii [simp]: "is_ascii (lower_char c) = is_ascii c"
  by (auto simp: is_ascii_def byte_lower_char is_upper_letter_def)

lemma to_lower_ascii: "list_all is_ascii s \<Longrightarrow> to_lower uni s = map lower_char s"
  by (simp add: to_lower_def)

lemma to_lower_idem: "list_all is_ascii s \<Longrightarrow> to_lower uni (to_lower uni s) = to_lower uni s"
  by (simp add: to_lower_def list_all_iff)

section \<open>Search and replacement\<close>

fun str_index :: "string \<Rightarrow> string \<Rightarrow> int" where
  "str_index [] sub = (if sub = [] then 0 else - 1)"
| "str_index (c # cs) sub =
     (if has_prefix (c # cs) sub then 0
      else let i = str_index cs sub in if i < 0 then - 1 else i + 1)"

definition str_contains :: "string \<Rightarrow> string \<Rightarrow> bool" where
  "str_contains s sub \<longleftrightarrow> 0 \<le> str_index s sub"

definition contains_any :: "string \<Rightarrow> char list \<Rightarrow> bool" where
  "contains_any s cs \<longleftrightarrow> list_ex (\<lambda>c. c \<in> set cs) s"

text \<open>\<^verbatim>\<open>strings.ReplaceAll(s, old, new)\<close> for a non-empty \<open>old\<close>.\<close>

function replace_all :: "string \<Rightarrow> string \<Rightarrow> string \<Rightarrow> string" where
  "replace_all [] old new = []"
| "replace_all (c # cs) old new =
     (if old \<noteq> [] \<and> has_prefix (c # cs) old
      then new @ replace_all (drop (length old) (c # cs)) old new
      else c # replace_all cs old new)"
  by pat_completeness auto
termination
  by (relation "measure (\<lambda>(s, old, new). length s)") auto

lemma str_index_range: "- 1 \<le> str_index s sub \<and> str_index s sub \<le> int (length s)"
  by (induction s) (auto simp: Let_def)

lemma str_index_found:
  "0 \<le> str_index s sub \<Longrightarrow> has_prefix (drop (nat (str_index s sub)) s) sub"
proof (induction s)
  case Nil
  then show ?case by (auto split: if_splits)
next
  case (Cons c s)
  show ?case
  proof (cases "has_prefix (c # s) sub")
    case True
    then show ?thesis by simp
  next
    case False
    with Cons.prems have i: "0 \<le> str_index s sub" by (auto simp: Let_def split: if_splits)
    with Cons.IH False show ?thesis by (simp add: Let_def nat_add_distrib)
  qed
qed

lemma str_contains_iff: "str_contains s sub \<longleftrightarrow> (\<exists>a b. s = a @ sub @ b)"
proof
  assume "str_contains s sub"
  then have "has_prefix (drop (nat (str_index s sub)) s) sub"
    by (simp add: str_contains_def str_index_found)
  then obtain b where "drop (nat (str_index s sub)) s = sub @ b" by (auto simp: has_prefix_iff)
  then show "\<exists>a b. s = a @ sub @ b" by (metis append_take_drop_id)
next
  assume "\<exists>a b. s = a @ sub @ b"
  then obtain a b where s: "s = a @ sub @ b" by blast
  have "0 \<le> str_index (a @ sub @ b) sub"
  proof (induction a)
    case Nil
    show ?case
    proof (cases "sub @ b")
      case (Cons c r)
      then have "has_prefix (c # r) sub" by (metis has_prefix_append)
      with Cons show ?thesis by simp
    qed simp
  next
    case (Cons c a)
    then show ?case by (simp add: Let_def)
  qed
  with s show "str_contains s sub" by (simp add: str_contains_def)
qed

lemma replace_all_single: "replace_all s [d] [e] = map (\<lambda>c. if c = d then e else c) s"
  by (induction s "[d]" "[e]" rule: replace_all.induct) auto

section \<open>Splitting and joining\<close>

lemma split_char_append: "split_char d (a @ d # b) = split_char d a @ split_char d b"
proof (induction a)
  case Nil
  then show ?case by simp
next
  case (Cons c a)
  obtain p ps where "split_char d a = p # ps" by (cases "split_char d a") auto
  with Cons show ?case by simp
qed

lemma split_join:
  "ps \<noteq> [] \<Longrightarrow> \<forall>p\<in>set ps. d \<notin> set p \<Longrightarrow> split_char d (join_with [d] ps) = ps"
proof (induction "[d]" ps rule: join_with.induct)
  case 1
  then show ?case by simp
next
  case (2 p)
  then show ?case by (simp add: split_char_none)
next
  case (3 p q ps)
  then show ?case by (simp add: split_char_once)
qed

section \<open>White space\<close>

definition bytes :: "nat list \<Rightarrow> string" where
  "bytes ns = map char_of ns"

text \<open>The UTF-8 encodings of the characters with Unicode's White Space property.\<close>

definition space_runes :: "string list" where
  "space_runes =
     map bytes ([[9], [10], [11], [12], [13], [32], [194, 133], [194, 160], [225, 154, 128]]
       @ map (\<lambda>i. [226, 128, 128 + i]) [0..<11]
       @ [[226, 128, 168], [226, 128, 169], [226, 128, 175], [226, 129, 159], [227, 128, 128]])"

function trim_runs :: "string list \<Rightarrow> string \<Rightarrow> string" where
  "trim_runs ws s =
     (case find (\<lambda>w. w \<noteq> [] \<and> has_prefix s w) ws of
        None \<Rightarrow> s
      | Some w \<Rightarrow> trim_runs ws (drop (length w) s))"
  by pat_completeness auto
termination
proof (relation "measure (\<lambda>(ws, s). length s)")
  fix ws s w
  assume "find (\<lambda>w. w \<noteq> [] \<and> has_prefix s w) ws = Some w"
  then have "w \<noteq> []" and "has_prefix s w" by (auto simp: find_Some_iff)
  then show "((ws, drop (length w) s), (ws, s)) \<in> measure (\<lambda>(ws, s). length s)"
    by (cases s; cases w) auto
qed simp

declare trim_runs.simps [simp del]

definition trim_space :: "string \<Rightarrow> string" where
  "trim_space s = rev (trim_runs (map rev space_runes) (rev (trim_runs space_runes s)))"

lemma trim_runs_suffix: "\<exists>p. s = p @ trim_runs ws s"
proof (induction ws s rule: trim_runs.induct)
  case (1 ws s)
  show ?case
  proof (cases "find (\<lambda>w. w \<noteq> [] \<and> has_prefix s w) ws")
    case None
    then show ?thesis by (subst trim_runs.simps) simp
  next
    case (Some w)
    from 1[OF Some] obtain p where "drop (length w) s = p @ trim_runs ws (drop (length w) s)" by blast
    then have "s = (take (length w) s @ p) @ trim_runs ws (drop (length w) s)"
      by (metis append.assoc append_take_drop_id)
    moreover have "trim_runs ws s = trim_runs ws (drop (length w) s)"
      using Some by (subst trim_runs.simps) simp
    ultimately show ?thesis by metis
  qed
qed

lemma trim_space_infix: "\<exists>a b. s = a @ trim_space s @ b"
proof -
  let ?t = "trim_runs space_runes s"
  obtain a where a: "s = a @ ?t" using trim_runs_suffix by blast
  obtain b where "rev ?t = b @ trim_runs (map rev space_runes) (rev ?t)" using trim_runs_suffix by blast
  then have "?t = trim_space s @ rev b" by (metis rev_append rev_rev_ident trim_space_def)
  with a show ?thesis by metis
qed

lemma set_trim_space: "set (trim_space s) \<subseteq> set s"
  using trim_space_infix[of s] by (metis Un_upper1 Un_upper2 le_supI2 set_append subset_trans)

definition printable :: "char \<Rightarrow> bool" where
  "printable c \<longleftrightarrow> 33 \<le> byte c \<and> byte c \<le> 126"

lemma space_runes_ends:
  "w \<in> set space_runes \<Longrightarrow> w \<noteq> [] \<and> \<not> printable (hd w) \<and> \<not> printable (last w)"
proof -
  have "list_all (\<lambda>w. w \<noteq> [] \<and> \<not> printable (hd w) \<and> \<not> printable (last w)) space_runes" by code_simp
  then show "w \<in> set space_runes \<Longrightarrow> ?thesis" by (simp add: list_all_iff)
qed

lemma trim_runs_id: "\<forall>w\<in>set ws. w \<noteq> [] \<longrightarrow> \<not> has_prefix s w \<Longrightarrow> trim_runs ws s = s"
proof -
  assume "\<forall>w\<in>set ws. w \<noteq> [] \<longrightarrow> \<not> has_prefix s w"
  then have "find (\<lambda>w. w \<noteq> [] \<and> has_prefix s w) ws = None" by (auto simp: find_None_iff)
  then show ?thesis by (subst trim_runs.simps) simp
qed

text \<open>A text that starts and ends with a printable ASCII character has no white space to trim.\<close>

lemma trim_space_printable:
  assumes "s \<noteq> []" "printable (hd s)" "printable (last s)"
  shows "trim_space s = s"
proof -
  have "\<not> has_prefix s w" if "w \<in> set space_runes" for w
    using space_runes_ends[OF that] assms by (auto simp: has_prefix_iff hd_append)
  then have 1: "trim_runs space_runes s = s" by (intro trim_runs_id) blast
  have "\<not> has_prefix (rev s) w" if "w \<in> set (map rev space_runes)" for w
  proof -
    from that obtain v where v: "v \<in> set space_runes" "w = rev v" by auto
    then show ?thesis using space_runes_ends[OF v(1)] assms
      by (auto simp: has_prefix_iff) (metis append_is_Nil_conv hd_append2 hd_rev last_rev rev_is_Nil_conv rev_rev_ident)
  qed
  then have "trim_runs (map rev space_runes) (rev s) = rev s" by (intro trim_runs_id) blast
  with 1 show ?thesis by (simp add: trim_space_def)
qed

end
