(* ===== verification/JvColl.thy ===== *)
theory JvColl
  imports JvArray GoText "HOL-Library.AList"
begin

text \<open>
  Package \<^verbatim>\<open>jv\<close>, collections: \<^verbatim>\<open>Map\<close> and \<^verbatim>\<open>Set\<close> over a caller-supplied equality
  (\<^verbatim>\<open>jv/map.go\<close>, \<^verbatim>\<open>jv/set.go\<close>), the filtering iterator (\<^verbatim>\<open>jv/iter.go\<close>), the helpers on Go
  maps (\<^verbatim>\<open>jv/maputil.go\<close>) and on strings (\<^verbatim>\<open>jv/main.go\<close>).  A Go map whose iteration order
  shows is an association list with distinct keys, in the order of the iteration; the facts
  hold for every such order.
\<close>

section \<open>The interface of a keyed store\<close>

text \<open>
  What the clients of a map rely on: a key equality fixed for the store's life, and the
  lookup after an update or a deletion.
\<close>

locale keyed_store =
  fixes inv :: "'s \<Rightarrow> bool"
    and key_eq :: "'s \<Rightarrow> 'k \<Rightarrow> 'k \<Rightarrow> bool"
    and get :: "'s \<Rightarrow> 'k \<Rightarrow> 'v option"
    and put :: "'s \<Rightarrow> 'k \<Rightarrow> 'v \<Rightarrow> 's"
    and del :: "'s \<Rightarrow> 'k \<Rightarrow> 's"
  assumes inv_put: "inv s \<Longrightarrow> inv (put s k v)"
    and inv_del: "inv s \<Longrightarrow> inv (del s k)"
    and key_eq_put: "key_eq (put s k v) = key_eq s"
    and key_eq_del: "key_eq (del s k) = key_eq s"
    and key_eq_equiv: "inv s \<Longrightarrow> equivp (key_eq s)"
    and get_put: "inv s \<Longrightarrow> get (put s k v) j = (if key_eq s k j then Some v else get s j)"
    and get_del: "inv s \<Longrightarrow> get (del s k) j = (if key_eq s k j then None else get s j)"
begin

lemma get_put_same: "inv s \<Longrightarrow> get (put s k v) k = Some v"
  using key_eq_equiv[of s] by (simp add: get_put equivp_reflp)

lemma get_del_same: "inv s \<Longrightarrow> get (del s k) k = None"
  using key_eq_equiv[of s] by (simp add: get_del equivp_reflp)

lemma put_overwrites:
  assumes "inv s" and "key_eq s k k'"
  shows "get (put (put s k v) k' v') = get (put s k' v')"
proof
  fix j
  have "key_eq s k j = key_eq s k' j"
    using assms key_eq_equiv[of s] by (meson equivp_symp equivp_transp)
  with assms show "get (put (put s k v) k' v') j = get (put s k' v') j"
    by (simp add: get_put inv_put key_eq_put)
qed

lemma put_commute:
  assumes "inv s" and "\<not> key_eq s k k'"
  shows "get (put (put s k v) k' v') = get (put (put s k' v') k v)"
proof
  fix j
  have "\<not> (key_eq s k j \<and> key_eq s k' j)"
    using assms key_eq_equiv[of s] by (meson equivp_symp equivp_transp)
  with assms show "get (put (put s k v) k' v') j = get (put (put s k' v') k v) j"
    by (auto simp: get_put inv_put key_eq_put)
qed

lemma del_put: "inv s \<Longrightarrow> get (del (put s k v) k) = get (del s k)"
  by (rule ext) (simp add: get_del get_put inv_put key_eq_put)

end

section \<open>Map\<close>

record ('k, 'v) jv_map =
  jm_pairs :: "('k \<times> 'v) list"
  jm_equality :: "'k \<Rightarrow> 'k \<Rightarrow> bool"

definition new_map :: "('k \<Rightarrow> 'k \<Rightarrow> bool) \<Rightarrow> ('k, 'v) jv_map" where
  "new_map eq = \<lparr>jm_pairs = [], jm_equality = eq\<rparr>"

text \<open>\<^verbatim>\<open>First\<close> on the slice of pointers: the first pair with an equal key, or nil.\<close>

definition jm_first :: "('k, 'v) jv_map \<Rightarrow> 'k \<Rightarrow> ('k \<times> 'v) option" where
  "jm_first m key = find (\<lambda>p. jm_equality m (fst p) key) (jm_pairs m)"

text \<open>The write through the pointer \<^verbatim>\<open>First\<close> returned.\<close>

fun set_first :: "('k \<Rightarrow> 'k \<Rightarrow> bool) \<Rightarrow> 'k \<Rightarrow> 'v \<Rightarrow> ('k \<times> 'v) list \<Rightarrow> ('k \<times> 'v) list" where
  "set_first eq key value [] = []"
| "set_first eq key value ((k, v) # ps) =
     (if eq k key then (k, value) # ps else (k, v) # set_first eq key value ps)"

definition jm_set :: "('k, 'v) jv_map \<Rightarrow> 'k \<Rightarrow> 'v \<Rightarrow> ('k, 'v) jv_map \<times> bool" where
  "jm_set m key value =
     (case jm_first m key of
        None \<Rightarrow> (m\<lparr>jm_pairs := jm_pairs m @ [(key, value)]\<rparr>, True)
      | Some _ \<Rightarrow> (m\<lparr>jm_pairs := set_first (jm_equality m) key value (jm_pairs m)\<rparr>, False))"

definition jm_get :: "'v \<Rightarrow> ('k, 'v) jv_map \<Rightarrow> 'k \<Rightarrow> 'v \<times> bool" where
  "jm_get zero m key = (case jm_first m key of None \<Rightarrow> (zero, False) | Some p \<Rightarrow> (snd p, True))"

definition jm_delete :: "('k, 'v) jv_map \<Rightarrow> 'k \<Rightarrow> ('k, 'v) jv_map" where
  "jm_delete m key = m\<lparr>jm_pairs := jv_filter (jm_pairs m) (\<lambda>p. \<not> jm_equality m (fst p) key)\<rparr>"

definition jm_transform :: "'v \<Rightarrow> ('k, 'v) jv_map \<Rightarrow> 'k \<Rightarrow> ('v \<Rightarrow> 'v) \<Rightarrow> ('k, 'v) jv_map" where
  "jm_transform zero m key f = fst (jm_set m key (f (fst (jm_get zero m key))))"

definition jm_len :: "('k, 'v) jv_map \<Rightarrow> nat" where
  "jm_len m = length (jm_pairs m)"

definition jm_inv :: "('k, 'v) jv_map \<Rightarrow> bool" where
  "jm_inv m \<longleftrightarrow> equivp (jm_equality m)
     \<and> sorted_wrt (\<lambda>a b. \<not> jm_equality m a b) (map fst (jm_pairs m))"

definition jm_lookup :: "('k, 'v) jv_map \<Rightarrow> 'k \<Rightarrow> 'v option" where
  "jm_lookup m key = map_option snd (jm_first m key)"

section \<open>Set\<close>

record 'a jv_set =
  js_values :: "'a list"
  js_equality :: "'a \<Rightarrow> 'a \<Rightarrow> bool"

definition new_set :: "('a \<Rightarrow> 'a \<Rightarrow> bool) \<Rightarrow> 'a jv_set" where
  "new_set eq = \<lparr>js_values = [], js_equality = eq\<rparr>"

fun js_contains_in :: "('a \<Rightarrow> 'a \<Rightarrow> bool) \<Rightarrow> 'a list \<Rightarrow> 'a \<Rightarrow> bool" where
  "js_contains_in eq [] value = False"
| "js_contains_in eq (item # items) value = (if eq item value then True else js_contains_in eq items value)"

definition js_contains :: "'a jv_set \<Rightarrow> 'a \<Rightarrow> bool" where
  "js_contains s value = js_contains_in (js_equality s) (js_values s) value"

definition js_add :: "'a jv_set \<Rightarrow> 'a list \<Rightarrow> 'a jv_set" where
  "js_add s values =
     (let fresh = jv_filter values (\<lambda>v. \<not> js_contains s v)
      in s\<lparr>js_values := js_values s @ fresh\<rparr>)"

definition js_remove :: "'a jv_set \<Rightarrow> 'a \<Rightarrow> 'a jv_set" where
  "js_remove s value = s\<lparr>js_values := jv_filter (js_values s) (\<lambda>v. \<not> js_equality s value v)\<rparr>"

definition js_len :: "'a jv_set \<Rightarrow> nat" where
  "js_len s = length (js_values s)"

definition js_inv :: "'a jv_set \<Rightarrow> bool" where
  "js_inv s \<longleftrightarrow> equivp (js_equality s) \<and> sorted_wrt (\<lambda>a b. \<not> js_equality s a b) (js_values s)"

section \<open>Iterator\<close>

record 'a iter =
  it_src :: "'a list"
  it_position :: nat
  it_filter :: "('a \<Rightarrow> bool) option"

definition new_iter :: "'a list \<Rightarrow> 'a iter" where
  "new_iter input = \<lparr>it_src = input, it_position = 0, it_filter = None\<rparr>"

definition iter_set_filter :: "'a iter \<Rightarrow> ('a \<Rightarrow> bool) option \<Rightarrow> 'a iter" where
  "iter_set_filter i fx = i\<lparr>it_filter := fx\<rparr>"

definition iter_rejects :: "'a iter \<Rightarrow> 'a \<Rightarrow> bool" where
  "iter_rejects i item = (case it_filter i of None \<Rightarrow> False | Some f \<Rightarrow> \<not> f item)"

function iter_next :: "'a \<Rightarrow> 'a iter \<Rightarrow> ('a \<times> bool) \<times> 'a iter" where
  "iter_next zero i =
     (let index = it_position i; i' = i\<lparr>it_position := index + 1\<rparr>
      in if length (it_src i) \<le> index then ((zero, False), i')
         else if iter_rejects i (it_src i ! index) then iter_next zero i'
         else ((it_src i ! index, True), i'))"
  by pat_completeness auto
termination
  by (relation "measure (\<lambda>(zero, i). length (it_src i) - it_position i)") auto

declare iter_next.simps [simp del]

section \<open>Go maps\<close>

type_synonym ('k, 'v) gomap = "('k \<times> 'v) list"

definition gm_index :: "'v \<Rightarrow> ('k, 'v) gomap \<Rightarrow> 'k \<Rightarrow> 'v" where
  "gm_index zero m k = (case map_of m k of None \<Rightarrow> zero | Some v \<Rightarrow> v)"

definition get_map_keys :: "('k, 'v) gomap \<Rightarrow> 'k list" where
  "get_map_keys input = map fst input"

definition get_map_values :: "('k, 'v) gomap \<Rightarrow> 'v list" where
  "get_map_values input = map snd input"

fun make_bool_loop :: "('k, bool) gomap \<Rightarrow> 'k list \<Rightarrow> ('k, bool) gomap" where
  "make_bool_loop mp [] = mp"
| "make_bool_loop mp (x # xs) = make_bool_loop (AList.update x True mp) xs"

definition make_bool_map :: "'k list \<Rightarrow> ('k, bool) gomap" where
  "make_bool_map input = make_bool_loop [] input"

fun bool_map_to_array :: "('k, bool) gomap \<Rightarrow> 'k list" where
  "bool_map_to_array [] = []"
| "bool_map_to_array ((k, v) # m) = (if v then k # bool_map_to_array m else bool_map_to_array m)"

fun put_all :: "('k, 'v) gomap \<Rightarrow> ('k, 'v) gomap \<Rightarrow> ('k, 'v) gomap" where
  "put_all out [] = out"
| "put_all out ((k, v) # m) = put_all (AList.update k v out) m"

definition clone_map :: "('k, 'v) gomap \<Rightarrow> ('k, 'v) gomap" where
  "clone_map input = put_all [] input"

definition get_map_pairs :: "('k, 'v) gomap \<Rightarrow> ('k \<times> 'v) list" where
  "get_map_pairs input = map (\<lambda>(k, v). (k, v)) input"

fun count_loop :: "('k, nat) gomap \<Rightarrow> 'k list \<Rightarrow> ('k, nat) gomap" where
  "count_loop mp [] = mp"
| "count_loop mp (x # xs) = count_loop (AList.update x (gm_index 0 mp x + 1) mp) xs"

definition count_map :: "'k list \<Rightarrow> ('k, nat) gomap" where
  "count_map input = count_loop [] input"

fun clone_keys_loop :: "('k, 'v) gomap \<Rightarrow> ('k, 'v) gomap \<Rightarrow> 'k list \<Rightarrow> ('k, 'v) gomap" where
  "clone_keys_loop input out [] = out"
| "clone_keys_loop input out (k # ks) =
     (case map_of input k of
        None \<Rightarrow> clone_keys_loop input out ks
      | Some v \<Rightarrow> clone_keys_loop input (AList.update k v out) ks)"

definition clone_with_keys :: "('k, 'v) gomap \<Rightarrow> 'k list \<Rightarrow> ('k, 'v) gomap" where
  "clone_with_keys input keys = clone_keys_loop input [] keys"

definition filter_map_by_key :: "('k, 'v) gomap \<Rightarrow> 'k list \<Rightarrow> ('k, 'v) gomap" where
  "filter_map_by_key input keys = clone_with_keys input keys"

fun diff_loop0 :: "'v \<Rightarrow> ('k, 'v) gomap \<Rightarrow> ('k, 'v list) gomap \<Rightarrow> ('k, 'v) gomap \<Rightarrow> ('k, 'v list) gomap" where
  "diff_loop0 zero m1 out [] = out"
| "diff_loop0 zero m1 out ((k, v) # m0) =
     diff_loop0 zero m1 (if gm_index zero m1 k \<noteq> v then AList.update k [v, gm_index zero m1 k] out else out) m0"

fun diff_loop1 :: "'v \<Rightarrow> ('k, 'v) gomap \<Rightarrow> ('k, 'v list) gomap \<Rightarrow> ('k, 'v) gomap \<Rightarrow> ('k, 'v list) gomap" where
  "diff_loop1 zero m0 out [] = out"
| "diff_loop1 zero m0 out ((k, v) # m1) =
     diff_loop1 zero m0 (if gm_index zero m0 k \<noteq> v then AList.update k [gm_index zero m0 k, v] out else out) m1"

definition map_diff :: "'v \<Rightarrow> ('k, 'v) gomap \<Rightarrow> ('k, 'v) gomap \<Rightarrow> ('k, 'v list) gomap" where
  "map_diff zero m0 m1 = diff_loop1 zero m0 (diff_loop0 zero m1 [] m0) m1"

fun filter_map_loop :: "('k, 'v) gomap \<Rightarrow> ('k, 'v) gomap \<Rightarrow> ('k \<Rightarrow> 'v \<Rightarrow> bool) \<Rightarrow> ('k, 'v) gomap" where
  "filter_map_loop out [] incl = out"
| "filter_map_loop out ((k, v) # m) incl =
     filter_map_loop (if incl k v then AList.update k v out else out) m incl"

definition jv_filter_map :: "('k, 'v) gomap \<Rightarrow> ('k \<Rightarrow> 'v \<Rightarrow> bool) \<Rightarrow> ('k, 'v) gomap" where
  "jv_filter_map input incl = filter_map_loop [] input incl"

fun merge_maps_loop :: "('k, 'v) gomap \<Rightarrow> ('k, 'v) gomap list \<Rightarrow> ('k, 'v) gomap" where
  "merge_maps_loop out [] = out"
| "merge_maps_loop out (m # ms) = merge_maps_loop (put_all out m) ms"

definition merge_maps :: "('k, 'v) gomap list \<Rightarrow> ('k, 'v) gomap" where
  "merge_maps maps = merge_maps_loop [] maps"

section \<open>Strings and extrema\<close>

fun starts_with_any :: "(string \<Rightarrow> string) \<Rightarrow> string \<Rightarrow> string list \<Rightarrow> bool" where
  "starts_with_any uni href [] = False"
| "starts_with_any uni href (item # items) =
     (if has_prefix href (to_lower uni item) then True else starts_with_any uni href items)"

definition string_starts_with_any :: "(string \<Rightarrow> string) \<Rightarrow> string \<Rightarrow> string list \<Rightarrow> bool" where
  "string_starts_with_any uni href s = starts_with_any uni (trim_space (to_lower uni href)) s"

definition string_index_ci :: "(string \<Rightarrow> string) \<Rightarrow> string \<Rightarrow> string \<Rightarrow> int" where
  "string_index_ci uni input sub = str_index (to_lower uni input) (to_lower uni sub)"

fun string_contains_ci :: "(string \<Rightarrow> string) \<Rightarrow> string \<Rightarrow> string list \<Rightarrow> bool" where
  "string_contains_ci uni input [] = False"
| "string_contains_ci uni input (str # strs) =
     (if str_contains (to_lower uni input) (to_lower uni str) then True else string_contains_ci uni input strs)"

fun min_loop :: "'a::ord \<Rightarrow> 'a list \<Rightarrow> 'a" where
  "min_loop m [] = m"
| "min_loop m (x # xs) = min_loop (if x < m then x else m) xs"

definition jv_min :: "'a::ord list \<Rightarrow> 'a option" where
  "jv_min input = (case input of [] \<Rightarrow> None | m # _ \<Rightarrow> Some (min_loop m input))"

fun max_loop :: "'a::ord \<Rightarrow> 'a list \<Rightarrow> 'a" where
  "max_loop m [] = m"
| "max_loop m (x # xs) = max_loop (if m < x then x else m) xs"

definition jv_max :: "'a::ord list \<Rightarrow> 'a option" where
  "jv_max input = (case input of [] \<Rightarrow> None | m # _ \<Rightarrow> Some (max_loop m input))"

section \<open>Map: the store's laws\<close>

lemma jm_set_eq:
  "jm_pairs (fst (jm_set m key value)) =
     (if jm_first m key = None then jm_pairs m @ [(key, value)]
      else set_first (jm_equality m) key value (jm_pairs m))"
  and jm_equality_set [simp]: "jm_equality (fst (jm_set m key value)) = jm_equality m"
  by (auto simp: jm_set_def split: option.splits)

lemma jm_equality_delete [simp]: "jm_equality (jm_delete m key) = jm_equality m"
  by (simp add: jm_delete_def)

lemma map_fst_set_first [simp]: "map fst (set_first eq key vl ps) = map fst ps"
  by (induction eq key vl ps rule: set_first.induct) auto

lemma jm_first_None: "jm_first m key = None \<longleftrightarrow> (\<forall>p\<in>set (jm_pairs m). \<not> jm_equality m (fst p) key)"
  by (auto simp: jm_first_def find_None_iff)

lemma jm_inv_set:
  assumes "jm_inv m"
  shows "jm_inv (fst (jm_set m key value))"
proof -
  have "sorted_wrt (\<lambda>a b. \<not> jm_equality m a b) (map fst (jm_pairs m @ [(key, value)]))"
    if "jm_first m key = None"
    using assms that by (auto simp: jm_inv_def jm_first_None sorted_wrt_append)
  with assms show ?thesis
    by (auto simp: jm_inv_def jm_set_eq)
qed

lemma jm_inv_delete: "jm_inv m \<Longrightarrow> jm_inv (jm_delete m key)"
  by (auto simp: jm_inv_def jm_delete_def sorted_wrt_map sorted_wrt_filter)

lemma find_set_first:
  assumes "equivp eq"
  shows "map_option snd (find (\<lambda>p. eq (fst p) j) (set_first eq key value ps)) =
     (if eq key j \<and> (\<exists>p\<in>set ps. eq (fst p) key) then Some value
      else map_option snd (find (\<lambda>p. eq (fst p) j) ps))"
proof (induction ps)
  case Nil
  then show ?case by simp
next
  case (Cons p ps)
  obtain k v where p: "p = (k, v)" by fastforce
  have "eq k key \<Longrightarrow> eq k j \<longleftrightarrow> eq key j" using assms by (meson equivp_symp equivp_transp)
  moreover have "eq key j \<Longrightarrow> eq k key \<longleftrightarrow> eq k j" using assms by (meson equivp_symp equivp_transp)
  ultimately show ?case
    by (cases "eq k key"; cases "eq key j"; cases "eq k j") (simp_all add: p Cons del: map_option_eq_Some)
qed

lemma find_append: "find P (xs @ ys) = (case find P xs of None \<Rightarrow> find P ys | Some x \<Rightarrow> Some x)"
  by (induction xs) auto

lemma jm_lookup_set:
  assumes "jm_inv m"
  shows "jm_lookup (fst (jm_set m key value)) j = (if jm_equality m key j then Some value else jm_lookup m j)"
proof (cases "jm_first m key")
  case None
  have e: "equivp (jm_equality m)" using assms by (simp add: jm_inv_def)
  have "jm_equality m key j \<Longrightarrow> find (\<lambda>p. jm_equality m (fst p) j) (jm_pairs m) = None"
    using None e unfolding jm_first_None find_None_iff by (metis equivp_symp equivp_transp)
  then show ?thesis using None
    by (auto simp: jm_lookup_def jm_first_def jm_set_eq find_append split: option.splits)
next
  case (Some p)
  then have "\<exists>p\<in>set (jm_pairs m). jm_equality m (fst p) key" using jm_first_None[of m key] by auto
  with Some assms show ?thesis
    using find_set_first[of "jm_equality m" j key "value" "jm_pairs m"]
    by (simp add: jm_lookup_def jm_first_def jm_set_eq jm_inv_def)
qed

lemma jm_lookup_delete:
  assumes "jm_inv m"
  shows "jm_lookup (jm_delete m key) j = (if jm_equality m key j then None else jm_lookup m j)"
proof -
  have e: "equivp (jm_equality m)" using assms by (simp add: jm_inv_def)
  have "find (\<lambda>p. jm_equality m (fst p) j) (filter (\<lambda>p. \<not> jm_equality m (fst p) key) ps)
      = (if jm_equality m key j then None else find (\<lambda>p. jm_equality m (fst p) j) ps)" for ps :: "('a \<times> 'b) list"
  proof (induction ps)
    case (Cons p ps)
    have "jm_equality m key j \<Longrightarrow> jm_equality m (fst p) key \<longleftrightarrow> jm_equality m (fst p) j"
      and "jm_equality m (fst p) key \<Longrightarrow> jm_equality m (fst p) j \<longleftrightarrow> jm_equality m key j"
      using e by (meson equivp_symp equivp_transp)+
    with Cons show ?case by (cases "jm_equality m (fst p) key") simp_all
  qed simp
  then show ?thesis by (simp add: jm_lookup_def jm_first_def jm_delete_def)
qed

interpretation jm: keyed_store jm_inv jm_equality jm_lookup "\<lambda>m k v. fst (jm_set m k v)" jm_delete
  by unfold_locales (simp_all add: jm_inv_set jm_inv_delete jm_lookup_set jm_lookup_delete, simp add: jm_inv_def)

text \<open>
  After \<^verbatim>\<open>Set(k, v)\<close>, \<^verbatim>\<open>Get\<close> answers \<open>v\<close> on every key equal to \<open>k\<close> and as before on the
  others, the report of \<^verbatim>\<open>Set\<close> is whether the key was new, and the length grows just then;
  after \<^verbatim>\<open>Delete(k)\<close> the keys equal to \<open>k\<close> are absent and the others untouched.
\<close>

theorem jv_map_laws:
  assumes "jm_inv m"
  shows "jm_get zero (fst (jm_set m k v)) j = (if jm_equality m k j then (v, True) else jm_get zero m j)
    \<and> (snd (jm_set m k v) \<longleftrightarrow> \<not> snd (jm_get zero m k))
    \<and> jm_len (fst (jm_set m k v)) = (if snd (jm_get zero m k) then jm_len m else jm_len m + 1)
    \<and> jm_get zero (jm_delete m k) j = (if jm_equality m k j then (zero, False) else jm_get zero m j)
    \<and> jm_inv (fst (jm_set m k v)) \<and> jm_inv (jm_delete m k)"
proof -
  have g: "jm_get zero n i = (case jm_lookup n i of None \<Rightarrow> (zero, False) | Some x \<Rightarrow> (x, True))" for n :: "('a, 'b) jv_map" and i
    by (simp add: jm_get_def jm_lookup_def split: option.splits)
  have l: "length (set_first eq k v ps) = length ps" for eq ps
    by (metis length_map map_fst_set_first)
  have "snd (jm_set m k v) \<longleftrightarrow> jm_first m k = None"
    and "jm_len (fst (jm_set m k v)) = (if jm_first m k = None then jm_len m + 1 else jm_len m)"
    by (auto simp: jm_set_def jm_len_def l split: option.splits)
  moreover have "snd (jm_get zero m k) \<longleftrightarrow> jm_first m k \<noteq> None"
    by (simp add: jm_get_def split: option.splits)
  moreover have "jm_get zero (fst (jm_set m k v)) j = (if jm_equality m k j then (v, True) else jm_get zero m j)"
    and "jm_get zero (jm_delete m k) j = (if jm_equality m k j then (zero, False) else jm_get zero m j)"
    unfolding g using assms by (simp_all add: jm.get_put jm.get_del)
  ultimately show ?thesis
    using jm.inv_put[OF assms, of k v] jm.inv_del[OF assms, of k] by (cases "jm_first m k") simp_all
qed

theorem jv_map_laws_witness:
  "jm_get 0 (fst (jm_set (new_map (\<lambda>a b. a mod 10 = b mod (10 :: nat))) 3 (7 :: int))) 13 = (7, True)"
proof -
  have "jm_inv (new_map (\<lambda>a b. a mod 10 = b mod (10 :: nat)) :: (nat, int) jv_map)"
    by (auto simp: jm_inv_def new_map_def intro!: equivpI reflpI sympI transpI)
  from jv_map_laws[OF this, of 0 3 7 13] show ?thesis by (simp add: new_map_def)
qed

lemma jm_transform_lookup:
  "jm_inv m \<Longrightarrow> jm_lookup (jm_transform zero m key f) j =
     (if jm_equality m key j then Some (f (fst (jm_get zero m key))) else jm_lookup m j)"
  by (simp add: jm_transform_def jm_lookup_set)

section \<open>Set: one value at a time\<close>

lemma js_contains_iff: "js_contains s v \<longleftrightarrow> (\<exists>x\<in>set (js_values s). js_equality s x v)"
proof -
  have "js_contains_in eq xs v \<longleftrightarrow> (\<exists>x\<in>set xs. eq x v)" for eq xs
    by (induction xs) auto
  then show ?thesis by (simp add: js_contains_def)
qed

lemma js_add_contains:
  assumes "reflp (js_equality s)"
  shows "js_contains (js_add s vs) x \<longleftrightarrow> js_contains s x \<or> (\<exists>v\<in>set vs. js_equality s v x \<and> \<not> js_contains s v)"
  by (auto simp: js_contains_iff js_add_def Let_def)

lemma js_remove_contains:
  assumes "equivp (js_equality s)"
  shows "js_contains (js_remove s v) x \<longleftrightarrow> js_contains s x \<and> \<not> js_equality s v x"
  using assms by (auto simp: js_contains_iff js_remove_def dest: equivp_symp equivp_transp)

text \<open>
  Adding one value keeps the values pairwise different, makes the value a member and
  changes no other membership; removing a value removes exactly its equals.
\<close>

theorem jv_set_laws:
  assumes "js_inv s"
  shows "js_inv (js_add s [v]) \<and> js_inv (js_remove s v)
    \<and> (js_contains (js_add s [v]) x \<longleftrightarrow> js_contains s x \<or> js_equality s v x)
    \<and> (js_contains (js_remove s v) x \<longleftrightarrow> js_contains s x \<and> \<not> js_equality s v x)
    \<and> js_len (js_add s [v]) = (if js_contains s v then js_len s else js_len s + 1)"
proof -
  have e: "equivp (js_equality s)" and d: "sorted_wrt (\<lambda>a b. \<not> js_equality s a b) (js_values s)"
    using assms by (auto simp: js_inv_def)
  have c: "js_contains (js_add s [v]) x \<longleftrightarrow> js_contains s x \<or> js_equality s v x"
    using e by (auto simp: js_contains_iff js_add_def Let_def dest: equivp_symp equivp_transp)
  have "js_inv (js_add s [v])" and "js_inv (js_remove s v)"
    using e d by (auto simp: js_inv_def js_add_def js_remove_def Let_def js_contains_iff sorted_wrt_append sorted_wrt_filter)
  with c e show ?thesis by (auto simp: js_remove_contains js_len_def js_add_def Let_def)
qed

theorem jv_set_laws_witness:
  "js_contains (js_add (js_add (new_set (=)) [1 :: int]) [2]) 1 \<and> js_inv (js_add (new_set (=)) [1 :: int])"
proof -
  have "js_inv (new_set (=) :: int jv_set)" by (simp add: js_inv_def new_set_def identity_equivp)
  from jv_set_laws[OF this, of 1 1]
  have i: "js_inv (js_add (new_set (=)) [1 :: int])" and "js_contains (js_add (new_set (=)) [1 :: int]) 1"
    by (simp_all add: new_set_def)
  with jv_set_laws[OF i, of 2 1] show ?thesis by simp
qed

text \<open>The variadic \<^verbatim>\<open>Add\<close> checks its arguments against the old values only: equal arguments are all added.\<close>

lemma js_add_duplicates: "js_values (js_add (new_set (=)) [1, 1 :: int]) = [1, 1]"
  by (simp add: js_add_def new_set_def js_contains_def Let_def)

section \<open>Iterator: draining yields the filtered rest\<close>

function iter_drain :: "'a \<Rightarrow> 'a iter \<Rightarrow> 'a list" where
  "iter_drain zero i =
     (case iter_next zero i of ((x, ok), i') \<Rightarrow> if ok then x # iter_drain zero i' else [])"
  by pat_completeness auto

lemma iter_next_progress:
  "iter_next zero i = ((x, True), i') \<Longrightarrow>
     it_src i' = it_src i \<and> it_filter i' = it_filter i \<and> it_position i < it_position i'
     \<and> it_position i < length (it_src i)
     \<and> filter (\<lambda>y. \<not> iter_rejects i y) (drop (it_position i) (it_src i))
         = x # filter (\<lambda>y. \<not> iter_rejects i y) (drop (it_position i') (it_src i))"
proof (induction zero i rule: iter_next.induct)
  case (1 zero i)
  let ?i = "i\<lparr>it_position := it_position i + 1\<rparr>"
  have p: "it_position i < length (it_src i)"
    using 1(2) by (subst (asm) iter_next.simps) (auto simp: Let_def split: if_splits)
  then have d: "drop (it_position i) (it_src i) = it_src i ! it_position i # drop (it_position i + 1) (it_src i)"
    by (simp add: Cons_nth_drop_Suc)
  show ?case
  proof (cases "iter_rejects i (it_src i ! it_position i)")
    case True
    with p 1(2) have n: "iter_next zero ?i = ((x, True), i')"
      by (subst (asm) iter_next.simps) (simp add: Let_def)
    have r: "iter_rejects ?i = iter_rejects i" by (simp add: iter_rejects_def fun_eq_iff)
    from 1(1)[OF refl refl _ True n] p d True r show ?thesis by auto
  next
    case False
    with p 1(2) have "x = it_src i ! it_position i" and "i' = ?i"
      by (subst (asm) iter_next.simps, simp add: Let_def)+
    with p d False show ?thesis by simp
  qed
qed

lemma iter_next_end:
  "iter_next zero i = ((x, False), i') \<Longrightarrow> filter (\<lambda>y. \<not> iter_rejects i y) (drop (it_position i) (it_src i)) = []"
proof (induction zero i rule: iter_next.induct)
  case (1 zero i)
  let ?i = "i\<lparr>it_position := it_position i + 1\<rparr>"
  show ?case
  proof (cases "it_position i < length (it_src i)")
    case False
    then show ?thesis by simp
  next
    case p: True
    then have d: "drop (it_position i) (it_src i) = it_src i ! it_position i # drop (it_position i + 1) (it_src i)"
      by (simp add: Cons_nth_drop_Suc)
    from p 1(2) have r: "iter_rejects i (it_src i ! it_position i)" and n: "iter_next zero ?i = ((x, False), i')"
      by (subst (asm) iter_next.simps, simp add: Let_def split: if_splits)+
    have "iter_rejects ?i = iter_rejects i" by (simp add: iter_rejects_def fun_eq_iff)
    with 1(1)[OF refl refl _ r n] p d r show ?thesis by simp
  qed
qed

termination iter_drain
  by (relation "measure (\<lambda>(zero, i). length (it_src i) - it_position i)")
    (auto dest!: iter_next_progress[OF sym])

declare iter_drain.simps [simp del]

text \<open>Calling \<^verbatim>\<open>Next\<close> until it reports the end yields the remaining elements the filter keeps, in order.\<close>

theorem iter_drain_filters:
  "iter_drain zero i = filter (\<lambda>x. \<not> iter_rejects i x) (drop (it_position i) (it_src i))"
proof (induction zero i rule: iter_drain.induct)
  case (1 zero i)
  obtain x ok i' where n: "iter_next zero i = ((x, ok), i')" by (metis prod.exhaust)
  show ?case
  proof (cases ok)
    case True
    with n have n': "iter_next zero i = ((x, True), i')" by simp
    have "iter_rejects i' = iter_rejects i"
      using iter_next_progress[OF n'] by (simp add: iter_rejects_def fun_eq_iff)
    with 1[OF n[symmetric] refl True] iter_next_progress[OF n'] n' show ?thesis
      by (subst iter_drain.simps) simp
  next
    case False
    with n iter_next_end[of zero i x i'] show ?thesis by (subst iter_drain.simps) simp
  qed
qed

section \<open>Go maps\<close>

lemma make_bool_loop_eq: "map_of (make_bool_loop mp xs) k = (if k \<in> set xs then Some True else map_of mp k)"
  by (induction mp xs rule: make_bool_loop.induct) (auto simp: update_conv')

lemma put_all_eq: "map_of (put_all out m) = map_of out ++ map_of (rev m)"
proof (induction out m rule: put_all.induct)
  case (2 out k v m)
  then show ?case by (auto simp: update_conv' map_add_def fun_eq_iff split: option.splits)
qed simp

lemma map_of_rev_same: "distinct (map fst m) \<Longrightarrow> map_of (rev m) = map_of m"
  using map_of_inject_set[of "rev m" m] by (simp add: rev_map[symmetric])

lemma put_all_distinct:
  "distinct (map fst m) \<Longrightarrow> map_of (put_all out m) = map_of out ++ map_of m"
  by (simp add: put_all_eq map_of_rev_same)

lemma count_loop_eq: "gm_index 0 (count_loop mp xs) k = gm_index 0 mp k + count_list xs k"
  by (induction mp xs rule: count_loop.induct) (auto simp: gm_index_def update_conv')

lemma count_map_counts: "gm_index 0 (count_map xs) k = count_list xs k"
  by (simp add: count_map_def count_loop_eq) (simp add: gm_index_def)

lemma clone_keys_loop_eq:
  "map_of (clone_keys_loop input out ks) k =
     (if k \<in> set ks \<and> map_of input k \<noteq> None then map_of input k else map_of out k)"
  by (induction ks arbitrary: out) (auto simp: update_conv' split: option.splits)

lemma clone_with_keys_restricts: "map_of (clone_with_keys input ks) = map_of input |` set ks"
  by (rule ext) (simp add: clone_with_keys_def clone_keys_loop_eq restrict_map_def)

lemma diff_loop0_eq:
  "distinct (map fst m0) \<Longrightarrow> map_of (diff_loop0 zero m1 out m0) k =
     (case map_of m0 k of None \<Rightarrow> map_of out k
      | Some v \<Rightarrow> if gm_index zero m1 k \<noteq> v then Some [v, gm_index zero m1 k] else map_of out k)"
  by (induction zero m1 out m0 rule: diff_loop0.induct)
    (auto simp: update_conv' split: option.splits dest: map_of_SomeD intro: rev_image_eqI)

lemma diff_loop1_eq:
  "distinct (map fst m1) \<Longrightarrow> map_of (diff_loop1 zero m0 out m1) k =
     (case map_of m1 k of None \<Rightarrow> map_of out k
      | Some v \<Rightarrow> if gm_index zero m0 k \<noteq> v then Some [gm_index zero m0 k, v] else map_of out k)"
  by (induction zero m0 out m1 rule: diff_loop1.induct)
    (auto simp: update_conv' split: option.splits dest: map_of_SomeD intro: rev_image_eqI)

text \<open>
  Whatever the iteration order, \<^verbatim>\<open>MapDiff\<close> maps exactly the keys whose values differ (an
  absent key counting as the zero value) to the pair of the old and the new value.
\<close>

theorem map_diff_correct:
  assumes "distinct (map fst m0)" and "distinct (map fst m1)"
  shows "map_of (map_diff zero m0 m1) k =
    (if gm_index zero m0 k \<noteq> gm_index zero m1 k
     then Some [gm_index zero m0 k, gm_index zero m1 k] else None)"
  using assms
  by (auto simp: map_diff_def diff_loop0_eq diff_loop1_eq gm_index_def split: option.splits)

theorem map_diff_correct_witness:
  "map_of (map_diff 0 [(''a'', 1 :: int), (''b'', 2)] [(''b'', 3)]) ''a'' = Some [1, 0]"
  using map_diff_correct[of "[(''a'', 1 :: int), (''b'', 2)]" "[(''b'', 3)]" 0 "''a''"]
  by (simp add: gm_index_def)

lemma filter_map_loop_eq:
  "distinct (map fst m) \<Longrightarrow> map_of (filter_map_loop out m incl) k =
     (case map_of m k of None \<Rightarrow> map_of out k | Some v \<Rightarrow> if incl k v then Some v else map_of out k)"
  by (induction out m incl rule: filter_map_loop.induct)
    (auto simp: update_conv' split: option.splits dest: map_of_SomeD intro: rev_image_eqI)

lemma merge_maps_loop_eq:
  "\<forall>m\<in>set ms. distinct (map fst m) \<Longrightarrow> map_of (merge_maps_loop out ms) = foldl (++) (map_of out) (map map_of ms)"
  by (induction out ms rule: merge_maps_loop.induct) (auto simp: put_all_distinct)

lemma merge_maps_eq:
  "\<forall>m\<in>set ms. distinct (map fst m) \<Longrightarrow> map_of (merge_maps ms) = foldl (++) Map.empty (map map_of ms)"
  by (simp add: merge_maps_def merge_maps_loop_eq)

lemma min_loop_least:
  fixes xs :: "'a::linorder list"
  shows "min_loop m xs \<in> insert m (set xs) \<and> (\<forall>x\<in>insert m (set xs). min_loop m xs \<le> x)"
  by (induction m xs rule: min_loop.induct) (auto simp: not_less intro: le_trans less_imp_le split: if_splits)

lemma max_loop_greatest:
  fixes xs :: "'a::linorder list"
  shows "max_loop m xs \<in> insert m (set xs) \<and> (\<forall>x\<in>insert m (set xs). x \<le> max_loop m xs)"
  by (induction m xs rule: max_loop.induct) (auto simp: not_less intro: le_trans less_imp_le split: if_splits)

end
