(* ===== verification/ModelTx.thy ===== *)
theory ModelTx
  imports GoPrelude
begin

text \<open>
  Package \<^verbatim>\<open>model\<close>, transactions: \<^verbatim>\<open>model/tx.go\<close>, the callback registration of
  \<^verbatim>\<open>model/main.go\<close>, the HTTP middleware of \<^verbatim>\<open>model/middleware.go\<close> and the scheduler of
  \<^verbatim>\<open>model/schedule.go\<close>.  The database driver is not part of the program: what its \<^verbatim>\<open>Begin\<close>,
  \<^verbatim>\<open>Commit\<close> and \<^verbatim>\<open>Rollback\<close> answer is an argument (\<^const>\<open>None\<close> for no error) of the
  operation that calls it.  A transaction carries the database it started from and its
  working copy; a successful commit publishes the copy.  Callbacks are labels, and running
  one appends it to the trace.
\<close>

section \<open>The transaction record\<close>

datatype 'c db_event = DbCommit bool | DbRollback bool | Ran 'c

record ('s, 'c) tx_info =
  commit_called :: bool
  rollback_called :: bool
  trace_id :: string
  commit_callbacks :: "'c list"
  rollback_callbacks :: "'c list"
  last_error :: "string option"
  db_base :: 's
  db_work :: 's
  tx_trace :: "'c db_event list"

datatype tx_error = ErrCommitAlreadyCalled | ErrNoRows | DbError string | ErrOther string

definition begin_tx :: "string \<Rightarrow> 's \<Rightarrow> ('s, 'c) tx_info" where
  "begin_tx trace db = \<lparr>commit_called = False, rollback_called = False, trace_id = trace,
     commit_callbacks = [], rollback_callbacks = [], last_error = None,
     db_base = db, db_work = db, tx_trace = []\<rparr>"

definition report_tx_error :: "tx_error option \<Rightarrow> ('s, 'c) tx_info \<Rightarrow> ('s, 'c) tx_info" where
  "report_tx_error err t =
     (case err of
        None \<Rightarrow> t
      | Some ErrNoRows \<Rightarrow> t
      | Some (DbError e) \<Rightarrow> t\<lparr>last_error := Some e\<rparr>
      | Some (ErrOther e) \<Rightarrow> t\<lparr>last_error := Some e\<rparr>
      | Some ErrCommitAlreadyCalled \<Rightarrow> t\<lparr>last_error := Some ''transaction already closed''\<rparr>)"

definition run_callbacks :: "'c list \<Rightarrow> ('s, 'c) tx_info \<Rightarrow> ('s, 'c) tx_info" where
  "run_callbacks cs t = t\<lparr>tx_trace := tx_trace t @ map Ran cs\<rparr>"

text \<open>\<^verbatim>\<open>Rollback\<close>: marks the transaction closed before it calls the driver.\<close>

definition tx_rollback :: "string option \<Rightarrow> ('s, 'c) tx_info \<Rightarrow> tx_error option \<times> ('s, 'c) tx_info" where
  "tx_rollback rb t =
     (if commit_called t then (Some ErrCommitAlreadyCalled, t)
      else let t1 = t\<lparr>commit_called := True, rollback_called := True,
                      db_work := db_base t, tx_trace := tx_trace t @ [DbRollback (rb = None)]\<rparr>
           in (map_option DbError rb, run_callbacks (rollback_callbacks t1) t1))"

definition tx_commit :: "string option \<Rightarrow> ('s, 'c) tx_info \<Rightarrow> tx_error option \<times> ('s, 'c) tx_info" where
  "tx_commit cm t =
     (if commit_called t then (Some ErrCommitAlreadyCalled, t)
      else let t1 = t\<lparr>commit_called := True, tx_trace := tx_trace t @ [DbCommit (cm = None)]\<rparr>
           in (case cm of
                 Some e \<Rightarrow> (Some (DbError e), run_callbacks (rollback_callbacks t1) (t1\<lparr>db_work := db_base t1\<rparr>))
               | None \<Rightarrow> (None, run_callbacks (commit_callbacks t1) (t1\<lparr>db_base := db_work t1\<rparr>))))"

text \<open>The \<^verbatim>\<open>cleanup\<close> function returned by \<^verbatim>\<open>BeginTx2\<close>.\<close>

definition tx_cleanup :: "string option \<Rightarrow> ('s, 'c) tx_info \<Rightarrow> ('s, 'c) tx_info" where
  "tx_cleanup rb t =
     (if commit_called t then t
      else if rollback_called t then t
      else snd (tx_rollback rb t))"

definition on_committed :: "'c \<Rightarrow> ('s, 'c) tx_info \<Rightarrow> ('s, 'c) tx_info" where
  "on_committed cb t =
     (if commit_called t then run_callbacks [cb] t
      else t\<lparr>commit_callbacks := commit_callbacks t @ [cb]\<rparr>)"

definition on_rolled_back_or_commit_failed :: "'c \<Rightarrow> ('s, 'c) tx_info \<Rightarrow> ('s, 'c) tx_info" where
  "on_rolled_back_or_commit_failed cb t =
     (if commit_called t then run_callbacks [cb] t
      else t\<lparr>rollback_callbacks := rollback_callbacks t @ [cb]\<rparr>)"

text \<open>A statement run inside the transaction changes the working copy while the transaction is open.\<close>

definition tx_write :: "('s \<Rightarrow> 's) \<Rightarrow> ('s, 'c) tx_info \<Rightarrow> ('s, 'c) tx_info" where
  "tx_write f t = (if commit_called t then t else t\<lparr>db_work := f (db_work t)\<rparr>)"

section \<open>WithTx\<close>

text \<open>What a callback run inside a transaction can do: return, return an error, or panic.\<close>

datatype outcome = Finished | Failed tx_error | Panicked string

text \<open>
  \<^verbatim>\<open>WithTx2\<close>: begin, run the callback, commit unless it failed; the deferred cleanup runs on
  every way out, a panic included.  \<open>r\<close> holds the variables the Go closure captures: what
  the callback assigns to them survives a rollback.
\<close>

definition with_tx2 ::
  "string option \<Rightarrow> string option \<Rightarrow> string option \<Rightarrow>
   ('r \<Rightarrow> ('s, 'c) tx_info \<Rightarrow> outcome \<times> 'r \<times> ('s, 'c) tx_info) \<Rightarrow> 'r \<Rightarrow> 's \<Rightarrow>
   outcome \<times> 'r \<times> ('s, 'c) tx_info" where
  "with_tx2 bg cm rb body r db =
     (case bg of
        Some e \<Rightarrow> (Failed (DbError e), r, begin_tx ''with-tx'' db)
      | None \<Rightarrow>
          (case body r (begin_tx ''with-tx'' db) of
             (Finished, r1, t1) \<Rightarrow>
               (case tx_commit cm t1 of
                  (None, t2) \<Rightarrow> (Finished, r1, tx_cleanup rb t2)
                | (Some e, t2) \<Rightarrow> (Failed e, r1, tx_cleanup rb t2))
           | (Failed e, r1, t1) \<Rightarrow> (Failed e, r1, tx_cleanup rb t1)
           | (Panicked p, r1, t1) \<Rightarrow> (Panicked p, r1, tx_cleanup rb t1)))"

text \<open>\<^verbatim>\<open>WithTx\<close> is \<^verbatim>\<open>WithTx2\<close> at the default isolation level, which is the driver's concern.\<close>

definition with_tx ::
  "string option \<Rightarrow> string option \<Rightarrow> string option \<Rightarrow>
   ('r \<Rightarrow> ('s, 'c) tx_info \<Rightarrow> outcome \<times> 'r \<times> ('s, 'c) tx_info) \<Rightarrow> 'r \<Rightarrow> 's \<Rightarrow>
   outcome \<times> 'r \<times> ('s, 'c) tx_info" where
  "with_tx bg cm rb body r db = with_tx2 bg cm rb body r db"

section \<open>The middleware\<close>

text \<open>
  What the handler behind \<^verbatim>\<open>AttachTxHandler\<close> leaves behind: the status its wrapped writer
  recorded (\<open>0\<close> when it wrote nothing), or a panic.
\<close>

datatype handler_result = HandlerReturned nat | HandlerPanicked string

datatype tx_response = PassedThrough | BeginFailed | Served nat | ServedError | Unwound string

record tx_router =
  ignore_paths :: "string list"
  rt_isolation :: nat
  rt_readonly :: bool

fun path_ignored :: "string list \<Rightarrow> string \<Rightarrow> bool" where
  "path_ignored [] path = False"
| "path_ignored (p # ps) path = (if path = p then True else path_ignored ps path)"

definition tx_router_serve ::
  "tx_router \<Rightarrow> string \<Rightarrow> bool \<Rightarrow> string option \<Rightarrow> string option \<Rightarrow> string option \<Rightarrow>
   (('s, 'c) tx_info \<Rightarrow> handler_result \<times> ('s, 'c) tx_info) \<Rightarrow> 's \<Rightarrow>
   tx_response \<times> ('s, 'c) tx_info option" where
  "tx_router_serve router path websocket bg cm rb handler db =
     (if path_ignored (ignore_paths router) path then (PassedThrough, None)
      else if websocket then (PassedThrough, None)
      else (case bg of
          Some e \<Rightarrow> (BeginFailed, None)
        | None \<Rightarrow>
            (case handler (begin_tx ''tx-router:'' db) of
               (HandlerPanicked p, t1) \<Rightarrow> (Unwound p, Some (tx_cleanup rb t1))
             | (HandlerReturned status, t1) \<Rightarrow>
                 if commit_called t1 then (Served status, Some (tx_cleanup rb t1))
                 else if 400 \<le> status then
                   (Served status, Some (tx_cleanup rb (snd (tx_rollback rb t1))))
                 else (case tx_commit cm t1 of
                     (None, t2) \<Rightarrow> (Served status, Some (tx_cleanup rb t2))
                   | (Some e, t2) \<Rightarrow>
                       (if status = 0 then ServedError else Served status, Some (tx_cleanup rb t2))))))"

text \<open>The wrapped writer: the first body byte without a status means 200.\<close>

record write_wrapper =
  ww_status :: nat
  ww_sent :: "nat list"

definition ww_write_header :: "nat \<Rightarrow> write_wrapper \<Rightarrow> write_wrapper" where
  "ww_write_header code h = h\<lparr>ww_status := code, ww_sent := ww_sent h @ [code]\<rparr>"

definition ww_write :: "write_wrapper \<Rightarrow> write_wrapper" where
  "ww_write h = (if ww_status h = 0 then ww_write_header 200 h else h)"

section \<open>The operations as steps\<close>

datatype 'c tx_op =
    OpCommit "string option"
  | OpRollback "string option"
  | OpCleanup "string option"
  | OpOnCommitted 'c
  | OpOnRolledBack 'c
  | OpReport "tx_error option"

fun tx_exec :: "'c tx_op \<Rightarrow> ('s, 'c) tx_info \<Rightarrow> ('s, 'c) tx_info" where
  "tx_exec (OpCommit cm) t = snd (tx_commit cm t)"
| "tx_exec (OpRollback rb) t = snd (tx_rollback rb t)"
| "tx_exec (OpCleanup rb) t = tx_cleanup rb t"
| "tx_exec (OpOnCommitted cb) t = on_committed cb t"
| "tx_exec (OpOnRolledBack cb) t = on_rolled_back_or_commit_failed cb t"
| "tx_exec (OpReport e) t = report_tx_error e t"

inductive tx_step :: "('s, 'c) tx_info \<Rightarrow> ('s, 'c) tx_info \<Rightarrow> bool" where
  step_op: "tx_step t (tx_exec op t)"
| step_write: "tx_step t (tx_write f t)"

inductive tx_reach :: "'s \<Rightarrow> ('s, 'c) tx_info \<Rightarrow> bool" for db where
  reach_begin: "tx_reach db (begin_tx trace db)"
| reach_step: "tx_reach db t \<Longrightarrow> tx_step t u \<Longrightarrow> tx_reach db u"

section \<open>Facts\<close>

text \<open>The driver calls of a transaction, in order.\<close>

fun is_final :: "'c db_event \<Rightarrow> bool" where
  "is_final (DbCommit ok) = True"
| "is_final (DbRollback ok) = True"
| "is_final (Ran c) = False"

definition finals :: "('s, 'c) tx_info \<Rightarrow> 'c db_event list" where
  "finals t = filter is_final (tx_trace t)"

lemma finals_run [simp]: "finals (run_callbacks cs t) = finals t"
  by (simp add: finals_def run_callbacks_def filter_map o_def)

lemma finals_snoc [simp]: "finals (t\<lparr>tx_trace := tx_trace t @ [e]\<rparr>) = finals t @ filter is_final [e]"
  by (simp add: finals_def)

text \<open>
  The invariant: an open transaction has not called the driver and has published nothing;
  a closed one has called it exactly once, has no uncommitted work left, and has published
  its work exactly when that call was a successful commit.
\<close>

definition tx_inv :: "'s \<Rightarrow> ('s, 'c) tx_info \<Rightarrow> bool" where
  "tx_inv db t \<longleftrightarrow>
     (\<not> commit_called t \<longrightarrow> \<not> rollback_called t \<and> tx_trace t = [] \<and> db_base t = db)
   \<and> (commit_called t \<longrightarrow> db_work t = db_base t
        \<and> (finals t = [DbCommit True] \<and> \<not> rollback_called t
           \<or> finals t = [DbCommit False] \<and> \<not> rollback_called t \<and> db_base t = db
           \<or> (\<exists>ok. finals t = [DbRollback ok]) \<and> rollback_called t \<and> db_base t = db))"

lemma run_callbacks_fields [simp]:
  "commit_called (run_callbacks cs t) = commit_called t"
  "rollback_called (run_callbacks cs t) = rollback_called t"
  "db_base (run_callbacks cs t) = db_base t"
  "db_work (run_callbacks cs t) = db_work t"
  "tx_trace (run_callbacks cs t) = tx_trace t @ map Ran cs"
  by (simp_all add: run_callbacks_def)

lemma finals_update [simp]:
  "finals (t\<lparr>commit_called := a\<rparr>) = finals t"
  "finals (t\<lparr>rollback_called := a\<rparr>) = finals t"
  "finals (t\<lparr>db_base := d\<rparr>) = finals t"
  "finals (t\<lparr>db_work := d\<rparr>) = finals t"
  "finals (t\<lparr>commit_callbacks := c\<rparr>) = finals t"
  "finals (t\<lparr>rollback_callbacks := c\<rparr>) = finals t"
  "finals (t\<lparr>last_error := e\<rparr>) = finals t"
  by (simp_all add: finals_def)

lemma tx_inv_begin: "tx_inv db (begin_tx trace db)"
  by (simp add: tx_inv_def begin_tx_def)

lemma tx_inv_commit: "tx_inv db t \<Longrightarrow> tx_inv db (snd (tx_commit cm t))"
  by (auto simp: tx_commit_def tx_inv_def Let_def finals_def filter_map o_def split: option.splits)

lemma tx_inv_rollback: "tx_inv db t \<Longrightarrow> tx_inv db (snd (tx_rollback rb t))"
  by (auto simp: tx_rollback_def tx_inv_def Let_def finals_def filter_map o_def)

lemma tx_inv_cleanup: "tx_inv db t \<Longrightarrow> tx_inv db (tx_cleanup rb t)"
  by (simp add: tx_cleanup_def tx_inv_rollback)

lemma tx_inv_register:
  "tx_inv db t \<Longrightarrow> tx_inv db (on_committed cb t)"
  "tx_inv db t \<Longrightarrow> tx_inv db (on_rolled_back_or_commit_failed cb t)"
  by (auto simp: on_committed_def on_rolled_back_or_commit_failed_def tx_inv_def)

lemma tx_inv_report: "tx_inv db t \<Longrightarrow> tx_inv db (report_tx_error e t)"
  by (auto simp: report_tx_error_def tx_inv_def split: option.splits tx_error.splits)

lemma tx_inv_write: "tx_inv db t \<Longrightarrow> tx_inv db (tx_write f t)"
  by (auto simp: tx_write_def tx_inv_def)

lemma tx_inv_exec: "tx_inv db t \<Longrightarrow> tx_inv db (tx_exec op t)"
  by (cases op) (simp_all add: tx_inv_commit tx_inv_rollback tx_inv_cleanup tx_inv_register tx_inv_report)

lemma tx_step_inv: "tx_step t u \<Longrightarrow> tx_inv db t \<Longrightarrow> tx_inv db u"
  by (induction rule: tx_step.induct) (simp_all add: tx_inv_exec tx_inv_write)

lemma tx_reach_inv: "tx_reach db t \<Longrightarrow> tx_inv db t"
  by (induction rule: tx_reach.induct) (auto intro: tx_inv_begin tx_step_inv)

lemma tx_cleanup_closed: "tx_inv db t \<Longrightarrow> commit_called (tx_cleanup rb t)"
  by (auto simp: tx_cleanup_def tx_rollback_def tx_inv_def Let_def)

lemma tx_cleanup_id [simp]: "commit_called t \<Longrightarrow> tx_cleanup rb t = t"
  by (simp add: tx_cleanup_def)

lemma commit_called_commit [simp]: "commit_called (snd (tx_commit cm t))"
  by (simp add: tx_commit_def Let_def split: option.splits)

lemma commit_called_rollback [simp]: "commit_called (snd (tx_rollback rb t))"
  by (simp add: tx_rollback_def Let_def)

lemma finals_cleanup_open:
  "tx_inv db t \<Longrightarrow> \<not> commit_called t \<Longrightarrow> finals (tx_cleanup rb t) = [DbRollback (rb = None)] \<and> db_base (tx_cleanup rb t) = db"
  by (auto simp: tx_cleanup_def tx_rollback_def tx_inv_def Let_def finals_def filter_map o_def)

section \<open>Properties\<close>

text \<open>
  A transaction, whatever sequence of commits, rollbacks, cleanups, registrations and
  statements it goes through, calls the driver's commit or rollback at most once, exactly
  once after the deferred cleanup, and publishes changes only by a successful commit.
\<close>

theorem tx_finalised_once:
  assumes "tx_reach db t"
  shows "length (finals t) \<le> 1
    \<and> (\<exists>e. finals (tx_cleanup rb t) = [e])
    \<and> (finals t \<noteq> [DbCommit True] \<longrightarrow> db_base t = db)"
proof -
  have i: "tx_inv db t" by (rule tx_reach_inv[OF assms])
  show ?thesis
  proof (cases "commit_called t")
    case True
    with i show ?thesis by (auto simp: tx_inv_def)
  next
    case False
    with i finals_cleanup_open[OF i False, of rb] show ?thesis
      by (auto simp: tx_inv_def finals_def)
  qed
qed

theorem tx_finalised_once_witness:
  "length (finals (snd (tx_commit None (begin_tx ''t'' (7 :: int) :: (int, nat) tx_info)))) \<le> 1"
proof -
  have "tx_reach (7 :: int) (snd (tx_commit None (begin_tx ''t'' 7 :: (int, nat) tx_info)))"
    using reach_step[OF reach_begin[of 7 "''t''"] step_op[of _ "OpCommit None"]] by simp
  from tx_finalised_once[OF this, of None] show ?thesis by simp
qed


definition sample_body :: "nat \<Rightarrow> (int, nat) tx_info \<Rightarrow> outcome \<times> nat \<times> (int, nat) tx_info" where
  "sample_body r t = (Panicked ''boom'', r + 1, on_committed 1 (tx_write (\<lambda>x. x + 1) t))"


text \<open>
  Closing an open transaction runs, once each and in the order of registration, the
  commit callbacks after a successful commit, and the rollback callbacks after a rollback or
  a failed commit; the callbacks of the other kind do not run.
\<close>

theorem tx_callbacks_run:
  assumes "tx_reach db t" and "\<not> commit_called t"
  shows "tx_trace (snd (tx_commit None t)) = DbCommit True # map Ran (commit_callbacks t)
    \<and> tx_trace (snd (tx_commit (Some e) t)) = DbCommit False # map Ran (rollback_callbacks t)
    \<and> tx_trace (snd (tx_rollback rb t)) = DbRollback (rb = None) # map Ran (rollback_callbacks t)"
  using tx_reach_inv[OF assms(1)] assms(2)
  by (simp add: tx_commit_def tx_rollback_def tx_inv_def Let_def run_callbacks_def)

theorem tx_callbacks_run_witness:
  "tx_trace (snd (tx_commit None (on_committed (5 :: nat) (begin_tx ''t'' (0 :: int))))) = [DbCommit True, Ran 5]"
proof -
  let ?t = "on_committed (5 :: nat) (begin_tx ''t'' (0 :: int))"
  have r: "tx_reach 0 ?t"
    using reach_step[OF reach_begin[of 0 "''t''"] step_op[of _ "OpOnCommitted 5"]] by simp
  have "\<not> commit_called ?t" by (simp add: on_committed_def begin_tx_def)
  from tx_callbacks_run[OF r this, of "''e''" None] show ?thesis
    by (simp add: on_committed_def begin_tx_def)
qed

text \<open>
  Registration after the end: the flag tested says that the transaction is closed, not that it
  was committed, so a commit callback registered after a rollback runs at once.
\<close>

lemma on_committed_after_rollback:
  "tx_trace (on_committed cb (snd (tx_rollback None (begin_tx tr db)))) = [DbRollback True, Ran cb]"
  by (simp add: on_committed_def tx_rollback_def begin_tx_def run_callbacks_def Let_def)


definition sample_router :: tx_router where
  "sample_router = \<lparr>ignore_paths = [''/ping''], rt_isolation = 0, rt_readonly = False\<rparr>"

definition sample_handler :: "(int, nat) tx_info \<Rightarrow> handler_result \<times> (int, nat) tx_info" where
  "sample_handler t = (HandlerReturned 404, tx_write (\<lambda>x. x + 1) t)"


section \<open>The scheduler's inner loop\<close>

text \<open>
  One round of \<^verbatim>\<open>ScheduleFunc\<close>: \<^verbatim>\<open>WithTx\<close> could not begin (the callback did not run and
  \<open>moreToProcess\<close> keeps its value), the callback returned, or it panicked (which leaves the
  loop and is recovered by \<^verbatim>\<open>timeutil.ScheduleJob\<close>).
\<close>

datatype round = BeginError | Returned bool bool | RoundPanic

text \<open>The number of rounds run, or \<^const>\<open>None\<close> if the loop is still running after all the given rounds.\<close>

fun schedule_rounds :: "bool \<Rightarrow> round list \<Rightarrow> nat option" where
  "schedule_rounds False rounds = Some 0"
| "schedule_rounds True [] = None"
| "schedule_rounds True (BeginError # rs) = map_option Suc (schedule_rounds True rs)"
| "schedule_rounds True (Returned again failed # rs) = map_option Suc (schedule_rounds again rs)"
| "schedule_rounds True (RoundPanic # rs) = Some 1"

fun ends_loop :: "round \<Rightarrow> bool" where
  "ends_loop BeginError = False"
| "ends_loop (Returned again failed) = (\<not> again)"
| "ends_loop RoundPanic = True"

lemma schedule_rounds_stop:
  "schedule_rounds True rs = (if \<exists>r\<in>set rs. ends_loop r then Some (Suc (length (takeWhile (\<lambda>r. \<not> ends_loop r) rs))) else None)"
proof (induction rs)
  case Nil
  then show ?case by simp
next
  case (Cons r rs)
  then show ?case
  proof (cases r)
    case (Returned again failed)
    with Cons show ?thesis by (cases again) auto
  qed auto
qed

text \<open>A database that cannot begin a transaction keeps the loop spinning: no number of failed rounds ends it.\<close>

lemma schedule_spins_on_begin_error: "schedule_rounds True (replicate n BeginError) = None"
  by (simp add: schedule_rounds_stop)

end
