(* ===== verification/WqStore.thy ===== *)
theory WqStore
  imports ModelTx
begin

text \<open>
  Package \<^verbatim>\<open>pqworkqueue\<close>, the table \<^verbatim>\<open>pq_worker_queue\<close> and the statements on it
  (\<^verbatim>\<open>pqworkqueue/main.go\<close>).  A table is the list of its rows; the list's order stands for
  the order in which the database happens to visit them, so the facts hold for every such
  order.  \<open>locked\<close> is the set of row ids locked by other open transactions, which
  \<^verbatim>\<open>for update skip locked\<close> passes over.  Times are integers (nanoseconds), SQL null is
  \<^const>\<open>None\<close>.  An optional error argument is the answer of the driver for a statement.
\<close>


record job_row =
  jr_id :: string
  jr_queue :: string
  jr_debounce :: string
  jr_arg :: string
  jr_result :: "string option"
  jr_created :: gotime
  jr_start_after :: gotime
  jr_started :: "gotime option"
  jr_completed :: "gotime option"
  jr_retain :: "gotime option"
  jr_commit_error :: "string option"
  jr_usr :: "int option"
  jr_company :: "int option"

type_synonym job_table = "job_row list"

definition update_id :: "string \<Rightarrow> (job_row \<Rightarrow> job_row) \<Rightarrow> job_table \<Rightarrow> job_table" where
  "update_id i f tbl = map (\<lambda>r. if jr_id r = i then f r else r) tbl"

section \<open>Claiming a job\<close>

record job_meta =
  wm_id :: string
  wm_user :: "int option"
  wm_company :: "int option"

text \<open>\<^verbatim>\<open>where queue_name = $1 and start_after <= $2 and started_at is null\<close>\<close>

definition claimable :: "string \<Rightarrow> gotime \<Rightarrow> job_row \<Rightarrow> bool" where
  "claimable q now r \<longleftrightarrow> jr_queue r = q \<and> jr_start_after r \<le> now \<and> jr_started r = None"

text \<open>\<^verbatim>\<open>order by start_after limit 1\<close>: the first among the earliest.\<close>

fun earliest :: "job_row list \<Rightarrow> job_row option" where
  "earliest [] = None"
| "earliest (r # rs) =
     (case earliest rs of
        None \<Rightarrow> Some r
      | Some s \<Rightarrow> if jr_start_after s < jr_start_after r then Some s else Some r)"

definition select_job :: "string set \<Rightarrow> string \<Rightarrow> gotime \<Rightarrow> job_table \<Rightarrow> job_row option" where
  "select_job locked q now tbl = earliest (filter (\<lambda>r. claimable q now r \<and> jr_id r \<notin> locked) tbl)"

definition get_and_claim_job ::
  "string option \<Rightarrow> string option \<Rightarrow> string set \<Rightarrow> string \<Rightarrow> gotime \<Rightarrow> gotime \<Rightarrow> job_table
    \<Rightarrow> (tx_error + job_meta \<times> string) \<times> job_table" where
  "get_and_claim_job get_err upd_err locked q now now' tbl =
     (case get_err of
        Some e \<Rightarrow> (Inl (DbError e), tbl)
      | None \<Rightarrow>
          (case select_job locked q now tbl of
             None \<Rightarrow> (Inl ErrNoRows, tbl)
           | Some r \<Rightarrow>
               (case upd_err of
                  Some e \<Rightarrow> (Inl (DbError e), tbl)
                | None \<Rightarrow>
                    (Inr (\<lparr>wm_id = jr_id r, wm_user = jr_usr r, wm_company = jr_company r\<rparr>, jr_arg r),
                     update_id (jr_id r) (\<lambda>x. x\<lparr>jr_started := Some now'\<rparr>) tbl))))"

text \<open>The statement that stores the result of a job.\<close>

definition store_result ::
  "string option \<Rightarrow> gotime \<Rightarrow> gotime \<Rightarrow> string option \<Rightarrow> string \<Rightarrow> job_table \<Rightarrow> job_table" where
  "store_result result now until commit_err i tbl =
     update_id i (\<lambda>r. r\<lparr>jr_result := result, jr_completed := Some now,
                        jr_retain := Some until, jr_commit_error := commit_err\<rparr>) tbl"

section \<open>Adding a job\<close>

record add_input =
  ai_start_after :: "gotime option"
  ai_debounce_key :: string
  ai_keep_original_start :: bool
  ai_merge :: "(string \<Rightarrow> string \<Rightarrow> string + string) option"
  ai_user :: "int option"
  ai_company :: "int option"

definition new_row :: "string \<Rightarrow> string \<Rightarrow> string \<Rightarrow> gotime \<Rightarrow> gotime \<Rightarrow> add_input \<Rightarrow> job_row" where
  "new_row i q msg now start opts =
     \<lparr>jr_id = i, jr_queue = q, jr_debounce = ai_debounce_key opts, jr_arg = msg, jr_result = None,
      jr_created = now, jr_start_after = start, jr_started = None, jr_completed = None,
      jr_retain = None, jr_commit_error = None, jr_usr = ai_user opts, jr_company = ai_company opts\<rparr>"

text \<open>The insert statement; the column \<^verbatim>\<open>id\<close> is unique.\<close>

definition insert_row :: "job_row \<Rightarrow> job_table \<Rightarrow> tx_error + job_table" where
  "insert_row r tbl =
     (if jr_id r \<in> jr_id ` set tbl then Inl (DbError ''duplicate key value'') else Inr (tbl @ [r]))"

text \<open>The common table expression \<^verbatim>\<open>existing\<close>.\<close>

definition pending_dup :: "string \<Rightarrow> string \<Rightarrow> job_row \<Rightarrow> bool" where
  "pending_dup q key r \<longleftrightarrow> jr_queue r = q \<and> jr_debounce r = key \<and> jr_started r = None"

definition find_existing :: "string set \<Rightarrow> string \<Rightarrow> string \<Rightarrow> job_table \<Rightarrow> job_row option" where
  "find_existing locked q key tbl = find (\<lambda>r. pending_dup q key r \<and> jr_id r \<notin> locked) tbl"

text \<open>
  \<^verbatim>\<open>Queue.add\<close>.  \<open>msg_r\<close> is the encoded argument or the encoding error, \<open>uuid_r\<close> the fresh id
  or the generator's error, \<open>db_err\<close> the driver's error on the first statement and \<open>upd_err\<close>
  the one on the update after a merge; \<open>now\<close> and \<open>now'\<close> are the two readings of the clock (the
  default start and \<^verbatim>\<open>created_at\<close>).  The result is the pair of the returned id and error, and
  the table.  The commit callback that notifies the workers is modelled with the transaction
  (\<^verbatim>\<open>ModelTx.on_committed\<close>); it does not touch the table.
\<close>

definition queue_add ::
  "string \<Rightarrow> string + string \<Rightarrow> string + string \<Rightarrow> string option \<Rightarrow> string option \<Rightarrow> string set \<Rightarrow>
   gotime \<Rightarrow> gotime \<Rightarrow> add_input \<Rightarrow> job_table \<Rightarrow> (string \<times> tx_error option) \<times> job_table" where
  "queue_add q msg_r uuid_r db_err upd_err locked now now' opts tbl =
     (case msg_r of
        Inl e \<Rightarrow> (('''', Some (ErrOther e)), tbl)
      | Inr msg \<Rightarrow>
     (case uuid_r of
        Inl e \<Rightarrow> (('''', Some (ErrOther e)), tbl)
      | Inr uuid \<Rightarrow>
     let start = (case ai_start_after opts of None \<Rightarrow> now | Some t \<Rightarrow> t);
         row = new_row uuid q msg now' start opts
     in if ai_debounce_key opts = '''' then
          (case db_err of
             Some e \<Rightarrow> ((uuid, Some (DbError e)), tbl)
           | None \<Rightarrow>
               (case insert_row row tbl of
                  Inl e \<Rightarrow> ((uuid, Some e), tbl)
                | Inr tbl' \<Rightarrow> ((uuid, None), tbl')))
        else (case db_err of
             Some e \<Rightarrow> (('''', Some (DbError e)), tbl)
           | None \<Rightarrow>
               (case find_existing locked q (ai_debounce_key opts) tbl of
                  None \<Rightarrow>
                    (case insert_row row tbl of
                       Inl e \<Rightarrow> (('''', Some e), tbl)
                     | Inr tbl' \<Rightarrow> ((uuid, None), tbl'))
                | Some old \<Rightarrow>
                    (case ai_merge opts of
                       Some merge \<Rightarrow>
                         (case merge (jr_arg old) msg of
                            Inl e \<Rightarrow> (('''', Some (ErrOther e)), tbl)
                          | Inr merged \<Rightarrow>
                              (case upd_err of
                                 Some e \<Rightarrow> ((jr_id old, Some (DbError e)), tbl)
                               | None \<Rightarrow>
                                   ((jr_id old, None),
                                    update_id (jr_id old)
                                      (\<lambda>r. r\<lparr>jr_arg := merged,
                                             jr_start_after := (if \<not> ai_keep_original_start opts then start
                                                                else jr_start_after old)\<rparr>) tbl)))
                     | None \<Rightarrow>
                         if ai_keep_original_start opts then ((jr_id old, None), tbl)
                         else ((jr_id old, None),
                               update_id (jr_id old) (\<lambda>r. r\<lparr>jr_start_after := start, jr_arg := msg\<rparr>) tbl))))))"

text \<open>\<^verbatim>\<open>Queue.Add\<close> and \<^verbatim>\<open>Queue.AddOpt\<close>.\<close>

definition add_plain :: "gotime \<Rightarrow> add_input" where
  "add_plain now = \<lparr>ai_start_after = Some now, ai_debounce_key = '''', ai_keep_original_start = True,
     ai_merge = None, ai_user = None, ai_company = None\<rparr>"

definition queue_add_simple ::
  "string \<Rightarrow> string + string \<Rightarrow> string + string \<Rightarrow> string option \<Rightarrow> string set \<Rightarrow> gotime \<Rightarrow> gotime \<Rightarrow>
   job_table \<Rightarrow> (string \<times> tx_error option) \<times> job_table" where
  "queue_add_simple q msg_r uuid_r db_err locked now now' tbl =
     queue_add q msg_r uuid_r db_err None locked now now' (add_plain now) tbl"

section \<open>Status, results, cleanup, prediction\<close>

definition tenant_ok :: "int option \<Rightarrow> int option \<Rightarrow> job_row \<Rightarrow> bool" where
  "tenant_ok usr company r \<longleftrightarrow>
     (case usr of None \<Rightarrow> True | Some u \<Rightarrow> jr_usr r = Some u)
   \<and> (case company of None \<Rightarrow> True | Some c \<Rightarrow> jr_company r = Some c)"

record job_status =
  st_id :: string
  st_position :: nat
  st_created :: gotime
  st_started :: "gotime option"
  st_completed :: "gotime option"
  st_user :: "int option"
  st_company :: "int option"

text \<open>\<^verbatim>\<open>rank() over (order by created_at)\<close> among the unstarted rows of the queue; 0 when the row is started.\<close>

definition queue_position :: "job_table \<Rightarrow> job_row \<Rightarrow> nat" where
  "queue_position tbl r =
     (if jr_started r = None
      then 1 + length (filter (\<lambda>x. jr_queue x = jr_queue r \<and> jr_started x = None \<and> jr_created x < jr_created r) tbl)
      else 0)"

definition get_status :: "string \<Rightarrow> int option \<Rightarrow> int option \<Rightarrow> job_table \<Rightarrow> tx_error + job_status" where
  "get_status i usr company tbl =
     (case find (\<lambda>r. jr_id r = i \<and> tenant_ok usr company r) tbl of
        None \<Rightarrow> Inl ErrNoRows
      | Some r \<Rightarrow> Inr \<lparr>st_id = jr_id r, st_position = queue_position tbl r, st_created = jr_created r,
                      st_started = jr_started r, st_completed = jr_completed r,
                      st_user = jr_usr r, st_company = jr_company r\<rparr>)"

definition get_result :: "string \<Rightarrow> int option \<Rightarrow> int option \<Rightarrow> job_table \<Rightarrow> tx_error + string option" where
  "get_result i usr company tbl =
     (case find (\<lambda>r. jr_id r = i \<and> tenant_ok usr company r) tbl of
        None \<Rightarrow> Inl ErrNoRows
      | Some r \<Rightarrow> Inr (jr_result r))"

definition expired :: "gotime \<Rightarrow> job_row \<Rightarrow> bool" where
  "expired now r \<longleftrightarrow> (case jr_retain r of None \<Rightarrow> False | Some u \<Rightarrow> u \<le> now)"

definition cleaner_tick :: "string set \<Rightarrow> gotime \<Rightarrow> job_table \<Rightarrow> job_table" where
  "cleaner_tick locked now tbl =
     (let ids = take 1000 (map jr_id (filter (\<lambda>r. expired now r \<and> jr_id r \<notin> locked) tbl))
      in filter (\<lambda>r. jr_id r \<notin> set ids) tbl)"

text \<open>
  \<^verbatim>\<open>select queue_name, min(start_after) ... group by queue_name order by min(start_after) limit 1\<close>
  over the unstarted rows of the given queues.
\<close>

fun min_start :: "job_row list \<Rightarrow> gotime option" where
  "min_start [] = None"
| "min_start (r # rs) =
     (case min_start rs of None \<Rightarrow> Some (jr_start_after r) | Some m \<Rightarrow> Some (min (jr_start_after r) m))"

fun first_least :: "(string \<times> gotime) list \<Rightarrow> (string \<times> gotime) option" where
  "first_least [] = None"
| "first_least ((q, t) # gs) =
     (case first_least gs of None \<Rightarrow> Some (q, t) | Some (q', t') \<Rightarrow> if t' < t then Some (q', t') else Some (q, t))"

definition start_groups :: "string list \<Rightarrow> job_table \<Rightarrow> (string \<times> gotime) list" where
  "start_groups names tbl =
     (let rows = filter (\<lambda>r. jr_started r = None \<and> jr_queue r \<in> set names) tbl
      in List.map_filter
           (\<lambda>q. map_option (\<lambda>t. (q, t)) (min_start (filter (\<lambda>r. jr_queue r = q) rows)))
           (remdups (map jr_queue rows)))"

definition predicted_start_query :: "string list \<Rightarrow> job_table \<Rightarrow> (string \<times> gotime) option" where
  "predicted_start_query names tbl = first_least (start_groups names tbl)"

section \<open>Facts\<close>

lemma earliest_None [simp]: "earliest rs = None \<longleftrightarrow> rs = []"
  by (cases rs) (auto split: option.splits)

lemma earliest_Some:
  "earliest rs = Some r \<Longrightarrow> r \<in> set rs \<and> (\<forall>x\<in>set rs. jr_start_after r \<le> jr_start_after x)"
proof (induction rs arbitrary: r)
  case Nil
  then show ?case by simp
next
  case (Cons a rs)
  show ?case
  proof (cases "earliest rs")
    case None
    with Cons.prems show ?thesis by simp
  next
    case (Some s)
    have r: "r = (if jr_start_after s < jr_start_after a then s else a)"
      using Cons.prems Some by (simp split: if_splits)
    have la: "jr_start_after r \<le> jr_start_after a" and ls: "jr_start_after r \<le> jr_start_after s"
      by (simp_all add: r)
    have s: "s \<in> set rs" "\<forall>x\<in>set rs. jr_start_after s \<le> jr_start_after x"
      using Cons.IH[OF Some] by blast+
    show ?thesis
    proof (rule conjI)
      show "r \<in> set (a # rs)" using s(1) by (cases "jr_start_after s < jr_start_after a") (simp_all add: r)
      show "\<forall>x\<in>set (a # rs). jr_start_after r \<le> jr_start_after x"
      proof (rule ballI)
        fix x
        assume "x \<in> set (a # rs)"
        then consider "x = a" | "x \<in> set rs" by (cases "x = a") simp_all
        then show "jr_start_after r \<le> jr_start_after x"
        proof cases
          case 1
          show ?thesis using la by (simp only: 1)
        next
          case 2
          from s(2) 2 have "jr_start_after s \<le> jr_start_after x" by blast
          with ls show ?thesis by linarith
        qed
      qed
    qed
  qed
qed

lemma select_job_None:
  "select_job locked q now tbl = None \<longleftrightarrow> (\<forall>r\<in>set tbl. claimable q now r \<longrightarrow> jr_id r \<in> locked)"
  by (auto simp: select_job_def filter_empty_conv)

lemma select_job_Some:
  "select_job locked q now tbl = Some r \<Longrightarrow>
     r \<in> set tbl \<and> claimable q now r \<and> jr_id r \<notin> locked
     \<and> (\<forall>x\<in>set tbl. claimable q now x \<and> jr_id x \<notin> locked \<longrightarrow> jr_start_after r \<le> jr_start_after x)"
  by (auto simp: select_job_def dest!: earliest_Some)

lemma update_id_map_id [simp]:
  "(\<And>r. jr_id (f r) = jr_id r) \<Longrightarrow> map jr_id (update_id i f tbl) = map jr_id tbl"
  by (induction tbl) (auto simp: update_id_def)

lemma update_id_notin: "i \<notin> jr_id ` set tbl \<Longrightarrow> update_id i f tbl = tbl"
  by (induction tbl) (auto simp: update_id_def)

text \<open>Row ids are unique; every statement keeps them so.\<close>

definition ids_unique :: "job_table \<Rightarrow> bool" where
  "ids_unique tbl \<longleftrightarrow> distinct (map jr_id tbl)"

lemma ids_unique_update [simp]:
  "(\<And>r. jr_id (f r) = jr_id r) \<Longrightarrow> ids_unique (update_id i f tbl) = ids_unique tbl"
  by (simp add: ids_unique_def)

lemma ids_unique_insert: "insert_row r tbl = Inr tbl' \<Longrightarrow> ids_unique tbl \<Longrightarrow> ids_unique tbl' \<and> tbl' = tbl @ [r]"
  by (auto simp: insert_row_def ids_unique_def split: if_splits)

lemma ids_unique_filter: "ids_unique tbl \<Longrightarrow> ids_unique (filter P tbl)"
  by (auto simp: ids_unique_def distinct_map_filter)

lemma ids_unique_eq: "ids_unique tbl \<Longrightarrow> r \<in> set tbl \<Longrightarrow> s \<in> set tbl \<Longrightarrow> jr_id r = jr_id s \<Longrightarrow> r = s"
  by (auto simp: ids_unique_def distinct_map inj_on_def)

lemma update_id_fst:
  "ids_unique tbl \<Longrightarrow> r \<in> set tbl \<Longrightarrow>
     set (update_id (jr_id r) f tbl) = insert (f r) (set tbl - {r})"
proof -
  assume u: "ids_unique tbl" and r: "r \<in> set tbl"
  have k: "jr_id x = jr_id r \<longleftrightarrow> x = r" if "x \<in> set tbl" for x
    using ids_unique_eq[OF u that r] by blast
  have "set (update_id (jr_id r) f tbl) = (\<lambda>x. if x = r then f x else x) ` set tbl"
    unfolding update_id_def set_map by (rule image_cong) (simp_all add: k)
  with r show ?thesis by auto
qed

text \<open>What an add can do to the table.\<close>

lemma update_id_swap:
  "update_id i (\<lambda>r. r\<lparr>jr_start_after := t, jr_arg := a\<rparr>) tbl
     = update_id i (\<lambda>r. r\<lparr>jr_arg := a, jr_start_after := t\<rparr>) tbl"
  by (simp add: update_id_def)

lemma queue_add_stops:
  assumes "\<not> (\<exists>msg i. m = Inr msg \<and> u = Inr i \<and> e = None)"
  shows "snd (queue_add q m u e e2 l now now' opts tbl) = tbl"
  using assms by (cases m; cases u; cases e) (auto simp: queue_add_def Let_def)

lemma queue_add_fresh:
  assumes "\<not> (ai_debounce_key opts \<noteq> '''' \<and> find_existing l q (ai_debounce_key opts) tbl \<noteq> None)"
  shows "queue_add q (Inr msg) (Inr i) None e2 l now now' opts tbl =
     (case insert_row (new_row i q msg now' (case ai_start_after opts of None \<Rightarrow> now | Some t \<Rightarrow> t) opts) tbl of
        Inl err \<Rightarrow> ((if ai_debounce_key opts = '''' then i else '''', Some err), tbl)
      | Inr tbl' \<Rightarrow> ((i, None), tbl'))"
  using assms by (auto simp: queue_add_def Let_def)

lemma queue_add_found:
  assumes k: "ai_debounce_key opts \<noteq> ''''" and old: "find_existing l q (ai_debounce_key opts) tbl = Some old"
  shows "snd (queue_add q (Inr msg) (Inr i) None e2 l now now' opts tbl) = tbl
    \<or> (\<exists>a t. queue_add q (Inr msg) (Inr i) None e2 l now now' opts tbl
         = ((jr_id old, None), update_id (jr_id old) (\<lambda>r. r\<lparr>jr_arg := a, jr_start_after := t\<rparr>) tbl))"
proof (cases "ai_merge opts")
  case None
  show ?thesis
  proof (cases "ai_keep_original_start opts")
    case True
    with None show ?thesis by (simp add: queue_add_def Let_def k old)
  next
    case False
    with None show ?thesis by (intro disjI2 exI) (simp add: queue_add_def Let_def k old update_id_swap)
  qed
next
  case merge: (Some mf)
  show ?thesis
  proof (cases "mf (jr_arg old) msg")
    case (Inl x)
    with merge show ?thesis by (simp add: queue_add_def Let_def k old)
  next
    case (Inr a)
    with merge show ?thesis by (cases e2) (auto simp: queue_add_def Let_def k old)
  qed
qed

lemma queue_add_table:
  obtains (same) "snd (queue_add q m u e e2 l now now' opts tbl) = tbl"
  | (inserted) i msg t where
      "queue_add q m u e e2 l now now' opts tbl = ((i, None), tbl @ [new_row i q msg now' t opts])"
      "i \<notin> jr_id ` set tbl" "m = Inr msg" "u = Inr i"
      "ai_debounce_key opts = '''' \<or> find_existing l q (ai_debounce_key opts) tbl = None"
  | (updated) old a t where
      "queue_add q m u e e2 l now now' opts tbl
         = ((jr_id old, None), update_id (jr_id old) (\<lambda>r. r\<lparr>jr_arg := a, jr_start_after := t\<rparr>) tbl)"
      "find_existing l q (ai_debounce_key opts) tbl = Some old"
proof (cases "\<exists>msg i. m = Inr msg \<and> u = Inr i \<and> e = None")
  case False
  show ?thesis by (rule same[OF queue_add_stops[OF False]])
next
  case True
  then obtain msg i where p: "m = Inr msg" "u = Inr i" "e = None" by blast
  show ?thesis
  proof (cases "ai_debounce_key opts \<noteq> '''' \<and> find_existing l q (ai_debounce_key opts) tbl \<noteq> None")
    case False
    note fresh = queue_add_fresh[OF False, of msg i e2 now now']
    show ?thesis
    proof (cases "i \<in> jr_id ` set tbl")
      case True
      then show ?thesis by (intro same) (auto simp: p fresh insert_row_def new_row_def)
    next
      case i: False
      show ?thesis
        by (rule inserted[of i msg "case ai_start_after opts of None \<Rightarrow> now | Some t \<Rightarrow> t"])
          (use False i in \<open>auto simp: p fresh insert_row_def new_row_def\<close>)
    qed
  next
    case True
    then obtain old where old: "find_existing l q (ai_debounce_key opts) tbl = Some old" by auto
    from queue_add_found[OF conjunct1[OF True] old, of msg i e2 now now'] show ?thesis
    proof
      assume "snd (queue_add q (Inr msg) (Inr i) None e2 l now now' opts tbl) = tbl"
      then show ?thesis by (intro same) (simp add: p)
    next
      assume "\<exists>a t. queue_add q (Inr msg) (Inr i) None e2 l now now' opts tbl
         = ((jr_id old, None), update_id (jr_id old) (\<lambda>r. r\<lparr>jr_arg := a, jr_start_after := t\<rparr>) tbl)"
      then obtain a t where "queue_add q (Inr msg) (Inr i) None e2 l now now' opts tbl
         = ((jr_id old, None), update_id (jr_id old) (\<lambda>r. r\<lparr>jr_arg := a, jr_start_after := t\<rparr>) tbl)" by blast
      then show ?thesis by (intro updated[OF _ old]) (simp add: p)
    qed
  qed
qed

lemma queue_add_unique: "ids_unique tbl \<Longrightarrow> ids_unique (snd (queue_add q m u e e2 l now now' opts tbl))"
  by (rule queue_add_table[of q m u e e2 l now now' opts tbl]) (auto simp: ids_unique_def new_row_def)

lemma find_filter: "find P (filter Q xs) = find (\<lambda>x. Q x \<and> P x) xs"
  by (induction xs) auto

lemma find_unique:
  "ids_unique tbl \<Longrightarrow> find (\<lambda>r. jr_id r = i \<and> P r) tbl = Some r \<longleftrightarrow> r \<in> set tbl \<and> jr_id r = i \<and> P r"
proof -
  assume u: "ids_unique tbl"
  show ?thesis
  proof
    assume "find (\<lambda>r. jr_id r = i \<and> P r) tbl = Some r"
    then show "r \<in> set tbl \<and> jr_id r = i \<and> P r" by (auto simp: find_Some_iff)
  next
    assume r: "r \<in> set tbl \<and> jr_id r = i \<and> P r"
    then obtain s where s: "find (\<lambda>r. jr_id r = i \<and> P r) tbl = Some s"
      by (cases "find (\<lambda>r. jr_id r = i \<and> P r) tbl") (auto simp: find_None_iff)
    then have "s \<in> set tbl" "jr_id s = i" by (auto simp: find_Some_iff)
    with r u have "s = r" using ids_unique_eq[of tbl s r] by simp
    with s show "find (\<lambda>r. jr_id r = i \<and> P r) tbl = Some r" by simp
  qed
qed

lemma length_filter_update_le:
  assumes "\<And>r. P (f r) \<Longrightarrow> P r"
  shows "length (filter P (update_id i f tbl)) \<le> length (filter P tbl)"
proof (induction tbl)
  case Nil
  then show ?case by (simp add: update_id_def)
next
  case (Cons a tbl)
  then have "length (filter P (update_id i f tbl)) \<le> length (filter P tbl)" .
  moreover from assms[of a] have "P (f a) \<longrightarrow> P a" by blast
  ultimately show ?case by (cases "P a"; cases "P (f a)") (simp_all add: update_id_def)
qed

text \<open>At most one pending row for each queue and non-empty debounce key.\<close>

definition debounced :: "job_table \<Rightarrow> bool" where
  "debounced tbl \<longleftrightarrow> (\<forall>q k. k \<noteq> '''' \<longrightarrow> length (filter (pending_dup q k) tbl) \<le> 1)"

lemma find_existing_None: "find_existing {} q k tbl = None \<longleftrightarrow> filter (pending_dup q k) tbl = []"
  by (auto simp: find_existing_def find_None_iff filter_empty_conv)

lemma find_existing_Some:
  "find_existing locked q k tbl = Some r \<Longrightarrow> r \<in> set tbl \<and> pending_dup q k r \<and> jr_id r \<notin> locked"
  by (auto simp: find_existing_def find_Some_iff)

lemma debounced_update:
  assumes "\<And>r. jr_queue (f r) = jr_queue r" "\<And>r. jr_debounce (f r) = jr_debounce r"
    and "\<And>r. jr_started (f r) = None \<Longrightarrow> jr_started r = None" and d: "debounced tbl"
  shows "debounced (update_id i f tbl)"
proof (unfold debounced_def, intro allI impI)
  fix q k :: string
  assume "k \<noteq> ''''"
  with d have "length (filter (pending_dup q k) tbl) \<le> 1" by (simp add: debounced_def)
  moreover have "length (filter (pending_dup q k) (update_id i f tbl)) \<le> length (filter (pending_dup q k) tbl)"
    by (rule length_filter_update_le) (use assms in \<open>auto simp: pending_dup_def\<close>)
  ultimately show "length (filter (pending_dup q k) (update_id i f tbl)) \<le> 1" by linarith
qed

lemma debounced_snoc_pending:
  assumes "debounced tbl" "filter (pending_dup q k) tbl = []" "jr_queue r = q" "jr_debounce r = k"
  shows "debounced (tbl @ [r])"
  unfolding debounced_def
proof (intro allI impI)
  fix q' k' :: string
  assume k': "k' \<noteq> ''''"
  show "length (filter (pending_dup q' k') (tbl @ [r])) \<le> 1"
  proof (cases "q' = q \<and> k' = k")
    case True
    with assms(2) show ?thesis by simp
  next
    case False
    then have "\<not> pending_dup q' k' r" using assms(3,4) by (auto simp: pending_dup_def)
    with assms(1) k' show ?thesis by (simp add: debounced_def)
  qed
qed

lemma debounced_snoc_plain: "debounced tbl \<Longrightarrow> jr_debounce r = '''' \<Longrightarrow> debounced (tbl @ [r])"
  by (simp add: debounced_def pending_dup_def)

lemma debounced_filter: "debounced tbl \<Longrightarrow> debounced (filter P tbl)"
proof (unfold debounced_def, intro allI impI)
  fix q k :: string
  assume d: "\<forall>q k. k \<noteq> '''' \<longrightarrow> length (filter (pending_dup q k) tbl) \<le> 1" and k: "k \<noteq> ''''"
  have "length (filter (pending_dup q k) (filter P tbl)) \<le> length (filter (pending_dup q k) tbl)"
    by (induction tbl) simp_all
  moreover have "length (filter (pending_dup q k) tbl) \<le> 1" using d k by blast
  ultimately show "length (filter (pending_dup q k) (filter P tbl)) \<le> 1" by linarith
qed

section \<open>Properties\<close>

definition sample_row :: "string \<Rightarrow> string \<Rightarrow> gotime \<Rightarrow> gotime option \<Rightarrow> int option \<Rightarrow> job_row" where
  "sample_row i k t st u =
     \<lparr>jr_id = i, jr_queue = ''mail'', jr_debounce = k, jr_arg = ''{}'', jr_result = Some ''ok'',
      jr_created = t, jr_start_after = t, jr_started = st, jr_completed = None,
      jr_retain = map_option (\<lambda>x. x + 5) st, jr_commit_error = None, jr_usr = u, jr_company = None\<rparr>"

definition sample_table :: job_table where
  "sample_table = [sample_row ''a'' ''k'' 7 None (Some 1), sample_row ''b'' '''' 3 None (Some 2),
     sample_row ''c'' '''' 1 (Some 2) (Some 1)]"

lemmas sample_defs = sample_table_def sample_row_def

text \<open>
  C6: A claim that meets no driver error either reports \<^verbatim>\<open>sql.ErrNoRows\<close>, in which case every due
  job of the queue is locked by another transaction and the table is untouched, or it takes a due,
  unlocked job whose \<^verbatim>\<open>start_after\<close> is the least of those, hands out exactly its id, argument and
  tenant, and marks that row, and no other, as started, so that it is not due for anyone else.
\<close>
theorem claim_correct:
  assumes "ids_unique tbl"
  shows "case get_and_claim_job None None locked q now now' tbl of
      (Inl e, t) \<Rightarrow> e = ErrNoRows \<and> t = tbl \<and> (\<forall>r\<in>set tbl. claimable q now r \<longrightarrow> jr_id r \<in> locked)
    | (Inr (meta, arg), t) \<Rightarrow>
        (\<exists>r\<in>set tbl. claimable q now r \<and> jr_id r \<notin> locked
           \<and> (\<forall>x\<in>set tbl. claimable q now x \<and> jr_id x \<notin> locked \<longrightarrow> jr_start_after r \<le> jr_start_after x)
           \<and> meta = \<lparr>wm_id = jr_id r, wm_user = jr_usr r, wm_company = jr_company r\<rparr> \<and> arg = jr_arg r
           \<and> set t = insert (r\<lparr>jr_started := Some now'\<rparr>) (set tbl - {r}) \<and> ids_unique t
           \<and> (\<forall>x\<in>set t. jr_id x = jr_id r \<longrightarrow> \<not> claimable q now x))"
proof (cases "select_job locked q now tbl")
  case None
  then have "\<forall>r\<in>set tbl. claimable q now r \<longrightarrow> jr_id r \<in> locked"
    by (simp only: select_job_None)
  with None show ?thesis by (simp add: get_and_claim_job_def)
next
  case (Some r)
  note sel = select_job_Some[OF Some]
  let ?t = "update_id (jr_id r) (\<lambda>x. x\<lparr>jr_started := Some now'\<rparr>) tbl"
  have st: "set ?t = insert (r\<lparr>jr_started := Some now'\<rparr>) (set tbl - {r})"
    using sel by (intro update_id_fst assms) blast
  have "\<not> claimable q now x" if "x \<in> set ?t" "jr_id x = jr_id r" for x
  proof (cases "x = r\<lparr>jr_started := Some now'\<rparr>")
    case True
    then show ?thesis by (simp add: claimable_def)
  next
    case False
    with that st have "x \<in> set tbl" "x \<noteq> r" by auto
    with that sel show ?thesis using ids_unique_eq[OF assms, of x r] by blast
  qed
  moreover have "ids_unique ?t" using assms by simp
  moreover have "get_and_claim_job None None locked q now now' tbl =
      (Inr (\<lparr>wm_id = jr_id r, wm_user = jr_usr r, wm_company = jr_company r\<rparr>, jr_arg r), ?t)"
    by (simp add: get_and_claim_job_def Some)
  ultimately show ?thesis using sel st by (auto intro!: bexI[of _ r])
qed

lemma claim_correct_witness:
  "ids_unique sample_table \<and> (\<exists>m a t. get_and_claim_job None None {} ''mail'' 9 10 sample_table = (Inr (m, a), t)
     \<and> wm_id m = ''b'' \<and> (\<forall>x\<in>set t. jr_id x = ''b'' \<longrightarrow> \<not> claimable ''mail'' 9 x))"
proof -
  have u: "ids_unique sample_table" by (simp add: ids_unique_def sample_defs)
  have "\<exists>t. get_and_claim_job None None {} ''mail'' 9 10 sample_table
      = (Inr (\<lparr>wm_id = ''b'', wm_user = Some 2, wm_company = None\<rparr>, ''{}''), t)"
    by (simp add: get_and_claim_job_def select_job_def claimable_def sample_defs)
  then obtain t where t: "get_and_claim_job None None {} ''mail'' 9 10 sample_table
      = (Inr (\<lparr>wm_id = ''b'', wm_user = Some 2, wm_company = None\<rparr>, ''{}''), t)" by blast
  have "\<forall>x\<in>set t. jr_id x = ''b'' \<longrightarrow> \<not> claimable ''mail'' 9 x"
    using claim_correct[OF u, where locked="{}" and q="''mail''" and now=9 and now'=10] by (auto simp: t)
  with u t show ?thesis by auto
qed



text \<open>
  Tenant scoping.  Two tables that agree on the rows of a tenant give that tenant the same
  results and the same status up to the queue position: the rows of other tenants are invisible
  to a scoped read.  What is returned belongs to the tenant.
\<close>
theorem tenant_scoping:
  assumes "filter (tenant_ok usr company) tbl = filter (tenant_ok usr company) tbl'"
  shows "get_result i usr company tbl = get_result i usr company tbl'
    \<and> map_sum id (st_position_update (\<lambda>_. 0)) (get_status i usr company tbl)
        = map_sum id (st_position_update (\<lambda>_. 0)) (get_status i usr company tbl')
    \<and> (\<forall>s. get_status i usr company tbl = Inr s \<longrightarrow>
          st_id s = i \<and> (usr \<noteq> None \<longrightarrow> st_user s = usr) \<and> (company \<noteq> None \<longrightarrow> st_company s = company))"
proof -
  have f: "find (\<lambda>r. jr_id r = i \<and> tenant_ok usr company r) tbl
      = find (\<lambda>r. jr_id r = i \<and> tenant_ok usr company r) tbl'"
    using arg_cong[OF assms, of "find (\<lambda>r. jr_id r = i)"] by (simp add: find_filter conj_commute)
  have g: "get_result i usr company tbl = get_result i usr company tbl'"
    by (simp add: get_result_def f)
  have h: "map_sum id (st_position_update (\<lambda>_. 0)) (get_status i usr company tbl)
        = map_sum id (st_position_update (\<lambda>_. 0)) (get_status i usr company tbl')"
    by (simp add: get_status_def f split: option.split)
  have "st_id s = i \<and> (usr \<noteq> None \<longrightarrow> st_user s = usr) \<and> (company \<noteq> None \<longrightarrow> st_company s = company)"
    if "get_status i usr company tbl = Inr s" for s
  proof -
    from that obtain r where r: "find (\<lambda>r. jr_id r = i \<and> tenant_ok usr company r) tbl = Some r"
      and s: "st_id s = jr_id r" "st_user s = jr_usr r" "st_company s = jr_company r"
      by (auto simp: get_status_def split: option.splits)
    from r have "jr_id r = i" "tenant_ok usr company r" by (auto simp: find_Some_iff)
    with s show ?thesis by (auto simp: tenant_ok_def split: option.splits)
  qed
  with g h show ?thesis by blast
qed

lemma tenant_scoping_witness:
  "get_result ''c'' (Some 1) None sample_table
      = get_result ''c'' (Some 1) None (filter (tenant_ok (Some 1) None) sample_table)
    \<and> get_result ''c'' (Some 1) None sample_table = Inr (Some ''ok'')
    \<and> get_result ''c'' (Some 2) None sample_table = Inl ErrNoRows"
proof -
  have "get_result ''c'' (Some 1) None sample_table
      = get_result ''c'' (Some 1) None (filter (tenant_ok (Some 1) None) sample_table)"
    by (rule conjunct1[OF tenant_scoping]) (simp add: filter_filter)
  moreover have "get_result ''c'' (Some 1) None sample_table = Inr (Some ''ok'')"
    and "get_result ''c'' (Some 2) None sample_table = Inl ErrNoRows"
    by (simp_all add: get_result_def tenant_ok_def sample_defs)
  ultimately show ?thesis by blast
qed

text \<open>
  The cleaner removes only completed rows whose retention has passed, in particular never a
  pending or a running job; it removes at most 1000 rows in a round, and when there are no more
  than that all expired, unlocked rows are gone after it.
\<close>
theorem cleaner_correct:
  assumes "ids_unique tbl"
  shows "set (cleaner_tick locked now tbl) \<subseteq> set tbl
    \<and> (\<forall>r\<in>set tbl. \<not> expired now r \<or> jr_id r \<in> locked \<longrightarrow> r \<in> set (cleaner_tick locked now tbl))
    \<and> length tbl \<le> length (cleaner_tick locked now tbl) + 1000
    \<and> (length (filter (\<lambda>r. expired now r \<and> jr_id r \<notin> locked) tbl) \<le> 1000
         \<longrightarrow> cleaner_tick locked now tbl = filter (\<lambda>r. expired now r \<longrightarrow> jr_id r \<in> locked) tbl)"
proof -
  let ?E = "filter (\<lambda>r. expired now r \<and> jr_id r \<notin> locked) tbl"
  let ?I = "take 1000 (map jr_id ?E)"
  have cl: "cleaner_tick locked now tbl = filter (\<lambda>r. jr_id r \<notin> set ?I) tbl"
    by (simp add: cleaner_tick_def Let_def)
  have mem: "jr_id r \<in> jr_id ` set ?E \<longleftrightarrow> r \<in> set ?E" if "r \<in> set tbl" for r
    using ids_unique_eq[OF assms that] by (auto simp: image_iff)
  have sub: "set ?I \<subseteq> jr_id ` set ?E"
    using set_take_subset[of 1000 "map jr_id ?E"] by simp
  have keep: "r \<in> set (cleaner_tick locked now tbl)"
    if "r \<in> set tbl" "\<not> expired now r \<or> jr_id r \<in> locked" for r
    using that sub mem[OF that(1)] by (auto simp: cl)
  have d: "distinct (map jr_id tbl)" using assms by (simp add: ids_unique_def)
  have bound: "length (filter (\<lambda>r. jr_id r \<in> S) tbl) \<le> card S" if "finite S" for S
  proof -
    have "distinct (map jr_id (filter (\<lambda>r. jr_id r \<in> S) tbl))"
      using d by (rule distinct_map_filter)
    then have "length (filter (\<lambda>r. jr_id r \<in> S) tbl)
        = card (set (map jr_id (filter (\<lambda>r. jr_id r \<in> S) tbl)))"
      by (metis distinct_card length_map)
    also have "\<dots> \<le> card S" by (rule card_mono[OF that]) auto
    finally show ?thesis .
  qed
  have "length (filter (\<lambda>r. jr_id r \<in> set ?I) tbl) \<le> 1000"
    using bound[of "set ?I"] card_length[of ?I] by (simp add: min_def split: if_splits)
  then have len: "length tbl \<le> length (cleaner_tick locked now tbl) + 1000"
    using sum_length_filter_compl[of "\<lambda>r. jr_id r \<in> set ?I" tbl] by (simp add: cl)
  have "cleaner_tick locked now tbl = filter (\<lambda>r. expired now r \<longrightarrow> jr_id r \<in> locked) tbl"
    if "length ?E \<le> 1000"
  proof -
    have "set ?I = jr_id ` set ?E" using that by simp
    then have "jr_id r \<in> set ?I \<longleftrightarrow> expired now r \<and> jr_id r \<notin> locked" if "r \<in> set tbl" for r
      using mem[OF that] that by simp
    then show ?thesis unfolding cl by (intro filter_cong) auto
  qed
  with keep len show ?thesis by (auto simp: cl)
qed

lemma cleaner_correct_witness:
  "length (filter (\<lambda>r. expired 9 r \<and> jr_id r \<notin> {}) sample_table) = 1
    \<and> cleaner_tick {} 9 sample_table = filter (\<lambda>r. expired 9 r \<longrightarrow> jr_id r \<in> {}) sample_table"
proof -
  have u: "ids_unique sample_table" by (simp add: ids_unique_def sample_defs)
  have "length (filter (\<lambda>r. expired 9 r \<and> jr_id r \<notin> {}) sample_table) = 1"
    by (simp add: expired_def sample_defs)
  with cleaner_correct[OF u, where now=9 and locked="{}"] show ?thesis by simp
qed

section \<open>Prediction\<close>

lemma min_start_None [simp]: "min_start rs = None \<longleftrightarrow> rs = []"
  by (cases rs) (auto split: option.splits)

lemma min_start_Some:
  "min_start rs = Some t \<longleftrightarrow> (\<exists>r\<in>set rs. jr_start_after r = t) \<and> (\<forall>r\<in>set rs. t \<le> jr_start_after r)"
proof (induction rs arbitrary: t)
  case Nil
  then show ?case by simp
next
  case (Cons a rs)
  show ?case
  proof (cases "min_start rs")
    case None
    then show ?thesis by auto
  next
    case (Some m)
    with Cons.IH[of m] have m: "\<exists>r\<in>set rs. jr_start_after r = m" "\<forall>r\<in>set rs. m \<le> jr_start_after r"
      by blast+
    have "min_start (a # rs) = Some (min (jr_start_after a) m)" using Some by simp
    with m show ?thesis
      by (cases "jr_start_after a \<le> m") (force simp: min_def)+
  qed
qed

lemma first_least_None [simp]: "first_least gs = None \<longleftrightarrow> gs = []"
  by (cases gs) (auto split: option.splits)

lemma first_least_Some:
  "first_least gs = Some (q, t) \<Longrightarrow> (q, t) \<in> set gs \<and> (\<forall>g\<in>set gs. t \<le> snd g)"
proof (induction gs arbitrary: q t)
  case Nil
  then show ?case by simp
next
  case (Cons g gs)
  obtain p s where g: "g = (p, s)" by (cases g)
  show ?case
  proof (cases "first_least gs")
    case None
    with Cons.prems show ?thesis by (simp add: g)
  next
    case (Some h)
    obtain p' s' where h: "h = (p', s')" by (cases h)
    note IH = Cons.IH[OF Some[unfolded h]]
    show ?thesis
    proof (cases "s' < s")
      case True
      with Cons.prems Some have "q = p'" "t = s'" by (simp_all add: g h)
      with IH True show ?thesis by (auto simp: g)
    next
      case False
      with Cons.prems Some have qt: "q = p" "t = s" by (simp_all add: g h)
      have "s \<le> snd k" if "k \<in> set gs" for k
        using IH that False by fastforce
      with qt show ?thesis by (simp add: g)
    qed
  qed
qed

lemma mem_map_filter: "y \<in> set (List.map_filter f xs) \<longleftrightarrow> (\<exists>x\<in>set xs. f x = Some y)"
  by (force simp: List.map_filter_def)

lemma set_start_groups:
  "(q, t) \<in> set (start_groups names tbl) \<longleftrightarrow>
     q \<in> set names \<and> min_start (filter (\<lambda>r. jr_started r = None \<and> jr_queue r = q) tbl) = Some t"
proof -
  let ?rows = "filter (\<lambda>r. jr_started r = None \<and> jr_queue r \<in> set names) tbl"
  have *: "filter (\<lambda>r. jr_queue r = q) ?rows = filter (\<lambda>r. jr_started r = None \<and> jr_queue r = q) tbl"
    if "q \<in> set names"
    unfolding filter_filter by (rule filter_cong) (use that in auto)
  have "(q, t) \<in> set (start_groups names tbl) \<longleftrightarrow>
      q \<in> jr_queue ` set ?rows \<and> min_start (filter (\<lambda>r. jr_queue r = q) ?rows) = Some t"
    by (auto simp: start_groups_def Let_def mem_map_filter)
  also have "\<dots> \<longleftrightarrow> q \<in> set names \<and> min_start (filter (\<lambda>r. jr_started r = None \<and> jr_queue r = q) tbl) = Some t"
  proof (cases "q \<in> set names")
    case True
    show ?thesis unfolding *[OF True] using True by (auto simp: min_start_Some image_iff)
  next
    case False
    then show ?thesis by auto
  qed
  finally show ?thesis .
qed

text \<open>
  The predicted start is the least \<^verbatim>\<open>start_after\<close> of the unstarted jobs of the given queues,
  together with a queue that has such a job; there is none exactly when no such job is left.
\<close>
lemma predicted_start_least:
  "predicted_start_query names tbl = Some (q, t) \<Longrightarrow>
     q \<in> set names \<and> (\<exists>r\<in>set tbl. jr_queue r = q \<and> jr_started r = None \<and> jr_start_after r = t)
     \<and> (\<forall>r\<in>set tbl. jr_queue r \<in> set names \<and> jr_started r = None \<longrightarrow> t \<le> jr_start_after r)"
proof -
  assume "predicted_start_query names tbl = Some (q, t)"
  then have m: "(q, t) \<in> set (start_groups names tbl)"
    and least: "\<And>g. g \<in> set (start_groups names tbl) \<Longrightarrow> t \<le> snd g"
    using first_least_Some[of "start_groups names tbl" q t] by (auto simp: predicted_start_query_def)
  have "t \<le> jr_start_after r" if r: "r \<in> set tbl" "jr_queue r \<in> set names" "jr_started r = None" for r
  proof -
    let ?fs = "filter (\<lambda>x. jr_started x = None \<and> jr_queue x = jr_queue r) tbl"
    have "?fs \<noteq> []" using r by (auto simp: filter_empty_conv)
    then obtain s where s: "min_start ?fs = Some s" by (cases "min_start ?fs") auto
    with r have "s \<le> jr_start_after r" by (auto simp: min_start_Some)
    moreover have "(jr_queue r, s) \<in> set (start_groups names tbl)" using s r by (simp add: set_start_groups)
    ultimately show ?thesis using least by fastforce
  qed
  with m show ?thesis by (auto simp: set_start_groups min_start_Some)
qed

lemma predicted_start_None:
  "predicted_start_query names tbl = None \<longleftrightarrow> (\<forall>r\<in>set tbl. jr_queue r \<in> set names \<longrightarrow> jr_started r \<noteq> None)"
proof -
  have "(start_groups names tbl = []) = (filter (\<lambda>r. jr_started r = None \<and> jr_queue r \<in> set names) tbl = [])"
  proof
    assume e: "start_groups names tbl = []"
    show "filter (\<lambda>r. jr_started r = None \<and> jr_queue r \<in> set names) tbl = []"
    proof (rule ccontr)
      assume "filter (\<lambda>r. jr_started r = None \<and> jr_queue r \<in> set names) tbl \<noteq> []"
      then obtain r where r: "r \<in> set tbl" "jr_started r = None" "jr_queue r \<in> set names"
        by (auto simp: filter_empty_conv)
      then have "filter (\<lambda>x. jr_started x = None \<and> jr_queue x = jr_queue r) tbl \<noteq> []"
        by (auto simp: filter_empty_conv)
      then obtain s where "min_start (filter (\<lambda>x. jr_started x = None \<and> jr_queue x = jr_queue r) tbl) = Some s"
        by (cases "min_start (filter (\<lambda>x. jr_started x = None \<and> jr_queue x = jr_queue r) tbl)") auto
      with r have "(jr_queue r, s) \<in> set (start_groups names tbl)" by (simp add: set_start_groups)
      with e show False by simp
    qed
  qed (simp add: start_groups_def)
  then show ?thesis by (auto simp: predicted_start_query_def filter_empty_conv)
qed

end
