(* ===== verification/WqRun.thy ===== *)
theory WqRun
  imports WqStore
begin

text \<open>
  Package \<^verbatim>\<open>pqworkqueue\<close>, running jobs (\<^verbatim>\<open>pqworkqueue/main.go\<close>, \<^verbatim>\<open>main2.go\<close>): the registered
  workers and their concurrency slots, \<^verbatim>\<open>startWork\<close> with its two nested transactions, the
  scheduler's loop and timer, and the typed wrapper \<^verbatim>\<open>Queue2\<close>.  The outer transaction works on
  the job table, the callback's transaction on the application's own store, a type parameter.
  The clock, the driver's answers and the registered callbacks are arguments.
\<close>

section \<open>Workers\<close>

text \<open>What a worker's callback does: it returns a result (perhaps nil) or panics with an error.\<close>

datatype worker_out = Returned "string option" | WPanicked tx_error

type_synonym ('d, 'c) worker =
  "string \<Rightarrow> job_meta \<Rightarrow> ('d, 'c) tx_info \<Rightarrow> worker_out \<times> ('d, 'c) tx_info"

record delay_info =
  delay_for :: int
  check_again :: bool

record ('d, 'c) worker_info =
  wi_queue :: string
  wi_nconcurrent :: int
  wi_callback :: "('d, 'c) worker option"
  wi_middleware :: "(('d, 'c) worker \<Rightarrow> ('d, 'c) worker) list"
  wi_retain :: int
  wi_isolation :: "nat option"
  wi_delay :: "(int \<Rightarrow> nat \<Rightarrow> delay_info option) option"
  wi_nactive :: int

text \<open>\<^verbatim>\<open>StartWorkers\<close> up to the send: defaults, then the two panics.\<close>

definition start_workers :: "('d, 'c) worker_info \<Rightarrow> string + ('d, 'c) worker_info" where
  "start_workers info =
     (let i1 = (if wi_nconcurrent info = 0 then info\<lparr>wi_nconcurrent := 1\<rparr> else info);
          i2 = (if wi_retain i1 = 0 then i1\<lparr>wi_retain := 5 * 60 * 1000000000\<rparr> else i1)
      in if wi_queue i2 = '''' then Inl ''missing QueueName''
         else if wi_callback i2 = None then Inl ''missing Callback''
         else Inr i2)"

definition is_at_concurrency_limit :: "('d, 'c) worker_info \<Rightarrow> bool" where
  "is_at_concurrency_limit w \<longleftrightarrow> wi_nconcurrent w \<le> wi_nactive w"

definition concurrency_check :: "('d, 'c) worker_info \<Rightarrow> ('d, 'c) worker_info option" where
  "concurrency_check w =
     (if wi_nconcurrent w \<le> wi_nactive w then None else Some (w\<lparr>wi_nactive := wi_nactive w + 1\<rparr>))"

text \<open>The function \<^verbatim>\<open>concurrencyCheck\<close> returns for giving the slot back.\<close>

definition concurrency_done :: "('d, 'c) worker_info \<Rightarrow> ('d, 'c) worker_info" where
  "concurrency_done w = w\<lparr>wi_nactive := wi_nactive w - 1\<rparr>"

text \<open>The isolation levels of \<^verbatim>\<open>database/sql\<close> are numbered from 0 to 7; \<^verbatim>\<open>watcher\<close> accepts those.\<close>

definition isolation_known :: "int \<Rightarrow> bool" where
  "isolation_known n \<longleftrightarrow> n \<in> {0, 1, 2, 3, 4, 5, 6, 7}"

text \<open>The channel \<^verbatim>\<open>signal\<close> has room for one name; a send to the full channel is dropped.\<close>

definition signal_send :: "string \<Rightarrow> string option \<Rightarrow> string option" where
  "signal_send q s = (case s of None \<Rightarrow> Some q | Some x \<Rightarrow> Some x)"

text \<open>The workers a watcher knows, by queue name.\<close>

type_synonym ('d, 'c) listeners = "string \<rightharpoonup> ('d, 'c) worker_info"

definition add_listener ::
  "('d, 'c) worker_info \<Rightarrow> ('d, 'c) listeners \<times> string option \<Rightarrow> ('d, 'c) listeners \<times> string option" where
  "add_listener info ws = ((fst ws)(wi_queue info \<mapsto> info), signal_send (wi_queue info) (snd ws))"

section \<open>Log gates\<close>

definition hour :: int where "hour = 3600 * 1000000000"
definition minute :: int where "minute = 60 * 1000000000"

text \<open>\<open>now\<close> and \<open>now'\<close> are the two readings of the clock.\<close>

definition check_missing_queue_log_gate ::
  "string \<Rightarrow> gotime \<Rightarrow> gotime \<Rightarrow> (string \<rightharpoonup> gotime) \<Rightarrow> bool \<times> (string \<rightharpoonup> gotime)" where
  "check_missing_queue_log_gate q now now' gate =
     (case gate q of
        Some v \<Rightarrow> if now - v < hour then (False, gate) else (True, gate(q \<mapsto> now'))
      | None \<Rightarrow> (True, gate(q \<mapsto> now')))"

text \<open>\<open>clk i\<close> are the readings for the \<open>i\<close>-th name.\<close>

fun check_busy_loop ::
  "(nat \<Rightarrow> gotime \<times> gotime) \<Rightarrow> nat \<Rightarrow> string list \<Rightarrow> string list \<Rightarrow> (string \<rightharpoonup> gotime)
     \<Rightarrow> string list \<times> (string \<rightharpoonup> gotime)" where
  "check_busy_loop clk i [] out gate = (out, gate)"
| "check_busy_loop clk i (q # qs) out gate =
     (case gate q of
        Some v \<Rightarrow>
          if fst (clk i) - v < minute then check_busy_loop clk (Suc i) qs out gate
          else check_busy_loop clk (Suc i) qs (out @ [q]) (gate(q \<mapsto> snd (clk i)))
      | None \<Rightarrow> check_busy_loop clk (Suc i) qs (out @ [q]) (gate(q \<mapsto> snd (clk i))))"

definition check_busy_log_gate ::
  "(nat \<Rightarrow> gotime \<times> gotime) \<Rightarrow> string list \<Rightarrow> (string \<rightharpoonup> gotime) \<Rightarrow> string list \<times> (string \<rightharpoonup> gotime)" where
  "check_busy_log_gate clk qs gate = check_busy_loop clk 0 qs [] gate"

section \<open>Debug strings\<close>

definition check_valid_char :: "char \<Rightarrow> char" where
  "check_valid_char c =
     (if (of_char c :: nat) > 32 \<and> (of_char c :: nat) < 126 \<or> c = CHR 0x0A \<or> c = CHR 0x0D \<or> c = CHR 0x09 then c else CHR ''*'')"

definition check_valid_characters :: "string \<Rightarrow> string" where
  "check_valid_characters v = map check_valid_char v"

definition get_debug_string :: "string \<Rightarrow> string" where
  "get_debug_string content =
     (if length content < 100 then check_valid_characters content
      else check_valid_characters (take 100 content) @ ''...'')"

section \<open>Delay before a claim\<close>

text \<open>
  The loop at the head of \<^verbatim>\<open>startWork\<close>: it sleeps as long as the callback asks for it.  A sleep
  of \<open>d\<close> advances the clock by \<open>d\<close> and by some overhead \<open>lag n\<close>.  The loop need not end, so it
  is a partial function; the result is the time spent.
\<close>

partial_function (option) delay_loop ::
  "(int \<Rightarrow> nat \<Rightarrow> delay_info option) \<Rightarrow> (nat \<Rightarrow> int) \<Rightarrow> int \<Rightarrow> nat \<Rightarrow> int option" where
  "delay_loop cb lag elapsed count =
     (case cb elapsed count of
        None \<Rightarrow> Some elapsed
      | Some di \<Rightarrow>
          if delay_for di \<le> 0 then Some elapsed
          else if \<not> check_again di then Some (elapsed + delay_for di + lag count)
          else delay_loop cb lag (elapsed + delay_for di + lag count) (Suc count))"

section \<open>Running one job\<close>

text \<open>
  The answers of the environment during one run of \<^verbatim>\<open>startWork\<close>: the driver's for the outer
  and the inner transaction and the statements, the rows locked elsewhere, the clock's readings.
\<close>

record run_env =
  re_begin :: "string option"
  re_commit :: "string option"
  re_rollback :: "string option"
  re_get :: "string option"
  re_update :: "string option"
  re_locked :: "string set"
  re_ibegin :: "string option"
  re_icommit :: "string option"
  re_irollback :: "string option"
  re_store :: "string option"
  re_now_get :: gotime
  re_now_start :: gotime
  re_now_done :: gotime
  re_now_retain :: gotime

text \<open>
  The variables the closures of \<^verbatim>\<open>startWork\<close> capture, what was sent on \<^verbatim>\<open>claimed\<close>, and the
  application's store, which the inner transaction changes.
\<close>

record 'd run_state =
  rs_ran_job :: bool
  rs_claim_signalled :: bool
  rs_sent :: "bool list"
  rs_app :: 'd

definition signal_claimed :: "bool \<Rightarrow> 'd run_state \<Rightarrow> 'd run_state" where
  "signal_claimed v r =
     (if rs_claim_signalled r then r
      else r\<lparr>rs_claim_signalled := True, rs_sent := rs_sent r @ [v]\<rparr>)"

definition apply_middleware ::
  "(('d, 'c) worker \<Rightarrow> ('d, 'c) worker) list \<Rightarrow> ('d, 'c) worker \<Rightarrow> ('d, 'c) worker" where
  "apply_middleware ms callback = fold (\<lambda>m ex. m ex) ms callback"

text \<open>The callback's transaction: \<^verbatim>\<open>er.HandleErrors\<close> turns a panic into the returned error.\<close>

definition inner_body ::
  "('d, 'c) worker \<Rightarrow> string \<Rightarrow> job_meta \<Rightarrow> string option \<Rightarrow> ('d, 'c) tx_info
     \<Rightarrow> outcome \<times> string option \<times> ('d, 'c) tx_info" where
  "inner_body ex msg meta result t =
     (case ex msg meta t of
        (Returned res, t') \<Rightarrow> (Finished, res, t')
      | (WPanicked e, t') \<Rightarrow> (Failed e, result, t'))"

fun error_text :: "tx_error \<Rightarrow> string" where
  "error_text ErrCommitAlreadyCalled = ''transaction already closed''"
| "error_text ErrNoRows = ''sql: no rows in result set''"
| "error_text (DbError e) = e"
| "error_text (ErrOther e) = e"

definition commit_error_of :: "outcome \<Rightarrow> string option" where
  "commit_error_of err2 =
     (case err2 of
        Finished \<Rightarrow> None
      | Failed e \<Rightarrow> if e = ErrCommitAlreadyCalled then None else Some (error_text e)
      | Panicked p \<Rightarrow> Some p)"

definition outer_body ::
  "run_env \<Rightarrow> string \<Rightarrow> int \<Rightarrow> ('d, 'c) worker \<Rightarrow> 'd run_state \<Rightarrow> (job_table, 'e) tx_info
     \<Rightarrow> outcome \<times> 'd run_state \<times> (job_table, 'e) tx_info" where
  "outer_body env q retain ex r t =
     (case get_and_claim_job (re_get env) (re_update env) (re_locked env) q
             (re_now_get env) (re_now_start env) (db_work t) of
        (Inl e, tbl) \<Rightarrow> (Failed e, r, tx_write (\<lambda>_. tbl) t)
      | (Inr (meta, msg), tbl) \<Rightarrow>
          let t1 = tx_write (\<lambda>_. tbl) t;
              r1 = (signal_claimed True r)\<lparr>rs_ran_job := True\<rparr>;
              (err2, result, it) = with_tx2 (re_ibegin env) (re_icommit env) (re_irollback env)
                                     (inner_body ex msg meta) None (rs_app r1);
              r2 = r1\<lparr>rs_app := db_base it\<rparr>
          in case re_store env of
               Some e \<Rightarrow> (Failed (DbError e), r2, t1)
             | None \<Rightarrow>
                 (Finished, r2,
                  tx_write (store_result result (re_now_done env) (re_now_retain env + retain)
                              (commit_error_of err2) (wm_id meta)) t1))"

text \<open>
  \<^verbatim>\<open>startWork\<close> after the delay: the run's state at the end (with the deferred
  \<^verbatim>\<open>signalClaimed(false)\<close>) and the job table other connections see.  The value returned is \<open>rs_ran_job\<close>.
\<close>

definition start_work ::
  "run_env \<Rightarrow> string \<Rightarrow> int \<Rightarrow> (('d, 'c) worker \<Rightarrow> ('d, 'c) worker) list \<Rightarrow> ('d, 'c) worker
     \<Rightarrow> 'd \<Rightarrow> job_table \<Rightarrow> 'd run_state \<times> job_table" where
  "start_work env q retain ms callback app tbl =
     (let r0 = \<lparr>rs_ran_job = False, rs_claim_signalled = False, rs_sent = [], rs_app = app\<rparr>;
          (err, r, t) = with_tx (re_begin env) (re_commit env) (re_rollback env)
                          (outer_body env q retain (apply_middleware ms callback)) r0 tbl
      in (signal_claimed False r, db_base (t :: (job_table, unit) tx_info)))"

text \<open>\<^verbatim>\<open>startWorkConcurrencyCheck\<close>: the listeners after it, and what the job is run with.\<close>

definition start_work_concurrency_check ::
  "('d, 'c) listeners \<Rightarrow> nat \<Rightarrow> string \<Rightarrow> (('d, 'c) worker_info \<times> nat) option \<times> ('d, 'c) listeners" where
  "start_work_concurrency_check ws default_isolation q =
     (case ws q of
        None \<Rightarrow> (None, ws)
      | Some info \<Rightarrow>
          (case concurrency_check info of
             None \<Rightarrow> (None, ws)
           | Some info' \<Rightarrow>
               (Some (info', case wi_isolation info' of None \<Rightarrow> default_isolation | Some l \<Rightarrow> l),
                ws(q \<mapsto> info'))))"

section \<open>The scheduler\<close>

text \<open>
  \<^verbatim>\<open>getPredictedStart\<close>: the names with a free slot (in the order \<open>names\<close> in which the map is
  walked), the query over them; an error of the driver counts as no prediction.
\<close>

definition free_names :: "('d, 'c) listeners \<Rightarrow> string list \<Rightarrow> string list" where
  "free_names ws names =
     filter (\<lambda>q. case ws q of None \<Rightarrow> False | Some i \<Rightarrow> \<not> is_at_concurrency_limit i) names"

definition get_predicted_start ::
  "string option \<Rightarrow> ('d, 'c) listeners \<Rightarrow> string list \<Rightarrow> job_table \<Rightarrow> (string \<times> gotime) option" where
  "get_predicted_start db_err ws names tbl =
     (let valid = free_names ws names
      in if valid = [] then None
         else if db_err \<noteq> None then None
         else predicted_start_query valid tbl)"

definition fallback_check_interval :: int where
  "fallback_check_interval = 5 * minute"

text \<open>The end of an iteration of \<^verbatim>\<open>monitorScheduled\<close>: the next name and the timer's duration.\<close>

definition rearm_timer ::
  "gotime \<Rightarrow> string option \<Rightarrow> ('d, 'c) listeners \<Rightarrow> string list \<Rightarrow> job_table \<Rightarrow> string \<times> int" where
  "rearm_timer now db_err ws names tbl =
     (case get_predicted_start db_err ws names tbl of
        None \<Rightarrow> ('''', fallback_check_interval)
      | Some (q, t) \<Rightarrow> (q, t - now))"

text \<open>
  The loop of \<^verbatim>\<open>processWork\<close>, given what each dispatched job sends on \<^verbatim>\<open>claimed\<close>; a job that is
  still running keeps its slot.  Each round either ends the loop or takes a slot for good as far
  as the loop can see, so it is bounded by the free slots; \<open>claims\<close> lists the answers.
\<close>

fun process_work ::
  "('d, 'c) listeners \<Rightarrow> nat \<Rightarrow> string \<Rightarrow> bool list \<Rightarrow> ('d, 'c) listeners \<times> nat" where
  "process_work ws lvl q [] = (ws, 0)"
| "process_work ws lvl q (claimed # rest) =
     (case start_work_concurrency_check ws lvl q of
        (None, ws') \<Rightarrow> (ws', 0)
      | (Some _, ws') \<Rightarrow>
          if \<not> claimed
          then (ws'(q := map_option concurrency_done (ws' q)), 0)
          else map_prod id Suc (process_work ws' lvl q rest))"

section \<open>Queue2\<close>

text \<open>
  The callback that \<^verbatim>\<open>RegisterWorker\<close> installs: decode, run, and turn a panic into a stored
  result.  \<open>dec\<close> is \<^verbatim>\<open>json.Unmarshal\<close> at the queue's type and \<open>safe\<close> the JSON object built from
  \<^verbatim>\<open>er.SafeError\<close>.
\<close>

definition queue2_callback ::
  "(string \<Rightarrow> tx_error + 'a) \<Rightarrow> (tx_error \<Rightarrow> string)
     \<Rightarrow> ('a \<Rightarrow> ('d, 'c) tx_info \<Rightarrow> worker_out \<times> ('d, 'c) tx_info) \<Rightarrow> ('d, 'c) worker" where
  "queue2_callback dec safe callback input meta t =
     (case dec input of
        Inl e \<Rightarrow> (Returned (Some (safe e)), t)
      | Inr arg \<Rightarrow>
          (case callback arg t of
             (Returned out, t') \<Rightarrow> (Returned out, t')
           | (WPanicked e, t') \<Rightarrow> (Returned (Some (safe e)), t')))"

definition register_worker ::
  "string \<Rightarrow> int \<Rightarrow> ('d, 'c) worker \<Rightarrow> (('d, 'c) worker_info \<Rightarrow> ('d, 'c) worker_info) list
     \<Rightarrow> string + ('d, 'c) worker_info" where
  "register_worker name concurrent callback updates =
     start_workers (fold (\<lambda>u c. u c) updates
       \<lparr>wi_queue = name, wi_nconcurrent = concurrent, wi_callback = Some callback, wi_middleware = [],
        wi_retain = 0, wi_isolation = None, wi_delay = None, wi_nactive = 0\<rparr>)"

text \<open>\<^verbatim>\<open>convertOpt\<close>: the typed merge function over the encoded arguments.\<close>

definition convert_merge ::
  "(string \<Rightarrow> string + 'a) \<Rightarrow> ('a \<Rightarrow> string + string) \<Rightarrow> ('a \<Rightarrow> 'a \<Rightarrow> string + 'a)
     \<Rightarrow> string \<Rightarrow> string \<Rightarrow> string + string" where
  "convert_merge dec enc merge a b =
     (case dec a of Inl e \<Rightarrow> Inl e | Inr va \<Rightarrow>
     (case dec b of Inl e \<Rightarrow> Inl e | Inr vb \<Rightarrow>
     (case merge va vb of Inl e \<Rightarrow> Inl e | Inr up \<Rightarrow> enc up)))"

record 'a add_input2 =
  a2_start_after :: "gotime option"
  a2_debounce_key :: string
  a2_keep_original_start :: bool
  a2_merge :: "('a \<Rightarrow> 'a \<Rightarrow> string + 'a) option"
  a2_user :: "int option"
  a2_company :: "int option"

definition convert_opt ::
  "(string \<Rightarrow> string + 'a) \<Rightarrow> ('a \<Rightarrow> string + string) \<Rightarrow> 'a add_input2 \<Rightarrow> add_input" where
  "convert_opt dec enc opt =
     \<lparr>ai_start_after = a2_start_after opt, ai_debounce_key = a2_debounce_key opt,
      ai_keep_original_start = a2_keep_original_start opt,
      ai_merge = map_option (convert_merge dec enc) (a2_merge opt),
      ai_user = a2_user opt, ai_company = a2_company opt\<rparr>"

section \<open>Facts about one run\<close>

lemma get_and_claim_job_cases:
  obtains (failed) e where "get_and_claim_job ge ue locked q now now' tbl = (Inl e, tbl)"
  | (claimed) x where "select_job locked q now tbl = Some x" "ge = None" "ue = None"
      "get_and_claim_job ge ue locked q now now' tbl =
         (Inr (\<lparr>wm_id = jr_id x, wm_user = jr_usr x, wm_company = jr_company x\<rparr>, jr_arg x),
          update_id (jr_id x) (\<lambda>r. r\<lparr>jr_started := Some now'\<rparr>) tbl)"
  by (cases ge; cases "select_job locked q now tbl"; cases ue) (auto simp: get_and_claim_job_def)

text \<open>The row of a finished job.\<close>

definition finished_row ::
  "string option \<Rightarrow> gotime \<Rightarrow> gotime \<Rightarrow> gotime \<Rightarrow> string option \<Rightarrow> job_row \<Rightarrow> job_row" where
  "finished_row result started done until ce x =
     x\<lparr>jr_started := Some started, jr_result := result, jr_completed := Some done,
       jr_retain := Some until, jr_commit_error := ce\<rparr>"

lemma store_after_claim:
  "store_result result done until ce i (update_id i (\<lambda>r. r\<lparr>jr_started := Some started\<rparr>) tbl)
     = update_id i (finished_row result started done until ce) tbl"
  by (simp add: store_result_def update_id_def finished_row_def)

lemma open_begin [simp]: "\<not> commit_called (begin_tx tr db)" "db_work (begin_tx tr db) = db" "db_base (begin_tx tr db) = db"
  by (simp_all add: begin_tx_def)

lemma tx_write_open [simp]:
  "\<not> commit_called t \<Longrightarrow> db_work (tx_write f t) = f (db_work t)"
  "commit_called (tx_write f t) = commit_called t"
  "db_base (tx_write f t) = db_base t"
  by (simp_all add: tx_write_def)

text \<open>What the outer transaction leaves, by the way its body ends.\<close>

lemma commit_open:
  "\<not> commit_called t \<Longrightarrow> db_base (snd (tx_commit cm t)) = (if cm = None then db_work t else db_base t)"
  by (auto simp: tx_commit_def Let_def split: option.splits)

lemma fst_commit_open: "\<not> commit_called t \<Longrightarrow> fst (tx_commit cm t) = map_option DbError cm"
  by (auto simp: tx_commit_def Let_def split: option.splits)

lemma cleanup_base [simp]: "db_base (tx_cleanup rb t) = db_base t"
  by (auto simp: tx_cleanup_def tx_rollback_def Let_def)

lemma with_tx2_snd:
  assumes "body r (begin_tx ''with-tx'' db) = (out, r1, t1)" "\<not> commit_called t1" "db_base t1 = db"
  shows "snd (with_tx2 None cm rb body r db) =
      (r1, if out = Finished then tx_cleanup rb (snd (tx_commit cm t1)) else tx_cleanup rb t1)"
    and "db_base (snd (snd (with_tx2 None cm rb body r db))) = (if out = Finished \<and> cm = None then db_work t1 else db)"
proof -
  show "snd (with_tx2 None cm rb body r db) =
      (r1, if out = Finished then tx_cleanup rb (snd (tx_commit cm t1)) else tx_cleanup rb t1)"
    by (cases "tx_commit cm t1"; cases out) (auto simp: with_tx2_def assms(1) split: option.splits)
  then show "db_base (snd (snd (with_tx2 None cm rb body r db))) = (if out = Finished \<and> cm = None then db_work t1 else db)"
    using commit_open[OF assms(2), of cm] assms(3) by (cases cm; cases "out = Finished") simp_all
qed

lemma signal_claimed_once:
  "rs_claim_signalled r \<Longrightarrow> signal_claimed v r = r"
  "\<not> rs_claim_signalled r \<Longrightarrow> rs_sent (signal_claimed v r) = rs_sent r @ [v]"
  "rs_ran_job (signal_claimed v r) = rs_ran_job r"
  "rs_app (signal_claimed v r) = rs_app r"
  "rs_claim_signalled (signal_claimed v r)"
  by (simp_all add: signal_claimed_def)

text \<open>The body of the outer transaction.\<close>

definition run0 :: "'d \<Rightarrow> 'd run_state" where
  "run0 app = \<lparr>rs_ran_job = False, rs_claim_signalled = False, rs_sent = [], rs_app = app\<rparr>"

definition run1 :: "'d \<Rightarrow> 'd run_state" where
  "run1 app = \<lparr>rs_ran_job = True, rs_claim_signalled = True, rs_sent = [True], rs_app = app\<rparr>"

lemma run0_fields [simp]:
  "rs_app (run0 app) = app" "rs_app (run1 app) = app" "\<not> rs_ran_job (run0 app)" "rs_ran_job (run1 app)"
  "rs_sent (run0 app) = []" "rs_sent (run1 app) = [True]" "rs_app_update f (run1 app) = run1 (f app)"
  "\<not> rs_claim_signalled (run0 app)" "rs_claim_signalled (run1 app)"
  "(signal_claimed True (run0 app))\<lparr>rs_ran_job := True\<rparr> = run1 app"
  by (simp_all add: run0_def run1_def signal_claimed_def)

lemma outer_body_failed:
  "get_and_claim_job (re_get env) (re_update env) (re_locked env) q (re_now_get env) (re_now_start env) (db_work t)
      = (Inl e, tbl) \<Longrightarrow> outer_body env q retain ex r t = (Failed e, r, tx_write (\<lambda>_. tbl) t)"
  by (simp add: outer_body_def)

lemma outer_body_claimed:
  assumes "get_and_claim_job (re_get env) (re_update env) (re_locked env) q (re_now_get env) (re_now_start env) (db_work t)
      = (Inr (meta, msg), tbl)"
    and "with_tx2 (re_ibegin env) (re_icommit env) (re_irollback env) (inner_body ex msg meta) None app
      = (err2, result, it)"
  shows "outer_body env q retain ex (run0 app) t =
      (case re_store env of
         Some e \<Rightarrow> (Failed (DbError e), run1 (db_base it), tx_write (\<lambda>_. tbl) t)
       | None \<Rightarrow> (Finished, run1 (db_base it),
           tx_write (store_result result (re_now_done env) (re_now_retain env + retain) (commit_error_of err2) (wm_id meta))
             (tx_write (\<lambda>_. tbl) t)))"
  using assms by (simp add: outer_body_def Let_def split: option.split)

text \<open>Every way a run can end.\<close>

lemma start_work_cases:
  obtains (idle) "start_work env q retain ms cb app tbl = (signal_claimed False (run0 app), tbl)"
  | (ran) x err2 result it where
      "select_job (re_locked env) q (re_now_get env) tbl = Some x"
      "re_begin env = None" "re_get env = None" "re_update env = None"
      "with_tx2 (re_ibegin env) (re_icommit env) (re_irollback env)
         (inner_body (apply_middleware ms cb) (jr_arg x) \<lparr>wm_id = jr_id x, wm_user = jr_usr x, wm_company = jr_company x\<rparr>)
         None app = (err2, result, it)"
      "start_work env q retain ms cb app tbl =
         (run1 (db_base it),
          if re_store env = None \<and> re_commit env = None
          then update_id (jr_id x) (finished_row result (re_now_start env) (re_now_done env)
                 (re_now_retain env + retain) (commit_error_of err2)) tbl
          else tbl)"
proof -
  let ?ex = "apply_middleware ms cb"
  let ?t0 = "begin_tx ''with-tx'' tbl :: (job_table, unit) tx_info"
  let ?b = "outer_body env q retain ?ex :: _ \<Rightarrow> (job_table, unit) tx_info \<Rightarrow> _"
  have sw: "start_work env q retain ms cb app tbl =
      (signal_claimed False (fst (snd (with_tx2 (re_begin env) (re_commit env) (re_rollback env) ?b (run0 app) tbl))),
       db_base (snd (snd (with_tx2 (re_begin env) (re_commit env) (re_rollback env) ?b (run0 app) tbl))
         :: (job_table, unit) tx_info))"
    by (simp add: start_work_def with_tx_def run0_def case_prod_beta Let_def)
  show ?thesis
  proof (cases "re_begin env")
    case (Some e)
    then show ?thesis by (intro idle) (simp add: sw with_tx2_def)
  next
    case bg: None
    show ?thesis
    proof (cases rule: get_and_claim_job_cases[of "re_get env" "re_update env" "re_locked env" q
          "re_now_get env" "re_now_start env" tbl])
      case (failed e)
      then have b: "?b (run0 app) ?t0 = (Failed e, run0 app, tx_write (\<lambda>_. tbl) ?t0)"
        by (intro outer_body_failed) simp
      have "snd (with_tx2 None (re_commit env) (re_rollback env) ?b (run0 app) tbl)
          = (run0 app, tx_cleanup (re_rollback env) (tx_write (\<lambda>_. tbl) ?t0))"
        using with_tx2_snd(1)[of ?b "run0 app" tbl, OF b] by simp
      then show ?thesis by (intro idle) (simp add: sw bg)
    next
      case (claimed x)
      let ?meta = "\<lparr>wm_id = jr_id x, wm_user = jr_usr x, wm_company = jr_company x\<rparr>"
      let ?u = "update_id (jr_id x) (\<lambda>r. r\<lparr>jr_started := Some (re_now_start env)\<rparr>) tbl"
      obtain err2 result it where inner: "with_tx2 (re_ibegin env) (re_icommit env) (re_irollback env)
          (inner_body ?ex (jr_arg x) ?meta) None app = (err2, result, it)"
        by (rule prod_cases3)
      have g: "get_and_claim_job (re_get env) (re_update env) (re_locked env) q (re_now_get env)
          (re_now_start env) (db_work ?t0) = (Inr (?meta, jr_arg x), ?u)"
        using claimed(4) by simp
      have body: "?b (run0 app) ?t0 = (case re_store env of
         Some e \<Rightarrow> (Failed (DbError e), run1 (db_base it), tx_write (\<lambda>_. ?u) ?t0)
       | None \<Rightarrow> (Finished, run1 (db_base it),
           tx_write (store_result result (re_now_done env) (re_now_retain env + retain) (commit_error_of err2) (wm_id ?meta))
             (tx_write (\<lambda>_. ?u) ?t0)))"
        by (rule outer_body_claimed[OF g inner])
      show ?thesis
      proof (cases "re_store env")
        case None
        have b: "?b (run0 app) ?t0 = (Finished, run1 (db_base it),
           tx_write (store_result result (re_now_done env) (re_now_retain env + retain) (commit_error_of err2) (jr_id x))
             (tx_write (\<lambda>_. ?u) ?t0))"
          using body None by simp
        note w = with_tx2_snd[of ?b "run0 app" tbl, OF b, of "re_commit env" "re_rollback env", simplified]
        show ?thesis
          by (rule ran[OF claimed(1) bg claimed(2,3) inner])
             (simp add: sw bg w None commit_open store_after_claim signal_claimed_once)
      next
        case (Some e)
        have b: "?b (run0 app) ?t0 = (Failed (DbError e), run1 (db_base it), tx_write (\<lambda>_. ?u) ?t0)"
          using body Some by simp
        note w = with_tx2_snd[of ?b "run0 app" tbl, OF b, of "re_commit env" "re_rollback env", simplified]
        show ?thesis
          by (rule ran[OF claimed(1) bg claimed(2,3) inner])
             (simp add: sw bg w Some signal_claimed_once)
      qed
    qed
  qed
qed

section \<open>Properties of one run\<close>

definition sample_env :: run_env where
  "sample_env = \<lparr>re_begin = None, re_commit = None, re_rollback = None, re_get = None, re_update = None,
     re_locked = {}, re_ibegin = None, re_icommit = None, re_irollback = None, re_store = None,
     re_now_get = 9, re_now_start = 10, re_now_done = 12, re_now_retain = 12\<rparr>"

text \<open>A worker that counts its runs in the store and panics on the argument \<^verbatim>\<open>null\<close>.\<close>

definition sample_worker :: "(nat, unit) worker" where
  "sample_worker msg meta t =
     (if msg = ''null'' then (WPanicked (ErrOther ''boom''), tx_write Suc t)
      else (Returned (Some ''done''), tx_write Suc t))"

lemma finished_started: "jr_started (finished_row res st dn un ce x) = Some st"
  by (simp add: finished_row_def)



lemma with_tx2_inner:
  assumes "ex msg meta (begin_tx ''with-tx'' app) = (out, t')" "tx_reach app t'" "\<not> commit_called t'"
  shows "\<exists>it. with_tx2 None ic irb (inner_body ex msg meta) None app =
      (case out of Returned res \<Rightarrow> (case ic of None \<Rightarrow> Finished | Some e \<Rightarrow> Failed (DbError e)) | WPanicked e \<Rightarrow> Failed e,
       case out of Returned res \<Rightarrow> res | WPanicked e \<Rightarrow> None, it)
    \<and> db_base it = (case out of Returned res \<Rightarrow> (if ic = None then db_work t' else app) | WPanicked e \<Rightarrow> app)"
proof -
  have b: "db_base t' = app" using tx_reach_inv[OF assms(2)] assms(3) by (simp add: tx_inv_def)
  show ?thesis
  proof (cases out)
    case (Returned res)
    then have ib: "inner_body ex msg meta None (begin_tx ''with-tx'' app) = (Finished, res, t')"
      by (simp add: inner_body_def assms(1))
    have "with_tx2 None ic irb (inner_body ex msg meta) None app =
        (case ic of None \<Rightarrow> Finished | Some e \<Rightarrow> Failed (DbError e), res, tx_cleanup irb (snd (tx_commit ic t')))"
      using fst_commit_open[OF assms(3), of ic]
      by (cases "tx_commit ic t'") (auto simp: with_tx2_def ib split: option.splits)
    then show ?thesis using commit_open[OF assms(3), of ic] b by (simp add: Returned)
  next
    case (WPanicked e)
    then have ib: "inner_body ex msg meta None (begin_tx ''with-tx'' app) = (Failed e, None, t')"
      by (simp add: inner_body_def assms(1))
    then have "with_tx2 None ic irb (inner_body ex msg meta) None app = (Failed e, None, tx_cleanup irb t')"
      by (simp add: with_tx2_def)
    then show ?thesis using b by (simp add: WPanicked)
  qed
qed

text \<open>
  C4: What a run that claims the job \<open>x\<close> leaves when the driver serves the outer transaction and
  the callback leaves its own transaction open.  A callback that returns has its work committed and
  its result stored; when that commit fails the work is undone and the job is still completed, with
  the error beside the result.  A callback that panics has its work rolled back, and the job is
  completed with the panic as its commit error: it is not tried again.
\<close>
theorem start_work_outcome:
  assumes "re_begin env = None" "re_get env = None" "re_update env = None" "re_ibegin env = None"
    and "re_store env = None" "re_commit env = None"
    and "select_job (re_locked env) q (re_now_get env) tbl = Some x"
    and "apply_middleware ms cb (jr_arg x) \<lparr>wm_id = jr_id x, wm_user = jr_usr x, wm_company = jr_company x\<rparr>
           (begin_tx ''with-tx'' app) = (out, t')"
    and "tx_reach app t'" "\<not> commit_called t'"
  shows "\<exists>r. start_work env q retain ms cb app tbl =
      (r, update_id (jr_id x)
            (finished_row (case out of Returned res \<Rightarrow> res | WPanicked e \<Rightarrow> None)
               (re_now_start env) (re_now_done env) (re_now_retain env + retain)
               (case out of Returned res \<Rightarrow> re_icommit env
                | WPanicked e \<Rightarrow> (if e = ErrCommitAlreadyCalled then None else Some (error_text e)))) tbl)
    \<and> rs_ran_job r
    \<and> rs_app r = (case out of Returned res \<Rightarrow> (if re_icommit env = None then db_work t' else app) | WPanicked e \<Rightarrow> app)"
proof (cases rule: start_work_cases[of env q retain ms cb app tbl])
  case idle
  let ?t0 = "begin_tx ''with-tx'' tbl :: (job_table, unit) tx_info"
  let ?b = "outer_body env q retain (apply_middleware ms cb) :: _ \<Rightarrow> (job_table, unit) tx_info \<Rightarrow> _"
  have "rs_ran_job (fst (start_work env q retain ms cb app tbl))"
  proof -
    obtain err2 result it where inner: "with_tx2 (re_ibegin env) (re_icommit env) (re_irollback env)
        (inner_body (apply_middleware ms cb) (jr_arg x) \<lparr>wm_id = jr_id x, wm_user = jr_usr x, wm_company = jr_company x\<rparr>)
        None app = (err2, result, it)"
      by (rule prod_cases3)
    have "get_and_claim_job (re_get env) (re_update env) (re_locked env) q (re_now_get env)
        (re_now_start env) (db_work ?t0) =
        (Inr (\<lparr>wm_id = jr_id x, wm_user = jr_usr x, wm_company = jr_company x\<rparr>, jr_arg x),
         update_id (jr_id x) (\<lambda>r. r\<lparr>jr_started := Some (re_now_start env)\<rparr>) tbl)"
      using assms by (simp add: get_and_claim_job_def)
    from outer_body_claimed[OF this inner, of retain] assms(5)
    obtain t1 where "?b (run0 app) ?t0 = (Finished, run1 (db_base it), t1)" by auto
    then have "fst (snd (with_tx2 None (re_commit env) (re_rollback env) ?b (run0 app) tbl)) = run1 (db_base it)"
      by (simp add: with_tx2_def split: prod.splits option.splits)
    then show ?thesis
      by (simp add: start_work_def with_tx_def run0_def case_prod_beta Let_def assms(1) signal_claimed_once)
  qed
  with idle show ?thesis by (simp add: signal_claimed_once)
next
  case (ran y err2 result it)
  have y: "y = x" using ran(1) assms(7) by simp
  from with_tx2_inner[where ex = "apply_middleware ms cb", OF assms(8,9,10), of "re_icommit env" "re_irollback env"]
    ran(5) assms(4)
  have "err2 = (case out of Returned res \<Rightarrow> (case re_icommit env of None \<Rightarrow> Finished | Some e \<Rightarrow> Failed (DbError e)) | WPanicked e \<Rightarrow> Failed e)"
    and "result = (case out of Returned res \<Rightarrow> res | WPanicked e \<Rightarrow> None)"
    and "db_base it = (case out of Returned res \<Rightarrow> (if re_icommit env = None then db_work t' else app) | WPanicked e \<Rightarrow> app)"
    by (simp_all add: y)
  moreover from this(1) have "commit_error_of err2 = (case out of Returned res \<Rightarrow> re_icommit env
      | WPanicked e \<Rightarrow> (if e = ErrCommitAlreadyCalled then None else Some (error_text e)))"
    by (cases out; cases "re_icommit env") (simp_all add: commit_error_of_def)
  ultimately show ?thesis using ran(6) assms(5,6) by (simp add: y)
qed

lemma start_work_outcome_witness:
  "\<exists>r t. start_work sample_env ''mail'' 5 [] sample_worker 0 [sample_row ''p'' '''' 3 None None\<lparr>jr_arg := ''null''\<rparr>] = (r, t)
     \<and> rs_app r = 0 \<and> map jr_commit_error t = [Some ''boom''] \<and> map jr_completed t = [Some 12]"
proof -
  let ?x = "sample_row ''p'' '''' 3 None None\<lparr>jr_arg := ''null''\<rparr>"
  let ?t' = "tx_write Suc (begin_tx ''with-tx'' 0) :: (nat, unit) tx_info"
  have sel: "select_job (re_locked sample_env) ''mail'' (re_now_get sample_env) [?x] = Some ?x"
    by (simp add: select_job_def claimable_def sample_row_def sample_env_def)
  have run: "apply_middleware [] sample_worker (jr_arg ?x) \<lparr>wm_id = jr_id ?x, wm_user = jr_usr ?x, wm_company = jr_company ?x\<rparr>
      (begin_tx ''with-tx'' 0) = (WPanicked (ErrOther ''boom''), ?t')"
    by (simp add: apply_middleware_def sample_worker_def)
  have reach: "tx_reach 0 ?t'" by (rule reach_step[OF reach_begin step_write])
  from start_work_outcome[OF _ _ _ _ _ _ sel run reach, of 5]
  show ?thesis
    by (auto simp: sample_env_def update_id_def finished_row_def sample_row_def)
qed

section \<open>The scheduler's timer\<close>

lemma free_names_mem:
  "q \<in> set (free_names ws names) \<longleftrightarrow> q \<in> set names \<and> (\<exists>i. ws q = Some i \<and> \<not> is_at_concurrency_limit i)"
  by (auto simp: free_names_def split: option.splits)


definition sample_listeners :: "(nat, unit) listeners" where
  "sample_listeners = [''mail'' \<mapsto> \<lparr>wi_queue = ''mail'', wi_nconcurrent = 2, wi_callback = Some sample_worker,
     wi_middleware = [], wi_retain = 5, wi_isolation = None, wi_delay = None, wi_nactive = 1\<rparr>]"

lemma sample_rearm: "rearm_timer 9 None sample_listeners [''mail''] sample_table = (''mail'', - 6)"
  by (simp add: rearm_timer_def get_predicted_start_def free_names_def is_at_concurrency_limit_def
      sample_listeners_def predicted_start_query_def start_groups_def sample_defs List.map_filter_def)


text \<open>
  While a job of a queue with a spare slot runs, its row is still unstarted for the prediction
  query, which takes no locks: the timer is set to a time in the past although there is nothing to
  claim, so the scheduler iterates without a pause until the job ends.
\<close>
lemma scheduler_spins:
  assumes "jr_started r = None" "jr_start_after r \<le> now" "ws (jr_queue r) = Some i" "\<not> is_at_concurrency_limit i"
  shows "rearm_timer now None ws [jr_queue r] [r] = (jr_queue r, jr_start_after r - now)"
    and "jr_start_after r - now \<le> 0"
    and "get_and_claim_job None None {jr_id r} (jr_queue r) now now' [r] = (Inl ErrNoRows, [r])"
  using assms
  by (simp_all add: rearm_timer_def get_predicted_start_def free_names_def predicted_start_query_def
      start_groups_def List.map_filter_def get_and_claim_job_def select_job_def)

section \<open>Smaller facts\<close>

text \<open>The delay loop returns as soon as the callback gives up after some number of rounds.\<close>

lemma delay_loop_ends:
  assumes "\<And>e c. n \<le> c \<Longrightarrow> (case cb e c of None \<Rightarrow> True | Some di \<Rightarrow> delay_for di \<le> 0 \<or> \<not> check_again di)"
  shows "\<exists>t. delay_loop cb lag elapsed count = Some t"
proof (induction "n - count" arbitrary: elapsed count)
  case 0
  then show ?case using assms[of count elapsed]
    by (subst delay_loop.simps) (auto split: option.splits)
next
  case (Suc k)
  show ?case
  proof (cases "cb elapsed count")
    case None
    then show ?thesis by (subst delay_loop.simps) simp
  next
    case (Some di)
    from Suc.hyps(1)[of "Suc count"] Suc.hyps(2)
    have "\<exists>t. delay_loop cb lag e (Suc count) = Some t" for e by simp
    with Some show ?thesis by (subst delay_loop.simps) simp
  qed
qed

text \<open>No time passes before a claim without a request for it.\<close>

lemma delay_loop_none: "cb 0 0 = None \<Longrightarrow> delay_loop cb lag 0 0 = Some 0"
  by (subst delay_loop.simps) simp

lemma start_workers_ok:
  "start_workers info = Inr i \<Longrightarrow> wi_nconcurrent i \<noteq> 0 \<and> wi_retain i \<noteq> 0 \<and> wi_callback i = wi_callback info"
  by (auto simp: start_workers_def Let_def split: if_splits)

lemma queue2_never_panics: "fst (queue2_callback dec safe callback input meta t) \<noteq> WPanicked e"
  by (auto simp: queue2_callback_def split: sum.split prod.split worker_out.split)

lemma missing_gate_hourly:
  "check_missing_queue_log_gate q now now' gate = (True, gate') \<Longrightarrow> later - now' < hour \<Longrightarrow>
     fst (check_missing_queue_log_gate q later later' gate') = False"
  by (auto simp: check_missing_queue_log_gate_def split: option.splits if_splits)

lemma check_busy_loop_sub:
  "set (fst (check_busy_loop clk i qs out gate)) \<subseteq> set out \<union> set qs"
  by (induction clk i qs out gate rule: check_busy_loop.induct)
     (auto simp del: fun_upd_apply split: option.splits)

lemma check_busy_loop_recent:
  "gate q = Some v \<Longrightarrow> (\<And>j. fst (clk j) - v < minute) \<Longrightarrow> q \<notin> set out \<Longrightarrow>
     q \<notin> set (fst (check_busy_loop clk i qs out gate))"
proof (induction clk i qs out gate rule: check_busy_loop.induct)
  case (2 clk i p qs out gate)
  then show ?case
    by (cases "p = q") (auto simp del: fun_upd_apply simp: fun_upd_other split: option.splits)
qed simp

lemma debug_string_length: "length (get_debug_string c) \<le> 103"
  by (simp add: get_debug_string_def check_valid_characters_def)

lemma check_valid_char_safe:
  "(32 < (of_char (check_valid_char c) :: nat) \<and> (of_char (check_valid_char c) :: nat) < 126)
     \<or> check_valid_char c \<in> {CHR 0x0A, CHR 0x0D, CHR 0x09}"
  by (auto simp: check_valid_char_def)

lemma convert_opt_merge:
  "(\<And>x. dec (the_enc x) = Inr x) \<Longrightarrow> (\<And>x. enc x = Inr (the_enc x)) \<Longrightarrow> a2_merge opt = Some f \<Longrightarrow>
   \<exists>m. ai_merge (convert_opt dec enc opt) = Some m
     \<and> m (the_enc a) (the_enc b) = (case f a b of Inl e \<Rightarrow> Inl e | Inr c \<Rightarrow> Inr (the_enc c))"
  by (auto simp: convert_opt_def convert_merge_def split: sum.splits)

end
