(* ===== verification/WqSystem.thy ===== *)
theory WqSystem
  imports WqRun
begin

text \<open>
  Package \<^verbatim>\<open>pqworkqueue\<close> as a system: several processes, each with its registered workers, share
  the job table.  A slot is one goroutine of \<^verbatim>\<open>processWork\<close>: it is dispatched after the
  concurrency check, claims a job (holding the row's lock until its outer transaction ends), and
  commits or aborts.  Clients add jobs and the cleaner runs at any time.  A step is one database
  transaction's effect or one critical section, so a run of the system is an interleaving of
  those; the invariant holds in every reachable state.
\<close>

section \<open>States and steps\<close>

datatype slot_phase = Dispatched | Holding string gotime

type_synonym slot = "nat \<times> string \<times> slot_phase"

record ('d, 'c) wq_sys =
  sy_table :: job_table
  sy_workers :: "nat \<Rightarrow> ('d, 'c) listeners"
  sy_slots :: "slot list"
  sy_done :: "string list"
  sy_ids :: "string set"

fun held_of :: "slot \<Rightarrow> string list" where
  "held_of (p, q, Dispatched) = []"
| "held_of (p, q, Holding i st) = [i]"

definition held :: "slot list \<Rightarrow> string list" where
  "held ss = concat (map held_of ss)"

text \<open>The slot of process \<open>p\<close> for queue \<open>q\<close> is given back.\<close>

definition release :: "nat \<Rightarrow> string \<Rightarrow> (nat \<Rightarrow> ('d, 'c) listeners) \<Rightarrow> nat \<Rightarrow> ('d, 'c) listeners" where
  "release p q ws = ws(p := (ws p)(q := map_option concurrency_done (ws p q)))"

inductive wq_step :: "nat \<Rightarrow> ('d, 'c) wq_sys \<Rightarrow> ('d, 'c) wq_sys \<Rightarrow> bool" for lvl where
  register:
    "start_workers info0 = Inr info \<Longrightarrow> wi_nactive info = 0 \<Longrightarrow> sy_workers S p (wi_queue info) = None \<Longrightarrow>
     wq_step lvl S (S\<lparr>sy_workers := (sy_workers S)(p := fst (add_listener info (sy_workers S p, None)))\<rparr>)"
| dispatch:
    "start_work_concurrency_check (sy_workers S p) lvl q = (Some info, ws') \<Longrightarrow>
     wq_step lvl S (S\<lparr>sy_workers := (sy_workers S)(p := ws'), sy_slots := sy_slots S @ [(p, q, Dispatched)]\<rparr>)"
| no_job:
    "sy_slots S = as @ (p, q, Dispatched) # bs \<Longrightarrow>
     wq_step lvl S (S\<lparr>sy_workers := release p q (sy_workers S), sy_slots := as @ bs\<rparr>)"
| claim:
    "sy_slots S = as @ (p, q, Dispatched) # bs \<Longrightarrow>
     get_and_claim_job None None (set (held (sy_slots S))) q now now' (sy_table S) = (Inr (meta, msg), tbl) \<Longrightarrow>
     wq_step lvl S (S\<lparr>sy_slots := as @ (p, q, Holding (wm_id meta) now') # bs\<rparr>)"
| commit_job:
    "sy_slots S = as @ (p, q, Holding i st) # bs \<Longrightarrow>
     wq_step lvl S (S\<lparr>sy_table := update_id i (finished_row res st dn un ce) (sy_table S),
                  sy_workers := release p q (sy_workers S), sy_slots := as @ bs, sy_done := sy_done S @ [i]\<rparr>)"
| abort_job:
    "sy_slots S = as @ (p, q, Holding i st) # bs \<Longrightarrow>
     wq_step lvl S (S\<lparr>sy_workers := release p q (sy_workers S), sy_slots := as @ bs\<rparr>)"
| add_job:
    "i \<notin> sy_ids S \<Longrightarrow>
     queue_add q m (Inr i) e e2 (set (held (sy_slots S))) now now' opts (sy_table S) = (res, tbl) \<Longrightarrow>
     wq_step lvl S (S\<lparr>sy_table := tbl, sy_ids := insert i (sy_ids S)\<rparr>)"
| clean:
    "wq_step lvl S (S\<lparr>sy_table := cleaner_tick (set (held (sy_slots S))) now (sy_table S)\<rparr>)"

text \<open>A row as other connections see it: it is started exactly when it is completed.\<close>

definition row_ok :: "job_row \<Rightarrow> bool" where
  "row_ok r \<longleftrightarrow> (jr_started r \<noteq> None \<longleftrightarrow> jr_completed r \<noteq> None) \<and> (jr_retain r \<noteq> None \<longrightarrow> jr_completed r \<noteq> None)"

definition table_ok :: "job_table \<Rightarrow> bool" where
  "table_ok tbl \<longleftrightarrow> ids_unique tbl \<and> (\<forall>r\<in>set tbl. row_ok r)"

text \<open>The processes start with no worker registered over a table left by earlier runs.\<close>

definition wq_init :: "job_table \<Rightarrow> ('d, 'c) wq_sys" where
  "wq_init tbl = \<lparr>sy_table = tbl, sy_workers = (\<lambda>_. Map.empty), sy_slots = [],
     sy_done = map jr_id (filter (\<lambda>r. jr_completed r \<noteq> None) tbl), sy_ids = jr_id ` set tbl\<rparr>"

inductive wq_reach :: "nat \<Rightarrow> job_table \<Rightarrow> ('d, 'c) wq_sys \<Rightarrow> bool" for lvl tbl where
  reach_init: "wq_reach lvl tbl (wq_init tbl)"
| reach_next: "wq_reach lvl tbl S \<Longrightarrow> wq_step lvl S T \<Longrightarrow> wq_reach lvl tbl T"

section \<open>The invariant\<close>

definition slots_of :: "nat \<Rightarrow> string \<Rightarrow> slot list \<Rightarrow> nat" where
  "slots_of p q ss = length (filter (\<lambda>s. fst s = p \<and> fst (snd s) = q) ss)"

definition counters_ok :: "(nat \<Rightarrow> ('d, 'c) listeners) \<Rightarrow> slot list \<Rightarrow> bool" where
  "counters_ok ws ss \<longleftrightarrow> (\<forall>p q. case ws p q of
       None \<Rightarrow> slots_of p q ss = 0
     | Some i \<Rightarrow> wi_nactive i = int (slots_of p q ss) \<and> wi_nactive i \<le> max 0 (wi_nconcurrent i))"

definition locks_ok :: "slot list \<Rightarrow> job_table \<Rightarrow> bool" where
  "locks_ok ss tbl \<longleftrightarrow> distinct (held ss)
     \<and> (\<forall>(p, q, ph)\<in>set ss. \<forall>i st. ph = Holding i st \<longrightarrow>
          (\<exists>r\<in>set tbl. jr_id r = i \<and> jr_queue r = q \<and> jr_started r = None))"

definition done_ok :: "string list \<Rightarrow> string set \<Rightarrow> job_table \<Rightarrow> bool" where
  "done_ok ds ids tbl \<longleftrightarrow> distinct ds \<and> set ds \<subseteq> ids \<and> jr_id ` set tbl \<subseteq> ids
     \<and> (\<forall>r\<in>set tbl. jr_id r \<in> set ds \<longleftrightarrow> jr_completed r \<noteq> None)"

definition wq_inv :: "('d, 'c) wq_sys \<Rightarrow> bool" where
  "wq_inv S \<longleftrightarrow> table_ok (sy_table S) \<and> counters_ok (sy_workers S) (sy_slots S)
     \<and> locks_ok (sy_slots S) (sy_table S) \<and> done_ok (sy_done S) (sy_ids S) (sy_table S)"

lemmas wq_inv_defs = wq_inv_def table_ok_def counters_ok_def locks_ok_def done_ok_def

lemma held_simps [simp]:
  "held [] = []" "held (s # ss) = held_of s @ held ss" "held (as @ bs) = held as @ held bs"
  by (simp_all add: held_def)

lemma slots_of_simps [simp]:
  "slots_of p q [] = 0"
  "slots_of p q (as @ bs) = slots_of p q as + slots_of p q bs"
  "slots_of p q ((p', q', ph) # ss) = (if p' = p \<and> q' = q then 1 else 0) + slots_of p q ss"
  by (simp_all add: slots_of_def)

lemma held_mem: "(p, q, Holding i st) \<in> set ss \<Longrightarrow> i \<in> set (held ss)"
  by (induction ss) auto

lemma held_origin: "i \<in> set (held ss) \<Longrightarrow> \<exists>p q st. (p, q, Holding i st) \<in> set ss"
proof (induction ss)
  case Nil
  then show ?case by simp
next
  case (Cons s ss)
  then show ?case by (cases s; cases "snd (snd s)") auto
qed

subsection \<open>Counters\<close>

lemma counters_release:
  assumes "counters_ok ws (as @ (p, q, ph) # bs)"
  shows "counters_ok (release p q ws) (as @ bs)"
  unfolding counters_ok_def
proof (intro allI)
  fix p' q'
  have old: "case ws p' q' of None \<Rightarrow> slots_of p' q' (as @ (p, q, ph) # bs) = 0
     | Some i \<Rightarrow> wi_nactive i = int (slots_of p' q' (as @ (p, q, ph) # bs)) \<and> wi_nactive i \<le> max 0 (wi_nconcurrent i)"
    using assms unfolding counters_ok_def by blast
  show "case release p q ws p' q' of None \<Rightarrow> slots_of p' q' (as @ bs) = 0
     | Some i \<Rightarrow> wi_nactive i = int (slots_of p' q' (as @ bs)) \<and> wi_nactive i \<le> max 0 (wi_nconcurrent i)"
    using old by (auto simp: release_def concurrency_done_def split: option.splits if_splits)
qed

lemma counters_dispatch:
  assumes "counters_ok ws ss" "start_work_concurrency_check (ws p) lvl q = (Some info, ws')"
  shows "counters_ok (ws(p := ws')) (ss @ [(p, q, ph)])"
  unfolding counters_ok_def
proof (intro allI)
  fix p' q'
  have old: "case ws p' q' of None \<Rightarrow> slots_of p' q' ss = 0
     | Some i \<Rightarrow> wi_nactive i = int (slots_of p' q' ss) \<and> wi_nactive i \<le> max 0 (wi_nconcurrent i)"
    using assms(1) unfolding counters_ok_def by blast
  obtain i where i: "ws p q = Some i" "wi_nactive i < wi_nconcurrent i"
    "ws' = (ws p)(q \<mapsto> i\<lparr>wi_nactive := wi_nactive i + 1\<rparr>)"
    using assms(2) by (auto simp: start_work_concurrency_check_def concurrency_check_def split: option.splits if_splits)
  show "case (ws(p := ws')) p' q' of None \<Rightarrow> slots_of p' q' (ss @ [(p, q, ph)]) = 0
     | Some i \<Rightarrow> wi_nactive i = int (slots_of p' q' (ss @ [(p, q, ph)])) \<and> wi_nactive i \<le> max 0 (wi_nconcurrent i)"
    using old i by (auto split: option.splits if_splits)
qed

lemma counters_register:
  assumes "counters_ok ws ss" "wi_nactive info = 0" "ws p (wi_queue info) = None"
  shows "counters_ok (ws(p := fst (add_listener info (ws p, None)))) ss"
proof -
  from assms(1)[unfolded counters_ok_def, rule_format, of p "wi_queue info"] assms(3)
  have "slots_of p (wi_queue info) ss = 0" by simp
  with assms show ?thesis by (auto simp: counters_ok_def add_listener_def split: option.splits if_splits)
qed

lemma counters_phase: "counters_ok ws (as @ (p, q, ph) # bs) = counters_ok ws (as @ (p, q, ph') # bs)"
proof -
  have "slots_of p' q' (as @ (p, q, ph) # bs) = slots_of p' q' (as @ (p, q, ph') # bs)" for p' q'
    by simp
  then show ?thesis by (simp only: counters_ok_def)
qed

subsection \<open>The table\<close>

lemma finished_row_fields [simp]:
  "jr_id (finished_row res st dn un ce x) = jr_id x"
  "jr_queue (finished_row res st dn un ce x) = jr_queue x"
  "jr_started (finished_row res st dn un ce x) = Some st"
  "jr_completed (finished_row res st dn un ce x) = Some dn"
  "jr_retain (finished_row res st dn un ce x) = Some un"
  by (simp_all add: finished_row_def)

lemma update_id_mem:
  "r \<in> set (update_id i f tbl) \<longleftrightarrow> (\<exists>x\<in>set tbl. r = (if jr_id x = i then f x else x))"
  unfolding update_id_def set_map image_iff ..

lemma locks_ok_held:
  "locks_ok ss tbl \<Longrightarrow> i \<in> set (held ss) \<Longrightarrow> \<exists>r\<in>set tbl. jr_id r = i \<and> jr_started r = None"
  using held_origin[of i ss] by (fastforce simp: locks_ok_def)

text \<open>A change of the table that keeps the held rows as they are keeps the locks meaningful.\<close>

lemma locks_ok_table:
  assumes "locks_ok ss tbl"
    and "\<And>r. r \<in> set tbl \<Longrightarrow> jr_id r \<in> set (held ss) \<Longrightarrow> r \<in> set tbl'"
  shows "locks_ok ss tbl'"
  unfolding locks_ok_def
proof (intro conjI ballI)
  show "distinct (held ss)" using assms(1) by (simp add: locks_ok_def)
next
  fix s
  assume s: "s \<in> set ss"
  obtain p q ph where spq: "s = (p, q, ph)" by (cases s)
  have "\<exists>r\<in>set tbl'. jr_id r = i \<and> jr_queue r = q \<and> jr_started r = None" if ph: "ph = Holding i st" for i st
  proof -
    obtain r where r: "r \<in> set tbl" "jr_id r = i" "jr_queue r = q" "jr_started r = None"
      using assms(1) s spq ph unfolding locks_ok_def by fastforce
    have "i \<in> set (held ss)" using s spq ph held_mem by blast
    with r assms(2)[of r] show ?thesis by blast
  qed
  then show "case s of (p, q, ph) \<Rightarrow> \<forall>i st. ph = Holding i st \<longrightarrow>
      (\<exists>r\<in>set tbl'. jr_id r = i \<and> jr_queue r = q \<and> jr_started r = None)"
    unfolding spq prod.case by blast
qed

lemma locks_ok_drop: "locks_ok (as @ s # bs) tbl \<Longrightarrow> locks_ok (as @ bs) tbl"
  by (auto simp: locks_ok_def)

lemma locks_ok_dispatch: "locks_ok ss tbl \<Longrightarrow> locks_ok (ss @ [(p, q, Dispatched)]) tbl"
  by (auto simp: locks_ok_def)

lemma locks_ok_claim:
  assumes "locks_ok (as @ (p, q, Dispatched) # bs) tbl"
    and "r \<in> set tbl" "jr_queue r = q" "jr_started r = None"
    and "jr_id r \<notin> set (held (as @ (p, q, Dispatched) # bs))"
  shows "locks_ok (as @ (p, q, Holding (jr_id r) st) # bs) tbl"
  using assms by (auto simp: locks_ok_def)

lemma table_ok_commit: "table_ok tbl \<Longrightarrow> table_ok (update_id i (finished_row res st dn un ce) tbl)"
proof -
  assume ok: "table_ok tbl"
  have "row_ok r" if "r \<in> set (update_id i (finished_row res st dn un ce) tbl)" for r
  proof -
    from that obtain x where x: "x \<in> set tbl" "r = (if jr_id x = i then finished_row res st dn un ce x else x)"
      by (auto simp only: update_id_mem)
    from ok x(1) have "row_ok x" by (simp add: table_ok_def)
    then show ?thesis by (simp add: x(2) row_ok_def)
  qed
  with ok show ?thesis by (simp add: table_ok_def)
qed

lemma cleaner_subset: "r \<in> set (cleaner_tick locked now tbl) \<Longrightarrow> r \<in> set tbl"
  by (auto simp: cleaner_tick_def Let_def)

lemma cleaner_keeps: "r \<in> set tbl \<Longrightarrow> jr_id r \<in> locked \<Longrightarrow> r \<in> set (cleaner_tick locked now tbl)"
  by (auto simp: cleaner_tick_def Let_def dest!: in_set_takeD)

lemma table_ok_clean: "table_ok tbl \<Longrightarrow> table_ok (cleaner_tick locked now tbl)"
  by (auto simp: table_ok_def cleaner_tick_def Let_def intro: ids_unique_filter)

text \<open>What an add does to the rows, for the invariant.\<close>

lemma add_rows:
  assumes "queue_add q m (Inr i) e e2 locked now now' opts tbl = (res, tbl')" "ids_unique tbl"
    "i \<notin> jr_id ` set tbl"
  shows "\<And>r. r \<in> set tbl \<Longrightarrow> jr_id r \<in> locked \<Longrightarrow> r \<in> set tbl'"
    and "\<And>r. r \<in> set tbl' \<Longrightarrow>
           (\<exists>x\<in>set tbl. jr_id r = jr_id x \<and> jr_started r = jr_started x \<and> jr_completed r = jr_completed x
               \<and> jr_retain r = jr_retain x)
         \<or> jr_id r = i \<and> jr_started r = None \<and> jr_completed r = None \<and> jr_retain r = None"
proof -
  show "r \<in> set tbl'" if "r \<in> set tbl" "jr_id r \<in> locked" for r
  proof (cases rule: queue_add_table[of q m "Inr i" e e2 locked now now' opts tbl])
    case same
    with assms(1) that show ?thesis by simp
  next
    case (inserted j msg s)
    with assms(1) that show ?thesis by simp
  next
    case (updated old a s)
    then have "jr_id old \<notin> locked" using find_existing_Some by blast
    with that have "jr_id r \<noteq> jr_id old" by auto
    with updated assms(1) that show ?thesis by (auto simp: update_id_mem intro!: bexI[of _ r])
  qed
  show "(\<exists>x\<in>set tbl. jr_id r = jr_id x \<and> jr_started r = jr_started x \<and> jr_completed r = jr_completed x
               \<and> jr_retain r = jr_retain x)
         \<or> jr_id r = i \<and> jr_started r = None \<and> jr_completed r = None \<and> jr_retain r = None"
    if "r \<in> set tbl'" for r
  proof (cases rule: queue_add_table[of q m "Inr i" e e2 locked now now' opts tbl])
    case same
    with assms(1) that show ?thesis by auto
  next
    case (inserted j msg s)
    with assms(1) that show ?thesis by (auto simp: new_row_def)
  next
    case (updated old a s)
    with assms(1) that obtain x where "x \<in> set tbl"
      "r = (if jr_id x = jr_id old then x\<lparr>jr_arg := a, jr_start_after := s\<rparr> else x)"
      by (auto simp only: update_id_mem prod.inject)
    then show ?thesis by (intro disjI1 bexI[of _ x]) simp_all
  qed
qed

subsection \<open>Every step keeps it\<close>

lemma wq_inv_init: "table_ok tbl \<Longrightarrow> wq_inv (wq_init tbl)"
proof -
  assume ok: "table_ok tbl"
  then have d: "distinct (map jr_id (filter (\<lambda>r. jr_completed r \<noteq> None) tbl))"
    by (simp add: table_ok_def ids_unique_def distinct_map_filter)
  have "jr_id r \<in> jr_id ` {x \<in> set tbl. jr_completed x \<noteq> None} \<longleftrightarrow> jr_completed r \<noteq> None" if "r \<in> set tbl" for r
    using ids_unique_eq[of tbl r] ok that by (auto simp: table_ok_def)
  with ok d show ?thesis by (auto simp: wq_inv_def wq_init_def counters_ok_def locks_ok_def done_ok_def)
qed

lemma done_ok_sub: "done_ok ds ids tbl \<Longrightarrow> set tbl' \<subseteq> set tbl \<Longrightarrow> done_ok ds ids tbl'"
  by (auto simp: done_ok_def)

lemma commit_done_ok:
  assumes d: "done_ok ds ids tbl" and r: "r \<in> set tbl" "jr_id r = i" "jr_completed r = None"
  shows "done_ok (ds @ [i]) ids (update_id i (finished_row res st dn un ce) tbl)"
proof -
  have i: "i \<notin> set ds" "i \<in> ids" using d r by (auto simp: done_ok_def)
  have "jr_id x \<in> set (ds @ [i]) \<longleftrightarrow> jr_completed x \<noteq> None"
    and "jr_id x \<in> ids"
    if "x \<in> set (update_id i (finished_row res st dn un ce) tbl)" for x
  proof -
    from that obtain y where y: "y \<in> set tbl" "x = (if jr_id y = i then finished_row res st dn un ce y else y)"
      by (auto simp only: update_id_mem)
    with d have "jr_id y \<in> ids" "jr_id y \<in> set ds \<longleftrightarrow> jr_completed y \<noteq> None" by (auto simp: done_ok_def)
    with y(2) i show "jr_id x \<in> set (ds @ [i]) \<longleftrightarrow> jr_completed x \<noteq> None" "jr_id x \<in> ids"
      by (auto split: if_splits)
  qed
  with d i show ?thesis unfolding done_ok_def by auto
qed

lemma held_row:
  assumes "wq_inv S" "sy_slots S = as @ (p, q, Holding i st) # bs"
  obtains r where "r \<in> set (sy_table S)" "jr_id r = i" "jr_completed r = None"
proof -
  have "i \<in> set (held (sy_slots S))" by (simp add: assms(2))
  with assms(1) obtain r where r: "r \<in> set (sy_table S)" "jr_id r = i" "jr_started r = None"
    using locks_ok_held by (metis wq_inv_def)
  moreover have "row_ok r" using assms(1) r(1) by (simp add: wq_inv_def table_ok_def)
  ultimately show ?thesis using that by (simp add: row_ok_def)
qed

lemma wq_step_inv: "wq_step lvl S T \<Longrightarrow> wq_inv S \<Longrightarrow> wq_inv T"
proof (induction rule: wq_step.induct)
  case (register info0 info S p)
  then show ?case by (simp add: wq_inv_def counters_register)
next
  case (dispatch S p q info ws')
  then show ?case by (simp add: wq_inv_def counters_dispatch locks_ok_dispatch)
next
  case (no_job S as p q bs)
  then show ?case by (auto simp: wq_inv_def dest: counters_release locks_ok_drop)
next
  case (claim S as p q bs now now' meta msg tbl)
  let ?L = "set (held (sy_slots S))"
  obtain r where r: "select_job ?L q now (sy_table S) = Some r" "wm_id meta = jr_id r"
    using claim(2) by (cases rule: get_and_claim_job_cases[of None None ?L q now now' "sy_table S"]) auto
  note sel = select_job_Some[OF r(1)]
  have "locks_ok (as @ (p, q, Holding (jr_id r) now') # bs) (sy_table S)"
    using claim(1,3) sel by (intro locks_ok_claim) (auto simp: wq_inv_def claimable_def)
  moreover have "counters_ok (sy_workers S) (as @ (p, q, Holding (jr_id r) now') # bs)"
    using claim(1,3) counters_phase by (metis wq_inv_def)
  ultimately show ?case using claim(3) by (simp add: wq_inv_def r(2))
next
  case (commit_job S as p q i st bs res dn un ce)
  obtain r where r: "r \<in> set (sy_table S)" "jr_id r = i" "jr_completed r = None"
    using held_row[OF commit_job(2,1)] .
  let ?t = "update_id i (finished_row res st dn un ce) (sy_table S)"
  have d: "i \<notin> set (held (as @ bs))"
    using commit_job by (auto simp: wq_inv_def locks_ok_def)
  have "locks_ok (as @ bs) (sy_table S)"
    using commit_job locks_ok_drop by (metis wq_inv_def)
  then have "locks_ok (as @ bs) ?t"
    by (rule locks_ok_table) (use d in \<open>auto simp: update_id_mem\<close>)
  moreover have "done_ok (sy_done S @ [i]) (sy_ids S) ?t"
    using commit_job(2) r by (intro commit_done_ok) (simp_all add: wq_inv_def)
  moreover have "counters_ok (release p q (sy_workers S)) (as @ bs)"
    using commit_job counters_release by (metis wq_inv_def)
  ultimately show ?case using commit_job(2) by (simp add: wq_inv_def table_ok_commit)
next
  case (abort_job S as p q i st bs)
  then show ?case by (auto simp: wq_inv_def dest: counters_release locks_ok_drop)
next
  case (add_job i S q m e e2 now now' opts res tbl)
  then have i: "i \<notin> jr_id ` set (sy_table S)" by (auto simp: wq_inv_def done_ok_def)
  have u: "ids_unique (sy_table S)" using add_job(3) by (simp add: wq_inv_def table_ok_def)
  note rows = add_rows[OF add_job(2) u i]
  have t: "ids_unique tbl"
    using queue_add_unique[OF u, of q m "Inr i"] add_job(2) by (metis snd_conv)
  have ok: "row_ok x" if "x \<in> set (sy_table S)" for x
    using add_job(3) that by (simp add: wq_inv_def table_ok_def)
  have "row_ok r" if "r \<in> set tbl" for r
    using rows(2)[OF that]
  proof (elim disjE bexE conjE)
    fix x
    assume "x \<in> set (sy_table S)" "jr_started r = jr_started x" "jr_completed r = jr_completed x"
      "jr_retain r = jr_retain x"
    with ok[of x] show "row_ok r" by (simp add: row_ok_def)
  qed (simp add: row_ok_def)
  moreover have "locks_ok (sy_slots S) tbl"
  proof (rule locks_ok_table)
    show "locks_ok (sy_slots S) (sy_table S)" using add_job(3) by (simp add: wq_inv_def)
    show "r \<in> set tbl" if "r \<in> set (sy_table S)" "jr_id r \<in> set (held (sy_slots S))" for r
      using that by (rule rows(1))
  qed
  moreover have "done_ok (sy_done S) (insert i (sy_ids S)) tbl"
  proof -
    have dn: "done_ok (sy_done S) (sy_ids S) (sy_table S)" using add_job(3) by (simp add: wq_inv_def)
    have "jr_id r \<in> insert i (sy_ids S) \<and> (jr_id r \<in> set (sy_done S) \<longleftrightarrow> jr_completed r \<noteq> None)"
      if "r \<in> set tbl" for r
      using rows(2)[OF that]
    proof (elim disjE bexE conjE)
      fix x
      assume x: "x \<in> set (sy_table S)" "jr_id r = jr_id x" "jr_completed r = jr_completed x"
      from dn x(1) have "jr_id x \<in> sy_ids S" "jr_id x \<in> set (sy_done S) \<longleftrightarrow> jr_completed x \<noteq> None"
        by (auto simp only: done_ok_def)
      then show ?thesis by (simp add: x)
    next
      assume "jr_id r = i" "jr_completed r = None"
      moreover have "i \<notin> set (sy_done S)" using dn add_job(1) by (auto simp only: done_ok_def)
      ultimately show ?thesis by simp
    qed
    moreover have "distinct (sy_done S)" "set (sy_done S) \<subseteq> sy_ids S" using dn by (simp_all add: done_ok_def)
    ultimately show ?thesis unfolding done_ok_def by blast
  qed
  ultimately show ?case using add_job(3) t by (simp add: wq_inv_def table_ok_def)
next
  case (clean S now)
  then show ?case
    by (auto simp: wq_inv_def table_ok_clean intro: done_ok_sub cleaner_subset
        locks_ok_table[of _ "sy_table S"] cleaner_keeps)
qed

lemma wq_reach_inv: "wq_reach lvl tbl S \<Longrightarrow> table_ok tbl \<Longrightarrow> wq_inv S"
  by (induction rule: wq_reach.induct) (auto intro: wq_inv_init wq_step_inv)

section \<open>Properties\<close>

definition sample_info :: "(nat, unit) worker_info" where
  "sample_info = \<lparr>wi_queue = ''mail'', wi_nconcurrent = 2, wi_callback = Some sample_worker, wi_middleware = [],
     wi_retain = 5, wi_isolation = None, wi_delay = None, wi_nactive = 0\<rparr>"


lemma sample_reach:
  "\<exists>S. wq_reach 0 [] S \<and> sy_slots S = [(0, ''mail'', Dispatched)] \<and> sy_workers S 0 ''mail'' = Some (sample_info\<lparr>wi_nactive := 1\<rparr>)"
proof -
  let ?W = "(\<lambda>_. Map.empty)(0 := [''mail'' \<mapsto> sample_info])"
  let ?S = "(wq_init [])\<lparr>sy_workers := ?W\<rparr> :: (nat, unit) wq_sys"
  have "start_workers sample_info = Inr sample_info" by (simp add: start_workers_def sample_info_def)
  moreover have "fst (add_listener sample_info (Map.empty, None)) = [''mail'' \<mapsto> sample_info]"
    by (simp add: add_listener_def sample_info_def)
  ultimately have 1: "wq_reach 0 [] ?S"
    using reach_next[OF reach_init register[of sample_info sample_info "wq_init []" 0 0]]
    by (simp add: sample_info_def wq_init_def)
  have "start_work_concurrency_check (sy_workers ?S 0) 0 ''mail'' =
      (Some (sample_info\<lparr>wi_nactive := 1\<rparr>, 0), [''mail'' \<mapsto> sample_info\<lparr>wi_nactive := 1\<rparr>])"
    by (simp add: start_work_concurrency_check_def concurrency_check_def sample_info_def)
  from reach_next[OF 1 dispatch[OF this]] show ?thesis
    by (intro exI conjI) (assumption, simp_all add: wq_init_def)
qed


text \<open>
  A status read between the steps of the system never shows a job that is started but not
  completed, whatever the tenant asked for: the claim becomes visible together with the result.
\<close>
theorem status_never_running:
  assumes "table_ok tbl" "wq_reach lvl tbl S" "get_status i usr company (sy_table S) = Inr s"
  shows "(st_started s = None \<longleftrightarrow> st_completed s = None) \<and> (st_position s = 0 \<longleftrightarrow> st_completed s \<noteq> None)"
proof -
  obtain r where f: "find (\<lambda>r. jr_id r = i \<and> tenant_ok usr company r) (sy_table S) = Some r"
    and s: "st_started s = jr_started r" "st_completed s = jr_completed r"
      "st_position s = queue_position (sy_table S) r"
    using assms(3) by (auto simp: get_status_def split: option.splits)
  from f have "r \<in> set (sy_table S)" by (auto simp: find_Some_iff)
  with wq_reach_inv[OF assms(2,1)] have "row_ok r" by (simp add: wq_inv_def table_ok_def)
  then show ?thesis by (auto simp: s row_ok_def queue_position_def)
qed

lemma status_never_running_witness:
  "\<exists>s. get_status ''a'' None None (sy_table (wq_init [sample_row ''a'' '''' 7 None None] :: (nat, unit) wq_sys)) = Inr s
     \<and> st_completed s = None \<and> st_position s \<noteq> 0"
proof -
  let ?t = "[sample_row ''a'' '''' 7 None None]"
  have ok: "table_ok ?t" by (simp add: table_ok_def ids_unique_def row_ok_def sample_row_def)
  have "\<exists>s. get_status ''a'' None None (sy_table (wq_init ?t :: (nat, unit) wq_sys)) = Inr s \<and> st_completed s = None"
    by (simp add: get_status_def tenant_ok_def sample_row_def wq_init_def)
  then obtain s where s: "get_status ''a'' None None (sy_table (wq_init ?t :: (nat, unit) wq_sys)) = Inr s"
    "st_completed s = None" by blast
  from status_never_running[OF ok reach_init s(1)] s show ?thesis by auto
qed



end
