(* ===== verification/GoNet.thy ===== *)
theory GoNet
  imports GoText
begin

text \<open>
  The parts of Go's \<^verbatim>\<open>net\<close> package that \<^verbatim>\<open>requestip\<close> and \<^verbatim>\<open>ssrfproxy\<close> use: parsing IP addresses,
  networks in CIDR notation and host:port pairs, and the address classes.  A byte of an address
  is a natural number below 256; an \<^verbatim>\<open>IP\<close> is a list of 4 or 16 of them.
\<close>

type_synonym ip = "nat list"

section \<open>Parsing addresses\<close>

text \<open>
  The loop of \<^verbatim>\<open>parseIPv4Fields\<close>: \<open>val\<close> and \<open>dig\<close> belong to the field being read, \<open>fields\<close> are
  the complete ones, \<open>prev_dot\<close> says that the previous byte was a dot (or that there is none).
\<close>

fun ipv4_loop :: "string \<Rightarrow> nat \<Rightarrow> nat \<Rightarrow> nat list \<Rightarrow> bool \<Rightarrow> nat list option" where
  "ipv4_loop [] val dig fields prev_dot = (if length fields < 3 then None else Some (fields @ [val]))"
| "ipv4_loop (c # cs) val dig fields prev_dot =
     (if is_digit c then
        (if dig = 1 \<and> val = 0 then None
         else let v = val * 10 + digit_val c
              in if 255 < v then None else ipv4_loop cs v (Suc dig) fields False)
      else if c = CHR ''.'' then
        (if prev_dot \<or> cs = [] then None
         else if length fields = 3 then None
         else ipv4_loop cs 0 0 (fields @ [val]) True)
      else None)"

definition parse_ipv4 :: "string \<Rightarrow> nat list option" where
  "parse_ipv4 s = ipv4_loop s 0 0 [] True"

definition hex_val :: "char \<Rightarrow> nat option" where
  "hex_val c =
     (if is_digit c then Some (digit_val c)
      else if 97 \<le> byte c \<and> byte c \<le> 102 then Some (byte c - 97 + 10)
      else if 65 \<le> byte c \<and> byte c \<le> 70 then Some (byte c - 65 + 10)
      else None)"

text \<open>The hexadecimal digits at the head of a text: their value, how many, and the rest; \<^const>\<open>None\<close> for more than four.\<close>

fun hex_group :: "string \<Rightarrow> nat \<Rightarrow> nat \<Rightarrow> (nat \<times> nat \<times> string) option" where
  "hex_group [] acc off = Some (acc, off, [])"
| "hex_group (c # cs) acc off =
     (case hex_val c of
        None \<Rightarrow> Some (acc, off, c # cs)
      | Some v \<Rightarrow> if 3 < off then None else hex_group cs (acc * 16 + v) (Suc off))"

lemma hex_group_shrinks: "hex_group s acc off = Some (a, n, r) \<Longrightarrow> length r \<le> length s"
  by (induction s acc off rule: hex_group.induct) (auto split: option.splits if_splits)

text \<open>
  The loop of \<^verbatim>\<open>parseIPv6\<close>: \<open>bs\<close> are the bytes so far, \<open>ellipsis\<close> where the \<^verbatim>\<open>::\<close> was, and the
  result also holds what was left unread.
\<close>

function ipv6_loop :: "string \<Rightarrow> nat list \<Rightarrow> nat option \<Rightarrow> (nat list \<times> nat option \<times> string) option" where
  "ipv6_loop s bs ellipsis =
     (if 16 \<le> length bs then Some (bs, ellipsis, s)
      else (case hex_group s 0 0 of
          None \<Rightarrow> None
        | Some (acc, off, rest) \<Rightarrow>
            if off = 0 then None
            else if rest \<noteq> [] \<and> hd rest = CHR ''.'' then
              (if ellipsis = None \<and> length bs \<noteq> 12 then None
               else if 16 < length bs + 4 then None
               else (case parse_ipv4 s of
                   None \<Rightarrow> None
                 | Some q \<Rightarrow> Some (bs @ q, ellipsis, [])))
            else
              let bs' = bs @ [acc div 256, acc mod 256]
              in if rest = [] then Some (bs', ellipsis, [])
                 else if hd rest \<noteq> CHR '':'' then None
                 else if length rest = 1 then None
                 else let s1 = tl rest
                      in if hd s1 = CHR '':'' then
                           (if ellipsis \<noteq> None then None
                            else let s2 = tl s1
                                 in if s2 = [] then Some (bs', Some (length bs'), [])
                                    else ipv6_loop s2 bs' (Some (length bs')))
                         else ipv6_loop s1 bs' ellipsis))"
  by pat_completeness auto
termination by (relation "measure (\<lambda>(s, bs, e). 16 - length bs)") auto

definition expand_ipv6 :: "nat list \<Rightarrow> nat option \<Rightarrow> string \<Rightarrow> nat list option" where
  "expand_ipv6 bs ellipsis rest =
     (if rest \<noteq> [] then None
      else if length bs < 16 then
        (case ellipsis of
           None \<Rightarrow> None
         | Some e \<Rightarrow> Some (take e bs @ replicate (16 - length bs) 0 @ drop e bs))
      else if ellipsis \<noteq> None then None
      else Some bs)"

definition parse_ipv6 :: "string \<Rightarrow> nat list option" where
  "parse_ipv6 s =
     (if has_prefix s ''::'' then
        (if length s = 2 then Some (replicate 16 0)
         else (case ipv6_loop (drop 2 s) [] (Some 0) of
             None \<Rightarrow> None
           | Some (bs, e, rest) \<Rightarrow> expand_ipv6 bs e rest))
      else (case ipv6_loop s [] None of
          None \<Rightarrow> None
        | Some (bs, e, rest) \<Rightarrow> expand_ipv6 bs e rest))"

text \<open>
  \<^verbatim>\<open>netip.ParseAddr\<close> for addresses without a zone: the first dot, colon or percent sign decides;
  a zone makes the callers here reject the address.
\<close>

fun first_of :: "char list \<Rightarrow> string \<Rightarrow> char option" where
  "first_of cs [] = None"
| "first_of cs (c # s) = (if c \<in> set cs then Some c else first_of cs s)"

definition parse_addr :: "string \<Rightarrow> nat list option" where
  "parse_addr s =
     (case first_of [CHR ''.'', CHR '':'', CHR ''%''] s of
        None \<Rightarrow> None
      | Some c \<Rightarrow>
          if c = CHR ''.'' then parse_ipv4 s
          else if c = CHR ''%'' then None
          else if CHR ''%'' \<in> set s then None
          else parse_ipv6 s)"

definition v4_in_v6 :: "nat list" where
  "v4_in_v6 = [0, 0, 0, 0, 0, 0, 0, 0, 0, 0, 255, 255]"

definition as16 :: "nat list \<Rightarrow> ip" where
  "as16 b = (if length b = 4 then v4_in_v6 @ b else b)"

definition parse_ip :: "string \<Rightarrow> ip option" where
  "parse_ip s = map_option as16 (parse_addr s)"

definition to4 :: "ip \<Rightarrow> ip option" where
  "to4 a =
     (if length a = 4 then Some a
      else if length a = 16 \<and> take 12 a = v4_in_v6 then Some (drop 12 a)
      else None)"

section \<open>Networks\<close>

record ip_net =
  net_ip :: ip
  net_mask :: "nat list"

text \<open>\<^verbatim>\<open>CIDRMask(ones, bits)\<close>, byte by byte.\<close>

fun cidr_mask_loop :: "nat \<Rightarrow> nat \<Rightarrow> nat list" where
  "cidr_mask_loop ones 0 = []"
| "cidr_mask_loop ones (Suc n) =
     (if 8 \<le> ones then 255 # cidr_mask_loop (ones - 8) n
      else (256 - 2 ^ (8 - ones)) # cidr_mask_loop 0 n)"

definition cidr_mask :: "nat \<Rightarrow> nat \<Rightarrow> nat list" where
  "cidr_mask ones bits = cidr_mask_loop ones (bits div 8)"

text \<open>A byte and a mask byte of the form produced by \<^const>\<open>cidr_mask\<close>.\<close>

definition mask_byte :: "nat \<Rightarrow> nat \<Rightarrow> nat" where
  "mask_byte b m = b div (256 - m) * (256 - m)"

definition mask_ip :: "ip \<Rightarrow> nat list \<Rightarrow> ip" where
  "mask_ip a m =
     (let a' = (if length m = 4 \<and> length a = 16 \<and> take 12 a = v4_in_v6 then drop 12 a else a)
      in map2 mask_byte a' m)"

definition net_contains :: "ip_net \<Rightarrow> ip \<Rightarrow> bool" where
  "net_contains n a =
     (let number = (case to4 (net_ip n) of Some q \<Rightarrow> q | None \<Rightarrow> net_ip n);
          m = (if length (net_mask n) = 16 \<and> length number = 4 then drop 12 (net_mask n) else net_mask n);
          x = (case to4 a of Some q \<Rightarrow> q | None \<Rightarrow> a)
      in length m = length number \<and> length x = length number \<and> map2 mask_byte number m = map2 mask_byte x m)"

text \<open>\<^verbatim>\<open>dtoi\<close> on the whole text: decimal digits below \<open>0xFFFFFF\<close>.\<close>

definition dtoi :: "string \<Rightarrow> nat option" where
  "dtoi s = (if s \<noteq> [] \<and> list_all is_digit s \<and> digits_val s < 16777215 then Some (digits_val s) else None)"

fun cut_char :: "char \<Rightarrow> string \<Rightarrow> (string \<times> string) option" where
  "cut_char d [] = None"
| "cut_char d (c # cs) =
     (if c = d then Some ([], cs) else map_option (\<lambda>(a, b). (c # a, b)) (cut_char d cs))"

definition parse_cidr :: "string \<Rightarrow> ip_net option" where
  "parse_cidr s =
     (case cut_char (CHR ''/'') s of
        None \<Rightarrow> None
      | Some (a, m) \<Rightarrow>
          (case parse_addr a of
             None \<Rightarrow> None
           | Some b \<Rightarrow>
               (case dtoi m of
                  None \<Rightarrow> None
                | Some n \<Rightarrow>
                    if 8 * length b < n then None
                    else let mask = cidr_mask n (8 * length b)
                         in Some \<lparr>net_ip = mask_ip (as16 b) mask, net_mask = mask\<rparr>)))"

section \<open>Host and port\<close>

fun last_index_from :: "char \<Rightarrow> nat \<Rightarrow> string \<Rightarrow> nat option" where
  "last_index_from d i [] = None"
| "last_index_from d i (c # cs) =
     (case last_index_from d (Suc i) cs of
        Some j \<Rightarrow> Some j
      | None \<Rightarrow> if c = d then Some i else None)"

fun first_index_from :: "char \<Rightarrow> nat \<Rightarrow> string \<Rightarrow> nat option" where
  "first_index_from d i [] = None"
| "first_index_from d i (c # cs) = (if c = d then Some i else first_index_from d (Suc i) cs)"

text \<open>\<^verbatim>\<open>net.SplitHostPort\<close>; every error is \<^const>\<open>None\<close>.\<close>

definition split_host_port :: "string \<Rightarrow> (string \<times> string) option" where
  "split_host_port hp =
     (case last_index_from (CHR '':'') 0 hp of
        None \<Rightarrow> None
      | Some i \<Rightarrow>
          if hd hp = CHR ''['' then
            (case first_index_from (CHR '']'') 0 hp of
               None \<Rightarrow> None
             | Some e \<Rightarrow>
                 if e + 1 \<noteq> i then None
                 else if CHR ''['' \<in> set (drop 1 hp) \<or> CHR '']'' \<in> set (drop (e + 1) hp) then None
                 else Some (take (e - 1) (drop 1 hp), drop (i + 1) hp))
          else if CHR '':'' \<in> set (take i hp) then None
          else if CHR ''['' \<in> set hp \<or> CHR '']'' \<in> set hp then None
          else Some (take i hp, drop (i + 1) hp))"

section \<open>Address classes\<close>

definition ip_is_loopback :: "ip \<Rightarrow> bool" where
  "ip_is_loopback a = (case to4 a of Some q \<Rightarrow> q ! 0 = 127 | None \<Rightarrow> a = replicate 15 0 @ [1])"

definition ip_is_private :: "ip \<Rightarrow> bool" where
  "ip_is_private a =
     (case to4 a of
        Some q \<Rightarrow> q ! 0 = 10 \<or> q ! 0 = 172 \<and> q ! 1 div 16 = 1 \<or> q ! 0 = 192 \<and> q ! 1 = 168
      | None \<Rightarrow> length a = 16 \<and> a ! 0 div 2 = 126)"

definition ip_is_link_local_unicast :: "ip \<Rightarrow> bool" where
  "ip_is_link_local_unicast a =
     (case to4 a of
        Some q \<Rightarrow> q ! 0 = 169 \<and> q ! 1 = 254
      | None \<Rightarrow> length a = 16 \<and> a ! 0 = 254 \<and> a ! 1 div 64 = 2)"

definition ip_is_link_local_multicast :: "ip \<Rightarrow> bool" where
  "ip_is_link_local_multicast a =
     (case to4 a of
        Some q \<Rightarrow> q ! 0 = 224 \<and> q ! 1 = 0 \<and> q ! 2 = 0
      | None \<Rightarrow> length a = 16 \<and> a ! 0 = 255 \<and> a ! 1 mod 16 = 2)"

definition ip_is_interface_local_multicast :: "ip \<Rightarrow> bool" where
  "ip_is_interface_local_multicast a \<longleftrightarrow> length a = 16 \<and> a ! 0 = 255 \<and> a ! 1 mod 16 = 1"

definition ip_is_multicast :: "ip \<Rightarrow> bool" where
  "ip_is_multicast a = (case to4 a of Some q \<Rightarrow> q ! 0 div 16 = 14 | None \<Rightarrow> length a = 16 \<and> a ! 0 = 255)"

definition ip_is_unspecified :: "ip \<Rightarrow> bool" where
  "ip_is_unspecified a = (case to4 a of Some q \<Rightarrow> q = [0, 0, 0, 0] | None \<Rightarrow> a = replicate 16 0)"

end
