(* ===== verification/RequestIP.thy ===== *)
theory RequestIP
  imports GoNet
begin

text \<open>
  Package \<^verbatim>\<open>requestip\<close>: which address counts as the client's.  A request carries the address of
  the TCP peer, which cannot be forged, and the forwarding headers, which can: the lists of their
  values in the order of the header lines, of which \<^verbatim>\<open>Header.Get\<close> reads the first.
\<close>

record ip_request =
  rq_remote_addr :: string
  rq_forwarded_for :: "string list"
  rq_real_ip :: "string list"

record ip_config =
  ic_trusted_nets :: "ip_net list"
  ic_trust_hops :: int
  ic_use_hops :: bool

definition empty_config :: ip_config where
  "empty_config = \<lparr>ic_trusted_nets = [], ic_trust_hops = 0, ic_use_hops = False\<rparr>"

definition header_get :: "string list \<Rightarrow> string" where
  "header_get vs = (case vs of [] \<Rightarrow> '''' | v # _ \<Rightarrow> v)"

definition host_only :: "string \<Rightarrow> string" where
  "host_only addr =
     (let a = trim_space addr
      in if a = '''' then ''''
         else (case split_host_port a of Some (host, _) \<Rightarrow> host | None \<Rightarrow> a))"

text \<open>\<^verbatim>\<open>parseCIDROrIP\<close>: \<open>Inl\<close> is the panic, \<open>Inr None\<close> an empty entry.\<close>

definition parse_cidr_or_ip :: "string \<Rightarrow> string + ip_net option" where
  "parse_cidr_or_ip entry =
     (let e = trim_space entry
      in if e = '''' then Inr None
         else if CHR ''/'' \<in> set e then
           (case parse_cidr e of
              None \<Rightarrow> Inl (''requestip: invalid trusted proxy CIDR '' @ e)
            | Some n \<Rightarrow> Inr (Some n))
         else (case parse_ip e of
             None \<Rightarrow> Inl (''requestip: invalid trusted proxy IP '' @ e)
           | Some a \<Rightarrow>
               (case to4 a of
                  Some q \<Rightarrow> Inr (Some \<lparr>net_ip = q, net_mask = cidr_mask 32 32\<rparr>)
                | None \<Rightarrow> Inr (Some \<lparr>net_ip = a, net_mask = cidr_mask 128 128\<rparr>))))"

text \<open>The options as functions on the configuration; \<open>Inl\<close> is a panic at start-up.\<close>

fun trust_proxies :: "string list \<Rightarrow> ip_config \<Rightarrow> string + ip_config" where
  "trust_proxies [] c = Inr c"
| "trust_proxies (e # es) c =
     (case parse_cidr_or_ip e of
        Inl p \<Rightarrow> Inl p
      | Inr None \<Rightarrow> trust_proxies es c
      | Inr (Some n) \<Rightarrow> trust_proxies es (c\<lparr>ic_trusted_nets := ic_trusted_nets c @ [n]\<rparr>))"

definition trust_proxy_hops :: "int \<Rightarrow> ip_config \<Rightarrow> string + ip_config" where
  "trust_proxy_hops n c = Inr (c\<lparr>ic_use_hops := True, ic_trust_hops := n\<rparr>)"

definition no_proxies :: "ip_config \<Rightarrow> string + ip_config" where
  "no_proxies c = Inr c"

text \<open>\<^verbatim>\<open>Middleware\<close> runs its options, at least one, on an empty configuration.\<close>

fun apply_options :: "(ip_config \<Rightarrow> string + ip_config) list \<Rightarrow> ip_config \<Rightarrow> string + ip_config" where
  "apply_options [] c = Inr c"
| "apply_options (opt # opts) c = (case opt c of Inl p \<Rightarrow> Inl p | Inr c' \<Rightarrow> apply_options opts c')"

definition middleware_config ::
  "(ip_config \<Rightarrow> string + ip_config) \<Rightarrow> (ip_config \<Rightarrow> string + ip_config) list \<Rightarrow> string + ip_config" where
  "middleware_config opt opts = apply_options (opt # opts) empty_config"

definition is_trusted :: "ip_config \<Rightarrow> string \<Rightarrow> bool" where
  "is_trusted c s = (case parse_ip s of None \<Rightarrow> False | Some a \<Rightarrow> list_ex (\<lambda>n. net_contains n a) (ic_trusted_nets c))"

definition forwarded_entry :: "string \<Rightarrow> string option" where
  "forwarded_entry part =
     (let host = host_only part
      in if host = '''' \<or> parse_ip host = None then None else Some host)"

definition parse_forwarded_for :: "ip_request \<Rightarrow> string list" where
  "parse_forwarded_for r =
     (let f = header_get (rq_forwarded_for r);
          raw = (if f = '''' then header_get (rq_real_ip r) else f)
      in List.map_filter forwarded_entry (split_char (CHR '','') raw))"

text \<open>The walk from the closest hop outward, over the reversed chain.\<close>

fun first_untrusted :: "ip_config \<Rightarrow> string list \<Rightarrow> string option" where
  "first_untrusted c [] = None"
| "first_untrusted c (h # hs) = (if \<not> is_trusted c h then Some h else first_untrusted c hs)"

definition client_ip :: "ip_config \<Rightarrow> ip_request \<Rightarrow> string" where
  "client_ip c r =
     (let remote = host_only (rq_remote_addr r)
      in if ic_use_hops c then
           (if ic_trust_hops c \<le> 0 then remote
            else let chain = parse_forwarded_for r @ [remote];
                     idx = int (length chain) - 1 - ic_trust_hops c
                 in chain ! nat (if idx < 0 then 0 else idx))
         else if ic_trusted_nets c = [] \<or> \<not> is_trusted c remote then remote
         else let chain = parse_forwarded_for r @ [remote]
              in case first_untrusted c (rev chain) of
                   Some h \<Rightarrow> h
                 | None \<Rightarrow> chain ! 0)"

text \<open>The middleware: what it puts in the context, and \<^verbatim>\<open>KeyFromRequest\<close> over that context.\<close>

definition request_ip_ctx :: "ip_config \<Rightarrow> ip_request \<Rightarrow> string option" where
  "request_ip_ctx c r = (let s = client_ip c r in if s \<noteq> '''' then Some s else None)"

definition ctx_ip :: "string option \<Rightarrow> string" where
  "ctx_ip ctx = (case ctx of None \<Rightarrow> '''' | Some s \<Rightarrow> s)"

definition key_from_request :: "string option \<Rightarrow> string \<Rightarrow> string" where
  "key_from_request ctx remote_addr =
     (if ctx_ip ctx \<noteq> '''' then ctx_ip ctx
      else if host_only remote_addr \<noteq> '''' then host_only remote_addr
      else remote_addr)"

section \<open>Facts\<close>

lemma map_filter_append: "List.map_filter f (xs @ ys) = List.map_filter f xs @ List.map_filter f ys"
  by (simp add: List.map_filter_def)

lemma map_filter_all: "\<forall>x\<in>set xs. f x = Some (g x) \<Longrightarrow> List.map_filter f xs = map g xs"
  by (induction xs) (simp_all add: List.map_filter_def)

text \<open>An entry that a well-behaved proxy appends.\<close>

definition hop_ok :: "string \<Rightarrow> bool" where
  "hop_ok h \<longleftrightarrow> CHR '','' \<notin> set h \<and> forwarded_entry h = Some (host_only h)"

lemma forwarded_suffix:
  assumes "good \<noteq> []" "\<forall>h\<in>set good. hop_ok h"
    and "header_get (rq_forwarded_for r) = attacker @ CHR '','' # join_with [CHR '',''] good"
  shows "\<exists>pre. parse_forwarded_for r = pre @ map host_only good"
proof -
  have "header_get (rq_forwarded_for r) \<noteq> ''''" by (simp add: assms(3))
  then have "parse_forwarded_for r = List.map_filter forwarded_entry
      (split_char (CHR '','') attacker @ split_char (CHR '','') (join_with [CHR '',''] good))"
    by (simp add: parse_forwarded_for_def Let_def assms(3) split_char_append)
  also have "split_char (CHR '','') (join_with [CHR '',''] good) = good"
    using assms(1,2) by (intro split_join) (auto simp: hop_ok_def)
  finally show ?thesis
    using map_filter_all[of good forwarded_entry host_only] assms(2)
    by (simp add: map_filter_append hop_ok_def)
qed

lemma first_untrusted_skip:
  "\<forall>h\<in>set hs. is_trusted c h \<Longrightarrow> first_untrusted c (hs @ x # ys) = (if is_trusted c x then first_untrusted c ys else Some x)"
  by (induction hs) auto

definition sample_request :: "string \<Rightarrow> ip_request" where
  "sample_request h = \<lparr>rq_remote_addr = ''10.0.0.2:443'', rq_forwarded_for = [h], rq_real_ip = []\<rparr>"

definition sample_nets :: ip_config where
  "sample_nets = \<lparr>ic_trusted_nets = [\<lparr>net_ip = [10, 0, 0, 0], net_mask = [255, 0, 0, 0]\<rparr>], ic_trust_hops = 0, ic_use_hops = False\<rparr>"

text \<open>
  C11: The client's address cannot be forged through the forwarding header.  Whatever text the client
  put there, when the proxies in front of the program append one valid entry each (the client's
  address first), hop counting with as many hops answers the client's address, and so does the walk
  over trusted networks when the later proxies and the peer are in them and the client is not.
\<close>
theorem client_ip_unspoofable:
  assumes "good \<noteq> []" "\<forall>h\<in>set good. hop_ok h"
    and "header_get (rq_forwarded_for r) = attacker @ CHR '','' # join_with [CHR '',''] good"
    and "if ic_use_hops c then ic_trust_hops c = int (length good)
         else ic_trusted_nets c \<noteq> [] \<and> is_trusted c (host_only (rq_remote_addr r))
            \<and> (\<forall>h\<in>set (tl good). is_trusted c (host_only h)) \<and> \<not> is_trusted c (host_only (hd good))"
  shows "client_ip c r = host_only (hd good)"
proof -
  obtain pre where pre: "parse_forwarded_for r = pre @ map host_only good"
    using forwarded_suffix[OF assms(1,2,3)] by blast
  obtain g gs where g: "good = g # gs" using assms(1) by (cases good) auto
  let ?remote = "host_only (rq_remote_addr r)"
  show ?thesis
  proof (cases "ic_use_hops c")
    case True
    then have "ic_trust_hops c = int (length good)" using assms(4) by simp
    then show ?thesis using True by (simp add: client_ip_def Let_def pre g nth_append)
  next
    case False
    then have t: "ic_trusted_nets c \<noteq> []" "is_trusted c ?remote"
      "\<forall>h\<in>set gs. is_trusted c (host_only h)" "\<not> is_trusted c (host_only g)"
      using assms(4) by (auto simp: g)
    have "rev (parse_forwarded_for r @ [?remote]) = (?remote # rev (map host_only gs)) @ host_only g # rev pre"
      by (simp add: pre g)
    moreover have "first_untrusted c ((?remote # rev (map host_only gs)) @ host_only g # rev pre) = Some (host_only g)"
      by (subst first_untrusted_skip) (use t in auto)
    ultimately show ?thesis using False t by (simp add: client_ip_def Let_def g)
  qed
qed

lemma host_only_plain:
  assumes "a \<noteq> []" "printable (hd a)" "printable (last a)"
  shows "host_only a = (case split_host_port a of Some (host, _) \<Rightarrow> host | None \<Rightarrow> a)"
  using assms by (simp add: host_only_def trim_space_printable Let_def)

lemma client_ip_unspoofable_witness:
  "client_ip sample_nets (sample_request ''6.6.6.6,9.9.9.9'') = ''9.9.9.9''"
proof -
  have h: "host_only ''9.9.9.9'' = ''9.9.9.9''" "host_only ''10.0.0.2:443'' = ''10.0.0.2''"
    by (subst host_only_plain; code_simp)+
  have p: "parse_ip ''9.9.9.9'' = Some (v4_in_v6 @ [9, 9, 9, 9])" "parse_ip ''10.0.0.2'' = Some (v4_in_v6 @ [10, 0, 0, 2])"
    by code_simp+
  have t: "is_trusted sample_nets ''10.0.0.2''" "\<not> is_trusted sample_nets ''9.9.9.9''"
    unfolding is_trusted_def p option.case by code_simp+
  have "client_ip sample_nets (sample_request ''6.6.6.6,9.9.9.9'') = host_only (hd [''9.9.9.9''])"
  proof (rule client_ip_unspoofable[where attacker = "''6.6.6.6''"])
    show "\<forall>h\<in>set [''9.9.9.9'']. hop_ok h" by (simp add: hop_ok_def forwarded_entry_def Let_def h p)
    show "header_get (rq_forwarded_for (sample_request ''6.6.6.6,9.9.9.9''))
        = ''6.6.6.6'' @ CHR '','' # join_with [CHR '',''] [''9.9.9.9'']"
      by (simp add: sample_request_def header_get_def)
    have "rq_remote_addr (sample_request ''6.6.6.6,9.9.9.9'') = ''10.0.0.2:443''" by (simp add: sample_request_def)
    moreover have "\<not> ic_use_hops sample_nets" "ic_trusted_nets sample_nets \<noteq> []" by (simp_all add: sample_nets_def)
    ultimately show "if ic_use_hops sample_nets then ic_trust_hops sample_nets = int (length [''9.9.9.9''])
        else ic_trusted_nets sample_nets \<noteq> []
          \<and> is_trusted sample_nets (host_only (rq_remote_addr (sample_request ''6.6.6.6,9.9.9.9'')))
          \<and> (\<forall>h\<in>set (tl [''9.9.9.9'']). is_trusted sample_nets (host_only h))
          \<and> \<not> is_trusted sample_nets (host_only (hd [''9.9.9.9'']))"
      using h t by simp
  qed simp
  then show ?thesis by (simp add: h)
qed

text \<open>Without trusted proxies the headers are not looked at.\<close>

lemma untrusted_headers_ignored:
  "\<not> ic_use_hops c \<Longrightarrow> ic_trusted_nets c = [] \<or> \<not> is_trusted c (host_only (rq_remote_addr r)) \<Longrightarrow>
     client_ip c r = host_only (rq_remote_addr r)"
  "ic_use_hops c \<Longrightarrow> ic_trust_hops c \<le> 0 \<Longrightarrow> client_ip c r = host_only (rq_remote_addr r)"
  by (auto simp: client_ip_def Let_def)

text \<open>
  Only the first header line is read.  A proxy that appends its entry as a further line, which
  HTTP treats as the same list, leaves the line the client sent in the lead.
\<close>

lemma second_line_ignored:
  "parse_forwarded_for (r\<lparr>rq_forwarded_for := [v, w]\<rparr>) = parse_forwarded_for (r\<lparr>rq_forwarded_for := [v]\<rparr>)"
  by (simp add: parse_forwarded_for_def header_get_def)

text \<open>
  Entries that are not addresses are dropped before hops are counted: when the proxy appends an
  entry such as \<^verbatim>\<open>unknown\<close>, the count reaches into the part the client wrote.
\<close>

lemma dropped_entry_shifts_hops:
  assumes "hop_ok forged" "hop_ok client" "forwarded_entry junk = None" "CHR '','' \<notin> set junk"
    and "header_get (rq_forwarded_for r) = join_with [CHR '',''] [forged, client, junk]"
    and "ic_use_hops c" "ic_trust_hops c = 2"
  shows "client_ip c r = host_only forged"
proof -
  have s: "split_char (CHR '','') (join_with [CHR '',''] [forged, client, junk]) = [forged, client, junk]"
    using assms(1,2,4) by (intro split_join) (auto simp: hop_ok_def)
  have "header_get (rq_forwarded_for r) \<noteq> ''''" by (simp add: assms(5))
  then have "parse_forwarded_for r = List.map_filter forwarded_entry (split_char (CHR '','') (header_get (rq_forwarded_for r)))"
    by (simp add: parse_forwarded_for_def Let_def)
  then have "parse_forwarded_for r = List.map_filter forwarded_entry [forged, client, junk]"
    by (simp only: assms(5) s)
  then have "parse_forwarded_for r = [host_only forged, host_only client]"
    using assms(1-3) by (simp add: List.map_filter_def hop_ok_def)
  then show ?thesis using assms(6,7) by (simp add: client_ip_def Let_def)
qed

end
