(* ===== verification/GoHttp.thy ===== *)
theory GoHttp
  imports GoText
begin

text \<open>
  The parts of Go's \<^verbatim>\<open>net/http\<close> that the components share: header maps with canonical names,
  response writers, and requests.
\<close>

section \<open>Headers\<close>

type_synonym http_header = "(string \<times> string list) list"

text \<open>\<^verbatim>\<open>textproto.CanonicalMIMEHeaderKey\<close>: a name with a byte that is no token byte is left alone.\<close>

definition token_char :: "char \<Rightarrow> bool" where
  "token_char c \<longleftrightarrow> is_digit c \<or> is_lower_letter c \<or> is_upper_letter c \<or> c \<in> set ''!#$%&*+-.^_`|~'' \<or> c = CHR 0x27"

fun canon_loop :: "bool \<Rightarrow> string \<Rightarrow> string" where
  "canon_loop upper [] = []"
| "canon_loop upper (c # cs) =
     (let c' = (if upper then upper_char c else lower_char c) in c' # canon_loop (c' = CHR ''-'') cs)"

definition canonical_key :: "string \<Rightarrow> string" where
  "canonical_key s = (if list_all token_char s then canon_loop True s else s)"

definition header_del :: "string \<Rightarrow> http_header \<Rightarrow> http_header" where
  "header_del name h = filter (\<lambda>(k, _). k \<noteq> canonical_key name) h"

text \<open>Indexing the map directly, without making the key canonical.\<close>

definition header_values :: "string \<Rightarrow> http_header \<Rightarrow> string list" where
  "header_values key h = (case map_of h key of None \<Rightarrow> [] | Some vs \<Rightarrow> vs)"

definition hdr_get :: "string \<Rightarrow> http_header \<Rightarrow> string" where
  "hdr_get name h = (case header_values (canonical_key name) h of [] \<Rightarrow> '''' | v # _ \<Rightarrow> v)"

definition hdr_set :: "string \<Rightarrow> string \<Rightarrow> http_header \<Rightarrow> http_header" where
  "hdr_set name v h = header_del name h @ [(canonical_key name, [v])]"

definition hdr_add :: "string \<Rightarrow> string \<Rightarrow> http_header \<Rightarrow> http_header" where
  "hdr_add name v h =
     (let k = canonical_key name; vs = header_values k h
      in header_del name h @ [(k, vs @ [v])])"

lemma header_values_del [simp]:
  "header_values k (header_del name h) = (if k = canonical_key name then [] else header_values k h)"
  by (induction h) (auto simp: header_del_def header_values_def)

lemma header_values_append [simp]:
  "header_values k (h @ [(k', vs)]) = (case map_of h k of Some us \<Rightarrow> us | None \<Rightarrow> if k = k' then vs else [])"
  by (simp add: header_values_def map_add_def split: option.split)

lemma map_of_header_del [simp]: "map_of (header_del name h) k = (if k = canonical_key name then None else map_of h k)"
  by (induction h) (auto simp: header_del_def)

lemma header_values_set [simp]:
  "header_values k (hdr_set name v h) = (if k = canonical_key name then [v] else header_values k h)"
  by (simp add: hdr_set_def header_values_def map_add_def split: option.split)

lemma header_values_add [simp]:
  "header_values k (hdr_add name v h) = (if k = canonical_key name then header_values k h @ [v] else header_values k h)"
  by (simp add: hdr_add_def Let_def header_values_def map_add_def split: option.split)

lemma hdr_get_set [simp]:
  "hdr_get n (hdr_set name v h) = (if canonical_key n = canonical_key name then v else hdr_get n h)"
  by (simp add: hdr_get_def)

section \<open>Response writers\<close>

record http_writer =
  wr_header :: http_header
  wr_status :: "int option"
  wr_body :: "string list"

definition fresh_writer :: http_writer where
  "fresh_writer = \<lparr>wr_header = [], wr_status = None, wr_body = []\<rparr>"

text \<open>
  \<^verbatim>\<open>WriteHeader\<close>: a code outside 100 to 999 panics (\<^const>\<open>None\<close>), one below 200 other than 101 is
  informational, and only the first final code counts.
\<close>

definition write_header :: "int \<Rightarrow> http_writer \<Rightarrow> http_writer option" where
  "write_header code w =
     (if code < 100 \<or> 999 < code then None
      else if wr_status w \<noteq> None \<or> code \<le> 199 \<and> code \<noteq> 101 then Some w
      else Some (w\<lparr>wr_status := Some code\<rparr>))"

definition w_write :: "string \<Rightarrow> http_writer \<Rightarrow> http_writer" where
  "w_write b w =
     w\<lparr>wr_status := (case wr_status w of None \<Rightarrow> Some 200 | Some c \<Rightarrow> Some c), wr_body := wr_body w @ [b]\<rparr>"

definition set_header :: "string \<Rightarrow> string \<Rightarrow> http_writer \<Rightarrow> http_writer" where
  "set_header name v w = w\<lparr>wr_header := hdr_set name v (wr_header w)\<rparr>"

definition add_header :: "string \<Rightarrow> string \<Rightarrow> http_writer \<Rightarrow> http_writer" where
  "add_header name v w = w\<lparr>wr_header := hdr_add name v (wr_header w)\<rparr>"

lemma writer_simps [simp]:
  "wr_status (set_header n v w) = wr_status w" "wr_body (set_header n v w) = wr_body w"
  "wr_status (add_header n v w) = wr_status w" "wr_body (add_header n v w) = wr_body w"
  "wr_header (set_header n v w) = hdr_set n v (wr_header w)" "wr_header (add_header n v w) = hdr_add n v (wr_header w)"
  "wr_header (w_write b w) = wr_header w" "wr_body (w_write b w) = wr_body w @ [b]"
  by (simp_all add: set_header_def add_header_def w_write_def)

section \<open>Requests\<close>

record http_request =
  hr_method :: string
  hr_path :: string
  hr_header :: http_header
  hr_cookies :: "(string \<times> string) list"
  hr_query :: "(string \<times> string) list"
  hr_body :: string
  hr_remote_addr :: string

text \<open>\<^verbatim>\<open>http.MaxBytesReader\<close> followed by a read of everything.\<close>

definition read_limited :: "int \<Rightarrow> string \<Rightarrow> string + string" where
  "read_limited limit body =
     (if 0 < limit \<and> limit < int (length body) then Inl ''http: request body too large'' else Inr body)"

end
