(* ===== verification/SsrfProxy.thy ===== *)
theory SsrfProxy
  imports RequestIP GoHttp
begin

text \<open>
  Package \<^verbatim>\<open>ssrfproxy\<close> (\<^verbatim>\<open>pdfprinter/pdfprinter2/ssrfproxy/ssrfproxy.go\<close>): the addresses it refuses,
  the vetting dialer, and the request handling with its header filter.  The resolver and the
  network dialer are functions; a run of the dialer also yields the trace of what it asked them.
\<close>

section \<open>Blocked addresses\<close>

definition is_blocked_ip :: "bool \<Rightarrow> ip option \<Rightarrow> bool" where
  "is_blocked_ip testing a_opt =
     (case a_opt of
        None \<Rightarrow> True
      | Some a \<Rightarrow>
          if ip_is_loopback a \<and> \<not> testing then True
          else if ip_is_private a \<or> ip_is_link_local_unicast a \<or> ip_is_link_local_multicast a
               \<or> ip_is_interface_local_multicast a \<or> ip_is_multicast a \<or> ip_is_unspecified a then True
          else (case to4 a of
              Some q \<Rightarrow> q ! 0 = 100 \<and> 64 \<le> q ! 1 \<and> q ! 1 \<le> 127
            | None \<Rightarrow> False))"

text \<open>The documented ranges, as networks.\<close>

definition blocked_nets :: "bool \<Rightarrow> ip_net list" where
  "blocked_nets testing =
     (if testing then [] else
        [\<lparr>net_ip = [127, 0, 0, 0], net_mask = cidr_mask 8 32\<rparr>,
         \<lparr>net_ip = [0, 0, 0, 0, 0, 0, 0, 0, 0, 0, 0, 0, 0, 0, 0, 1], net_mask = cidr_mask 128 128\<rparr>])
     @ [\<lparr>net_ip = [10, 0, 0, 0], net_mask = cidr_mask 8 32\<rparr>,
        \<lparr>net_ip = [172, 16, 0, 0], net_mask = cidr_mask 12 32\<rparr>,
        \<lparr>net_ip = [192, 168, 0, 0], net_mask = cidr_mask 16 32\<rparr>,
        \<lparr>net_ip = [169, 254, 0, 0], net_mask = cidr_mask 16 32\<rparr>,
        \<lparr>net_ip = [100, 64, 0, 0], net_mask = cidr_mask 10 32\<rparr>,
        \<lparr>net_ip = [224, 0, 0, 0], net_mask = cidr_mask 4 32\<rparr>,
        \<lparr>net_ip = [0, 0, 0, 0], net_mask = cidr_mask 32 32\<rparr>,
        \<lparr>net_ip = [0, 0, 0, 0, 0, 0, 0, 0, 0, 0, 0, 0, 0, 0, 0, 0], net_mask = cidr_mask 128 128\<rparr>,
        \<lparr>net_ip = [252, 0, 0, 0, 0, 0, 0, 0, 0, 0, 0, 0, 0, 0, 0, 0], net_mask = cidr_mask 7 128\<rparr>,
        \<lparr>net_ip = [254, 128, 0, 0, 0, 0, 0, 0, 0, 0, 0, 0, 0, 0, 0, 0], net_mask = cidr_mask 10 128\<rparr>,
        \<lparr>net_ip = [255, 0, 0, 0, 0, 0, 0, 0, 0, 0, 0, 0, 0, 0, 0, 0], net_mask = cidr_mask 8 128\<rparr>]"

definition ip_ok :: "ip \<Rightarrow> bool" where
  "ip_ok a \<longleftrightarrow> (length a = 4 \<or> length a = 16) \<and> (\<forall>b\<in>set a. b < 256)"

section \<open>The vetting dialer\<close>

datatype dial_error = BadAddress string | BlockedError string ip | ResolveFailed string string
  | NoAddresses string | DialFailed string string

datatype dial_event = Lookup string | Dial ip string

text \<open>The loop over the vetted addresses: the first that answers.\<close>

fun dial_loop :: "(ip \<Rightarrow> string \<Rightarrow> string + 'conn) \<Rightarrow> string \<Rightarrow> string \<Rightarrow> string \<Rightarrow> ip list
    \<Rightarrow> (dial_error + 'conn) \<times> dial_event list" where
  "dial_loop dialer host port last_err [] = (Inl (DialFailed host last_err), [])"
| "dial_loop dialer host port last_err (a # as) =
     (case dialer a port of
        Inr conn \<Rightarrow> (Inr conn, [Dial a port])
      | Inl e \<Rightarrow> (case dial_loop dialer host port e as of (r, tr) \<Rightarrow> (r, Dial a port # tr)))"

definition safe_dial ::
  "(ip \<Rightarrow> bool) \<Rightarrow> (string \<Rightarrow> string + ip list) \<Rightarrow> (ip \<Rightarrow> string \<Rightarrow> string + 'conn) \<Rightarrow> string
     \<Rightarrow> (dial_error + 'conn) \<times> dial_event list" where
  "safe_dial blocked resolver dialer addr =
     (case split_host_port addr of
        None \<Rightarrow> (Inl (BadAddress addr), [])
      | Some (host, port) \<Rightarrow>
          (case parse_ip host of
             Some a \<Rightarrow>
               if blocked a then (Inl (BlockedError host a), [])
               else (case dialer a port of
                   Inr conn \<Rightarrow> (Inr conn, [Dial a port])
                 | Inl e \<Rightarrow> (Inl (DialFailed host e), [Dial a port]))
           | None \<Rightarrow>
               (case resolver host of
                  Inl e \<Rightarrow> (Inl (ResolveFailed host e), [Lookup host])
                | Inr ips \<Rightarrow>
                    if ips = [] then (Inl (NoAddresses host), [Lookup host])
                    else (case find blocked ips of
                        Some a \<Rightarrow> (Inl (BlockedError host a), [Lookup host])
                      | None \<Rightarrow>
                          (case dial_loop dialer host port '''' ips of
                             (r, tr) \<Rightarrow> (r, Lookup host # tr))))))"

section \<open>The proxy\<close>

record proxy_options =
  po_resolver :: "(string \<Rightarrow> string + ip list) option"
  po_dial_timeout :: int
  po_is_blocked :: "(ip \<Rightarrow> bool) option"

record 'conn ssrf_proxy =
  sp_addr :: string
  sp_resolver :: "string \<Rightarrow> string + ip list"
  sp_dialer :: "ip \<Rightarrow> string \<Rightarrow> string + 'conn"
  sp_is_blocked :: "ip \<Rightarrow> bool"

text \<open>
  \<^verbatim>\<open>Start\<close>: \<open>listen\<close> is the outcome of binding the loopback port, \<open>default_resolver\<close> the system's
  and \<open>net_dialer\<close> the \<^verbatim>\<open>net.Dialer\<close> for a timeout.
\<close>

definition start_proxy ::
  "bool \<Rightarrow> (string \<Rightarrow> string + ip list) \<Rightarrow> (int \<Rightarrow> ip \<Rightarrow> string \<Rightarrow> string + 'conn) \<Rightarrow> string + string
     \<Rightarrow> proxy_options \<Rightarrow> string + 'conn ssrf_proxy" where
  "start_proxy testing default_resolver net_dialer listen opts =
     (case listen of
        Inl e \<Rightarrow> Inl (''ssrfproxy: listen: '' @ e)
      | Inr addr \<Rightarrow>
          let dial_timeout = (if po_dial_timeout opts \<le> 0 then 10 * go_second else po_dial_timeout opts)
          in Inr \<lparr>sp_addr = addr,
               sp_resolver = (case po_resolver opts of Some f \<Rightarrow> f | None \<Rightarrow> default_resolver),
               sp_dialer = net_dialer dial_timeout,
               sp_is_blocked = (case po_is_blocked opts of Some f \<Rightarrow> f | None \<Rightarrow> (\<lambda>a. is_blocked_ip testing (Some a)))\<rparr>)"

definition proxy_url :: "'conn ssrf_proxy \<Rightarrow> string" where
  "proxy_url p = ''http://'' @ sp_addr p"

definition proxy_dial :: "'conn ssrf_proxy \<Rightarrow> string \<Rightarrow> (dial_error + 'conn) \<times> dial_event list" where
  "proxy_dial p addr = safe_dial (sp_is_blocked p) (sp_resolver p) (sp_dialer p) addr"

datatype proxy_answer = Tunnel | Forbidden | ProxyError | BadProxyRequest | Forwarded nat | Dropped

text \<open>
  \<^verbatim>\<open>handleConnect\<close>: \<open>hijack\<close> says whether the response writer can be hijacked and, if so, whether
  that and the write of the status line succeed.
\<close>

definition handle_connect :: "'conn ssrf_proxy \<Rightarrow> (bool \<times> bool) option \<Rightarrow> string \<Rightarrow> proxy_answer \<times> dial_event list" where
  "handle_connect p hijack host =
     (case proxy_dial p host of
        (Inl e, tr) \<Rightarrow> (Forbidden, tr)
      | (Inr upstream, tr) \<Rightarrow>
          (case hijack of
             None \<Rightarrow> (ProxyError, tr)
           | Some (hijacked, written) \<Rightarrow> if \<not> hijacked \<or> \<not> written then (Dropped, tr) else (Tunnel, tr)))"

text \<open>The header filter.\<close>

definition hop_by_hop_headers :: "string list" where
  "hop_by_hop_headers = [''Connection'', ''Proxy-Connection'', ''Keep-Alive'', ''Proxy-Authenticate'',
     ''Proxy-Authorization'', ''Te'', ''Trailer'', ''Transfer-Encoding'', ''Upgrade'']"

definition connection_names :: "http_header \<Rightarrow> string list" where
  "connection_names h =
     filter (\<lambda>n. n \<noteq> '''') (concat (map (\<lambda>f. map trim_space (split_char (CHR '','') f)) (header_values ''Connection'' h)))"

definition remove_hop_by_hop :: "http_header \<Rightarrow> http_header" where
  "remove_hop_by_hop h = fold header_del hop_by_hop_headers (fold header_del (connection_names h) h)"

text \<open>
  \<^verbatim>\<open>handleHTTP\<close>.  The transport either fails before it needs a connection (\<open>early\<close>), uses an idle
  connection that it dialled before, or dials; \<open>origin\<close> answers the round trip on the connection.
\<close>

definition round_trip ::
  "'conn ssrf_proxy \<Rightarrow> string option \<Rightarrow> 'conn option \<Rightarrow> ('conn \<Rightarrow> http_header \<Rightarrow> string + nat \<times> http_header) \<Rightarrow> string
     \<Rightarrow> http_header \<Rightarrow> (nat \<times> http_header) option \<times> dial_event list" where
  "round_trip p early idle origin dial_addr h =
     (case early of
        Some e \<Rightarrow> (None, [])
      | None \<Rightarrow>
          (case (case idle of Some conn \<Rightarrow> (Inr conn, []) | None \<Rightarrow> proxy_dial p dial_addr) of
             (Inl e, tr) \<Rightarrow> (None, tr)
           | (Inr conn, tr) \<Rightarrow> (case origin conn h of Inl e \<Rightarrow> (None, tr) | Inr resp \<Rightarrow> (Some resp, tr))))"

definition handle_http ::
  "'conn ssrf_proxy \<Rightarrow> string option \<Rightarrow> 'conn option \<Rightarrow> ('conn \<Rightarrow> http_header \<Rightarrow> string + nat \<times> http_header) \<Rightarrow> bool
     \<Rightarrow> string \<Rightarrow> string \<Rightarrow> http_header \<Rightarrow> (proxy_answer \<times> http_header) \<times> dial_event list" where
  "handle_http p early idle origin is_abs url_host dial_addr h =
     (if \<not> is_abs \<or> url_host = '''' then ((BadProxyRequest, []), [])
      else (case round_trip p early idle origin dial_addr (remove_hop_by_hop h) of
          (None, tr) \<Rightarrow> ((Forbidden, []), tr)
        | (Some (status, rh), tr) \<Rightarrow> ((Forwarded status, remove_hop_by_hop rh), tr)))"

definition proxy_handle ::
  "'conn ssrf_proxy \<Rightarrow> (bool \<times> bool) option \<Rightarrow> string option \<Rightarrow> 'conn option
     \<Rightarrow> ('conn \<Rightarrow> http_header \<Rightarrow> string + nat \<times> http_header) \<Rightarrow> string \<Rightarrow> string \<Rightarrow> bool \<Rightarrow> string \<Rightarrow> string \<Rightarrow> http_header
     \<Rightarrow> (proxy_answer \<times> http_header) \<times> dial_event list" where
  "proxy_handle p hijack early idle origin method host is_abs url_host dial_addr h =
     (if method = ''CONNECT'' then (case handle_connect p hijack host of (a, tr) \<Rightarrow> ((a, []), tr))
      else handle_http p early idle origin is_abs url_host dial_addr h)"

section \<open>Facts\<close>

lemma dial_loop_trace:
  "dial_loop dialer host port e ips = (r, tr) \<Longrightarrow>
     \<exists>n. tr = map (\<lambda>a. Dial a port) (take n ips)
       \<and> (\<forall>conn. r = Inr conn \<longrightarrow> (\<exists>a\<in>set ips. Dial a port \<in> set tr \<and> dialer a port = Inr conn))"
proof (induction ips arbitrary: e r tr)
  case Nil
  then show ?case by auto
next
  case (Cons a ips)
  show ?case
  proof (cases "dialer a port")
    case (Inr conn)
    with Cons.prems show ?thesis by (intro exI[of _ "Suc 0"]) auto
  next
    case (Inl e')
    obtain r' tr' where l: "dial_loop dialer host port e' ips = (r', tr')" by fastforce
    from Cons.IH[OF l] obtain n where n: "tr' = map (\<lambda>a. Dial a port) (take n ips)"
      "\<forall>conn. r' = Inr conn \<longrightarrow> (\<exists>a\<in>set ips. Dial a port \<in> set tr' \<and> dialer a port = Inr conn)" by blast
    from Cons.prems Inl l have "r = r'" "tr = Dial a port # tr'" by simp_all
    with n show ?thesis by (intro exI[of _ "Suc n"]) auto
  qed
qed

text \<open>
  The dialer's guarantee, for every resolver and network: the name is resolved at most once and
  before anything is dialled; only addresses that the check lets through are dialled; when one of
  the resolved addresses is blocked nothing is dialled at all; and a connection that is returned
  was made to one of the vetted addresses in the trace.
\<close>
theorem safe_dial_pinned:
  fixes r :: "dial_error + 'conn"
  assumes "safe_dial blocked resolver dialer addr = (r, tr)"
  shows "\<exists>pre dials port. tr = pre @ map (\<lambda>a. Dial a port) dials
    \<and> (pre = [] \<or> (\<exists>host. pre = [Lookup host] \<and> (dials \<noteq> [] \<longrightarrow>
          (\<exists>ips. resolver host = Inr ips \<and> set dials \<subseteq> set ips \<and> (\<forall>a\<in>set ips. \<not> blocked a)))))
    \<and> (\<forall>a\<in>set dials. \<not> blocked a)
    \<and> (\<forall>conn. r = Inr conn \<longrightarrow> (\<exists>a\<in>set dials. dialer a port = Inr conn))"
proof (cases "split_host_port addr")
  case None
  with assms show ?thesis by (intro exI[of _ "[]"]) (auto simp: safe_dial_def)
next
  case (Some hp)
  obtain host port where hp: "split_host_port addr = Some (host, port)" using Some by (cases hp) auto
  show ?thesis
  proof (cases "parse_ip host")
    case ip: (Some a)
    show ?thesis
    proof (cases "blocked a")
      case True
      with assms hp ip show ?thesis by (intro exI[of _ "[]"]) (auto simp: safe_dial_def)
    next
      case False
      with assms hp ip have "tr = [] @ map (\<lambda>a. Dial a port) [a]" "\<forall>conn. r = Inr conn \<longrightarrow> dialer a port = Inr conn"
        by (auto simp: safe_dial_def split: sum.splits)
      with False show ?thesis by (intro exI[of _ "[]"] exI[of _ "[a]"] exI[of _ port]) auto
    qed
  next
    case noip: None
    show ?thesis
    proof (cases "\<exists>ips. resolver host = Inr ips \<and> ips \<noteq> [] \<and> find blocked ips = None")
      case False
      with assms hp noip have "tr = [Lookup host] @ map (\<lambda>a. Dial a port) []" "\<not> (\<exists>conn. r = Inr conn)"
        by (auto simp: safe_dial_def split: sum.splits option.splits if_splits)
      then show ?thesis by (intro exI[of _ "[Lookup host]"] exI[of _ "[]"] exI[of _ port]) auto
    next
      case True
      then obtain ips where ips: "resolver host = Inr ips" "ips \<noteq> []" "find blocked ips = None" by blast
      then have nb: "\<forall>a\<in>set ips. \<not> blocked a" by (simp add: find_None_iff)
      obtain r' tr' where l: "dial_loop dialer host port '''' ips = (r', tr')" by fastforce
      with assms hp noip ips have "r = r'" "tr = Lookup host # tr'" by (auto simp: safe_dial_def)
      moreover from dial_loop_trace[OF l] obtain n where n: "tr' = map (\<lambda>a. Dial a port) (take n ips)"
        "\<forall>conn. r' = Inr conn \<longrightarrow> (\<exists>a\<in>set ips. Dial a port \<in> set tr' \<and> dialer a port = Inr conn)" by blast
      ultimately show ?thesis using nb ips(1) set_take_subset[of n ips]
        by (intro exI[of _ "[Lookup host]"] exI[of _ "take n ips"] exI[of _ port]) (auto dest: in_set_takeD)
    qed
  qed
qed

lemma safe_dial_pinned_witness:
  "\<exists>r tr. safe_dial (\<lambda>a. is_blocked_ip False (Some a)) (\<lambda>_. Inr [[9, 9, 9, 9], [10, 0, 0, 1]]) (\<lambda>a p. Inr a)
      ''evil.test:80'' = (r, tr) \<and> tr = [Lookup ''evil.test'']"
proof -
  have s: "split_host_port ''evil.test:80'' = Some (''evil.test'', ''80'')" and p: "parse_ip ''evil.test'' = None"
    by code_simp+
  have "safe_dial (\<lambda>a. is_blocked_ip False (Some a)) (\<lambda>_. Inr [[9, 9, 9, 9], [10, 0, 0, 1]]) (\<lambda>a p. Inr a)
      ''evil.test:80'' = (Inl (BlockedError ''evil.test'' [10, 0, 0, 1]) :: dial_error + ip, [Lookup ''evil.test''])"
    unfolding safe_dial_def s p option.case prod.case by code_simp
  from safe_dial_pinned[OF this] this show ?thesis by blast
qed

lemma mask_byte_simps:
  "mask_byte b 255 = b" "b < 256 \<Longrightarrow> mask_byte b 0 = 0"
  by (simp_all add: mask_byte_def)

lemma masks:
  "cidr_mask 8 32 = [255, 0, 0, 0]" "cidr_mask 12 32 = [255, 240, 0, 0]" "cidr_mask 16 32 = [255, 255, 0, 0]"
  "cidr_mask 10 32 = [255, 192, 0, 0]" "cidr_mask 4 32 = [240, 0, 0, 0]" "cidr_mask 32 32 = [255, 255, 255, 255]"
  "cidr_mask 128 128 = replicate 16 255" "cidr_mask 7 128 = 254 # replicate 15 0"
  "cidr_mask 8 128 = 255 # replicate 15 0" "cidr_mask 10 128 = 255 # 192 # replicate 14 0"
  by (code_simp)+

text \<open>Membership in a network of either family, for an address of either form.\<close>

lemma contains_v4:
  assumes "to4 a = Some [x, y, z, w]"
  shows "net_contains \<lparr>net_ip = [p, q, r, s], net_mask = [k, l, m, n]\<rparr> a \<longleftrightarrow>
    mask_byte p k = mask_byte x k \<and> mask_byte q l = mask_byte y l \<and> mask_byte r m = mask_byte z m \<and> mask_byte s n = mask_byte w n"
  using assms by (simp add: net_contains_def to4_def[of "[p, q, r, s]"] Let_def)

lemma contains_v4_none:
  assumes "to4 a = None" "length a = 16"
  shows "\<not> net_contains \<lparr>net_ip = [p, q, r, s], net_mask = m\<rparr> a"
  using assms by (simp add: net_contains_def to4_def[of "[p, q, r, s]"] Let_def)

lemma contains_v6:
  assumes "to4 a = None" "to4 n = None" "length m = 16" "length n = 16" "length a = 16"
  shows "net_contains \<lparr>net_ip = n, net_mask = m\<rparr> a \<longleftrightarrow> map2 mask_byte n m = map2 mask_byte a m"
  using assms by (simp add: net_contains_def Let_def)

lemma contains_v6_none:
  assumes "to4 a = Some [x, y, z, w]" "to4 n = None" "length n = 16" "length m = 16"
  shows "\<not> net_contains \<lparr>net_ip = n, net_mask = m\<rparr> a"
  using assms by (simp add: net_contains_def Let_def)

lemma to4_nets [simp]:
  "to4 [0, 0, 0, 0, 0, 0, 0, 0, 0, 0, 0, 0, 0, 0, 0, Suc 0] = None"
  "to4 [0, 0, 0, 0, 0, 0, 0, 0, 0, 0, 0, 0, 0, 0, 0, 0] = None"
  "to4 [252, 0, 0, 0, 0, 0, 0, 0, 0, 0, 0, 0, 0, 0, 0, 0] = None"
  "to4 [254, 128, 0, 0, 0, 0, 0, 0, 0, 0, 0, 0, 0, 0, 0, 0] = None"
  "to4 [255, 0, 0, 0, 0, 0, 0, 0, 0, 0, 0, 0, 0, 0, 0, 0] = None"
  by (simp_all add: to4_def v4_in_v6_def)

lemma map2_full: "map2 mask_byte x (replicate (length x) 255) = x"
  by (induction x) (simp_all add: mask_byte_simps)

lemma map2_full16: "length x = 16 \<Longrightarrow> map2 mask_byte x (replicate 16 255) = x"
  using map2_full[of x] by simp

lemma map2_zero: "\<forall>b\<in>set x. b < 256 \<Longrightarrow> map2 mask_byte x (replicate (length x) 0) = replicate (length x) 0"
  by (induction x) (simp_all add: mask_byte_simps)

lemma map2_v6:
  assumes "length a = 16" "\<forall>b\<in>set a. b < 256"
  shows "map2 mask_byte a (replicate 16 255) = a"
    "map2 mask_byte a (m # replicate 15 0) = mask_byte (a ! 0) m # replicate 15 0"
    "map2 mask_byte a (m # n # replicate 14 0) = mask_byte (a ! 0) m # mask_byte (a ! 1) n # replicate 14 0"
proof -
  show "map2 mask_byte a (replicate 16 255) = a" by (rule map2_full16[OF assms(1)])
  obtain x y b where a: "a = x # y # b" using assms(1) by (auto simp: length_Suc_conv eval_nat_numeral)
  then have "length (y # b) = 15" "length b = 14" using assms(1) by simp_all
  with a show "map2 mask_byte a (m # replicate 15 0) = mask_byte (a ! 0) m # replicate 15 0"
    "map2 mask_byte a (m # n # replicate 14 0) = mask_byte (a ! 0) m # mask_byte (a ! 1) n # replicate 14 0"
    using assms(2) map2_zero[of "y # b"] map2_zero[of b] by simp_all
qed

lemma mask_eqs:
  fixes b :: nat
  shows "16 = b div 16 * 16 \<longleftrightarrow> b div 16 = 1" "64 = b div 64 * 64 \<longleftrightarrow> 64 \<le> b \<and> b \<le> 127"
    "224 = b div 16 * 16 \<longleftrightarrow> b div 16 = 14" "252 = b div 2 * 2 \<longleftrightarrow> b div 2 = 126"
    "128 = b div 64 * 64 \<longleftrightarrow> b div 64 = 2"
  by auto

lemma mask_byte_other:
  "mask_byte b 240 = b div 16 * 16" "mask_byte b 192 = b div 64 * 64" "mask_byte b 254 = b div 2 * 2"
  by (simp_all add: mask_byte_def)

lemma multicast_not_v4: "to4 a = Some q \<Longrightarrow> \<not> ip_is_interface_local_multicast a"
proof
  assume q: "to4 a = Some q" and m: "ip_is_interface_local_multicast a"
  from m have "length a = 16" "a ! 0 = 255" by (simp_all add: ip_is_interface_local_multicast_def)
  moreover with q have "take 12 a = v4_in_v6" by (simp add: to4_def split: if_splits)
  then have "take 12 a ! 0 = 0" by (simp add: v4_in_v6_def)
  ultimately show False by simp
qed

lemma blocked_v4:
  assumes "to4 a = Some [x, y, z, w]" "x < 256" "y < 256" "z < 256" "w < 256"
  shows "is_blocked_ip testing (Some a) \<longleftrightarrow> (\<exists>n\<in>set (blocked_nets testing). net_contains n a)"
proof -
  note v4 = contains_v4[OF assms(1)] and v6 = contains_v6_none[OF assms(1)]
  have n: "(\<exists>n\<in>set (blocked_nets testing). net_contains n a) \<longleftrightarrow>
      \<not> testing \<and> 127 = x \<or> 10 = x \<or> 172 = x \<and> y div 16 = 1 \<or> 192 = x \<and> 168 = y \<or> 169 = x \<and> 254 = y
      \<or> 100 = x \<and> 64 \<le> y \<and> y \<le> 127 \<or> x div 16 = 14 \<or> 0 = x \<and> 0 = y \<and> 0 = z \<and> 0 = w"
    using assms(2-) by (simp add: blocked_nets_def masks v4 v6 mask_byte_simps mask_byte_other mask_eqs) blast
  show ?thesis unfolding n
    using multicast_not_v4[OF assms(1)]
    by (auto simp: is_blocked_ip_def ip_is_loopback_def ip_is_private_def ip_is_link_local_unicast_def
        ip_is_link_local_multicast_def ip_is_multicast_def ip_is_unspecified_def assms(1))
qed

lemma blocked_v6:
  assumes "to4 a = None" "length a = 16" "\<forall>b\<in>set a. b < 256"
  shows "is_blocked_ip testing (Some a) \<longleftrightarrow> (\<exists>n\<in>set (blocked_nets testing). net_contains n a)"
proof -
  note v6 = contains_v6[OF assms(1) _ _ _ assms(2)] and v4 = contains_v4_none[OF assms(1,2)]
  note a = map2_v6[OF assms(2,3)]
  have z: "map2 mask_byte [0, 0, 0, 0, 0, 0, 0, 0, 0, 0, 0, 0, 0, 0, 0] (replicate 15 0) = replicate 15 0"
    "map2 mask_byte [0, 0, 0, 0, 0, 0, 0, 0, 0, 0, 0, 0, 0, 0] (replicate 14 0) = replicate 14 0" by code_simp+
  have n: "(\<exists>n\<in>set (blocked_nets testing). net_contains n a) \<longleftrightarrow>
      \<not> testing \<and> [0, 0, 0, 0, 0, 0, 0, 0, 0, 0, 0, 0, 0, 0, 0, 1] = a
      \<or> [0, 0, 0, 0, 0, 0, 0, 0, 0, 0, 0, 0, 0, 0, 0, 0] = a
      \<or> a ! 0 div 2 = 126 \<or> 254 = a ! 0 \<and> a ! 1 div 64 = 2 \<or> 255 = a ! 0"
    unfolding blocked_nets_def masks
    by (simp add: v4 v6 a z map2_full16 mask_byte_simps mask_byte_other mask_eqs) blast
  have r: "replicate 15 0 @ [1] = [0, 0, 0, 0, 0, 0, 0, 0, 0, 0, 0, 0, 0, 0, 0, 1::nat]"
    "replicate 16 0 = [0, 0, 0, 0, 0, 0, 0, 0, 0, 0, 0, 0, 0, 0, 0, 0::nat]"
    by code_simp+
  show ?thesis unfolding n is_blocked_ip_def ip_is_loopback_def ip_is_private_def ip_is_link_local_unicast_def
      ip_is_link_local_multicast_def ip_is_interface_local_multicast_def ip_is_multicast_def ip_is_unspecified_def r
    using assms(1,2) by (auto simp del: One_nat_def)
qed

lemma blocked_exact:
  assumes "ip_ok a"
  shows "is_blocked_ip testing (Some a) \<longleftrightarrow> (\<exists>n\<in>set (blocked_nets testing). net_contains n a)"
proof (cases "to4 a")
  case None
  with assms show ?thesis by (intro blocked_v6) (auto simp: ip_ok_def to4_def split: if_splits)
next
  case (Some q)
  with assms have "length q = 4" "\<forall>b\<in>set q. b < 256"
    by (auto simp: ip_ok_def to4_def split: if_splits dest: in_set_dropD)
  then obtain x y z w where q: "q = [x, y, z, w]" "x < 256" "y < 256" "z < 256" "w < 256"
    by (auto simp: length_Suc_conv eval_nat_numeral)
  with Some show ?thesis using blocked_v4[of a x y z w] by blast
qed

text \<open>
  The address check is exactly membership in the documented private, loopback, link-local,
  carrier-grade NAT, multicast and unspecified ranges, for every address of either family (an
  IPv4 address in either of its two forms), with the loopback ranges let through in tests only.
\<close>
theorem is_blocked_ranges:
  assumes "ip_ok a"
  shows "is_blocked_ip testing (Some a) \<longleftrightarrow> (\<exists>n\<in>set (blocked_nets testing). net_contains n a)"
  using assms by (rule blocked_exact)

lemma is_blocked_ranges_witness:
  "is_blocked_ip False (Some [172, 31, 0, 9]) \<and> \<not> is_blocked_ip False (Some [172, 32, 0, 9])"
proof -
  have "ip_ok [172, 31, 0, 9]" "ip_ok [172, 32, 0, 9]" by (simp_all add: ip_ok_def)
  from this[THEN is_blocked_ranges] show ?thesis by code_simp
qed

section \<open>The header filter\<close>

lemma fold_header_del: "fold header_del names h = filter (\<lambda>(k, _). \<forall>n\<in>set names. k \<noteq> canonical_key n) h"
  by (induction names arbitrary: h) (auto simp: header_del_def intro!: filter_cong)

text \<open>What the filter leaves: the headers that are neither hop-by-hop nor named by \<^verbatim>\<open>Connection\<close>, unchanged and in order.\<close>

lemma remove_hop_by_hop_exact:
  "remove_hop_by_hop h = filter (\<lambda>(k, _). k \<notin> set hop_by_hop_headers \<and> k \<notin> canonical_key ` set (connection_names h)) h"
proof -
  have c: "map canonical_key hop_by_hop_headers = hop_by_hop_headers" by code_simp
  have "(\<forall>n\<in>set hop_by_hop_headers. k \<noteq> canonical_key n) \<longleftrightarrow> k \<notin> set (map canonical_key hop_by_hop_headers)" for k
    by auto
  then show ?thesis unfolding c by (auto simp: remove_hop_by_hop_def fold_header_del intro!: filter_cong)
qed

lemma handle_http_filters:
  assumes "handle_http p early idle origin is_abs url_host dial_addr h = ((Forwarded st, rh), tr)"
    "(k, vs) \<in> set rh"
  shows "k \<notin> set hop_by_hop_headers"
  using assms by (auto simp: handle_http_def remove_hop_by_hop_exact split: if_splits prod.splits option.splits)

lemma safe_dial_dials: "safe_dial blocked resolver dialer addr = (r, tr) \<Longrightarrow> Dial a port \<in> set tr \<Longrightarrow> \<not> blocked a"
  using dial_loop_trace by (fastforce simp: safe_dial_def find_None_iff split: option.splits prod.splits if_splits sum.splits
      dest: in_set_takeD)

text \<open>
  C10: A proxy started with the default address check never dials an address outside the allowed
  ranges, whatever the request, the resolver, the network and the origin do: every address dialled
  while a request is handled lies in none of the blocked networks.
\<close>
theorem proxy_never_dials_blocked:
  assumes "start_proxy testing default_resolver net_dialer listen opts = Inr p" "po_is_blocked opts = None"
    and "proxy_handle p hijack early idle origin method host is_abs url_host dial_addr h = (answer, tr)"
    and "Dial a port \<in> set tr" "ip_ok a" "n \<in> set (blocked_nets testing)"
  shows "\<not> net_contains n a"
proof -
  have b: "sp_is_blocked p = (\<lambda>a. is_blocked_ip testing (Some a))"
    using assms(1,2) by (auto simp: start_proxy_def Let_def split: sum.splits)
  from assms(3,4) obtain addr r tr' where "proxy_dial p addr = (r, tr')" "Dial a port \<in> set tr'"
    by (fastforce simp: proxy_handle_def handle_connect_def handle_http_def round_trip_def
        split: if_splits prod.splits option.splits sum.splits)
  then have "\<not> is_blocked_ip testing (Some a)" unfolding proxy_dial_def b by (rule safe_dial_dials)
  then show ?thesis using assms(5,6) blocked_exact[OF assms(5)] by blast
qed

definition sample_proxy :: "ip ssrf_proxy" where
  "sample_proxy = \<lparr>sp_addr = ''127.0.0.1:1'', sp_resolver = (\<lambda>_. Inr []), sp_dialer = (\<lambda>a _. Inr a),
     sp_is_blocked = (\<lambda>a. is_blocked_ip False (Some a))\<rparr>"

lemma proxy_never_dials_blocked_witness:
  "\<exists>a tr. snd (proxy_handle sample_proxy None None None (\<lambda>_ _. Inl []) ''CONNECT'' ''9.9.9.9:443'' False [] [] []) = tr
     \<and> Dial a ''443'' \<in> set tr \<and> \<not> net_contains \<lparr>net_ip = [127, 0, 0, 0], net_mask = cidr_mask 8 32\<rparr> a"
proof -
  let ?a = "v4_in_v6 @ [9, 9, 9, 9]"
  have s: "split_host_port ''9.9.9.9:443'' = Some (''9.9.9.9'', ''443'')" and p: "parse_ip ''9.9.9.9'' = Some ?a"
    and b: "\<not> is_blocked_ip False (Some ?a)" and o: "ip_ok ?a" by code_simp+
  let ?h = "proxy_handle sample_proxy None None None (\<lambda>_ _. Inl []) ''CONNECT'' ''9.9.9.9:443'' False [] [] []"
  have h: "?h = ((ProxyError, []), [Dial ?a ''443''])"
    by (simp add: proxy_handle_def handle_connect_def proxy_dial_def safe_dial_def s p b sample_proxy_def)
  have st: "start_proxy False (\<lambda>_. Inr []) (\<lambda>_ a _. Inr a) (Inr ''127.0.0.1:1'')
      \<lparr>po_resolver = None, po_dial_timeout = 0, po_is_blocked = None\<rparr> = Inr sample_proxy"
    by (simp add: start_proxy_def sample_proxy_def)
  have "\<not> net_contains \<lparr>net_ip = [127, 0, 0, 0], net_mask = cidr_mask 8 32\<rparr> ?a"
    by (rule proxy_never_dials_blocked[OF st _ h _ o]) (simp_all add: blocked_nets_def)
  with h show ?thesis by auto
qed

end
