(* ===== verification/GoFloat.thy ===== *)
theory GoFloat
  imports GoPrelude "HOL-Library.Log_Nat"
begin

text \<open>
  The \<^verbatim>\<open>float64\<close> arithmetic the rate limiter uses: non-negative numbers, so far from the ends of
  the format that neither overflow nor subnormal numbers occur.  An operation is the exact one on
  rationals followed by rounding to 53 significant bits, ties to even.  The facts are those IEEE
  754 gives: rounding is monotone and leaves the integers below \<open>2 ^ 53\<close> alone.
\<close>

definition round_half_even :: "rat \<Rightarrow> int" where
  "round_half_even y =
     (let f = \<lfloor>y\<rfloor>; d = y - of_int f
      in if d < 1 / 2 then f else if 1 / 2 < d then f + 1 else if even f then f else f + 1)"

text \<open>The binary exponent of a positive number: \<open>2 ^ e \<le> x < 2 ^ (e + 1)\<close>.\<close>

definition binary_exponent :: "rat \<Rightarrow> int" where
  "binary_exponent x =
     (if 1 \<le> x then int (floorlog 2 (nat \<lfloor>x\<rfloor>)) - 1 else - int (floorlog 2 (nat (\<lceil>1 / x\<rceil> - 1))))"

definition round64 :: "rat \<Rightarrow> rat" where
  "round64 x =
     (if x \<le> 0 then 0
      else let s = 2 powi (binary_exponent x - 52) in of_int (round_half_even (x / s)) * s)"

definition f64 :: "int \<Rightarrow> rat" where "f64 n = round64 (of_int n)"
definition fadd :: "rat \<Rightarrow> rat \<Rightarrow> rat" where "fadd a b = round64 (a + b)"
definition fsub :: "rat \<Rightarrow> rat \<Rightarrow> rat" where "fsub a b = round64 (a - b)"
definition fmul :: "rat \<Rightarrow> rat \<Rightarrow> rat" where "fmul a b = round64 (a * b)"
definition fdiv :: "rat \<Rightarrow> rat \<Rightarrow> rat" where "fdiv a b = round64 (a / b)"

lemma round_half_even_bounds: "\<lfloor>y\<rfloor> \<le> round_half_even y" "round_half_even y \<le> \<lfloor>y\<rfloor> + 1"
  by (simp_all add: round_half_even_def Let_def)

lemma round_half_even_int [simp]: "round_half_even (of_int n) = n"
  by (simp add: round_half_even_def)

lemma round_half_even_mono: "x \<le> y \<Longrightarrow> round_half_even x \<le> round_half_even y"
proof -
  assume le: "x \<le> y"
  then have f: "\<lfloor>x\<rfloor> \<le> \<lfloor>y\<rfloor>" by (rule floor_mono)
  show ?thesis
  proof (cases "\<lfloor>x\<rfloor> = \<lfloor>y\<rfloor>")
    case True
    then show ?thesis using le by (auto simp: round_half_even_def Let_def)
  next
    case False
    with f have "\<lfloor>x\<rfloor> + 1 \<le> \<lfloor>y\<rfloor>" by linarith
    with round_half_even_bounds[of x] round_half_even_bounds[of y] show ?thesis by linarith
  qed
qed

lemma floorlog_two:
  assumes "0 < n"
  shows "(2::rat) powi (int (floorlog 2 n) - 1) \<le> of_nat n" "(of_nat n :: rat) < 2 powi int (floorlog 2 n)"
proof -
  have b: "2 ^ (floorlog 2 n - 1) \<le> n" "n < 2 ^ floorlog 2 n"
    using floorlog_bounds[OF assms, of 2] by simp_all
  have p: "0 < floorlog 2 n" using assms by (simp add: floorlog_def)
  have "(2::rat) powi (int (floorlog 2 n) - 1) = of_nat (2 ^ (floorlog 2 n - 1))"
    using p by (simp add: power_int_def nat_diff_distrib)
  then show "(2::rat) powi (int (floorlog 2 n) - 1) \<le> of_nat n" using b(1) by (simp only: of_nat_le_iff)
  have "(2::rat) powi int (floorlog 2 n) = of_nat (2 ^ floorlog 2 n)" by simp
  then show "(of_nat n :: rat) < 2 powi int (floorlog 2 n)" using b(2) by (simp only: of_nat_less_iff)
qed

lemma binary_exponent_bounds:
  assumes "0 < x"
  shows "2 powi binary_exponent x \<le> x" "x < 2 powi (binary_exponent x + 1)"
proof -
  have "2 powi binary_exponent x \<le> x \<and> x < 2 powi (binary_exponent x + 1)"
  proof (cases "1 \<le> x")
    case True
    let ?n = "nat \<lfloor>x\<rfloor>"
    have n: "0 < ?n" "of_nat ?n \<le> x" "x < of_nat ?n + 1" using True by (simp_all add: of_nat_nat) linarith+
    have "2 powi binary_exponent x \<le> x"
      using order.trans[OF floorlog_two(1)[OF n(1)] n(2)] True by (simp add: binary_exponent_def)
    moreover have "x < 2 powi (binary_exponent x + 1)"
    proof -
      have "(1::nat) < 2" by simp
      from floorlog_bounds[OF n(1) this] have "?n < 2 ^ floorlog 2 ?n" ..
      then have "?n + 1 \<le> 2 ^ floorlog 2 ?n" by linarith
      then have "(of_nat (?n + 1) :: rat) \<le> of_nat (2 ^ floorlog 2 ?n)" by (simp only: of_nat_le_iff)
      with n(3) show ?thesis using True by (simp add: binary_exponent_def)
    qed
    ultimately show ?thesis by simp
  next
    case False
    let ?n = "nat (\<lceil>1 / x\<rceil> - 1)"
    have x: "1 < 1 / x" using assms False by simp
    then have c: "1 < \<lceil>1 / x\<rceil>" by linarith
    then have n: "0 < ?n" "of_nat ?n < 1 / x" "1 / x \<le> of_nat ?n + 1"
      by (simp_all add: of_nat_nat) linarith+
    have lo: "2 powi (int (floorlog 2 ?n) - 1) < 1 / x" using floorlog_two(1)[OF n(1)] n(2) by linarith
    have "(1::nat) < 2" by simp
    from floorlog_bounds[OF n(1) this] have "?n < 2 ^ floorlog 2 ?n" ..
    then have "?n + 1 \<le> 2 ^ floorlog 2 ?n" by linarith
    then have "(of_nat (?n + 1) :: rat) \<le> of_nat (2 ^ floorlog 2 ?n)" by (simp only: of_nat_le_iff)
    then have hi: "1 / x \<le> 2 powi int (floorlog 2 ?n)" using n(3) by simp
    have e: "binary_exponent x = - int (floorlog 2 ?n)" using False by (simp add: binary_exponent_def)
    have "(2::rat) powi binary_exponent x = 1 / 2 powi int (floorlog 2 ?n)"
      by (simp add: e power_int_minus field_simps)
    moreover have "1 / 2 powi int (floorlog 2 ?n) \<le> x"
      using hi assms by (simp add: field_simps)
    moreover have "(2::rat) powi (binary_exponent x + 1) = 1 / 2 powi (int (floorlog 2 ?n) - 1)"
    proof -
      have "binary_exponent x + 1 = - (int (floorlog 2 ?n) - 1)" by (simp add: e)
      then show ?thesis by (simp only: power_int_minus) (simp add: field_simps)
    qed
    moreover have "x < 1 / 2 powi (int (floorlog 2 ?n) - 1)"
    proof -
      have "0 < (2::rat) powi (int (floorlog 2 ?n) - 1)" by simp
      with lo assms show ?thesis by (simp add: field_simps)
    qed
    ultimately show ?thesis by simp
  qed
  then show "2 powi binary_exponent x \<le> x" "x < 2 powi (binary_exponent x + 1)" by simp_all
qed

lemma powi_mono: "a \<le> b \<Longrightarrow> (2::rat) powi a \<le> 2 powi b"
  by (simp add: power_int_increasing)

lemma powi_add_nat: "(2::rat) powi (a + int n) = 2 powi a * 2 ^ n"
  by (simp add: power_int_add)

text \<open>The scaled number lies between \<open>2 ^ 52\<close> and \<open>2 ^ 53\<close>, so rounding it does as well.\<close>

lemma scaled_bounds:
  assumes "0 < x" "s = 2 powi (binary_exponent x - 52)"
  shows "0 < s" "2 ^ 52 \<le> x / s" "x / s < 2 ^ 53"
proof -
  show s: "0 < s" by (simp add: assms(2))
  have a: "s * 2 ^ 52 = 2 powi binary_exponent x"
    using powi_add_nat[of "binary_exponent x - 52" 52] by (simp add: assms(2))
  have b: "s * 2 ^ 53 = 2 powi (binary_exponent x + 1)"
    using powi_add_nat[of "binary_exponent x - 52" 53] by (simp add: assms(2) add.commute)
  from binary_exponent_bounds(1)[OF assms(1)] a have "s * 2 ^ 52 \<le> x" by simp
  with s show "2 ^ 52 \<le> x / s" by (simp add: field_simps)
  from binary_exponent_bounds(2)[OF assms(1)] b have "x < s * 2 ^ 53" by simp
  with s show "x / s < 2 ^ 53" by (simp add: field_simps)
qed

lemma rounded_bounds:
  assumes "0 < x" "s = 2 powi (binary_exponent x - 52)"
  shows "2 ^ 52 \<le> round_half_even (x / s)" "round_half_even (x / s) \<le> 2 ^ 53"
proof -
  note b = scaled_bounds[OF assms]
  have "round_half_even (of_int (2 ^ 52)) \<le> round_half_even (x / s)"
    by (rule round_half_even_mono) (use b(2) in simp)
  then show "2 ^ 52 \<le> round_half_even (x / s)" by (simp only: round_half_even_int)
  have "round_half_even (x / s) \<le> round_half_even (of_int (2 ^ 53))"
    by (rule round_half_even_mono) (use b(3) in simp)
  then show "round_half_even (x / s) \<le> 2 ^ 53" by (simp only: round_half_even_int)
qed

lemma round64_nonneg [simp]: "0 \<le> round64 x"
proof (cases "x \<le> 0")
  case False
  then have "0 < x" by simp
  from rounded_bounds(1)[OF this refl] have "0 \<le> round_half_even (x / 2 powi (binary_exponent x - 52))"
    by simp
  with False show ?thesis by (simp add: round64_def Let_def)
qed (simp add: round64_def)

lemma binary_exponent_mono:
  assumes "0 < x" "x \<le> y"
  shows "binary_exponent x \<le> binary_exponent y"
proof (rule ccontr)
  assume "\<not> binary_exponent x \<le> binary_exponent y"
  then have "(2::rat) powi (binary_exponent y + 1) \<le> 2 powi binary_exponent x" by (intro powi_mono) simp
  moreover have "0 < y" using assms by simp
  ultimately show False
    using binary_exponent_bounds(1)[OF assms(1)] binary_exponent_bounds(2)[of y] assms(2) by linarith
qed

lemma round64_mono: "x \<le> y \<Longrightarrow> round64 x \<le> round64 y"
proof (cases "x \<le> 0")
  case False
  assume le: "x \<le> y"
  let ?sx = "2 powi (binary_exponent x - 52) :: rat" and ?sy = "2 powi (binary_exponent y - 52) :: rat"
  have x: "0 < x" and y: "0 < y" using False le by simp_all
  have rx: "round64 x = of_int (round_half_even (x / ?sx)) * ?sx"
    and ry: "round64 y = of_int (round_half_even (y / ?sy)) * ?sy"
    using x y by (simp_all add: round64_def Let_def)
  show ?thesis
  proof (cases "binary_exponent x = binary_exponent y")
    case True
    have "x / ?sx \<le> y / ?sx" using le by (simp add: divide_right_mono)
    then have "round_half_even (x / ?sx) \<le> round_half_even (y / ?sy)"
      unfolding True by (rule round_half_even_mono)
    then show ?thesis unfolding rx ry True by (simp add: mult_right_mono)
  next
    case ne: False
    with binary_exponent_mono[OF x le] have e: "binary_exponent x + 1 \<le> binary_exponent y" by simp
    have "round64 x \<le> 2 ^ 53 * ?sx"
    proof -
      have "of_int (round_half_even (x / ?sx)) \<le> (of_int (2 ^ 53) :: rat)"
        using rounded_bounds(2)[OF x refl] by (simp only: of_int_le_iff)
      then show ?thesis unfolding rx by (intro mult_right_mono) simp_all
    qed
    also have "2 ^ 53 * ?sx = 2 powi (binary_exponent x + 1)"
      using powi_add_nat[of "binary_exponent x - 52" 53] by (simp add: add.commute mult.commute)
    also have "\<dots> \<le> 2 powi binary_exponent y" using e by (rule powi_mono)
    also have "\<dots> = 2 ^ 52 * ?sy" using powi_add_nat[of "binary_exponent y - 52" 52] by simp
    also have "\<dots> \<le> round64 y"
    proof -
      have "(of_int (2 ^ 52) :: rat) \<le> of_int (round_half_even (y / ?sy))"
        using rounded_bounds(1)[OF y refl] by (simp only: of_int_le_iff)
      then show ?thesis unfolding ry by (intro mult_right_mono) simp_all
    qed
    finally show ?thesis .
  qed
next
  case True
  then have "round64 x = 0" by (simp add: round64_def)
  then show ?thesis by simp
qed

text \<open>Numbers with at most 53 bits are left alone.\<close>

lemma round64_dyadic:
  assumes "0 \<le> n" "n < 2 ^ 53"
  shows "round64 (of_int n * 2 powi e) = of_int n * 2 powi e"
proof (cases "n = 0")
  case True
  then show ?thesis by (simp add: round64_def)
next
  case False
  let ?y = "of_int n * 2 powi e :: rat"
  have y: "0 < ?y" using False assms(1) by simp
  let ?e = "binary_exponent ?y"
  have e: "?e - 52 \<le> e"
  proof (rule ccontr)
    assume "\<not> ?e - 52 \<le> e"
    then have "(2::rat) powi (e + int 53) \<le> 2 powi ?e" by (intro powi_mono) simp
    then have "2 powi e * 2 ^ 53 \<le> ?y"
      using binary_exponent_bounds(1)[OF y] by (simp only: powi_add_nat)
    then have "(of_int (2 ^ 53) :: rat) \<le> of_int n" by (simp add: field_simps)
    then have "2 ^ 53 \<le> n" by (simp only: of_int_le_iff)
    with assms(2) show False by simp
  qed
  let ?s = "2 powi (?e - 52) :: rat" and ?k = "nat (e - (?e - 52))"
  have "e = (?e - 52) + int ?k" using e by simp
  then have p: "(2::rat) powi e = 2 ^ ?k * ?s" using powi_add_nat[of "?e - 52" ?k] by (simp only: mult.commute)
  have s: "?s \<noteq> 0" by simp
  have "2 powi e / ?s = 2 ^ ?k" by (rule iffD2[OF nonzero_divide_eq_eq[OF s] p])
  moreover have "?y / ?s = of_int n * (2 powi e / ?s)" by (simp only: times_divide_eq_right)
  ultimately have q: "?y / ?s = of_int (n * 2 ^ ?k)" by (simp only: of_int_mult of_int_power of_int_numeral)
  have "round64 ?y = of_int (round_half_even (?y / ?s)) * ?s"
    using y by (simp add: round64_def Let_def)
  also have "\<dots> = ?y / ?s * ?s" by (simp only: q round_half_even_int)
  also have "\<dots> = ?y" by simp
  finally show ?thesis .
qed

lemma round64_int: "0 \<le> n \<Longrightarrow> n < 2 ^ 53 \<Longrightarrow> round64 (of_int n) = of_int n"
  using round64_dyadic[of n 0] by simp

lemma round64_form:
  assumes "0 < x"
  obtains m e where "round64 x = of_int m * 2 powi e" "2 ^ 52 \<le> m" "m < 2 ^ 53"
proof -
  let ?s = "2 powi (binary_exponent x - 52) :: rat"
  let ?r = "round_half_even (x / ?s)"
  have r: "round64 x = of_int ?r * ?s" using assms by (simp add: round64_def Let_def)
  note b = rounded_bounds[OF assms refl]
  show ?thesis
  proof (cases "?r = 2 ^ 53")
    case False
    with b r that show ?thesis by force
  next
    case True
    have "round64 x = of_int (2 ^ 52) * 2 powi (binary_exponent x - 52 + int 1)"
      unfolding powi_add_nat r True by simp
    then show ?thesis by (rule that) simp_all
  qed
qed

lemma round64_idem [simp]: "round64 (round64 x) = round64 x"
proof (cases "0 < x")
  case True
  from round64_form[OF True] obtain m e where "round64 x = of_int m * 2 powi e" "2 ^ 52 \<le> m" "m < 2 ^ 53" .
  then show ?thesis using round64_dyadic[of m e] by simp
next
  case False
  then show ?thesis by (simp add: round64_def)
qed

lemma round64_pos: "0 < x \<Longrightarrow> 0 < round64 x"
  by (erule round64_form) simp

text \<open>Taking one from a number that is at least one and below \<open>2 ^ 53\<close> is exact.\<close>

lemma fsub_one:
  assumes "round64 t = t" "1 \<le> t" "t < 2 ^ 53"
  shows "fsub t 1 = t - 1"
proof -
  have "0 < t" using assms(2) by simp
  then obtain m e where m: "t = of_int m * 2 powi e" "2 ^ 52 \<le> m" "m < 2 ^ 53"
    using round64_form[of t] assms(1) by metis
  have "e \<le> 0"
  proof (rule ccontr)
    assume "\<not> e \<le> 0"
    then have "(2::rat) powi 1 \<le> 2 powi e" by (intro powi_mono) simp
    moreover have "(of_int (2 ^ 52) :: rat) \<le> of_int m" using m(2) by (simp only: of_int_le_iff)
    ultimately have "of_int (2 ^ 52) * 2 powi 1 \<le> t" unfolding m(1) by (intro mult_mono) simp_all
    with assms(3) show False by simp
  qed
  let ?k = "nat (- e)"
  have e: "(2::rat) powi e = 1 / 2 ^ ?k"
  proof -
    have "e = - int ?k" using \<open>e \<le> 0\<close> by simp
    then have "(2::rat) powi e = inverse (2 ^ ?k)" by (metis power_int_minus power_int_of_nat)
    then show ?thesis by (simp add: field_simps)
  qed
  have t: "t - 1 = of_int (m - 2 ^ ?k) * 2 powi e" unfolding m(1) e by (simp add: field_simps)
  have "(1::rat) \<le> of_int m / 2 ^ ?k" using assms(2) unfolding m(1) e by simp
  then have "(of_int (2 ^ ?k) :: rat) \<le> of_int m" by (simp add: field_simps)
  then have "2 ^ ?k \<le> m" by (simp only: of_int_le_iff)
  moreover have "m - 2 ^ ?k < 2 ^ 53" using m(3) zero_less_power[of "2::int" ?k] by linarith
  ultimately show ?thesis unfolding fsub_def t by (intro round64_dyadic) simp_all
qed

lemma f64_int [simp]: "0 \<le> n \<Longrightarrow> n < 2 ^ 53 \<Longrightarrow> f64 n = of_int n"
  by (simp add: f64_def round64_int)

lemma f64_mono: "m \<le> n \<Longrightarrow> f64 m \<le> f64 n"
  by (simp add: f64_def round64_mono)

lemma round64_ge_int: "0 \<le> n \<Longrightarrow> n < 2 ^ 53 \<Longrightarrow> of_int n \<le> x \<Longrightarrow> of_int n \<le> round64 x"
  using round64_mono[of "of_int n" x] by (simp add: round64_int)

lemma round64_le_int: "0 \<le> n \<Longrightarrow> n < 2 ^ 53 \<Longrightarrow> x \<le> of_int n \<Longrightarrow> round64 x \<le> of_int n"
  using round64_mono[of x "of_int n"] by (simp add: round64_int)

end
