(* ===== verification/RateLimit.thy ===== *)
theory RateLimit
  imports GoFloat
begin

text \<open>
  Package \<^verbatim>\<open>ratelimit\<close>: the keyed token buckets with lazy refill and the janitor
  (\<^verbatim>\<open>ratelimit/keyed.go\<close>), and the channel limiter with its refill goroutine
  (\<^verbatim>\<open>ratelimit/main.go\<close>).  What their clients rely on is the locale \<open>rate_limiter\<close>, which both
  provide.  Every operation takes the time it reads from the clock.
\<close>

datatype rate_error = ErrRateLimited | ErrContext string

section \<open>The interface\<close>

text \<open>
  \<open>avail s k\<close> is the number of events still allowed for \<open>k\<close> if the clock stood still.  Taking
  uses one up for that key only; asking changes nothing.
\<close>

locale rate_limiter =
  fixes ok :: "'s \<Rightarrow> bool"
    and avail :: "'s \<Rightarrow> 'k \<Rightarrow> nat"
    and takes :: "'k \<Rightarrow> 's \<Rightarrow> rate_error option \<times> 's"
    and limited :: "'k \<Rightarrow> 's \<Rightarrow> rate_error option \<times> 's"
  assumes take_ok: "ok s \<Longrightarrow> ok (snd (takes k s))"
    and take_iff: "ok s \<Longrightarrow> fst (takes k s) = None \<longleftrightarrow> 0 < avail s k"
    and take_avail: "ok s \<Longrightarrow> avail (snd (takes k s)) k' = (if k' = k then avail s k - 1 else avail s k')"
    and limited_ok: "ok s \<Longrightarrow> ok (snd (limited k s))"
    and limited_iff: "ok s \<Longrightarrow> fst (limited k s) = None \<longleftrightarrow> 0 < avail s k"
    and limited_avail: "ok s \<Longrightarrow> avail (snd (limited k s)) k' = avail s k'"
begin

text \<open>A run of takes on a list of keys: the answers and the state after it.\<close>

fun take_all :: "'k list \<Rightarrow> 's \<Rightarrow> rate_error option list \<times> 's" where
  "take_all [] s = ([], s)"
| "take_all (k # ks) s =
     (let (r, s1) = takes k s; (rs, s2) = take_all ks s1 in (r # rs, s2))"

definition granted :: "'k \<Rightarrow> 'k list \<Rightarrow> 's \<Rightarrow> nat" where
  "granted k ks s = length (filter (\<lambda>(k', r). k' = k \<and> r = None) (zip ks (fst (take_all ks s))))"

lemma granted_exact: "ok s \<Longrightarrow> granted k ks s = min (avail s k) (count_list ks k)"
proof (induction ks arbitrary: s)
  case Nil
  then show ?case by (simp add: granted_def)
next
  case (Cons k' ks)
  obtain r s1 where t: "takes k' s = (r, s1)" by fastforce
  obtain rs s2 where t2: "take_all ks s1 = (rs, s2)" by fastforce
  have s1: "ok s1" using take_ok[OF Cons.prems, of k'] t by simp
  have a: "avail s1 k = (if k = k' then avail s k' - 1 else avail s k)"
    using take_avail[OF Cons.prems, of k' k] t by simp
  have g: "r = None \<longleftrightarrow> 0 < avail s k'" using take_iff[OF Cons.prems, of k'] t by simp
  have "granted k (k' # ks) s = (if k' = k \<and> r = None then 1 else 0) + granted k ks s1"
    by (simp add: granted_def t t2)
  then show ?case using Cons.IH[OF s1] a g by (auto simp: min_def)
qed

lemma blocked_stays: "ok s \<Longrightarrow> avail s k = 0 \<Longrightarrow> fst (limited k (snd (takes k' s))) \<noteq> None"
  using limited_iff[OF take_ok] take_avail by (metis bot_nat_0.not_eq_extremum less_nat_zero_code diff_is_0_eq' zero_le)

end

section \<open>The keyed limiter\<close>

record bucket =
  bk_tokens :: rat
  bk_last_fill :: gotime
  bk_last_seen :: gotime

record keyed_limiter =
  kl_count :: int
  kl_interval :: int
  kl_buckets :: "string \<rightharpoonup> bucket"

definition new_keyed :: "int \<Rightarrow> int \<Rightarrow> keyed_limiter" where
  "new_keyed count interval = \<lparr>kl_count = count, kl_interval = interval, kl_buckets = Map.empty\<rparr>"

text \<open>\<^verbatim>\<open>Duration.Seconds\<close> for a duration that is not negative.\<close>

definition dur_seconds :: "int \<Rightarrow> rat" where
  "dur_seconds d = fadd (f64 (d div go_second)) (fdiv (f64 (d mod go_second)) (f64 1000000000))"

text \<open>
  \<^verbatim>\<open>refill\<close>.  With an interval of zero the division gives an infinity and the minimum is the
  count; the interval is otherwise positive.
\<close>

definition refill_bucket :: "int \<Rightarrow> int \<Rightarrow> gotime \<Rightarrow> bucket \<Rightarrow> bucket" where
  "refill_bucket count interval now b =
     (let elapsed = sub_time now (bk_last_fill b);
          b1 = (if 0 < elapsed then
                  (let added = fmul (fdiv (dur_seconds elapsed) (dur_seconds interval)) (f64 count);
                       full = (if interval = 0 then f64 count else min (f64 count) (fadd (bk_tokens b) added))
                   in b\<lparr>bk_tokens := full, bk_last_fill := now\<rparr>)
                else b)
      in b1\<lparr>bk_last_seen := now\<rparr>)"

definition new_bucket :: "int \<Rightarrow> gotime \<Rightarrow> bucket" where
  "new_bucket count now = \<lparr>bk_tokens = f64 count, bk_last_fill = now, bk_last_seen = now\<rparr>"

definition refill :: "string \<Rightarrow> gotime \<Rightarrow> keyed_limiter \<Rightarrow> bucket \<times> keyed_limiter" where
  "refill key now k =
     (let b = (case kl_buckets k key of None \<Rightarrow> new_bucket (kl_count k) now | Some b \<Rightarrow> b);
          b' = refill_bucket (kl_count k) (kl_interval k) now b
      in (b', k\<lparr>kl_buckets := (kl_buckets k)(key \<mapsto> b')\<rparr>))"

definition keyed_take :: "gotime \<Rightarrow> string \<Rightarrow> keyed_limiter \<Rightarrow> rate_error option \<times> keyed_limiter" where
  "keyed_take now key k =
     (let (b, k1) = refill key now k
      in if 1 \<le> bk_tokens b
         then (None, k1\<lparr>kl_buckets := (kl_buckets k1)(key \<mapsto> b\<lparr>bk_tokens := fsub (bk_tokens b) 1\<rparr>)\<rparr>)
         else (Some ErrRateLimited, k1))"

definition keyed_is_limited :: "gotime \<Rightarrow> string \<Rightarrow> keyed_limiter \<Rightarrow> rate_error option \<times> keyed_limiter" where
  "keyed_is_limited now key k =
     (let (b, k1) = refill key now k
      in if 1 \<le> bk_tokens b then (None, k1) else (Some ErrRateLimited, k1))"

text \<open>One tick of the janitor.\<close>

definition keyed_ttl :: "keyed_limiter \<Rightarrow> int" where
  "keyed_ttl k = (if kl_interval k < go_minute then go_minute else kl_interval k)"

definition janitor_tick :: "gotime \<Rightarrow> keyed_limiter \<Rightarrow> keyed_limiter" where
  "janitor_tick now k =
     k\<lparr>kl_buckets := (\<lambda>key. case kl_buckets k key of
         None \<Rightarrow> None
       | Some b \<Rightarrow> if keyed_ttl k < sub_time now (bk_last_seen b) then None else Some b)\<rparr>"

section \<open>The channel limiter\<close>

text \<open>\<open>li_bucket\<close> is the number of values in the buffered channel, whose capacity is the count.\<close>

record limiter =
  li_count :: nat
  li_bucket :: nat

definition new_limiter :: "nat \<Rightarrow> limiter" where
  "new_limiter count = \<lparr>li_count = count, li_bucket = 0\<rparr>"

definition put_token :: "limiter \<Rightarrow> limiter" where
  "put_token l = (if li_bucket l < li_count l then l\<lparr>li_bucket := li_bucket l + 1\<rparr> else l)"

text \<open>The loop of \<^verbatim>\<open>start\<close>: as many attempts to send as the count.\<close>

definition fill_limiter :: "limiter \<Rightarrow> limiter" where
  "fill_limiter l = (put_token ^^ li_count l) l"

definition limiter_take :: "limiter \<Rightarrow> rate_error option \<times> limiter" where
  "limiter_take l = (if 0 < li_bucket l then (None, l\<lparr>li_bucket := li_bucket l - 1\<rparr>) else (Some ErrRateLimited, l))"

text \<open>
  \<^verbatim>\<open>TakeContext\<close>: which branch of the select is taken when the token and the cancellation are
  both there is the runtime's choice \<open>pick\<close>; \<^const>\<open>None\<close> means that it still waits.
\<close>

definition limiter_take_context :: "bool \<Rightarrow> string option \<Rightarrow> limiter \<Rightarrow> (rate_error option \<times> limiter) option" where
  "limiter_take_context pick ctx l =
     (case ctx of
        None \<Rightarrow> if 0 < li_bucket l then Some (limiter_take l) else None
      | Some e \<Rightarrow>
          if 0 < li_bucket l \<and> pick then Some (limiter_take l) else Some (Some (ErrContext e), l))"

definition limiter_wait_take :: "bool \<Rightarrow> bool \<Rightarrow> limiter \<Rightarrow> (rate_error option \<times> limiter) option" where
  "limiter_wait_take pick timed_out l =
     (if 0 < li_bucket l \<and> (pick \<or> \<not> timed_out) then Some (limiter_take l)
      else if timed_out then Some (Some ErrRateLimited, l) else None)"

text \<open>\<^verbatim>\<open>IsLimited\<close>; \<open>refilled\<close> says whether the refill goroutine ran between the take and the put-back.\<close>

definition limiter_is_limited :: "bool \<Rightarrow> limiter \<Rightarrow> rate_error option \<times> limiter" where
  "limiter_is_limited refilled l =
     (if 0 < li_bucket l
      then (None, put_token ((if refilled then fill_limiter else id) (l\<lparr>li_bucket := li_bucket l - 1\<rparr>)))
      else (Some ErrRateLimited, l))"

section \<open>Facts about buckets\<close>

definition tokens_ok :: "int \<Rightarrow> rat \<Rightarrow> bool" where
  "tokens_ok count t \<longleftrightarrow> 0 \<le> t \<and> t \<le> of_int count \<and> round64 t = t"

definition keyed_ok :: "keyed_limiter \<Rightarrow> bool" where
  "keyed_ok k \<longleftrightarrow> 0 \<le> kl_count k \<and> kl_count k < 2 ^ 53 \<and> 0 \<le> kl_interval k
     \<and> (\<forall>key b. kl_buckets k key = Some b \<longrightarrow> tokens_ok (kl_count k) (bk_tokens b))"

definition keyed_view :: "gotime \<Rightarrow> keyed_limiter \<Rightarrow> string \<Rightarrow> rat" where
  "keyed_view now k key = bk_tokens (fst (refill key now k))"

definition keyed_avail :: "gotime \<Rightarrow> keyed_limiter \<Rightarrow> string \<Rightarrow> nat" where
  "keyed_avail now k key = nat \<lfloor>keyed_view now k key\<rfloor>"

lemma refill_bucket_still:
  "sub_time now (bk_last_fill b) \<le> 0 \<Longrightarrow> refill_bucket c i now b = b\<lparr>bk_last_seen := now\<rparr>"
  by (simp add: refill_bucket_def Let_def)

lemma refill_bucket_filled: "sub_time now (bk_last_fill (refill_bucket c i now b)) \<le> 0"
  by (simp add: refill_bucket_def Let_def)

lemma refill_bucket_seen [simp]: "bk_last_seen (refill_bucket c i now b) = now"
  by (simp add: refill_bucket_def Let_def)

lemma f64_count: "0 \<le> c \<Longrightarrow> c < 2 ^ 53 \<Longrightarrow> f64 c = of_int c \<and> tokens_ok c (f64 c)"
  by (simp add: tokens_ok_def round64_int)

lemma tokens_ok_full: "0 \<le> c \<Longrightarrow> c < 2 ^ 53 \<Longrightarrow> tokens_ok c (of_int c)"
  by (simp add: tokens_ok_def round64_int)

lemma tokens_ok_refill:
  assumes "0 \<le> c" "c < 2 ^ 53" "tokens_ok c (bk_tokens b)"
  shows "tokens_ok c (bk_tokens (refill_bucket c i now b))"
proof (cases "0 < sub_time now (bk_last_fill b)")
  case False
  with assms(3) show ?thesis by (simp add: refill_bucket_still)
next
  case True
  show ?thesis
  proof (cases "i = 0")
    case True
    with \<open>0 < sub_time now (bk_last_fill b)\<close> assms(1,2) show ?thesis
      by (simp add: refill_bucket_def Let_def tokens_ok_full)
  next
    case False
    let ?a = "fmul (fdiv (dur_seconds (sub_time now (bk_last_fill b))) (dur_seconds i)) (f64 c)"
    have t: "bk_tokens (refill_bucket c i now b) = min (f64 c) (fadd (bk_tokens b) ?a)"
      using True False by (simp add: refill_bucket_def Let_def)
    have "0 \<le> fadd (bk_tokens b) ?a" "round64 (fadd (bk_tokens b) ?a) = fadd (bk_tokens b) ?a"
      by (simp_all add: fadd_def)
    with assms(1,2) show ?thesis unfolding t tokens_ok_def
      by (cases "f64 c \<le> fadd (bk_tokens b) ?a") (simp_all add: min_def round64_int)
  qed
qed

lemma refill_unfold:
  "refill key now k =
     (let b' = refill_bucket (kl_count k) (kl_interval k) now
                 (case kl_buckets k key of None \<Rightarrow> new_bucket (kl_count k) now | Some b \<Rightarrow> b)
      in (b', k\<lparr>kl_buckets := (kl_buckets k)(key \<mapsto> b')\<rparr>))"
  by (simp add: refill_def Let_def)

lemma view_ok: "keyed_ok k \<Longrightarrow> tokens_ok (kl_count k) (keyed_view now k key)"
  unfolding keyed_view_def refill_unfold Let_def fst_conv
  by (rule tokens_ok_refill)
     (auto simp: keyed_ok_def new_bucket_def tokens_ok_full split: option.splits)

lemma view_bucket:
  "kl_buckets k key = Some b \<Longrightarrow> keyed_view now k key = bk_tokens (refill_bucket (kl_count k) (kl_interval k) now b)"
  by (simp add: keyed_view_def refill_unfold Let_def)

lemma view_new: "kl_buckets k key = None \<Longrightarrow> keyed_view now k key = f64 (kl_count k)"
  by (simp add: keyed_view_def refill_unfold Let_def refill_bucket_still new_bucket_def)

lemma view_cong:
  "kl_buckets k key = kl_buckets k' key \<Longrightarrow> kl_count k = kl_count k' \<Longrightarrow> kl_interval k = kl_interval k' \<Longrightarrow>
     keyed_view now k key = keyed_view now k' key"
  by (simp add: keyed_view_def refill_unfold Let_def split: option.split)

lemma keyed_take_blocked: "\<not> 1 \<le> keyed_view now k key \<Longrightarrow> snd (keyed_take now key k) = snd (refill key now k)"
  by (cases "refill key now k") (simp add: keyed_take_def keyed_view_def)

text \<open>Both operations in terms of the view.\<close>

lemma keyed_is_limited_view:
  "fst (keyed_is_limited now key k) = (if 1 \<le> keyed_view now k key then None else Some ErrRateLimited)"
  "snd (keyed_is_limited now key k) = snd (refill key now k)"
  by (simp_all add: keyed_is_limited_def keyed_view_def split: prod.split)

lemma keyed_take_view:
  "fst (keyed_take now key k) = (if 1 \<le> keyed_view now k key then None else Some ErrRateLimited)"
  by (simp add: keyed_take_def keyed_view_def split: prod.split)

lemma view_after_refill: "keyed_view now (snd (refill key' now k)) key = keyed_view now k key"
proof (cases "key' = key")
  case True
  let ?b = "fst (refill key now k)"
  have "keyed_view now (snd (refill key' now k)) key = bk_tokens (refill_bucket (kl_count k) (kl_interval k) now ?b)"
    by (subst view_bucket[where b = ?b]) (simp_all add: refill_unfold Let_def True)
  also have "\<dots> = bk_tokens ?b"
    by (subst refill_bucket_still) (simp_all add: refill_unfold Let_def refill_bucket_filled)
  finally show ?thesis by (simp add: keyed_view_def)
next
  case False
  then show ?thesis by (intro view_cong) (simp_all add: refill_unfold Let_def)
qed

lemma view_after_take:
  assumes "keyed_ok k"
  shows "keyed_view now (snd (keyed_take now key' k)) key =
    (if key = key' \<and> 1 \<le> keyed_view now k key then keyed_view now k key - 1 else keyed_view now k key)"
proof (cases "1 \<le> keyed_view now k key'")
  case False
  then have "snd (keyed_take now key' k) = snd (refill key' now k)" by (rule keyed_take_blocked)
  with False show ?thesis by (auto simp: view_after_refill)
next
  case True
  let ?b = "fst (refill key' now k)"
  have s: "snd (keyed_take now key' k) = (snd (refill key' now k))
      \<lparr>kl_buckets := (kl_buckets (snd (refill key' now k)))(key' \<mapsto> ?b\<lparr>bk_tokens := fsub (bk_tokens ?b) 1\<rparr>)\<rparr>"
    using True by (cases "refill key' now k") (simp add: keyed_take_def keyed_view_def)
  show ?thesis
  proof (cases "key = key'")
    case eq: True
    have "keyed_view now (snd (keyed_take now key' k)) key
        = bk_tokens (refill_bucket (kl_count k) (kl_interval k) now (?b\<lparr>bk_tokens := fsub (bk_tokens ?b) 1\<rparr>))"
      unfolding s by (subst view_bucket[where b = "?b\<lparr>bk_tokens := fsub (bk_tokens ?b) 1\<rparr>"])
        (simp_all add: eq refill_unfold Let_def)
    also have "\<dots> = fsub (bk_tokens ?b) 1"
      by (subst refill_bucket_still) (simp_all add: refill_unfold Let_def refill_bucket_filled)
    also have "\<dots> = bk_tokens ?b - 1"
    proof (rule fsub_one)
      have v: "tokens_ok (kl_count k) (bk_tokens ?b)" using view_ok[OF assms] by (simp only: keyed_view_def)
      then show "round64 (bk_tokens ?b) = bk_tokens ?b" by (simp only: tokens_ok_def)
      show "1 \<le> bk_tokens ?b" using True by (simp only: keyed_view_def)
      have "bk_tokens ?b \<le> of_int (kl_count k)" using v by (simp only: tokens_ok_def)
      moreover have "kl_count k < 2 ^ 53" using assms by (simp only: keyed_ok_def)
      then have "(of_int (kl_count k) :: rat) < of_int (2 ^ 53)" by (simp only: of_int_less_iff)
      ultimately show "bk_tokens ?b < 2 ^ 53" by simp
    qed
    finally show ?thesis using True eq by (simp add: keyed_view_def)
  next
    case False
    then show ?thesis unfolding s
      by (subst view_cong[of _ key k]) (simp_all add: refill_unfold Let_def)
  qed
qed

lemma ok_refill: "keyed_ok k \<Longrightarrow> keyed_ok (snd (refill key now k))"
proof -
  assume ok: "keyed_ok k"
  have "tokens_ok (kl_count k) (bk_tokens (fst (refill key now k)))"
    using view_ok[OF ok] by (simp only: keyed_view_def)
  with ok show ?thesis by (auto simp: keyed_ok_def refill_unfold Let_def)
qed

lemma ok_take:
  assumes ok: "keyed_ok k"
  shows "keyed_ok (snd (keyed_take now key k))"
proof (cases "1 \<le> keyed_view now k key")
  case False
  then have "snd (keyed_take now key k) = snd (refill key now k)" by (rule keyed_take_blocked)
  with ok_refill[OF ok] show ?thesis by simp
next
  case True
  let ?b = "fst (refill key now k)"
  have t: "tokens_ok (kl_count k) (bk_tokens ?b)" using view_ok[OF ok] by (simp only: keyed_view_def)
  then have "tokens_ok (kl_count k) (fsub (bk_tokens ?b) 1)"
  proof -
    have b: "bk_tokens ?b \<le> of_int (kl_count k)" "0 \<le> kl_count k" "kl_count k < 2 ^ 53"
      using t ok by (simp_all add: tokens_ok_def keyed_ok_def)
    have "fsub (bk_tokens ?b) 1 \<le> of_int (kl_count k)"
      unfolding fsub_def by (rule round64_le_int) (use b in simp_all)
    then show ?thesis by (simp add: tokens_ok_def fsub_def)
  qed
  with ok True show ?thesis
    by (auto simp: keyed_ok_def keyed_take_def keyed_view_def refill_unfold Let_def split: if_splits)
qed

interpretation kl: rate_limiter keyed_ok "keyed_avail now" "keyed_take now" "keyed_is_limited now"
  for now
proof
  fix s :: keyed_limiter and k k' :: string
  assume ok: "keyed_ok s"
  show "keyed_ok (snd (keyed_take now k s))" using ok by (rule ok_take)
  show "keyed_ok (snd (keyed_is_limited now k s))" using ok by (simp add: keyed_is_limited_view ok_refill)
  have pos: "0 < keyed_avail now s k \<longleftrightarrow> 1 \<le> keyed_view now s k" for k
    by (simp add: keyed_avail_def)
  show "(fst (keyed_take now k s) = None) = (0 < keyed_avail now s k)"
    by (simp add: keyed_take_view pos)
  show "(fst (keyed_is_limited now k s) = None) = (0 < keyed_avail now s k)"
    by (simp add: keyed_is_limited_view pos)
  show "keyed_avail now (snd (keyed_is_limited now k s)) k' = keyed_avail now s k'"
    by (simp add: keyed_avail_def keyed_is_limited_view view_after_refill)
  have v: "0 \<le> keyed_view now s k" using view_ok[OF ok] by (simp only: tokens_ok_def)
  show "keyed_avail now (snd (keyed_take now k s)) k' = (if k' = k then keyed_avail now s k - 1 else keyed_avail now s k')"
    using v by (auto simp: keyed_avail_def view_after_take[OF ok] nat_diff_distrib')
qed

section \<open>Eviction\<close>

lemma dur_seconds_mono:
  assumes "0 \<le> d" "d \<le> d'" "d' \<le> max_int64"
  shows "dur_seconds d \<le> dur_seconds d'"
proof -
  let ?q = "d div go_second" and ?q' = "d' div go_second"
  let ?f = "\<lambda>d. fdiv (f64 (d mod go_second)) (f64 1000000000)"
  have bound: "0 \<le> x div go_second \<and> x div go_second < 2 ^ 53" if "0 \<le> x" "x \<le> max_int64" for x
    using that by (simp add: go_second_def max_int64_def) linarith
  have le: "?q \<le> ?q'" using assms(2) by (simp add: go_second_def zdiv_mono1)
  have f1: "?f x \<le> 1" for x
  proof -
    have "x mod go_second < 1000000000" "0 \<le> x mod go_second" by (simp_all add: go_second_def)
    then have "f64 (x mod go_second) / f64 1000000000 \<le> of_int 1" by simp
    then show ?thesis unfolding fdiv_def using round64_le_int[of 1] by fastforce
  qed
  have f0: "0 \<le> ?f x" for x by (simp add: fdiv_def)
  have eq: "f64 ?q = of_int ?q" "f64 ?q' = of_int ?q'"
    using bound[of d] bound[of d'] assms by (intro f64_int; simp)+
  show ?thesis
  proof (cases "?q = ?q'")
    case True
    have "d mod go_second \<le> d' mod go_second"
      unfolding minus_div_mult_eq_mod[symmetric] True using assms(2) by simp
    then have "f64 (d mod go_second) \<le> f64 (d' mod go_second)" by (rule f64_mono)
    then have "?f d \<le> ?f d'" unfolding fdiv_def by (intro round64_mono divide_right_mono) simp_all
    then show ?thesis unfolding dur_seconds_def fadd_def True by (intro round64_mono add_left_mono)
  next
    case False
    with le have "?q + 1 \<le> ?q'" by linarith
    then have "(of_int ?q + 1 :: rat) \<le> of_int ?q'" by linarith
    then have "f64 ?q + ?f d \<le> f64 ?q' + ?f d'" unfolding eq using f1[of d] f0[of d'] by linarith
    then show ?thesis unfolding dur_seconds_def fadd_def by (rule round64_mono)
  qed
qed

lemma dur_seconds_pos:
  assumes "0 < d" "d \<le> max_int64"
  shows "0 < dur_seconds d"
proof (cases "d div go_second = 0")
  case True
  then have m: "d mod go_second = d" "d < go_second"
    using assms(1) by (simp_all add: go_second_def zdiv_eq_0_iff)
  have "0 < f64 d" using assms m(2) by (simp add: go_second_def)
  then have "0 < fdiv (f64 d) (f64 1000000000)" unfolding fdiv_def by (intro round64_pos) simp
  then show ?thesis unfolding dur_seconds_def fadd_def True m(1)
    by (intro round64_pos) simp
next
  case False
  with assms have q: "0 < d div go_second" "d div go_second < 2 ^ 53"
    by (simp_all add: go_second_def max_int64_def zdiv_eq_0_iff pos_imp_zdiv_pos_iff)
  then have "0 < f64 (d div go_second)" by simp
  moreover have "0 \<le> fdiv (f64 (d mod go_second)) (f64 1000000000)" by (simp add: fdiv_def)
  ultimately show ?thesis unfolding dur_seconds_def fadd_def by (intro round64_pos) linarith
qed

text \<open>A bucket left alone for at least the interval is full again.\<close>

lemma refill_full:
  assumes "0 \<le> c" "c < 2 ^ 53" "0 \<le> i" "i \<le> sub_time now (bk_last_fill b)" "0 < sub_time now (bk_last_fill b)"
    and "0 \<le> bk_tokens b"
  shows "bk_tokens (refill_bucket c i now b) = f64 c"
proof (cases "i = 0")
  case True
  with assms(5) show ?thesis by (simp add: refill_bucket_def Let_def)
next
  case False
  let ?e = "sub_time now (bk_last_fill b)"
  have e: "?e \<le> max_int64" using sub_time_range[of now "bk_last_fill b"] by (simp add: in_i64_def)
  have i: "0 < dur_seconds i" using False assms(3,4) e by (intro dur_seconds_pos) auto
  have "dur_seconds i \<le> dur_seconds ?e" using assms(3,4) e by (intro dur_seconds_mono)
  with i have "of_int 1 \<le> dur_seconds ?e / dur_seconds i" by (simp add: field_simps)
  then have "of_int 1 \<le> fdiv (dur_seconds ?e) (dur_seconds i)"
    unfolding fdiv_def by (intro round64_ge_int) simp_all
  then have "of_int c \<le> fdiv (dur_seconds ?e) (dur_seconds i) * f64 c"
    using assms(1,2) mult_right_mono[of 1 "fdiv (dur_seconds ?e) (dur_seconds i)" "of_int c"] by simp
  then have "of_int c \<le> fmul (fdiv (dur_seconds ?e) (dur_seconds i)) (f64 c)"
    unfolding fmul_def by (intro round64_ge_int assms)
  then have "of_int c \<le> bk_tokens b + fmul (fdiv (dur_seconds ?e) (dur_seconds i)) (f64 c)"
    using assms(6) by linarith
  then have "of_int c \<le> fadd (bk_tokens b) (fmul (fdiv (dur_seconds ?e) (dur_seconds i)) (f64 c))"
    unfolding fadd_def by (intro round64_ge_int assms)
  with assms(1,2,5) False show ?thesis by (simp add: refill_bucket_def Let_def min_def)
qed

section \<open>Properties\<close>

definition sample_keyed :: keyed_limiter where
  "sample_keyed = \<lparr>kl_count = 2, kl_interval = go_minute,
     kl_buckets = [''a'' \<mapsto> \<lparr>bk_tokens = 1, bk_last_fill = 0, bk_last_seen = 0\<rparr>]\<rparr>"

lemma sample_keyed_ok: "keyed_ok sample_keyed"
  using round64_int[of 1] by (simp add: keyed_ok_def sample_keyed_def go_minute_def go_second_def tokens_ok_def)

text \<open>
  C12: While the clock stands still, any run of takes on any keys grants to a key exactly as many as
  it has whole tokens, at most the configured count, whatever the other keys do; the float64
  arithmetic loses nothing.
\<close>
theorem keyed_burst_exact:
  assumes "keyed_ok k"
  shows "kl.granted now key keys k = min (keyed_avail now k key) (count_list keys key)
    \<and> int (keyed_avail now k key) \<le> kl_count k"
proof -
  have "keyed_view now k key \<le> of_int (kl_count k)" using view_ok[OF assms] by (simp only: tokens_ok_def)
  then have "\<lfloor>keyed_view now k key\<rfloor> \<le> kl_count k" by (simp add: floor_le_iff)
  moreover have "0 \<le> kl_count k" using assms by (simp add: keyed_ok_def)
  ultimately show ?thesis using kl.granted_exact[OF assms] by (simp add: keyed_avail_def)
qed

lemma keyed_burst_exact_witness:
  "kl.granted 0 ''a'' [''a'', ''b'', ''a''] sample_keyed = 1"
proof -
  have "keyed_avail 0 sample_keyed ''a'' = 1"
    by (simp add: keyed_avail_def keyed_view_def refill_unfold Let_def sample_keyed_def refill_bucket_still)
  with keyed_burst_exact[OF sample_keyed_ok, of 0 "''a''" "[''a'', ''b'', ''a'']"] show ?thesis by simp
qed

text \<open>
  Eviction is invisible.  When every bucket was last seen no earlier than it was last filled, a
  tick of the janitor changes nothing that a later call can observe: every key has the same tokens
  before and after it, so every later take and test answers the same.
\<close>
theorem janitor_invisible:
  assumes "keyed_ok k" "\<forall>key b. kl_buckets k key = Some b \<longrightarrow> bk_last_fill b \<le> bk_last_seen b" "t \<le> now"
  shows "keyed_view now (janitor_tick t k) key = keyed_view now k key
    \<and> fst (keyed_take now key (janitor_tick t k)) = fst (keyed_take now key k)
    \<and> fst (keyed_is_limited now key (janitor_tick t k)) = fst (keyed_is_limited now key k)"
proof -
  have "keyed_view now (janitor_tick t k) key = keyed_view now k key"
  proof (cases "kl_buckets (janitor_tick t k) key = kl_buckets k key")
    case True
    then show ?thesis by (intro view_cong) (simp_all add: janitor_tick_def)
  next
    case False
    then obtain b where b: "kl_buckets k key = Some b" "keyed_ttl k < sub_time t (bk_last_seen b)"
      "kl_buckets (janitor_tick t k) key = None"
      by (auto simp: janitor_tick_def split: option.splits if_splits)
    have "sub_time t (bk_last_seen b) \<le> sub_time now (bk_last_fill b)"
      using assms(2,3) b(1) by (intro sub_time_mono) auto
    moreover have "kl_interval k \<le> keyed_ttl k" "0 < keyed_ttl k"
      by (simp_all add: keyed_ttl_def go_minute_def go_second_def)
    ultimately have "kl_interval k \<le> sub_time now (bk_last_fill b)" "0 < sub_time now (bk_last_fill b)"
      using b(2) by linarith+
    then have "keyed_view now k key = f64 (kl_count k)"
      using assms(1) b(1) by (subst view_bucket[OF b(1)], intro refill_full) (auto simp: keyed_ok_def tokens_ok_def)
    moreover have "keyed_view now (janitor_tick t k) key = f64 (kl_count k)"
      using view_new[OF b(3)] by (simp add: janitor_tick_def)
    ultimately show ?thesis by simp
  qed
  then show ?thesis by (simp add: keyed_take_view keyed_is_limited_view)
qed

lemma janitor_invisible_witness:
  "kl_buckets (janitor_tick (2 * go_minute) sample_keyed) ''a'' = None
    \<and> keyed_view (2 * go_minute) (janitor_tick (2 * go_minute) sample_keyed) ''a''
        = keyed_view (2 * go_minute) sample_keyed ''a''"
proof -
  have "\<forall>key b. kl_buckets sample_keyed key = Some b \<longrightarrow> bk_last_fill b \<le> bk_last_seen b"
    by (simp add: sample_keyed_def)
  from janitor_invisible[OF sample_keyed_ok this order.refl, of "2 * go_minute" "''a''"] show ?thesis
    by (simp add: janitor_tick_def sample_keyed_def keyed_ttl_def go_minute_def go_second_def sub_time_def
        min_int64_def max_int64_def)
qed

section \<open>The channel limiter provides the same interface\<close>

definition limiter_ok :: "limiter \<Rightarrow> bool" where
  "limiter_ok l \<longleftrightarrow> li_bucket l \<le> li_count l"

lemma put_token_ok: "limiter_ok l \<Longrightarrow> limiter_ok (put_token l)"
  by (simp add: limiter_ok_def put_token_def)

lemma put_token_bucket: "limiter_ok l \<Longrightarrow> li_bucket (put_token l) = min (li_count l) (li_bucket l + 1)"
  by (simp add: limiter_ok_def put_token_def)

lemma put_tokens: "limiter_ok l \<Longrightarrow>
    limiter_ok ((put_token ^^ n) l) \<and> li_count ((put_token ^^ n) l) = li_count l
    \<and> li_bucket ((put_token ^^ n) l) = min (li_count l) (li_bucket l + n)"
proof (induction n)
  case 0
  then show ?case by (simp add: limiter_ok_def)
next
  case (Suc n)
  then show ?case by (auto simp: limiter_ok_def put_token_def)
qed

lemma fill_limiter_full: "limiter_ok l \<Longrightarrow> li_bucket (fill_limiter l) = li_count l \<and> limiter_ok (fill_limiter l)"
  using put_tokens[of l "li_count l"] by (simp add: fill_limiter_def)

interpretation li: rate_limiter limiter_ok "\<lambda>l (_::unit). li_bucket l" "\<lambda>_. limiter_take"
  "\<lambda>_. limiter_is_limited False"
  by unfold_locales (auto simp: limiter_ok_def limiter_take_def limiter_is_limited_def put_token_def)

text \<open>\<^verbatim>\<open>IsLimited\<close> never blocks and never lets the bucket exceed its capacity, even when the refill runs in between.\<close>

lemma is_limited_bounded: "limiter_ok l \<Longrightarrow> limiter_ok (snd (limiter_is_limited r l))"
proof -
  assume ok: "limiter_ok l"
  then have "limiter_ok (l\<lparr>li_bucket := li_bucket l - 1\<rparr>)" by (simp add: limiter_ok_def)
  with ok show ?thesis
    using fill_limiter_full by (simp add: limiter_is_limited_def put_token_ok)
qed

text \<open>The bucket is filled by the goroutine: a call that comes before it is refused although nothing was taken yet.\<close>

lemma new_limiter_refuses: "fst (limiter_take (new_limiter count)) = Some ErrRateLimited"
  by (simp add: limiter_take_def new_limiter_def)

lemma new_limiter_filled: "0 < count \<Longrightarrow> fst (limiter_take (fill_limiter (new_limiter count))) = None"
proof -
  assume "0 < count"
  moreover have "limiter_ok (new_limiter count)" by (simp add: limiter_ok_def new_limiter_def)
  then have "li_bucket (fill_limiter (new_limiter count)) = count"
    using fill_limiter_full by (simp add: new_limiter_def)
  ultimately show ?thesis by (simp add: limiter_take_def)
qed

end
