(* ===== verification/AuthCore.thy ===== *)
theory AuthCore
  imports GoText "HOL-Library.Word"
begin

text \<open>
  Package \<^verbatim>\<open>auth\<close> (\<^verbatim>\<open>auth/main.go\<close>): who is logged in and what roles they have.  A role is a set
  of bits in a 32-bit word.  The request context either carries a user or does not.
\<close>

unbundle bit_operations_syntax

type_synonym role = "32 word"

record user_info =
  ui_tz :: int
  ui_user :: int
  ui_company :: int
  ui_role :: role
  ui_extra :: "(string \<times> string) list"
  ui_token_type :: string
  ui_expires :: "int option"

definition token_type_access :: string where "token_type_access = ''access''"
definition token_type_refresh :: string where "token_type_refresh = ''refresh''"

definition role_public :: role where "role_public = 0"
definition role_any :: role where "role_any = 4294967295"

type_synonym auth_ctx = "user_info option"

definition current :: "auth_ctx \<Rightarrow> user_info option" where "current ctx = ctx"
definition is_authenticated :: "auth_ctx \<Rightarrow> bool" where "is_authenticated ctx = (ctx \<noteq> None)"

definition auth_company :: "auth_ctx \<Rightarrow> int" where
  "auth_company ctx = (case current ctx of None \<Rightarrow> - 1 | Some u \<Rightarrow> ui_company u)"

definition auth_user :: "auth_ctx \<Rightarrow> int" where
  "auth_user ctx = (case current ctx of None \<Rightarrow> - 1 | Some u \<Rightarrow> ui_user u)"

definition company_null :: "auth_ctx \<Rightarrow> int option" where
  "company_null ctx = (let i = auth_company ctx in if i \<le> 0 then None else Some i)"

definition user_null :: "auth_ctx \<Rightarrow> int option" where
  "user_null ctx = (if \<not> is_authenticated ctx then None else Some (auth_user ctx))"

definition auth_role :: "auth_ctx \<Rightarrow> role" where
  "auth_role ctx = (case current ctx of None \<Rightarrow> 0 | Some u \<Rightarrow> ui_role u)"

definition has_role :: "auth_ctx \<Rightarrow> role \<Rightarrow> bool" where
  "has_role ctx r =
     (if \<not> is_authenticated ctx then r AND role_public \<noteq> 0
      else auth_role ctx AND r \<noteq> 0)"

definition set_user :: "auth_ctx \<Rightarrow> user_info \<Rightarrow> auth_ctx" where
  "set_user ctx u = Some u"

definition role_bit :: "nat \<Rightarrow> role" where
  "role_bit i = push_bit i 1"

text \<open>The loop of \<^verbatim>\<open>SplitRole\<close> from bit \<open>i\<close>; \<open>n\<close> bits are left.\<close>

fun split_role_loop :: "nat \<Rightarrow> nat \<Rightarrow> role \<Rightarrow> role list" where
  "split_role_loop 0 i r = []"
| "split_role_loop (Suc n) i r =
     (let test_role = role_bit i
      in if r AND test_role \<noteq> 0 then test_role # split_role_loop n (Suc i) r
         else split_role_loop n (Suc i) r)"

definition split_role :: "role \<Rightarrow> role list" where
  "split_role r = split_role_loop 32 0 r"

section \<open>Facts\<close>

lemma bit_role_bit: "bit (role_bit j) i \<longleftrightarrow> i = j \<and> j < 32"
  by (auto simp: role_bit_def bit_exp_iff)

lemma role_bit_lt: "bit (r :: role) i \<Longrightarrow> i < 32"
  using bit_imp_le_length[of r i] by simp

lemma word_nonzero_bit: "(w :: role) \<noteq> 0 \<longleftrightarrow> (\<exists>i. bit w i)"
  using role_bit_lt[of w] by (auto simp: bit_eq_iff)

lemma and_bit_iff: "r AND role_bit i \<noteq> 0 \<longleftrightarrow> bit r i"
  using role_bit_lt[of r i] by (auto simp: word_nonzero_bit bit_and_iff bit_role_bit)

lemma split_role_loop_map:
  "split_role_loop n i r = map (\<lambda>j. role_bit j) (filter (bit r) [i ..< i + n])"
proof (induction n arbitrary: i)
  case 0
  then show ?case by simp
next
  case (Suc n)
  have "[i ..< i + Suc n] = i # [Suc i ..< Suc i + n]" by (simp add: upt_conv_Cons del: upt_Suc)
  then show ?case using Suc.IH[of "Suc i"] by (simp add: Let_def and_bit_iff del: upt_Suc)
qed

lemma bit_fold_or: "bit (fold (OR) rs (a :: role)) i \<longleftrightarrow> bit a i \<or> (\<exists>r\<in>set rs. bit r i)"
  by (induction rs arbitrary: a) (auto simp: bit_or_iff)

text \<open>
  \<^verbatim>\<open>SplitRole\<close> takes a role apart: the parts are pairwise different single bits, in increasing
  order of their bit, their union is the role, and a user has a role exactly when they have one of
  its parts.
\<close>
theorem split_role_correct:
  "fold (OR) (split_role r) 0 = r
    \<and> (\<forall>p. p \<in> set (split_role r) \<longleftrightarrow> (\<exists>i<32. p = role_bit i \<and> bit r i))
    \<and> length (split_role r) = card {i. bit r i}
    \<and> (has_role (Some u) r \<longleftrightarrow> (\<exists>p\<in>set (split_role r). has_role (Some u) p))"
proof -
  have sr: "split_role r = map (\<lambda>j. role_bit j) (filter (bit r) [0 ..< 32])"
    by (simp add: split_role_def split_role_loop_map)
  have lt: "bit r i \<Longrightarrow> i < 32" for i using bit_imp_le_length[of r i] by simp
  have "fold (OR) (split_role r) 0 = r"
    by (rule bit_eqI) (auto simp: bit_fold_or sr bit_role_bit dest: lt)
  moreover have parts: "p \<in> set (split_role r) \<longleftrightarrow> (\<exists>i<32. p = role_bit i \<and> bit r i)" for p
    by (auto simp: sr)
  moreover have "length (split_role r) = card {i. bit r i}"
  proof -
    have "length (split_role r) = card (set (filter (bit r) [0 ..< 32]))"
      by (simp add: sr distinct_card del: set_filter)
    also have "set (filter (bit r) [0 ..< 32]) = {i. bit r i}" using lt by auto
    finally show ?thesis .
  qed
  moreover have "has_role (Some u) r \<longleftrightarrow> (\<exists>p\<in>set (split_role r). has_role (Some u) p)"
  proof -
    have hr: "has_role (Some u) q \<longleftrightarrow> (\<exists>i. bit (ui_role u) i \<and> bit q i)" for q
      by (simp add: has_role_def is_authenticated_def auth_role_def current_def word_nonzero_bit bit_and_iff)
    show ?thesis
    proof
      assume "has_role (Some u) r"
      then obtain i where i: "bit (ui_role u) i" "bit r i" by (auto simp: hr)
      then have "role_bit i \<in> set (split_role r)" using lt[of i] by (auto simp: parts)
      moreover have "has_role (Some u) (role_bit i)" using i lt[of i] by (auto simp: hr bit_role_bit)
      ultimately show "\<exists>p\<in>set (split_role r). has_role (Some u) p" by blast
    next
      assume "\<exists>p\<in>set (split_role r). has_role (Some u) p"
      then show "has_role (Some u) r" by (auto simp: parts hr bit_role_bit) blast
    qed
  qed
  ultimately show ?thesis by blast
qed

text \<open>
  \<^verbatim>\<open>Public\<close> is the first \<^verbatim>\<open>iota\<close>, so it is zero: the test against it can never succeed, and
  nobody, logged in or not, has the public role.
\<close>
lemma nobody_has_public: "\<not> has_role ctx role_public" "\<not> has_role None r"
  by (simp_all add: has_role_def role_public_def is_authenticated_def)

lemma any_role_means_some_bit: "has_role (Some u) role_any \<longleftrightarrow> ui_role u \<noteq> 0"
proof -
  have "role_any = - 1" by (simp add: role_any_def)
  then have "ui_role u AND role_any = ui_role u" by (metis bit.conj_one_right)
  then show ?thesis by (simp add: has_role_def is_authenticated_def auth_role_def current_def)
qed

lemma null_ids: "company_null ctx = Some i \<Longrightarrow> 0 < i" "user_null None = None" "user_null (Some u) = Some (ui_user u)"
  by (auto simp: company_null_def user_null_def auth_user_def current_def is_authenticated_def Let_def split: if_splits)

end
