(* ===== verification/RandomText.thy ===== *)
theory RandomText
  imports GoText
begin

text \<open>
  Package \<^verbatim>\<open>random\<close> (\<^verbatim>\<open>random/main.go\<close>).  The operating system's source of random bytes is a list of
  outcomes of \<^verbatim>\<open>rand.Read\<close>, in the order of the calls: an error, or the bytes of the whole buffer.
  A result of \<^const>\<open>None\<close> means that the outcomes are used up and the loop would read on.
\<close>

section \<open>Strings over a character set\<close>

definition max_unbiased :: "nat \<Rightarrow> nat" where
  "max_unbiased n = 256 - 256 mod n"

text \<open>The loop over one buffer: \<open>b\<close> is what is filled so far.\<close>

fun fill_chars :: "string \<Rightarrow> nat \<Rightarrow> string \<Rightarrow> nat list \<Rightarrow> string" where
  "fill_chars charset n b [] = b"
| "fill_chars charset n b (v # vs) =
     (if max_unbiased (length charset) \<le> v then fill_chars charset n b vs
      else let b' = b @ [charset ! (v mod length charset)]
           in if length b' = n then b' else fill_chars charset n b' vs)"

fun random_loop :: "string \<Rightarrow> nat \<Rightarrow> string \<Rightarrow> (string + nat list) list \<Rightarrow> (string + string) option" where
  "random_loop charset n b batches =
     (if length b < n then
        (case batches of
           [] \<Rightarrow> None
         | Inl e # _ \<Rightarrow> Some (Inl e)
         | Inr buf # rest \<Rightarrow> random_loop charset n (fill_chars charset n b buf) rest)
      else Some (Inr b))"

declare random_loop.simps [simp del]

definition random_string :: "(string + nat list) list \<Rightarrow> nat \<Rightarrow> string \<Rightarrow> (string + string) option" where
  "random_string batches n charset =
     (if length charset = 0 then Some (Inl ''random: charset must not be empty'')
      else if 256 < length charset then Some (Inl ''random: charset must be <= 256 chars for byte-based sampling'')
      else random_loop charset n [] batches)"

definition numeric_charset :: string where "numeric_charset = ''0123456789''"
definition hex_charset :: string where "hex_charset = ''0123456789abcdef''"
definition lower_alnum_charset :: string where "lower_alnum_charset = ''0123456789abcdefghijklmnopqrstuvwxyz''"
definition alnum_charset :: string where
  "alnum_charset = ''0123456789abcdefghijklmnopqrstuvwxyzABCDEFGHIJKLMNOPQRSTUVWXYZ''"

definition get_numeric_chars :: "(string + nat list) list \<Rightarrow> nat \<Rightarrow> (string + string) option" where
  "get_numeric_chars batches n = random_string batches n numeric_charset"
definition get_hex_chars :: "(string + nat list) list \<Rightarrow> nat \<Rightarrow> (string + string) option" where
  "get_hex_chars batches n = random_string batches n hex_charset"
definition get_lower_alnum_chars :: "(string + nat list) list \<Rightarrow> nat \<Rightarrow> (string + string) option" where
  "get_lower_alnum_chars batches n = random_string batches n lower_alnum_charset"
definition get_alnum_chars :: "(string + nat list) list \<Rightarrow> nat \<Rightarrow> (string + string) option" where
  "get_alnum_chars batches n = random_string batches n alnum_charset"

section \<open>Numbers\<close>

text \<open>
  \<^verbatim>\<open>Int\<close>: \<open>draw\<close> is \<^verbatim>\<open>rand.Int\<close> for a positive bound; for another bound the library panics,
  which is \<^const>\<open>None\<close>.
\<close>

definition random_int :: "(int \<Rightarrow> string + int) \<Rightarrow> int \<Rightarrow> int \<Rightarrow> (string + int) option" where
  "random_int draw lo hi =
     (if hi \<le> lo then Some (Inl ''random: max must be greater than min'')
      else let diff = i64 (hi - lo)
           in if diff \<le> 0 then None
              else (case draw diff of
                  Inl e \<Rightarrow> Some (Inl e)
                | Inr v \<Rightarrow> Some (Inr (i64 (lo + v)))))"

section \<open>Facts\<close>

definition accepted :: "string \<Rightarrow> nat list \<Rightarrow> nat list" where
  "accepted charset vs = filter (\<lambda>v. v < max_unbiased (length charset)) vs"

definition char_for :: "string \<Rightarrow> nat \<Rightarrow> char" where
  "char_for charset v = charset ! (v mod length charset)"

lemma accepted_simps [simp]:
  "accepted cs [] = []"
  "accepted cs (v # vs) = (if max_unbiased (length cs) \<le> v then accepted cs vs else v # accepted cs vs)"
  "accepted cs (vs @ ws) = accepted cs vs @ accepted cs ws"
  by (auto simp: accepted_def)

lemma fill_chars_eq:
  "length b < n \<Longrightarrow> fill_chars cs n b vs = b @ map (char_for cs) (take (n - length b) (accepted cs vs))"
proof (induction cs n b vs rule: fill_chars.induct)
  case (1 cs n b)
  then show ?case by simp
next
  case (2 cs n b v vs)
  show ?case
  proof (cases "max_unbiased (length cs) \<le> v")
    case True
    with 2 show ?thesis by simp
  next
    case False
    obtain k where k: "n - length b = Suc k" using 2(3) by (metis Suc_diff_Suc)
    show ?thesis
    proof (cases "Suc (length b) = n")
      case True
      then have "k = 0" using k by simp
      with False True k show ?thesis by (simp add: char_for_def)
    next
      case neq: False
      then have "Suc (length b) < n" using 2(3) by simp
      moreover have "n - Suc (length b) = k" using k by simp
      ultimately show ?thesis using 2(2)[OF False refl] False neq k by (simp add: char_for_def)
    qed
  qed
qed

lemma random_loop_exact:
  "length b < n \<Longrightarrow> n - length b \<le> length (accepted cs (concat bufs)) \<Longrightarrow>
     random_loop cs n b (map Inr bufs) = Some (Inr (b @ map (char_for cs) (take (n - length b) (accepted cs (concat bufs)))))"
proof (induction bufs arbitrary: b)
  case Nil
  then show ?case by simp
next
  case (Cons buf bufs)
  let ?a = "accepted cs buf" and ?b = "fill_chars cs n b buf"
  have b: "?b = b @ map (char_for cs) (take (n - length b) ?a)" by (rule fill_chars_eq[OF Cons.prems(1)])
  have step: "random_loop cs n b (map Inr (buf # bufs)) = random_loop cs n ?b (map Inr bufs)"
    using Cons.prems(1) by (subst random_loop.simps) simp
  show ?case
  proof (cases "n - length b \<le> length ?a")
    case True
    then have "length ?b = n" using Cons.prems(1) by (simp add: b min_def)
    then have "random_loop cs n ?b (map Inr bufs) = Some (Inr ?b)" by (subst random_loop.simps) simp
    with True step b show ?thesis by simp
  next
    case False
    then have l: "length ?b = length b + length ?a" by (simp add: b)
    with False have "length ?b < n" "n - length ?b \<le> length (accepted cs (concat bufs))"
      using Cons.prems by auto
    from Cons.IH[OF this] have "random_loop cs n ?b (map Inr bufs)
        = Some (Inr (?b @ map (char_for cs) (take (n - length ?b) (accepted cs (concat bufs)))))" .
    moreover have "n - length ?b = n - length b - length ?a" using l by simp
    ultimately show ?thesis using step False b by (simp add: take_append)
  qed
qed

text \<open>Every character has the same number of accepted bytes.\<close>

lemma preimages:
  assumes "0 < n" "n \<le> 256" "i < n"
  shows "{v. v < max_unbiased n \<and> v mod n = i} = (\<lambda>j. j * n + i) ` {..<256 div n}"
proof -
  have m: "max_unbiased n = 256 div n * n" by (simp add: max_unbiased_def minus_mod_eq_div_mult)
  show ?thesis unfolding m
  proof (intro set_eqI iffI)
    fix v assume "v \<in> {v. v < 256 div n * n \<and> v mod n = i}"
    then have "v = v div n * n + i" "v div n < 256 div n"
      using assms(1) by (auto simp: less_mult_imp_div_less)
    then show "v \<in> (\<lambda>j. j * n + i) ` {..<256 div n}" by blast
  next
    fix v assume "v \<in> (\<lambda>j. j * n + i) ` {..<256 div n}"
    then obtain j where j: "j < 256 div n" "v = j * n + i" by auto
    then have "j * n + n \<le> 256 div n * n" by (metis Suc_leI add.commute mult_Suc mult_le_mono1)
    with j assms show "v \<in> {v. v < 256 div n * n \<and> v mod n = i}" by simp
  qed
qed

lemma count_preimages:
  assumes "0 < n" "n \<le> 256" "i < n"
  shows "card {v. v < max_unbiased n \<and> v mod n = i} = 256 div n"
  unfolding preimages[OF assms] using assms(1) by (subst card_image) (auto simp: inj_on_def)

lemma random_string_unbiased_parts:
  assumes "0 < length charset" "length charset \<le> 256" "n \<le> length (accepted charset (concat bufs))"
  shows "random_string (map Inr bufs) n charset = Some (Inr (map (char_for charset) (take n (accepted charset (concat bufs)))))"
    and "i < length charset \<Longrightarrow>
      card {v. v < 256 \<and> accepted charset [v] \<noteq> [] \<and> v mod length charset = i} = 256 div length charset"
proof -
  show "random_string (map Inr bufs) n charset = Some (Inr (map (char_for charset) (take n (accepted charset (concat bufs)))))"
  proof (cases "n = 0")
    case True
    with assms show ?thesis by (simp add: random_string_def random_loop.simps)
  next
    case False
    with assms random_loop_exact[of "[]" n charset bufs] show ?thesis by (simp add: random_string_def)
  qed
  assume i: "i < length charset"
  have "{v. v < 256 \<and> accepted charset [v] \<noteq> [] \<and> v mod length charset = i}
      = {v. v < max_unbiased (length charset) \<and> v mod length charset = i}"
    by (auto simp: max_unbiased_def split: if_splits)
  then show "card {v. v < 256 \<and> accepted charset [v] \<noteq> [] \<and> v mod length charset = i} = 256 div length charset"
    using count_preimages[OF assms(1,2) i] by simp
qed

text \<open>
  C31: The random text is exactly the image of the accepted random bytes, in order, it is returned as
  soon as enough of them have been read, and the sampling is unbiased: each position of the
  character set is chosen by the same number of byte values.
\<close>
theorem random_string_unbiased:
  assumes "0 < length charset" "length charset \<le> 256" "n \<le> length (accepted charset (concat bufs))"
  shows "random_string (map Inr bufs) n charset = Some (Inr (map (char_for charset) (take n (accepted charset (concat bufs)))))
    \<and> (\<forall>i<length charset. card {v. v < 256 \<and> accepted charset [v] \<noteq> [] \<and> v mod length charset = i} = 256 div length charset)"
  using random_string_unbiased_parts[OF assms] by blast

lemma random_string_unbiased_witness:
  "random_string [Inr [255, 7], Inr [10, 99]] 2 numeric_charset = Some (Inr ''70'')"
  using random_string_unbiased[of numeric_charset 2 "[[255, 7], [10, 99]]"]
  by (simp add: numeric_charset_def accepted_def max_unbiased_def char_for_def)

lemma hex_never_rejects: "accepted hex_charset vs = filter (\<lambda>v. v < 256) vs"
  by (simp add: accepted_def max_unbiased_def hex_charset_def)

lemma random_int_in_range:
  assumes "in_i64 lo" "in_i64 hi" "hi - lo \<le> max_int64" "lo < hi" "\<And>d v. draw d = Inr v \<Longrightarrow> 0 \<le> v \<and> v < d"
  shows "\<exists>r. random_int draw lo hi = Some r \<and> (\<forall>v. r = Inr v \<longrightarrow> lo \<le> v \<and> v < hi)"
proof -
  have d: "i64 (hi - lo) = hi - lo" using assms(3,4) by (intro i64_id) (simp add: in_i64_def min_int64_def)
  show ?thesis
  proof (cases "draw (hi - lo)")
    case (Inl e)
    with assms(4) d show ?thesis by (simp add: random_int_def)
  next
    case (Inr v)
    then have v: "0 \<le> v" "v < hi - lo" using assms(5) by blast+
    then have "i64 (lo + v) = lo + v" using assms(1,2) by (intro i64_id) (simp add: in_i64_def)
    with Inr v assms(4) d show ?thesis by (simp add: random_int_def)
  qed
qed

text \<open>A range of more than \<open>2^63\<close> values makes the difference wrap, and the call panics although the comment rules that out.\<close>

lemma random_int_panics: "random_int draw min_int64 0 = None"
  by (simp add: random_int_def min_int64_def i64_def)

end
