(* ===== verification/ErCore.thy ===== *)
theory ErCore
  imports RandomText
begin

text \<open>
  Package \<^verbatim>\<open>er\<close>: turning panics into errors for the client (\<^verbatim>\<open>er/main.go\<close>) and the policy on what
  the client sees (\<^verbatim>\<open>er/disclosure.go\<close>).  The package \<^verbatim>\<open>github.com/pkg/errors\<close> is the argument
  \<open>lib\<close>; \<open>errors_ok\<close> states the documented behaviour that the code relies on.
\<close>

section \<open>Errors\<close>

text \<open>
  The error types of the package, those of \<^verbatim>\<open>errors.New\<close>, and any other error: its text, the
  details it offers to clients (if it does), and what it wraps.  \<open>Stacked\<close> is what
  \<^verbatim>\<open>errors.WithStack\<close> returns.
\<close>

datatype go_error =
    NewError string
  | HttpError int "go_error option"
  | DetailsError string string
  | ClientSafeError string
  | Stacked go_error string
  | OtherError string "string option" "go_error option"

record errors_lib =
  el_message :: "go_error \<Rightarrow> string"
  el_cause :: "go_error \<Rightarrow> go_error"
  el_as_client_safe :: "go_error \<Rightarrow> bool option"
  el_format :: "go_error \<Rightarrow> string"

text \<open>\<^verbatim>\<open>HttpError.Error\<close>, \<^verbatim>\<open>HttpError.Unwrap\<close>, and the texts of the package's own types.\<close>

fun error_text :: "errors_lib \<Rightarrow> go_error \<Rightarrow> string" where
  "error_text lib (NewError m) = m"
| "error_text lib (HttpError c None) = ''http error''"
| "error_text lib (HttpError c (Some e)) = error_text lib e"
| "error_text lib (DetailsError m d) = m"
| "error_text lib (ClientSafeError m) = m"
| "error_text lib (Stacked e st) = el_message lib (Stacked e st)"
| "error_text lib (OtherError m d w) = m"

fun http_error_unwrap :: "go_error \<Rightarrow> go_error option" where
  "http_error_unwrap (HttpError c e) = e"
| "http_error_unwrap _ = None"

text \<open>
  The documentation of the library: \<^verbatim>\<open>WithStack\<close> annotates an error, keeping its message, \<^verbatim>\<open>Cause\<close> is
  the error below the annotations, and \<^verbatim>\<open>As\<close> finds the first error of a chain that has the type.
\<close>

definition errors_ok :: "errors_lib \<Rightarrow> bool" where
  "errors_ok lib \<longleftrightarrow>
     (\<forall>e st. el_message lib (Stacked e st) = error_text lib e)
     \<and> (\<forall>e st. el_cause lib (Stacked e st) = el_cause lib e)
     \<and> (\<forall>c e. el_cause lib (HttpError c e) = HttpError c e)
     \<and> (\<forall>e st. el_as_client_safe lib (Stacked e st) = el_as_client_safe lib e)
     \<and> (\<forall>c e. el_as_client_safe lib (HttpError c e) = (case e of None \<Rightarrow> None | Some e' \<Rightarrow> el_as_client_safe lib e'))
     \<and> (\<forall>m. el_as_client_safe lib (ClientSafeError m) = Some True)
     \<and> (\<forall>m. el_as_client_safe lib (NewError m) = None)
     \<and> (\<forall>m d. el_as_client_safe lib (DetailsError m d) = None)"

definition err_unknown :: go_error where
  "err_unknown = NewError ''unknown error (probably thrown by a panic, not er.Check)''"

section \<open>Panics\<close>

text \<open>What a panic carries: an error, or another value with the details it offers to clients.\<close>

datatype panic_value = PanicError go_error | PanicValue string "string option"

record handler_input =
  hi_message :: string
  hi_code :: int
  hi_stack :: string
  hi_error :: go_error
  hi_details :: "string option"
  hi_client_safe :: bool

fun get_details :: "go_error option \<Rightarrow> string option" where
  "get_details (Some (DetailsError m d)) = Some d"
| "get_details (Some (OtherError m d w)) = d"
| "get_details _ = None"

definition is_client_safe_message :: "errors_lib \<Rightarrow> go_error \<Rightarrow> bool" where
  "is_client_safe_message lib e = (case el_as_client_safe lib e of Some b \<Rightarrow> b | None \<Rightarrow> False)"

text \<open>
  \<^verbatim>\<open>HandleErrors\<close>: what its callback gets for a recovered panic; \<open>stack\<close> is the text of
  \<^verbatim>\<open>debug.Stack\<close>.  For a value that is not an error the code prints the error variable, which is
  nil then.
\<close>

definition handle_errors :: "errors_lib \<Rightarrow> string \<Rightarrow> panic_value option \<Rightarrow> handler_input option" where
  "handle_errors lib stack r =
     (case r of
        None \<Rightarrow> None
      | Some (PanicValue shown details) \<Rightarrow>
          Some \<lparr>hi_message = ''Unknown error: '' @ ''<nil>'', hi_code = 500, hi_stack = stack, hi_error = err_unknown,
                hi_details = details, hi_client_safe = False\<rparr>
      | Some (PanicError err) \<Rightarrow>
          let client_safe = is_client_safe_message lib err
          in (case el_cause lib err of
                HttpError code inner \<Rightarrow>
                  Some \<lparr>hi_message = error_text lib (HttpError code inner), hi_code = code, hi_stack = el_format lib err,
                        hi_error = err, hi_details = get_details inner, hi_client_safe = client_safe\<rparr>
              | _ \<Rightarrow>
                  Some \<lparr>hi_message = error_text lib err, hi_code = 500, hi_stack = stack,
                        hi_error = err, hi_details = get_details (Some err), hi_client_safe = client_safe\<rparr>))"

text \<open>The functions that panic; \<open>st\<close> is the stack recorded by \<^verbatim>\<open>WithStack\<close>.\<close>

definition check_for_decode :: "string \<Rightarrow> go_error option \<Rightarrow> panic_value option" where
  "check_for_decode st err = map_option (\<lambda>e. PanicError (Stacked (HttpError 400 (Some e)) st)) err"

definition er_check :: "string \<Rightarrow> go_error option \<Rightarrow> panic_value option" where
  "er_check st err = map_option (\<lambda>e. PanicError (Stacked (HttpError 500 (Some e)) st)) err"

definition throw :: "string \<Rightarrow> string \<Rightarrow> panic_value option" where
  "throw st value = er_check st (Some (NewError value))"

definition throw_with_client_details :: "string \<Rightarrow> string \<Rightarrow> string \<Rightarrow> panic_value option" where
  "throw_with_client_details st value input = er_check st (Some (DetailsError value input))"

definition throw_client_safe_code :: "string \<Rightarrow> int \<Rightarrow> string \<Rightarrow> panic_value option" where
  "throw_client_safe_code st code message = Some (PanicError (Stacked (HttpError code (Some (ClientSafeError message))) st))"

definition throw_client_safe :: "string \<Rightarrow> string \<Rightarrow> panic_value option" where
  "throw_client_safe st message = throw_client_safe_code st 400 message"

text \<open>\<open>sprintf\<close> is \<^verbatim>\<open>fmt.Sprintf\<close>.\<close>

definition throw_client_safef :: "(string \<Rightarrow> 'a list \<Rightarrow> string) \<Rightarrow> string \<Rightarrow> string \<Rightarrow> 'a list \<Rightarrow> panic_value option" where
  "throw_client_safef sprintf st format args = throw_client_safe_code st 400 (sprintf format args)"

definition client_safe :: "string \<Rightarrow> go_error" where
  "client_safe message = ClientSafeError message"

definition client_safef :: "(string \<Rightarrow> 'a list \<Rightarrow> string) \<Rightarrow> string \<Rightarrow> 'a list \<Rightarrow> go_error" where
  "client_safef sprintf format args = client_safe (sprintf format args)"

section \<open>Disclosure\<close>

datatype correlation_kind = CorrelationNumbers | CorrelationHex | CorrelationLowerAlphaNumeric | CorrelationAlphaNumeric
  | CorrelationOther int

record disclosure_config =
  dc_return_error_message :: bool
  dc_generic_message :: string
  dc_prefix :: string
  dc_kind :: correlation_kind
  dc_length :: nat

definition default_disclosure :: disclosure_config where
  "default_disclosure = \<lparr>dc_return_error_message = False, dc_generic_message = ''An unexpected error occurred'',
     dc_prefix = ''trace-'', dc_kind = CorrelationHex, dc_length = 6\<rparr>"

definition random_correlation_chars :: "(string + nat list) list \<Rightarrow> correlation_kind \<Rightarrow> nat \<Rightarrow> (string + string) option" where
  "random_correlation_chars rnd kind n =
     (case kind of
        CorrelationNumbers \<Rightarrow> get_numeric_chars rnd n
      | CorrelationHex \<Rightarrow> get_hex_chars rnd n
      | CorrelationLowerAlphaNumeric \<Rightarrow> get_lower_alnum_chars rnd n
      | CorrelationAlphaNumeric \<Rightarrow> get_alnum_chars rnd n
      | CorrelationOther _ \<Rightarrow> get_hex_chars rnd n)"

definition new_correlation_id :: "disclosure_config \<Rightarrow> (string + nat list) list \<Rightarrow> string option" where
  "new_correlation_id cfg rnd =
     (case random_correlation_chars rnd (dc_kind cfg) (dc_length cfg) of
        None \<Rightarrow> None
      | Some (Inl e) \<Rightarrow> Some (dc_prefix cfg @ ''unknown'')
      | Some (Inr i) \<Rightarrow> Some (dc_prefix cfg @ i))"

record safe_error_obj =
  se_correlation_id :: string
  se_client_message :: string
  se_client_stack :: string

text \<open>\<^verbatim>\<open>SafeError\<close> for the correlation id it drew: the line written to the log and the object for the client.\<close>

definition safe_error :: "bool \<Rightarrow> disclosure_config \<Rightarrow> string \<Rightarrow> handler_input \<Rightarrow> string \<times> safe_error_obj" where
  "safe_error testing cfg correlation_id input =
     (''['' @ correlation_id @ ''] '' @ hi_message input @ [char_of (10::nat)] @ hi_stack input,
      if testing then
        \<lparr>se_correlation_id = correlation_id, se_client_message = hi_message input, se_client_stack = hi_stack input\<rparr>
      else if hi_client_safe input \<or> dc_return_error_message cfg then
        \<lparr>se_correlation_id = correlation_id, se_client_message = hi_message input, se_client_stack = ''''\<rparr>
      else
        \<lparr>se_correlation_id = correlation_id, se_client_message = dc_generic_message cfg, se_client_stack = ''''\<rparr>)"

definition safe_error_text :: "safe_error_obj \<Rightarrow> string" where
  "safe_error_text s = se_client_message s @ '' '' @ se_correlation_id s"

definition safe_error_ext_text :: "safe_error_obj \<Rightarrow> string" where
  "safe_error_ext_text s = se_client_message s @ '' ['' @ se_correlation_id s @ '']'' @ [char_of (10::nat)] @ se_client_stack s"

definition safe_error_string :: "safe_error_obj \<Rightarrow> string" where
  "safe_error_string s = safe_error_text s"

section \<open>Facts\<close>

named_theorems er_simps \<open>the error functions on the errors the package throws\<close>

lemma errors_ok_simps [er_simps]:
  assumes "errors_ok lib"
  shows "el_cause lib (Stacked e st) = el_cause lib e" "el_cause lib (HttpError c x) = HttpError c x"
    "error_text lib (Stacked e st) = error_text lib e"
    "el_as_client_safe lib (Stacked e st) = el_as_client_safe lib e"
    "el_as_client_safe lib (HttpError c (Some e)) = el_as_client_safe lib e"
    "el_as_client_safe lib (HttpError c None) = None"
    "el_as_client_safe lib (ClientSafeError m) = Some True"
    "el_as_client_safe lib (NewError m) = None" "el_as_client_safe lib (DetailsError m d) = None"
  using assms by (simp_all add: errors_ok_def)

lemma client_message_hidden:
  "\<not> testing \<Longrightarrow> \<not> dc_return_error_message cfg \<Longrightarrow> \<not> hi_client_safe i \<Longrightarrow>
     snd (safe_error testing cfg cid i)
       = \<lparr>se_correlation_id = cid, se_client_message = dc_generic_message cfg, se_client_stack = ''''\<rparr>"
  by (simp add: safe_error_def)

lemma handle_errors_check:
  assumes "errors_ok lib"
  shows "handle_errors lib stack (er_check st (Some e)) =
    Some \<lparr>hi_message = error_text lib e, hi_code = 500, hi_stack = el_format lib (Stacked (HttpError 500 (Some e)) st),
      hi_error = Stacked (HttpError 500 (Some e)) st, hi_details = get_details (Some e),
      hi_client_safe = is_client_safe_message lib e\<rparr>"
  using assms by (simp add: handle_errors_def er_check_def Let_def er_simps is_client_safe_message_def)

lemma handle_errors_safe:
  assumes "errors_ok lib"
  shows "handle_errors lib stack (throw_client_safe_code st code m) =
    Some \<lparr>hi_message = m, hi_code = code, hi_stack = el_format lib (Stacked (HttpError code (Some (ClientSafeError m))) st),
      hi_error = Stacked (HttpError code (Some (ClientSafeError m))) st, hi_details = None, hi_client_safe = True\<rparr>"
  using assms by (simp add: handle_errors_def throw_client_safe_code_def Let_def er_simps is_client_safe_message_def)

lemma handle_errors_total: "handle_errors lib stack (Some r) \<noteq> None"
  by (cases r) (auto simp: handle_errors_def Let_def split: go_error.split)

lemma handle_errors_client_safe:
  assumes "handle_errors lib stack (Some r) = Some i" "hi_client_safe i"
  shows "\<exists>e. r = PanicError e \<and> el_as_client_safe lib e = Some True"
  using assms by (cases r)
    (auto simp: handle_errors_def Let_def is_client_safe_message_def split: go_error.splits option.splits)

text \<open>The panic values that opt in to disclosure.\<close>

definition opted_in :: "errors_lib \<Rightarrow> panic_value \<Rightarrow> bool" where
  "opted_in lib r = (case r of PanicError e \<Rightarrow> el_as_client_safe lib e = Some True | PanicValue _ _ \<Rightarrow> False)"

lemma disclosure_policy_parts:
  assumes "errors_ok lib" "\<not> dc_return_error_message cfg"
  shows "\<exists>i. handle_errors lib stack (Some r) = Some i
      \<and> (\<exists>a b. fst (safe_error False cfg cid i) = a @ hi_message i @ b)
      \<and> (\<not> opted_in lib r \<longrightarrow> snd (safe_error False cfg cid i)
            = \<lparr>se_correlation_id = cid, se_client_message = dc_generic_message cfg, se_client_stack = ''''\<rparr>)"
    and "\<exists>i. handle_errors lib stack (throw_client_safe_code st code m) = Some i \<and> hi_code i = code
      \<and> snd (safe_error False cfg cid i) = \<lparr>se_correlation_id = cid, se_client_message = m, se_client_stack = ''''\<rparr>"
proof -
  obtain i where i: "handle_errors lib stack (Some r) = Some i"
    using handle_errors_total[of lib stack r] by blast
  have "\<exists>a b. fst (safe_error False cfg cid i) = a @ hi_message i @ b"
    by (intro exI[of _ "''['' @ cid @ ''] ''"] exI[of _ "[char_of (10::nat)] @ hi_stack i"]) (simp add: safe_error_def)
  moreover have "\<not> hi_client_safe i" if "\<not> opted_in lib r"
    using handle_errors_client_safe[OF i] that by (auto simp: opted_in_def)
  ultimately show "\<exists>i. handle_errors lib stack (Some r) = Some i
      \<and> (\<exists>a b. fst (safe_error False cfg cid i) = a @ hi_message i @ b)
      \<and> (\<not> opted_in lib r \<longrightarrow> snd (safe_error False cfg cid i)
            = \<lparr>se_correlation_id = cid, se_client_message = dc_generic_message cfg, se_client_stack = ''''\<rparr>)"
    using i client_message_hidden[of False cfg i cid] assms(2) by blast
  show "\<exists>i. handle_errors lib stack (throw_client_safe_code st code m) = Some i \<and> hi_code i = code
      \<and> snd (safe_error False cfg cid i) = \<lparr>se_correlation_id = cid, se_client_message = m, se_client_stack = ''''\<rparr>"
    by (simp add: handle_errors_safe[OF assms(1)] safe_error_def)
qed


text \<open>A library with the documented behaviour, over the errors of the model.\<close>

fun sample_cause :: "go_error \<Rightarrow> go_error" where
  "sample_cause (Stacked e st) = sample_cause e"
| "sample_cause e = e"

fun sample_as :: "go_error \<Rightarrow> bool option" where
  "sample_as (Stacked e st) = sample_as e"
| "sample_as (HttpError c None) = None"
| "sample_as (HttpError c (Some e)) = sample_as e"
| "sample_as (ClientSafeError m) = Some True"
| "sample_as (OtherError m d (Some e)) = sample_as e"
| "sample_as _ = None"

fun sample_message :: "go_error \<Rightarrow> string" where
  "sample_message (Stacked e st) = sample_message e"
| "sample_message (HttpError c (Some e)) = sample_message e"
| "sample_message (HttpError c None) = ''http error''"
| "sample_message (NewError m) = m"
| "sample_message (DetailsError m d) = m"
| "sample_message (ClientSafeError m) = m"
| "sample_message (OtherError m d w) = m"

definition sample_lib :: errors_lib where
  "sample_lib = \<lparr>el_message = sample_message, el_cause = sample_cause, el_as_client_safe = sample_as, el_format = sample_message\<rparr>"

lemma sample_text: "error_text sample_lib e = sample_message e"
  by (induction e rule: sample_message.induct) (simp_all add: sample_lib_def)

lemma sample_lib_ok: "errors_ok sample_lib"
  unfolding errors_ok_def sample_text by (simp add: sample_lib_def split: option.split)


text \<open>A panic with a value that is not an error loses the value: the message always ends in the nil error.\<close>

lemma panic_value_lost:
  "map_option hi_message (handle_errors lib stack (Some (PanicValue shown d))) = Some ''Unknown error: <nil>''"
  by (simp add: handle_errors_def)

end
