(* ===== verification/ResCore.thy ===== *)
theory ResCore
  imports ErCore GoHttp
begin

text \<open>
  Package \<^verbatim>\<open>res\<close>: the responders (\<^verbatim>\<open>res/responder.go\<close>), the panic responder
  (\<^verbatim>\<open>res/errorhandler.go\<close>), the cache headers (\<^verbatim>\<open>res/nocache.go\<close>), and the router's registration,
  panic handling and request accessors (\<^verbatim>\<open>res/router.go\<close>).  The JSON encoder, \<^verbatim>\<open>fmt.Sprint\<close> and the
  library's redirect and file serving are arguments, collected in the record \<open>res_lib\<close>.
\<close>

section \<open>Response data\<close>

text \<open>
  The values a handler passes: \<open>DNull\<close> is the untyped nil, \<open>DNilList\<close> a nil slice, \<open>DNilPtr\<close> a nil
  pointer or map, \<open>DArray\<close> an array (whose length is part of its type).
\<close>

datatype res_data = DNull | DBool bool | DNum int | DStr string | DNilList | DNilPtr
  | DList "res_data list" | DArray "res_data list" | DMap "(string \<times> res_data) list" | DOther string

record res_lib =
  rl_encode :: "res_data \<Rightarrow> string option"
  rl_sprint :: "res_data \<Rightarrow> string"
  rl_indent :: "res_data \<Rightarrow> string"
  rl_redirect :: "http_request \<Rightarrow> string \<Rightarrow> int \<Rightarrow> http_writer \<Rightarrow> http_writer"
  rl_serve_content :: "http_request \<Rightarrow> string \<Rightarrow> string \<Rightarrow> http_writer \<Rightarrow> http_writer"

text \<open>A responder: status and data, or a function on the response writer that may panic.\<close>

datatype responder = DataResp int res_data
  | Freeform "http_request \<Rightarrow> http_writer \<Rightarrow> panic_value option \<times> http_writer"

section \<open>Writing a response\<close>

definition body_allowed_for_status :: "int \<Rightarrow> bool" where
  "body_allowed_for_status status =
     (if 100 \<le> status \<and> status \<le> 199 then False
      else if status = 204 then False
      else if status = 304 then False
      else True)"

definition nl :: string where "nl = [char_of (10::nat)]"

text \<open>The text for the error log.\<close>

definition debug_text :: "res_lib \<Rightarrow> res_data \<Rightarrow> string" where
  "debug_text lib d =
     (case d of
        DMap kvs \<Rightarrow> nl @ concat (map (\<lambda>(k, v). ''    '' @ k @ '':  '' @ rl_sprint lib v @ nl) kvs)
      | _ \<Rightarrow> let js = rl_indent lib d in if js \<noteq> [CHR 0x22, CHR 0x22] then nl @ js else '''')"

definition error_log_line :: "res_lib \<Rightarrow> (int \<Rightarrow> res_data \<Rightarrow> http_request \<Rightarrow> bool) \<Rightarrow> int \<Rightarrow> res_data \<Rightarrow> http_request \<Rightarrow> string list" where
  "error_log_line lib ignore_log status d r =
     (if 400 \<le> status \<and> \<not> ignore_log status d r
      then [''request failed: '' @ hr_method r @ '' '' @ hr_path r @ '' -> '' @ show_int status @ debug_text lib d]
      else [])"

text \<open>\<^verbatim>\<open>Respond\<close>: the panic it ends in, if any, the writer after it, and the lines for the error log.\<close>

definition respond_data :: "res_lib \<Rightarrow> (int \<Rightarrow> res_data \<Rightarrow> http_request \<Rightarrow> bool) \<Rightarrow> int \<Rightarrow> res_data \<Rightarrow> http_request
    \<Rightarrow> http_writer \<Rightarrow> panic_value option \<times> http_writer \<times> string list" where
  "respond_data lib ignore_log status d r w =
     (let w1 = set_header ''Content-Type'' ''application/json'' w
      in case write_header status w1 of
           None \<Rightarrow> (Some (PanicValue (''invalid WriteHeader code '' @ show_int status) None), w1, [])
         | Some w2 \<Rightarrow>
             (None,
              if body_allowed_for_status status
              then (case rl_encode lib d of Some b \<Rightarrow> w_write b w2 | None \<Rightarrow> w2)
              else w2,
              error_log_line lib ignore_log status d r))"

fun respond :: "res_lib \<Rightarrow> (int \<Rightarrow> res_data \<Rightarrow> http_request \<Rightarrow> bool) \<Rightarrow> responder \<Rightarrow> http_request \<Rightarrow> http_writer
    \<Rightarrow> panic_value option \<times> http_writer \<times> string list" where
  "respond lib ignore_log (DataResp status d) r w = respond_data lib ignore_log status d r w"
| "respond lib ignore_log (Freeform f) r w = (case f r w of (p, w') \<Rightarrow> (p, w', []))"

section \<open>The responders\<close>

definition error_data :: "string \<Rightarrow> string \<Rightarrow> string \<Rightarrow> res_data \<Rightarrow> res_data" where
  "error_data str stack_trace msg details =
     DMap [(''error'', DStr str), (''message'', DStr msg), (''stackTrace'', DStr stack_trace), (''details'', details)]"

text \<open>\<^verbatim>\<open>fixNilList\<close>; asking an array whether it is nil panics, which is \<^const>\<open>None\<close>.\<close>

fun fix_nil_list :: "res_data \<Rightarrow> res_data option" where
  "fix_nil_list DNilList = Some (DList [])"
| "fix_nil_list (DArray ds) = None"
| "fix_nil_list d = Some d"

definition ok_resp :: "res_data list \<Rightarrow> responder option" where
  "ok_resp data =
     (let dt = (case data of
          [] \<Rightarrow> DMap [(''ok'', DBool True)]
        | [d] \<Rightarrow> d
        | _ \<Rightarrow> DList data)
      in map_option (DataResp 200) (fix_nil_list dt))"

text \<open>\<^verbatim>\<open>List\<close>: only nil slices, pointers and maps can be asked whether they are nil.\<close>

fun list_resp :: "res_data \<Rightarrow> responder option" where
  "list_resp DNilList = ok_resp [DList []]"
| "list_resp DNilPtr = ok_resp [DList []]"
| "list_resp (DList ds) = ok_resp [DList ds]"
| "list_resp (DMap kvs) = ok_resp [DMap kvs]"
| "list_resp _ = None"

definition app_error :: "string \<Rightarrow> responder" where "app_error str = DataResp 500 (error_data str '''' '''' DNull)"
definition accepted_resp :: "int \<Rightarrow> res_data \<Rightarrow> responder" where "accepted_resp status d = DataResp status d"
definition bad_request :: "string \<Rightarrow> responder" where "bad_request str = DataResp 400 (error_data str '''' '''' DNull)"
definition internal_server_error :: "string \<Rightarrow> responder" where
  "internal_server_error str = DataResp 500 (error_data str '''' '''' DNull)"
definition un_processable :: responder where
  "un_processable = DataResp 422 (error_data ''unable to process that request'' '''' '''' DNull)"
definition not_found :: "string list \<Rightarrow> responder" where "not_found msg = DataResp 404 (DStr (join_with '' '' msg))"
definition with_code_and_message :: "int \<Rightarrow> string \<Rightarrow> responder" where "with_code_and_message code message = DataResp code (DStr message)"
definition todo_resp :: responder where "todo_resp = with_code_and_message 500 ''todo''"
definition with_code :: "int \<Rightarrow> responder" where "with_code code = DataResp code DNull"
definition too_many_requests :: responder where "too_many_requests = with_code_and_message 429 ''Too many requests''"

definition not_authorized :: "string list \<Rightarrow> responder" where
  "not_authorized reason =
     (let msg = (if reason = [] then ''not authorized'' else ''not authorized'' @ '': '' @ join_with '', '' reason)
      in DataResp 401 (error_data ''not authorized'' '''' msg (if reason = [] then DNilList else DList (map DStr reason))))"

definition redirect_resp :: "res_lib \<Rightarrow> string \<Rightarrow> responder" where
  "redirect_resp lib url = Freeform (\<lambda>r w. (None, rl_redirect lib r url 302 w))"

definition html_resp :: "string \<Rightarrow> responder" where
  "html_resp str = Freeform (\<lambda>r w.
     case write_header 200 (set_header ''Content-Type'' ''text/html'' w) of
       None \<Rightarrow> (Some (PanicValue '''' None), w) | Some w1 \<Rightarrow> (None, w_write str w1))"

definition func_resp :: "(http_writer \<Rightarrow> panic_value option \<times> http_writer) \<Rightarrow> responder" where
  "func_resp method = Freeform (\<lambda>r w. method w)"

definition wrap_http_resp :: "(http_request \<Rightarrow> http_writer \<Rightarrow> panic_value option \<times> http_writer) \<Rightarrow> responder" where
  "wrap_http_resp server = Freeform (\<lambda>r w. server r w)"

definition show_basic_auth_prompt :: "string \<Rightarrow> responder" where
  "show_basic_auth_prompt message = Freeform (\<lambda>r w.
     case write_header 401 (set_header ''WWW-Authenticate'' (''Basic realm='' @ [CHR 0x22] @ message @ [CHR 0x22]) w) of
       None \<Rightarrow> (Some (PanicValue '''' None), w) | Some w1 \<Rightarrow> (None, w_write (''Unauthorised.'' @ nl) w1))"

text \<open>\<^verbatim>\<open>Error\<close>: the responder, and the line logged for a non-nil error.\<close>

definition error_resp :: "errors_lib \<Rightarrow> disclosure_config \<Rightarrow> go_error option \<Rightarrow> responder \<times> string list" where
  "error_resp elib cfg err =
     (case err of
        None \<Rightarrow> (app_error (dc_generic_message cfg), [])
      | Some e \<Rightarrow>
          (if dc_return_error_message cfg then app_error (error_text elib e) else app_error (dc_generic_message cfg),
           [error_text elib e]))"

section \<open>Content disposition\<close>

text \<open>
  The loop over the runes of the name; a byte from 128 is part of a rune that is not ASCII (or of
  an invalid sequence, read as one), so that the loop is a filter on the bytes.
\<close>

definition disposition_keeps :: "char \<Rightarrow> bool" where
  "disposition_keeps c \<longleftrightarrow>
     \<not> (byte c < 32 \<or> byte c = 127) \<and> \<not> 127 < byte c \<and> \<not> (byte c = 34 \<or> byte c = 92 \<or> byte c = 44)"

definition sanitize_disposition_name :: "string \<Rightarrow> string" where
  "sanitize_disposition_name name = filter disposition_keeps name"

definition has_non_ascii :: "string \<Rightarrow> bool" where
  "has_non_ascii s \<longleftrightarrow> list_ex (\<lambda>c. 127 < byte c) s"

definition is_attr_char :: "char \<Rightarrow> bool" where
  "is_attr_char c =
     (if is_upper_letter c \<or> is_lower_letter c \<or> is_digit c then True
      else c \<in> set ''!#$&+-.^_`|~'')"

definition upper_hex :: "nat \<Rightarrow> char" where
  "upper_hex n = ''0123456789ABCDEF'' ! n"

fun encode_rfc5987 :: "string \<Rightarrow> string" where
  "encode_rfc5987 [] = []"
| "encode_rfc5987 (c # cs) =
     (if is_attr_char c then c # encode_rfc5987 cs
      else CHR ''%'' # upper_hex (byte c div 16) # upper_hex (byte c mod 16) # encode_rfc5987 cs)"

definition content_disposition :: "string \<Rightarrow> string \<Rightarrow> string" where
  "content_disposition disposition name =
     (let out = disposition @ ''; filename='' @ [CHR 0x22] @ sanitize_disposition_name name @ [CHR 0x22]
      in if has_non_ascii name
         then out @ ''; filename*=UTF-8'' @ [CHR 0x27, CHR 0x27] @ encode_rfc5987 name
         else out)"

definition download_resp :: "res_lib \<Rightarrow> string \<Rightarrow> string \<Rightarrow> responder" where
  "download_resp lib name data = Freeform (\<lambda>r w.
     (None, rl_serve_content lib r name data (add_header ''Content-Disposition'' (content_disposition ''attachment'' name) w)))"

definition display_resp :: "res_lib \<Rightarrow> string \<Rightarrow> string \<Rightarrow> responder" where
  "display_resp lib name data = Freeform (\<lambda>r w.
     (None, rl_serve_content lib r name data (add_header ''Content-Disposition'' (content_disposition ''inline'' name) w)))"

section \<open>JSON names\<close>

text \<open>\<open>uni\<close> is the answer for a name with characters outside ASCII.\<close>

definition rename_camel :: "(string \<Rightarrow> string) \<Rightarrow> string \<Rightarrow> string" where
  "rename_camel uni key =
     (if length key = 0 then key
      else if key = ''ID'' then ''id''
      else if \<not> list_all is_ascii key then uni key
      else let r = lower_char (hd key) # tl key; n = length r
           in if 2 < n \<and> drop (n - 2) r = ''ID'' then take (n - 2) r @ ''Id'' else r)"

section \<open>Panics in handlers\<close>

definition opt_data :: "string option \<Rightarrow> res_data" where
  "opt_data d = (case d of None \<Rightarrow> DNull | Some s \<Rightarrow> DOther s)"

definition handle_panic :: "bool \<Rightarrow> disclosure_config \<Rightarrow> string \<Rightarrow> handler_input \<Rightarrow> responder" where
  "handle_panic testing cfg cid input =
     (let safe = snd (safe_error testing cfg cid input)
      in DataResp (hi_code input)
           (DMap [(''error'', DStr (safe_error_text safe)), (''stackTrace'', DStr (se_client_stack safe)),
                  (''details'', opt_data (hi_details input)), (''correlationId'', DStr (se_correlation_id safe))]))"

text \<open>What surrounds a handler: the libraries, the settings, and what is drawn for one request.\<close>

record res_env =
  re_lib :: res_lib
  re_errors :: errors_lib
  re_testing :: bool
  re_disclosure :: disclosure_config
  re_ignore_log :: "int \<Rightarrow> res_data \<Rightarrow> http_request \<Rightarrow> bool"
  re_correlation_id :: string
  re_stack :: string

datatype handler_result = Returned responder | Panicked panic_value

definition recover_panic :: "res_env \<Rightarrow> http_request \<Rightarrow> panic_value \<Rightarrow> http_writer \<Rightarrow> panic_value option \<times> http_writer" where
  "recover_panic env r p w =
     (case handle_errors (re_errors env) (re_stack env) (Some p) of
        None \<Rightarrow> (None, w)
      | Some input \<Rightarrow>
          (case respond (re_lib env) (re_ignore_log env)
                  (handle_panic (re_testing env) (re_disclosure env) (re_correlation_id env) input) r w of
             (p', w', _) \<Rightarrow> (p', w')))"

text \<open>\<^verbatim>\<open>WrapHTTPFunc\<close>: a panic that is left over escapes to the server.\<close>

definition wrap_http_func :: "res_env \<Rightarrow> int \<Rightarrow> (http_request \<Rightarrow> string + string \<Rightarrow> handler_result) \<Rightarrow> http_request
    \<Rightarrow> http_writer \<Rightarrow> panic_value option \<times> http_writer" where
  "wrap_http_func env max_body handler r w =
     (case handler r (read_limited max_body (hr_body r)) of
        Panicked p \<Rightarrow> recover_panic env r p w
      | Returned resp \<Rightarrow>
          (case respond (re_lib env) (re_ignore_log env) resp r w of
             (None, w', _) \<Rightarrow> (None, w')
           | (Some p, w', _) \<Rightarrow> recover_panic env r p w'))"

section \<open>Cache headers\<close>

definition no_cache_headers :: "string \<Rightarrow> (string \<times> string) list" where
  "no_cache_headers epoch =
     [(''Expires'', epoch), (''Cache-Control'', ''no-store, no-cache, must-revalidate, max-age=0''),
      (''Pragma'', ''no-cache''), (''X-Accel-Expires'', ''0'')]"

definition etag_headers :: "string list" where
  "etag_headers = [''ETag'', ''If-Modified-Since'', ''If-Match'', ''If-None-Match'', ''If-Range'', ''If-Unmodified-Since'']"

definition no_cache_func :: "string \<Rightarrow> http_request \<Rightarrow> http_writer \<Rightarrow> http_request \<times> http_writer" where
  "no_cache_func epoch r w =
     (r\<lparr>hr_header := fold (\<lambda>v h. if hdr_get v h \<noteq> '''' then header_del v h else h) etag_headers (hr_header r)\<rparr>,
      fold (\<lambda>(k, v). set_header k v) (no_cache_headers epoch) w)"

definition no_cache :: "string \<Rightarrow> (http_request \<Rightarrow> http_writer \<Rightarrow> 'r) \<Rightarrow> http_request \<Rightarrow> http_writer \<Rightarrow> 'r" where
  "no_cache epoch h r w = (case no_cache_func epoch r w of (r', w') \<Rightarrow> h r' w')"

section \<open>The router\<close>

text \<open>The routes in the order of their registration; matching them is the business of the library.\<close>

record 'h router =
  rt_routes :: "(string \<times> string \<times> 'h) list"

definition route :: "string \<Rightarrow> string \<Rightarrow> 'h \<Rightarrow> 'h router \<Rightarrow> 'h router option" where
  "route method path handler rt =
     (if \<not> has_prefix path ''/'' then None
      else Some (rt\<lparr>rt_routes := rt_routes rt @ [(method, path, handler)]\<rparr>))"

definition route_get :: "string \<Rightarrow> 'h \<Rightarrow> 'h router \<Rightarrow> 'h router option" where "route_get path h rt = route ''GET'' path h rt"
definition route_put :: "string \<Rightarrow> 'h \<Rightarrow> 'h router \<Rightarrow> 'h router option" where "route_put path h rt = route ''PUT'' path h rt"
definition route_post :: "string \<Rightarrow> 'h \<Rightarrow> 'h router \<Rightarrow> 'h router option" where "route_post path h rt = route ''POST'' path h rt"
definition route_delete :: "string \<Rightarrow> 'h \<Rightarrow> 'h router \<Rightarrow> 'h router option" where "route_delete path h rt = route ''DELETE'' path h rt"

text \<open>\<^verbatim>\<open>ServeHTTP\<close>: the cap on the body is applied here already.\<close>

definition router_serve :: "int \<Rightarrow> (http_request \<Rightarrow> string + string \<Rightarrow> 'r) \<Rightarrow> http_request \<Rightarrow> 'r" where
  "router_serve max_body mux r = mux r (read_limited max_body (hr_body r))"

section \<open>Request accessors\<close>

definition rq_cookie :: "http_request \<Rightarrow> string \<Rightarrow> string" where
  "rq_cookie r name = (case map_of (hr_cookies r) name of None \<Rightarrow> '''' | Some v \<Rightarrow> v)"

definition rq_query :: "http_request \<Rightarrow> string \<Rightarrow> string" where
  "rq_query r key = (case map_of (hr_query r) key of None \<Rightarrow> '''' | Some v \<Rightarrow> v)"

text \<open>The value that \<^verbatim>\<open>strconv.Atoi\<close> returns when its error is dropped.\<close>

definition atoi_value :: "string \<Rightarrow> int" where
  "atoi_value s =
     (case parse_int s of
        Some v \<Rightarrow> v
      | None \<Rightarrow>
          (let neg = (s \<noteq> [] \<and> hd s = CHR ''-'');
               ds = (if s \<noteq> [] \<and> (hd s = CHR ''-'' \<or> hd s = CHR ''+'') then tl s else s)
           in if ds = [] \<or> \<not> list_all is_digit ds then 0 else if neg then min_int64 else max_int64))"

definition get_query_int :: "http_request \<Rightarrow> string \<Rightarrow> int" where
  "get_query_int r key = atoi_value (rq_query r key)"

text \<open>
  Forms are parsed once: \<open>parse\<close> is the library's parser, giving the form it sets (if any), the
  values of the body, and an error.
\<close>

record form_state =
  fs_parsed :: bool
  fs_error :: "string option"
  fs_form :: bool
  fs_values :: "(string \<times> string) list"

definition unparsed_form :: form_state where
  "unparsed_form = \<lparr>fs_parsed = False, fs_error = None, fs_form = False, fs_values = []\<rparr>"

definition ensure_form_parsed :: "(unit \<Rightarrow> (bool \<times> (string \<times> string) list) \<times> string option) \<Rightarrow> form_state \<Rightarrow> bool \<times> form_state" where
  "ensure_form_parsed parse st =
     (let st' = (if \<not> fs_parsed st
                 then (case parse () of ((has_form, vs), err) \<Rightarrow>
                        \<lparr>fs_parsed = True, fs_error = err, fs_form = has_form, fs_values = vs\<rparr>)
                 else st)
      in (fs_form st', st'))"

definition form_error :: "(unit \<Rightarrow> (bool \<times> (string \<times> string) list) \<times> string option) \<Rightarrow> form_state \<Rightarrow> string option \<times> form_state" where
  "form_error parse st = (let st' = snd (ensure_form_parsed parse st) in (fs_error st', st'))"

definition form_value :: "(unit \<Rightarrow> (bool \<times> (string \<times> string) list) \<times> string option) \<Rightarrow> string \<Rightarrow> form_state \<Rightarrow> string \<times> form_state" where
  "form_value parse key st =
     (case ensure_form_parsed parse st of
        (False, st') \<Rightarrow> ('''', st')
      | (True, st') \<Rightarrow> (case map_of (fs_values st') key of None \<Rightarrow> ('''', st') | Some v \<Rightarrow> (v, st')))"

text \<open>Multipart forms likewise: \<open>parse\<close> gives the values and files of the form, if it sets one, and an error.\<close>

type_synonym 'f multipart_form = "(string \<times> string list) list \<times> (string \<times> 'f list) list"

record 'f multipart_state =
  ms_parsed :: bool
  ms_error :: "string option"
  ms_form :: "'f multipart_form option"

definition ensure_multipart_parsed ::
  "(unit \<Rightarrow> 'f multipart_form option \<times> string option) \<Rightarrow> 'f multipart_state \<Rightarrow> bool \<times> 'f multipart_state" where
  "ensure_multipart_parsed parse st =
     (let st' = (if \<not> ms_parsed st
                 then (case parse () of (form, err) \<Rightarrow> \<lparr>ms_parsed = True, ms_error = err, ms_form = form\<rparr>)
                 else st)
      in (ms_form st' \<noteq> None, st'))"

definition multipart_error ::
  "(unit \<Rightarrow> 'f multipart_form option \<times> string option) \<Rightarrow> 'f multipart_state \<Rightarrow> string option \<times> 'f multipart_state" where
  "multipart_error parse st = (let st' = snd (ensure_multipart_parsed parse st) in (ms_error st', st'))"

definition multipart_value ::
  "(unit \<Rightarrow> 'f multipart_form option \<times> string option) \<Rightarrow> string \<Rightarrow> 'f multipart_state \<Rightarrow> string \<times> 'f multipart_state" where
  "multipart_value parse key st =
     (case ensure_multipart_parsed parse st of (ok, st') \<Rightarrow>
        (case ms_form st' of
           None \<Rightarrow> ('''', st')
         | Some (vs, fs) \<Rightarrow> (case map_of vs key of None \<Rightarrow> '''' | Some [] \<Rightarrow> '''' | Some (v # _) \<Rightarrow> v, st')))"

definition multipart_file ::
  "(unit \<Rightarrow> 'f multipart_form option \<times> string option) \<Rightarrow> string \<Rightarrow> 'f multipart_state \<Rightarrow> 'f option \<times> 'f multipart_state" where
  "multipart_file parse key st =
     (case ensure_multipart_parsed parse st of (ok, st') \<Rightarrow>
        (case ms_form st' of
           None \<Rightarrow> (None, st')
         | Some (vs, fs) \<Rightarrow> (case map_of fs key of None \<Rightarrow> None | Some [] \<Rightarrow> None | Some (f # _) \<Rightarrow> Some f, st')))"

text \<open>\<^verbatim>\<open>MustParseJSON\<close>: \<open>decode\<close> is the library's decoder; a failure panics with status 400.\<close>

definition must_parse_json :: "string \<Rightarrow> (string \<Rightarrow> go_error + 'a) \<Rightarrow> string \<Rightarrow> panic_value + 'a" where
  "must_parse_json st decode body =
     (case decode body of
        Inl e \<Rightarrow> (case check_for_decode st (Some e) of Some p \<Rightarrow> Inl p | None \<Rightarrow> Inl (PanicError e))
      | Inr v \<Rightarrow> Inr v)"

section \<open>Facts on file names\<close>

text \<open>Decoding of percent-encoded octets.\<close>

definition upper_hex_val :: "char \<Rightarrow> nat" where
  "upper_hex_val c = (if is_digit c then byte c - 48 else byte c - 55)"

fun percent_decode :: "string \<Rightarrow> string" where
  "percent_decode [] = []"
| "percent_decode (c # cs) =
     (if c = CHR ''%'' then
        (case cs of a # b # r \<Rightarrow> char_of (16 * upper_hex_val a + upper_hex_val b) # percent_decode r | _ \<Rightarrow> c # cs)
      else c # percent_decode cs)"

lemma upper_hex_facts:
  assumes "n < 16"
  shows "upper_hex_val (upper_hex n) = n" "is_attr_char (upper_hex n)"
proof -
  have "list_all (\<lambda>n. upper_hex_val (upper_hex n) = n \<and> is_attr_char (upper_hex n)) [0..<16]" by code_simp
  with assms show "upper_hex_val (upper_hex n) = n" "is_attr_char (upper_hex n)" by (simp_all add: list_all_iff)
qed

lemma percent_not_attr: "is_attr_char c \<Longrightarrow> c \<noteq> CHR ''%''"
proof
  assume "is_attr_char c" "c = CHR ''%''"
  then have "is_attr_char (CHR ''%'')" by simp
  moreover have "\<not> is_attr_char (CHR ''%'')" by code_simp
  ultimately show False by blast
qed

lemma percent_decode_encode: "percent_decode (encode_rfc5987 s) = s"
proof (induction s)
  case (Cons c s)
  have b: "byte c div 16 < 16" "byte c mod 16 < 16" by (simp_all add: less_mult_imp_div_less)
  show ?case
    using Cons percent_not_attr[of c] upper_hex_facts(1)[OF b(1)] upper_hex_facts(1)[OF b(2)] by simp
qed simp

lemma encode_chars: "c \<in> set (encode_rfc5987 s) \<Longrightarrow> is_attr_char c \<or> c = CHR ''%''"
proof (induction s)
  case (Cons d s)
  have "byte d div 16 < 16" "byte d mod 16 < 16" by (simp_all add: less_mult_imp_div_less)
  with Cons show ?case by (auto simp: upper_hex_facts(2) split: if_splits)
qed simp


section \<open>Facts on panics in handlers\<close>

lemma write_header_ok: "200 \<le> code \<Longrightarrow> code \<le> 999 \<Longrightarrow> wr_status w = None \<Longrightarrow> write_header code w = Some (w\<lparr>wr_status := Some code\<rparr>)"
  by (simp add: write_header_def)

text \<open>What the client gets for a panic that did not opt in to disclosure.\<close>

definition generic_body :: "disclosure_config \<Rightarrow> string \<Rightarrow> string option \<Rightarrow> res_data" where
  "generic_body cfg cid details =
     DMap [(''error'', DStr (dc_generic_message cfg @ '' '' @ cid)), (''stackTrace'', DStr ''''),
           (''details'', opt_data details), (''correlationId'', DStr cid)]"

lemma handle_panic_hidden:
  "\<not> testing \<Longrightarrow> \<not> dc_return_error_message cfg \<Longrightarrow> \<not> hi_client_safe i \<Longrightarrow>
     handle_panic testing cfg cid i = DataResp (hi_code i) (generic_body cfg cid (hi_details i))"
  by (simp add: handle_panic_def Let_def client_message_hidden safe_error_text_def generic_body_def)


definition sample_res_env :: res_env where
  "sample_res_env = \<lparr>re_lib = \<lparr>rl_encode = (\<lambda>d. Some ''{}''), rl_sprint = (\<lambda>_. ''''), rl_indent = (\<lambda>_. ''''),
       rl_redirect = (\<lambda>_ _ _ w. w), rl_serve_content = (\<lambda>_ _ _ w. w)\<rparr>,
     re_errors = sample_lib, re_testing = False, re_disclosure = default_disclosure, re_ignore_log = (\<lambda>_ _ _. False),
     re_correlation_id = ''trace-0'', re_stack = ''''\<rparr>"


text \<open>
  The status code of a recovered error is not checked: for an error without one, the recovery itself
  panics.
\<close>

lemma zero_code_escapes:
  assumes "errors_ok (re_errors env)" "handler r (read_limited max_body (hr_body r)) = Panicked (PanicError (HttpError 0 e))"
  shows "fst (wrap_http_func env max_body handler r w) \<noteq> None"
  using assms by (simp add: wrap_http_func_def recover_panic_def handle_errors_def Let_def er_simps
      handle_panic_def respond_data_def write_header_def)

text \<open>\<^verbatim>\<open>Ok\<close> panics on an array value, and \<^verbatim>\<open>List\<close> on a nil that has no type.\<close>

lemma ok_array_panics: "ok_resp [DArray ds] = None" and list_nil_panics: "list_resp DNull = None"
  by (simp_all add: ok_resp_def)

lemma form_parsed_once:
  "ensure_form_parsed parse' (snd (ensure_form_parsed parse st)) = (fst (ensure_form_parsed parse st), snd (ensure_form_parsed parse st))"
  by (simp add: ensure_form_parsed_def Let_def split: prod.split)

end
