(* ===== verification/HttpAuth.thy ===== *)
theory HttpAuth
  imports RateLimit AuthCore RequestIP ResCore
begin

text \<open>
  Package \<^verbatim>\<open>auth/httpauth\<close>: configuration and start-up, the middleware that authenticates every
  request, the login, logout, refresh and register handlers (\<^verbatim>\<open>main.go\<close>), the role router
  (\<^verbatim>\<open>router.go\<close>) and the OAuth routes (\<^verbatim>\<open>oauth/main.go\<close>).  The JWT library is an argument; so are
  the application's callbacks, which are fields of the configuration as in the code.  Within one
  handler the clock is read at one instant \<open>now\<close>.
\<close>

section \<open>Configuration\<close>

definition coalesce :: "string \<Rightarrow> string \<Rightarrow> string" where
  "coalesce value deflt = (if value = '''' then deflt else value)"

record credential =
  cr_username :: string
  cr_password :: string
  cr_raw :: string

record 'u oauth_config =
  oa_setup_path :: string
  oa_callback_path :: string
  oa_on_failure :: "go_error \<Rightarrow> responder"
  oa_on_authenticated :: "'u \<Rightarrow> user_info option \<times> responder"

record 'u auth_config =
  ac_domain :: string
  ac_secure_cookies :: "bool option"
  ac_partitioned :: bool
  ac_same_site :: int
  ac_oauth :: "'u oauth_config option"
  ac_credential_checker :: "(credential \<Rightarrow> go_error + user_info) option"
  ac_api_token_checker :: "(string \<Rightarrow> go_error + user_info) option"
  ac_validate_active_user :: "(user_info \<Rightarrow> go_error option) option"
  ac_login_path :: string
  ac_logout_path :: string
  ac_logout_redirect_to :: string
  ac_register_path :: string
  ac_register_handler :: "(http_request \<Rightarrow> user_info option \<times> responder) option"
  ac_refresh_path :: string
  ac_access_life :: int
  ac_refresh_life :: int
  ac_access_cookie :: string
  ac_refresh_cookie :: string
  ac_ip_count :: int
  ac_ip_window :: int
  ac_ip_disabled :: bool
  ac_user_count :: int
  ac_user_window :: int
  ac_user_disabled :: bool
  ac_public_prefixes :: "string list"
  ac_ignore_routes :: "string list"
  ac_per_request_filter :: "(http_request \<Rightarrow> user_info option \<Rightarrow> go_error option) option"
  ac_not_authorized :: "(http_request \<Rightarrow> go_error option \<Rightarrow> responder) option"

definition refresh_cookie_name :: "'u auth_config \<Rightarrow> string" where
  "refresh_cookie_name c = coalesce (ac_refresh_cookie c) ''refresh-token''"

definition access_cookie_name :: "'u auth_config \<Rightarrow> string" where
  "access_cookie_name c = coalesce (ac_access_cookie c) ''token''"

definition default_login_endpoint :: string where "default_login_endpoint = ''/api/auth/login''"
definition default_refresh_endpoint :: string where "default_refresh_endpoint = ''/api/auth/refresh''"
definition default_logout_endpoint :: string where "default_logout_endpoint = ''/api/auth/logout''"
definition default_register_endpoint :: string where "default_register_endpoint = ''/api/auth/register''"

section \<open>Tokens\<close>

text \<open>
  The JWT library: signing with HS256, parsing with a list of accepted methods at a time (an error,
  or the claims and whether the token is valid), and the precision of its dates.
\<close>

record jwt_lib =
  jl_sign :: "string \<Rightarrow> user_info \<Rightarrow> go_error + string"
  jl_parse :: "string \<Rightarrow> string list \<Rightarrow> gotime \<Rightarrow> string \<Rightarrow> go_error + user_info \<times> bool"
  jl_numeric_date :: "gotime \<Rightarrow> int"
  jl_add_30_days :: "gotime \<Rightarrow> gotime"

definition token_expiry :: "jwt_lib \<Rightarrow> gotime \<Rightarrow> int \<Rightarrow> gotime \<Rightarrow> gotime" where
  "token_expiry L now lifetime deflt = (if lifetime = 0 then deflt else now + lifetime)"

text \<open>Both functions also change the user they are given, which is the last component.\<close>

definition create_access_token :: "jwt_lib \<Rightarrow> string \<Rightarrow> gotime \<Rightarrow> user_info \<Rightarrow> int \<Rightarrow> (go_error + string) \<times> gotime \<times> user_info" where
  "create_access_token L key now user lifetime =
     (let expiry = token_expiry L now lifetime (now + 30 * go_minute);
          user' = user\<lparr>ui_expires := Some (jl_numeric_date L expiry), ui_token_type := token_type_access\<rparr>
      in (jl_sign L key user', expiry, user'))"

definition create_refresh_token :: "jwt_lib \<Rightarrow> string \<Rightarrow> gotime \<Rightarrow> user_info \<Rightarrow> int \<Rightarrow> (go_error + string) \<times> gotime \<times> user_info" where
  "create_refresh_token L key now user lifetime =
     (let expiry = token_expiry L now lifetime (jl_add_30_days L now);
          user' = user\<lparr>ui_expires := Some (jl_numeric_date L expiry), ui_token_type := token_type_refresh\<rparr>
      in (jl_sign L key user', expiry, user'))"

definition parse_jwt :: "jwt_lib \<Rightarrow> string \<Rightarrow> gotime \<Rightarrow> string \<Rightarrow> string \<Rightarrow> go_error + user_info" where
  "parse_jwt L key now token expected =
     (case jl_parse L key [''HS256''] now token of
        Inl e \<Rightarrow> Inl e
      | Inr (user, valid) \<Rightarrow>
          if \<not> valid then Inl (NewError ''invalid token'')
          else if ui_token_type user \<noteq> expected then Inl (NewError ''invalid token type'')
          else Inr user)"

definition cookie_or_bearer_token :: "http_request \<Rightarrow> string \<Rightarrow> string" where
  "cookie_or_bearer_token r name =
     (if rq_cookie r name \<noteq> '''' then rq_cookie r name
      else trim_prefix (hdr_get ''Authorization'' (hr_header r)) ''Bearer '')"

section \<open>Sessions\<close>

record http_cookie =
  ck_name :: string
  ck_value :: string
  ck_path :: string
  ck_domain :: string
  ck_secure :: bool
  ck_http_only :: bool
  ck_same_site :: int
  ck_partitioned :: bool
  ck_expires :: "gotime option"
  ck_max_age :: int

text \<open>\<^verbatim>\<open>*config.SecureCookies\<close>; start-up has set the pointer.\<close>

definition secure_flag :: "'u auth_config \<Rightarrow> bool" where
  "secure_flag c = (case ac_secure_cookies c of Some b \<Rightarrow> b | None \<Rightarrow> False)"

definition session_cookie :: "'u auth_config \<Rightarrow> string \<Rightarrow> string \<Rightarrow> gotime \<Rightarrow> http_cookie" where
  "session_cookie c name value expiry =
     \<lparr>ck_name = name, ck_value = value, ck_path = ''/'', ck_domain = ac_domain c, ck_secure = secure_flag c,
      ck_http_only = True, ck_same_site = ac_same_site c, ck_partitioned = ac_partitioned c,
      ck_expires = Some expiry, ck_max_age = 0\<rparr>"

record session_info =
  si_access :: string
  si_refresh :: string

definition setup_session :: "jwt_lib \<Rightarrow> string \<Rightarrow> errors_lib \<Rightarrow> gotime \<Rightarrow> 'u auth_config \<Rightarrow> user_info
    \<Rightarrow> (go_error + session_info) \<times> http_cookie list" where
  "setup_session L key elib now c user =
     (case create_access_token L key now user (ac_access_life c) of
        (Inl e, _) \<Rightarrow> (Inl (NewError (''Failed to create access token: '' @ error_text elib e)), [])
      | (Inr access, access_expiry, user1) \<Rightarrow>
          (case create_refresh_token L key now user1 (ac_refresh_life c) of
             (Inl e, _) \<Rightarrow> (Inl (NewError (''Failed to create refresh token: '' @ error_text elib e)), [])
           | (Inr refresh, refresh_expiry, user2) \<Rightarrow>
               (Inr \<lparr>si_access = access, si_refresh = refresh\<rparr>,
                [session_cookie c (access_cookie_name c) access access_expiry,
                 session_cookie c (refresh_cookie_name c) refresh refresh_expiry])))"

definition removal_cookie :: "'u auth_config \<Rightarrow> string \<Rightarrow> bool \<Rightarrow> http_cookie" where
  "removal_cookie c name partitioned =
     \<lparr>ck_name = name, ck_value = '''', ck_path = ''/'', ck_domain = ac_domain c, ck_secure = secure_flag c,
      ck_http_only = False, ck_same_site = ac_same_site c, ck_partitioned = partitioned,
      ck_expires = None, ck_max_age = - 1\<rparr>"

definition remove_cookies :: "'u auth_config \<Rightarrow> http_cookie list" where
  "remove_cookies c =
     [removal_cookie c (access_cookie_name c) True, removal_cookie c (access_cookie_name c) False,
      removal_cookie c (refresh_cookie_name c) True, removal_cookie c (refresh_cookie_name c) False]"

section \<open>The handlers\<close>

definition ok_map :: "(string \<times> res_data) list \<Rightarrow> responder" where
  "ok_map kvs = (case ok_resp [DMap kvs] of Some r \<Rightarrow> r | None \<Rightarrow> with_code 500)"

definition logout_handler :: "res_lib \<Rightarrow> 'u auth_config \<Rightarrow> responder \<times> http_cookie list" where
  "logout_handler rl c =
     (if ac_logout_redirect_to c = '''' then (redirect_resp rl ''/'', remove_cookies c)
      else (redirect_resp rl (ac_logout_redirect_to c), remove_cookies c))"

definition register_handler :: "jwt_lib \<Rightarrow> string \<Rightarrow> errors_lib \<Rightarrow> gotime \<Rightarrow> 'u auth_config
    \<Rightarrow> (http_request \<Rightarrow> user_info option \<times> responder) \<Rightarrow> http_request \<Rightarrow> responder \<times> http_cookie list" where
  "register_handler L key elib now c handler r =
     (case handler r of
        (None, response) \<Rightarrow> (response, [])
      | (Some info, response) \<Rightarrow> (response, snd (setup_session L key elib now c info)))"

definition refresh_handler :: "res_env \<Rightarrow> jwt_lib \<Rightarrow> string \<Rightarrow> gotime \<Rightarrow> 'u auth_config \<Rightarrow> http_request
    \<Rightarrow> responder \<times> http_cookie list" where
  "refresh_handler env L key now c r =
     (let token = cookie_or_bearer_token r (refresh_cookie_name c)
      in if token = '''' then (bad_request ''Invalid refresh token'', [])
         else (case parse_jwt L key now token token_type_refresh of
             Inl e \<Rightarrow> (app_error ''Access denied'', [])
           | Inr claims \<Rightarrow>
               (case (case ac_validate_active_user c of None \<Rightarrow> None | Some v \<Rightarrow> v claims) of
                  Some e \<Rightarrow> (app_error ''Access denied'', remove_cookies c)
                | None \<Rightarrow>
                    (case create_access_token L key now claims (ac_access_life c) of
                       (Inl e, _) \<Rightarrow> (fst (error_resp (re_errors env) (re_disclosure env) (Some e)), [])
                     | (Inr access, expiry, _) \<Rightarrow>
                         (ok_map [(''accessToken'', DStr access)],
                          [session_cookie c (access_cookie_name c) access expiry])))))"

text \<open>The limiters of the login handler, built once.\<close>

record login_limiters =
  ll_ip :: "keyed_limiter option"
  ll_account :: "keyed_limiter option"

definition new_login_limiters :: "'u auth_config \<Rightarrow> login_limiters" where
  "new_login_limiters c =
     \<lparr>ll_ip = (if ac_ip_disabled c then None
         else Some (new_keyed (if ac_ip_count c = 0 then 10 else ac_ip_count c)
                              (if ac_ip_window c = 0 then go_minute else ac_ip_window c))),
      ll_account = (if ac_user_disabled c then None
         else Some (new_keyed (if ac_user_count c = 0 then 5 else ac_user_count c)
                              (if ac_user_window c = 0 then 15 * go_minute else ac_user_window c)))\<rparr>"

definition login_rate_limit_key :: "string option \<Rightarrow> http_request \<Rightarrow> string" where
  "login_rate_limit_key ip_ctx r = key_from_request ip_ctx (hr_remote_addr r)"

definition account_lockout_key :: "(string \<Rightarrow> string) \<Rightarrow> string \<Rightarrow> string" where
  "account_lockout_key uni username = to_lower uni (trim_space username)"

text \<open>Asking or charging a limiter that may be switched off.\<close>

definition opt_limited :: "gotime \<Rightarrow> string \<Rightarrow> keyed_limiter option \<Rightarrow> bool \<times> keyed_limiter option" where
  "opt_limited now key k =
     (case k of None \<Rightarrow> (False, None)
      | Some l \<Rightarrow> (case keyed_is_limited now key l of (e, l') \<Rightarrow> (e \<noteq> None, Some l')))"

definition opt_take :: "gotime \<Rightarrow> string \<Rightarrow> keyed_limiter option \<Rightarrow> keyed_limiter option" where
  "opt_take now key k = (case k of None \<Rightarrow> None | Some l \<Rightarrow> Some (snd (keyed_take now key l)))"

text \<open>
  The login handler up to the credential check: a rejection, or the credentials with both keys.
  \<open>body\<close> is the outcome of reading the body, \<open>unmarshal\<close> the JSON decoder.
\<close>

definition login_admit :: "(string \<Rightarrow> string) \<Rightarrow> (string \<Rightarrow> go_error + string \<times> string) \<Rightarrow> gotime \<Rightarrow> string option
    \<Rightarrow> http_request \<Rightarrow> string + string \<Rightarrow> login_limiters \<Rightarrow> (responder + credential \<times> string \<times> string) \<times> login_limiters" where
  "login_admit uni unmarshal now ip_ctx r body st =
     (let ip_key = (if ll_ip st = None then '''' else login_rate_limit_key ip_ctx r);
          (ip_limited, ip') = opt_limited now ip_key (ll_ip st);
          st1 = st\<lparr>ll_ip := ip'\<rparr>
      in if ip_limited then (Inl too_many_requests, st1)
         else (case body of
             Inl e \<Rightarrow> (Inl (bad_request ''Invalid request''), st1)
           | Inr json \<Rightarrow>
               (case unmarshal json of
                  Inl e \<Rightarrow> (Inl (bad_request ''Invalid request''), st1)
                | Inr (username, password) \<Rightarrow>
                    let account_key = account_lockout_key uni username;
                        (account_limited, acc') =
                          (if account_key \<noteq> '''' then opt_limited now account_key (ll_account st1) else (False, ll_account st1));
                        st2 = st1\<lparr>ll_account := acc'\<rparr>
                    in if account_limited then (Inl too_many_requests, st2)
                       else (Inr (\<lparr>cr_username = username, cr_password = password, cr_raw = json\<rparr>, ip_key, account_key), st2))))"

text \<open>The rest of the handler: the credential check and what follows; the flag says that the check failed.\<close>

definition login_finish :: "res_env \<Rightarrow> jwt_lib \<Rightarrow> string \<Rightarrow> gotime \<Rightarrow> 'u auth_config \<Rightarrow> (credential \<Rightarrow> go_error + user_info)
    \<Rightarrow> credential \<times> string \<times> string \<Rightarrow> login_limiters \<Rightarrow> (responder \<times> http_cookie list \<times> bool) \<times> login_limiters" where
  "login_finish env L key now c checker adm st =
     (case adm of (creds, ip_key, account_key) \<Rightarrow>
        (case checker creds of
           Inl e \<Rightarrow>
             ((app_error ''Login failed'', [], True),
              \<lparr>ll_ip = opt_take now ip_key (ll_ip st),
               ll_account = (if account_key \<noteq> '''' then opt_take now account_key (ll_account st) else ll_account st)\<rparr>)
         | Inr user \<Rightarrow>
             (case setup_session L key (re_errors env) now c user of
                (Inl e, cookies) \<Rightarrow> ((fst (error_resp (re_errors env) (re_disclosure env) (Some e)), cookies, False), st)
              | (Inr info, cookies) \<Rightarrow>
                  ((ok_map [(''accessToken'', DStr (si_access info)), (''refreshToken'', DStr (si_refresh info))], cookies, False), st))))"

definition login_handler :: "res_env \<Rightarrow> jwt_lib \<Rightarrow> string \<Rightarrow> (string \<Rightarrow> string) \<Rightarrow> (string \<Rightarrow> go_error + string \<times> string)
    \<Rightarrow> gotime \<Rightarrow> 'u auth_config \<Rightarrow> (credential \<Rightarrow> go_error + user_info) \<Rightarrow> string option \<Rightarrow> http_request \<Rightarrow> string + string
    \<Rightarrow> login_limiters \<Rightarrow> (responder \<times> http_cookie list \<times> bool) \<times> login_limiters" where
  "login_handler env L key uni unmarshal now c checker ip_ctx r body st =
     (case login_admit uni unmarshal now ip_ctx r body st of
        (Inl resp, st1) \<Rightarrow> ((resp, [], False), st1)
      | (Inr adm, st1) \<Rightarrow> login_finish env L key now c checker adm st1)"

section \<open>The middleware\<close>

definition auth_handler :: "jwt_lib \<Rightarrow> string \<Rightarrow> gotime \<Rightarrow> 'u auth_config \<Rightarrow> auth_ctx \<Rightarrow> http_request \<Rightarrow> responder + auth_ctx" where
  "auth_handler L key now c ctx r =
     (let deny = (case ac_not_authorized c of Some f \<Rightarrow> f r | None \<Rightarrow> (\<lambda>_. not_authorized []));
          token = cookie_or_bearer_token r (access_cookie_name c)
      in if token = '''' then Inl (deny None)
         else (case (case parse_jwt L key now token token_type_access of
                   Inr user \<Rightarrow> Inr user
                 | Inl e \<Rightarrow> (case ac_api_token_checker c of None \<Rightarrow> Inl e | Some check \<Rightarrow> check token)) of
             Inl e \<Rightarrow> Inl (deny (Some e))
           | Inr user \<Rightarrow> Inr (set_user ctx user)))"

record 'u auth_server =
  as_config :: "'u auth_config"
  as_ignore_routes :: "string list"

definition new_server :: "'u auth_config \<Rightarrow> string + 'u auth_server" where
  "new_server c =
     (if ac_credential_checker c = None
      then Inl ''github.com/ntbosscher/gobase/auth/authhttp.Middleware(config): config requires CredentialChecker''
      else Inr \<lparr>as_config = c, as_ignore_routes = ac_ignore_routes c\<rparr>)"

definition ignored_route :: "'u auth_server \<Rightarrow> string \<Rightarrow> bool" where
  "ignored_route s path \<longleftrightarrow>
     list_ex (\<lambda>p. path = p) (as_ignore_routes s) \<or> list_ex (\<lambda>p. has_prefix path p) (ac_public_prefixes (as_config s))"

text \<open>\<^verbatim>\<open>ServeHTTP\<close>: the next handler runs with a context, or the request is answered.\<close>

datatype serve_result = ServeNext auth_ctx | ServeAnswer responder

definition server_serve :: "jwt_lib \<Rightarrow> string \<Rightarrow> gotime \<Rightarrow> 'u auth_server \<Rightarrow> auth_ctx \<Rightarrow> http_request \<Rightarrow> serve_result" where
  "server_serve L key now s ctx0 r =
     (let ignored = ignored_route s (hr_path r)
      in case auth_handler L key now (as_config s) ctx0 r of
           Inl err \<Rightarrow> if ignored then ServeNext ctx0 else ServeAnswer err
         | Inr ctx \<Rightarrow>
             (case (if \<not> ignored then ac_per_request_filter (as_config s) else None) of
                None \<Rightarrow> ServeNext ctx
              | Some f \<Rightarrow> (case f r (current ctx) of
                    Some e \<Rightarrow> ServeAnswer (not_authorized [])
                  | None \<Rightarrow> ServeNext ctx)))"

section \<open>OAuth\<close>

definition oauth_default :: "string \<Rightarrow> string \<Rightarrow> string" where
  "oauth_default value deflt = (if value \<noteq> '''' then value else deflt)"

text \<open>The callback: \<open>completed\<close> is the outcome of \<^verbatim>\<open>gothic.CompleteUserAuth\<close>.\<close>

definition on_callback :: "'u oauth_config \<Rightarrow> (user_info \<Rightarrow> (go_error + session_info) \<times> http_cookie list) \<Rightarrow> go_error + 'u
    \<Rightarrow> responder \<times> http_cookie list" where
  "on_callback oc session completed =
     (case completed of
        Inl e \<Rightarrow> (oa_on_failure oc e, [])
      | Inr u \<Rightarrow>
          (case oa_on_authenticated oc u of
             (None, response) \<Rightarrow> (response, [])
           | (Some info, response) \<Rightarrow>
               (case session info of
                  (Inl e, cookies) \<Rightarrow> (oa_on_failure oc e, cookies)
                | (Inr _, cookies) \<Rightarrow> (response, cookies))))"

section \<open>Start-up\<close>

text \<open>The endpoints that start-up registers, beside those of the application.\<close>

datatype 'h endpoint = LoginEndpoint | LogoutEndpoint | RefreshEndpoint | RegisterEndpoint
  | OAuthCallback | OAuthSetup | AppEndpoint "role option" 'h

definition same_site_lax :: int where "same_site_lax = 2"
definition same_site_none :: int where "same_site_none = 4"

text \<open>The configuration as start-up leaves it.\<close>

definition setup_config :: "bool \<Rightarrow> 'u auth_config \<Rightarrow> 'u auth_config" where
  "setup_config testing c =
     (let c1 = (if ac_secure_cookies c = None then c\<lparr>ac_secure_cookies := Some (\<not> testing)\<rparr> else c);
          c2 = (if ac_same_site c1 = 0 then c1\<lparr>ac_same_site := same_site_lax\<rparr> else c1);
          c3 = (if testing \<and> ac_domain c2 \<noteq> '''' then c2\<lparr>ac_domain := ''''\<rparr> else c2);
          c4 = c3\<lparr>ac_ignore_routes := ac_ignore_routes c3 @
                 [coalesce (ac_login_path c) default_login_endpoint, coalesce (ac_logout_path c) default_logout_endpoint,
                  coalesce (ac_refresh_path c) default_refresh_endpoint]\<rparr>
      in (case ac_oauth c4 of
            None \<Rightarrow> c4
          | Some oc \<Rightarrow> c4\<lparr>ac_ignore_routes := ac_ignore_routes c4 @ [oa_callback_path oc]\<rparr>))"

text \<open>Registering a list of routes; a path that does not start with a slash panics (\<^const>\<open>None\<close>).\<close>

fun register_all :: "(string \<times> string \<times> 'h) list \<Rightarrow> 'h router \<Rightarrow> 'h router option" where
  "register_all [] rt = Some rt"
| "register_all ((m, p, h) # rs) rt = (case route m p h rt of None \<Rightarrow> None | Some rt' \<Rightarrow> register_all rs rt')"

definition auth_routes :: "'u auth_config \<Rightarrow> (string \<times> string \<times> 'h endpoint) list" where
  "auth_routes c =
     [(''POST'', coalesce (ac_login_path c) default_login_endpoint, LoginEndpoint),
      (''POST'', coalesce (ac_logout_path c) default_logout_endpoint, LogoutEndpoint),
      (''GET'', coalesce (ac_logout_path c) default_logout_endpoint, LogoutEndpoint),
      (''POST'', coalesce (ac_refresh_path c) default_refresh_endpoint, RefreshEndpoint)]
     @ (if ac_register_handler c \<noteq> None
        then [(''POST'', coalesce (ac_register_path c) default_register_endpoint, RegisterEndpoint)] else [])"

text \<open>\<^verbatim>\<open>oauth.Setup\<close>.\<close>

definition oauth_setup :: "string \<Rightarrow> 'u oauth_config \<Rightarrow> 'h endpoint router \<Rightarrow> string + 'h endpoint router" where
  "oauth_setup oauth_secret oc rt =
     (if oauth_secret = '''' then Inl ''OAUTH_SESSION_SECRET must be set''
      else (case register_all [(''GET'', oauth_default (oa_callback_path oc) ''/api/auth/callback'', OAuthCallback),
                               (''GET'', oauth_default (oa_setup_path oc) ''/api/auth'', OAuthSetup)] rt of
          None \<Rightarrow> Inl ''path must start with /''
        | Some rt' \<Rightarrow> Inr rt'))"

record ('u, 'h) auth_router =
  ar_server :: "'u auth_server"
  ar_router :: "'h endpoint router"

text \<open>
  \<^verbatim>\<open>Setup\<close>: \<open>key_file\<close> is the outcome of reading the key, \<open>oauth_secret\<close> the environment variable.
  \<open>Inl\<close> is a fatal error or a panic at start-up.
\<close>

definition auth_setup :: "bool \<Rightarrow> string + string \<Rightarrow> string \<Rightarrow> 'h endpoint router \<Rightarrow> 'u auth_config
    \<Rightarrow> string + string \<times> ('u, 'h) auth_router" where
  "auth_setup testing key_file oauth_secret rt config =
     (case key_file of
        Inl e \<Rightarrow> Inl (''failed to read required file ./.jwtkey: '' @ e)
      | Inr key \<Rightarrow>
          (case register_all (auth_routes config) rt of
             None \<Rightarrow> Inl ''path must start with /''
           | Some rt1 \<Rightarrow>
               (case (case ac_oauth config of None \<Rightarrow> Inr rt1 | Some oc \<Rightarrow> oauth_setup oauth_secret oc rt1) of
                  Inl e \<Rightarrow> Inl e
                | Inr rt2 \<Rightarrow>
                    (case new_server (setup_config testing config) of
                       Inl e \<Rightarrow> Inl e
                     | Inr s \<Rightarrow> Inr (key, \<lparr>ar_server = s, ar_router = rt2\<rparr>)))))"

section \<open>The role router\<close>

definition add_ignore_route :: "string \<Rightarrow> ('u, 'h) auth_router \<Rightarrow> ('u, 'h) auth_router" where
  "add_ignore_route path a = a\<lparr>ar_server := (ar_server a)\<lparr>as_ignore_routes := as_ignore_routes (ar_server a) @ [path]\<rparr>\<rparr>"

definition manually_set_session :: "jwt_lib \<Rightarrow> string \<Rightarrow> errors_lib \<Rightarrow> gotime \<Rightarrow> ('u, 'h) auth_router \<Rightarrow> user_info
    \<Rightarrow> (go_error + session_info) \<times> http_cookie list" where
  "manually_set_session L key elib now a user = setup_session L key elib now (as_config (ar_server a)) user"

text \<open>\<^verbatim>\<open>RequireRole\<close>: the endpoint, open or guarded by a role.\<close>

definition require_role :: "string \<Rightarrow> role \<Rightarrow> 'h \<Rightarrow> ('u, 'h) auth_router \<Rightarrow> 'h endpoint \<times> ('u, 'h) auth_router" where
  "require_role path rl h a =
     (if rl = role_public then (AppEndpoint None h, add_ignore_route path a) else (AppEndpoint (Some rl) h, a))"

definition role_route :: "string \<Rightarrow> string \<Rightarrow> role \<Rightarrow> 'h \<Rightarrow> ('u, 'h) auth_router \<Rightarrow> ('u, 'h) auth_router option" where
  "role_route method path rl h a =
     (case require_role path rl h a of (e, a') \<Rightarrow> map_option (\<lambda>rt. a'\<lparr>ar_router := rt\<rparr>) (route method path e (ar_router a')))"

definition role_get :: "string \<Rightarrow> role \<Rightarrow> 'h \<Rightarrow> ('u, 'h) auth_router \<Rightarrow> ('u, 'h) auth_router option" where
  "role_get path rl h a = role_route ''GET'' path rl h a"
definition role_put :: "string \<Rightarrow> role \<Rightarrow> 'h \<Rightarrow> ('u, 'h) auth_router \<Rightarrow> ('u, 'h) auth_router option" where
  "role_put path rl h a = role_route ''PUT'' path rl h a"
definition role_post :: "string \<Rightarrow> role \<Rightarrow> 'h \<Rightarrow> ('u, 'h) auth_router \<Rightarrow> ('u, 'h) auth_router option" where
  "role_post path rl h a = role_route ''POST'' path rl h a"
definition role_delete :: "string \<Rightarrow> role \<Rightarrow> 'h \<Rightarrow> ('u, 'h) auth_router \<Rightarrow> ('u, 'h) auth_router option" where
  "role_delete path rl h a = role_route ''DELETE'' path rl h a"

text \<open>Running an application endpoint in a context: \<^const>\<open>None\<close> when the handler itself runs.\<close>

definition run_guard :: "role option \<Rightarrow> auth_ctx \<Rightarrow> responder option" where
  "run_guard guard ctx =
     (case guard of
        None \<Rightarrow> None
      | Some rl \<Rightarrow> if has_role ctx rl then None else Some (not_authorized [''Doesn'' @ [CHR 0x27] @ ''t have required role'']))"

section \<open>Facts on the middleware\<close>

text \<open>
  C13: The middleware is a gate.  A request for a route that is not exempt reaches the next handler
  only with a token, as the user of that token: either a valid, unexpired token signed with the key
  by the pinned method and minted as an access token, or one that the application's checker
  accepts; and the per-request filter has let that user through.
\<close>
theorem auth_gate:
  assumes "server_serve L key now s ctx0 r = ServeNext ctx" "\<not> ignored_route s (hr_path r)"
  shows "\<exists>token u. token = cookie_or_bearer_token r (access_cookie_name (as_config s)) \<and> token \<noteq> '''' \<and> ctx = Some u
    \<and> (jl_parse L key [''HS256''] now token = Inr (u, True) \<and> ui_token_type u = token_type_access
       \<or> (\<exists>check. ac_api_token_checker (as_config s) = Some check \<and> check token = Inr u))
    \<and> (\<forall>f. ac_per_request_filter (as_config s) = Some f \<longrightarrow> f r (Some u) = None)"
  using assms
  by (auto simp: server_serve_def auth_handler_def parse_jwt_def set_user_def current_def Let_def
      split: if_splits sum.splits option.splits prod.splits)

text \<open>Without a token, a route that is not exempt is answered.\<close>

lemma no_token_answered:
  assumes "\<not> ignored_route s (hr_path r)" "cookie_or_bearer_token r (access_cookie_name (as_config s)) = ''''"
    "ac_not_authorized (as_config s) = None"
  shows "server_serve L key now s ctx0 r = ServeAnswer (not_authorized [])"
  using assms by (simp add: server_serve_def auth_handler_def Let_def)

definition sample_user :: user_info where
  "sample_user = \<lparr>ui_tz = 0, ui_user = 7, ui_company = 3, ui_role = 1, ui_extra = [], ui_token_type = '''', ui_expires = None\<rparr>"

definition sample_config :: "unit auth_config" where
  "sample_config =
     \<lparr>ac_domain = '''', ac_secure_cookies = None, ac_partitioned = False, ac_same_site = 0, ac_oauth = None,
      ac_credential_checker = Some (\<lambda>_. Inl (NewError '''')), ac_api_token_checker = None, ac_validate_active_user = None,
      ac_login_path = '''', ac_logout_path = '''', ac_logout_redirect_to = '''', ac_register_path = '''',
      ac_register_handler = None, ac_refresh_path = '''', ac_access_life = 0, ac_refresh_life = 0,
      ac_access_cookie = '''', ac_refresh_cookie = '''', ac_ip_count = 0, ac_ip_window = 0, ac_ip_disabled = False,
      ac_user_count = 0, ac_user_window = 0, ac_user_disabled = False, ac_public_prefixes = [], ac_ignore_routes = [],
      ac_per_request_filter = None, ac_not_authorized = None\<rparr>"

text \<open>
  A JWT library that satisfies what is documented of such libraries, over texts that spell out the
  expiry and the type: enough to check that the assumptions can hold.
\<close>

definition jwt_ok :: "jwt_lib \<Rightarrow> string \<Rightarrow> bool" where
  "jwt_ok L key \<longleftrightarrow>
     (\<forall>u token e now. jl_sign L key u = Inr token \<and> ui_expires u = Some e \<and> now < e
        \<longrightarrow> token \<noteq> '''' \<and> jl_parse L key [''HS256''] now token = Inr (u, True))
     \<and> (\<forall>t. t < jl_numeric_date L t + go_second)"

definition sample_jwt :: jwt_lib where
  "sample_jwt =
     \<lparr>jl_sign = (\<lambda>key u. if u = sample_user\<lparr>ui_token_type := ui_token_type u, ui_expires := ui_expires u\<rparr>
        \<and> (\<exists>e\<ge>0. ui_expires u = Some e) then Inr (show_nat (nat (the (ui_expires u))) @ CHR ''.'' # ui_token_type u)
        else Inl (NewError ''claims'')),
      jl_parse = (\<lambda>key ms now token.
        (let e = int (digits_val (takeWhile is_digit token)); u = sample_user\<lparr>ui_token_type := tl (dropWhile is_digit token), ui_expires := Some e\<rparr>
         in if now < e then Inr (u, True) else Inl (NewError ''expired''))),
      jl_numeric_date = (\<lambda>t. t), jl_add_30_days = (\<lambda>t. t + 43200 * go_minute)\<rparr>"

lemma sample_jwt_ok: "jwt_ok sample_jwt key"
proof -
  have t: "takeWhile is_digit (show_nat n @ CHR ''.'' # x) = show_nat n" "dropWhile is_digit (show_nat n @ CHR ''.'' # x) = CHR ''.'' # x" for n x
    using show_nat_digits[of n] by (auto simp: list_all_iff is_digit_def)
  show ?thesis
    by (auto simp: jwt_ok_def sample_jwt_def t Let_def go_second_def split: if_splits)
qed

section \<open>Facts on sessions\<close>

definition access_claims :: "jwt_lib \<Rightarrow> gotime \<Rightarrow> 'u auth_config \<Rightarrow> user_info \<Rightarrow> user_info" where
  "access_claims L now c user = user\<lparr>ui_expires := Some (jl_numeric_date L (token_expiry L now (ac_access_life c) (now + 30 * go_minute))),
     ui_token_type := token_type_access\<rparr>"

definition refresh_claims :: "jwt_lib \<Rightarrow> gotime \<Rightarrow> 'u auth_config \<Rightarrow> user_info \<Rightarrow> user_info" where
  "refresh_claims L now c user = user\<lparr>ui_expires := Some (jl_numeric_date L (token_expiry L now (ac_refresh_life c) (jl_add_30_days L now))),
     ui_token_type := token_type_refresh\<rparr>"

lemma setup_session_tokens:
  assumes "setup_session L key elib now c user = (Inr info, cookies)"
  shows "jl_sign L key (access_claims L now c user) = Inr (si_access info)"
    and "jl_sign L key (refresh_claims L now c user) = Inr (si_refresh info)"
    and "map (\<lambda>k. (ck_name k, ck_value k)) cookies
      = [(access_cookie_name c, si_access info), (refresh_cookie_name c, si_refresh info)]"
  using assms
  by (auto simp: setup_session_def create_access_token_def create_refresh_token_def access_claims_def refresh_claims_def
      session_cookie_def Let_def split: sum.splits)

text \<open>The end of the life of the two tokens of a session, up to the precision of the dates.\<close>

definition access_until :: "jwt_lib \<Rightarrow> gotime \<Rightarrow> 'u auth_config \<Rightarrow> gotime" where
  "access_until L now c = token_expiry L now (ac_access_life c) (now + 30 * go_minute) - go_second"

definition refresh_until :: "jwt_lib \<Rightarrow> gotime \<Rightarrow> 'u auth_config \<Rightarrow> gotime" where
  "refresh_until L now c = token_expiry L now (ac_refresh_life c) (jl_add_30_days L now) - go_second"

lemma jwt_parse:
  assumes "jwt_ok L key" "jl_sign L key u = Inr token" "ui_expires u = Some (jl_numeric_date L t)" "now \<le> t - go_second"
  shows "token \<noteq> ''''" "jl_parse L key [''HS256''] now token = Inr (u, True)"
proof -
  have "t < jl_numeric_date L t + go_second" using assms(1) by (simp add: jwt_ok_def)
  with assms(4) have "now < jl_numeric_date L t" by simp
  then show "token \<noteq> ''''" "jl_parse L key [''HS256''] now token = Inr (u, True)"
    using assms(1-3) by (auto simp: jwt_ok_def)
qed

lemma session_parse:
  assumes "jwt_ok L key" "setup_session L key elib now c user = (Inr info, cookies)"
  shows "t \<le> access_until L now c \<Longrightarrow> si_access info \<noteq> '''' \<and>
      jl_parse L key [''HS256''] t (si_access info) = Inr (access_claims L now c user, True)"
    and "t \<le> refresh_until L now c \<Longrightarrow> si_refresh info \<noteq> '''' \<and>
      jl_parse L key [''HS256''] t (si_refresh info) = Inr (refresh_claims L now c user, True)"
  using jwt_parse[OF assms(1) setup_session_tokens(1)[OF assms(2)], of _ t]
    jwt_parse[OF assms(1) setup_session_tokens(2)[OF assms(2)], of _ t]
  by (simp_all add: access_claims_def refresh_claims_def access_until_def refresh_until_def)

lemma bearer_cookie: "map_of (hr_cookies r) name = Some v \<Longrightarrow> v \<noteq> '''' \<Longrightarrow> cookie_or_bearer_token r name = v"
  by (simp add: cookie_or_bearer_token_def rq_cookie_def)

lemma session_roundtrip_parts:
  assumes "jwt_ok L key" "setup_session L key elib now (as_config s) user = (Inr info, cookies)"
  shows "t \<le> access_until L now (as_config s) \<Longrightarrow> map_of (hr_cookies r) (access_cookie_name (as_config s)) = Some (si_access info)
      \<Longrightarrow> ac_per_request_filter (as_config s) = None \<Longrightarrow>
      \<exists>u. server_serve L key t s ctx0 r = ServeNext (Some u) \<and> auth_user (Some u) = ui_user user
        \<and> auth_company (Some u) = ui_company user \<and> auth_role (Some u) = ui_role user"
    and "t \<le> refresh_until L now (as_config s) \<Longrightarrow> map_of (hr_cookies r) (refresh_cookie_name (as_config s)) = Some (si_refresh info)
      \<Longrightarrow> ac_validate_active_user (as_config s) = None
      \<Longrightarrow> create_access_token L key t (refresh_claims L now (as_config s) user) (ac_access_life (as_config s)) = (Inr token, expiry, u')
      \<Longrightarrow> refresh_handler env L key t (as_config s) r = (ok_map [(''accessToken'', DStr token)],
             [session_cookie (as_config s) (access_cookie_name (as_config s)) token expiry])"
proof -
  let ?c = "as_config s"
  note p = session_parse[OF assms]
  show "t \<le> access_until L now ?c \<Longrightarrow> map_of (hr_cookies r) (access_cookie_name ?c) = Some (si_access info)
      \<Longrightarrow> ac_per_request_filter ?c = None \<Longrightarrow>
      \<exists>u. server_serve L key t s ctx0 r = ServeNext (Some u) \<and> auth_user (Some u) = ui_user user
        \<and> auth_company (Some u) = ui_company user \<and> auth_role (Some u) = ui_role user"
    using p(1)[of t] bearer_cookie[of r "access_cookie_name ?c" "si_access info"]
    by (simp add: server_serve_def auth_handler_def parse_jwt_def Let_def set_user_def access_claims_def
        auth_user_def auth_company_def auth_role_def current_def)
  show "t \<le> refresh_until L now ?c \<Longrightarrow> map_of (hr_cookies r) (refresh_cookie_name ?c) = Some (si_refresh info)
      \<Longrightarrow> ac_validate_active_user ?c = None
      \<Longrightarrow> create_access_token L key t (refresh_claims L now ?c user) (ac_access_life ?c) = (Inr token, expiry, u')
      \<Longrightarrow> refresh_handler env L key t ?c r = (ok_map [(''accessToken'', DStr token)],
             [session_cookie ?c (access_cookie_name ?c) token expiry])"
    using p(2)[of t] bearer_cookie[of r "refresh_cookie_name ?c" "si_refresh info"]
    by (simp add: refresh_handler_def parse_jwt_def Let_def refresh_claims_def)
qed

text \<open>
  C15: A session works end to end.  After it has been set up, a request that carries its access cookie
  reaches the next handler as the user that was given, with the same id, company and roles, for as
  long as the access token lives (unless the per-request filter objects); and a request that
  presents the refresh cookie to the refresh handler while the refresh token lives gets a new access
  cookie, unless the active-user check objects or signing fails.
\<close>
theorem session_roundtrip:
  assumes "jwt_ok L key" "setup_session L key elib now (as_config s) user = (Inr info, cookies)"
  shows "(t \<le> access_until L now (as_config s) \<and> map_of (hr_cookies r) (access_cookie_name (as_config s)) = Some (si_access info)
      \<and> ac_per_request_filter (as_config s) = None \<longrightarrow>
      (\<exists>u. server_serve L key t s ctx0 r = ServeNext (Some u) \<and> auth_user (Some u) = ui_user user
        \<and> auth_company (Some u) = ui_company user \<and> auth_role (Some u) = ui_role user))
    \<and> (t \<le> refresh_until L now (as_config s) \<and> map_of (hr_cookies r) (refresh_cookie_name (as_config s)) = Some (si_refresh info)
      \<and> ac_validate_active_user (as_config s) = None
      \<and> create_access_token L key t (refresh_claims L now (as_config s) user) (ac_access_life (as_config s)) = (Inr token, expiry, u')
      \<longrightarrow> refresh_handler env L key t (as_config s) r = (ok_map [(''accessToken'', DStr token)],
             [session_cookie (as_config s) (access_cookie_name (as_config s)) token expiry]))"
  using session_roundtrip_parts[OF assms] by blast

lemma token_type_separation_parts:
  assumes "jwt_ok L key" "setup_session L key elib now (as_config s) user = (Inr info, cookies)"
    and "t \<le> access_until L now (as_config s)" "t \<le> refresh_until L now (as_config s)"
  shows "map_of (hr_cookies r) (refresh_cookie_name (as_config s)) = Some (si_access info) \<Longrightarrow>
      refresh_handler env L key t (as_config s) r = (app_error ''Access denied'', [])"
    and "map_of (hr_cookies r) (access_cookie_name (as_config s)) = Some (si_refresh info)
      \<Longrightarrow> ac_api_token_checker (as_config s) = None \<Longrightarrow> \<not> ignored_route s (hr_path r) \<Longrightarrow>
      \<exists>resp. server_serve L key t s ctx0 r = ServeAnswer resp"
proof -
  let ?c = "as_config s"
  have ne: "token_type_access \<noteq> token_type_refresh" by (simp add: token_type_access_def token_type_refresh_def)
  note p = session_parse[OF assms(1,2)]
  show "map_of (hr_cookies r) (refresh_cookie_name ?c) = Some (si_access info) \<Longrightarrow>
      refresh_handler env L key t ?c r = (app_error ''Access denied'', [])"
    using p(1)[OF assms(3)] bearer_cookie[of r "refresh_cookie_name ?c" "si_access info"] ne
    by (simp add: refresh_handler_def parse_jwt_def Let_def access_claims_def)
  show "map_of (hr_cookies r) (access_cookie_name ?c) = Some (si_refresh info)
      \<Longrightarrow> ac_api_token_checker ?c = None \<Longrightarrow> \<not> ignored_route s (hr_path r) \<Longrightarrow>
      \<exists>resp. server_serve L key t s ctx0 r = ServeAnswer resp"
    using p(2)[OF assms(4)] bearer_cookie[of r "access_cookie_name ?c" "si_refresh info"] ne
    by (simp add: server_serve_def auth_handler_def parse_jwt_def Let_def refresh_claims_def)
qed

text \<open>
  C16: The two kinds of token are not interchangeable.  Presented at the refresh endpoint, the access
  token of a session is refused and sets no cookie; presented as an access cookie, its refresh token
  authenticates no request for a route that is not exempt (when there is no checker for other tokens).
\<close>
theorem token_type_separation:
  assumes "jwt_ok L key" "setup_session L key elib now (as_config s) user = (Inr info, cookies)"
    and "t \<le> access_until L now (as_config s)" "t \<le> refresh_until L now (as_config s)"
  shows "(map_of (hr_cookies r) (refresh_cookie_name (as_config s)) = Some (si_access info) \<longrightarrow>
      refresh_handler env L key t (as_config s) r = (app_error ''Access denied'', []))
    \<and> (map_of (hr_cookies r) (access_cookie_name (as_config s)) = Some (si_refresh info)
      \<and> ac_api_token_checker (as_config s) = None \<and> \<not> ignored_route s (hr_path r) \<longrightarrow>
      (\<exists>resp. server_serve L key t s ctx0 r = ServeAnswer resp))"
  using token_type_separation_parts[OF assms] by blast

section \<open>Facts on start-up\<close>

text \<open>Every cookie that a handler sets under a configuration.\<close>

definition cookie_ok :: "bool \<Rightarrow> 'u auth_config \<Rightarrow> http_cookie \<Rightarrow> bool" where
  "cookie_ok testing config k \<longleftrightarrow>
     ck_path k = ''/'' \<and> ck_same_site k \<noteq> 0
     \<and> ck_secure k = (case ac_secure_cookies config of Some b \<Rightarrow> b | None \<Rightarrow> \<not> testing)
     \<and> (ck_value k \<noteq> '''' \<longrightarrow> ck_http_only k)
     \<and> ck_domain k = (if testing then '''' else ac_domain config)"

lemma setup_config_simps:
  "ac_same_site (setup_config testing c) = (if ac_same_site c = 0 then same_site_lax else ac_same_site c)"
  "secure_flag (setup_config testing c) = (case ac_secure_cookies c of Some b \<Rightarrow> b | None \<Rightarrow> \<not> testing)"
  "ac_domain (setup_config testing c) = (if testing then '''' else ac_domain c)"
  "ac_credential_checker (setup_config testing c) = ac_credential_checker c"
  "ac_public_prefixes (setup_config testing c) = ac_public_prefixes c"
  "ac_not_authorized (setup_config testing c) = ac_not_authorized c"
  "access_cookie_name (setup_config testing c) = access_cookie_name c"
  "ac_ignore_routes (setup_config testing c) = ac_ignore_routes c @
      [coalesce (ac_login_path c) default_login_endpoint, coalesce (ac_logout_path c) default_logout_endpoint,
       coalesce (ac_refresh_path c) default_refresh_endpoint]
      @ (case ac_oauth c of None \<Rightarrow> [] | Some oc \<Rightarrow> [oa_callback_path oc])"
  by (auto simp: setup_config_def secure_flag_def access_cookie_name_def Let_def split: option.split)

lemma setup_server:
  "auth_setup testing key_file secret rt config = Inr (key, a) \<Longrightarrow>
     as_config (ar_server a) = setup_config testing config \<and> as_ignore_routes (ar_server a) = ac_ignore_routes (setup_config testing config)"
  by (auto simp: auth_setup_def new_server_def split: sum.splits option.splits if_splits)

lemma session_cookie_ok:
  "cookie_ok testing config (session_cookie (setup_config testing config) name v e)"
  "cookie_ok testing config (removal_cookie (setup_config testing config) name p)"
  by (auto simp: cookie_ok_def session_cookie_def removal_cookie_def setup_config_simps same_site_lax_def)

lemma cookies_hardened_parts:
  assumes "auth_setup testing key_file secret rt config = Inr (key, a)"
  shows "k \<in> set (snd (setup_session L key elib now (as_config (ar_server a)) user)) \<Longrightarrow> cookie_ok testing config k"
    and "k \<in> set (snd (refresh_handler env L key now (as_config (ar_server a)) r)) \<Longrightarrow> cookie_ok testing config k"
    and "k \<in> set (snd (logout_handler rl (as_config (ar_server a)))) \<Longrightarrow> cookie_ok testing config k"
    and "k \<in> set (fst (snd (fst (login_handler env L key uni unmarshal now (as_config (ar_server a)) checker ip_ctx r body st))))
      \<Longrightarrow> cookie_ok testing config k"
proof -
  have c: "as_config (ar_server a) = setup_config testing config" using setup_server[OF assms] by blast
  have ss: "k \<in> set (snd (setup_session L key elib' now (setup_config testing config) user)) \<Longrightarrow> cookie_ok testing config k" for elib' user
    by (auto simp: setup_session_def session_cookie_ok split: sum.splits prod.splits)
  show "k \<in> set (snd (setup_session L key elib now (as_config (ar_server a)) user)) \<Longrightarrow> cookie_ok testing config k"
    unfolding c by (rule ss)
  show "k \<in> set (snd (refresh_handler env L key now (as_config (ar_server a)) r)) \<Longrightarrow> cookie_ok testing config k"
    unfolding c by (auto simp: refresh_handler_def remove_cookies_def session_cookie_ok Let_def split: sum.splits option.splits if_splits prod.splits)
  show "k \<in> set (snd (logout_handler rl (as_config (ar_server a)))) \<Longrightarrow> cookie_ok testing config k"
    unfolding c by (auto simp: logout_handler_def remove_cookies_def session_cookie_ok split: if_splits)
  have lf: "k \<in> set (fst (snd (fst (login_finish env L key now (setup_config testing config) checker adm st)))) \<Longrightarrow> cookie_ok testing config k" for adm st
  proof -
    have ss2: "setup_session L key (re_errors env) now (setup_config testing config) u = (x, cs) \<Longrightarrow> k \<in> set cs \<Longrightarrow> cookie_ok testing config k" for u x cs
      using ss[of "re_errors env" u] by simp
    show "k \<in> set (fst (snd (fst (login_finish env L key now (setup_config testing config) checker adm st)))) \<Longrightarrow> cookie_ok testing config k"
      by (auto simp: login_finish_def dest: ss2 split: prod.splits sum.splits)
  qed
  show "k \<in> set (fst (snd (fst (login_handler env L key uni unmarshal now (as_config (ar_server a)) checker ip_ctx r body st))))
      \<Longrightarrow> cookie_ok testing config k"
    unfolding c login_handler_def using lf by (auto split: prod.splits sum.splits)
qed


text \<open>
  The register route is not exempt from authentication: unless the application exempts it itself,
  a visitor without a session cannot register.
\<close>

lemma register_needs_login:
  assumes "auth_setup testing key_file secret rt config = Inr (key, a)"
    and "ac_register_handler config \<noteq> None" "ac_register_path config = ''''" "ac_not_authorized config = None"
    and "ac_ignore_routes config = []" "ac_public_prefixes config = []" "ac_oauth config = None"
    and "ac_login_path config = ''''" "ac_logout_path config = ''''" "ac_refresh_path config = ''''"
    and "hr_path r = default_register_endpoint" "cookie_or_bearer_token r (access_cookie_name config) = ''''"
  shows "server_serve L key now (ar_server a) ctx0 r = ServeAnswer (not_authorized [])"
proof -
  note s = setup_server[OF assms(1)]
  have "\<not> ignored_route (ar_server a) (hr_path r)"
    using assms(5-11) s
    by (simp add: ignored_route_def setup_config_simps coalesce_def default_register_endpoint_def
        default_login_endpoint_def default_logout_endpoint_def default_refresh_endpoint_def)
  then show ?thesis using no_token_answered[of "ar_server a" r L key now ctx0] assms(4,12) s by (simp add: setup_config_simps)
qed

text \<open>
  With the default paths the OAuth callback is registered but not exempt (the exemption is for the
  empty configured path), and the route that starts the process never is.
\<close>

lemma oauth_needs_login:
  assumes "auth_setup testing key_file secret rt config = Inr (key, a)"
    and "ac_oauth config = Some oc" "oa_callback_path oc = ''''" "ac_not_authorized config = None"
    and "ac_ignore_routes config = []" "ac_public_prefixes config = []"
    and "ac_login_path config = ''''" "ac_logout_path config = ''''" "ac_refresh_path config = ''''"
    and "hr_path r = ''/api/auth/callback'' \<or> hr_path r = ''/api/auth''" "cookie_or_bearer_token r (access_cookie_name config) = ''''"
  shows "server_serve L key now (ar_server a) ctx0 r = ServeAnswer (not_authorized [])"
proof -
  note s = setup_server[OF assms(1)]
  have "\<not> ignored_route (ar_server a) (hr_path r)"
    using assms(2,3,5-10) s
    by (auto simp: ignored_route_def setup_config_simps coalesce_def
        default_login_endpoint_def default_logout_endpoint_def default_refresh_endpoint_def)
  then show ?thesis using no_token_answered[of "ar_server a" r L key now ctx0] assms(4,11) s by (simp add: setup_config_simps)
qed

section \<open>Instances\<close>

definition sample_server :: "unit auth_server" where
  "sample_server = \<lparr>as_config = setup_config False sample_config, as_ignore_routes = ac_ignore_routes (setup_config False sample_config)\<rparr>"

definition cookie_request :: "string \<Rightarrow> string \<Rightarrow> http_request" where
  "cookie_request name v = \<lparr>hr_method = ''GET'', hr_path = ''/api/orders'', hr_header = [], hr_cookies = [(name, v)],
     hr_query = [], hr_body = [], hr_remote_addr = ''9.9.9.9:1''\<rparr>"

lemma sample_setup:
  "auth_setup False (Inr ''k'') '''' \<lparr>rt_routes = []\<rparr> sample_config
     = Inr (''k'', \<lparr>ar_server = sample_server, ar_router = \<lparr>rt_routes = auth_routes sample_config\<rparr>\<rparr>)"
  by (simp add: auth_setup_def auth_routes_def sample_config_def route_def coalesce_def new_server_def sample_server_def
      default_login_endpoint_def default_logout_endpoint_def default_refresh_endpoint_def setup_config_def Let_def)

lemma sample_server_simps:
  "access_cookie_name (as_config sample_server) = ''token''" "refresh_cookie_name (as_config sample_server) = ''refresh-token''"
  "ac_per_request_filter (as_config sample_server) = None" "ac_api_token_checker (as_config sample_server) = None"
  "ac_validate_active_user (as_config sample_server) = None"
  "ac_access_life (as_config sample_server) = 0" "ac_refresh_life (as_config sample_server) = 0"
  by (simp_all add: sample_server_def setup_config_def sample_config_def access_cookie_name_def refresh_cookie_name_def
      coalesce_def Let_def)

lemma sample_life:
  "0 \<le> access_until sample_jwt 0 (as_config sample_server)" "0 \<le> refresh_until sample_jwt 0 (as_config sample_server)"
  by (simp_all add: access_until_def refresh_until_def token_expiry_def sample_server_simps go_minute_def go_second_def
      sample_jwt_def)

lemma sample_not_ignored: "\<not> ignored_route sample_server (hr_path (cookie_request name v))"
  by (simp add: ignored_route_def sample_server_def setup_config_simps cookie_request_def coalesce_def sample_config_def
      default_login_endpoint_def default_logout_endpoint_def default_refresh_endpoint_def)

lemma sample_session: "\<exists>info cookies. setup_session sample_jwt ''k'' sample_lib 0 (as_config sample_server) sample_user = (Inr info, cookies)"
proof -
  let ?e = "30 * go_minute" and ?e' = "43200 * go_minute"
  have "jl_sign sample_jwt ''k'' (sample_user\<lparr>ui_expires := Some ?e, ui_token_type := token_type_access\<rparr>)
      = Inr (show_nat (nat ?e) @ CHR ''.'' # token_type_access)"
    "jl_sign sample_jwt ''k'' (sample_user\<lparr>ui_expires := Some ?e', ui_token_type := token_type_refresh\<rparr>)
      = Inr (show_nat (nat ?e') @ CHR ''.'' # token_type_refresh)"
    by (simp_all add: sample_jwt_def sample_user_def go_minute_def go_second_def)
  moreover have "jl_numeric_date sample_jwt t = t" "jl_add_30_days sample_jwt 0 = ?e'" for t
    by (simp_all add: sample_jwt_def)
  ultimately show ?thesis
    by (simp add: setup_session_def create_access_token_def create_refresh_token_def Let_def token_expiry_def sample_server_simps)
qed

lemma session_roundtrip_witness:
  "\<exists>(info :: session_info) u. server_serve sample_jwt ''k'' 0 sample_server None (cookie_request ''token'' (si_access info)) = ServeNext (Some u)
     \<and> auth_user (Some u) = 7 \<and> auth_company (Some u) = 3"
proof -
  obtain info cookies where s: "setup_session sample_jwt ''k'' sample_lib 0 (as_config sample_server) sample_user = (Inr info, cookies)"
    using sample_session by blast
  have c: "map_of (hr_cookies (cookie_request ''token'' (si_access info))) (access_cookie_name (as_config sample_server)) = Some (si_access info)"
    by (simp add: cookie_request_def sample_server_simps)
  have i: "ui_user sample_user = 7" "ui_company sample_user = 3" by (simp_all add: sample_user_def)
  from session_roundtrip[OF sample_jwt_ok s] sample_life(1) c sample_server_simps(3)
  obtain u where "server_serve sample_jwt ''k'' 0 sample_server None (cookie_request ''token'' (si_access info)) = ServeNext (Some u)"
    "auth_user (Some u) = 7" "auth_company (Some u) = 3" unfolding i by blast
  then show ?thesis by (intro exI conjI)
qed

lemma token_type_separation_witness:
  "\<exists>(info :: session_info) resp. refresh_handler sample_res_env sample_jwt ''k'' 0 (as_config sample_server)
        (cookie_request ''refresh-token'' (si_access info)) = (app_error ''Access denied'', [])
     \<and> server_serve sample_jwt ''k'' 0 sample_server None (cookie_request ''token'' (si_refresh info)) = ServeAnswer resp"
proof -
  obtain info cookies where s: "setup_session sample_jwt ''k'' sample_lib 0 (as_config sample_server) sample_user = (Inr info, cookies)"
    using sample_session by blast
  note t = token_type_separation[OF sample_jwt_ok s sample_life]
  have c: "map_of (hr_cookies (cookie_request ''refresh-token'' (si_access info))) (refresh_cookie_name (as_config sample_server)) = Some (si_access info)"
    "map_of (hr_cookies (cookie_request ''token'' (si_refresh info))) (access_cookie_name (as_config sample_server)) = Some (si_refresh info)"
    by (simp_all add: cookie_request_def sample_server_simps)
  from t[where r = "cookie_request ''token'' (si_refresh info)" and ?ctx0.0 = None] c(2) sample_server_simps(4) sample_not_ignored
  obtain resp where "server_serve sample_jwt ''k'' 0 sample_server None (cookie_request ''token'' (si_refresh info)) = ServeAnswer resp" by blast
  moreover from t c(1) have "refresh_handler sample_res_env sample_jwt ''k'' 0 (as_config sample_server) (cookie_request ''refresh-token'' (si_access info)) = (app_error ''Access denied'', [])" by blast
  ultimately show ?thesis by (intro exI conjI)
qed

lemma auth_gate_witness:
  "\<exists>ctx. server_serve sample_jwt ''k'' 0 sample_server None (cookie_request ''token'' ''60.access'') = ServeNext ctx
     \<and> (\<exists>u. ctx = Some u \<and> ui_token_type u = token_type_access)"
proof -
  have p: "parse_jwt sample_jwt ''k'' 0 ''60.access'' token_type_access
      = Inr (sample_user\<lparr>ui_token_type := ''access'', ui_expires := Some 60\<rparr>)"
    by (simp add: parse_jwt_def sample_jwt_def Let_def token_type_access_def is_digit_def digits_val_def digit_val_def)
  let ?r = "cookie_request ''token'' ''60.access''"
  have t: "cookie_or_bearer_token ?r ''token'' = ''60.access''"
    by (simp add: cookie_or_bearer_token_def rq_cookie_def cookie_request_def sample_server_simps)
  have s: "server_serve sample_jwt ''k'' 0 sample_server None ?r
      = ServeNext (Some (sample_user\<lparr>ui_token_type := ''access'', ui_expires := Some 60\<rparr>))"
    by (simp add: server_serve_def auth_handler_def t p Let_def set_user_def sample_server_simps)
  from auth_gate[OF s sample_not_ignored] s show ?thesis by (auto simp: sample_server_simps)
qed


end
