(* ===== verification/HttpLogin.thy ===== *)
theory HttpLogin
  imports HttpAuth
begin

text \<open>
  How the login handler of \<^theory_text>\<open>HttpAuth\<close> limits the guessing of passwords: the two keyed limiters
  through the interface of \<^theory_text>\<open>RateLimit\<close>, bursts of requests, and requests handled at the same time.
\<close>

section \<open>Facts on the limits of the login\<close>

definition lim_ok :: "keyed_limiter option \<Rightarrow> bool" where
  "lim_ok k = (case k of None \<Rightarrow> True | Some l \<Rightarrow> keyed_ok l)"

definition limiters_ok :: "login_limiters \<Rightarrow> bool" where
  "limiters_ok st \<longleftrightarrow> lim_ok (ll_ip st) \<and> lim_ok (ll_account st)"

text \<open>What a limiter still allows for each key; \<^const>\<open>None\<close> when it is switched off.\<close>

definition lim_view :: "gotime \<Rightarrow> keyed_limiter option \<Rightarrow> (string \<Rightarrow> nat) option" where
  "lim_view now k = map_option (keyed_avail now) k"

lemma opt_limited_facts:
  assumes "lim_ok k" "opt_limited now key k = (b, k')"
  shows "lim_ok k'" "lim_view now k' = lim_view now k" "b \<longleftrightarrow> (\<exists>f. lim_view now k = Some f \<and> f key = 0)"
proof -
  have "lim_ok k' \<and> lim_view now k' = lim_view now k \<and> (b \<longleftrightarrow> (\<exists>f. lim_view now k = Some f \<and> f key = 0))"
  proof (cases k)
    case None
    with assms(2) show ?thesis by (simp add: opt_limited_def lim_ok_def lim_view_def)
  next
    case (Some l)
    then have ok: "keyed_ok l" using assms(1) by (simp add: lim_ok_def)
    obtain e l' where l: "keyed_is_limited now key l = (e, l')" by fastforce
    have "keyed_ok l'" "e = None \<longleftrightarrow> 0 < keyed_avail now l key" "\<And>x. keyed_avail now l' x = keyed_avail now l x"
      using kl.limited_ok[OF ok, of now key] kl.limited_iff[OF ok, of now key] kl.limited_avail[OF ok, of now key] l by simp_all
    then show ?thesis using assms(2) l Some
      by (auto simp: opt_limited_def lim_ok_def lim_view_def)
  qed
  then show "lim_ok k'" "lim_view now k' = lim_view now k" "b \<longleftrightarrow> (\<exists>f. lim_view now k = Some f \<and> f key = 0)" by blast+
qed

lemma opt_take_facts:
  assumes "lim_ok k"
  shows "lim_ok (opt_take now key k)"
    "lim_view now (opt_take now key k) = map_option (\<lambda>f x. if x = key then f key - 1 else f x) (lim_view now k)"
proof -
  have "lim_ok (opt_take now key k) \<and>
    lim_view now (opt_take now key k) = map_option (\<lambda>f x. if x = key then f key - 1 else f x) (lim_view now k)"
  proof (cases k)
    case None
    then show ?thesis by (simp add: opt_take_def lim_ok_def lim_view_def)
  next
    case (Some l)
    then have ok: "keyed_ok l" using assms by (simp add: lim_ok_def)
    show ?thesis using kl.take_ok[OF ok, of now key] kl.take_avail[OF ok, of now key] Some
      by (auto simp: opt_take_def lim_ok_def lim_view_def fun_eq_iff)
  qed
  then show "lim_ok (opt_take now key k)"
    "lim_view now (opt_take now key k) = map_option (\<lambda>f x. if x = key then f key - 1 else f x) (lim_view now k)" by blast+
qed

text \<open>Admission changes nothing that a limiter allows, and depends on nothing else of the state.\<close>

lemma login_admit_facts:
  assumes "limiters_ok st" "login_admit uni unmarshal now ip_ctx r body st = (x, st1)"
  shows "limiters_ok st1" "lim_view now (ll_ip st1) = lim_view now (ll_ip st)"
    "lim_view now (ll_account st1) = lim_view now (ll_account st)"
    "x = Inr (creds, ipk, ack) \<Longrightarrow> (\<forall>f. lim_view now (ll_ip st) = Some f \<longrightarrow> 0 < f ipk)
        \<and> (\<forall>f. lim_view now (ll_account st) = Some f \<longrightarrow> ack \<noteq> '''' \<longrightarrow> 0 < f ack)"
proof -
  let ?ipk = "if ll_ip st = None then '''' else login_rate_limit_key ip_ctx r"
  obtain b ip' where ip: "opt_limited now ?ipk (ll_ip st) = (b, ip')" by fastforce
  have ok: "lim_ok (ll_ip st)" "lim_ok (ll_account st)" using assms(1) by (simp_all add: limiters_ok_def)
  note i = opt_limited_facts[OF ok(1) ip]
  have "limiters_ok st1 \<and> lim_view now (ll_ip st1) = lim_view now (ll_ip st)
    \<and> lim_view now (ll_account st1) = lim_view now (ll_account st)
    \<and> (x = Inr (creds, ipk, ack) \<longrightarrow> (\<forall>f. lim_view now (ll_ip st) = Some f \<longrightarrow> 0 < f ipk)
        \<and> (\<forall>f. lim_view now (ll_account st) = Some f \<longrightarrow> ack \<noteq> '''' \<longrightarrow> 0 < f ack))"
  proof (cases "\<not> b \<and> (\<exists>json u pw. body = Inr json \<and> unmarshal json = Inr (u, pw))")
    case False
    then have "\<exists>resp. (x, st1) = (Inl resp, st\<lparr>ll_ip := ip'\<rparr>)"
      using assms(2) by (cases body) (auto simp: login_admit_def Let_def ip split: sum.splits if_splits)
    then show ?thesis using i(1,2) ok by (auto simp: limiters_ok_def)
  next
    case True
    then obtain json u pw where j: "body = Inr json" "unmarshal json = Inr (u, pw)" and nb: "\<not> b" by blast
    let ?ack = "account_lockout_key uni u"
    from nb i(3) have ip_pos: "\<forall>f. lim_view now (ll_ip st) = Some f \<longrightarrow> 0 < f ?ipk" by simp
    obtain b2 acc' where acc: "(if ?ack \<noteq> '''' then opt_limited now ?ack (ll_account st) else (False, ll_account st)) = (b2, acc')"
      by fastforce
    have a: "lim_ok acc'" "lim_view now acc' = lim_view now (ll_account st)"
      "\<not> b2 \<longrightarrow> ?ack \<noteq> '''' \<longrightarrow> (\<forall>f. lim_view now (ll_account st) = Some f \<longrightarrow> 0 < f ?ack)"
      using acc ok(2) opt_limited_facts[OF ok(2), of now ?ack b2 acc'] by (auto split: if_splits)
    have "(x, st1) = (if b2 then Inl too_many_requests
        else Inr (\<lparr>cr_username = u, cr_password = pw, cr_raw = json\<rparr>, ?ipk, ?ack), st\<lparr>ll_ip := ip', ll_account := acc'\<rparr>)"
    proof (cases "?ack = []")
      case True
      moreover have "st\<lparr>ll_ip := ip', ll_account := ll_account st\<rparr> = st\<lparr>ll_ip := ip'\<rparr>" by (cases st) simp
      ultimately show ?thesis unfolding assms(2)[symmetric] using nb j acc by (simp add: login_admit_def Let_def ip)
    next
      case False
      with acc have "opt_limited now ?ack (ll_account st) = (b2, acc')" by simp
      with False show ?thesis unfolding assms(2)[symmetric] using nb j by (simp add: login_admit_def Let_def ip)
    qed
    then show ?thesis using a i(1,2) ip_pos by (auto simp: limiters_ok_def split: if_splits)
  qed
  then show "limiters_ok st1" "lim_view now (ll_ip st1) = lim_view now (ll_ip st)"
    "lim_view now (ll_account st1) = lim_view now (ll_account st)"
    "x = Inr (creds, ipk, ack) \<Longrightarrow> (\<forall>f. lim_view now (ll_ip st) = Some f \<longrightarrow> 0 < f ipk)
        \<and> (\<forall>f. lim_view now (ll_account st) = Some f \<longrightarrow> ack \<noteq> '''' \<longrightarrow> 0 < f ack)" by blast+
qed

text \<open>A failed credential check of a request: the keys it is charged to.\<close>

definition login_failure :: "(string \<Rightarrow> string) \<Rightarrow> (string \<Rightarrow> go_error + string \<times> string) \<Rightarrow> gotime
    \<Rightarrow> (credential \<Rightarrow> go_error + user_info) \<Rightarrow> string option \<Rightarrow> http_request \<Rightarrow> string + string \<Rightarrow> login_limiters
    \<Rightarrow> (string \<times> string) option" where
  "login_failure uni unmarshal now checker ip_ctx r body st =
     (case fst (login_admit uni unmarshal now ip_ctx r body st) of
        Inl _ \<Rightarrow> None
      | Inr (creds, ipk, ack) \<Rightarrow> (case checker creds of Inl _ \<Rightarrow> Some (ipk, ack) | Inr _ \<Rightarrow> None))"

text \<open>A burst of requests, one after the other: the failed checks in it and the limiters after it.\<close>

fun login_burst :: "res_env \<Rightarrow> jwt_lib \<Rightarrow> string \<Rightarrow> (string \<Rightarrow> string) \<Rightarrow> (string \<Rightarrow> go_error + string \<times> string)
    \<Rightarrow> gotime \<Rightarrow> 'u auth_config \<Rightarrow> (credential \<Rightarrow> go_error + user_info) \<Rightarrow> (string option \<times> http_request \<times> (string + string)) list
    \<Rightarrow> login_limiters \<Rightarrow> (string \<times> string) list \<times> login_limiters" where
  "login_burst env L key uni unmarshal now c checker [] st = ([], st)"
| "login_burst env L key uni unmarshal now c checker ((ip_ctx, r, body) # qs) st =
     (let f = login_failure uni unmarshal now checker ip_ctx r body st;
          st1 = snd (login_handler env L key uni unmarshal now c checker ip_ctx r body st);
          (fs, st2) = login_burst env L key uni unmarshal now c checker qs st1
      in (case f of None \<Rightarrow> fs | Some x \<Rightarrow> x # fs, st2))"

definition charge :: "string \<Rightarrow> (string \<Rightarrow> nat) \<Rightarrow> string \<Rightarrow> nat" where
  "charge key f = (\<lambda>x. if x = key then f key - 1 else f x)"

lemma login_step:
  assumes ok: "limiters_ok st" and st1_def: "st1 = snd (login_handler env L key uni unmarshal now c checker ip_ctx r body st)"
  shows "case login_failure uni unmarshal now checker ip_ctx r body st of
      None \<Rightarrow> limiters_ok st1 \<and> lim_view now (ll_ip st1) = lim_view now (ll_ip st)
         \<and> lim_view now (ll_account st1) = lim_view now (ll_account st)
    | Some (ipk, ack) \<Rightarrow> limiters_ok st1
         \<and> lim_view now (ll_ip st1) = map_option (charge ipk) (lim_view now (ll_ip st))
         \<and> lim_view now (ll_account st1) = (if ack = '''' then lim_view now (ll_account st)
              else map_option (charge ack) (lim_view now (ll_account st)))
         \<and> (\<forall>f. lim_view now (ll_ip st) = Some f \<longrightarrow> 0 < f ipk)
         \<and> (\<forall>f. lim_view now (ll_account st) = Some f \<longrightarrow> ack \<noteq> '''' \<longrightarrow> 0 < f ack)"
proof -
  obtain x s1 where a: "login_admit uni unmarshal now ip_ctx r body st = (x, s1)" by fastforce
  note f = login_admit_facts[OF ok a]
  show ?thesis
  proof (cases x)
    case (Inl resp)
    then show ?thesis using f a by (simp add: login_failure_def st1_def login_handler_def)
  next
    case (Inr adm)
    obtain creds ipk ack where adm: "adm = (creds, ipk, ack)" by (cases adm) auto
    show ?thesis
    proof (cases "checker creds")
      case (Inr user)
      then have "st1 = s1" using a \<open>x = Inr adm\<close> adm
        by (auto simp: st1_def login_handler_def login_finish_def split: prod.split sum.split)
      then show ?thesis using f(1-3) a Inr \<open>x = Inr adm\<close> adm by (simp add: login_failure_def)
    next
      case (Inl e)
      have s1: "lim_ok (ll_ip s1)" "lim_ok (ll_account s1)" using f(1) by (simp_all add: limiters_ok_def)
      have "st1 = \<lparr>ll_ip = opt_take now ipk (ll_ip s1),
          ll_account = (if ack \<noteq> '''' then opt_take now ack (ll_account s1) else ll_account s1)\<rparr>"
        using a Inl \<open>x = Inr adm\<close> adm by (simp add: st1_def login_handler_def login_finish_def)
      then show ?thesis
        using f(2-4) a Inl \<open>x = Inr adm\<close> adm opt_take_facts[OF s1(1), of now ipk] opt_take_facts[OF s1(2), of now ack] s1
        by (simp add: login_failure_def limiters_ok_def charge_def[abs_def])
    qed
  qed
qed

lemma charge_le: "charge k f x \<le> f x"
  by (simp add: charge_def)

lemma charge_self: "0 < f k \<Longrightarrow> charge k f x + (if x = k then 1 else 0) = f x"
  by (simp add: charge_def)

lemma login_burst_ip:
  assumes "limiters_ok st" "lim_view now (ll_ip st) = Some f"
    "login_burst env L key uni unmarshal now c checker qs st = (fs, st')"
  shows "length (filter (\<lambda>x. fst x = k) fs) \<le> f k"
  using assms
proof (induction env L key uni unmarshal now c checker qs st arbitrary: f fs st' rule: login_burst.induct)
  case (2 env L key uni unmarshal now c checker ip_ctx r body qs st)
  let ?F = "login_failure uni unmarshal now checker ip_ctx r body st"
  let ?st1 = "snd (login_handler env L key uni unmarshal now c checker ip_ctx r body st)"
  obtain fs1 st2 where b: "login_burst env L key uni unmarshal now c checker qs ?st1 = (fs1, st2)" by fastforce
  note step = login_step[OF 2(2) refl, where now = now and uni = uni and unmarshal = unmarshal and checker = checker
      and ip_ctx = ip_ctx and r = r and body = body and env = env and L = L and key = key and c = c]
  show ?case
  proof (cases ?F)
    case None
    with step 2(3) have "limiters_ok ?st1" "lim_view now (ll_ip ?st1) = Some f" by simp_all
    from 2(1)[OF refl refl this b] None 2(4) b show ?thesis by simp
  next
    case (Some x)
    obtain ipk ack where x: "x = (ipk, ack)" by (cases x) auto
    with step Some 2(3) have s: "limiters_ok ?st1" "lim_view now (ll_ip ?st1) = Some (charge ipk f)" "0 < f ipk" by simp_all
    from 2(1)[OF refl refl s(1,2) b] have "length (filter (\<lambda>x. fst x = k) fs1) \<le> charge ipk f k" .
    moreover have "fs = (ipk, ack) # fs1" using 2(4) Some x b by simp
    ultimately show ?thesis using charge_self[of f ipk k, OF s(3)] by (auto split: if_splits)
  qed
qed simp

lemma login_burst_account:
  assumes "limiters_ok st" "lim_view now (ll_account st) = Some f" "k \<noteq> ''''"
    "login_burst env L key uni unmarshal now c checker qs st = (fs, st')"
  shows "length (filter (\<lambda>x. snd x = k) fs) \<le> f k"
  using assms
proof (induction env L key uni unmarshal now c checker qs st arbitrary: f fs st' rule: login_burst.induct)
  case (2 env L key uni unmarshal now c checker ip_ctx r body qs st)
  let ?F = "login_failure uni unmarshal now checker ip_ctx r body st"
  let ?st1 = "snd (login_handler env L key uni unmarshal now c checker ip_ctx r body st)"
  obtain fs1 st2 where b: "login_burst env L key uni unmarshal now c checker qs ?st1 = (fs1, st2)" by fastforce
  note step = login_step[OF 2(2) refl, where now = now and uni = uni and unmarshal = unmarshal and checker = checker
      and ip_ctx = ip_ctx and r = r and body = body and env = env and L = L and key = key and c = c]
  show ?case
  proof (cases ?F)
    case None
    with step 2(3) have "limiters_ok ?st1" "lim_view now (ll_account ?st1) = Some f" by simp_all
    from 2(1)[OF refl refl this 2(4) b] None 2(5) b show ?thesis by simp
  next
    case (Some x)
    obtain ipk ack where x: "x = (ipk, ack)" by (cases x) auto
    define g where "g = (if ack = '''' then f else charge ack f)"
    from x step Some 2(3) have s: "limiters_ok ?st1" "lim_view now (ll_account ?st1) = Some g" "ack \<noteq> '''' \<Longrightarrow> 0 < f ack"
      by (simp_all add: g_def split: if_splits)
    from 2(1)[OF refl refl s(1,2) 2(4) b] have "length (filter (\<lambda>x. snd x = k) fs1) \<le> g k" .
    moreover have "fs = (ipk, ack) # fs1" using 2(5) Some x b by simp
    ultimately show ?thesis using charge_self[of f ack k] s(3) 2(4) by (auto simp: g_def split: if_splits)
  qed
qed simp

lemma new_limiters:
  assumes "0 \<le> ac_ip_count c" "ac_ip_count c < 2 ^ 53" "0 \<le> ac_ip_window c"
    "0 \<le> ac_user_count c" "ac_user_count c < 2 ^ 53" "0 \<le> ac_user_window c"
  shows "limiters_ok (new_login_limiters c)"
    and "lim_view now (ll_ip (new_login_limiters c)) =
      (if ac_ip_disabled c then None else Some (\<lambda>_. nat (if ac_ip_count c = 0 then 10 else ac_ip_count c)))"
    and "lim_view now (ll_account (new_login_limiters c)) =
      (if ac_user_disabled c then None else Some (\<lambda>_. nat (if ac_user_count c = 0 then 5 else ac_user_count c)))"
proof -
  have k: "keyed_ok (new_keyed n w)" "keyed_avail now (new_keyed n w) = (\<lambda>_. nat n)"
    if "0 \<le> n" "n < 2 ^ 53" "0 \<le> w" for n w
    using that f64_count[of n] by (auto simp: keyed_ok_def new_keyed_def keyed_avail_def view_new fun_eq_iff)
  have c: "0 \<le> (if ac_ip_count c = 0 then 10 else ac_ip_count c)" "(if ac_ip_count c = 0 then 10 else ac_ip_count c) < 2 ^ 53"
    "0 \<le> (if ac_ip_window c = 0 then go_minute else ac_ip_window c)"
    "0 \<le> (if ac_user_count c = 0 then 5 else ac_user_count c)" "(if ac_user_count c = 0 then 5 else ac_user_count c) < 2 ^ 53"
    "0 \<le> (if ac_user_window c = 0 then 15 * go_minute else ac_user_window c)"
    using assms by (auto simp: go_minute_def go_second_def)
  note k1 = k[OF c(1-3)] and k2 = k[OF c(4-6)]
  show "limiters_ok (new_login_limiters c)"
    using k1(1) k2(1) by (simp add: limiters_ok_def lim_ok_def new_login_limiters_def)
  show "lim_view now (ll_ip (new_login_limiters c)) =
      (if ac_ip_disabled c then None else Some (\<lambda>_. nat (if ac_ip_count c = 0 then 10 else ac_ip_count c)))"
    using k1(2) by (simp add: lim_view_def new_login_limiters_def)
  show "lim_view now (ll_account (new_login_limiters c)) =
      (if ac_user_disabled c then None else Some (\<lambda>_. nat (if ac_user_count c = 0 then 5 else ac_user_count c)))"
    using k2(2) by (simp add: lim_view_def new_login_limiters_def)
qed

lemma login_burst_bounded_parts:
  assumes "0 \<le> ac_ip_count c" "ac_ip_count c < 2 ^ 53" "0 \<le> ac_ip_window c"
    "0 \<le> ac_user_count c" "ac_user_count c < 2 ^ 53" "0 \<le> ac_user_window c"
    and "login_burst env L key uni unmarshal now c checker qs (new_login_limiters c) = (fs, st)"
  shows "\<not> ac_ip_disabled c \<Longrightarrow>
      length (filter (\<lambda>x. fst x = k) fs) \<le> nat (if ac_ip_count c = 0 then 10 else ac_ip_count c)"
    and "\<not> ac_user_disabled c \<Longrightarrow> account_lockout_key uni name \<noteq> '''' \<Longrightarrow>
      length (filter (\<lambda>x. snd x = account_lockout_key uni name) fs) \<le> nat (if ac_user_count c = 0 then 5 else ac_user_count c)"
proof -
  note n = new_limiters[OF assms(1-6)]
  show "\<not> ac_ip_disabled c \<Longrightarrow>
      length (filter (\<lambda>x. fst x = k) fs) \<le> nat (if ac_ip_count c = 0 then 10 else ac_ip_count c)"
    using login_burst_ip[OF n(1) _ assms(7), of _ k] n(2)[of now] by simp
  show "\<not> ac_user_disabled c \<Longrightarrow> account_lockout_key uni name \<noteq> '''' \<Longrightarrow>
      length (filter (\<lambda>x. snd x = account_lockout_key uni name) fs) \<le> nat (if ac_user_count c = 0 then 5 else ac_user_count c)"
    using login_burst_account[OF n(1) _ _ assms(7), of _ "account_lockout_key uni name"] n(3)[of now] by simp
qed



text \<open>
  The limit does not hold for requests handled at the same time: checking the limit and charging it
  are separate, so all requests of a burst are admitted while one failure is left.
\<close>

fun admit_all :: "(string \<Rightarrow> string) \<Rightarrow> (string \<Rightarrow> go_error + string \<times> string) \<Rightarrow> gotime \<Rightarrow> string option \<Rightarrow> http_request
    \<Rightarrow> string + string \<Rightarrow> nat \<Rightarrow> login_limiters \<Rightarrow> (responder + credential \<times> string \<times> string) list \<times> login_limiters" where
  "admit_all uni unmarshal now ip_ctx r body 0 st = ([], st)"
| "admit_all uni unmarshal now ip_ctx r body (Suc n) st =
     (let (x, st1) = login_admit uni unmarshal now ip_ctx r body st;
          (xs, st2) = admit_all uni unmarshal now ip_ctx r body n st1
      in (x # xs, st2))"

lemma opt_limited_cong:
  "lim_ok k \<Longrightarrow> lim_ok k' \<Longrightarrow> lim_view now k = lim_view now k' \<Longrightarrow> fst (opt_limited now key k) = fst (opt_limited now key k')"
  using opt_limited_facts(3)[of k now key "fst (opt_limited now key k)" "snd (opt_limited now key k)"]
    opt_limited_facts(3)[of k' now key "fst (opt_limited now key k')" "snd (opt_limited now key k')"] by simp

lemma login_admit_cong:
  assumes "limiters_ok st" "limiters_ok st'" "lim_view now (ll_ip st) = lim_view now (ll_ip st')"
    "lim_view now (ll_account st) = lim_view now (ll_account st')"
  shows "fst (login_admit uni unmarshal now ip_ctx r body st) = fst (login_admit uni unmarshal now ip_ctx r body st')"
proof -
  have ok: "lim_ok (ll_ip st)" "lim_ok (ll_ip st')" "lim_ok (ll_account st)" "lim_ok (ll_account st')"
    using assms(1,2) by (simp_all add: limiters_ok_def)
  have n: "ll_ip st = None \<longleftrightarrow> ll_ip st' = None"
    using assms(3) by (cases "ll_ip st"; cases "ll_ip st'") (simp_all add: lim_view_def)
  let ?k = "if ll_ip st = None then [] else login_rate_limit_key ip_ctx r"
  obtain b i1 where 1: "opt_limited now ?k (ll_ip st) = (b, i1)" by fastforce
  then obtain i2 where 2: "opt_limited now ?k (ll_ip st') = (b, i2)"
    using opt_limited_cong[OF ok(1,2) assms(3), of ?k] by (cases "opt_limited now ?k (ll_ip st')") simp
  have 3: "fst (opt_limited now key (ll_account st)) = fst (opt_limited now key (ll_account st'))" for key
    by (rule opt_limited_cong[OF ok(3,4) assms(4)])
  have c: "fst (case p of (l, a) \<Rightarrow> if l then (X, f a) else (Y, g a)) = (if fst p then X else Y)"
    for p :: "bool \<times> keyed_limiter option" and X Y :: 'x and f g :: "keyed_limiter option \<Rightarrow> login_limiters"
    by (cases p) simp
  show ?thesis
  proof (cases "\<exists>json u pw. body = Inr json \<and> unmarshal json = Inr (u, pw)")
    case True
    then obtain json u pw where "body = Inr json" "unmarshal json = Inr (u, pw)" by blast
    then show ?thesis using 1 2 3 n by (simp add: login_admit_def Let_def c)
  next
    case False
    then show ?thesis using 1 2 n by (cases body) (auto simp: login_admit_def Let_def split: sum.splits)
  qed
qed

lemma concurrent_logins_unlimited:
  assumes "limiters_ok st" "fst (login_admit uni unmarshal now ip_ctx r body st) = Inr a"
  shows "fst (admit_all uni unmarshal now ip_ctx r body n st) = replicate n (Inr a)"
  using assms
proof (induction n arbitrary: st)
  case (Suc n)
  obtain x st1 where x: "login_admit uni unmarshal now ip_ctx r body st = (x, st1)" by fastforce
  note f = login_admit_facts[OF Suc.prems(1) x]
  have "fst (login_admit uni unmarshal now ip_ctx r body st1) = Inr a"
    using login_admit_cong[OF f(1) Suc.prems(1) f(2,3)] Suc.prems(2) by simp
  from Suc.IH[OF f(1) this] x Suc.prems(2) show ?case
    by (cases "admit_all uni unmarshal now ip_ctx r body n st1") simp
qed simp

end
