(* ===== verification/RemoteZip.thy ===== *)
theory RemoteZip
  imports GoText "HOL-Library.Multiset"
begin

text \<open>
  Package \<^verbatim>\<open>remotezip\<close> (\<^verbatim>\<open>remotezip/main.go\<close>): building an archive from remote files.  The archive is
  the list of its entries; what the operating system and the downloads answer is an argument.  A
  reader is the bytes it yields and the error it ends in.  The workers share the archive under its
  lock, so that a run is the sequence of their items in the order in which they are finished.
\<close>

section \<open>Entry names\<close>

text \<open>\<^verbatim>\<open>path.Clean\<close>, by the rules of its documentation, on the components of the path.\<close>

definition clean_step :: "bool \<Rightarrow> string list \<Rightarrow> string \<Rightarrow> string list" where
  "clean_step rooted st c =
     (if c = ''..'' then
        (if st \<noteq> [] \<and> last st \<noteq> ''..'' then butlast st else if rooted then st else st @ [c])
      else st @ [c])"

definition clean_path :: "string \<Rightarrow> string" where
  "clean_path p =
     (let rooted = has_prefix p ''/'';
          cs = filter (\<lambda>c. c \<noteq> '''' \<and> c \<noteq> ''.'') (split_char (CHR ''/'') p);
          r = (if rooted then ''/'' else '''') @ join_with ''/'' (foldl (clean_step rooted) [] cs)
      in if r = '''' then ''.'' else r)"

definition sanitize_zip_name :: "string \<Rightarrow> string + string" where
  "sanitize_zip_name name =
     (let n1 = replace_all name [CHR 0x5C] ''/'';
          n2 = trim_prefix (clean_path (''/'' @ n1)) ''/''
      in if n2 = '''' \<or> n2 = ''.'' then Inl ''remotezip: invalid (empty) entry name'' else Inr n2)"

section \<open>The archive\<close>

definition gb :: int where "gb = 1024 * 1024 * 1024"
definition mb :: int where "mb = 1024 * 1024"

definition default_max_file_size :: int where "default_max_file_size = 2 * gb"
definition default_max_total_size :: int where "default_max_total_size = 10 * gb"

type_synonym reader = "string \<times> string option"

record 'item zip_state =
  rz_entries :: "(string \<times> string) list"
  rz_temp_dir :: bool
  rz_queue :: "'item list"
  rz_total_written :: int
  rz_err :: "string option"

definition new_zip :: "'item zip_state" where
  "new_zip = \<lparr>rz_entries = [], rz_temp_dir = False, rz_queue = [], rz_total_written = 0, rz_err = None\<rparr>"

text \<open>The free bytes of the volume, where they are known; a failing call is an error.\<close>

definition check_disk_space :: "bool \<Rightarrow> string + int \<Rightarrow> string option" where
  "check_disk_space linux avail =
     (if linux then
        (case avail of
           Inl e \<Rightarrow> Some e
         | Inr n \<Rightarrow> if n < gb then Some ''Not enough free space on server (need at least 1GB)'' else None)
      else None)"

text \<open>\<open>mkdir\<close> and \<open>create\<close> are the errors of making the directory and the file in it.\<close>

definition init_internals :: "string option \<Rightarrow> string option \<Rightarrow> 'item zip_state \<Rightarrow> string option \<times> 'item zip_state" where
  "init_internals mkdir create z =
     (if rz_err z \<noteq> None then (rz_err z, z)
      else if rz_temp_dir z then (None, z)
      else (case mkdir of
          Some e \<Rightarrow> (Some e, z\<lparr>rz_err := Some e\<rparr>)
        | None \<Rightarrow>
            (case create of
               Some e \<Rightarrow> (Some e, z\<lparr>rz_temp_dir := True, rz_err := Some e\<rparr>)
             | None \<Rightarrow> (None, z\<lparr>rz_temp_dir := True, rz_entries := []\<rparr>))))"

text \<open>The limit of a copy; \<open>-1\<close> is none.\<close>

definition copy_remaining :: "int \<Rightarrow> int \<Rightarrow> int \<Rightarrow> int" where
  "copy_remaining max_file max_total total_written =
     (let remaining = (if 0 < max_file then max_file else - 1)
      in if 0 < max_total then
           (let total_remaining = (if max_total - total_written < 0 then 0 else max_total - total_written)
            in if remaining < 0 \<or> total_remaining < remaining then total_remaining else remaining)
         else remaining)"

definition copy_with_limit :: "int \<Rightarrow> int \<Rightarrow> reader \<Rightarrow> 'item zip_state \<Rightarrow> string option \<times> string \<times> 'item zip_state" where
  "copy_with_limit max_file max_total data z =
     (let remaining = copy_remaining max_file max_total (rz_total_written z)
      in if remaining < 0 then
           (snd data, fst data, z\<lparr>rz_total_written := rz_total_written z + int (length (fst data))\<rparr>)
         else
           (let limit = i64 (remaining + 1);
                written = take (nat limit) (fst data);
                err = (if int (length (fst data)) < limit then snd data else None);
                z1 = z\<lparr>rz_total_written := rz_total_written z + int (length written)\<rparr>
            in if err \<noteq> None then (err, written, z1)
               else if remaining < int (length written)
               then (Some ''remotezip: entry exceeds configured size cap (MaxFileSize/MaxTotalSize)'', written, z1)
               else (None, written, z1)))"

text \<open>The environment of an addition: the two size limits, the errors of setting up, and of opening an entry.\<close>

record zip_env =
  ze_max_file :: int
  ze_max_total :: int
  ze_mkdir :: "string option"
  ze_create :: "string option"
  ze_open_entry :: "string \<Rightarrow> string option"

definition add_file_unsafe :: "zip_env \<Rightarrow> string \<Rightarrow> reader \<Rightarrow> 'item zip_state \<Rightarrow> string option \<times> 'item zip_state" where
  "add_file_unsafe env name data z =
     (if rz_err z \<noteq> None then (rz_err z, z)
      else (case sanitize_zip_name name of
          Inl e \<Rightarrow> (Some e, z\<lparr>rz_err := Some e\<rparr>)
        | Inr clean \<Rightarrow>
            (case init_internals (ze_mkdir env) (ze_create env) z of
               (Some e, z1) \<Rightarrow> (Some e, z1\<lparr>rz_err := Some e\<rparr>)
             | (None, z1) \<Rightarrow>
                 (case ze_open_entry env clean of
                    Some e \<Rightarrow> (Some e, z1\<lparr>rz_err := Some e\<rparr>)
                  | None \<Rightarrow>
                      (case copy_with_limit (ze_max_file env) (ze_max_total env) data z1 of
                         (err, written, z2) \<Rightarrow>
                           (err, z2\<lparr>rz_entries := rz_entries z2 @ [(clean, written)], rz_err := err\<rparr>))))))"

definition add_memory_file :: "zip_env \<Rightarrow> string \<Rightarrow> reader \<Rightarrow> 'item zip_state \<Rightarrow> string option \<times> 'item zip_state" where
  "add_memory_file env name data z = add_file_unsafe env name data z"

section \<open>Downloads\<close>

text \<open>
  One attempt at an item: whether the temporary file could be reset in place, the error of replacing
  it, the outcome of the download, and the error of rewinding the file and of replacing it then.
\<close>

record attempt =
  at_reset_ok :: bool
  at_replace :: "string option"
  at_download :: "string + string"
  at_seek :: "string option"
  at_replace2 :: "string option"

record download_item =
  di_name :: string
  di_attempts :: "attempt list"

definition add_remote_file :: "string \<Rightarrow> attempt list \<Rightarrow> download_item zip_state \<Rightarrow> string option \<times> download_item zip_state" where
  "add_remote_file name download z =
     (if rz_err z \<noteq> None then (rz_err z, z)
      else (None, z\<lparr>rz_queue := rz_queue z @ [\<lparr>di_name = name, di_attempts = download\<rparr>]\<rparr>))"

definition max_attempt_ct :: nat where "max_attempt_ct = 2"

text \<open>
  The loop of a worker over the attempts at one item, from attempt \<open>i\<close>: the error with which the
  worker gives up, if it does.
\<close>

fun attempt_loop :: "zip_env \<Rightarrow> string \<Rightarrow> nat \<Rightarrow> attempt list \<Rightarrow> 'item zip_state \<Rightarrow> string option \<times> 'item zip_state" where
  "attempt_loop env name i [] z = (None, z)"
| "attempt_loop env name i (a # as) z =
     (if max_attempt_ct \<le> i then (None, z)
      else if \<not> at_reset_ok a \<and> at_replace a \<noteq> None then (at_replace a, z)
      else (case at_download a of
          Inl e \<Rightarrow> if i < max_attempt_ct then attempt_loop env name (Suc i) as z else (Some e, z)
        | Inr content \<Rightarrow>
            (case at_seek a of
               Some e \<Rightarrow>
                 if max_attempt_ct \<le> i then (Some e, z)
                 else if at_replace2 a \<noteq> None then (at_replace2 a, z)
                 else attempt_loop env name (Suc i) as z
             | None \<Rightarrow>
                 (case add_file_unsafe env name (content, None) z of
                    (Some e, z1) \<Rightarrow> if max_attempt_ct \<le> i then (Some e, z1) else attempt_loop env name (Suc i) as z1
                  | (None, z1) \<Rightarrow> (None, z1)))))"

text \<open>The items in the order in which the workers finish them, and the errors of workers that gave up.\<close>

fun run_items :: "zip_env \<Rightarrow> download_item list \<Rightarrow> download_item zip_state \<Rightarrow> string list \<times> download_item zip_state" where
  "run_items env [] z = ([], z)"
| "run_items env (it # its) z =
     (case attempt_loop env (di_name it) 0 (di_attempts it) z of
        (None, z1) \<Rightarrow> run_items env its z1
      | (Some e, z1) \<Rightarrow> (case run_items env its z1 of (es, z2) \<Rightarrow> (e # es, z2)))"

text \<open>
  The loop that feeds the workers.  For each item the select either queues it or receives what a
  worker ended with; after every tenth item the disk is checked.
\<close>

datatype feed_choice = Queued | WorkerEnded "string option"

fun feed_loop :: "(nat \<Rightarrow> string option) \<Rightarrow> nat \<Rightarrow> download_item list \<Rightarrow> feed_choice list \<Rightarrow> download_item list \<times> string option" where
  "feed_loop disk i [] choices = ([], None)"
| "feed_loop disk i (it # its) choices =
     (let (queued, loop_err) = (case choices of
          WorkerEnded e # _ \<Rightarrow> ([], e)
        | _ \<Rightarrow> ([it], None))
      in if loop_err \<noteq> None then (queued, loop_err)
         else if i \<noteq> 0 \<and> i mod 10 = 0 \<and> disk i \<noteq> None then (queued, disk i)
         else (case feed_loop disk (Suc i) its (tl choices) of (q, e) \<Rightarrow> (queued @ q, e)))"

definition setup_for_run :: "zip_env \<Rightarrow> string option \<Rightarrow> download_item zip_state \<Rightarrow> (string + download_item list) \<times> download_item zip_state" where
  "setup_for_run env disk z =
     (case rz_err z of
        Some e \<Rightarrow> (Inl e, z)
      | None \<Rightarrow>
          (case init_internals (ze_mkdir env) (ze_create env) z of
             (Some e, z1) \<Rightarrow> (Inl e, z1)
           | (None, z1) \<Rightarrow>
               (case disk of
                  Some e \<Rightarrow> (Inl e, z1\<lparr>rz_err := Some e\<rparr>)
                | None \<Rightarrow> (Inr (rz_queue z1), z1))))"

text \<open>
  \<^verbatim>\<open>Run\<close>.  \<open>order\<close> rearranges the queued items into the order of their completion, \<open>errc\<close> is what is
  in the error channel at the end: what the first worker to end answered, which may be no error.
  \<open>finish\<close> are the errors of the remaining calls (closing, renaming, opening), in order.
\<close>

definition zip_run :: "zip_env \<Rightarrow> (nat \<Rightarrow> string option) \<Rightarrow> feed_choice list \<Rightarrow> (download_item list \<Rightarrow> download_item list)
    \<Rightarrow> (string list \<Rightarrow> string option) \<Rightarrow> string option list \<Rightarrow> download_item zip_state
    \<Rightarrow> (string + (string \<times> string) list) \<times> download_item zip_state" where
  "zip_run env disk choices order errc finish z =
     (case setup_for_run env (disk 0) z of
        (Inl e, z1) \<Rightarrow> (Inl e, z1)
      | (Inr items, z1) \<Rightarrow>
          (let (queued, loop_err) = feed_loop disk 0 items choices;
               (errs, z2) = run_items env (order queued) z1;
               z3 = (if rz_err z2 = None
                     then z2\<lparr>rz_err := (if loop_err \<noteq> None then loop_err else errc errs)\<rparr> else z2)
           in case rz_err z3 of
                Some e \<Rightarrow> (Inl e, z3)
              | None \<Rightarrow>
                  (case find (\<lambda>e. e \<noteq> None) finish of
                     Some (Some e) \<Rightarrow> (Inl e, z3\<lparr>rz_err := Some e\<rparr>)
                   | _ \<Rightarrow> (Inr (rz_entries z3), z3\<lparr>rz_temp_dir := False\<rparr>))))"

definition zip_close :: "string option \<Rightarrow> 'item zip_state \<Rightarrow> string option \<times> 'item zip_state" where
  "zip_close remove z = (if rz_temp_dir z then (remove, z\<lparr>rz_temp_dir := False\<rparr>) else (None, z))"

section \<open>Facts on names\<close>

definition plain_component :: "string \<Rightarrow> bool" where
  "plain_component c \<longleftrightarrow> c \<noteq> '''' \<and> c \<noteq> ''.'' \<and> c \<noteq> ''..'' \<and> CHR ''/'' \<notin> set c"

lemma clean_stack:
  assumes "\<forall>c\<in>set cs. c \<noteq> '''' \<and> c \<noteq> ''.'' \<and> CHR ''/'' \<notin> set c" "\<forall>c\<in>set st. plain_component c"
  shows "(\<forall>c\<in>set (foldl (clean_step True) st cs). plain_component c)
    \<and> set (concat (foldl (clean_step True) st cs)) \<subseteq> set (concat st) \<union> set (concat cs)"
  using assms
proof (induction cs arbitrary: st)
  case (Cons c cs)
  let ?st = "clean_step True st c"
  have "\<forall>c\<in>set ?st. plain_component c" "set (concat ?st) \<subseteq> set (concat st) \<union> set c"
    using Cons.prems by (auto simp: clean_step_def plain_component_def dest: in_set_butlastD)
  with Cons.IH[of ?st] Cons.prems(1) have f:
    "\<forall>c\<in>set (foldl (clean_step True) ?st cs). plain_component c"
    "set (concat (foldl (clean_step True) ?st cs)) \<subseteq> set (concat ?st) \<union> set (concat cs)" by auto
  have g: "set (concat ?st) \<union> set (concat cs) \<subseteq> set (concat st) \<union> set (concat (c # cs))"
    using \<open>set (concat ?st) \<subseteq> set (concat st) \<union> set c\<close> by auto
  show ?case unfolding foldl_Cons using f(1) subset_trans[OF f(2) g] by (intro conjI)
qed simp

lemma clean_stack_id: "\<forall>c\<in>set cs. plain_component c \<Longrightarrow> foldl (clean_step r) st cs = st @ cs"
  by (induction cs arbitrary: st) (auto simp: clean_step_def plain_component_def)

lemma set_join_with: "set (join_with sep ps) \<subseteq> set sep \<union> set (concat ps)"
  by (induction sep ps rule: join_with.induct) auto

lemma set_split_char: "p \<in> set (split_char d s) \<Longrightarrow> set p \<subseteq> set s"
proof (induction s arbitrary: p)
  case (Cons c s)
  obtain q qs where q: "split_char d s = q # qs" by (cases "split_char d s") auto
  with Cons.IH have "\<And>p. p \<in> set (q # qs) \<Longrightarrow> set p \<subseteq> set s" by simp
  then have "set q \<subseteq> set s" "\<And>p. p \<in> set qs \<Longrightarrow> set p \<subseteq> set s" by auto
  with Cons.prems q show ?case by (fastforce split: if_splits)
qed simp

lemma join_plain:
  assumes "st \<noteq> []" "\<forall>c\<in>set st. plain_component c"
  shows "join_with ''/'' st \<noteq> ''''" "split_char (CHR ''/'') (join_with ''/'' st) = st"
    "trim_prefix (''/'' @ join_with ''/'' st) ''/'' = join_with ''/'' st" "hd (join_with ''/'' st) \<noteq> CHR ''/''"
proof -
  obtain c cs where c: "st = c # cs" "c \<noteq> ''''" "CHR ''/'' \<notin> set c"
    using assms by (cases st) (auto simp: plain_component_def)
  then have j: "\<exists>r. join_with ''/'' st = c @ r" by (cases cs) auto
  with c show "join_with ''/'' st \<noteq> ''''" "hd (join_with ''/'' st) \<noteq> CHR ''/''" by (auto simp: neq_Nil_conv)
  show "split_char (CHR ''/'') (join_with ''/'' st) = st"
    using assms by (intro split_join) (auto simp: plain_component_def)
  show "trim_prefix (''/'' @ join_with ''/'' st) ''/'' = join_with ''/'' st" by (simp add: trim_prefix_def)
qed

lemma clean_rooted:
  "clean_path (''/'' @ n) = ''/'' @ join_with ''/'' (foldl (clean_step True) []
     (filter (\<lambda>c. c \<noteq> '''' \<and> c \<noteq> ''.'') (split_char (CHR ''/'') n)))"
  by (simp add: clean_path_def Let_def)

lemma sanitize_stack:
  assumes "sanitize_zip_name name = Inr m"
  obtains st where "st \<noteq> []" "\<forall>c\<in>set st. plain_component c" "m = join_with ''/'' st" "CHR 0x5C \<notin> set m"
proof -
  let ?n = "replace_all name [CHR 0x5C] ''/''"
  let ?cs = "filter (\<lambda>c. c \<noteq> '''' \<and> c \<noteq> ''.'') (split_char (CHR ''/'') ?n)"
  let ?st = "foldl (clean_step True) [] ?cs"
  have "\<forall>c\<in>set ?cs. c \<noteq> '''' \<and> c \<noteq> ''.'' \<and> CHR ''/'' \<notin> set c" by (auto dest: split_char_parts)
  from clean_stack[OF this, of "[]"] have p: "\<forall>c\<in>set ?st. plain_component c" "set (concat ?st) \<subseteq> set (concat ?cs)" by auto
  have ne: "?st \<noteq> []"
  proof
    assume "?st = []"
    then have "clean_path (''/'' @ ?n) = ''/''" unfolding clean_rooted by simp
    then show False using assms by (simp add: sanitize_zip_name_def Let_def trim_prefix_def)
  qed
  note j = join_plain[OF ne p(1)]
  have "trim_prefix (clean_path (''/'' @ ?n)) ''/'' = join_with ''/'' ?st" unfolding clean_rooted by (rule j(3))
  then have m: "m = join_with ''/'' ?st" using assms by (auto simp: sanitize_zip_name_def Let_def split: if_splits)
  have "CHR 0x5C \<notin> set ?n" by (auto simp: replace_all_single)
  then have "CHR 0x5C \<notin> set (concat ?cs)" using set_split_char by fastforce
  moreover have "set m \<subseteq> {CHR ''/''} \<union> set (concat ?cs)"
    unfolding m using subset_trans[OF set_join_with Un_mono[OF subset_refl p(2)], of "''/''"] by simp
  ultimately have "CHR 0x5C \<notin> set m" by auto
  with ne p(1) m show ?thesis by (intro that)
qed

lemma zip_name_plain:
  assumes "st \<noteq> []" "\<forall>c\<in>set st. plain_component c" "CHR 0x5C \<notin> set (join_with ''/'' st)"
  shows "sanitize_zip_name (join_with ''/'' st) = Inr (join_with ''/'' st)"
proof -
  note j = join_plain[OF assms(1,2)]
  have r: "replace_all (join_with ''/'' st) [CHR 0x5C] ''/'' = join_with ''/'' st"
    using assms(3) by (auto simp: replace_all_single intro: map_idI)
  have "filter (\<lambda>c. c \<noteq> '''' \<and> c \<noteq> ''.'') st = st" using assms(2) by (auto simp: filter_id_conv plain_component_def)
  then have c: "clean_path (''/'' @ join_with ''/'' st) = ''/'' @ join_with ''/'' st"
    unfolding clean_rooted j(2) by (simp add: clean_stack_id[OF assms(2)])
  have "join_with ''/'' st \<noteq> ''.''"
  proof
    assume "join_with ''/'' st = ''.''"
    then have "split_char (CHR ''/'') ''.'' = st" using j(2) by simp
    then have "st = [''.'']" by simp
    with assms(2) show False by (simp add: plain_component_def)
  qed
  then show ?thesis using j(1) by (simp add: sanitize_zip_name_def r c[simplified] j(3)[simplified])
qed

text \<open>
  Archive entry names are safe.  Whatever name is given, the name used has only proper components
  (none empty, \<^verbatim>\<open>.\<close> or \<^verbatim>\<open>..\<close>, so it is relative and never climbs) and no backslash, and cleaning
  it again changes nothing.
\<close>
theorem zip_name_safe:
  assumes "sanitize_zip_name name = Inr m"
  shows "m \<noteq> '''' \<and> list_all plain_component (split_char (CHR ''/'') m) \<and> CHR 0x5C \<notin> set m \<and> sanitize_zip_name m = Inr m"
proof -
  obtain st where st: "st \<noteq> []" "\<forall>c\<in>set st. plain_component c" "m = join_with ''/'' st" "CHR 0x5C \<notin> set m"
    using sanitize_stack[OF assms] by blast
  note j = join_plain[OF st(1,2)]
  have "sanitize_zip_name m = Inr m" using zip_name_plain[OF st(1,2)] st(3,4) by blast
  then show ?thesis using j(1,2) st by (simp add: list_all_iff)
qed

lemma zip_name_safe_witness: "sanitize_zip_name ''a/../../etc//passwd'' = Inr ''etc/passwd'' \<and> CHR 0x5C \<notin> set ''etc/passwd''"
proof -
  have s: "sanitize_zip_name ''a/../../etc//passwd'' = Inr ''etc/passwd''" by code_simp
  from zip_name_safe[OF s] s show ?thesis by blast
qed

section \<open>Facts on sizes\<close>

definition caps_ok :: "zip_env \<Rightarrow> bool" where
  "caps_ok env \<longleftrightarrow> 0 < ze_max_file env \<and> ze_max_file env < max_int64 \<and> 0 < ze_max_total env \<and> ze_max_total env < max_int64"

definition entries_size :: "(string \<times> string) list \<Rightarrow> int" where
  "entries_size es = sum_list (map (\<lambda>(n, c). int (length c)) es)"

definition entry_ok :: "zip_env \<Rightarrow> string \<times> string \<Rightarrow> bool" where
  "entry_ok env e \<longleftrightarrow> int (length (snd e)) \<le> ze_max_file env \<and> fst e \<noteq> '''' \<and> list_all plain_component (split_char (CHR ''/'') (fst e))"

definition zip_inv :: "zip_env \<Rightarrow> 'item zip_state \<Rightarrow> bool" where
  "zip_inv env z \<longleftrightarrow> rz_err z = None \<longrightarrow>
     0 \<le> rz_total_written z \<and> rz_total_written z \<le> ze_max_total env
     \<and> entries_size (rz_entries z) \<le> rz_total_written z \<and> list_all (entry_ok env) (rz_entries z)"

lemma copy_ok:
  assumes "caps_ok env" "0 \<le> rz_total_written z" "rz_total_written z \<le> ze_max_total env"
  defines "remaining \<equiv> min (ze_max_file env) (ze_max_total env - rz_total_written z)"
  shows "copy_with_limit (ze_max_file env) (ze_max_total env) (bs, e) z =
    (let written = take (nat (remaining + 1)) bs; z1 = z\<lparr>rz_total_written := rz_total_written z + int (length written)\<rparr>
     in (if int (length bs) \<le> remaining then e
         else Some ''remotezip: entry exceeds configured size cap (MaxFileSize/MaxTotalSize)'', written, z1))"
proof -
  have r: "copy_remaining (ze_max_file env) (ze_max_total env) (rz_total_written z) = remaining" "0 \<le> remaining"
    using assms by (auto simp: copy_remaining_def Let_def caps_ok_def)
  have l: "i64 (remaining + 1) = remaining + 1"
    using assms(1) r(2) by (intro i64_id) (auto simp: remaining_def caps_ok_def in_i64_def min_int64_def max_int64_def)
  show ?thesis using r
    by (auto simp: copy_with_limit_def Let_def l min_def)
qed

lemma init_facts:
  "init_internals mk cr z = (None, z1) \<Longrightarrow> rz_err z = None \<and> rz_err z1 = None \<and> rz_total_written z1 = rz_total_written z
     \<and> (rz_entries z1 = rz_entries z \<or> rz_entries z1 = []) \<and> rz_queue z1 = rz_queue z \<and> rz_temp_dir z1"
  "init_internals mk cr z = (Some e, z1) \<Longrightarrow> rz_err z1 \<noteq> None"
  by (auto simp: init_internals_def split: if_splits option.splits)

lemma inv_init:
  assumes "zip_inv env z" "init_internals mk cr z = (x, z1)"
  shows "zip_inv env z1"
proof (cases x)
  case None
  with assms init_facts(1)[of mk cr z z1] show ?thesis by (auto simp: zip_inv_def entries_size_def)
next
  case (Some e)
  with assms init_facts(2)[of mk cr z e z1] show ?thesis by (auto simp: zip_inv_def)
qed

lemma inv_add:
  assumes "caps_ok env" "zip_inv env z" "add_file_unsafe env name data z = (x, z')"
  shows "zip_inv env z'"
proof (cases "rz_err z' = None")
  case True
  then obtain clean z1 where n: "rz_err z = None" "sanitize_zip_name name = Inr clean"
    "init_internals (ze_mkdir env) (ze_create env) z = (None, z1)" "ze_open_entry env clean = None"
    using assms(3) by (auto simp: add_file_unsafe_def split: if_splits sum.splits prod.splits option.splits)
  have i1: "zip_inv env z1" "rz_err z1 = None" using inv_init[OF assms(2) n(3)] init_facts(1)[OF n(3)] by auto
  then have t: "0 \<le> rz_total_written z1" "rz_total_written z1 \<le> ze_max_total env"
    "entries_size (rz_entries z1) \<le> rz_total_written z1" "list_all (entry_ok env) (rz_entries z1)"
    by (simp_all add: zip_inv_def)
  obtain bs e where d: "data = (bs, e)" by (cases data)
  let ?r = "min (ze_max_file env) (ze_max_total env - rz_total_written z1)"
  have len: "int (length bs) \<le> ?r"
    using True assms(3) n copy_ok[OF assms(1) t(1,2), of bs e] d
    by (auto simp: add_file_unsafe_def Let_def split: if_splits)
  then have "length bs \<le> nat (?r + 1)" by linarith
  then have w: "take (nat (?r + 1)) bs = bs" by simp
  have z': "z' = z1\<lparr>rz_total_written := rz_total_written z1 + int (length bs), rz_entries := rz_entries z1 @ [(clean, bs)], rz_err := e\<rparr>"
    using assms(3) n copy_ok[OF assms(1) t(1,2), of bs e] d len w
    by (auto simp: add_file_unsafe_def Let_def split: if_splits)
  obtain st where st: "st \<noteq> []" "\<forall>c\<in>set st. plain_component c" "clean = join_with ''/'' st"
    using sanitize_stack[OF n(2)] by blast
  then have "entry_ok env (clean, bs)"
    using join_plain[OF st(1,2)] len by (simp add: entry_ok_def list_all_iff)
  with t len show ?thesis by (simp add: z' zip_inv_def entries_size_def)
qed (auto simp: zip_inv_def)

lemma inv_attempts:
  "caps_ok env \<Longrightarrow> zip_inv env z \<Longrightarrow> attempt_loop env name i as z = (x, z') \<Longrightarrow> zip_inv env z'"
proof (induction as arbitrary: i z)
  case (Cons a as)
  show ?case
  proof (cases "max_attempt_ct \<le> i \<or> \<not> at_reset_ok a \<and> at_replace a \<noteq> None")
    case True
    with Cons.prems show ?thesis by (auto split: if_splits)
  next
    case False
    then have i: "\<not> max_attempt_ct \<le> i" "i < max_attempt_ct" "\<not> (\<not> at_reset_ok a \<and> at_replace a \<noteq> None)" by auto
    show ?thesis
    proof (cases "at_download a")
      case (Inl e)
      with Cons.prems(3) i have "attempt_loop env name (Suc i) as z = (x, z')" by auto
      then show ?thesis by (rule Cons.IH[OF Cons.prems(1,2)])
    next
      case (Inr content)
      show ?thesis
      proof (cases "at_seek a")
        case (Some e)
        with Cons.prems Inr i Cons.IH[OF Cons.prems(1,2), of "Suc i"] show ?thesis by (auto split: if_splits)
      next
        case None
        obtain y z1 where a: "add_file_unsafe env name (content, None) z = (y, z1)" by fastforce
        have z1: "zip_inv env z1" by (rule inv_add[OF Cons.prems(1,2) a])
        from Cons.prems(3) Inr None i a Cons.IH[OF Cons.prems(1) z1, of "Suc i"] z1 show ?thesis
          by (auto split: option.splits)
      qed
    qed
  qed
qed simp

lemma inv_items:
  "caps_ok env \<Longrightarrow> zip_inv env z \<Longrightarrow> run_items env its z = (es, z') \<Longrightarrow> zip_inv env z'"
proof (induction its arbitrary: z es z')
  case (Cons it its)
  obtain x z1 where a: "attempt_loop env (di_name it) 0 (di_attempts it) z = (x, z1)" by fastforce
  obtain es2 z2 where r: "run_items env its z1 = (es2, z2)" by fastforce
  have "zip_inv env z1" by (rule inv_attempts[OF Cons.prems(1,2) a])
  from Cons.IH[OF Cons.prems(1) this r] Cons.prems(3) a r show ?case by (auto split: option.splits)
qed simp

text \<open>The archives that the operations can build before a run.\<close>

inductive zip_built :: "zip_env \<Rightarrow> download_item zip_state \<Rightarrow> bool" for env where
  built_new: "zip_built env new_zip"
| built_memory: "zip_built env z \<Longrightarrow> zip_built env (snd (add_memory_file env name data z))"
| built_remote: "zip_built env z \<Longrightarrow> zip_built env (snd (add_remote_file name download z))"

lemma built_inv: "zip_built env z \<Longrightarrow> caps_ok env \<Longrightarrow> zip_inv env z"
proof (induction rule: zip_built.induct)
  case built_new
  then show ?case by (simp add: zip_inv_def new_zip_def entries_size_def caps_ok_def)
next
  case (built_memory z name data)
  obtain x z' where a: "add_file_unsafe env name data z = (x, z')" by fastforce
  from inv_add[OF built_memory.prems built_memory.IH[OF built_memory.prems] a] a show ?case by (simp add: add_memory_file_def)
next
  case (built_remote z name download)
  from built_remote.IH[OF built_remote.prems] show ?case by (auto simp: add_remote_file_def zip_inv_def)
qed

text \<open>
  C19: Every archive that a run returns is safe to hand out: whatever was added, in whatever order the
  downloads finish and whatever they yield, the entries together stay within the total limit, each
  is within the limit for one file, and each name is relative and never climbs.
\<close>
theorem zip_run_safe:
  assumes "caps_ok env" "zip_built env z" "zip_run env disk choices order errc finish z = (Inr entries, z')"
  shows "entries_size entries \<le> ze_max_total env \<and> list_all (entry_ok env) entries"
proof -
  obtain items z1 where s: "setup_for_run env (disk 0) z = (Inr items, z1)"
    using assms(3) by (auto simp: zip_run_def split: prod.splits sum.splits)
  then have i: "init_internals (ze_mkdir env) (ze_create env) z = (None, z1)"
    by (auto simp: setup_for_run_def split: option.splits prod.splits)
  obtain queued le where f: "feed_loop disk 0 items choices = (queued, le)" by fastforce
  obtain errs z2 where r: "run_items env (order queued) z1 = (errs, z2)" by fastforce
  have "zip_inv env z2"
    using inv_items[OF assms(1) inv_init[OF built_inv[OF assms(2,1)] i] r] .
  moreover have "rz_err z2 = None" "entries = rz_entries z2"
    using assms(3) s f r by (auto simp: zip_run_def Let_def split: if_splits option.splits)
  ultimately show ?thesis by (auto simp: zip_inv_def)
qed

section \<open>Facts on runs\<close>

definition can_reset :: "attempt \<Rightarrow> bool" where
  "can_reset a \<longleftrightarrow> at_reset_ok a \<or> at_replace a = None"

definition good_attempt :: "attempt \<Rightarrow> string \<Rightarrow> bool" where
  "good_attempt a c \<longleftrightarrow> can_reset a \<and> at_download a = Inr c \<and> at_seek a = None"

definition bad_download :: "attempt \<Rightarrow> bool" where
  "bad_download a \<longleftrightarrow> can_reset a \<and> (\<exists>e. at_download a = Inl e)"

text \<open>An item whose content arrives in the first or the second attempt.\<close>

definition delivers :: "download_item \<Rightarrow> string \<Rightarrow> bool" where
  "delivers it c \<longleftrightarrow> (\<exists>a as. di_attempts it = a # as \<and> good_attempt a c)
     \<or> (\<exists>a b as. di_attempts it = a # b # as \<and> bad_download a \<and> good_attempt b c)"

lemma add_exact:
  assumes "caps_ok env" "rz_err z = None" "rz_temp_dir z" "0 \<le> rz_total_written z"
    and "rz_total_written z + int (length c) \<le> ze_max_total env" "int (length c) \<le> ze_max_file env"
    and "sanitize_zip_name name = Inr n" "ze_open_entry env n = None"
  shows "add_file_unsafe env name (c, None) z = (None, z\<lparr>rz_total_written := rz_total_written z + int (length c),
    rz_entries := rz_entries z @ [(n, c)], rz_err := None\<rparr>)"
proof -
  let ?r = "min (ze_max_file env) (ze_max_total env - rz_total_written z)"
  have l: "int (length c) \<le> ?r" "length c \<le> nat (?r + 1)" using assms(5,6) by linarith+
  show ?thesis
    using assms(2,3,7,8) l copy_ok[OF assms(1,4), of c None] assms(5)
    by (simp add: add_file_unsafe_def init_internals_def Let_def)
qed

lemma attempts_deliver:
  assumes "delivers it c" "add_file_unsafe env name (c, None) z = (None, z')"
  shows "attempt_loop env name 0 (di_attempts it) z = (None, z')"
  using assms by (auto simp: delivers_def good_attempt_def bad_download_def can_reset_def max_attempt_ct_def)

definition entry_of :: "(download_item \<Rightarrow> string) \<Rightarrow> download_item \<Rightarrow> string \<times> string" where
  "entry_of content it = (projr (sanitize_zip_name (di_name it)), content it)"

lemma items_deliver:
  assumes "caps_ok env" "\<forall>n. ze_open_entry env n = None"
  shows "rz_err z = None \<Longrightarrow> rz_temp_dir z \<Longrightarrow> 0 \<le> rz_total_written z
    \<Longrightarrow> \<forall>it\<in>set its. delivers it (content it) \<and> \<not> isl (sanitize_zip_name (di_name it)) \<and> int (length (content it)) \<le> ze_max_file env
    \<Longrightarrow> rz_total_written z + sum_list (map (\<lambda>it. int (length (content it))) its) \<le> ze_max_total env
    \<Longrightarrow> \<exists>z'. run_items env its z = ([], z') \<and> rz_err z' = None \<and> rz_entries z' = rz_entries z @ map (entry_of content) its"
proof (induction its arbitrary: z)
  case (Cons it its)
  have it: "delivers it (content it)" "\<not> isl (sanitize_zip_name (di_name it))" "int (length (content it)) \<le> ze_max_file env"
    using Cons.prems(4) by auto
  then obtain n where n: "sanitize_zip_name (di_name it) = Inr n" by (cases "sanitize_zip_name (di_name it)") auto
  let ?z = "z\<lparr>rz_total_written := rz_total_written z + int (length (content it)),
    rz_entries := rz_entries z @ [(n, content it)], rz_err := None\<rparr>"
  have nn: "0 \<le> sum_list (map (\<lambda>it. int (length (content it))) its)" by (induction its) auto
  then have "rz_total_written z + int (length (content it)) \<le> ze_max_total env" using Cons.prems(5) by simp
  then have "add_file_unsafe env (di_name it) (content it, None) z = (None, ?z)"
    using Cons.prems(1-3) it n assms(2) by (intro add_exact[OF assms(1)]) simp_all
  then have a: "attempt_loop env (di_name it) 0 (di_attempts it) z = (None, ?z)" by (rule attempts_deliver[OF it(1)])
  have "\<exists>z'. run_items env its ?z = ([], z') \<and> rz_err z' = None \<and> rz_entries z' = rz_entries ?z @ map (entry_of content) its"
    using Cons.prems by (intro Cons.IH) auto
  then show ?case using a n by (auto simp: entry_of_def)
qed simp

lemma feed_all: "list_all ((=) Queued) choices \<Longrightarrow> \<forall>i. disk i = None \<Longrightarrow> feed_loop disk i its choices = (its, None)"
  by (induction disk i its choices rule: feed_loop.induct) (auto simp: Let_def split: list.splits)


text \<open>
  An item that fails in both attempts is left out without an error: inside the loop the attempt is
  always below the maximum, so the branch that reports the failure is never taken.
\<close>

lemma failed_items_skipped:
  "\<forall>it\<in>set its. \<exists>a b. di_attempts it = [a, b] \<and> bad_download a \<and> bad_download b \<Longrightarrow> run_items env its z = ([], z)"
  by (induction its) (auto simp: bad_download_def can_reset_def max_attempt_ct_def)

lemma failed_download_reported_as_success:
  assumes "ze_mkdir env = None" "ze_create env = None" "rz_err z = None" "\<forall>i. disk i = None" "errc [] = None"
    and "\<forall>it\<in>set (rz_queue z). \<exists>a b. di_attempts it = [a, b] \<and> bad_download a \<and> bad_download b" "\<not> rz_temp_dir z"
  shows "fst (zip_run env disk [] (\<lambda>xs. xs) errc [] z) = Inr []"
proof -
  let ?z1 = "z\<lparr>rz_temp_dir := True, rz_entries := []\<rparr>"
  have s: "setup_for_run env (disk 0) z = (Inr (rz_queue z), ?z1)"
    using assms(1-4,7) by (simp add: setup_for_run_def init_internals_def)
  have f: "feed_loop disk 0 (rz_queue z) [] = (rz_queue z, None)" using feed_all[of "[]"] assms(4) by simp
  show ?thesis using assms(3,5) by (simp add: zip_run_def s f Let_def failed_items_skipped[OF assms(6)])
qed

text \<open>An instance: the first attempt fails, the second delivers.\<close>

definition sample_zip_env :: zip_env where
  "sample_zip_env = \<lparr>ze_max_file = 100, ze_max_total = 1000, ze_mkdir = None, ze_create = None, ze_open_entry = (\<lambda>_. None)\<rparr>"

definition sample_zip :: "download_item zip_state" where
  "sample_zip = snd (add_remote_file ''a.txt'' [\<lparr>at_reset_ok = True, at_replace = None, at_download = Inl ''404'', at_seek = None, at_replace2 = None\<rparr>,
     \<lparr>at_reset_ok = True, at_replace = None, at_download = Inr ''hello'', at_seek = None, at_replace2 = None\<rparr>] new_zip)"

lemma sample_caps: "caps_ok sample_zip_env"
  by (simp add: caps_ok_def sample_zip_env_def max_int64_def)

lemma sample_name: "sanitize_zip_name ''a.txt'' = Inr ''a.txt''"
  by code_simp


lemma zip_run_safe_witness:
  "\<exists>entries z'. zip_run sample_zip_env (\<lambda>_. None) [] (\<lambda>xs. xs) (\<lambda>_. None) [] new_zip = (Inr entries, z') \<and> entries_size entries \<le> 1000"
proof -
  have r: "zip_run sample_zip_env (\<lambda>_. None) [] (\<lambda>xs. xs) (\<lambda>_. None) [] new_zip = (Inr [], new_zip)"
    by (simp add: zip_run_def setup_for_run_def new_zip_def init_internals_def sample_zip_env_def)
  from zip_run_safe[OF sample_caps built_new r] r show ?thesis by (simp add: sample_zip_env_def)
qed

end
