(* ===== verification/GoUrl.thy ===== *)
theory GoUrl
  imports GoNet
begin

text \<open>
  Go's \<^verbatim>\<open>net/url\<close> as far as origins need it: \<^verbatim>\<open>url.Parse\<close> with its scheme and host, and
  \<^verbatim>\<open>URL.Hostname\<close>.  Path, query, user and fragment only decide whether parsing fails.
\<close>

section \<open>Escapes\<close>

definition is_hex :: "char \<Rightarrow> bool" where
  "is_hex c \<longleftrightarrow> hex_val c \<noteq> None"

definition hex_num :: "char \<Rightarrow> nat" where
  "hex_num c = (case hex_val c of None \<Rightarrow> 0 | Some n \<Rightarrow> n)"

text \<open>Whether every percent sign starts an escape.\<close>

fun escapes_ok :: "string \<Rightarrow> bool" where
  "escapes_ok [] = True"
| "escapes_ok (c # cs) =
     (if c = CHR ''%'' then (case cs of a # b # r \<Rightarrow> is_hex a \<and> is_hex b \<and> escapes_ok r | _ \<Rightarrow> False) else escapes_ok cs)"

text \<open>The bytes that need no escape in a host.\<close>

definition host_char :: "char \<Rightarrow> bool" where
  "host_char c \<longleftrightarrow> is_lower_letter c \<or> is_upper_letter c \<or> is_digit c
     \<or> c \<in> set ''!$&()*+,;=:[]<>-_.~'' \<or> c = CHR 0x22 \<or> c = CHR 0x27"

text \<open>\<^verbatim>\<open>unescape\<close> in the mode for hosts, or for the zone of an address.\<close>

fun unescape_host :: "bool \<Rightarrow> string \<Rightarrow> string option" where
  "unescape_host zone [] = Some []"
| "unescape_host zone (c # cs) =
     (if c = CHR ''%'' then
        (case cs of
           a # b # r \<Rightarrow>
             let v = 16 * hex_num a + hex_num b
             in if \<not> is_hex a \<or> \<not> is_hex b then None
                else if \<not> zone \<and> hex_num a < 8 \<and> v \<noteq> 37 then None
                else if zone \<and> v \<noteq> 37 \<and> v \<noteq> 32 \<and> \<not> host_char (char_of v) then None
                else map_option (\<lambda>t. char_of v # t) (unescape_host zone r)
         | _ \<Rightarrow> None)
      else if byte c < 128 \<and> \<not> host_char c then None
      else map_option (\<lambda>t. c # t) (unescape_host zone cs))"

section \<open>Scheme and authority\<close>

text \<open>\<^verbatim>\<open>getScheme\<close>: an error, or the scheme read so far and the rest.\<close>

fun get_scheme_loop :: "string \<Rightarrow> string \<Rightarrow> string \<Rightarrow> (string \<times> string) option" where
  "get_scheme_loop raw pre [] = Some ('''', raw)"
| "get_scheme_loop raw pre (c # cs) =
     (if is_lower_letter c \<or> is_upper_letter c then get_scheme_loop raw (pre @ [c]) cs
      else if is_digit c \<or> c \<in> set ''+-.'' then
        (if pre = [] then Some ('''', raw) else get_scheme_loop raw (pre @ [c]) cs)
      else if c = CHR '':'' then (if pre = [] then None else Some (pre, cs))
      else Some ('''', raw))"

definition get_scheme :: "string \<Rightarrow> (string \<times> string) option" where
  "get_scheme raw = get_scheme_loop raw [] raw"

definition valid_optional_port :: "string \<Rightarrow> bool" where
  "valid_optional_port s \<longleftrightarrow> (case s of [] \<Rightarrow> True | c # cs \<Rightarrow> c = CHR '':'' \<and> list_all is_digit cs)"

definition parse_host :: "string \<Rightarrow> string option" where
  "parse_host h =
     (if has_prefix h ''['' then
        (case last_index_from (CHR '']'') 0 h of
           None \<Rightarrow> None
         | Some i \<Rightarrow>
             if \<not> valid_optional_port (drop (i + 1) h) then None
             else (let z = str_index (take i h) ''%25''
                   in if 0 \<le> z then
                        (case (unescape_host False (take (nat z) h), unescape_host True (drop (nat z) (take i h)),
                               unescape_host False (drop i h)) of
                           (Some a, Some b, Some c) \<Rightarrow> Some (a @ b @ c)
                         | _ \<Rightarrow> None)
                      else unescape_host False h))
      else (case last_index_from (CHR '':'') 0 h of
          None \<Rightarrow> unescape_host False h
        | Some i \<Rightarrow> if valid_optional_port (drop i h) then unescape_host False h else None))"

definition userinfo_char :: "char \<Rightarrow> bool" where
  "userinfo_char c \<longleftrightarrow> is_lower_letter c \<or> is_upper_letter c \<or> is_digit c \<or> c \<in> set ''-._:~!$&()*+,;=%@'' \<or> c = CHR 0x27"

definition parse_authority :: "string \<Rightarrow> string option" where
  "parse_authority a =
     (case last_index_from (CHR ''@'') 0 a of
        None \<Rightarrow> parse_host a
      | Some i \<Rightarrow>
          (case parse_host (drop (i + 1) a) of
             None \<Rightarrow> None
           | Some h \<Rightarrow>
               let user = take i a
               in if \<not> list_all userinfo_char user then None
                  else (case cut_char (CHR '':'') user of
                      None \<Rightarrow> if escapes_ok user then Some h else None
                    | Some (u, p) \<Rightarrow> if escapes_ok u \<and> escapes_ok p then Some h else None)))"

definition before_char :: "char \<Rightarrow> string \<Rightarrow> string" where
  "before_char d s = takeWhile (\<lambda>c. c \<noteq> d) s"

definition after_char :: "char \<Rightarrow> string \<Rightarrow> string" where
  "after_char d s = drop 1 (dropWhile (\<lambda>c. c \<noteq> d) s)"

text \<open>\<^verbatim>\<open>url.Parse\<close>: the scheme and the host, \<^const>\<open>None\<close> for an error.\<close>

definition url_parse :: "string \<Rightarrow> (string \<times> string) option" where
  "url_parse raw =
     (let u = before_char (CHR ''#'') raw; frag = after_char (CHR ''#'') raw
      in if list_ex (\<lambda>c. byte c < 32 \<or> byte c = 127) u then None
         else if u = ''*'' then (if escapes_ok frag then Some ('''', '''') else None)
         else (case get_scheme u of
             None \<Rightarrow> None
           | Some (sch, rest0) \<Rightarrow>
               let scheme = map lower_char sch; rest = before_char (CHR ''?'') rest0;
                   result = (
                     if \<not> has_prefix rest ''/'' \<and> scheme \<noteq> '''' then Some (scheme, '''')
                     else if \<not> has_prefix rest ''/'' \<and> CHR '':'' \<in> set (before_char (CHR ''/'') rest) then None
                     else if (scheme \<noteq> '''' \<or> \<not> has_prefix rest ''///'') \<and> has_prefix rest ''//'' then
                       (let auth = before_char (CHR ''/'') (drop 2 rest); path = drop (2 + length auth) rest
                        in case parse_authority auth of
                             None \<Rightarrow> None
                           | Some h \<Rightarrow> if escapes_ok path then Some (scheme, h) else None)
                     else if escapes_ok rest then Some (scheme, '''') else None)
               in if escapes_ok frag then result else None))"

definition url_hostname :: "string \<Rightarrow> string" where
  "url_hostname hp =
     (let h = (case last_index_from (CHR '':'') 0 hp of
            Some i \<Rightarrow> if valid_optional_port (drop i hp) then take i hp else hp
          | None \<Rightarrow> hp)
      in if has_prefix h ''['' \<and> has_suffix h '']'' then take (length h - 2) (drop 1 h) else h)"

section \<open>Facts\<close>

lemma scheme_loop_plain:
  assumes "\<forall>c\<in>set s. is_lower_letter c"
  shows "pre @ s \<noteq> [] \<Longrightarrow> get_scheme_loop raw pre (s @ CHR '':'' # r) = Some (pre @ s, r)"
  using assms
proof (induction s arbitrary: pre)
  case Nil
  have "\<not> is_lower_letter (CHR '':'')" "\<not> is_upper_letter (CHR '':'')" "\<not> is_digit (CHR '':'')" by code_simp+
  with Nil show ?case by simp
qed auto

lemma scheme_no_colon: "get_scheme_loop raw pre cs = Some (s, r) \<Longrightarrow> CHR '':'' \<notin> set pre \<Longrightarrow> CHR '':'' \<notin> set s"
proof (induction cs arbitrary: pre)
  case (Cons c cs)
  have "\<not> is_lower_letter (CHR '':'')" "\<not> is_upper_letter (CHR '':'')" "\<not> is_digit (CHR '':'')" by code_simp+
  then have "s = [] \<or> s = pre \<or> c \<noteq> CHR '':'' \<and> get_scheme_loop raw (pre @ [c]) cs = Some (s, r)"
    using Cons.prems(1) by (auto split: if_splits)
  with Cons.IH[of "pre @ [c]"] Cons.prems(2) show ?case by auto
qed simp

lemma lower_char_colon: "lower_char c = CHR '':'' \<Longrightarrow> c = CHR '':''"
proof -
  assume l: "lower_char c = CHR '':''"
  have "\<not> is_upper_letter c"
  proof
    assume u: "is_upper_letter c"
    then have "byte (lower_char c) = byte c + 32" "65 \<le> byte c" by (simp_all add: byte_lower_char is_upper_letter_def)
    moreover have "byte (CHR '':'') = 58" by code_simp
    ultimately show False using l by simp
  qed
  with l show ?thesis by (simp add: lower_char_def)
qed

lemma url_parse_scheme:
  assumes "url_parse raw = Some (scheme, h)"
  shows "CHR '':'' \<notin> set scheme"
proof (cases "get_scheme (before_char (CHR ''#'') raw)")
  case None
  with assms show ?thesis by (auto simp: url_parse_def Let_def split: if_splits)
next
  case (Some sr)
  obtain sch rest where sr: "sr = (sch, rest)" by (cases sr)
  have "CHR '':'' \<notin> set sch" using Some scheme_no_colon[of _ "[]" _ sch rest] by (simp add: get_scheme_def sr)
  then have n: "CHR '':'' \<notin> set (map lower_char sch)" by (auto dest: lower_char_colon[OF sym])
  from assms Some sr have "scheme = '''' \<or> scheme = map lower_char sch"
    by (auto simp: url_parse_def Let_def split: if_splits option.splits)
  with n show ?thesis by auto
qed

text \<open>Hosts made of letters, digits, dots and dashes, with an optional port, parse as they are.\<close>

definition plain_host_char :: "char \<Rightarrow> bool" where
  "plain_host_char c \<longleftrightarrow> is_lower_letter c \<or> is_digit c \<or> c = CHR ''.'' \<or> c = CHR ''-''"

definition plain_host :: "string \<Rightarrow> bool" where
  "plain_host h \<longleftrightarrow> h \<noteq> [] \<and> list_all plain_host_char h"

definition plain_port :: "string \<Rightarrow> bool" where
  "plain_port p \<longleftrightarrow> p = '''' \<or> hd p = CHR '':'' \<and> list_all is_digit (tl p)"

lemma plain_host_charD:
  assumes "plain_host_char c"
  shows "host_char c" "32 \<le> byte c" "byte c < 127" "c \<notin> set ''#?/@%:[]*''" "lower_char c = c"
proof -
  have b: "byte c = 45 \<or> byte c = 46 \<or> 48 \<le> byte c \<and> byte c \<le> 57 \<or> 97 \<le> byte c \<and> byte c \<le> 122"
  proof -
    have "byte (CHR ''.'') = 46" "byte (CHR ''-'') = 45" by code_simp+
    with assms show ?thesis by (auto simp: plain_host_char_def is_lower_letter_def is_digit_def)
  qed
  show "host_char c" using assms by (auto simp: plain_host_char_def host_char_def)
  show "32 \<le> byte c" "byte c < 127" using b by auto
  have "\<forall>d\<in>set ''#?/@%:[]*''. byte d \<notin> {45, 46} \<union> {48..57} \<union> {97..122}" by code_simp
  with b show "c \<notin> set ''#?/@%:[]*''" by fastforce
  show "lower_char c = c" using b by (auto simp: lower_char_def is_upper_letter_def)
qed

text \<open>Origins in the form browsers send them: a scheme of letters, such a host, and an optional port.\<close>

definition plain_scheme :: "string \<Rightarrow> bool" where
  "plain_scheme s \<longleftrightarrow> s \<noteq> [] \<and> list_all is_lower_letter s"

lemma last_index_none: "d \<notin> set s \<Longrightarrow> last_index_from d i s = None"
  by (induction s arbitrary: i) auto

lemma last_index_append: "d \<notin> set t \<Longrightarrow> last_index_from d i (s @ d # t) = Some (i + length s)"
  by (induction s arbitrary: i) (auto simp: last_index_none)

lemma unescape_host_plain: "\<forall>c\<in>set s. host_char c \<and> c \<noteq> CHR ''%'' \<Longrightarrow> unescape_host z s = Some s"
  by (induction s) auto

lemma before_char_id: "d \<notin> set s \<Longrightarrow> before_char d s = s"
  by (auto simp: before_char_def takeWhile_eq_all_conv)

lemma after_char_none: "d \<notin> set s \<Longrightarrow> after_char d s = []"
  by (induction s) (auto simp: after_char_def)

lemma lower_letter_plain: "is_lower_letter c \<Longrightarrow> plain_host_char c"
  by (simp add: plain_host_char_def)

lemma plain_hostport_chars:
  assumes "plain_host h" "plain_port p" "c \<in> set (h @ p)"
  shows "plain_host_char c \<or> c = CHR '':''"
proof (cases "c \<in> set h")
  case True
  with assms show ?thesis by (auto simp: plain_host_def list_all_iff)
next
  case False
  with assms show ?thesis by (cases p) (auto simp: plain_port_def list_all_iff plain_host_char_def)
qed

lemma plain_hostport:
  assumes "plain_host h" "plain_port p" "c \<in> set (h @ p)"
  shows "host_char c" "32 \<le> byte c" "byte c < 127" "c \<notin> set ''#?/@%[]*''" "lower_char c = c"
proof -
  have k: "host_char (CHR '':'')" "32 \<le> byte (CHR '':'')" "byte (CHR '':'') < 127"
    "CHR '':'' \<notin> set ''#?/@%[]*''" "lower_char (CHR '':'') = CHR '':''" by code_simp+
  from plain_hostport_chars[OF assms] show "host_char c" "32 \<le> byte c" "byte c < 127" "lower_char c = c"
    using k plain_host_charD by blast+
  from plain_hostport_chars[OF assms] show "c \<notin> set ''#?/@%[]*''"
  proof
    assume "plain_host_char c"
    then have "c \<notin> set ''#?/@%:[]*''" by (rule plain_host_charD(4))
    then show ?thesis by simp
  next
    assume "c = CHR '':''"
    with k(4) show ?thesis by (simp only: not_False_eq_True)
  qed
qed

lemma plain_port_cases: "plain_port p \<Longrightarrow> p = [] \<or> (\<exists>ds. p = CHR '':'' # ds \<and> list_all is_digit ds)"
  by (cases p) (auto simp: plain_port_def)

lemma digit_not_colon: "is_digit c \<Longrightarrow> c \<noteq> CHR '':''"
  by (auto simp: is_digit_def)

lemma plain_no_colon: "plain_host h \<Longrightarrow> CHR '':'' \<notin> set h"
  using plain_host_charD(4) by (fastforce simp: plain_host_def list_all_iff)

lemma plain_last_colon:
  assumes "plain_host h" "plain_port p"
  shows "last_index_from (CHR '':'') 0 (h @ p) = (if p = [] then None else Some (length h))"
  using plain_port_cases[OF assms(2)] last_index_none[OF plain_no_colon[OF assms(1)]]
    last_index_append[of "CHR '':''" _ 0 h] by (auto simp: list_all_iff dest: digit_not_colon)

lemma valid_plain_port: "plain_port p \<Longrightarrow> valid_optional_port p"
  by (auto simp: valid_optional_port_def dest: plain_port_cases)

lemma plain_host_no_bracket:
  assumes "plain_host h"
  shows "\<not> has_prefix (h @ p) ''[''" "\<not> has_prefix h ''[''"
proof -
  from assms obtain c r where h: "h = c # r" "plain_host_char c"
    by (cases h) (auto simp: plain_host_def)
  with plain_host_charD(4)[OF h(2)] show "\<not> has_prefix (h @ p) ''[''" "\<not> has_prefix h ''[''" by auto
qed

lemma url_hostname_plain:
  assumes "plain_host h" "plain_port p"
  shows "url_hostname (h @ p) = h"
  using valid_plain_port[OF assms(2)] plain_host_no_bracket(2)[OF assms(1)]
  by (simp add: url_hostname_def Let_def plain_last_colon[OF assms])

lemma parse_authority_plain:
  assumes "plain_host h" "plain_port p"
  shows "parse_authority (h @ p) = Some (h @ p)"
proof -
  note c = plain_hostport[OF assms]
  have at: "CHR ''@'' \<notin> set (h @ p)" using c(4) by fastforce
  have "unescape_host False (h @ p) = Some (h @ p)"
    using c(1,4) by (intro unescape_host_plain) fastforce
  with last_index_none[OF at] plain_host_no_bracket(1)[OF assms(1)] valid_plain_port[OF assms(2)] show ?thesis
    by (auto simp: parse_authority_def parse_host_def plain_last_colon[OF assms])
qed

lemma url_parse_plain:
  assumes "plain_scheme s" "plain_host h" "plain_port p"
  shows "url_parse (s @ ''://'' @ h @ p) = Some (s, h @ p)"
proof -
  note c = plain_hostport[OF assms(2,3)]
  let ?u = "s @ ''://'' @ h @ p"
  have sc: "plain_host_char d" "is_lower_letter d" if "d \<in> set s" for d
    using assms(1) that by (auto simp: plain_scheme_def list_all_iff lower_letter_plain)
  have l: "map lower_char s = s" using sc(1) plain_host_charD(5) by (intro map_idI) blast
  have ne: "s \<noteq> []" using assms(1) by (simp add: plain_scheme_def)
  have set: "d \<in> set s \<or> d \<in> set (h @ p) \<or> d = CHR '':'' \<or> d = CHR ''/''" if "d \<in> set ?u" for d
    using that by auto
  have frag: "CHR ''#'' \<notin> set ?u" "CHR ''?'' \<notin> set (''//'' @ h @ p)" "CHR ''/'' \<notin> set (h @ p)"
    using c(4) sc(1) plain_host_charD(4) by fastforce+
  have b: "byte (CHR '':'') = 58" "byte (CHR ''/'') = 47" by code_simp+
  have ctl: "\<not> list_ex (\<lambda>d. byte d < 32 \<or> byte d = 127) ?u"
  proof -
    have "32 \<le> byte d \<and> byte d < 127" if "d \<in> set ?u" for d
      using set[OF that] c(2,3) sc(1) plain_host_charD(2,3) b by fastforce
    then show ?thesis by (fastforce simp: list_ex_iff)
  qed
  have star: "?u \<noteq> ''*''" using ne by (cases s) auto
  have g: "get_scheme ?u = Some (s, ''//'' @ h @ p)"
    using scheme_loop_plain[of s "[]" ?u "''//'' @ h @ p"] sc(2) ne by (simp add: get_scheme_def)
  show ?thesis
    unfolding url_parse_def Let_def before_char_id[OF frag(1)] after_char_none[OF frag(1)] if_not_P[OF ctl] if_not_P[OF star] g
      option.case prod.case before_char_id[OF frag(2)] l
    using ne before_char_id[OF frag(3)] parse_authority_plain[OF assms(2,3)] by simp
qed

end
