(* ===== verification/Cors.thy ===== *)
theory Cors
  imports GoUrl GoHttp
begin

text \<open>
  The package \<^verbatim>\<open>cors\<close>: origin rules compiled from the configured entries, the origin check, and
  the middleware.  The wrapped handler is an argument, a function of the request and of the writer
  it gets; its result is the result of the middleware.  \<open>uni\<close> is \<^verbatim>\<open>strings.ToLower\<close> outside ASCII.
\<close>

section \<open>Origin rules\<close>

record origin_rule =
  exact_origin :: string
  wildcard_suffix :: string
  wildcard_scheme :: string

definition empty_rule :: origin_rule where
  "empty_rule = \<lparr>exact_origin = '''', wildcard_suffix = '''', wildcard_scheme = ''''\<rparr>"

definition rule_matches :: "origin_rule \<Rightarrow> string \<Rightarrow> string \<Rightarrow> string \<Rightarrow> bool" where
  "rule_matches r scheme host normalized =
     (if exact_origin r \<noteq> '''' then exact_origin r = normalized
      else if wildcard_scheme r \<noteq> '''' \<and> wildcard_scheme r \<noteq> scheme then False
      else has_suffix host (wildcard_suffix r))"

definition wildcard_rule :: "string \<Rightarrow> origin_rule" where
  "wildcard_rule entry =
     (let idx = str_index entry ''://'';
          scheme = (if 0 \<le> idx then take (nat idx) entry else '''');
          host = (if 0 \<le> idx then drop (nat idx + 3) entry else entry);
          host = takeWhile (\<lambda>c. c \<notin> set ''/:'') host;
          suffix = trim_prefix host ''*'';
          suffix = (if \<not> has_prefix suffix ''.'' then ''.'' @ trim_prefix suffix ''.'' else suffix)
      in if suffix = ''.'' then empty_rule
         else \<lparr>exact_origin = '''', wildcard_suffix = suffix, wildcard_scheme = scheme\<rparr>)"

definition compile_origin :: "(string \<Rightarrow> string) \<Rightarrow> string \<Rightarrow> origin_rule" where
  "compile_origin uni entry0 =
     (let entry = to_lower uni (trim_space entry0)
      in if entry = '''' then empty_rule
         else if str_contains entry ''*'' then wildcard_rule entry
         else (case url_parse entry of
             None \<Rightarrow> empty_rule
           | Some (scheme, host) \<Rightarrow>
               if scheme \<noteq> '''' \<and> host \<noteq> '''' then empty_rule\<lparr>exact_origin := scheme @ ''://'' @ host\<rparr> else empty_rule))"

section \<open>The middleware\<close>

record cors_opts =
  opt_allow_origins :: "string list"
  opt_allow_headers :: "string list option"
  opt_allow_credentials :: string
  opt_allow_methods :: string

record cors_middleware =
  allowed_origins :: "origin_rule list"
  allow_headers :: "string list"
  allow_credentials :: string
  allow_methods :: string

definition default_allow_headers :: "string list" where
  "default_allow_headers =
     [''Authorization'', ''Accept'', ''Origin'', ''X-Apiversion'', ''X-Browserwindowid'', ''X-Timezonename'',
      ''X-Timezoneoffsetmins'', ''Cookie'', ''Content-Type'', ''Cache-Control'']"

definition cors_wrap :: "(string \<Rightarrow> string) \<Rightarrow> cors_opts \<Rightarrow> cors_middleware" where
  "cors_wrap uni opts =
     \<lparr>allowed_origins = filter (\<lambda>r. exact_origin r \<noteq> '''' \<or> wildcard_suffix r \<noteq> '''') (map (compile_origin uni) (opt_allow_origins opts)),
      allow_headers = (case opt_allow_headers opts of None \<Rightarrow> default_allow_headers | Some hs \<Rightarrow> hs),
      allow_credentials = to_lower uni (if opt_allow_credentials opts = '''' then ''true'' else opt_allow_credentials opts),
      allow_methods = (if opt_allow_methods opts = '''' then ''*'' else opt_allow_methods opts)\<rparr>"

definition allow_origin :: "cors_middleware \<Rightarrow> string \<Rightarrow> bool" where
  "allow_origin c origin =
     (if origin = '''' then False
      else (case url_parse origin of
          None \<Rightarrow> False
        | Some (scheme, uhost) \<Rightarrow>
            if scheme = '''' \<or> uhost = '''' then False
            else list_ex (\<lambda>r. rule_matches r scheme (url_hostname uhost) (scheme @ ''://'' @ uhost)) (allowed_origins c)))"

definition cors_headers :: "cors_middleware \<Rightarrow> string \<Rightarrow> http_writer \<Rightarrow> http_writer" where
  "cors_headers c origin w =
     (let w = set_header ''Access-Control-Allow-Origin'' origin w;
          w = set_header ''Access-Control-Expose-Headers'' ''*'' w;
          w = set_header ''Access-Control-Allow-Methods'' (allow_methods c) w;
          w = set_header ''Access-Control-Allow-Headers'' (join_with '', '' (allow_headers c)) w
      in if allow_credentials c = ''true'' then set_header ''Access-Control-Allow-Credentials'' ''true'' w else w)"

text \<open>\<^verbatim>\<open>ServeHTTP\<close>; \<^const>\<open>None\<close> stands for a panic of \<^verbatim>\<open>WriteHeader\<close> or of the wrapped handler.\<close>

definition cors_serve ::
  "(string \<Rightarrow> string) \<Rightarrow> cors_middleware \<Rightarrow> (http_request \<Rightarrow> http_writer \<Rightarrow> http_writer option)
     \<Rightarrow> http_request \<Rightarrow> http_writer \<Rightarrow> http_writer option" where
  "cors_serve uni c next_handler req w =
     (let origin = to_lower uni (hdr_get ''Origin'' (hr_header req));
          w = add_header ''Vary'' ''Origin'' w
      in if allow_origin c origin then
           (let w = cors_headers c origin w
            in if hr_method req = ''OPTIONS'' then write_header 204 w else next_handler req w)
         else next_handler req w)"

section \<open>What the entries mean\<close>

datatype origin_spec =
    ExactOrigin string string string
  | SubdomainsOf "string option" string

fun spec_ok :: "origin_spec \<Rightarrow> bool" where
  "spec_ok (ExactOrigin s h p) = (plain_scheme s \<and> plain_host h \<and> plain_port p)"
| "spec_ok (SubdomainsOf so d) = ((case so of None \<Rightarrow> True | Some s \<Rightarrow> plain_scheme s) \<and> plain_host d)"

fun spec_entry :: "origin_spec \<Rightarrow> string" where
  "spec_entry (ExactOrigin s h p) = s @ ''://'' @ h @ p"
| "spec_entry (SubdomainsOf None d) = ''*.'' @ d"
| "spec_entry (SubdomainsOf (Some s) d) = s @ ''://*.'' @ d"

text \<open>Whether an entry admits the origin with scheme \<open>s\<close>, host name \<open>h\<close> and port \<open>p\<close>.\<close>

fun spec_admits :: "origin_spec \<Rightarrow> string \<Rightarrow> string \<Rightarrow> string \<Rightarrow> bool" where
  "spec_admits (ExactOrigin s' h' p') s h p = (s = s' \<and> h = h' \<and> p = p')"
| "spec_admits (SubdomainsOf so d) s h p = ((so = None \<or> so = Some s) \<and> has_suffix h (''.'' @ d))"

fun spec_rule :: "origin_spec \<Rightarrow> origin_rule" where
  "spec_rule (ExactOrigin s h p) = empty_rule\<lparr>exact_origin := s @ ''://'' @ h @ p\<rparr>"
| "spec_rule (SubdomainsOf so d) =
     \<lparr>exact_origin = '''', wildcard_suffix = ''.'' @ d, wildcard_scheme = (case so of None \<Rightarrow> '''' | Some s \<Rightarrow> s)\<rparr>"

section \<open>Facts\<close>

lemma str_index_after: "CHR '':'' \<notin> set s \<Longrightarrow> str_index (s @ ''://'' @ r) ''://'' = int (length s)"
  by (induction s) (auto simp: Let_def)

lemma str_index_missing: "CHR '':'' \<notin> set s \<Longrightarrow> str_index s ''://'' = - 1"
  by (induction s) (auto simp: Let_def)

lemma plain_char_printable: "plain_host_char c \<Longrightarrow> printable c \<and> is_ascii c"
proof -
  have "byte (CHR ''.'') = 46" "byte (CHR ''-'') = 45" by code_simp+
  then show "plain_host_char c \<Longrightarrow> ?thesis"
    by (auto simp: printable_def is_ascii_def plain_host_char_def is_lower_letter_def is_digit_def)
qed

lemma plain_scheme_chars: "plain_scheme s \<Longrightarrow> c \<in> set s \<Longrightarrow> plain_host_char c"
  by (auto simp: plain_scheme_def list_all_iff lower_letter_plain)

lemma plain_host_chars: "plain_host s \<Longrightarrow> c \<in> set s \<Longrightarrow> plain_host_char c"
  by (auto simp: plain_host_def list_all_iff)

definition entry_char :: "char \<Rightarrow> bool" where
  "entry_char c \<longleftrightarrow> plain_host_char c \<or> c \<in> set '':/*''"

lemma entry_charD: "entry_char c \<Longrightarrow> printable c \<and> is_ascii c \<and> lower_char c = c"
proof -
  assume "entry_char c"
  moreover have "list_all (\<lambda>c. printable c \<and> is_ascii c \<and> lower_char c = c) '':/*''"
    by (simp add: printable_def is_ascii_def lower_char_def is_upper_letter_def)
  ultimately show ?thesis using plain_char_printable[of c] plain_host_charD(5)[of c]
    by (auto simp: entry_char_def)
qed

lemma entry_id:
  assumes "\<forall>c\<in>set e. entry_char c"
  shows "to_lower uni (trim_space e) = e"
proof (cases "e = []")
  case True
  have "trim_runs ws '''' = ''''" for ws by (rule trim_runs_id) (metis has_prefix.simps(2) neq_Nil_conv)
  then have "trim_space '''' = ''''" by (simp add: trim_space_def)
  with True show ?thesis by (simp add: to_lower_def)
next
  case False
  with assms have "trim_space e = e" using entry_charD by (intro trim_space_printable) auto
  moreover have "to_lower uni e = e" using assms entry_charD by (simp add: to_lower_def list_all_iff map_idI)
  ultimately show ?thesis by simp
qed

lemma spec_entry_chars: "spec_ok sp \<Longrightarrow> \<forall>c\<in>set (spec_entry sp). entry_char c"
proof (cases sp)
  case (ExactOrigin s h p)
  assume "spec_ok sp"
  with ExactOrigin have ok: "plain_scheme s" "plain_host h" "plain_port p" by simp_all
  have "entry_char c" if "c \<in> set (h @ p)" for c
    using plain_hostport_chars[OF ok(2,3) that] by (auto simp: entry_char_def)
  with ExactOrigin plain_scheme_chars[OF ok(1)] show ?thesis by (auto simp: entry_char_def)
next
  case (SubdomainsOf so d)
  assume "spec_ok sp"
  with SubdomainsOf show ?thesis
    by (cases so) (auto simp: entry_char_def plain_host_char_def dest: plain_scheme_chars plain_host_chars)
qed

lemma str_contains_char: "str_contains s [c] \<longleftrightarrow> c \<in> set s"
  by (auto simp: str_contains_iff in_set_conv_decomp)

lemma plain_scheme_no_colon: "plain_scheme s \<Longrightarrow> CHR '':'' \<notin> set s"
  using plain_scheme_chars[of s "CHR '':''"] plain_host_charD(4)[of "CHR '':''"] by auto

lemma plain_host_takeWhile: "plain_host d \<Longrightarrow> takeWhile (\<lambda>c. c \<notin> set ''/:'') d = d"
  using plain_host_chars[of d] plain_host_charD(4) by (fastforce simp: takeWhile_eq_all_conv)

text \<open>The rule made of a wildcard host, after an optional scheme.\<close>

lemma wildcard_rule_spec:
  assumes d: "plain_host d" and s: "case so of None \<Rightarrow> True | Some s \<Rightarrow> plain_scheme s"
  shows "wildcard_rule (spec_entry (SubdomainsOf so d)) = spec_rule (SubdomainsOf so d)"
proof -
  have nc: "CHR '':'' \<notin> set (''*.'' @ d)" using plain_no_colon[OF d] by simp
  have star: "takeWhile (\<lambda>c. c \<noteq> CHR ''/'' \<and> c \<noteq> CHR '':'') d = d" using plain_host_takeWhile[OF d] by simp
  have ne: "d \<noteq> []" using d by (simp add: plain_host_def)
  show ?thesis
  proof (cases so)
    case None
    show ?thesis
      unfolding wildcard_rule_def Let_def None spec_entry.simps str_index_missing[OF nc]
      using ne by (simp add: star trim_prefix_def)
  next
    case (Some sc)
    with s have "CHR '':'' \<notin> set sc" by (simp add: plain_scheme_no_colon)
    then have i: "str_index (sc @ ''://'' @ ''*.'' @ d) ''://'' = int (length sc)" by (rule str_index_after)
    have e: "sc @ ''://*.'' @ d = sc @ ''://'' @ ''*.'' @ d" by simp
    have h: "drop (length sc + 3) (sc @ ''://'' @ ''*.'' @ d) = ''*.'' @ d" by simp
    show ?thesis
      unfolding wildcard_rule_def Let_def Some spec_entry.simps e i
      using ne by (simp add: star trim_prefix_def)
  qed
qed

lemma compile_spec:
  assumes "spec_ok sp"
  shows "compile_origin uni (spec_entry sp) = spec_rule sp"
proof -
  have id: "to_lower uni (trim_space (spec_entry sp)) = spec_entry sp"
    using spec_entry_chars[OF assms] by (rule entry_id)
  show ?thesis
  proof (cases sp)
    case (ExactOrigin s h p)
    with assms have ok: "plain_scheme s" "plain_host h" "plain_port p" by simp_all
    have "CHR ''*'' \<notin> set (s @ ''://'' @ h @ p)"
      using plain_scheme_chars[OF ok(1), of "CHR ''*''"] plain_host_charD(4)[of "CHR ''*''"]
        plain_hostport(4)[OF ok(2,3), of "CHR ''*''"] by auto
    then have "\<not> str_contains (spec_entry sp) ''*''" using ExactOrigin by (simp add: str_contains_char)
    moreover have "s \<noteq> ''''" "h \<noteq> ''''" using ok by (simp_all add: plain_scheme_def plain_host_def)
    ultimately show ?thesis
      unfolding compile_origin_def Let_def id
      using ExactOrigin url_parse_plain[OF ok] by (simp add: empty_rule_def)
  next
    case (SubdomainsOf so d)
    then have c: "str_contains (spec_entry sp) ''*''" "spec_entry sp \<noteq> ''''"
      by (cases so; simp add: str_contains_char)+
    have "wildcard_rule (spec_entry sp) = spec_rule sp"
      using assms SubdomainsOf by (simp add: wildcard_rule_spec del: spec_entry.simps spec_rule.simps)
    with c show ?thesis unfolding compile_origin_def Let_def id by simp
  qed
qed

lemma hostport_inj:
  assumes "plain_host h" "plain_port p" "plain_host h'" "plain_port p'" "h @ p = h' @ p'"
  shows "h = h' \<and> p = p'"
  using url_hostname_plain[OF assms(1,2)] url_hostname_plain[OF assms(3,4)] assms(5) by auto

lemma origin_inj:
  assumes "CHR '':'' \<notin> set s" "CHR '':'' \<notin> set s'" "s @ ''://'' @ x = s' @ ''://'' @ y"
  shows "s = s' \<and> x = y"
proof -
  have "int (length s) = int (length s')" using str_index_after[OF assms(1)] str_index_after[OF assms(2)] assms(3) by metis
  with assms(3) show ?thesis by simp
qed

lemma spec_rule_matches:
  assumes "spec_ok sp" "CHR '':'' \<notin> set s"
  shows "rule_matches (spec_rule sp) s (url_hostname hp) (s @ ''://'' @ hp) \<longleftrightarrow>
    (case sp of ExactOrigin s' h' p' \<Rightarrow> s = s' \<and> hp = h' @ p'
     | SubdomainsOf so d \<Rightarrow> (so = None \<or> so = Some s) \<and> has_suffix (url_hostname hp) (''.'' @ d))"
proof (cases sp)
  case (ExactOrigin s' h' p')
  with assms have "CHR '':'' \<notin> set s'" by (simp add: plain_scheme_no_colon)
  with origin_inj[OF assms(2) this, of hp "h' @ p'"] ExactOrigin show ?thesis
    by (auto simp: rule_matches_def)
next
  case (SubdomainsOf so d)
  with assms show ?thesis by (cases so) (auto simp: rule_matches_def plain_scheme_def)
qed

lemma spec_rule_kept: "spec_ok sp \<Longrightarrow> exact_origin (spec_rule sp) \<noteq> '''' \<or> wildcard_suffix (spec_rule sp) \<noteq> ''''"
  by (cases sp) auto

lemma wrap_origins:
  assumes "list_all spec_ok specs" "opt_allow_origins opts = map spec_entry specs"
  shows "allowed_origins (cors_wrap uni opts) = map spec_rule specs"
proof -
  have "map (compile_origin uni) (map spec_entry specs) = map spec_rule specs"
    using assms(1) by (simp add: list_all_iff compile_spec)
  moreover have "filter (\<lambda>r. exact_origin r \<noteq> '''' \<or> wildcard_suffix r \<noteq> '''') (map spec_rule specs) = map spec_rule specs"
    using assms(1) spec_rule_kept by (auto simp: list_all_iff intro: filter_True)
  ultimately show ?thesis unfolding cors_wrap_def cors_middleware.simps assms(2) by (simp only:)
qed

lemma allow_origin_iff:
  assumes "list_all spec_ok specs" "opt_allow_origins opts = map spec_entry specs"
  shows "allow_origin (cors_wrap uni opts) origin \<longleftrightarrow>
    (\<exists>s hp. url_parse origin = Some (s, hp) \<and> s \<noteq> '''' \<and> hp \<noteq> '''' \<and>
       (\<exists>sp\<in>set specs. case sp of ExactOrigin s' h' p' \<Rightarrow> s = s' \<and> hp = h' @ p'
         | SubdomainsOf so d \<Rightarrow> (so = None \<or> so = Some s) \<and> has_suffix (url_hostname hp) (''.'' @ d)))"
proof (cases "url_parse origin")
  case None
  then show ?thesis by (simp add: allow_origin_def)
next
  case (Some q)
  obtain s hp where q: "q = (s, hp)" by (cases q)
  have nc: "CHR '':'' \<notin> set s" using url_parse_scheme Some q by simp
  have "url_parse '''' = Some ('''', '''')" by code_simp
  with Some q have ne: "s \<noteq> '''' \<Longrightarrow> origin \<noteq> ''''" by auto
  have m: "list_ex (\<lambda>r. rule_matches r s (url_hostname hp) (s @ ''://'' @ hp)) (map spec_rule specs) \<longleftrightarrow>
     (\<exists>sp\<in>set specs. case sp of ExactOrigin s' h' p' \<Rightarrow> s = s' \<and> hp = h' @ p'
         | SubdomainsOf so d \<Rightarrow> (so = None \<or> so = Some s) \<and> has_suffix (url_hostname hp) (''.'' @ d))"
    using assms(1) spec_rule_matches[OF _ nc] by (simp add: list_ex_iff list_all_iff)
  show ?thesis
    unfolding allow_origin_def wrap_origins[OF assms] Some q option.case prod.case m using ne by auto
qed

lemma allow_plain_origin:
  assumes "list_all spec_ok specs" "opt_allow_origins opts = map spec_entry specs"
    "plain_scheme s" "plain_host h" "plain_port p"
  shows "allow_origin (cors_wrap uni opts) (s @ ''://'' @ h @ p) \<longleftrightarrow> (\<exists>sp\<in>set specs. spec_admits sp s h p)"
proof -
  have n: "s \<noteq> ''''" "h @ p \<noteq> ''''" using assms(3,4) by (simp_all add: plain_scheme_def plain_host_def)
  have m: "(case sp of ExactOrigin s' h' p' \<Rightarrow> s = s' \<and> h @ p = h' @ p'
      | SubdomainsOf so d \<Rightarrow> (so = None \<or> so = Some s) \<and> has_suffix (url_hostname (h @ p)) (''.'' @ d))
     \<longleftrightarrow> spec_admits sp s h p" if "sp \<in> set specs" for sp
  proof (cases sp)
    case (ExactOrigin s' h' p')
    with that assms(1) have "plain_host h'" "plain_port p'" by (auto simp: list_all_iff)
    from hostport_inj[OF assms(4,5) this] ExactOrigin show ?thesis by auto
  next
    case (SubdomainsOf so d)
    then show ?thesis by (simp add: url_hostname_plain[OF assms(4,5)])
  qed
  have "(\<exists>sp\<in>set specs. case sp of ExactOrigin s' h' p' \<Rightarrow> s = s' \<and> h @ p = h' @ p'
      | SubdomainsOf so d \<Rightarrow> (so = None \<or> so = Some s) \<and> has_suffix (url_hostname (h @ p)) (''.'' @ d))
     \<longleftrightarrow> (\<exists>sp\<in>set specs. spec_admits sp s h p)" using m by (rule bex_cong[OF refl])
  with n show ?thesis
    unfolding allow_origin_iff[OF assms(1,2)] url_parse_plain[OF assms(3-5)] by simp
qed

lemma cors_keys [simp]:
  "canonical_key ''Vary'' = ''Vary''" "canonical_key ''Access-Control-Allow-Origin'' = ''Access-Control-Allow-Origin''"
  "canonical_key ''Access-Control-Expose-Headers'' = ''Access-Control-Expose-Headers''"
  "canonical_key ''Access-Control-Allow-Methods'' = ''Access-Control-Allow-Methods''"
  "canonical_key ''Access-Control-Allow-Headers'' = ''Access-Control-Allow-Headers''"
  "canonical_key ''Access-Control-Allow-Credentials'' = ''Access-Control-Allow-Credentials''"
  by code_simp+

definition credentials_on :: "(string \<Rightarrow> string) \<Rightarrow> cors_opts \<Rightarrow> bool" where
  "credentials_on uni opts \<longleftrightarrow> opt_allow_credentials opts = '''' \<or> to_lower uni (opt_allow_credentials opts) = ''true''"

lemma wrap_credentials: "allow_credentials (cors_wrap uni opts) = ''true'' \<longleftrightarrow> credentials_on uni opts"
proof -
  have "list_all is_ascii ''true''" "map lower_char ''true'' = ''true''" by code_simp+
  then have "to_lower uni ''true'' = ''true''" by (simp only: to_lower_def if_True)
  then show ?thesis by (simp add: cors_wrap_def credentials_on_def)
qed

lemma cors_headers_values:
  "wr_status (cors_headers c origin w) = wr_status w" "wr_body (cors_headers c origin w) = wr_body w"
  "header_values ''Vary'' (wr_header (cors_headers c origin w)) = header_values ''Vary'' (wr_header w)"
  "header_values ''Access-Control-Allow-Origin'' (wr_header (cors_headers c origin w)) = [origin]"
  "header_values ''Access-Control-Allow-Credentials'' (wr_header (cors_headers c origin w)) =
     (if allow_credentials c = ''true'' then [''true'']
      else header_values ''Access-Control-Allow-Credentials'' (wr_header w))"
  by (simp_all add: cors_headers_def Let_def)

definition cors_outcome ::
  "bool \<Rightarrow> bool \<Rightarrow> string \<Rightarrow> (http_request \<Rightarrow> http_writer \<Rightarrow> http_writer option) \<Rightarrow> http_request \<Rightarrow> http_writer
     \<Rightarrow> http_writer option \<Rightarrow> bool" where
  "cors_outcome admitted creds origin next_handler req w r \<longleftrightarrow>
     (\<exists>w'. r = (if admitted \<and> hr_method req = ''OPTIONS'' then Some (if wr_status w' = None then w'\<lparr>wr_status := Some 204\<rparr> else w')
                else next_handler req w')
        \<and> wr_status w' = wr_status w \<and> wr_body w' = wr_body w
        \<and> header_values ''Vary'' (wr_header w') = header_values ''Vary'' (wr_header w) @ [''Origin'']
        \<and> header_values ''Access-Control-Allow-Origin'' (wr_header w') =
            (if admitted then [origin] else header_values ''Access-Control-Allow-Origin'' (wr_header w))
        \<and> header_values ''Access-Control-Allow-Credentials'' (wr_header w') =
            (if admitted \<and> creds then [''true''] else header_values ''Access-Control-Allow-Credentials'' (wr_header w)))"

lemma cors_serve_outcome:
  "cors_outcome (allow_origin (cors_wrap uni opts) origin) (credentials_on uni opts) origin next_handler req w
     (cors_serve uni (cors_wrap uni opts) next_handler req w)"
  if "origin = to_lower uni (hdr_get ''Origin'' (hr_header req))"
proof -
  let ?c = "cors_wrap uni opts"
  let ?a = "allow_origin ?c origin"
  let ?w = "add_header ''Vary'' ''Origin'' w"
  let ?w' = "if ?a then cors_headers ?c origin ?w else ?w"
  have "cors_serve uni ?c next_handler req w =
     (if ?a \<and> hr_method req = ''OPTIONS'' then Some (if wr_status ?w' = None then ?w'\<lparr>wr_status := Some 204\<rparr> else ?w')
                else next_handler req ?w')"
    by (simp add: cors_serve_def Let_def that[symmetric] write_header_def)
  moreover have "header_values ''Access-Control-Allow-Credentials'' (wr_header ?w') =
            (if ?a \<and> credentials_on uni opts then [''true''] else header_values ''Access-Control-Allow-Credentials'' (wr_header w))"
    by (simp add: cors_headers_values wrap_credentials)
  moreover have "wr_status ?w' = wr_status w" "wr_body ?w' = wr_body w"
     "header_values ''Vary'' (wr_header ?w') = header_values ''Vary'' (wr_header w) @ [''Origin'']"
     "header_values ''Access-Control-Allow-Origin'' (wr_header ?w') =
            (if ?a then [origin] else header_values ''Access-Control-Allow-Origin'' (wr_header w))"
    by (simp_all add: cors_headers_values)
  ultimately show ?thesis unfolding cors_outcome_def by blast
qed

section \<open>Properties\<close>

text \<open>
  C18: for a middleware configured with full origins and subdomain wildcards, and a request whose
  \<^verbatim>\<open>Origin\<close> header, in lower case, is a scheme, a host and an optional port: the origin is admitted
  exactly if an entry is this very origin, or a wildcard of this scheme (or of none) of which the
  host is a proper subdomain - never the apex, never a host that merely starts with or contains
  the domain.  An admitted origin is reflected, with credentials only if these are configured, and
  an admitted preflight is answered 204 without reaching the handler; any other request reaches
  the handler with no origin granted.  The response varies with the origin in every case.
\<close>

theorem cors_policy:
  assumes "list_all spec_ok specs" "opt_allow_origins opts = map spec_entry specs"
    and "plain_scheme s" "plain_host h" "plain_port p"
    and "to_lower uni (hdr_get ''Origin'' (hr_header req)) = s @ ''://'' @ h @ p"
  shows "cors_outcome
    (\<exists>sp\<in>set specs. case sp of
        ExactOrigin s' h' p' \<Rightarrow> s = s' \<and> h = h' \<and> p = p'
      | SubdomainsOf so d \<Rightarrow> (so = None \<or> so = Some s) \<and> (\<exists>sub. h = sub @ ''.'' @ d))
    (credentials_on uni opts) (s @ ''://'' @ h @ p) next_handler req w
    (cors_serve uni (cors_wrap uni opts) next_handler req w)"
proof -
  have "spec_admits sp s h p = (case sp of
        ExactOrigin s' h' p' \<Rightarrow> s = s' \<and> h = h' \<and> p = p'
      | SubdomainsOf so d \<Rightarrow> (so = None \<or> so = Some s) \<and> (\<exists>sub. h = sub @ ''.'' @ d))" for sp
    by (cases sp) (simp_all add: has_suffix_iff)
  then show ?thesis
    using cors_serve_outcome[OF assms(6)[symmetric], of opts next_handler w] allow_plain_origin[OF assms(1-5)] by simp
qed

lemma cors_policy_witness:
  "\<exists>(opts :: cors_opts) (req :: http_request).
     opt_allow_origins opts = [''https://app.example.com'', ''*.example.org'']
     \<and> cors_outcome True True ''https://a.example.org:8443'' (\<lambda>req w. Some w) req fresh_writer
        (cors_serve id (cors_wrap id opts) (\<lambda>req w. Some w) req fresh_writer)"
proof -
  let ?specs = "[ExactOrigin ''https'' ''app.example.com'' '''', SubdomainsOf None ''example.org'']"
  let ?opts = "\<lparr>opt_allow_origins = [''https://app.example.com'', ''*.example.org''], opt_allow_headers = None,
     opt_allow_credentials = '''', opt_allow_methods = ''''\<rparr> :: cors_opts"
  let ?req = "\<lparr>hr_method = ''OPTIONS'', hr_path = ''/'', hr_header = [(''Origin'', [''https://A.example.org:8443''])],
     hr_cookies = [], hr_query = [], hr_body = '''', hr_remote_addr = ''''\<rparr> :: http_request"
  have 1: "list_all spec_ok ?specs" "plain_scheme ''https''" "plain_host ''a.example.org''" "plain_port '':8443''" by code_simp+
  have 2: "opt_allow_origins ?opts = map spec_entry ?specs" by simp
  have 3: "to_lower id (hdr_get ''Origin'' (hr_header ?req)) = ''https'' @ ''://'' @ ''a.example.org'' @ '':8443''" by code_simp
  have "\<exists>sub. ''a.example.org'' = sub @ ''.'' @ ''example.org''" by (rule exI[of _ "''a''"]) simp
  then have 4: "\<exists>sp\<in>set ?specs. case sp of
        ExactOrigin s' h' p' \<Rightarrow> ''https'' = s' \<and> ''a.example.org'' = h' \<and> '':8443'' = p'
      | SubdomainsOf so d \<Rightarrow> (so = None \<or> so = Some ''https'') \<and> (\<exists>sub. ''a.example.org'' = sub @ ''.'' @ d)" by simp
  have 5: "credentials_on id ?opts" by (simp add: credentials_on_def)
  from cors_policy[OF 1(1) 2 1(2-4) 3, of "\<lambda>req w. Some w" fresh_writer] 4 5
  have "cors_outcome True True ''https://a.example.org:8443'' (\<lambda>req w. Some w) ?req fresh_writer
        (cors_serve id (cors_wrap id ?opts) (\<lambda>req w. Some w) ?req fresh_writer)" by simp
  then show ?thesis by (intro exI[of _ ?opts] exI[of _ ?req]) simp
qed

text \<open>
  Whatever a request's \<^verbatim>\<open>Origin\<close> header is, an origin that is granted to it is the header itself,
  which parses as an address whose scheme, host and port are those of a configured origin, or
  whose host is a proper subdomain of a configured wildcard.
\<close>

theorem cors_only_listed:
  assumes "list_all spec_ok specs" "opt_allow_origins opts = map spec_entry specs"
    and "header_values ''Access-Control-Allow-Origin'' (wr_header w) = []"
    and "cors_serve uni (cors_wrap uni opts) (\<lambda>req w. Some w) req w = Some w'"
    and "origin \<in> set (header_values ''Access-Control-Allow-Origin'' (wr_header w'))"
  shows "origin = to_lower uni (hdr_get ''Origin'' (hr_header req))
    \<and> (\<exists>s hp. url_parse origin = Some (s, hp) \<and> s \<noteq> '''' \<and>
       (\<exists>sp\<in>set specs. case sp of ExactOrigin s' h' p' \<Rightarrow> s = s' \<and> hp = h' @ p'
         | SubdomainsOf so d \<Rightarrow> (so = None \<or> so = Some s) \<and> (\<exists>sub. url_hostname hp = sub @ ''.'' @ d)))"
proof -
  let ?o = "to_lower uni (hdr_get ''Origin'' (hr_header req))"
  let ?a = "allow_origin (cors_wrap uni opts) ?o"
  from cors_serve_outcome[OF refl, of uni opts req "\<lambda>req w. Some w" w] assms(3-5)
  have a: "?a \<and> origin = ?o" unfolding cors_outcome_def by (auto split: if_splits)
  with allow_origin_iff[OF assms(1,2), of uni ?o] show ?thesis
    by (auto simp: has_suffix_iff split: origin_spec.splits) blast+
qed

lemma cors_only_listed_witness:
  "\<exists>s hp. url_parse ''https://app.example.com'' = Some (s, hp) \<and> s \<noteq> ''''"
proof -
  let ?specs = "[ExactOrigin ''https'' ''app.example.com'' '''']"
  let ?opts = "\<lparr>opt_allow_origins = [''https://app.example.com''], opt_allow_headers = None,
     opt_allow_credentials = '''', opt_allow_methods = ''''\<rparr> :: cors_opts"
  let ?req = "\<lparr>hr_method = ''GET'', hr_path = ''/'', hr_header = [(''Origin'', [''https://app.example.com''])],
     hr_cookies = [], hr_query = [], hr_body = '''', hr_remote_addr = ''''\<rparr> :: http_request"
  let ?o = "''https://app.example.com''"
  let ?w = "cors_headers (cors_wrap id ?opts) ?o (add_header ''Vary'' ''Origin'' fresh_writer)"
  have 1: "list_all spec_ok ?specs" by code_simp
  have 2: "opt_allow_origins ?opts = map spec_entry ?specs" by simp
  have 3: "header_values ''Access-Control-Allow-Origin'' (wr_header fresh_writer) = []" by code_simp
  have p: "plain_scheme ''https''" "plain_host ''app.example.com''" "plain_port ''''" by code_simp+
  have "allow_origin (cors_wrap id ?opts) (''https'' @ ''://'' @ ''app.example.com'' @ '''')"
    unfolding allow_plain_origin[OF 1 2 p] by simp
  then have "allow_origin (cors_wrap id ?opts) ?o" by (simp only: append.simps)
  moreover have "to_lower id (hdr_get ''Origin'' (hr_header ?req)) = ?o" by code_simp
  ultimately have 4: "cors_serve id (cors_wrap id ?opts) (\<lambda>req w. Some w) ?req fresh_writer = Some ?w"
    by (simp only: cors_serve_def Let_def if_True) simp
  have 5: "?o \<in> set (header_values ''Access-Control-Allow-Origin'' (wr_header ?w))"
    by (simp only: cors_headers_values) simp
  from cors_only_listed[OF 1 2 3 4 5] show ?thesis by blast
qed

end
