(* ===== verification/Paginate.thy ===== *)
theory Paginate
  imports ResCore
begin

text \<open>
  Package \<^verbatim>\<open>paginate\<close>: the configuration read from a request, the sanitising of columns and directions,
  and the composition of the queries.  The query builder and the database are third-party: a query is
  the list of calls made on the builder, and the answers to the two queries are arguments.
\<close>

section \<open>Configuration\<close>

record order_by =
  ob_column :: string
  ob_direction :: string

record paging =
  pg_page :: int
  pg_page_size :: int

record pg_filter =
  pf_column :: string
  pf_operator :: string
  pf_value :: string

text \<open>\<^verbatim>\<open>Config\<close>: the types that \<^verbatim>\<open>decodeConfig\<close> knows, and any other value.\<close>

datatype 'row config =
    SearchFields "string list"
  | ColumnMapping "string \<rightharpoonup> string"
  | Search string
  | OrderByCfg order_by
  | PagingCfg paging
  | ResultProcessor "'row \<Rightarrow> 'row"
  | DownloadFileName string
  | FilterCfg pg_filter
  | Filters "pg_filter list"
  | Configs "'row config list"
  | OtherConfig

record 'row query_config =
  qc_mapping :: "string \<rightharpoonup> string"
  qc_search_fields :: "string list"
  qc_search :: string
  qc_order_by :: order_by
  qc_page :: int
  qc_page_size :: int
  qc_download :: string
  qc_filter :: "pg_filter list"
  qc_processor :: "('row \<Rightarrow> 'row) option"

definition empty_query_config :: "'row query_config" where
  "empty_query_config = \<lparr>qc_mapping = Map.empty, qc_search_fields = [], qc_search = '''',
     qc_order_by = \<lparr>ob_column = '''', ob_direction = ''''\<rparr>, qc_page = 0, qc_page_size = 0, qc_download = '''',
     qc_filter = [], qc_processor = None\<rparr>"

fun decode_one :: "'row query_config \<Rightarrow> 'row config \<Rightarrow> 'row query_config"
  and decode_config :: "'row query_config \<Rightarrow> 'row config list \<Rightarrow> 'row query_config" where
  "decode_one q (SearchFields v) = q\<lparr>qc_search_fields := v\<rparr>"
| "decode_one q (ColumnMapping v) = q\<lparr>qc_mapping := v\<rparr>"
| "decode_one q (Search v) = q\<lparr>qc_search := v\<rparr>"
| "decode_one q (OrderByCfg v) = q\<lparr>qc_order_by := v\<rparr>"
| "decode_one q (PagingCfg v) = q\<lparr>qc_page := pg_page v, qc_page_size := pg_page_size v\<rparr>"
| "decode_one q (ResultProcessor v) = q\<lparr>qc_processor := Some v\<rparr>"
| "decode_one q (DownloadFileName v) = q\<lparr>qc_download := v\<rparr>"
| "decode_one q (FilterCfg v) = q\<lparr>qc_filter := qc_filter q @ [v]\<rparr>"
| "decode_one q (Filters v) = q\<lparr>qc_filter := qc_filter q @ v\<rparr>"
| "decode_one q (Configs v) = decode_config q v"
| "decode_one q OtherConfig = q"
| "decode_config q [] = q"
| "decode_config q (c # cs) = decode_config (decode_one q c) cs"

section \<open>Reading the request\<close>

text \<open>
  The expression \<^verbatim>\<open>^(.*?)(=|<=|>=|<|>)(.*)$\<close>: the column ends before the first operator character, the
  longer operator is tried first, and no dot matches a line break.
\<close>

definition op_char :: "char \<Rightarrow> bool" where
  "op_char c \<longleftrightarrow> c \<in> set ''=<>''"

definition match_filter :: "string \<Rightarrow> pg_filter option" where
  "match_filter part =
     (if char_of (10::nat) \<in> set part then None
      else let col = takeWhile (\<lambda>c. \<not> op_char c) part
           in case dropWhile (\<lambda>c. \<not> op_char c) part of
                [] \<Rightarrow> None
              | c # cs \<Rightarrow>
                  if c \<noteq> CHR ''='' \<and> cs \<noteq> [] \<and> hd cs = CHR ''=''
                  then Some \<lparr>pf_column = col, pf_operator = [c, CHR ''=''], pf_value = tl cs\<rparr>
                  else Some \<lparr>pf_column = col, pf_operator = [c], pf_value = cs\<rparr>)"

fun decode_filter_parts :: "string list \<Rightarrow> string + pg_filter list" where
  "decode_filter_parts [] = Inr []"
| "decode_filter_parts (p # ps) =
     (case match_filter p of
        None \<Rightarrow> Inl (''invalid filter part '' @ [CHR 0x27] @ p @ [CHR 0x27])
      | Some f \<Rightarrow> (case decode_filter_parts ps of Inl e \<Rightarrow> Inl e | Inr fs \<Rightarrow> Inr (f # fs)))"

definition decode_request_filter :: "string \<Rightarrow> string + pg_filter list" where
  "decode_request_filter v = (if v = '''' then Inr [] else decode_filter_parts (split_char (CHR '','') v))"

definition params_from_request :: "http_request \<Rightarrow> string + 'row config" where
  "params_from_request rq =
     (case decode_request_filter (rq_query rq ''filter'') of
        Inl e \<Rightarrow> Inl e
      | Inr fs \<Rightarrow>
          Inr (Configs
            [Search (rq_query rq ''search''),
             OrderByCfg \<lparr>ob_column = rq_query rq ''orderBy'', ob_direction = rq_query rq ''orderByDirection''\<rparr>,
             PagingCfg \<lparr>pg_page = get_query_int rq ''page'', pg_page_size = get_query_int rq ''pageSize''\<rparr>,
             DownloadFileName (rq_query rq ''download''),
             Filters fs]))"

section \<open>Sanitising\<close>

definition sanitize_direction :: "string \<Rightarrow> string + string" where
  "sanitize_direction v =
     (if v = ''asc'' then Inr v else if v = ''desc'' then Inr v else if v = '''' then Inr v
      else Inl (''invalid order by direction '' @ [CHR 0x27] @ v @ [CHR 0x27]))"

text \<open>The loop of \<^verbatim>\<open>camelCaseToSnakeCase\<close>; \<open>first\<close> says that it is at the first character.\<close>

fun snake_loop :: "bool \<Rightarrow> string \<Rightarrow> string" where
  "snake_loop first [] = []"
| "snake_loop first (c # cs) =
     (if is_upper_letter c then (if first then [] else ''_'') @ [lower_char c] @ snake_loop False cs
      else c # snake_loop False cs)"

record uni_lib =
  ul_lower :: "string \<Rightarrow> string"
  ul_snake :: "string \<Rightarrow> string"

definition camel_to_snake :: "uni_lib \<Rightarrow> string \<Rightarrow> string" where
  "camel_to_snake uni s = (if list_all is_ascii s then snake_loop True s else ul_snake uni s)"

text \<open>\<^verbatim>\<open>^[a-z_]+$\<close>\<close>

definition column_name :: "string \<Rightarrow> bool" where
  "column_name s \<longleftrightarrow> s \<noteq> [] \<and> list_all (\<lambda>c. is_lower_letter c \<or> c = CHR ''_'') s"

definition sanitize_db_column :: "uni_lib \<Rightarrow> string \<Rightarrow> (string \<rightharpoonup> string) \<Rightarrow> string + string" where
  "sanitize_db_column uni input_col mapping =
     (case mapping input_col of
        Some r \<Rightarrow> Inr r
      | None \<Rightarrow>
          (case mapping (to_lower (ul_lower uni) input_col) of
             Some r \<Rightarrow> Inr r
           | None \<Rightarrow>
               (let name = camel_to_snake uni (filter (\<lambda>c. c \<noteq> CHR '' '') input_col)
                in if \<not> column_name name
                   then Inl (''invalid order by column '' @ [CHR 0x27] @ name @ [CHR 0x27])
                   else Inr name)))"

fun sanitize_columns :: "uni_lib \<Rightarrow> (string \<rightharpoonup> string) \<Rightarrow> string list \<Rightarrow> string + string list" where
  "sanitize_columns uni m [] = Inr []"
| "sanitize_columns uni m (p # ps) =
     (case sanitize_db_column uni p m of
        Inl e \<Rightarrow> Inl e
      | Inr c \<Rightarrow> (case sanitize_columns uni m ps of Inl e \<Rightarrow> Inl e | Inr cs \<Rightarrow> Inr (c # cs)))"

definition decode_order_by :: "uni_lib \<Rightarrow> string \<Rightarrow> (string \<rightharpoonup> string) \<Rightarrow> string + string list" where
  "decode_order_by uni v m = (if v = '''' then Inr [] else sanitize_columns uni m (split_char (CHR '','') v))"

section \<open>Composing the query\<close>

text \<open>The calls made on the query builder: its conditions carry their values as arguments of the statement.\<close>

datatype cmp_op = CmpEq | CmpGe | CmpLe | CmpLt | CmpGt

datatype builder_call =
    WhereAnyILike "(string \<times> string) list"
  | WhereCmp cmp_op string string
  | OrderByText string
  | LimitTo int
  | OffsetBy int
  | BaseCall string

definition apply_search :: "builder_call list \<Rightarrow> 'row query_config \<Rightarrow> builder_call list" where
  "apply_search query cfg =
     (if qc_search_fields cfg = [] then query
      else if qc_search cfg = '''' then query
      else let search = ''%'' @ qc_search cfg @ ''%''
           in query @ [WhereAnyILike (map (\<lambda>field. (field, search)) (qc_search_fields cfg))])"

definition filter_operator :: "string \<Rightarrow> cmp_op option" where
  "filter_operator s =
     (if s = ''='' then Some CmpEq else if s = ''>='' then Some CmpGe else if s = ''<='' then Some CmpLe
      else if s = ''<'' then Some CmpLt else if s = ''>'' then Some CmpGt else None)"

fun apply_filter_loop :: "uni_lib \<Rightarrow> (string \<rightharpoonup> string) \<Rightarrow> builder_call list \<Rightarrow> pg_filter list \<Rightarrow> string + builder_call list" where
  "apply_filter_loop uni m query [] = Inr query"
| "apply_filter_loop uni m query (f # fs) =
     (case sanitize_db_column uni (pf_column f) m of
        Inl e \<Rightarrow> Inl e
      | Inr col \<Rightarrow>
          (case filter_operator (pf_operator f) of
             None \<Rightarrow> Inl (''invalid operator '' @ [CHR 0x27] @ pf_operator f @ [CHR 0x27])
           | Some op \<Rightarrow> apply_filter_loop uni m (query @ [WhereCmp op col (pf_value f)]) fs))"

definition apply_filters :: "uni_lib \<Rightarrow> builder_call list \<Rightarrow> 'row query_config \<Rightarrow> string + builder_call list" where
  "apply_filters uni query cfg = apply_filter_loop uni (qc_mapping cfg) query (qc_filter cfg)"

definition apply_order_by :: "uni_lib \<Rightarrow> builder_call list \<Rightarrow> 'row query_config \<Rightarrow> string + builder_call list" where
  "apply_order_by uni query cfg =
     (case decode_order_by uni (ob_column (qc_order_by cfg)) (qc_mapping cfg) of
        Inl e \<Rightarrow> Inl e
      | Inr cols \<Rightarrow>
          (case sanitize_direction (ob_direction (qc_order_by cfg)) of
             Inl e \<Rightarrow> Inl e
           | Inr dir \<Rightarrow> Inr (query @ map (\<lambda>order. OrderByText (order @ '' '' @ dir)) cols)))"

text \<open>\<^verbatim>\<open>MaxPageSize\<close> and \<^verbatim>\<open>DefaultPageSize\<close> are variables of the package.\<close>

definition max_page_size :: int where "max_page_size = 50"
definition default_page_size :: int where "default_page_size = max_page_size"

definition effective_page_size :: "int \<Rightarrow> int \<Rightarrow> int \<Rightarrow> int" where
  "effective_page_size max_size default_size page_size =
     (let s = (if page_size \<le> 0 then default_size else page_size) in if max_size < s then max_size else s)"

definition u64 :: "int \<Rightarrow> int" where
  "u64 x = x mod 18446744073709551616"

definition apply_pager :: "int \<Rightarrow> int \<Rightarrow> builder_call list \<Rightarrow> 'row query_config \<Rightarrow> builder_call list" where
  "apply_pager max_size default_size query cfg =
     (let page_size = effective_page_size max_size default_size (qc_page_size cfg);
          page = (if qc_page cfg < 0 then 0 else qc_page cfg)
      in query @ [LimitTo (u64 page_size), OffsetBy (u64 (i64 (page * page_size)))])"

section \<open>The query\<close>

datatype list_dest = NotAPointer | NilPointer | PointerToOther | PointerToSlice

definition process_results :: "list_dest \<Rightarrow> ('row \<Rightarrow> 'row) \<Rightarrow> 'row list \<Rightarrow> string + 'row list" where
  "process_results dest processor rows =
     (if dest = NotAPointer then Inl ''expected list to be a pointer''
      else if dest = NilPointer then Inl ''expected list to be not nil''
      else if dest = PointerToOther then Inl ''expected pointer to slice''
      else Inr (map processor rows))"

text \<open>
  The surroundings: the limits, the Unicode library, the database's answers to the two queries, the
  CSV and response encoders, and what \<^verbatim>\<open>res.Error\<close> needs.
\<close>

record 'row pg_env =
  pe_max :: int
  pe_default :: int
  pe_uni :: uni_lib
  pe_count :: "builder_call list \<Rightarrow> string + int"
  pe_select :: "builder_call list \<Rightarrow> string + 'row list"
  pe_csv :: "'row list \<Rightarrow> go_error + string"
  pe_data :: "'row list \<Rightarrow> res_data"
  pe_res :: res_lib
  pe_errors :: errors_lib
  pe_disclosure :: disclosure_config

definition page_response :: "res_data \<Rightarrow> int \<Rightarrow> responder option" where
  "page_response data total_count = ok_resp [DMap [(''data'', data), (''totalCount'', DNum total_count)]]"

definition download_response :: "'row pg_env \<Rightarrow> 'row list \<Rightarrow> string \<Rightarrow> responder" where
  "download_response env rows file_name =
     (case pe_csv env rows of
        Inl e \<Rightarrow> fst (error_resp (pe_errors env) (pe_disclosure env) (Some e))
      | Inr csv \<Rightarrow> download_resp (pe_res env) file_name csv)"

datatype db_query = CountOf "builder_call list" | SelectOf "builder_call list"

text \<open>\<^verbatim>\<open>Query\<close>: what it throws or the responder, and the queries it has run.\<close>

definition pg_query :: "'row pg_env \<Rightarrow> list_dest \<Rightarrow> builder_call list \<Rightarrow> 'row config list \<Rightarrow> (string + responder) \<times> db_query list" where
  "pg_query env dest base_query configs =
     (let cfg = decode_config empty_query_config configs;
          is_download = (qc_download cfg \<noteq> '''');
          q1 = apply_search base_query cfg
      in case apply_filters (pe_uni env) q1 cfg of
           Inl e \<Rightarrow> (Inl e, [])
         | Inr q2 \<Rightarrow>
             (case (if is_download then Inr 0 else pe_count env q2) of
                Inl e \<Rightarrow> (Inl e, [CountOf q2])
              | Inr total_count \<Rightarrow>
                  (let ran = (if is_download then [] else [CountOf q2])
                   in case apply_order_by (pe_uni env) q2 cfg of
                        Inl e \<Rightarrow> (Inl e, ran)
                      | Inr q3 \<Rightarrow>
                          (let q4 = (if is_download then q3 else apply_pager (pe_max env) (pe_default env) q3 cfg);
                               ran2 = ran @ [SelectOf q4]
                           in case pe_select env q4 of
                                Inl e \<Rightarrow> (Inl e, ran2)
                              | Inr rows \<Rightarrow>
                                  (case (case qc_processor cfg of None \<Rightarrow> Inr rows | Some p \<Rightarrow> process_results dest p rows) of
                                     Inl e \<Rightarrow> (Inl e, ran2)
                                   | Inr rows2 \<Rightarrow>
                                       if is_download then (Inr (download_response env rows2 (qc_download cfg)), ran2)
                                       else (case page_response (pe_data env rows2) total_count of
                                           None \<Rightarrow> (Inl ''reflect: IsNil'', ran2)
                                         | Some r \<Rightarrow> (Inr r, ran2)))))))"

section \<open>What may reach the database\<close>

definition column_allowed :: "(string \<rightharpoonup> string) \<Rightarrow> string \<Rightarrow> bool" where
  "column_allowed m col \<longleftrightarrow> col \<in> ran m \<or> column_name col"

fun call_safe :: "(string \<rightharpoonup> string) \<Rightarrow> string list \<Rightarrow> int \<Rightarrow> builder_call \<Rightarrow> bool" where
  "call_safe m allowed max_size (WhereAnyILike ls) \<longleftrightarrow> map fst ls = allowed"
| "call_safe m allowed max_size (WhereCmp op col v) \<longleftrightarrow> column_allowed m col"
| "call_safe m allowed max_size (OrderByText t) \<longleftrightarrow>
     (\<exists>col dir. t = col @ '' '' @ dir \<and> column_allowed m col \<and> dir \<in> {''asc'', ''desc'', ''''})"
| "call_safe m allowed max_size (LimitTo n) \<longleftrightarrow> 1 \<le> n \<and> n \<le> max_size"
| "call_safe m allowed max_size (OffsetBy n) \<longleftrightarrow> 0 \<le> n \<and> n < 2 ^ 64"
| "call_safe m allowed max_size (BaseCall s) \<longleftrightarrow> False"

fun query_calls :: "db_query \<Rightarrow> builder_call list" where
  "query_calls (CountOf cs) = cs"
| "query_calls (SelectOf cs) = cs"

definition extends_safely :: "(builder_call \<Rightarrow> bool) \<Rightarrow> builder_call list \<Rightarrow> builder_call list \<Rightarrow> bool" where
  "extends_safely safe query query' \<longleftrightarrow> (\<exists>added. query' = query @ added \<and> list_all safe added)"

lemma extends_refl [intro]: "extends_safely safe q q"
  by (simp add: extends_safely_def)

lemma extends_append: "extends_safely safe q q' \<Longrightarrow> list_all safe added \<Longrightarrow> extends_safely safe q (q' @ added)"
  by (fastforce simp: extends_safely_def)

lemma sanitize_column_allowed: "sanitize_db_column uni c m = Inr col \<Longrightarrow> column_allowed m col"
  by (auto simp: sanitize_db_column_def column_allowed_def Let_def ran_def split: option.splits if_splits)

lemma sanitize_columns_allowed: "sanitize_columns uni m ps = Inr cols \<Longrightarrow> list_all (column_allowed m) cols"
  by (induction ps arbitrary: cols) (auto dest: sanitize_column_allowed split: sum.splits)

lemma decode_order_allowed: "decode_order_by uni v m = Inr cols \<Longrightarrow> list_all (column_allowed m) cols"
  by (auto simp: decode_order_by_def dest: sanitize_columns_allowed split: if_splits)

lemma direction_allowed: "sanitize_direction v = Inr d \<Longrightarrow> d \<in> {''asc'', ''desc'', ''''}"
  by (auto simp: sanitize_direction_def split: if_splits)

lemma search_extends:
  "extends_safely safe base q \<Longrightarrow> (\<And>ls. map fst ls = qc_search_fields cfg \<Longrightarrow> safe (WhereAnyILike ls))
    \<Longrightarrow> extends_safely safe base (apply_search q cfg)"
  by (auto simp: apply_search_def Let_def o_def intro!: extends_append)

lemma filter_loop_extends:
  "apply_filter_loop uni m q fs = Inr q' \<Longrightarrow> extends_safely safe base q
    \<Longrightarrow> (\<And>op col v. column_allowed m col \<Longrightarrow> safe (WhereCmp op col v)) \<Longrightarrow> extends_safely safe base q'"
proof (induction fs arbitrary: q)
  case Nil
  then show ?case by simp
next
  case (Cons f fs)
  from Cons.prems(1) obtain col op where c: "sanitize_db_column uni (pf_column f) m = Inr col"
    "apply_filter_loop uni m (q @ [WhereCmp op col (pf_value f)]) fs = Inr q'"
    by (auto split: sum.splits option.splits)
  have "list_all safe [WhereCmp op col (pf_value f)]" using Cons.prems(3) sanitize_column_allowed[OF c(1)] by simp
  with Cons.IH[OF c(2)] Cons.prems(2,3) show ?case by (blast intro: extends_append)
qed

lemma order_extends:
  assumes "apply_order_by uni q cfg = Inr q'" "extends_safely safe base q"
    and "\<And>col dir. column_allowed (qc_mapping cfg) col \<Longrightarrow> dir \<in> {''asc'', ''desc'', ''''} \<Longrightarrow> safe (OrderByText (col @ '' '' @ dir))"
  shows "extends_safely safe base q'"
proof -
  from assms(1) obtain cols dir where
    "decode_order_by uni (ob_column (qc_order_by cfg)) (qc_mapping cfg) = Inr cols"
    "sanitize_direction (ob_direction (qc_order_by cfg)) = Inr dir"
    "q' = q @ map (\<lambda>order. OrderByText (order @ '' '' @ dir)) cols"
    by (auto simp: apply_order_by_def split: sum.splits)
  with assms(2,3) show ?thesis
    by (auto dest!: decode_order_allowed direction_allowed intro!: extends_append simp: list_all_iff)
qed

lemma effective_size_bounds: "0 < mx \<Longrightarrow> 0 < df \<Longrightarrow> 1 \<le> effective_page_size mx df s \<and> effective_page_size mx df s \<le> mx"
  by (auto simp: effective_page_size_def Let_def)

lemma decode_append: "decode_config q (a @ b) = decode_config (decode_config q a) b"
  by (induction a arbitrary: q) auto

lemma params_fields:
  assumes "params_from_request rq = Inr params"
  shows "qc_mapping (decode_one q params) = qc_mapping q" "qc_search_fields (decode_one q params) = qc_search_fields q"
    "qc_processor (decode_one q params) = qc_processor q"
  using assms by (auto simp: params_from_request_def split: sum.splits)

lemma query_extends:
  assumes "0 < pe_max env" "0 < pe_default env" "pe_max env < 2 ^ 64"
    and "qry \<in> set (snd (pg_query env dest base configs))"
  shows "extends_safely (call_safe (qc_mapping (decode_config empty_query_config configs))
      (qc_search_fields (decode_config empty_query_config configs)) (pe_max env)) base (query_calls qry)"
proof -
  let ?cfg = "decode_config empty_query_config configs"
  let ?safe = "call_safe (qc_mapping ?cfg) (qc_search_fields ?cfg) (pe_max env)"
  let ?q1 = "apply_search base ?cfg"
  have 1: "extends_safely ?safe base ?q1" by (rule search_extends) auto
  have 2: "extends_safely ?safe base q2" if "apply_filters (pe_uni env) ?q1 ?cfg = Inr q2" for q2
    using filter_loop_extends[OF that[unfolded apply_filters_def] 1] by simp
  have 3: "extends_safely ?safe base q3" if "extends_safely ?safe base q2" "apply_order_by (pe_uni env) q2 ?cfg = Inr q3" for q2 q3
    using order_extends[OF that(2,1)] by auto
  have 4: "extends_safely ?safe base (apply_pager (pe_max env) (pe_default env) q3 ?cfg)" if "extends_safely ?safe base q3" for q3
    unfolding apply_pager_def Let_def
    using effective_size_bounds[OF assms(1,2), of "qc_page_size ?cfg"] assms(3)
    by (intro extends_append[OF that]) (simp add: u64_def)
  from assms(4) show ?thesis
    by (auto simp: pg_query_def Let_def intro: 2 3[OF 2] 4[OF 3[OF 2]] split: sum.splits if_splits option.splits)
qed

section \<open>Properties\<close>

text \<open>
  C21: whatever a request asks for, every query run for it is the application's query with additions
  only of these forms: the search over the application's fields, comparisons and orderings by a
  column that the application's mapping names or that consists of lower-case letters and
  underscores, ordered ascending, descending or by default, a limit between 1 and the maximum, and
  an offset of 64 bits.  Values are always arguments of the statement.
\<close>

theorem query_cannot_inject:
  assumes "params_from_request rq = Inr params"
    and "0 < pe_max env" "0 < pe_default env" "pe_max env < 2 ^ 64"
    and "qry \<in> set (snd (pg_query env dest base (app @ [params])))"
  shows "\<exists>added. query_calls qry = base @ added
    \<and> list_all (call_safe (qc_mapping (decode_config empty_query_config app))
        (qc_search_fields (decode_config empty_query_config app)) (pe_max env)) added"
  using query_extends[OF assms(2-5)] params_fields[OF assms(1)]
  by (simp add: extends_safely_def decode_append)

definition db_paged :: "'row pg_env \<Rightarrow> (builder_call list \<Rightarrow> 'row list) \<Rightarrow> bool" where
  "db_paged env answer \<longleftrightarrow>
     (\<forall>calls l off. pe_select env (calls @ [LimitTo l, OffsetBy off]) = Inr (take (nat l) (drop (nat off) (answer calls))))
   \<and> (\<forall>calls. pe_count env calls = Inr (int (length (answer calls))))
   \<and> (\<forall>calls ts. length (answer (calls @ map OrderByText ts)) = length (answer calls))"

definition at_page :: "'row config list \<Rightarrow> int \<Rightarrow> nat \<Rightarrow> 'row config list" where
  "at_page configs page_size k = configs @ [PagingCfg \<lparr>pg_page = int k, pg_page_size = page_size\<rparr>]"

lemma concat_pages: "concat (map (\<lambda>k. take s (drop (k * s) xs)) [0..<n]) = take (n * s) xs"
proof (induction n)
  case (Suc n)
  have "take (Suc n * s) xs = take (n * s) xs @ take s (drop (n * s) xs)"
    using take_add[of "n * s" s xs] by (simp add: add.commute)
  with Suc show ?case by simp
qed simp

lemma pager_calls:
  assumes "0 < mx" "0 < df" "mx < 2 ^ 63" "int k * effective_page_size mx df psize \<le> max_int64"
  shows "apply_pager mx df q (c\<lparr>qc_page := int k, qc_page_size := psize\<rparr>) =
     q @ [LimitTo (effective_page_size mx df psize), OffsetBy (int k * effective_page_size mx df psize)]"
proof -
  let ?s = "effective_page_size mx df psize"
  have s: "1 \<le> ?s" "?s \<le> mx" using effective_size_bounds[OF assms(1,2), of psize] by simp_all
  then have "0 \<le> int k * ?s" by simp
  then have "in_i64 (int k * ?s)" using assms(4) by (simp add: in_i64_def min_int64_def)
  then have "i64 (int k * ?s) = int k * ?s" by (rule i64_id)
  moreover have "u64 ?s = ?s" using s assms(3) by (simp add: u64_def)
  moreover have "u64 (int k * ?s) = int k * ?s"
    using assms(4) \<open>0 \<le> int k * ?s\<close> by (simp add: u64_def max_int64_def)
  ultimately show ?thesis by (simp add: apply_pager_def Let_def)
qed

lemma order_calls: "apply_order_by uni q cfg = Inr q' \<Longrightarrow> \<exists>ts. q' = q @ map OrderByText ts"
proof -
  assume "apply_order_by uni q cfg = Inr q'"
  then obtain cols dir where "q' = q @ map (\<lambda>order. OrderByText (order @ '' '' @ dir)) cols"
    by (auto simp: apply_order_by_def split: sum.splits)
  then have "q' = q @ map OrderByText (map (\<lambda>order. order @ '' '' @ dir) cols)" by (simp add: o_def)
  then show ?thesis by blast
qed

lemma query_ok_parts:
  assumes "fst (pg_query env dest base configs) = Inr resp"
  obtains q2 q3 where "apply_filters (pe_uni env) (apply_search base (decode_config empty_query_config configs))
      (decode_config empty_query_config configs) = Inr q2"
    "apply_order_by (pe_uni env) q2 (decode_config empty_query_config configs) = Inr q3"
  using assms by (auto simp: pg_query_def Let_def split: sum.splits if_splits)

lemma page_independent:
  "apply_search q (c\<lparr>qc_page := k, qc_page_size := s\<rparr>) = apply_search q c"
  "apply_filters u q (c\<lparr>qc_page := k, qc_page_size := s\<rparr>) = apply_filters u q c"
  "apply_order_by u q (c\<lparr>qc_page := k, qc_page_size := s\<rparr>) = apply_order_by u q c"
  by (simp_all add: apply_search_def apply_filters_def apply_order_by_def split: sum.split)

lemma page_answer:
  fixes c0 :: "'row query_config"
  defines "proc \<equiv> (case qc_processor c0 of None \<Rightarrow> id | Some p \<Rightarrow> p)"
  assumes db: "db_paged env answer" and mx: "0 < pe_max env" "0 < pe_default env" "pe_max env < 2 ^ 63"
    and c0: "decode_config empty_query_config configs = c0" "qc_download c0 = ''''"
    and q2: "apply_filters (pe_uni env) (apply_search base c0) c0 = Inr q2"
    and q3: "apply_order_by (pe_uni env) q2 c0 = Inr q3"
    and k: "int k * effective_page_size (pe_max env) (pe_default env) psize \<le> max_int64"
  defines "s \<equiv> nat (effective_page_size (pe_max env) (pe_default env) psize)"
  shows "fst (pg_query env PointerToSlice base (at_page configs psize k)) =
     Inr (DataResp 200 (DMap [(''data'', pe_data env (take s (drop (k * s) (map proc (answer q3))))),
       (''totalCount'', DNum (int (length (answer q3))))]))"
proof -
  let ?c = "c0\<lparr>qc_page := int k, qc_page_size := psize\<rparr>"
  let ?s = "effective_page_size (pe_max env) (pe_default env) psize"
  have c: "decode_config empty_query_config (at_page configs psize k) = ?c"
    by (simp add: at_page_def decode_append c0(1))
  obtain ts where ts: "q3 = q2 @ map OrderByText ts" using order_calls[OF q3] by blast
  have n: "nat (int k * ?s) = k * s" by (simp add: nat_mult_distrib s_def)
  have sel: "pe_select env (apply_pager (pe_max env) (pe_default env) q3 ?c) = Inr (take s (drop (k * s) (answer q3)))"
    unfolding pager_calls[OF mx k] using db by (simp add: db_paged_def n s_def[symmetric])
  have cnt: "pe_count env q2 = Inr (int (length (answer q3)))"
    using db by (simp add: db_paged_def ts)
  have prc: "(case qc_processor c0 of None \<Rightarrow> Inr rows | Some p \<Rightarrow> process_results PointerToSlice p rows) = Inr (map proc rows)" for rows
    by (simp add: proc_def process_results_def split: option.split)
  show ?thesis
    unfolding pg_query_def c Let_def page_independent q2 sum.case
    by (simp add: c0(2) cnt q3 sel prc page_response_def ok_resp_def take_map drop_map)
qed


section \<open>Witnesses\<close>

definition sample_answer :: "builder_call list \<Rightarrow> int list" where
  "sample_answer calls = [1, 2, 3]"

definition sample_pg_env :: "int pg_env" where
  "sample_pg_env = \<lparr>pe_max = max_page_size, pe_default = default_page_size, pe_uni = \<lparr>ul_lower = id, ul_snake = id\<rparr>,
     pe_count = (\<lambda>calls. Inr 3),
     pe_select = (\<lambda>calls. case rev calls of
        OffsetBy off # LimitTo l # _ \<Rightarrow> Inr (take (nat l) (drop (nat off) [1, 2, 3])) | _ \<Rightarrow> Inr [1, 2, 3]),
     pe_csv = (\<lambda>rows. Inr ''''), pe_data = (\<lambda>rows. DList (map DNum rows)),
     pe_res = \<lparr>rl_encode = (\<lambda>d. None), rl_sprint = (\<lambda>d. ''''), rl_indent = (\<lambda>d. ''''),
        rl_redirect = (\<lambda>r u c w. w), rl_serve_content = (\<lambda>r n d w. w)\<rparr>,
     pe_errors = \<lparr>el_message = (\<lambda>e. ''''), el_cause = id, el_as_client_safe = (\<lambda>e. None), el_format = (\<lambda>e. '''')\<rparr>,
     pe_disclosure = default_disclosure\<rparr>"

lemma sample_db_paged: "db_paged sample_pg_env sample_answer"
  by (simp add: db_paged_def sample_pg_env_def sample_answer_def)

lemma sample_limits: "0 < pe_max sample_pg_env" "0 < pe_default sample_pg_env" "pe_max sample_pg_env < 2 ^ 63"
    "pe_max sample_pg_env < 2 ^ 64"
  by (simp_all add: sample_pg_env_def max_page_size_def default_page_size_def)


lemma query_cannot_inject_witness:
  "\<exists>(rq :: http_request) params added. params_from_request rq = Inr (params :: int config)
    \<and> snd (pg_query sample_pg_env PointerToSlice [BaseCall ''t''] [params]) = [CountOf ([BaseCall ''t''] @ added)]
    \<and> list_all (call_safe Map.empty [] 50) added"
proof -
  let ?rq = "\<lparr>hr_method = ''GET'', hr_path = ''/'', hr_header = [], hr_cookies = [],
     hr_query = [(''filter'', ''Age>=3''), (''orderBy'', ''id; drop table t'')], hr_body = '''', hr_remote_addr = ''''\<rparr> :: http_request"
  let ?p = "Configs [Search '''', OrderByCfg \<lparr>ob_column = ''id; drop table t'', ob_direction = ''''\<rparr>,
     PagingCfg \<lparr>pg_page = 0, pg_page_size = 0\<rparr>, DownloadFileName '''',
     Filters [\<lparr>pf_column = ''Age'', pf_operator = ''>='', pf_value = ''3''\<rparr>]] :: int config"
  have "decode_request_filter (rq_query ?rq ''filter'') = Inr [\<lparr>pf_column = ''Age'', pf_operator = ''>='', pf_value = ''3''\<rparr>]"
    "rq_query ?rq ''search'' = ''''" "rq_query ?rq ''orderBy'' = ''id; drop table t''" "rq_query ?rq ''orderByDirection'' = ''''"
    "get_query_int ?rq ''page'' = 0" "get_query_int ?rq ''pageSize'' = 0" "rq_query ?rq ''download'' = ''''" by code_simp+
  then have 1: "params_from_request ?rq = Inr ?p" by (simp only: params_from_request_def sum.case)
  have 2: "snd (pg_query sample_pg_env PointerToSlice [BaseCall ''t''] ([] @ [?p])) =
     [CountOf [BaseCall ''t'', WhereCmp CmpGe ''age'' ''3'']]" by code_simp
  have "\<exists>added. query_calls (CountOf [BaseCall ''t'', WhereCmp CmpGe ''age'' ''3'']) = [BaseCall ''t''] @ added
    \<and> list_all (call_safe (qc_mapping (decode_config empty_query_config ([] :: int config list)))
        (qc_search_fields (decode_config empty_query_config ([] :: int config list))) (pe_max sample_pg_env)) added"
  proof (rule query_cannot_inject[OF 1 sample_limits(1,2,4)])
    show "CountOf [BaseCall ''t'', WhereCmp CmpGe ''age'' ''3''] \<in> set (snd (pg_query sample_pg_env PointerToSlice [BaseCall ''t''] ([] @ [?p])))"
      unfolding 2 by simp
  qed
  then have "list_all (call_safe Map.empty [] 50) [WhereCmp CmpGe ''age'' ''3'']"
    by (simp add: empty_query_config_def sample_pg_env_def max_page_size_def)
  with 1 2 show ?thesis
    by (intro exI[of _ ?rq] exI[of _ ?p] exI[of _ "[WhereCmp CmpGe ''age'' ''3'']"]) simp
qed

text \<open>A page number whose offset does not fit wraps around to rows that were asked for by other pages.\<close>

lemma page_offset_wraps:
  "apply_pager max_page_size default_page_size [] (empty_query_config\<lparr>qc_page := 368934881474191033\<rparr>) = [LimitTo 50, OffsetBy 34]"
  by code_simp

end
