(* ===== verification/ApiVersion.thy ===== *)
theory ApiVersion
  imports GoHttp
begin

text \<open>
  Package \<^verbatim>\<open>apiversion\<close>: parsing of the version header, the comparison of versions, and the middleware
  that puts the version into the request's context.
\<close>

section \<open>Versions\<close>

definition version_header_name :: string where
  "version_header_name = ''X-APIVersion''"

definition parse_version :: "http_request \<Rightarrow> string" where
  "parse_version r = hdr_get version_header_name (hr_header r)"

definition version_from_request :: "http_request \<Rightarrow> string" where
  "version_from_request r = parse_version r"

record ver =
  ver_value :: string
  ver_parts :: "int list"

definition ver_string :: "ver \<Rightarrow> string" where
  "ver_string v = ver_value v"

definition max_version_parts :: nat where
  "max_version_parts = 8"

fun parse_parts :: "string list \<Rightarrow> int list" where
  "parse_parts [] = []"
| "parse_parts (p # ps) = (case parse_int p of None \<Rightarrow> [] | Some i \<Rightarrow> i # parse_parts ps)"

definition new_ver :: "string \<Rightarrow> ver" where
  "new_ver value = \<lparr>ver_value = value, ver_parts = parse_parts (splitn_char (CHR ''.'') (max_version_parts + 1) value)\<rparr>"

text \<open>The loop of \<^verbatim>\<open>GtOrEq\<close>: its early answer, or \<^const>\<open>None\<close> when it runs out of parts.\<close>

fun gt_or_eq_loop :: "int list \<Rightarrow> int list \<Rightarrow> bool option" where
  "gt_or_eq_loop [] others = None"
| "gt_or_eq_loop (p # ps) [] = Some True"
| "gt_or_eq_loop (p # ps) (q # qs) =
     (if q < p then Some True else if p < q then Some False else gt_or_eq_loop ps qs)"

definition gt_or_eq :: "ver \<Rightarrow> ver \<Rightarrow> bool" where
  "gt_or_eq v other =
     (case gt_or_eq_loop (ver_parts v) (ver_parts other) of
        Some b \<Rightarrow> b
      | None \<Rightarrow> if ver_parts v = [] \<and> ver_parts other \<noteq> [] then False else True)"

definition ver_lt :: "ver \<Rightarrow> ver \<Rightarrow> bool" where
  "ver_lt v other = (\<not> gt_or_eq v other)"

section \<open>The middleware\<close>

text \<open>The context is the version stored under the package's key; the next handler gets it with the request.\<close>

definition version_serve :: "(ver option \<Rightarrow> http_writer \<Rightarrow> http_request \<Rightarrow> 'r) \<Rightarrow> http_writer \<Rightarrow> http_request \<Rightarrow> 'r" where
  "version_serve next_handler w r = next_handler (Some (new_ver (version_from_request r))) w r"

definition version_middleware ::
  "(ver option \<Rightarrow> http_writer \<Rightarrow> http_request \<Rightarrow> 'r) \<Rightarrow> ver option \<Rightarrow> http_writer \<Rightarrow> http_request \<Rightarrow> 'r" where
  "version_middleware handler ctx = version_serve handler"

definition current_version :: "ver option \<Rightarrow> ver option" where
  "current_version ctx = (case ctx of None \<Rightarrow> None | Some v \<Rightarrow> Some v)"

section \<open>Facts\<close>

lemma length_parse_parts: "length (parse_parts ps) \<le> length ps"
  by (induction ps) (auto split: option.splits)

lemma new_ver_bounded: "length (ver_parts (new_ver value)) \<le> max_version_parts + 1"
  unfolding new_ver_def ver.simps
  by (rule order.trans[OF length_parse_parts length_splitn_char])

definition version_text :: "int list \<Rightarrow> string" where
  "version_text ps = join_with ''.'' (map show_int ps)"

lemma show_nat_no_dot: "CHR ''.'' \<notin> set (show_nat n)"
proof -
  have "\<not> is_digit (CHR ''.'')" by code_simp
  then show ?thesis using show_nat_digits[of n] by (auto simp: list_all_iff)
qed

lemma show_int_no_dot: "CHR ''.'' \<notin> set (show_int i)"
  by (simp add: show_int_def show_nat_no_dot)

lemma takeWhile_no: "d \<notin> set a \<Longrightarrow> takeWhile (\<lambda>c. c \<noteq> d) (a @ d # b) = a \<and> dropWhile (\<lambda>c. c \<noteq> d) (a @ d # b) = d # b"
  by (induction a) auto

lemma dropWhile_no: "d \<notin> set a \<Longrightarrow> dropWhile (\<lambda>c. c \<noteq> d) a = []"
  by (induction a) auto

lemma splitn_none: "d \<notin> set a \<Longrightarrow> splitn_char d (Suc n) a = [a]"
  by (cases n) (simp_all add: dropWhile_no)

lemma splitn_version:
  "ps \<noteq> [] \<Longrightarrow> splitn_char (CHR ''.'') (Suc n) (version_text ps) =
     (if length ps \<le> Suc n then map show_int ps else map show_int (take n ps) @ [version_text (drop n ps)])"
proof (induction ps arbitrary: n)
  case Nil
  then show ?case by simp
next
  case (Cons p ps)
  show ?case
  proof (cases ps)
    case Nil
    then show ?thesis by (simp add: version_text_def splitn_none show_int_no_dot)
  next
    case (Cons q qs)
    then have t: "version_text (p # ps) = show_int p @ CHR ''.'' # version_text ps" by (simp add: version_text_def)
    show ?thesis
    proof (cases n)
      case 0
      then show ?thesis using Cons by simp
    next
      case (Suc m)
      with Cons.IH[of m] Cons takeWhile_no[OF show_int_no_dot, of p "version_text ps"] t show ?thesis by simp
    qed
  qed
qed

lemma parse_parts_shown: "list_all in_i64 ps \<Longrightarrow> parse_parts (map show_int ps @ rest) = ps @ parse_parts rest"
  by (induction ps) (simp_all add: parse_int_show_int)

lemma dot_not_number: "CHR ''.'' \<in> set s \<Longrightarrow> parse_int s = None"
proof -
  have "\<not> is_digit (CHR ''.'')" by code_simp
  then have "CHR ''.'' \<in> set ds \<Longrightarrow> parse_magnitude b ds = None" for b ds
    by (auto simp: parse_magnitude_def list_all_iff)
  then show "CHR ''.'' \<in> set s \<Longrightarrow> ?thesis" by (cases s) auto
qed

lemma version_text_dot: "2 \<le> length ps \<Longrightarrow> CHR ''.'' \<in> set (version_text ps)"
  by (cases ps; cases "tl ps") (auto simp: version_text_def)

lemma parse_version_text:
  assumes "ps \<noteq> []" "list_all in_i64 ps"
  shows "ver_parts (new_ver (version_text ps)) = (if length ps \<le> 9 then ps else take 8 ps)"
proof (cases "length ps \<le> 9")
  case True
  then show ?thesis
    using splitn_version[OF assms(1), of 8] parse_parts_shown[OF assms(2), of "[]"]
    by (simp add: new_ver_def max_version_parts_def)
next
  case False
  have "list_all in_i64 (take 8 ps)" using assms(2) by (auto simp: list_all_iff dest: in_set_takeD)
  moreover have "parse_int (version_text (drop 8 ps)) = None"
    using False by (intro dot_not_number version_text_dot) simp
  ultimately show ?thesis
    using splitn_version[OF assms(1), of 8] parse_parts_shown[of "take 8 ps"] False
    by (simp add: new_ver_def max_version_parts_def)
qed

text \<open>The lexicographic order of lists of equal length.\<close>

definition lex_ge :: "int list \<Rightarrow> int list \<Rightarrow> bool" where
  "lex_ge xs ys \<longleftrightarrow> xs = ys \<or> (\<exists>i < length xs. i < length ys \<and> take i xs = take i ys \<and> ys ! i < xs ! i)"

lemma lex_ge_Nil [simp]: "lex_ge [] []"
  by (simp add: lex_ge_def)

lemma lex_ge_Cons: "lex_ge (x # xs) (y # ys) \<longleftrightarrow> y < x \<or> x = y \<and> lex_ge xs ys"
proof
  assume "lex_ge (x # xs) (y # ys)"
  then consider "x = y" "xs = ys"
    | i where "i < length (x # xs)" "i < length (y # ys)" "take i (x # xs) = take i (y # ys)" "(y # ys) ! i < (x # xs) ! i"
    by (auto simp: lex_ge_def)
  then show "y < x \<or> x = y \<and> lex_ge xs ys"
  proof cases
    case (2 i)
    then show ?thesis by (cases i) (auto simp: lex_ge_def)
  qed (simp add: lex_ge_def)
next
  assume "y < x \<or> x = y \<and> lex_ge xs ys"
  then consider "y < x" | "x = y" "xs = ys"
    | i where "x = y" "i < length xs" "i < length ys" "take i xs = take i ys" "ys ! i < xs ! i"
    by (auto simp: lex_ge_def)
  then show "lex_ge (x # xs) (y # ys)"
  proof cases
    case 1
    then show ?thesis by (auto simp: lex_ge_def intro!: exI[of _ 0])
  next
    case (3 i)
    then show ?thesis by (auto simp: lex_ge_def intro!: exI[of _ "Suc i"])
  qed (simp add: lex_ge_def)
qed

lemma gt_or_eq_loop_lex:
  "(case gt_or_eq_loop xs ys of Some b \<Rightarrow> b | None \<Rightarrow> True) \<longleftrightarrow>
     lex_ge (take (min (length xs) (length ys)) xs) (take (min (length xs) (length ys)) ys)"
  by (induction xs ys rule: gt_or_eq_loop.induct) (auto simp: lex_ge_Cons)

section \<open>Properties\<close>

text \<open>
  A version written as its parts is parsed back into them, up to nine parts (of a longer one the
  first eight are kept), and whatever the header holds no more than nine parts are made; one version
  is at least another exactly if its parts are, in lexicographic order, on the parts that both have
  - and a version that does not parse is below every version that does.
\<close>

theorem version_order:
  assumes "ps \<noteq> []" "qs \<noteq> []" "list_all in_i64 ps" "list_all in_i64 qs" "length ps \<le> 9" "length qs \<le> 9"
  shows "ver_parts (new_ver (version_text ps)) = ps
    \<and> (\<forall>header. length (ver_parts (new_ver header)) \<le> 9)
    \<and> (gt_or_eq (new_ver (version_text ps)) (new_ver (version_text qs)) \<longleftrightarrow>
        lex_ge (take (min (length ps) (length qs)) ps) (take (min (length ps) (length qs)) qs))
    \<and> (\<forall>v. ver_parts v = [] \<longrightarrow> ver_lt v (new_ver (version_text qs)))"
proof -
  have p: "ver_parts (new_ver (version_text ps)) = ps" "ver_parts (new_ver (version_text qs)) = qs"
    using parse_version_text[OF assms(1,3)] parse_version_text[OF assms(2,4)] assms(5,6) by simp_all
  have "length (ver_parts (new_ver header)) \<le> 9" for header
    using new_ver_bounded[of header] by (simp add: max_version_parts_def)
  moreover have "gt_or_eq (new_ver (version_text ps)) (new_ver (version_text qs)) \<longleftrightarrow>
      (case gt_or_eq_loop ps qs of Some b \<Rightarrow> b | None \<Rightarrow> True)"
    using assms(1) by (simp add: gt_or_eq_def p split: option.split)
  moreover have "ver_parts v = [] \<Longrightarrow> ver_lt v (new_ver (version_text qs))" for v
    using assms(2) by (simp add: ver_lt_def gt_or_eq_def p)
  ultimately show ?thesis using p(1) by (simp add: gt_or_eq_loop_lex)
qed

lemma version_order_witness:
  "gt_or_eq (new_ver ''1.10'') (new_ver ''1.9.3'') \<and> version_text [1, 10] = ''1.10''"
proof -
  have t: "version_text [1, 10] = ''1.10''" "version_text [1, 9, 3] = ''1.9.3''" by code_simp+
  have i: "list_all in_i64 [1, 10]" "list_all in_i64 [1, 9, 3]" by code_simp+
  have "gt_or_eq (new_ver (version_text [1, 10])) (new_ver (version_text [1, 9, 3]))"
    using version_order[of "[1, 10]" "[1, 9, 3]", OF _ _ i] by (simp add: lex_ge_Cons)
  with t show ?thesis by simp
qed

text \<open>Nine parts are parsed although the limit is eight, and the comparison is no order.\<close>

lemma nine_parts_parsed: "length (ver_parts (new_ver ''1.1.1.1.1.1.1.1.1'')) = 9"
  by code_simp

lemma gt_or_eq_not_transitive:
  "gt_or_eq (new_ver ''1.2'') (new_ver ''1'') \<and> gt_or_eq (new_ver ''1'') (new_ver ''1.5'')
    \<and> \<not> gt_or_eq (new_ver ''1.2'') (new_ver ''1.5'')"
  by code_simp

end
