(* ===== verification/Nonce.thy ===== *)
theory Nonce
  imports GoHttp
begin

text \<open>
  Package \<^verbatim>\<open>nonce\<close>: requests other than GET that carry a nonce are let through once per nonce.  The
  table maps a nonce to the time of its use; the cleaner's rounds are explicit steps.
\<close>

section \<open>The table\<close>

record nonce_state =
  ns_used :: "(string \<times> gotime) list"

definition new_nonce :: nonce_state where
  "new_nonce = \<lparr>ns_used = []\<rparr>"

definition nonce_take :: "gotime \<Rightarrow> string \<Rightarrow> nonce_state \<Rightarrow> bool \<times> nonce_state" where
  "nonce_take now key n =
     (if map_of (ns_used n) key \<noteq> None then (False, n)
      else (True, n\<lparr>ns_used := (key, now) # ns_used n\<rparr>))"

text \<open>One round of \<^verbatim>\<open>cleaner\<close>.\<close>

definition nonce_clean :: "gotime \<Rightarrow> nonce_state \<Rightarrow> nonce_state" where
  "nonce_clean now n = n\<lparr>ns_used := filter (\<lambda>(k, v). \<not> 10 * go_minute < sub_time now v) (ns_used n)\<rparr>"

section \<open>The middleware\<close>

definition nonce_error_body :: string where
  "nonce_error_body = ''{'' @ [CHR 0x22] @ ''error'' @ [CHR 0x22] @ '':'' @ [CHR 0x22]
     @ ''Nonce already used. refresh the page and try again'' @ [CHR 0x22] @ ''}''"

text \<open>\<^verbatim>\<open>ServeHTTP\<close>: \<^const>\<open>Inl\<close> the writer handed to the next handler, or \<^const>\<open>Inr\<close> the response.\<close>

definition nonce_serve :: "gotime \<Rightarrow> http_request \<Rightarrow> http_writer \<Rightarrow> nonce_state \<Rightarrow> (http_writer + http_writer) \<times> nonce_state" where
  "nonce_serve now rq w n =
     (let key = hdr_get ''X-Nonce'' (hr_header rq)
      in if hr_method rq = ''GET'' \<or> key = '''' then (Inl w, n)
         else (case nonce_take now key n of
             (False, n1) \<Rightarrow>
               (Inr (w_write nonce_error_body (case write_header 400 w of Some w1 \<Rightarrow> w1 | None \<Rightarrow> w)), n1)
           | (True, n1) \<Rightarrow> (Inl w, n1)))"

text \<open>What happens to the server: requests, and rounds of the cleaner.\<close>

datatype nonce_event = NonceRequest gotime http_request | CleanerRound gotime

fun event_time :: "nonce_event \<Rightarrow> gotime" where
  "event_time (NonceRequest t rq) = t"
| "event_time (CleanerRound t) = t"

fun nonce_step :: "nonce_event \<Rightarrow> nonce_state \<Rightarrow> bool \<times> nonce_state" where
  "nonce_step (NonceRequest t rq) n = (case nonce_serve t rq fresh_writer n of (r, n1) \<Rightarrow> (isl r, n1))"
| "nonce_step (CleanerRound t) n = (False, nonce_clean t n)"

text \<open>The events that reach the next handler, oldest first, and the state after them.\<close>

fun nonce_run :: "nonce_event list \<Rightarrow> nonce_state \<Rightarrow> nonce_event list \<times> nonce_state" where
  "nonce_run [] n = ([], n)"
| "nonce_run (e # es) n =
     (case nonce_step e n of (ok, n1) \<Rightarrow> (case nonce_run es n1 of (passed, n2) \<Rightarrow> ((if ok then [e] else []) @ passed, n2)))"

definition carries :: "string \<Rightarrow> nonce_event \<Rightarrow> bool" where
  "carries key e \<longleftrightarrow> (case e of NonceRequest t rq \<Rightarrow> hr_method rq \<noteq> ''GET'' \<and> hdr_get ''X-Nonce'' (hr_header rq) = key
     | CleanerRound t \<Rightarrow> False)"

section \<open>Facts\<close>

lemma nonce_serve_cases:
  "nonce_serve t rq w n =
     (if hr_method rq = ''GET'' \<or> hdr_get ''X-Nonce'' (hr_header rq) = '''' then (Inl w, n)
      else if map_of (ns_used n) (hdr_get ''X-Nonce'' (hr_header rq)) \<noteq> None
      then (Inr (w_write nonce_error_body (if wr_status w = None then w\<lparr>wr_status := Some 400\<rparr> else w)), n)
      else (Inl w, n\<lparr>ns_used := (hdr_get ''X-Nonce'' (hr_header rq), t) # ns_used n\<rparr>))"
  by (simp add: nonce_serve_def nonce_take_def Let_def write_header_def)

definition nonce_inv :: "nonce_state \<Rightarrow> bool" where
  "nonce_inv n \<longleftrightarrow> distinct (map fst (ns_used n))"

lemma clean_keeps:
  assumes "nonce_inv n" "map_of (ns_used n) key = Some v" "sub_time now v \<le> 10 * go_minute"
  shows "map_of (ns_used (nonce_clean now n)) key = Some v"
proof (rule map_of_is_SomeI)
  have d: "distinct (map fst (ns_used n))" using assms(1) by (simp add: nonce_inv_def)
  then show "distinct (map fst (ns_used (nonce_clean now n)))"
    by (simp add: nonce_clean_def distinct_map inj_on_def)
  show "(key, v) \<in> set (ns_used (nonce_clean now n))"
    using map_of_SomeD[OF assms(2)] assms(3) by (simp add: nonce_clean_def)
qed

lemma nonce_step_inv: "nonce_inv n \<Longrightarrow> nonce_inv (snd (nonce_step e n))"
proof (cases e)
  case (NonceRequest t rq)
  assume "nonce_inv n"
  with NonceRequest show ?thesis
    by (auto simp: nonce_serve_cases nonce_inv_def map_of_eq_None_iff)
next
  case (CleanerRound t)
  assume "nonce_inv n"
  moreover have "distinct (map fst (filter P xs))" if "distinct (map fst xs)" for P and xs :: "(string \<times> gotime) list"
    using that by (induction xs) auto
  ultimately show ?thesis using CleanerRound by (simp add: nonce_clean_def nonce_inv_def)
qed

text \<open>While less than ten minutes have passed, a used nonce stays in the table and blocks its requests.\<close>

lemma used_blocks:
  assumes "nonce_inv n" "map_of (ns_used n) key = Some v" "event_time e - v \<le> 10 * go_minute" "key \<noteq> ''''"
  shows "\<not> (fst (nonce_step e n) \<and> carries key e) \<and> map_of (ns_used (snd (nonce_step e n))) key = Some v"
proof (cases e)
  case (NonceRequest t rq)
  with assms(2,4) show ?thesis by (auto simp: nonce_serve_cases carries_def)
next
  case (CleanerRound t)
  have "\<not> 10 * go_minute < sub_time t v"
    using assms(3) CleanerRound by (auto simp: sub_time_def go_minute_def go_second_def min_int64_def max_int64_def)
  with CleanerRound clean_keeps[OF assms(1,2), of t] show ?thesis by (simp add: carries_def)
qed

lemma passed_subset: "set (fst (nonce_run es n)) \<subseteq> set es"
proof (induction es arbitrary: n)
  case (Cons e es)
  obtain ok n1 where s: "nonce_step e n = (ok, n1)" by (cases "nonce_step e n")
  obtain passed n2 where r: "nonce_run es n1 = (passed, n2)" by (cases "nonce_run es n1")
  from Cons[of n1] s r show ?case by auto
qed simp

lemma used_blocks_run:
  assumes "nonce_inv n" "map_of (ns_used n) key = Some v" "key \<noteq> ''''" "sorted (map event_time es)"
  shows "\<forall>e\<in>set (fst (nonce_run es n)). carries key e \<longrightarrow> 10 * go_minute < event_time e - v"
  using assms
proof (induction es arbitrary: n)
  case (Cons e es)
  obtain ok n1 where s: "nonce_step e n = (ok, n1)" by (cases "nonce_step e n")
  obtain passed n2 where r: "nonce_run es n1 = (passed, n2)" by (cases "nonce_run es n1")
  show ?case
  proof (cases "event_time e - v \<le> 10 * go_minute")
    case True
    have b: "\<not> (ok \<and> carries key e)" "map_of (ns_used n1) key = Some v"
      using used_blocks[OF Cons.prems(1,2) True Cons.prems(3)] s by simp_all
    have "nonce_inv n1" using nonce_step_inv[OF Cons.prems(1), of e] s by simp
    with Cons.IH[of n1] b Cons.prems(3,4) r have "\<forall>e\<in>set passed. carries key e \<longrightarrow> 10 * go_minute < event_time e - v" by simp
    with b s r show ?thesis by auto
  next
    case False
    with Cons.prems(4) have "\<forall>e'\<in>set (e # es). 10 * go_minute < event_time e' - v" by fastforce
    then show ?thesis using passed_subset[of "e # es" n] by blast
  qed
qed simp

lemma passing_marks:
  assumes "fst (nonce_step e n)" "carries key e" "key \<noteq> ''''"
  shows "map_of (ns_used (snd (nonce_step e n))) key = Some (event_time e)"
  using assms by (cases e) (auto simp: nonce_serve_cases carries_def split: if_splits)

lemma nonce_spacing:
  assumes "nonce_inv n" "sorted (map event_time es)" "key \<noteq> ''''"
    and "fst (nonce_run es n) = xs @ e1 # ys @ e2 # zs" "carries key e1" "carries key e2"
  shows "10 * go_minute < event_time e2 - event_time e1"
  using assms
proof (induction es arbitrary: n xs)
  case Nil
  then show ?case by simp
next
  case (Cons e es)
  obtain ok n1 where s: "nonce_step e n = (ok, n1)" by (cases "nonce_step e n")
  obtain passed n2 where r: "nonce_run es n1 = (passed, n2)" by (cases "nonce_run es n1")
  have inv: "nonce_inv n1" using nonce_step_inv[OF Cons.prems(1), of e] s by simp
  have so: "sorted (map event_time es)" using Cons.prems(2) by simp
  have p: "(if ok then [e] else []) @ passed = xs @ e1 # ys @ e2 # zs" using Cons.prems(4) s r by simp
  show ?case
  proof (cases "ok \<and> xs = []")
    case True
    then have e: "e = e1" "passed = ys @ e2 # zs" using p by auto
    have m: "map_of (ns_used n1) key = Some (event_time e1)"
      using passing_marks[of e n key] s True e Cons.prems(3,5) by simp
    show ?thesis using used_blocks_run[OF inv m Cons.prems(3) so] r e(2) Cons.prems(6) by simp
  next
    case False
    then obtain xs' where "passed = xs' @ e1 # ys @ e2 # zs"
      using p by (cases xs) (auto split: if_splits)
    with Cons.IH[OF inv so Cons.prems(3) _ Cons.prems(5,6)] r show ?thesis by auto
  qed
qed

section \<open>Properties\<close>

text \<open>
  C25: whatever requests and cleaning rounds a server sees, in the order of time: of two requests with
  the same nonce (other than GET) that both reach the handler, the second comes more than ten minutes
  after the first.
\<close>

theorem nonce_single_use:
  assumes "sorted (map event_time es)" "key \<noteq> ''''"
    and "fst (nonce_run es new_nonce) = xs @ e1 # ys @ e2 # zs" "carries key e1" "carries key e2"
  shows "10 * go_minute < event_time e2 - event_time e1"
  using nonce_spacing[OF _ assms] by (simp add: new_nonce_def nonce_inv_def)

definition sample_post :: http_request where
  "sample_post = \<lparr>hr_method = ''POST'', hr_path = ''/'', hr_header = [(''X-Nonce'', [''k''])], hr_cookies = [], hr_query = [],
     hr_body = '''', hr_remote_addr = ''''\<rparr>"

lemma nonce_single_use_witness:
  "fst (nonce_run [NonceRequest 0 sample_post, NonceRequest 5 sample_post, CleanerRound (11 * go_minute),
     NonceRequest (12 * go_minute) sample_post] new_nonce) = [NonceRequest 0 sample_post, NonceRequest (12 * go_minute) sample_post]
   \<and> 10 * go_minute < 12 * go_minute - 0"
proof -
  let ?es = "[NonceRequest 0 sample_post, NonceRequest 5 sample_post, CleanerRound (11 * go_minute),
     NonceRequest (12 * go_minute) sample_post]"
  have 1: "sorted (map event_time ?es)" by (simp add: go_minute_def go_second_def)
  have 2: "fst (nonce_run ?es new_nonce) = [] @ NonceRequest 0 sample_post # [] @ NonceRequest (12 * go_minute) sample_post # []"
    by code_simp
  have 3: "carries ''k'' (NonceRequest 0 sample_post)" "carries ''k'' (NonceRequest (12 * go_minute) sample_post)" by code_simp+
  have "10 * go_minute < event_time (NonceRequest (12 * go_minute) sample_post) - event_time (NonceRequest 0 sample_post)"
    by (rule nonce_single_use[OF 1 _ 2 3]) simp
  with 2 show ?thesis by simp
qed

lemma fresh_nonce_passes:
  "map_of (ns_used n) (hdr_get ''X-Nonce'' (hr_header rq)) = None \<Longrightarrow> fst (nonce_serve now rq w n) = Inl w"
  by (simp add: nonce_serve_cases)

end
