(* ===== verification/TimeUtil.thy ===== *)
theory TimeUtil
  imports GoPrelude
begin

text \<open>
  Package \<^verbatim>\<open>timeutil\<close>.  A \<^verbatim>\<open>time.Time\<close> is its date and its time of day in a location with a fixed
  offset, so that \<^verbatim>\<open>AddDate\<close> keeps the time of day; the Gregorian calendar is written out.  Loops that
  might not end are \<open>partial_function (option)\<close>.
\<close>

section \<open>The calendar\<close>

definition is_leap :: "int \<Rightarrow> bool" where
  "is_leap y \<longleftrightarrow> y mod 4 = 0 \<and> (y mod 100 \<noteq> 0 \<or> y mod 400 = 0)"

definition days_in :: "int \<Rightarrow> int \<Rightarrow> int" where
  "days_in y m = (if m = 2 then (if is_leap y then 29 else 28) else if m = 4 \<or> m = 6 \<or> m = 9 \<or> m = 11 then 30 else 31)"

record local_time =
  lt_year :: int
  lt_month :: int
  lt_day :: int
  lt_nanos :: int

definition valid_time :: "local_time \<Rightarrow> bool" where
  "valid_time t \<longleftrightarrow> 1 \<le> lt_month t \<and> lt_month t \<le> 12 \<and> 1 \<le> lt_day t \<and> lt_day t \<le> days_in (lt_year t) (lt_month t)"

definition next_day :: "local_time \<Rightarrow> local_time" where
  "next_day t =
     (if lt_day t < days_in (lt_year t) (lt_month t) then t\<lparr>lt_day := lt_day t + 1\<rparr>
      else if lt_month t < 12 then t\<lparr>lt_month := lt_month t + 1, lt_day := 1\<rparr>
      else t\<lparr>lt_year := lt_year t + 1, lt_month := 1, lt_day := 1\<rparr>)"

definition prior_day :: "local_time \<Rightarrow> local_time" where
  "prior_day t =
     (if 1 < lt_day t then t\<lparr>lt_day := lt_day t - 1\<rparr>
      else if 1 < lt_month t then t\<lparr>lt_month := lt_month t - 1, lt_day := days_in (lt_year t) (lt_month t - 1)\<rparr>
      else t\<lparr>lt_year := lt_year t - 1, lt_month := 12, lt_day := 31\<rparr>)"

text \<open>\<^verbatim>\<open>AddDate(0, 0, k)\<close>\<close>

definition add_date :: "local_time \<Rightarrow> int \<Rightarrow> local_time" where
  "add_date t k = (if 0 \<le> k then (next_day ^^ nat k) t else (prior_day ^^ nat (- k)) t)"

definition month_offset :: "int \<Rightarrow> int \<Rightarrow> int" where
  "month_offset y m =
     (if m = 1 then 0 else if m = 2 then 31 else if m = 3 then 59 else if m = 4 then 90 else if m = 5 then 120
      else if m = 6 then 151 else if m = 7 then 181 else if m = 8 then 212 else if m = 9 then 243 else if m = 10 then 273
      else if m = 11 then 304 else 334) + (if 2 < m \<and> is_leap y then 1 else 0)"

definition year_start :: "int \<Rightarrow> int" where
  "year_start y = 365 * y + (y - 1) div 4 - (y - 1) div 100 + (y - 1) div 400"

definition day_number :: "local_time \<Rightarrow> int" where
  "day_number t = year_start (lt_year t) + month_offset (lt_year t) (lt_month t) + lt_day t"

text \<open>Days of the week from Sunday, which is 0.\<close>

definition weekday :: "local_time \<Rightarrow> int" where
  "weekday t = (day_number t - 1) mod 7"

definition time_before :: "local_time \<Rightarrow> local_time \<Rightarrow> bool" where
  "time_before t u \<longleftrightarrow> day_number t < day_number u \<or> day_number t = day_number u \<and> lt_nanos t < lt_nanos u"

section \<open>Travelling over dates\<close>

record go_date =
  gd_y :: int
  gd_m :: int
  gd_d :: int

definition date_equals :: "go_date \<Rightarrow> int \<Rightarrow> int \<Rightarrow> int \<Rightarrow> bool" where
  "date_equals dt y m d \<longleftrightarrow> y = gd_y dt \<and> m = gd_m dt \<and> d = gd_d dt"

record date_traveler =
  dt_holidays :: "go_date list"
  dt_business_days :: bool

definition traveler_contains :: "date_traveler \<Rightarrow> local_time \<Rightarrow> bool" where
  "traveler_contains c t =
     (if dt_business_days c \<and> weekday t = 0 then False
      else if dt_business_days c \<and> weekday t = 6 then False
      else \<not> list_ex (\<lambda>item. date_equals item (lt_year t) (lt_month t) (lt_day t)) (dt_holidays c))"

partial_function (option) add_days_loop :: "date_traveler \<Rightarrow> int \<Rightarrow> nat \<Rightarrow> nat \<Rightarrow> local_time \<Rightarrow> local_time option" where
  "add_days_loop c direction i n t =
     (if i < n then
        (let t' = add_date t direction
         in add_days_loop c direction (if traveler_contains c t' then Suc i else i) n t')
      else Some t)"

definition add_days :: "date_traveler \<Rightarrow> local_time \<Rightarrow> int \<Rightarrow> local_time option" where
  "add_days c t n =
     (let direction = (if n < 0 then - 1 else 1);
          count = (if n < 0 then i64 (- 1 * n) else n)
      in add_days_loop c direction 0 (nat count) t)"

definition business_traveler :: "go_date list \<Rightarrow> date_traveler" where
  "business_traveler holidays = \<lparr>dt_holidays = holidays, dt_business_days = True\<rparr>"

definition add_business_days :: "local_time \<Rightarrow> int \<Rightarrow> go_date list \<Rightarrow> local_time option" where
  "add_business_days t n holidays = add_days (business_traveler holidays) t n"

partial_function (option) between_loop :: "date_traveler \<Rightarrow> int \<Rightarrow> local_time \<Rightarrow> local_time \<Rightarrow> int option" where
  "between_loop c ct t now =
     (if time_before t now then
        (case add_days c t 1 of None \<Rightarrow> None | Some t' \<Rightarrow> between_loop c (ct + 1) t' now)
      else Some ct)"

definition business_days_between :: "local_time \<Rightarrow> local_time \<Rightarrow> go_date list \<Rightarrow> int option" where
  "business_days_between t now holidays =
     (case between_loop (business_traveler holidays) (- 1) t now of
        None \<Rightarrow> None
      | Some ct \<Rightarrow> Some (if ct = - 1 then 0 else ct))"

declare add_days_loop.simps [code] between_loop.simps [code]

section \<open>Other helpers\<close>

definition next_weekday :: "local_time \<Rightarrow> int \<Rightarrow> local_time" where
  "next_weekday tm desired =
     (let add = desired - weekday tm; add = (if add < 0 then add + 7 else add) in add_date tm add)"

definition set_time :: "local_time \<Rightarrow> int \<Rightarrow> int \<Rightarrow> int \<Rightarrow> local_time" where
  "set_time tm hr mi sec =
     (let total = (3600 * hr + 60 * mi + sec) * go_second; day = 86400 * go_second
      in (add_date tm (total div day))\<lparr>lt_nanos := total mod day\<rparr>)"

definition dates_equal :: "local_time \<Rightarrow> local_time \<Rightarrow> bool" where
  "dates_equal a b \<longleftrightarrow> lt_year a = lt_year b \<and> lt_month a = lt_month b \<and> lt_day a = lt_day b"

text \<open>
  \<^verbatim>\<open>ScheduleJob\<close> over as many ticks as are given: the first call after a fraction of the interval
  (\<open>randomish\<close> drew the divisor), then one call per tick; a panicking call is logged and does not end it.
  The result is the delay of the first call, the log, and the state after all calls.
\<close>

fun run_ticks :: "('s \<Rightarrow> string option \<times> 's) \<Rightarrow> nat \<Rightarrow> 's \<Rightarrow> string list \<times> 's" where
  "run_ticks callback 0 s = ([], s)"
| "run_ticks callback (Suc n) s =
     (case callback s of (r, s1) \<Rightarrow>
       (case run_ticks callback n s1 of (log, s2) \<Rightarrow> ((case r of None \<Rightarrow> [] | Some p \<Rightarrow> [p]) @ log, s2)))"

definition schedule_job :: "int \<Rightarrow> int \<Rightarrow> ('s \<Rightarrow> string option \<times> 's) \<Rightarrow> nat \<Rightarrow> 's \<Rightarrow> int \<times> string list \<times> 's" where
  "schedule_job interval divisor callback ticks s = (go_quo interval divisor, run_ticks callback (Suc ticks) s)"

section \<open>Facts on the calendar\<close>

lemma div_step: "0 < n \<Longrightarrow> (y :: int) div n = (y - 1) div n + (if y mod n = 0 then 1 else 0)"
proof -
  assume n: "0 < n"
  show ?thesis
  proof (cases "y mod n = 0")
    case True
    then obtain k where "y = n * k" by auto
    moreover have "(n * k - 1) div n = k - 1"
    proof -
      have "n * k - 1 = (k - 1) * n + (n - 1)" by (simp add: algebra_simps)
      then have "(n * k - 1) div n = (k - 1) + (n - 1) div n" using n by (metis add.commute div_mult_self1 less_irrefl)
      then show ?thesis using n by simp
    qed
    ultimately show ?thesis using n by simp
  next
    case False
    have "0 \<le> y mod n" "y mod n < n" using n by simp_all
    with False have r: "0 \<le> y mod n - 1" "y mod n - 1 < n" by simp_all
    have "y - 1 = y div n * n + (y mod n - 1)" by (simp add: algebra_simps div_mult_mod_eq)
    then have "(y - 1) div n = y div n + (y mod n - 1) div n" using n by (metis add.commute div_mult_self1 less_irrefl)
    with r False show ?thesis by simp
  qed
qed

lemma year_start_step: "year_start (y + 1) = year_start y + (if is_leap y then 366 else 365)"
proof -
  define a b c :: int where "a = (if y mod 4 = 0 then 1 else 0)" "b = (if y mod 100 = 0 then 1 else 0)"
    "c = (if y mod 400 = 0 then 1 else 0)"
  have "y div 4 = (y - 1) div 4 + a" "y div 100 = (y - 1) div 100 + b" "y div 400 = (y - 1) div 400 + c"
    unfolding a_b_c_def by (rule div_step; simp)+
  moreover have "year_start (y + 1) = 365 * y + 365 + y div 4 - y div 100 + y div 400" by (simp add: year_start_def)
  ultimately have s: "year_start (y + 1) = year_start y + 365 + a - b + c" unfolding year_start_def by linarith
  have "y mod 400 = 0 \<Longrightarrow> y mod 100 = 0" "y mod 100 = 0 \<Longrightarrow> y mod 4 = 0"
    using mod_mod_cancel[of 100 400 y] mod_mod_cancel[of 4 100 y] by auto
  then have "a - b + c = (if is_leap y then 1 else 0)"
    unfolding a_b_c_def is_leap_def by (cases "y mod 4 = 0"; cases "y mod 100 = 0"; cases "y mod 400 = 0") simp_all
  then have "a - b + c + 365 = (if is_leap y then 366 else 365)" by simp
  with s show ?thesis by linarith
qed

lemma month_cases:
  fixes m :: int
  assumes "1 \<le> m" "m \<le> 12"
  shows "m = 1 \<or> m = 2 \<or> m = 3 \<or> m = 4 \<or> m = 5 \<or> m = 6 \<or> m = 7 \<or> m = 8 \<or> m = 9 \<or> m = 10 \<or> m = 11 \<or> m = 12"
  using assms by presburger

lemma month_offset_step: "1 \<le> m \<Longrightarrow> m < 12 \<Longrightarrow> month_offset y (m + 1) = month_offset y m + days_in y m"
  using month_cases[of m] by (auto simp: month_offset_def days_in_def)

lemma days_in_pos: "28 \<le> days_in y m"
  by (simp add: days_in_def)

lemma next_day_valid: "valid_time t \<Longrightarrow> valid_time (next_day t)"
proof -
  have "1 \<le> days_in y m" for y m using days_in_pos[of y m] by simp
  then show "valid_time t \<Longrightarrow> ?thesis" by (auto simp: valid_time_def next_day_def)
qed

lemma next_day_number: "valid_time t \<Longrightarrow> day_number (next_day t) = day_number t + 1"
proof -
  assume v: "valid_time t"
  have dec: "month_offset y 12 + 31 = (if is_leap y then 365 else 364) + 1" for y by (simp add: month_offset_def)
  have jan: "month_offset y 1 = 0" for y by (simp add: month_offset_def)
  show ?thesis
  proof (cases "lt_day t < days_in (lt_year t) (lt_month t)")
    case True
    then show ?thesis by (simp add: next_day_def day_number_def)
  next
    case False
    with v have d: "lt_day t = days_in (lt_year t) (lt_month t)" by (simp add: valid_time_def)
    show ?thesis
    proof (cases "lt_month t < 12")
      case True
      with False d v show ?thesis by (simp add: next_day_def day_number_def month_offset_step valid_time_def)
    next
      case False': False
      with v have "lt_month t = 12" by (simp add: valid_time_def)
      with False d show ?thesis
        using dec[of "lt_year t"] jan year_start_step[of "lt_year t"]
        by (auto simp: next_day_def day_number_def days_in_def)
    qed
  qed
qed

lemma next_prior: "valid_time t \<Longrightarrow> next_day (prior_day t) = t"
  by (auto simp: valid_time_def next_day_def prior_day_def days_in_def)

lemma prior_day_valid: "valid_time t \<Longrightarrow> valid_time (prior_day t)"
proof -
  have "1 \<le> days_in y m" "days_in y 12 = 31" for y m using days_in_pos[of y m] by (simp_all add: days_in_def)
  then show "valid_time t \<Longrightarrow> ?thesis" by (auto simp: valid_time_def prior_day_def)
qed

lemma prior_day_number: "valid_time t \<Longrightarrow> day_number (prior_day t) = day_number t - 1"
  using next_day_number[OF prior_day_valid, of t] next_prior[of t] by simp

lemma step_nanos [simp]: "lt_nanos (next_day t) = lt_nanos t" "lt_nanos (prior_day t) = lt_nanos t"
  by (simp_all add: next_day_def prior_day_def)

section \<open>Facts on travelling\<close>

text \<open>Days in one direction: the day itself is at position 0.\<close>

definition day_step :: "int \<Rightarrow> local_time \<Rightarrow> local_time" where
  "day_step direction t = add_date t direction"

lemma day_step_simps: "day_step 1 = next_day" "day_step (- 1) = prior_day"
  by (simp_all add: day_step_def add_date_def fun_eq_iff)

lemma steps_number:
  assumes "valid_time t" "dir = 1 \<or> dir = - 1"
  shows "valid_time ((day_step dir ^^ i) t) \<and> day_number ((day_step dir ^^ i) t) = day_number t + dir * int i
    \<and> lt_nanos ((day_step dir ^^ i) t) = lt_nanos t"
proof (induction i)
  case (Suc i)
  let ?u = "(day_step dir ^^ i) t"
  from Suc have v: "valid_time ?u" by blast
  from assms(2) have "valid_time (day_step dir ?u) \<and> day_number (day_step dir ?u) = day_number ?u + dir \<and> lt_nanos (day_step dir ?u) = lt_nanos ?u"
    using next_day_valid[OF v] next_day_number[OF v] prior_day_valid[OF v] prior_day_number[OF v]
    by (elim disjE) (simp_all add: day_step_simps)
  with Suc show ?case by (simp add: algebra_simps)
qed (simp add: assms)

lemma weekday_shift:
  assumes "valid_time t" "dir = 1 \<or> dir = - 1"
  shows "\<exists>k\<in>{i, i + 1, i + 2}. weekday ((day_step dir ^^ k) t) \<noteq> 0 \<and> weekday ((day_step dir ^^ k) t) \<noteq> 6"
proof -
  define d where "d = day_number t - 1 + dir * int i"
  have n: "day_number ((day_step dir ^^ k) t) = day_number t + dir * int k" for k using steps_number[OF assms] by blast
  have w: "weekday ((day_step dir ^^ i) t) = d mod 7" "weekday ((day_step dir ^^ (i + 1)) t) = (d + dir) mod 7"
    "weekday ((day_step dir ^^ (i + 2)) t) = (d + 2 * dir) mod 7"
    unfolding weekday_def n d_def by (simp_all add: algebra_simps)
  have seven: "\<not> (x mod 7 = 0 \<or> x mod 7 = 6) \<or> \<not> ((x + 1) mod 7 = 0 \<or> (x + 1) mod 7 = 6) \<or> \<not> ((x + 2) mod 7 = 0 \<or> (x + 2) mod 7 = 6)"
    for x :: int
  proof -
    define r where "r = x mod 7"
    have "(x + 1) mod 7 = (r + 1) mod 7" "(x + 2) mod 7 = (r + 2) mod 7" unfolding r_def by (simp_all add: mod_add_left_eq)
    moreover have "0 \<le> r" "r < 7" by (simp_all add: r_def)
    then have "r = 0 \<or> r = 1 \<or> r = 2 \<or> r = 3 \<or> r = 4 \<or> r = 5 \<or> r = 6" by arith
    ultimately show ?thesis unfolding r_def[symmetric] by (elim disjE) simp_all
  qed
  have "d mod 7 \<noteq> 0 \<and> d mod 7 \<noteq> 6 \<or> (d + dir) mod 7 \<noteq> 0 \<and> (d + dir) mod 7 \<noteq> 6 \<or> (d + 2 * dir) mod 7 \<noteq> 0 \<and> (d + 2 * dir) mod 7 \<noteq> 6"
    using assms(2) seven[of d] seven[of "d - 2"] by (elim disjE) auto
  then consider "d mod 7 \<noteq> 0 \<and> d mod 7 \<noteq> 6" | "(d + dir) mod 7 \<noteq> 0 \<and> (d + dir) mod 7 \<noteq> 6"
    | "(d + 2 * dir) mod 7 \<noteq> 0 \<and> (d + 2 * dir) mod 7 \<noteq> 6" by (elim disjE) blast+
  then show ?thesis
  proof cases
    case 1
    then show ?thesis unfolding w(1)[symmetric] by blast
  next
    case 2
    then show ?thesis unfolding w(2)[symmetric] by blast
  next
    case 3
    then show ?thesis unfolding w(3)[symmetric] by blast
  qed
qed

lemma date_equals_iff: "date_equals item y m d \<longleftrightarrow> item = \<lparr>gd_y = y, gd_m = m, gd_d = d\<rparr>"
  by (cases item) (auto simp: date_equals_def)

text \<open>Holidays are finitely many, so allowed days never run out.\<close>

lemma allowed_days_unbounded:
  assumes "valid_time t" "dir = 1 \<or> dir = - 1"
  shows "\<exists>k>j. traveler_contains c ((day_step dir ^^ k) t)"
proof -
  let ?s = "\<lambda>i. (day_step dir ^^ i) t"
  let ?date = "\<lambda>u. \<lparr>gd_y = lt_year u, gd_m = lt_month u, gd_d = lt_day u\<rparr> :: go_date"
  have inj: "inj (\<lambda>i. ?date (?s i))"
  proof (rule injI)
    fix i k assume "?date (?s i) = ?date (?s k)"
    then have "day_number (?s i) = day_number (?s k)" by (simp add: day_number_def)
    moreover have "day_number (?s l) = day_number t + dir * int l" for l using steps_number[OF assms] by blast
    ultimately have "dir * int i = dir * int k" by simp
    with assms(2) show "i = k" by (elim disjE) simp_all
  qed
  let ?H = "{i. ?date (?s i) \<in> set (dt_holidays c)}"
  have fin: "finite ?H" using finite_vimageI[OF finite_set inj] by (simp add: vimage_def)
  then have "\<exists>N. \<forall>i\<in>?H. i < N" by (simp only: finite_nat_set_iff_bounded)
  then obtain N where N: "\<forall>i\<in>?H. i < N" ..
  from weekday_shift[OF assms, of "N + j + 1"] obtain k where
    m: "k \<in> {N + j + 1, N + j + 1 + 1, N + j + 1 + 2}" and w: "weekday (?s k) \<noteq> 0" "weekday (?s k) \<noteq> 6" by blast
  have k: "N + j + 1 \<le> k" using m by auto
  have "k \<notin> ?H"
  proof
    assume "k \<in> ?H"
    then have "k < N" by (rule bspec[OF N])
    with k show False by simp
  qed
  then have "\<not> list_ex (\<lambda>item. date_equals item (lt_year (?s k)) (lt_month (?s k)) (lt_day (?s k))) (dt_holidays c)"
    by (auto simp: list_ex_iff date_equals_iff)
  with k w have "j < k \<and> traveler_contains c (?s k)" by (simp add: traveler_contains_def)
  then show ?thesis by blast
qed

lemma add_days_loop_step:
  "i < n \<Longrightarrow> add_days_loop c dir i n t =
     add_days_loop c dir (if traveler_contains c (day_step dir t) then Suc i else i) n (day_step dir t)"
  by (subst add_days_loop.simps) (simp add: day_step_def Let_def)

lemma add_days_loop_skip:
  assumes "i < n" "\<And>k. 1 \<le> k \<Longrightarrow> k \<le> m \<Longrightarrow> \<not> traveler_contains c ((day_step dir ^^ k) t)"
  shows "add_days_loop c dir i n t = add_days_loop c dir i n ((day_step dir ^^ m) t)"
  using assms(2)
proof (induction m)
  case (Suc m)
  have "\<not> traveler_contains c (day_step dir ((day_step dir ^^ m) t))" using Suc.prems[of "Suc m"] by simp
  with add_days_loop_step[OF assms(1), of c dir "(day_step dir ^^ m) t"] Suc show ?case by simp
qed simp

text \<open>The number of allowed days among the first \<open>j\<close> ones in a direction.\<close>

definition allowed_count :: "date_traveler \<Rightarrow> int \<Rightarrow> local_time \<Rightarrow> nat \<Rightarrow> nat" where
  "allowed_count c dir t j = length (filter (\<lambda>k. traveler_contains c ((day_step dir ^^ k) t)) [1..<Suc j])"

lemma allowed_count_split:
  "allowed_count c dir t (k + j) = allowed_count c dir t k + allowed_count c dir ((day_step dir ^^ k) t) j"
proof (induction j)
  case (Suc j)
  have "(day_step dir ^^ (k + Suc j)) t = (day_step dir ^^ Suc j) ((day_step dir ^^ k) t)"
    by (metis add.commute comp_apply funpow_add)
  with Suc show ?case by (simp add: allowed_count_def)
qed (simp add: allowed_count_def)

lemma add_days_loop_correct:
  assumes "valid_time t" "dir = 1 \<or> dir = - 1" "i \<le> n"
  shows "\<exists>j. add_days_loop c dir i n t = Some ((day_step dir ^^ j) t) \<and> allowed_count c dir t j = n - i
    \<and> (i < n \<longrightarrow> traveler_contains c ((day_step dir ^^ j) t)) \<and> n - i \<le> j"
  using assms(1,3)
proof (induction "n - i" arbitrary: i t)
  case 0
  then have "add_days_loop c dir i n t = Some t" by (subst add_days_loop.simps) simp
  with 0 show ?case by (intro exI[of _ 0]) (simp add: allowed_count_def)
next
  case (Suc r)
  let ?good = "\<lambda>k. 1 \<le> k \<and> traveler_contains c ((day_step dir ^^ k) t)"
  have "\<exists>k. ?good k" using allowed_days_unbounded[OF Suc.prems(1) assms(2), of 0 c] Suc_leI by fastforce
  then obtain k where k: "?good k" "\<And>l. l < k \<Longrightarrow> \<not> ?good l" using exists_least_iff[of ?good] by blast
  then obtain m where m: "k = Suc m" by (cases k) auto
  have i: "i < n" using Suc.hyps(2) by simp
  have "add_days_loop c dir i n t = add_days_loop c dir i n ((day_step dir ^^ m) t)"
    using k(2) m by (intro add_days_loop_skip[OF i]) auto
  also have "\<dots> = add_days_loop c dir (Suc i) n ((day_step dir ^^ k) t)"
    using add_days_loop_step[OF i, of c dir "(day_step dir ^^ m) t"] k(1) m by simp
  finally have e: "add_days_loop c dir i n t = add_days_loop c dir (Suc i) n ((day_step dir ^^ k) t)" .
  have "\<forall>l\<in>set [1..<k]. \<not> traveler_contains c ((day_step dir ^^ l) t)" using k(2) by auto
  then have "filter (\<lambda>l. traveler_contains c ((day_step dir ^^ l) t)) [1..<k] = []" by (simp add: filter_empty_conv)
  then have one: "allowed_count c dir t k = 1" using k(1) by (simp add: allowed_count_def)
  have "valid_time ((day_step dir ^^ k) t)" using steps_number[OF Suc.prems(1) assms(2)] by blast
  moreover have "r = n - Suc i" "Suc i \<le> n" using Suc.hyps(2) i by simp_all
  ultimately obtain j where
    j: "add_days_loop c dir (Suc i) n ((day_step dir ^^ k) t) = Some ((day_step dir ^^ j) ((day_step dir ^^ k) t))"
      "allowed_count c dir ((day_step dir ^^ k) t) j = n - Suc i"
      "Suc i < n \<longrightarrow> traveler_contains c ((day_step dir ^^ j) ((day_step dir ^^ k) t))" "n - Suc i \<le> j"
    using Suc.hyps(1) by blast
  have p: "(day_step dir ^^ (k + j)) t = (day_step dir ^^ j) ((day_step dir ^^ k) t)"
    by (metis add.commute comp_apply funpow_add)
  have "traveler_contains c ((day_step dir ^^ (k + j)) t)"
  proof (cases "Suc i < n")
    case True
    with j(3) show ?thesis by (simp add: p)
  next
    case False
    with i have "add_days_loop c dir (Suc i) n ((day_step dir ^^ k) t) = Some ((day_step dir ^^ k) t)"
      by (subst add_days_loop.simps) simp
    with j(1) k(1) show ?thesis by (simp add: p)
  qed
  moreover have "allowed_count c dir t (k + j) = n - i" using one j(2) i by (simp add: allowed_count_split)
  ultimately show ?case using e j(1,4) k(1) i p by (intro exI[of _ "k + j"]) auto
qed

text \<open>One allowed day ahead, and the days counted until a time.\<close>

lemma add_one_day:
  assumes "valid_time t"
  obtains k where "1 \<le> k" "add_days c t 1 = Some ((day_step 1 ^^ k) t)" "traveler_contains c ((day_step 1 ^^ k) t)"
    "\<And>l. 1 \<le> l \<Longrightarrow> l < k \<Longrightarrow> \<not> traveler_contains c ((day_step 1 ^^ l) t)"
proof -
  from add_days_loop_correct[OF assms, of 1 0 1 c] obtain k where
    k: "add_days_loop c 1 0 1 t = Some ((day_step 1 ^^ k) t)" "allowed_count c 1 t k = 1"
      "traveler_contains c ((day_step 1 ^^ k) t)" "1 \<le> k" by auto
  then obtain m where m: "k = Suc m" by (cases k) auto
  have "allowed_count c 1 t k = allowed_count c 1 t m + 1" using k(3) m by (simp add: allowed_count_def)
  with k(2) have "filter (\<lambda>l. traveler_contains c ((day_step 1 ^^ l) t)) [1..<k] = []" by (simp add: allowed_count_def m)
  then have "\<not> traveler_contains c ((day_step 1 ^^ l) t)" if "1 \<le> l" "l < k" for l
    using that by (auto simp: filter_empty_conv)
  with k that show thesis by (auto simp: add_days_def)
qed

definition days_counted :: "date_traveler \<Rightarrow> local_time \<Rightarrow> local_time \<Rightarrow> nat set" where
  "days_counted c t now = {k. 1 \<le> k \<and> traveler_contains c ((day_step 1 ^^ k) t) \<and> time_before ((day_step 1 ^^ k) t) now}"

lemma before_steps:
  assumes "valid_time t"
  shows "time_before ((day_step 1 ^^ k) t) now \<longleftrightarrow>
    day_number t + int k < day_number now \<or> day_number t + int k = day_number now \<and> lt_nanos t < lt_nanos now"
  using steps_number[OF assms, of 1 k] by (simp add: time_before_def)

lemma finite_days_counted: "valid_time t \<Longrightarrow> finite (days_counted c t now)"
proof -
  assume v: "valid_time t"
  have "days_counted c t now \<subseteq> {..nat (day_number now - day_number t)}"
    unfolding days_counted_def before_steps[OF v] by auto
  then show ?thesis by (rule finite_subset) simp
qed

lemma days_counted_step:
  assumes "valid_time t" "1 \<le> k" "traveler_contains c ((day_step 1 ^^ k) t)"
    and "\<And>l. 1 \<le> l \<Longrightarrow> l < k \<Longrightarrow> \<not> traveler_contains c ((day_step 1 ^^ l) t)"
  shows "card (days_counted c t now) =
    (if time_before ((day_step 1 ^^ k) t) now then Suc (card (days_counted c ((day_step 1 ^^ k) t) now)) else 0)"
proof -
  let ?u = "(day_step 1 ^^ k) t"
  have v: "valid_time ?u" using steps_number[OF assms(1), of 1 k] by simp
  have sh: "(day_step 1 ^^ l) ?u = (day_step 1 ^^ (l + k)) t" for l by (simp add: funpow_add)
  show ?thesis
  proof (cases "time_before ?u now")
    case True
    have "days_counted c t now = insert k ((\<lambda>l. l + k) ` days_counted c ?u now)"
    proof (intro set_eqI iffI)
      fix x assume x: "x \<in> days_counted c t now"
      then have "k \<le> x" using assms(4)[of x] by (auto simp: days_counted_def not_less[symmetric])
      then show "x \<in> insert k ((\<lambda>l. l + k) ` days_counted c ?u now)"
      proof (cases "x = k")
        case False
        with \<open>k \<le> x\<close> have "x - k \<in> days_counted c ?u now" "x = x - k + k" using x by (auto simp: days_counted_def sh)
        then show ?thesis by blast
      qed simp
    next
      fix x assume "x \<in> insert k ((\<lambda>l. l + k) ` days_counted c ?u now)"
      then show "x \<in> days_counted c t now" using assms(2,3) True by (auto simp: days_counted_def sh)
    qed
    moreover have "k \<notin> (\<lambda>l. l + k) ` days_counted c ?u now" by (auto simp: days_counted_def)
    moreover have "card ((\<lambda>l. l + k) ` days_counted c ?u now) = card (days_counted c ?u now)" by (intro card_image) (simp add: inj_on_def)
    ultimately show ?thesis using True finite_days_counted[OF v] by simp
  next
    case False
    have "x \<notin> days_counted c t now" for x
    proof
      assume x: "x \<in> days_counted c t now"
      then have "k \<le> x" using assms(4)[of x] by (auto simp: days_counted_def not_less[symmetric])
      moreover have "time_before ((day_step 1 ^^ x) t) now" using x by (simp add: days_counted_def)
      ultimately show False using False unfolding before_steps[OF assms(1)] by auto
    qed
    then have "days_counted c t now = {}" by blast
    with False show ?thesis by simp
  qed
qed

lemma between_loop_correct:
  "valid_time t \<Longrightarrow> between_loop c ct t now =
     Some (ct + (if time_before t now then 1 + int (card (days_counted c t now)) else 0))"
proof (induction "nat (day_number now - day_number t + 1)" arbitrary: t ct rule: less_induct)
  case less
  show ?case
  proof (cases "time_before t now")
    case False
    then show ?thesis by (subst between_loop.simps) simp
  next
    case True
    from add_one_day[OF less.prems, of c] obtain k where
      k: "1 \<le> k" "add_days c t 1 = Some ((day_step 1 ^^ k) t)" "traveler_contains c ((day_step 1 ^^ k) t)"
        "\<And>l. 1 \<le> l \<Longrightarrow> l < k \<Longrightarrow> \<not> traveler_contains c ((day_step 1 ^^ l) t)" by metis
    let ?u = "(day_step 1 ^^ k) t"
    have u: "valid_time ?u" "day_number ?u = day_number t + int k" using steps_number[OF less.prems, of 1 k] by simp_all
    have "day_number t \<le> day_number now" using True by (auto simp: time_before_def)
    then have "nat (day_number now - day_number ?u + 1) < nat (day_number now - day_number t + 1)" using u(2) k(1) by simp
    from less.hyps[OF this u(1), of "ct + 1"] True k(2) days_counted_step[OF less.prems k(1,3,4), of now]
    show ?thesis by (subst between_loop.simps) simp
  qed
qed

section \<open>Properties\<close>

text \<open>
  C26: adding any number of days ends, for every list of holidays, forwards and backwards: the result
  is an allowed day at the same time of day, and exactly the asked number of allowed days lie
  between, the result included; adding none changes nothing.
\<close>

theorem add_days_correct:
  assumes "valid_time t" "in_i64 n" "n \<noteq> min_int64"
  shows "\<exists>j. add_days c t n = Some ((day_step (if n < 0 then - 1 else 1) ^^ j) t)
    \<and> int (allowed_count c (if n < 0 then - 1 else 1) t j) = \<bar>n\<bar>
    \<and> (n \<noteq> 0 \<longrightarrow> traveler_contains c ((day_step (if n < 0 then - 1 else 1) ^^ j) t))
    \<and> day_number ((day_step (if n < 0 then - 1 else 1) ^^ j) t) = day_number t + (if n < 0 then - int j else int j)
    \<and> lt_nanos ((day_step (if n < 0 then - 1 else 1) ^^ j) t) = lt_nanos t"
proof -
  let ?dir = "if n < 0 then - 1 else 1 :: int"
  have "(if n < 0 then i64 (- 1 * n) else n) = \<bar>n\<bar>"
    using assms(2,3) by (simp add: i64_id in_i64_def min_int64_def max_int64_def)
  then have a: "add_days c t n = add_days_loop c ?dir 0 (nat \<bar>n\<bar>) t" by (simp add: add_days_def Let_def)
  have d: "?dir = 1 \<or> ?dir = - 1" by simp
  from add_days_loop_correct[OF assms(1) d, of 0 "nat \<bar>n\<bar>" c] obtain j where
    "add_days_loop c ?dir 0 (nat \<bar>n\<bar>) t = Some ((day_step ?dir ^^ j) t)" "allowed_count c ?dir t j = nat \<bar>n\<bar>"
    "0 < nat \<bar>n\<bar> \<longrightarrow> traveler_contains c ((day_step ?dir ^^ j) t)" by auto
  with a steps_number[OF assms(1), of ?dir j] show ?thesis by (intro exI[of _ j]) auto
qed

definition sample_friday :: local_time where
  "sample_friday = \<lparr>lt_year = 2023, lt_month = 12, lt_day = 29, lt_nanos = 5\<rparr>"

lemma add_days_correct_witness:
  "weekday sample_friday = 5 \<and> (\<exists>j. add_days (business_traveler [\<lparr>gd_y = 2024, gd_m = 1, gd_d = 1\<rparr>]) sample_friday 1
     = Some ((day_step 1 ^^ j) sample_friday) \<and> lt_nanos ((day_step 1 ^^ j) sample_friday) = 5)"
proof -
  have v: "valid_time sample_friday" "lt_nanos sample_friday = 5" "weekday sample_friday = 5" by code_simp+
  have i: "in_i64 1" "(1 :: int) \<noteq> min_int64" by (simp_all add: in_i64_def min_int64_def max_int64_def)
  from add_days_correct[OF v(1) i, of "business_traveler [\<lparr>gd_y = 2024, gd_m = 1, gd_d = 1\<rparr>]"] v(2,3) show ?thesis by auto
qed

text \<open>The day after the Friday before New Year's Day 2024, a holiday on a Monday, is the Tuesday.\<close>

lemma new_year_skipped:
  "add_business_days sample_friday 1 [\<lparr>gd_y = 2024, gd_m = 1, gd_d = 1\<rparr>] =
     Some \<lparr>lt_year = 2024, lt_month = 1, lt_day = 2, lt_nanos = 5\<rparr>"
  by code_simp

text \<open>
  Counting business days ends, for all times and holidays, with the number of business days after
  the first time's day that, at its time of day, lie before the second time.
\<close>

theorem business_days_counted:
  assumes "valid_time t"
  shows "business_days_between t now holidays = Some (int (card (days_counted (business_traveler holidays) t now)))"
proof -
  have e: "\<not> time_before t now \<Longrightarrow> days_counted c t now = {}" for c
    unfolding days_counted_def before_steps[OF assms] by (auto simp: time_before_def)
  show ?thesis
    using e by (auto simp: business_days_between_def between_loop_correct[OF assms])
qed

lemma business_days_counted_witness:
  "\<exists>n. business_days_between sample_friday \<lparr>lt_year = 2024, lt_month = 1, lt_day = 5, lt_nanos = 0\<rparr> [] = Some (int n)"
proof -
  have v: "valid_time sample_friday" by code_simp
  show ?thesis using business_days_counted[OF v] by blast
qed

text \<open>The most negative count is its own negation, so that no day is added.\<close>

lemma add_days_min: "add_days c t min_int64 = Some t"
proof -
  have "i64 (- 1 * min_int64) = min_int64" "min_int64 < 0" by (simp_all add: i64_def min_int64_def)
  then show ?thesis by (subst add_days_def, subst add_days_loop.simps) simp
qed

lemma next_weekday_ok:
  assumes "valid_time t" "0 \<le> desired" "desired < 7"
  shows "weekday (next_weekday t desired) = desired"
proof -
  define add where "add = (desired - weekday t) mod 7"
  have w: "0 \<le> weekday t" "weekday t < 7" by (simp_all add: weekday_def)
  have "add = (if desired - weekday t < 0 then desired - weekday t + 7 else desired - weekday t)"
  proof (cases "desired - weekday t < 0")
    case True
    have "(desired - weekday t) mod 7 = (desired - weekday t + 7) mod 7" by (rule mod_add_self2[symmetric])
    also have "\<dots> = desired - weekday t + 7" using True w assms(2) by (intro mod_pos_pos_trivial) simp_all
    finally show ?thesis using True by (simp only: add_def if_True)
  next
    case False
    with w assms(3) show ?thesis by (simp add: add_def)
  qed
  then have n: "next_weekday t desired = (day_step 1 ^^ nat add) t" "0 \<le> add"
    by (simp_all add: next_weekday_def Let_def add_date_def day_step_simps add_def)
  have "weekday (next_weekday t desired) = (weekday t + add) mod 7"
    using steps_number[OF assms(1), of 1 "nat add"] n by (simp add: weekday_def mod_simps algebra_simps)
  then show ?thesis using assms(2,3) by (simp add: add_def mod_simps)
qed

end
