(* ===== verification/Parallelize.thy ===== *)
theory Parallelize
  imports ErCore "HOL-Library.Multiset"
begin

text \<open>
  Packages \<^verbatim>\<open>parallelize\<close> and \<^verbatim>\<open>worker\<close>: running tasks side by side, and the background worker with its
  queue of ten, its timer and its back-off.
\<close>

section \<open>parallelize\<close>

text \<open>What a task does: it returns an error or none, or panics; \<open>stack\<close> is the stack at that point.\<close>

datatype task_outcome = Returned "go_error option" | Panicked panic_value string

datatype task_error = TaskError go_error | SafeTaskError safe_error_obj

record task_info =
  ti_index :: nat
  ti_error :: "task_error option"

record par_env =
  pz_errors :: errors_lib
  pz_testing :: bool
  pz_disclosure :: disclosure_config

text \<open>\<^verbatim>\<open>handler\<close>: the message it sends; \<open>cid\<close> is the correlation id that \<^verbatim>\<open>SafeError\<close> draws.\<close>

definition par_handler :: "par_env \<Rightarrow> nat \<Rightarrow> string \<Rightarrow> task_outcome \<Rightarrow> task_info" where
  "par_handler env index cid tsk =
     (case tsk of
        Returned err \<Rightarrow> \<lparr>ti_index = index, ti_error = map_option TaskError err\<rparr>
      | Panicked r stack \<Rightarrow>
          (case handle_errors (pz_errors env) stack (Some r) of
             None \<Rightarrow> \<lparr>ti_index = index, ti_error = None\<rparr>
           | Some input \<Rightarrow>
               \<lparr>ti_index = index,
                ti_error = Some (SafeTaskError (snd (safe_error (pz_testing env) (pz_disclosure env) cid input)))\<rparr>))"

text \<open>The receiving loop over the messages in the order in which they arrive.\<close>

fun par_collect :: "task_info list \<Rightarrow> task_error option list \<Rightarrow> task_error option list" where
  "par_collect [] results = results"
| "par_collect (m # ms) results = par_collect ms (results[ti_index m := ti_error m])"

definition par_messages :: "par_env \<Rightarrow> (nat \<Rightarrow> string) \<Rightarrow> task_outcome list \<Rightarrow> task_info list" where
  "par_messages env cids tasks = map (\<lambda>(i, t). par_handler env i (cids i) t) (enumerate 0 tasks)"

definition par_run :: "task_info list \<Rightarrow> task_outcome list \<Rightarrow> task_error option list" where
  "par_run arrived tasks = par_collect (take (length tasks) arrived) (replicate (length tasks) None)"

lemma par_handler_index [simp]: "ti_index (par_handler env i cid t) = i"
  by (auto simp: par_handler_def split: task_outcome.splits option.splits)

lemma length_par_collect [simp]: "length (par_collect ms rs) = length rs"
  by (induction ms rs rule: par_collect.induct) auto

lemma par_collect_nth:
  "distinct (map ti_index ms) \<Longrightarrow> i < length rs \<Longrightarrow>
     par_collect ms rs ! i = (case find (\<lambda>m. ti_index m = i) ms of Some m \<Rightarrow> ti_error m | None \<Rightarrow> rs ! i)"
proof (induction ms arbitrary: rs)
  case (Cons m ms)
  show ?case
  proof (cases "ti_index m = i")
    case True
    with Cons.prems(1) have "find (\<lambda>m. ti_index m = i) ms = None"
      by (auto simp: find_None_iff) (metis image_eqI)
    with Cons True show ?thesis by simp
  next
    case False
    with Cons show ?thesis by (simp split: option.split)
  qed
qed simp

text \<open>
  Whatever order the tasks finish in, the result lists at each position the error of that task
  alone: what it returned, or the safe view of its panic - never the panic's own text or stack
  outside test mode, unless it opted in.
\<close>

theorem parallelize_results:
  assumes "mset arrived = mset (par_messages env cids tasks)"
  shows "par_run arrived tasks = map (\<lambda>i. ti_error (par_handler env i (cids i) (tasks ! i))) [0..<length tasks]
    \<and> (\<forall>i < length tasks. \<forall>r stack. tasks ! i = Panicked r stack \<and> \<not> pz_testing env
         \<and> \<not> dc_return_error_message (pz_disclosure env) \<and> \<not> opted_in (pz_errors env) r \<longrightarrow>
         par_run arrived tasks ! i = Some (SafeTaskError \<lparr>se_correlation_id = cids i,
           se_client_message = dc_generic_message (pz_disclosure env), se_client_stack = ''''\<rparr>))"
proof -
  let ?ms = "par_messages env cids tasks"
  have nth: "?ms ! i = par_handler env i (cids i) (tasks ! i)" if "i < length tasks" for i
    using that by (simp add: par_messages_def nth_enumerate_eq)
  have len: "length ?ms = length tasks" "length arrived = length tasks"
    using mset_eq_length[OF assms] by (simp_all add: par_messages_def)
  have "map ti_index ?ms = [0..<length tasks]" by (rule nth_equalityI) (simp_all add: len nth)
  then have "distinct (map ti_index ?ms)" by simp
  then have d: "distinct (map ti_index arrived)" using assms by (metis distinct_count_atmost_1 mset_map mset_eq_imp_distinct_iff)
  have r: "par_run arrived tasks ! i = ti_error (par_handler env i (cids i) (tasks ! i))" if i: "i < length tasks" for i
  proof -
    have "par_handler env i (cids i) (tasks ! i) \<in> set arrived"
      using nth[OF i] i len(1) assms by (metis nth_mem set_mset_mset)
    then obtain m where m: "find (\<lambda>m. ti_index m = i) arrived = Some m"
      by (cases "find (\<lambda>m. ti_index m = i) arrived") (auto simp: find_None_iff)
    then have "m \<in> set arrived" "ti_index m = i" by (auto simp: find_Some_iff)
    then have "m \<in> set ?ms" using assms by (metis set_mset_mset)
    then obtain k where "k < length tasks" "m = par_handler env k (cids k) (tasks ! k)" by (metis in_set_conv_nth len(1) nth)
    with \<open>ti_index m = i\<close> have "m = par_handler env i (cids i) (tasks ! i)" by simp
    with m i d len(2) show ?thesis by (simp add: par_run_def par_collect_nth)
  qed
  have l: "length (par_run arrived tasks) = length tasks" by (simp add: par_run_def)
  have "par_run arrived tasks = map (\<lambda>i. ti_error (par_handler env i (cids i) (tasks ! i))) [0..<length tasks]"
    by (rule nth_equalityI) (simp_all add: r l)
  moreover have "ti_error (par_handler env i (cids i) (Panicked p stack)) = Some (SafeTaskError \<lparr>se_correlation_id = cids i,
           se_client_message = dc_generic_message (pz_disclosure env), se_client_stack = ''''\<rparr>)"
    if "\<not> pz_testing env" "\<not> dc_return_error_message (pz_disclosure env)" "\<not> opted_in (pz_errors env) p" for i p stack
  proof -
    obtain inp where inp: "handle_errors (pz_errors env) stack (Some p) = Some inp" using handle_errors_total by blast
    have "\<not> hi_client_safe inp" using handle_errors_client_safe[OF inp] that(3) by (auto simp: opted_in_def)
    with inp that show ?thesis by (simp add: par_handler_def client_message_hidden)
  qed
  ultimately show ?thesis using r by (metis (no_types, lifting))
qed

lemma parallelize_results_witness:
  "par_run [par_handler \<lparr>pz_errors = sample_lib, pz_testing = False, pz_disclosure = default_disclosure\<rparr> 1 ''t'' (Panicked (PanicValue ''boom'' None) ''st''),
            par_handler \<lparr>pz_errors = sample_lib, pz_testing = False, pz_disclosure = default_disclosure\<rparr> 0 ''t'' (Returned None)]
     [Returned None, Panicked (PanicValue ''boom'' None) ''st''] ! 1
   = Some (SafeTaskError \<lparr>se_correlation_id = ''t'', se_client_message = ''An unexpected error occurred'', se_client_stack = ''''\<rparr>)"
proof -
  let ?env = "\<lparr>pz_errors = sample_lib, pz_testing = False, pz_disclosure = default_disclosure\<rparr> :: par_env"
  let ?ts = "[Returned None, Panicked (PanicValue ''boom'' None) ''st'']"
  let ?arr = "[par_handler ?env 1 ''t'' (?ts ! 1), par_handler ?env 0 ''t'' (?ts ! 0)]"
  have "mset ?arr = mset (par_messages ?env (\<lambda>_. ''t'') ?ts)" by (simp add: par_messages_def enumerate_eq_zip)
  from parallelize_results[OF this] have "par_run ?arr ?ts ! 1 = Some (SafeTaskError \<lparr>se_correlation_id = ''t'',
     se_client_message = dc_generic_message default_disclosure, se_client_stack = ''''\<rparr>)"
    by (auto simp: opted_in_def default_disclosure_def)
  then show ?thesis by (simp add: default_disclosure_def)
qed

section \<open>worker\<close>

text \<open>
  A worker, with the record of what was put into its queue and what it ran from it.  \<open>wk_backing_off\<close>
  says that it waits after an error; \<open>wk_interval\<close> whether it has a timer.
\<close>

record worker =
  wk_name :: string
  wk_interval :: bool
  wk_signal :: "int list"
  wk_stopped :: bool
  wk_ended :: bool
  wk_backing_off :: bool
  wk_accepted :: "int list"
  wk_ran :: "int list"
  wk_timer_runs :: nat

definition signal_capacity :: nat where "signal_capacity = 10"

definition new_worker :: "string \<Rightarrow> bool \<Rightarrow> worker" where
  "new_worker name interval = \<lparr>wk_name = name, wk_interval = interval, wk_signal = [], wk_stopped = False, wk_ended = False,
     wk_backing_off = False, wk_accepted = [], wk_ran = [], wk_timer_runs = 0\<rparr>"

text \<open>The function that the loop runs: the middleware is applied in order, so that the last is outermost; a panic is an error.\<close>

definition worker_exec :: "('i \<Rightarrow> string + string option) \<Rightarrow> (('i \<Rightarrow> string + string option) \<Rightarrow> 'i \<Rightarrow> string + string option) list
    \<Rightarrow> 'i \<Rightarrow> string option" where
  "worker_exec exec middleware input =
     (case (foldl (\<lambda>e md. md e) exec middleware) input of
        Inl panic \<Rightarrow> Some (''worker panic: '' @ panic)
      | Inr err \<Rightarrow> err)"

definition worker_enqueue :: "int \<Rightarrow> worker \<Rightarrow> worker" where
  "worker_enqueue input w = w\<lparr>wk_signal := wk_signal w @ [input], wk_accepted := wk_accepted w @ [input]\<rparr>"

definition worker_stop :: "worker \<Rightarrow> worker" where
  "worker_stop w = w\<lparr>wk_stopped := True\<rparr>"

text \<open>A select picks any of its ready cases; a default only when none is.\<close>

datatype select_case = CaseSend | CaseDone | CaseContext | CaseDefault

definition worker_trigger :: "select_case \<Rightarrow> worker \<Rightarrow> worker option" where
  "worker_trigger c w =
     (let can_send = length (wk_signal w) < signal_capacity
      in case c of
           CaseSend \<Rightarrow> if can_send then Some (worker_enqueue 0 w) else None
         | CaseDone \<Rightarrow> if wk_stopped w then Some w else None
         | CaseDefault \<Rightarrow> if \<not> can_send \<and> \<not> wk_stopped w then Some w else None
         | CaseContext \<Rightarrow> None)"

definition trigger_with_input :: "bool \<Rightarrow> int \<Rightarrow> select_case \<Rightarrow> worker \<Rightarrow> worker option" where
  "trigger_with_input ctx_done input c w =
     (case c of
        CaseSend \<Rightarrow> if length (wk_signal w) < signal_capacity then Some (worker_enqueue input w) else None
      | CaseContext \<Rightarrow> if ctx_done then Some w else None
      | CaseDone \<Rightarrow> if wk_stopped w then Some w else None
      | CaseDefault \<Rightarrow> None)"

definition after_run :: "string option \<Rightarrow> worker \<Rightarrow> worker" where
  "after_run err w = w\<lparr>wk_backing_off := (err \<noteq> None)\<rparr>"

text \<open>One turn of the loop, and the calls of the other goroutines.\<close>

inductive worker_step :: "(int \<Rightarrow> string option) \<Rightarrow> worker \<Rightarrow> worker \<Rightarrow> bool" for run where
  loop_done: "\<not> wk_ended w \<Longrightarrow> wk_stopped w \<Longrightarrow> worker_step run w (w\<lparr>wk_ended := True\<rparr>)"
| loop_signal: "\<not> wk_ended w \<Longrightarrow> \<not> wk_backing_off w \<Longrightarrow> wk_signal w = v # vs \<Longrightarrow>
    worker_step run w (after_run (run v) (w\<lparr>wk_signal := vs, wk_ran := wk_ran w @ [v]\<rparr>))"
| loop_timer: "\<not> wk_ended w \<Longrightarrow> \<not> wk_backing_off w \<Longrightarrow> wk_interval w \<Longrightarrow>
    worker_step run w (after_run (run 0) (w\<lparr>wk_timer_runs := wk_timer_runs w + 1\<rparr>))"
| loop_backed_off: "\<not> wk_ended w \<Longrightarrow> wk_backing_off w \<Longrightarrow> worker_step run w (w\<lparr>wk_backing_off := False\<rparr>)"
| call_stop: "worker_step run w (worker_stop w)"
| call_trigger: "worker_trigger c w = Some w' \<Longrightarrow> worker_step run w w'"
| call_trigger_with: "trigger_with_input ctx_done input c w = Some w' \<Longrightarrow> worker_step run w w'"

inductive worker_reach :: "(int \<Rightarrow> string option) \<Rightarrow> worker \<Rightarrow> worker \<Rightarrow> bool" for run w where
  worker_refl: "worker_reach run w w"
| worker_trans: "worker_reach run w u \<Longrightarrow> worker_step run u v \<Longrightarrow> worker_reach run w v"

definition worker_inv :: "worker \<Rightarrow> bool" where
  "worker_inv w \<longleftrightarrow> wk_ran w @ wk_signal w = wk_accepted w \<and> length (wk_signal w) \<le> signal_capacity
     \<and> (wk_ended w \<longrightarrow> wk_stopped w) \<and> (\<not> wk_interval w \<longrightarrow> wk_timer_runs w = 0)"

lemmas worker_defs = worker_enqueue_def worker_stop_def worker_trigger_def trigger_with_input_def after_run_def

lemma worker_step_inv: "worker_step run w w' \<Longrightarrow> worker_inv w \<Longrightarrow> worker_inv w'"
  by (induction rule: worker_step.induct)
    (auto simp: worker_inv_def worker_defs Let_def signal_capacity_def split: select_case.splits if_splits)

lemma worker_step_ended: "worker_step run w w' \<Longrightarrow> wk_ended w \<Longrightarrow> wk_ended w' \<and> wk_ran w' = wk_ran w \<and> wk_timer_runs w' = wk_timer_runs w"
  by (induction rule: worker_step.induct) (auto simp: worker_defs Let_def split: select_case.splits if_splits)

lemma worker_reach_inv: "worker_reach run (new_worker name interval) w \<Longrightarrow> worker_inv w"
  by (induction rule: worker_reach.induct)
    (auto simp: worker_step_inv, simp add: worker_inv_def new_worker_def)

text \<open>
  However triggers, stops and turns of the loop interleave, the worker runs the inputs it accepted
  one by one in their order, each once, and those not yet run (at most ten) wait in its queue; the
  loop only ends after a stop, runs nothing afterwards, and can always be ended by one turn after a
  stop, also while it backs off from an error; Trigger never blocks.
\<close>

theorem worker_in_order:
  assumes "worker_reach run (new_worker name interval) w"
  shows "wk_accepted w = wk_ran w @ wk_signal w \<and> length (wk_signal w) \<le> 10
    \<and> (wk_ended w \<longrightarrow> wk_stopped w)
    \<and> (\<forall>w'. wk_ended w \<and> worker_reach run w w' \<longrightarrow> wk_ended w' \<and> wk_ran w' = wk_ran w \<and> wk_timer_runs w' = wk_timer_runs w)
    \<and> (wk_stopped w \<and> \<not> wk_ended w \<longrightarrow> (\<exists>w'. worker_step run w w' \<and> wk_ended w' \<and> wk_ran w' = wk_ran w))
    \<and> (\<exists>c w'. worker_trigger c w = Some w')"
proof -
  have inv: "worker_inv w" using worker_reach_inv[OF assms] .
  have e: "wk_ended w' \<and> wk_ran w' = wk_ran w \<and> wk_timer_runs w' = wk_timer_runs w" if "worker_reach run w w'" "wk_ended w" for w'
    using that by (induction rule: worker_reach.induct) (auto dest: worker_step_ended)
  have s: "\<exists>w'. worker_step run w w' \<and> wk_ended w' \<and> wk_ran w' = wk_ran w" if "wk_stopped w" "\<not> wk_ended w"
    using loop_done[OF that(2,1), of run] by (intro exI[of _ "w\<lparr>wk_ended := True\<rparr>"]) simp
  have t: "\<exists>c w'. worker_trigger c w = Some w'"
  proof (cases "length (wk_signal w) < signal_capacity")
    case True
    then show ?thesis by (intro exI[of _ CaseSend]) (simp add: worker_trigger_def)
  next
    case False
    then show ?thesis
      by (intro exI[of _ "if wk_stopped w then CaseDone else CaseDefault"]) (simp add: worker_trigger_def)
  qed
  from inv e s t show ?thesis by (simp add: worker_inv_def signal_capacity_def)
qed

lemma worker_in_order_witness:
  "\<exists>w. worker_reach (\<lambda>v. if v = 1 then Some ''e'' else None) (new_worker ''w'' False) w \<and> wk_ran w = [1] \<and> wk_signal w = [2]
     \<and> wk_accepted w = wk_ran w @ wk_signal w"
proof -
  let ?run = "\<lambda>v :: int. if v = 1 then Some ''e'' else None"
  let ?w0 = "new_worker ''w'' False"
  let ?w1 = "worker_enqueue 1 ?w0"
  let ?w2 = "worker_enqueue 2 ?w1"
  let ?w3 = "after_run (?run 1) (?w2\<lparr>wk_signal := [2], wk_ran := wk_ran ?w2 @ [1]\<rparr>)"
  have "worker_step ?run ?w0 ?w1" "worker_step ?run ?w1 ?w2"
    by (rule call_trigger_with[of False _ CaseSend]; simp add: trigger_with_input_def new_worker_def worker_enqueue_def signal_capacity_def)+
  moreover have "worker_step ?run ?w2 ?w3" by (rule loop_signal) (simp_all add: new_worker_def worker_enqueue_def)
  ultimately have r: "worker_reach ?run ?w0 ?w3" by (meson worker_refl worker_trans)
  from worker_in_order[OF r] have "wk_accepted ?w3 = wk_ran ?w3 @ wk_signal ?w3" by blast
  with r show ?thesis by (intro exI[of _ ?w3]) (simp add: new_worker_def worker_enqueue_def after_run_def)
qed

text \<open>Right after a stop an input can still be put into the queue: the select may pick the send.\<close>

lemma enqueued_after_stop:
  "trigger_with_input False 7 CaseSend (worker_stop (new_worker ''w'' False)) = Some (worker_enqueue 7 (worker_stop (new_worker ''w'' False)))"
  by (simp add: trigger_with_input_def worker_stop_def new_worker_def signal_capacity_def)

end
