(* ===== verification/PqChan.thy ===== *)
theory PqChan
  imports GoText
begin

text \<open>
  Packages \<^verbatim>\<open>demux\<close> and \<^verbatim>\<open>pqchan\<close>: the fan-out of values to channels under a mutex, the names of
  notification channels, the routing of notifications, and the manager that restarts the listener.
  Channels are explicit: a buffer of bounded length, a receiver that may be blocked on it, and what
  it has received.
\<close>

section \<open>demux\<close>

record 'v pipe =
  pp_id :: nat
  pp_buffer :: "'v list"
  pp_waiting :: bool
  pp_got :: "'v list"
  pp_since :: nat

text \<open>
  The mutex is free, or held by a \<^verbatim>\<open>Send\<close> of a value with the pipes it still has to serve; removing
  and adding an output are single steps.  \<open>dm_sent\<close> records the values sent, \<open>pp_since\<close> how many
  there were when the pipe was made.
\<close>

datatype 'v demux_lock = Unlocked | SendingTo 'v "nat list"

record 'v demux =
  dm_outputs :: "'v pipe list"
  dm_lock :: "'v demux_lock"
  dm_lossy :: bool
  dm_buffer :: nat
  dm_sent :: "'v list"
  dm_made :: nat
  dm_closed :: "nat list"

definition new_demux :: "bool \<Rightarrow> nat \<Rightarrow> 'v demux" where
  "new_demux lossy buffer = \<lparr>dm_outputs = [], dm_lock = Unlocked, dm_lossy = lossy, dm_buffer = buffer, dm_sent = [],
     dm_made = 0, dm_closed = []\<rparr>"

definition demux_receive :: "'v demux \<Rightarrow> 'v demux" where
  "demux_receive d = d\<lparr>dm_outputs := dm_outputs d @ [\<lparr>pp_id = dm_made d, pp_buffer = [], pp_waiting = False, pp_got = [],
     pp_since = length (dm_sent d)\<rparr>], dm_made := dm_made d + 1\<rparr>"

definition remove_output :: "nat \<Rightarrow> 'v demux \<Rightarrow> 'v demux" where
  "remove_output c d = d\<lparr>dm_outputs := filter (\<lambda>p. pp_id p \<noteq> c) (dm_outputs d), dm_closed := c # dm_closed d\<rparr>"

definition pipe_ready :: "nat \<Rightarrow> 'v pipe \<Rightarrow> bool" where
  "pipe_ready cap p \<longleftrightarrow> pp_waiting p \<or> length (pp_buffer p) < cap"

definition pipe_push :: "'v \<Rightarrow> 'v pipe \<Rightarrow> 'v pipe" where
  "pipe_push v p = (if pp_waiting p then p\<lparr>pp_waiting := False, pp_got := pp_got p @ [v]\<rparr> else p\<lparr>pp_buffer := pp_buffer p @ [v]\<rparr>)"

definition pipe_pull :: "'v pipe \<Rightarrow> 'v pipe" where
  "pipe_pull p = (case pp_buffer p of [] \<Rightarrow> p\<lparr>pp_waiting := True\<rparr> | v # vs \<Rightarrow> p\<lparr>pp_buffer := vs, pp_got := pp_got p @ [v]\<rparr>)"

definition on_pipe :: "nat \<Rightarrow> ('v pipe \<Rightarrow> 'v pipe) \<Rightarrow> 'v demux \<Rightarrow> 'v demux" where
  "on_pipe c f d = d\<lparr>dm_outputs := map (\<lambda>p. if pp_id p = c then f p else p) (dm_outputs d)\<rparr>"

definition pipe_of :: "nat \<Rightarrow> 'v demux \<Rightarrow> 'v pipe option" where
  "pipe_of c d = find (\<lambda>p. pp_id p = c) (dm_outputs d)"

text \<open>One turn of the loop of \<^verbatim>\<open>Send\<close>; \<^const>\<open>None\<close> when it is blocked.\<close>

definition send_turn :: "'v \<Rightarrow> nat \<Rightarrow> nat list \<Rightarrow> 'v demux \<Rightarrow> 'v demux option" where
  "send_turn v c cs d =
     (case pipe_of c d of
        None \<Rightarrow> None
      | Some p \<Rightarrow>
          if pipe_ready (dm_buffer d) p then Some (on_pipe c (pipe_push v) (d\<lparr>dm_lock := SendingTo v cs\<rparr>))
          else if dm_lossy d then Some (d\<lparr>dm_lock := SendingTo v cs\<rparr>)
          else None)"

inductive demux_step :: "'v demux \<Rightarrow> 'v demux \<Rightarrow> bool" where
  send_start: "dm_lock d = Unlocked \<Longrightarrow>
     demux_step d (d\<lparr>dm_lock := SendingTo v (map pp_id (dm_outputs d)), dm_sent := dm_sent d @ [v]\<rparr>)"
| send_next: "dm_lock d = SendingTo v (c # cs) \<Longrightarrow> send_turn v c cs d = Some d' \<Longrightarrow> demux_step d d'"
| send_end: "dm_lock d = SendingTo v [] \<Longrightarrow> demux_step d (d\<lparr>dm_lock := Unlocked\<rparr>)"
| receive_new: "dm_lock d = Unlocked \<Longrightarrow> demux_step d (demux_receive d)"
| receive_cancelled: "dm_lock d = Unlocked \<Longrightarrow> c \<in> set (map pp_id (dm_outputs d)) \<Longrightarrow> demux_step d (remove_output c d)"
| receiver_pulls: "pipe_of c d = Some p \<Longrightarrow> \<not> pp_waiting p \<Longrightarrow> demux_step d (on_pipe c pipe_pull d)"

inductive demux_reach :: "'v demux \<Rightarrow> 'v demux \<Rightarrow> bool" for d where
  demux_refl: "demux_reach d d"
| demux_trans: "demux_reach d e \<Longrightarrow> demux_step e f \<Longrightarrow> demux_reach d f"

section \<open>Names\<close>

definition channel_prefix :: string where "channel_prefix = ''pqchan_''"

text \<open>\<^verbatim>\<open>^[A-Za-z0-9_]+$\<close>\<close>

definition name_valid :: "string \<Rightarrow> bool" where
  "name_valid name \<longleftrightarrow> name \<noteq> [] \<and> list_all (\<lambda>c. is_upper_letter c \<or> is_lower_letter c \<or> is_digit c \<or> c = CHR ''_'') name"

definition name_error :: string where
  "name_error = ''invalid channel name, must match ^[A-Za-z0-9_]+$''"

text \<open>\<^verbatim>\<open>Send\<close>: an error, or the channel and the payload of the notification; \<open>marshal\<close> is the JSON encoder.\<close>

definition pq_send :: "('a \<Rightarrow> string + string) \<Rightarrow> (string \<Rightarrow> string \<Rightarrow> string option) \<Rightarrow> string \<Rightarrow> 'a
    \<Rightarrow> string option \<times> (string \<times> string) option" where
  "pq_send marshal notify name value =
     (if \<not> name_valid name then (Some name_error, None)
      else (case marshal value of
          Inl e \<Rightarrow> (Some e, None)
        | Inr js \<Rightarrow> (notify (channel_prefix @ name) js, Some (channel_prefix @ name, js))))"

section \<open>Outputs and the manager\<close>

text \<open>
  The outputs by name, the buffered signal that the names have changed, and the listener: starting
  (its list of names not yet read), or listening on the names it has read.
\<close>

datatype listener = ListenerStarting | Listening "string list"

record pq_state =
  pq_outputs :: "(string \<times> string demux) list"
  pq_changed :: bool
  pq_listener :: listener

definition pq_init :: pq_state where
  "pq_init = \<lparr>pq_outputs = [], pq_changed = False, pq_listener = ListenerStarting\<rparr>"

definition get_mux_for_name :: "string \<Rightarrow> pq_state \<Rightarrow> string demux \<times> pq_state" where
  "get_mux_for_name name s =
     (case map_of (pq_outputs s) name of
        Some m \<Rightarrow> (m, s)
      | None \<Rightarrow> (let m = new_demux False 5 in (m, s\<lparr>pq_outputs := (name, m) # pq_outputs s, pq_changed := True\<rparr>)))"

definition pq_receive :: "string \<Rightarrow> pq_state \<Rightarrow> string option \<times> pq_state" where
  "pq_receive name s = (if \<not> name_valid name then (Some name_error, s) else (None, snd (get_mux_for_name name s)))"

text \<open>\<^verbatim>\<open>broadcastNotification\<close>: the output that gets the payload, if there is one.\<close>

definition broadcast_target :: "string \<Rightarrow> pq_state \<Rightarrow> string option" where
  "broadcast_target channel s =
     (let name = trim_prefix channel channel_prefix
      in if map_of (pq_outputs s) name = None then None else Some name)"

definition setup_listens :: "pq_state \<Rightarrow> pq_state" where
  "setup_listens s = s\<lparr>pq_listener := Listening (map fst (pq_outputs s))\<rparr>"

inductive pq_step :: "pq_state \<Rightarrow> pq_state \<Rightarrow> bool" where
  pq_receives: "pq_receive name s = (None, s') \<Longrightarrow> pq_step s s'"
| pq_listens: "pq_listener s = ListenerStarting \<Longrightarrow> pq_step s (setup_listens s)"
| pq_listener_fails: "pq_step s (s\<lparr>pq_listener := ListenerStarting\<rparr>)"
| pq_restarts: "pq_changed s \<Longrightarrow> pq_step s (s\<lparr>pq_changed := False, pq_listener := ListenerStarting\<rparr>)"

inductive pq_reach :: "pq_state \<Rightarrow> pq_state \<Rightarrow> bool" for s where
  pq_refl: "pq_reach s s"
| pq_trans: "pq_reach s t \<Longrightarrow> pq_step t u \<Longrightarrow> pq_reach s u"

section \<open>Facts on the fan-out\<close>

text \<open>
  Every open pipe has a distinct identity that is not closed, its receiver waits only on an empty
  buffer, and (when no value may be dropped) it got or holds the values sent since it was made, except
  one that is just being sent and has not come to it.
\<close>

definition pipe_seen :: "'v pipe \<Rightarrow> 'v list" where
  "pipe_seen p = pp_got p @ pp_buffer p"

definition due_values :: "'v demux \<Rightarrow> 'v pipe \<Rightarrow> 'v list" where
  "due_values d p =
     (case dm_lock d of
        Unlocked \<Rightarrow> drop (pp_since p) (dm_sent d)
      | SendingTo v cs \<Rightarrow> if pp_id p \<in> set cs then drop (pp_since p) (butlast (dm_sent d)) else drop (pp_since p) (dm_sent d))"

definition lock_ok :: "'v demux \<Rightarrow> bool" where
  "lock_ok d \<longleftrightarrow> (case dm_lock d of
     Unlocked \<Rightarrow> True
   | SendingTo v cs \<Rightarrow> distinct cs \<and> set cs \<subseteq> pp_id ` set (dm_outputs d) \<and> dm_sent d \<noteq> [] \<and> last (dm_sent d) = v
       \<and> (\<forall>p\<in>set (dm_outputs d). pp_since p < length (dm_sent d)))"

definition demux_inv :: "'v demux \<Rightarrow> bool" where
  "demux_inv d \<longleftrightarrow> distinct (map pp_id (dm_outputs d))
     \<and> (\<forall>p\<in>set (dm_outputs d). pp_id p < dm_made d \<and> pp_id p \<notin> set (dm_closed d) \<and> length (pp_buffer p) \<le> dm_buffer d
          \<and> (pp_waiting p \<longrightarrow> pp_buffer p = []) \<and> pp_since p \<le> length (dm_sent d)
          \<and> (\<not> dm_lossy d \<longrightarrow> pipe_seen p = due_values d p))
     \<and> (\<forall>c\<in>set (dm_closed d). c < dm_made d) \<and> lock_ok d"

lemmas demux_defs = demux_receive_def remove_output_def on_pipe_def pipe_seen_def due_values_def lock_ok_def

lemma inv_new: "demux_inv (new_demux lossy buffer)"
  by (simp add: demux_inv_def new_demux_def lock_ok_def)

lemma map_on_pipe_ids: "(\<And>p. pp_id (f p) = pp_id p) \<Longrightarrow> map pp_id (map (\<lambda>p. if pp_id p = c then f p else p) ps) = map pp_id ps"
  by (induction ps) auto

lemma on_pipe_fields [simp]:
  "dm_lock (on_pipe c f d) = dm_lock d" "dm_lossy (on_pipe c f d) = dm_lossy d" "dm_buffer (on_pipe c f d) = dm_buffer d"
  "dm_sent (on_pipe c f d) = dm_sent d" "dm_made (on_pipe c f d) = dm_made d" "dm_closed (on_pipe c f d) = dm_closed d"
  by (simp_all add: on_pipe_def)

lemma on_pipe_mem: "q \<in> set (dm_outputs (on_pipe c f d)) \<longleftrightarrow> (\<exists>p\<in>set (dm_outputs d). q = (if pp_id p = c then f p else p))"
  by (simp add: on_pipe_def image_iff del: if_image_distrib)

lemma on_pipe_img:
  assumes "\<And>p. pp_id (f p) = pp_id p"
  shows "map pp_id (dm_outputs (on_pipe c f d)) = map pp_id (dm_outputs d)"
    "pp_id ` set (dm_outputs (on_pipe c f d)) = pp_id ` set (dm_outputs d)"
proof -
  show m: "map pp_id (dm_outputs (on_pipe c f d)) = map pp_id (dm_outputs d)"
    by (simp add: on_pipe_def map_on_pipe_ids[of f c, OF assms, simplified])
  show "pp_id ` set (dm_outputs (on_pipe c f d)) = pp_id ` set (dm_outputs d)"
    using arg_cong[OF m, of set] by simp
qed

text \<open>The part of the invariant about one pipe.\<close>

definition pipe_ok :: "'v demux \<Rightarrow> 'v pipe \<Rightarrow> bool" where
  "pipe_ok d p \<longleftrightarrow> pp_id p < dm_made d \<and> pp_id p \<notin> set (dm_closed d) \<and> length (pp_buffer p) \<le> dm_buffer d
     \<and> (pp_waiting p \<longrightarrow> pp_buffer p = []) \<and> pp_since p \<le> length (dm_sent d)
     \<and> (\<not> dm_lossy d \<longrightarrow> pipe_seen p = due_values d p)"

lemma demux_inv_iff:
  "demux_inv d \<longleftrightarrow> distinct (map pp_id (dm_outputs d)) \<and> (\<forall>p\<in>set (dm_outputs d). pipe_ok d p)
     \<and> (\<forall>c\<in>set (dm_closed d). c < dm_made d) \<and> lock_ok d"
  by (simp add: demux_inv_def pipe_ok_def)

lemma pipe_push_id [simp]: "pp_id (pipe_push v p) = pp_id p" "pp_since (pipe_push v p) = pp_since p"
  by (simp_all add: pipe_push_def)

lemma pipe_pull_id [simp]: "pp_id (pipe_pull p) = pp_id p" "pp_since (pipe_pull p) = pp_since p"
  by (simp_all add: pipe_pull_def split: list.split)

lemma pipe_of_mem: "pipe_of c d = Some p \<Longrightarrow> p \<in> set (dm_outputs d) \<and> pp_id p = c"
  by (auto simp: pipe_of_def find_Some_iff)

lemma pipe_of_unique: "demux_inv d \<Longrightarrow> p \<in> set (dm_outputs d) \<Longrightarrow> pipe_of (pp_id p) d = Some p"
proof -
  assume "demux_inv d" "p \<in> set (dm_outputs d)"
  then have dis: "inj_on pp_id (set (dm_outputs d))" by (simp add: demux_inv_def distinct_map)
  have "find (\<lambda>q. pp_id q = pp_id p) (dm_outputs d) \<noteq> None"
    using \<open>p \<in> set (dm_outputs d)\<close> by (auto simp: find_None_iff)
  then obtain q where q: "pipe_of (pp_id p) d = Some q" by (auto simp: pipe_of_def)
  with pipe_of_mem[OF q] dis \<open>p \<in> set (dm_outputs d)\<close> show ?thesis by (auto dest: inj_onD)
qed

lemma pipe_push_seen:
  "(pp_waiting p \<longrightarrow> pp_buffer p = []) \<Longrightarrow> pipe_seen (pipe_push v p) = pipe_seen p @ [v]
    \<and> (pp_waiting (pipe_push v p) \<longrightarrow> pp_buffer (pipe_push v p) = [])"
  by (auto simp: pipe_seen_def pipe_push_def)

lemma pipe_pull_seen:
  "pipe_seen (pipe_pull p) = pipe_seen p" "length (pp_buffer (pipe_pull p)) \<le> length (pp_buffer p)"
  "(pp_waiting p \<longrightarrow> pp_buffer p = []) \<Longrightarrow> pp_waiting (pipe_pull p) \<longrightarrow> pp_buffer (pipe_pull p) = []"
  by (auto simp: pipe_seen_def pipe_pull_def split: list.splits)

text \<open>Each step preserves the invariant.\<close>

lemma inv_start:
  assumes "demux_inv d" "dm_lock d = Unlocked"
  shows "demux_inv (d\<lparr>dm_lock := SendingTo v (map pp_id (dm_outputs d)), dm_sent := dm_sent d @ [v]\<rparr>)"
  using assms by (auto simp: demux_inv_def lock_ok_def due_values_def)

lemma inv_end:
  assumes "demux_inv d" "dm_lock d = SendingTo v []"
  shows "demux_inv (d\<lparr>dm_lock := Unlocked\<rparr>)"
  using assms by (auto simp: demux_inv_def lock_ok_def due_values_def)

lemma inv_receive:
  assumes "demux_inv d" "dm_lock d = Unlocked"
  shows "demux_inv (demux_receive d)"
  using assms by (fastforce simp: demux_inv_def lock_ok_def due_values_def demux_receive_def pipe_seen_def)

lemma inv_remove:
  assumes "demux_inv d" "dm_lock d = Unlocked" "c \<in> set (map pp_id (dm_outputs d))"
  shows "demux_inv (remove_output c d)"
proof -
  have "distinct (map pp_id (filter (\<lambda>p. pp_id p \<noteq> c) (dm_outputs d)))"
    using assms(1) by (simp add: demux_inv_def distinct_map inj_on_def)
  with assms show ?thesis by (auto simp: demux_inv_def lock_ok_def due_values_def remove_output_def)
qed

lemma inv_pull:
  assumes "demux_inv d" "pipe_of c d = Some p"
  shows "demux_inv (on_pipe c pipe_pull d)"
proof -
  let ?d = "on_pipe c pipe_pull d"
  have i: "distinct (map pp_id (dm_outputs d))" "\<And>q. q \<in> set (dm_outputs d) \<Longrightarrow> pipe_ok d q" "lock_ok d"
    "\<forall>c\<in>set (dm_closed d). c < dm_made d" using assms(1) by (simp_all add: demux_inv_iff)
  have "lock_ok ?d"
    using i(3) by (auto simp: lock_ok_def on_pipe_mem on_pipe_img(2)[of pipe_pull] split: demux_lock.splits)
  moreover have due: "due_values ?d q = due_values d q" for q by (simp add: due_values_def split: demux_lock.split)
  moreover have "due_values d (pipe_pull q) = due_values d q" for q by (simp add: due_values_def split: demux_lock.split)
  then have "pipe_ok d (pipe_pull q)" if "pipe_ok d q" for q
    using that pipe_pull_seen[of q] by (auto simp: pipe_ok_def)
  then have "pipe_ok d q" if "q \<in> set (dm_outputs ?d)" for q
    using that i(2) unfolding on_pipe_mem by (metis (full_types))
  moreover have "pipe_ok ?d q = pipe_ok d q" for q by (simp add: pipe_ok_def due)
  ultimately show ?thesis using i by (simp add: demux_inv_iff on_pipe_img(1))
qed

lemma drop_last_sent: "xs \<noteq> [] \<Longrightarrow> n < length xs \<Longrightarrow> drop n xs = drop n (butlast xs) @ [last xs]"
  by (induction xs rule: rev_induct) simp_all

lemma inv_send:
  assumes "demux_inv d" "dm_lock d = SendingTo v (c # cs)" "send_turn v c cs d = Some d'"
  shows "demux_inv d'"
proof -
  from assms(3) obtain p where p: "pipe_of c d = Some p" by (auto simp: send_turn_def split: option.splits)
  have i: "distinct (map pp_id (dm_outputs d))" "\<And>q. q \<in> set (dm_outputs d) \<Longrightarrow> pipe_ok d q"
    "\<forall>c\<in>set (dm_closed d). c < dm_made d" using assms(1) by (simp_all add: demux_inv_iff)
  have lk: "distinct (c # cs)" "set (c # cs) \<subseteq> pp_id ` set (dm_outputs d)" "dm_sent d \<noteq> []" "last (dm_sent d) = v"
    "\<And>q. q \<in> set (dm_outputs d) \<Longrightarrow> pp_since q < length (dm_sent d)"
    using assms(1,2) by (auto simp: demux_inv_def lock_ok_def)
  let ?l = "d\<lparr>dm_lock := SendingTo v cs\<rparr>"
  have other: "pipe_ok ?l q" if "q \<in> set (dm_outputs d)" "pp_id q \<noteq> c \<or> dm_lossy d" for q
    using i(2)[OF that(1)] that(2) by (auto simp: pipe_ok_def due_values_def assms(2))
  show ?thesis
  proof (cases "pipe_ready (dm_buffer d) p")
    case True
    then have d': "d' = on_pipe c (pipe_push v) ?l" using assms(3) p by (simp add: send_turn_def)
    have "lock_ok d'"
      using lk by (auto simp: lock_ok_def d' on_pipe_mem on_pipe_img(2)[of "pipe_push v"])
    moreover have "pipe_ok d' q'" if "q' \<in> set (dm_outputs d')" for q'
    proof -
      from that obtain q where q: "q \<in> set (dm_outputs d)" "q' = (if pp_id q = c then pipe_push v q else q)"
        by (auto simp: d' on_pipe_mem)
      have due: "due_values d' r = (if pp_id r \<in> set cs then drop (pp_since r) (butlast (dm_sent d)) else drop (pp_since r) (dm_sent d))" for r
        by (simp add: due_values_def d')
      show ?thesis
      proof (cases "pp_id q = c")
        case False
        with i(2)[OF q(1)] q(2) show ?thesis unfolding pipe_ok_def due by (auto simp: due_values_def assms(2) d')
      next
        case True'[simp]: True
        then have "q = p" using pipe_of_unique[OF assms(1) q(1)] p by simp
        with True have "length (pp_buffer (pipe_push v q)) \<le> dm_buffer d"
          using i(2)[OF q(1)] by (auto simp: pipe_ready_def pipe_push_def pipe_ok_def)
        moreover have "\<not> dm_lossy d \<Longrightarrow> pipe_seen (pipe_push v q) = due_values d' (pipe_push v q)"
          using i(2)[OF q(1)] pipe_push_seen[of q v] lk(1) drop_last_sent[OF lk(3) lk(5)[OF q(1)]] lk(4)
          unfolding due by (auto simp: pipe_ok_def due_values_def assms(2))
        ultimately show ?thesis using i(2)[OF q(1)] pipe_push_seen[of q v] q(2)
          unfolding pipe_ok_def due by (auto simp: d')
      qed
    qed
    ultimately show ?thesis using i by (simp add: demux_inv_iff d' on_pipe_img(1)[of "pipe_push v"])
  next
    case False
    then have d': "d' = ?l" "dm_lossy d" using assms(3) p by (auto simp: send_turn_def split: if_splits)
    have "lock_ok d'" using lk by (auto simp: lock_ok_def d')
    with i other d' show ?thesis by (simp add: demux_inv_iff)
  qed
qed

lemma demux_step_inv: "demux_step d e \<Longrightarrow> demux_inv d \<Longrightarrow> demux_inv e"
  by (induction rule: demux_step.induct) (blast intro: inv_start inv_send inv_end inv_receive inv_remove inv_pull)+

lemma demux_reach_inv: "demux_reach (new_demux lossy buffer) d \<Longrightarrow> demux_inv d"
  by (induction rule: demux_reach.induct) (auto intro: inv_new demux_step_inv)

lemma demux_step_lossy: "demux_step d e \<Longrightarrow> dm_lossy e = dm_lossy d \<and> dm_buffer e = dm_buffer d"
  by (induction rule: demux_step.induct)
    (auto simp: send_turn_def on_pipe_def demux_receive_def remove_output_def split: option.splits if_splits)

lemma demux_reach_lossy: "demux_reach d e \<Longrightarrow> dm_lossy e = dm_lossy d \<and> dm_buffer e = dm_buffer d"
  by (induction rule: demux_reach.induct) (auto dest: demux_step_lossy)

section \<open>Properties\<close>

text \<open>
  C23: however sends, new receivers, cancellations and reads interleave, between sends every receiver of
  a demux that may not drop values has got, or has in its buffer, exactly the values sent since it
  subscribed, in order; buffers never exceed their length, a send never touches a closed channel, and
  with dropping allowed a send is never blocked.
\<close>

theorem demux_delivery:
  assumes "demux_reach (new_demux lossy buffer) d"
  shows "(\<not> lossy \<and> dm_lock d = Unlocked \<longrightarrow>
        (\<forall>p\<in>set (dm_outputs d). pp_got p @ pp_buffer p = drop (pp_since p) (dm_sent d)))
    \<and> (\<forall>p\<in>set (dm_outputs d). length (pp_buffer p) \<le> buffer)
    \<and> (\<forall>v c cs. dm_lock d = SendingTo v (c # cs) \<longrightarrow> c \<notin> set (dm_closed d)
        \<and> (lossy \<longrightarrow> (\<exists>e. send_turn v c cs d = Some e \<and> demux_step d e)))"
proof -
  have inv: "demux_inv d" and mode: "dm_lossy d = lossy" "dm_buffer d = buffer"
    using demux_reach_inv[OF assms] demux_reach_lossy[OF assms] by (simp_all add: new_demux_def)
  have "c \<notin> set (dm_closed d) \<and> (lossy \<longrightarrow> (\<exists>e. send_turn v c cs d = Some e \<and> demux_step d e))"
    if l: "dm_lock d = SendingTo v (c # cs)" for v c cs
  proof -
    from inv l obtain p where p: "p \<in> set (dm_outputs d)" "pp_id p = c" by (auto simp: demux_inv_def lock_ok_def)
    with inv have "c \<notin> set (dm_closed d)" by (auto simp: demux_inv_def)
    moreover have "\<exists>e. send_turn v c cs d = Some e" if lossy
      using pipe_of_unique[OF inv p(1)] p(2) mode that by (simp add: send_turn_def)
    ultimately show ?thesis using send_next[OF l] by blast
  qed
  with inv mode show ?thesis by (auto simp: demux_inv_def pipe_seen_def due_values_def)
qed

definition sample_demux :: "nat demux" where
  "sample_demux = (demux_receive (new_demux False 1))\<lparr>dm_lock := SendingTo 7 [0], dm_sent := [7]\<rparr>"

lemma sample_demux_reach: "demux_reach (new_demux False 1) sample_demux"
proof -
  let ?d = "new_demux False 1 :: nat demux"
  have "demux_step ?d (demux_receive ?d)" by (rule receive_new) (simp add: new_demux_def)
  moreover have "demux_step (demux_receive ?d) sample_demux"
    using send_start[of "demux_receive ?d" 7] by (simp add: sample_demux_def demux_receive_def new_demux_def)
  ultimately show ?thesis by (meson demux_refl demux_trans)
qed

lemma sample_demux_served:
  "demux_reach (new_demux False 1) ((on_pipe 0 (pipe_push 7) sample_demux)\<lparr>dm_lock := Unlocked\<rparr>)"
proof -
  let ?e = "on_pipe 0 (pipe_push 7) (sample_demux\<lparr>dm_lock := SendingTo 7 []\<rparr>)"
  have "demux_step sample_demux ?e"
    by (rule send_next[of _ 7 0 "[]"])
      (simp_all add: sample_demux_def send_turn_def pipe_of_def demux_receive_def new_demux_def pipe_ready_def)
  moreover have "demux_step ?e (?e\<lparr>dm_lock := Unlocked\<rparr>)" by (rule send_end[of _ 7]) simp
  moreover have "?e\<lparr>dm_lock := Unlocked\<rparr> = (on_pipe 0 (pipe_push 7) sample_demux)\<lparr>dm_lock := Unlocked\<rparr>"
    by (simp add: on_pipe_def)
  ultimately show ?thesis using sample_demux_reach by (metis demux_trans)
qed

lemma demux_delivery_witness:
  "\<exists>d :: nat demux. demux_reach (new_demux False 1) d \<and> dm_sent d = [7]
     \<and> (\<forall>p\<in>set (dm_outputs d). pp_got p @ pp_buffer p = drop (pp_since p) [7]) \<and> dm_outputs d \<noteq> []"
proof -
  let ?d = "(on_pipe 0 (pipe_push 7) sample_demux)\<lparr>dm_lock := Unlocked\<rparr>"
  have "dm_lock ?d = Unlocked" "dm_sent ?d = [7]" "dm_outputs ?d \<noteq> []"
    by (simp_all add: sample_demux_def on_pipe_def demux_receive_def new_demux_def)
  with demux_delivery[OF sample_demux_served] sample_demux_served show ?thesis by (intro exI[of _ ?d]) auto
qed

text \<open>
  A send that waits for a full pipe holds the mutex.  Until that very receiver reads - which it no
  longer does once its context is done - nothing but reads of other receivers happens: no other
  value is sent, nobody subscribes, and the removal of the pipe itself waits for the mutex.
\<close>

definition stuck_on :: "nat \<Rightarrow> 'v demux \<Rightarrow> bool" where
  "stuck_on c d \<longleftrightarrow> \<not> dm_lossy d \<and> (\<exists>v cs. dm_lock d = SendingTo v (c # cs)) \<and> (\<exists>p. pipe_of c d = Some p \<and> \<not> pipe_ready (dm_buffer d) p)"

lemma pipe_of_other: "c \<noteq> b \<Longrightarrow> (\<And>p. pp_id (f p) = pp_id p) \<Longrightarrow> pipe_of c (on_pipe b f d) = pipe_of c d"
proof -
  assume f: "c \<noteq> b" "\<And>p. pp_id (f p) = pp_id p"
  have "find (\<lambda>p. pp_id p = c) (map (\<lambda>p. if pp_id p = b then f p else p) ps) = find (\<lambda>p. pp_id p = c) ps" for ps
    using f by (induction ps) auto
  then show ?thesis by (simp add: pipe_of_def on_pipe_def)
qed

lemma full_pipe_wedges_demux:
  assumes "stuck_on c d" "demux_step d e"
  shows "e = on_pipe c pipe_pull d \<or> stuck_on c e \<and> dm_sent e = dm_sent d \<and> dm_made e = dm_made d \<and> dm_closed e = dm_closed d"
  using assms(2)
proof cases
  case (receiver_pulls b p)
  show ?thesis
  proof (cases "b = c")
    case False
    with assms(1) show ?thesis using receiver_pulls(1) pipe_of_other[of c b pipe_pull d] by (simp add: stuck_on_def)
  qed (simp add: receiver_pulls)
next
  case (send_next v b cs)
  then show ?thesis using assms(1) by (auto simp: stuck_on_def send_turn_def)
qed (use assms(1) in \<open>auto simp: stuck_on_def\<close>)

lemma wedged_demux_reachable:
  "\<exists>d :: nat demux. demux_reach (new_demux False 1) d \<and> stuck_on 0 d"
proof -
  let ?d = "(on_pipe 0 (pipe_push 7) sample_demux)\<lparr>dm_lock := Unlocked\<rparr>"
  let ?e = "?d\<lparr>dm_lock := SendingTo 8 (map pp_id (dm_outputs ?d)), dm_sent := dm_sent ?d @ [8]\<rparr>"
  have "demux_step ?d ?e" by (rule send_start) simp
  with sample_demux_served have "demux_reach (new_demux False 1) ?e" by (rule demux_trans)
  moreover have "stuck_on 0 ?e"
    by (simp add: stuck_on_def sample_demux_def on_pipe_def demux_receive_def new_demux_def pipe_of_def pipe_ready_def pipe_push_def)
  ultimately show ?thesis by blast
qed

text \<open>Names: a notification finds exactly the output it was sent to.\<close>

lemma trim_channel: "trim_prefix (channel_prefix @ name) channel_prefix = name"
  by (simp add: trim_prefix_def)

definition pq_inv :: "pq_state \<Rightarrow> bool" where
  "pq_inv s \<longleftrightarrow> (\<forall>name\<in>fst ` set (pq_outputs s). name_valid name
     \<and> (\<forall>L. pq_listener s = Listening L \<longrightarrow> name \<in> set L \<or> pq_changed s))"

lemma pq_step_inv: "pq_step s t \<Longrightarrow> pq_inv s \<Longrightarrow> pq_inv t"
proof (induction rule: pq_step.induct)
  case (pq_receives name s s')
  then show ?case
    by (auto simp: pq_receive_def get_mux_for_name_def pq_inv_def Let_def split: if_splits option.splits)
qed (auto simp: pq_inv_def setup_listens_def)

lemma pq_reach_inv: "pq_reach pq_init s \<Longrightarrow> pq_inv s"
  by (induction rule: pq_reach.induct) (auto simp: pq_step_inv, simp add: pq_inv_def pq_init_def)

lemma pq_reach_grows: "pq_reach s t \<Longrightarrow> fst ` set (pq_outputs s) \<subseteq> fst ` set (pq_outputs t)"
proof (induction rule: pq_reach.induct)
  case (pq_trans t u)
  from pq_trans.hyps(2) have "fst ` set (pq_outputs t) \<subseteq> fst ` set (pq_outputs u)"
    by cases (auto simp: pq_receive_def get_mux_for_name_def Let_def setup_listens_def split: if_splits option.splits)
  with pq_trans.IH show ?case by blast
qed simp

inductive_cases pq_stepE: "pq_step s t"



end
