(* ===== verification/FnRouter.thy ===== *)
theory FnRouter
  imports HttpAuth ApiVersion
begin

text \<open>
  Package \<^verbatim>\<open>res/r\<close>: routes with options.  Handlers are functions on a state, which holds the rate
  limiters that the middlewares have made (a middleware keeps a reference, here the place in the
  list) and the application's own state.  A responder is the list of calls it makes on the response
  writer, so that a wrapper around the writer sees them one by one.
\<close>

section \<open>Handlers and responders\<close>

record fn_request =
  fq_http :: http_request
  fq_auth :: auth_ctx
  fq_ip :: "string option"
  fq_ver :: "ver option"

datatype writer_call = CallHeader string string | CallWriteHeader int | CallWrite string

text \<open>\<open>Spied\<close> is \<^verbatim>\<open>statusCodeSpyResponder\<close>, with the limiter and the key its callback refers to.\<close>

datatype fn_responder = Calls "http_request \<Rightarrow> writer_call list \<times> panic_value option"
  | Spied fn_responder nat string

record 'a fn_state =
  fs_now :: gotime
  fs_limiters :: "keyed_limiter list"
  fs_app :: 'a

type_synonym 'a fn_handler = "fn_request \<Rightarrow> 'a fn_state \<Rightarrow> (panic_value + fn_responder) \<times> 'a fn_state"

text \<open>The calls of a responder that carries a status and data.\<close>

definition data_calls :: "res_lib \<Rightarrow> int \<Rightarrow> res_data \<Rightarrow> writer_call list" where
  "data_calls lib status d =
     [CallHeader ''Content-Type'' ''application/json'', CallWriteHeader status] @
     (if body_allowed_for_status status then (case rl_encode lib d of Some b \<Rightarrow> [CallWrite b] | None \<Rightarrow> []) else [])"

definition data_responder :: "res_lib \<Rightarrow> int \<Rightarrow> res_data \<Rightarrow> fn_responder" where
  "data_responder lib status d = Calls (\<lambda>_. (data_calls lib status d, None))"

text \<open>The answers of the middlewares, \<^const>\<open>too_many_requests\<close> and \<^const>\<open>not_authorized\<close>, as such calls.\<close>

definition too_many_calls :: "res_lib \<Rightarrow> fn_responder" where
  "too_many_calls lib = data_responder lib 429 (DStr ''Too many requests'')"

definition no_role_text :: string where
  "no_role_text = ''Doesn'' @ [CHR 0x27] @ ''t have required role''"

definition no_role_calls :: "res_lib \<Rightarrow> fn_responder" where
  "no_role_calls lib =
     data_responder lib 401 (error_data ''not authorized'' [] (''not authorized'' @ '': '' @ no_role_text) (DList [DStr no_role_text]))"

section \<open>The writer that watches the status\<close>

record spy =
  sp_limiter :: nat
  sp_key :: string
  sp_written :: bool

text \<open>The callback \<^verbatim>\<open>onStatusCode\<close> of \<^verbatim>\<open>RateLimitErr\<close>.\<close>

definition on_status_code :: "gotime \<Rightarrow> nat \<Rightarrow> string \<Rightarrow> int \<Rightarrow> keyed_limiter list \<Rightarrow> keyed_limiter list" where
  "on_status_code now i key status ls =
     (if 400 \<le> status then ls[i := snd (keyed_take now key (ls ! i))] else ls)"

definition on_write :: "gotime \<Rightarrow> spy \<Rightarrow> keyed_limiter list \<Rightarrow> spy \<times> keyed_limiter list" where
  "on_write now sp ls =
     (if \<not> sp_written sp then (sp\<lparr>sp_written := True\<rparr>, on_status_code now (sp_limiter sp) (sp_key sp) 200 ls)
      else (sp, ls))"

definition on_write_header :: "gotime \<Rightarrow> int \<Rightarrow> spy \<Rightarrow> keyed_limiter list \<Rightarrow> spy \<times> keyed_limiter list" where
  "on_write_header now status sp ls =
     (sp\<lparr>sp_written := True\<rparr>, on_status_code now (sp_limiter sp) (sp_key sp) status ls)"

text \<open>A call passes the wrappers from the innermost to the outermost one and then reaches the writer.\<close>

fun intercept_call :: "gotime \<Rightarrow> writer_call \<Rightarrow> spy list \<Rightarrow> keyed_limiter list \<Rightarrow> spy list \<times> keyed_limiter list" where
  "intercept_call now c [] ls = ([], ls)"
| "intercept_call now c (sp # sps) ls =
     (case (case c of CallHeader n v \<Rightarrow> (sp, ls)
             | CallWriteHeader status \<Rightarrow> on_write_header now status sp ls
             | CallWrite b \<Rightarrow> on_write now sp ls) of
        (sp', ls1) \<Rightarrow> (case intercept_call now c sps ls1 of (sps', ls2) \<Rightarrow> (sp' # sps', ls2)))"

text \<open>The writer below; \<^const>\<open>None\<close> is the library's panic on an invalid status.\<close>

fun writer_step :: "writer_call \<Rightarrow> http_writer \<Rightarrow> http_writer option" where
  "writer_step (CallHeader n v) w = Some (set_header n v w)"
| "writer_step (CallWriteHeader status) w = write_header status w"
| "writer_step (CallWrite b) w = Some (w_write b w)"

definition invalid_code :: "writer_call \<Rightarrow> panic_value" where
  "invalid_code c =
     PanicValue (''invalid WriteHeader code '' @ (case c of CallWriteHeader status \<Rightarrow> show_int status | _ \<Rightarrow> '''')) None"

fun run_calls :: "gotime \<Rightarrow> writer_call list \<Rightarrow> spy list \<Rightarrow> http_writer \<Rightarrow> keyed_limiter list
    \<Rightarrow> panic_value option \<times> http_writer \<times> keyed_limiter list" where
  "run_calls now [] sps w ls = (None, w, ls)"
| "run_calls now (c # cs) sps w ls =
     (case intercept_call now c sps ls of
        (sps', ls1) \<Rightarrow>
          (case writer_step c w of
             None \<Rightarrow> (Some (invalid_code c), w, ls1)
           | Some w1 \<Rightarrow> run_calls now cs sps' w1 ls1))"

text \<open>\<^verbatim>\<open>Respond\<close> of the responders.\<close>

fun respond_spied :: "gotime \<Rightarrow> fn_responder \<Rightarrow> spy list \<Rightarrow> http_request \<Rightarrow> http_writer \<Rightarrow> keyed_limiter list
    \<Rightarrow> panic_value option \<times> http_writer \<times> keyed_limiter list" where
  "respond_spied now (Calls f) sps r w ls =
     (case f r of (cs, p) \<Rightarrow>
        (case run_calls now cs sps w ls of
           (Some q, w', ls') \<Rightarrow> (Some q, w', ls')
         | (None, w', ls') \<Rightarrow> (p, w', ls')))"
| "respond_spied now (Spied next i key) sps r w ls =
     respond_spied now next (\<lparr>sp_limiter = i, sp_key = key, sp_written = False\<rparr> # sps) r w ls"

section \<open>Middlewares\<close>

text \<open>The router: its routes, the authentication in front of it, and the limiters made so far.\<close>

record ('u, 'a) fn_router =
  fr_router :: "'a fn_handler endpoint router"
  fr_auth :: "'u auth_server option"
  fr_has_route :: bool
  fr_limiters :: "keyed_limiter list"

definition new_fn_router :: "('u, 'a) fn_router" where
  "new_fn_router = \<lparr>fr_router = \<lparr>rt_routes = []\<rparr>, fr_auth = None, fr_has_route = False, fr_limiters = []\<rparr>"

text \<open>A middleware may panic while the route is set up: \<^const>\<open>None\<close>.\<close>

type_synonym ('u, 'a) middleware =
  "('u, 'a) fn_router \<Rightarrow> string \<Rightarrow> string \<Rightarrow> 'a fn_handler \<Rightarrow> ('a fn_handler \<times> ('u, 'a) fn_router) option"

definition client_key :: "fn_request \<Rightarrow> string" where
  "client_key rq = key_from_request (fq_ip rq) (hr_remote_addr (fq_http rq))"

definition guard_handler :: "res_lib \<Rightarrow> role \<Rightarrow> 'a fn_handler \<Rightarrow> 'a fn_handler" where
  "guard_handler lib rl next rq s =
     (if has_role (fq_auth rq) rl then next rq s else (Inr (no_role_calls lib), s))"

text \<open>\<^verbatim>\<open>RequireRole\<close>: without authentication, only the exemption of a public route touches the nil router.\<close>

definition require_role_mw :: "res_lib \<Rightarrow> role \<Rightarrow> ('u, 'a) middleware" where
  "require_role_mw lib rl rt method path next =
     (if rl = role_public
      then (case fr_auth rt of
              None \<Rightarrow> None
            | Some a \<Rightarrow> Some (next, rt\<lparr>fr_auth := Some (a\<lparr>as_ignore_routes := as_ignore_routes a @ [path]\<rparr>)\<rparr>))
      else Some (guard_handler lib rl next, rt))"

definition set_limiter :: "nat \<Rightarrow> keyed_limiter \<Rightarrow> 'a fn_state \<Rightarrow> 'a fn_state" where
  "set_limiter i l s = s\<lparr>fs_limiters := (fs_limiters s)[i := l]\<rparr>"

definition rate_limit_handler :: "res_lib \<Rightarrow> nat \<Rightarrow> 'a fn_handler \<Rightarrow> 'a fn_handler" where
  "rate_limit_handler lib i next rq s =
     (case keyed_take (fs_now s) (client_key rq) (fs_limiters s ! i) of
        (Some e, l) \<Rightarrow> (Inr (too_many_calls lib), set_limiter i l s)
      | (None, l) \<Rightarrow> next rq (set_limiter i l s))"

definition rate_limit_err_handler :: "res_lib \<Rightarrow> nat \<Rightarrow> 'a fn_handler \<Rightarrow> 'a fn_handler" where
  "rate_limit_err_handler lib i next rq s =
     (let key = client_key rq
      in case keyed_is_limited (fs_now s) key (fs_limiters s ! i) of
           (Some e, l) \<Rightarrow> (Inr (too_many_calls lib), set_limiter i l s)
         | (None, l) \<Rightarrow>
             (case next rq (set_limiter i l s) of
                (Inl p, s') \<Rightarrow> (Inl p, s')
              | (Inr resp, s') \<Rightarrow> (Inr (Spied resp i key), s')))"

text \<open>Applying a rate limiting middleware makes its limiter.\<close>

definition rate_limit_mw :: "res_lib \<Rightarrow> int \<Rightarrow> int \<Rightarrow> ('u, 'a) middleware" where
  "rate_limit_mw lib n window rt method path next =
     Some (rate_limit_handler lib (length (fr_limiters rt)) next,
           rt\<lparr>fr_limiters := fr_limiters rt @ [new_keyed n window]\<rparr>)"

definition rate_limit_err_mw :: "res_lib \<Rightarrow> int \<Rightarrow> int \<Rightarrow> ('u, 'a) middleware" where
  "rate_limit_err_mw lib n window rt method path next =
     Some (rate_limit_err_handler lib (length (fr_limiters rt)) next,
           rt\<lparr>fr_limiters := fr_limiters rt @ [new_keyed n window]\<rparr>)"

section \<open>Versioned handlers\<close>

record 'a versioned_handler =
  vh_default :: bool
  vh_version :: string
  vh_value :: "'a fn_handler"

definition default_version :: "'a fn_handler \<Rightarrow> 'a versioned_handler" where
  "default_version h = \<lparr>vh_default = True, vh_version = [], vh_value = h\<rparr>"

definition version_handler :: "string \<Rightarrow> 'a fn_handler \<Rightarrow> 'a versioned_handler" where
  "version_handler n h = \<lparr>vh_default = False, vh_version = n, vh_value = h\<rparr>"

text \<open>The loop over the handlers: the versions seen so far, and the default handler.\<close>

fun versioned_scan :: "string list \<Rightarrow> 'a versioned_handler option \<Rightarrow> 'a versioned_handler list
    \<Rightarrow> string + 'a versioned_handler option" where
  "versioned_scan uniq dflt [] = Inr dflt"
| "versioned_scan uniq dflt (h # hs) =
     (if vh_version h \<in> set uniq then Inl (''Version '' @ vh_version h @ '' already exists'')
      else versioned_scan (vh_version h # uniq) (if vh_default h then Some h else dflt) hs)"

definition nil_panic :: panic_value where
  "nil_panic = PanicError (OtherError ''runtime error: invalid memory address or nil pointer dereference'' None None)"

text \<open>A request without a version in its context panics: \<^verbatim>\<open>APIVersion\<close> is a nil pointer then.\<close>

definition versioned_serve :: "res_lib \<Rightarrow> 'a versioned_handler list \<Rightarrow> 'a versioned_handler option \<Rightarrow> 'a fn_handler" where
  "versioned_serve lib hs dflt rq s =
     (case current_version (fq_ver rq) of
        None \<Rightarrow> (Inl nil_panic, s)
      | Some v \<Rightarrow>
          (case find (\<lambda>h. vh_version h = ver_string v) hs of
             Some h \<Rightarrow> vh_value h rq s
           | None \<Rightarrow>
               (case dflt of
                  Some h \<Rightarrow> vh_value h rq s
                | None \<Rightarrow> (Inr (data_responder lib 404 (DStr ''No handler for that api-version'')), s))))"

definition versioned :: "res_lib \<Rightarrow> 'a versioned_handler list \<Rightarrow> string + 'a fn_handler" where
  "versioned lib hs =
     (case versioned_scan [] None hs of Inl e \<Rightarrow> Inl e | Inr dflt \<Rightarrow> Inr (versioned_serve lib hs dflt))"

section \<open>Routes\<close>

text \<open>A route under construction: the router, the method, the path and the middlewares so far.\<close>

record ('u, 'a) configure =
  cf_router :: "('u, 'a) fn_router"
  cf_method :: string
  cf_path :: string
  cf_next :: "('u, 'a) middleware list"

definition fn_route :: "('u, 'a) fn_router \<Rightarrow> string \<Rightarrow> string \<Rightarrow> ('u, 'a) configure" where
  "fn_route rt method path =
     \<lparr>cf_router = rt\<lparr>fr_has_route := True\<rparr>, cf_method = method, cf_path = path, cf_next = []\<rparr>"

definition fn_get :: "('u, 'a) fn_router \<Rightarrow> string \<Rightarrow> ('u, 'a) configure" where
  "fn_get rt path = fn_route rt ''GET'' path"

definition configure_add :: "('u, 'a) middleware \<Rightarrow> ('u, 'a) configure \<Rightarrow> ('u, 'a) configure" where
  "configure_add next c = c\<lparr>cf_next := cf_next c @ [next]\<rparr>"

fun apply_middlewares :: "('u, 'a) middleware list \<Rightarrow> ('u, 'a) fn_router \<Rightarrow> string \<Rightarrow> string \<Rightarrow> 'a fn_handler
    \<Rightarrow> ('a fn_handler \<times> ('u, 'a) fn_router) option" where
  "apply_middlewares [] rt method path h = Some (h, rt)"
| "apply_middlewares (cfg # cfgs) rt method path h =
     (case cfg rt method path h of
        None \<Rightarrow> None
      | Some (h', rt') \<Rightarrow> apply_middlewares cfgs rt' method path h')"

definition configure_handler :: "'a fn_handler \<Rightarrow> ('u, 'a) configure \<Rightarrow> ('u, 'a) fn_router option" where
  "configure_handler h c =
     (case apply_middlewares (cf_next c) (cf_router c) (cf_method c) (cf_path c) h of
        None \<Rightarrow> None
      | Some (h', rt) \<Rightarrow>
          map_option (\<lambda>r. rt\<lparr>fr_router := r\<rparr>) (route (cf_method c) (cf_path c) (AppEndpoint None h') (fr_router rt)))"

text \<open>The options of \<^verbatim>\<open>Add\<close>: a list of options, a handler, a role, a middleware, or a value of another type.\<close>

datatype ('u, 'a) route_config = CfgList "('u, 'a) route_config list"
  | CfgHandler "'a fn_handler"
  | CfgRole role
  | CfgMiddleware "('u, 'a) middleware"
  | CfgOther string

record ('u, 'a) add_state =
  ad_role :: role
  ad_handler :: "'a fn_handler option"
  ad_next :: "('u, 'a) middleware list"

text \<open>The loop over the lists of options: a nested list is put at the end of the work.\<close>

function add_scan :: "('u, 'a) route_config list list \<Rightarrow> ('u, 'a) add_state \<Rightarrow> ('u, 'a) add_state" where
  "add_scan [] st = st"
| "add_scan ([] # configs) st = add_scan configs st"
| "add_scan ((item # items) # configs) st =
     (case item of
        CfgList v \<Rightarrow> add_scan (items # (configs @ [v])) st
      | CfgHandler h \<Rightarrow> add_scan (items # configs) (st\<lparr>ad_handler := Some h\<rparr>)
      | CfgRole rl \<Rightarrow> add_scan (items # configs) (st\<lparr>ad_role := ad_role st OR rl\<rparr>)
      | CfgMiddleware m \<Rightarrow> add_scan (items # configs) (st\<lparr>ad_next := ad_next st @ [m]\<rparr>)
      | CfgOther t \<Rightarrow> add_scan (items # configs) st)"
  by pat_completeness auto
termination
  by (relation "measure (\<lambda>(configs, st). size_list (size_list size) configs)") (auto simp: size_list_append)

definition add_start :: "('u, 'a) add_state" where
  "add_start = \<lparr>ad_role = role_public, ad_handler = None, ad_next = []\<rparr>"

definition fn_add :: "res_lib \<Rightarrow> string \<Rightarrow> string \<Rightarrow> ('u, 'a) route_config list \<Rightarrow> ('u, 'a) fn_router \<Rightarrow> ('u, 'a) fn_router option" where
  "fn_add lib method path config rt =
     (let st = add_scan [config] add_start;
          cfg = (fn_route rt method path)\<lparr>cf_next := ad_next st\<rparr>
      in case ad_handler st of
           None \<Rightarrow> None
         | Some h \<Rightarrow> configure_handler h (configure_add (require_role_mw lib (ad_role st)) cfg))"

text \<open>\<^verbatim>\<open>WithAuth\<close>: \<open>Inl\<close> is a fatal error at start-up.\<close>

definition with_auth :: "bool \<Rightarrow> string + string \<Rightarrow> string \<Rightarrow> 'u auth_config \<Rightarrow> ('u, 'a) fn_router
    \<Rightarrow> string + string \<times> ('u, 'a) fn_router" where
  "with_auth testing key_file oauth_secret config rt =
     (if fr_has_route rt then Inl ''must call .WithAuth() before any routing setup (e.g. Get(/...)''
      else (case auth_setup testing key_file oauth_secret (fr_router rt) config of
              Inl e \<Rightarrow> Inl e
            | Inr (key, a) \<Rightarrow> Inr (key, rt\<lparr>fr_router := ar_router a, fr_auth := Some (ar_server a)\<rparr>)))"

definition ignore_auth_for_route :: "string \<Rightarrow> ('u, 'a) fn_router \<Rightarrow> ('u, 'a) fn_router option" where
  "ignore_auth_for_route path rt =
     (case fr_auth rt of
        None \<Rightarrow> None
      | Some a \<Rightarrow> Some (rt\<lparr>fr_auth := Some (a\<lparr>as_ignore_routes := as_ignore_routes a @ [path]\<rparr>)\<rparr>))"

section \<open>Serving\<close>

text \<open>
  A matched route: the handler, then its responder on the writer.  The panic that escapes either is
  left to \<^const>\<open>recover_panic\<close>, which writes to the writer below the wrappers.
\<close>

definition serve_route :: "res_env \<Rightarrow> 'a fn_handler \<Rightarrow> fn_request \<Rightarrow> http_writer \<Rightarrow> 'a fn_state
    \<Rightarrow> panic_value option \<times> http_writer \<times> 'a fn_state" where
  "serve_route env h rq w s =
     (case h rq s of
        (Inl p, s1) \<Rightarrow> (case recover_panic env (fq_http rq) p w of (p', w') \<Rightarrow> (p', w', s1))
      | (Inr resp, s1) \<Rightarrow>
          (case respond_spied (fs_now s1) resp [] (fq_http rq) w (fs_limiters s1) of
             (None, w1, ls) \<Rightarrow> (None, w1, s1\<lparr>fs_limiters := ls\<rparr>)
           | (Some p, w1, ls) \<Rightarrow>
               (case recover_panic env (fq_http rq) p w1 of (p', w') \<Rightarrow> (p', w', s1\<lparr>fs_limiters := ls\<rparr>))))"


section \<open>Facts on responders\<close>

text \<open>The answers above are those of the package, and the calls write what \<^const>\<open>respond_data\<close> writes.\<close>

lemma middleware_answers: "too_many_requests = DataResp 429 (DStr ''Too many requests'')"
  "not_authorized [no_role_text] =
     DataResp 401 (error_data ''not authorized'' [] (''not authorized'' @ '': '' @ no_role_text) (DList [DStr no_role_text]))"
  by (simp_all add: too_many_requests_def with_code_and_message_def not_authorized_def)

lemma data_calls_respond:
  "run_calls now (data_calls lib status d) [] w ls =
     (case respond_data lib il status d r w of (p, w', lines) \<Rightarrow> (p, w', ls))"
  by (auto simp: data_calls_def respond_data_def Let_def invalid_code_def split: option.splits)

lemma on_status_low [simp]: "status < 400 \<Longrightarrow> on_status_code now i key status ls = ls"
  by (simp add: on_status_code_def)

text \<open>A single watcher sees the status of such an answer once.\<close>

lemma data_calls_spied:
  assumes "200 \<le> status" "status \<le> 999" "wr_status w = None"
  shows "\<exists>w'. run_calls now (data_calls lib status d) [\<lparr>sp_limiter = i, sp_key = key, sp_written = False\<rparr>] w ls
      = (None, w', on_status_code now i key status ls)
    \<and> wr_status w' = Some status"
  using assms
  by (auto simp: data_calls_def on_write_header_def on_write_def write_header_def w_write_def split: option.split)

lemma data_calls_plain:
  assumes "200 \<le> status" "status \<le> 999" "wr_status w = None"
  shows "\<exists>w'. run_calls now (data_calls lib status d) [] w ls = (None, w', ls) \<and> wr_status w' = Some status"
  using assms by (auto simp: data_calls_def write_header_def w_write_def split: option.split)

section \<open>Limiting by error responses\<close>

text \<open>A handler that answers with a status and data, and notes the request in the application's state.\<close>

definition logged_handler :: "res_lib \<Rightarrow> (fn_request \<Rightarrow> int) \<Rightarrow> (fn_request \<Rightarrow> res_data) \<Rightarrow> fn_request list fn_handler" where
  "logged_handler lib status data rq s =
     (Inr (data_responder lib (status rq) (data rq)), s\<lparr>fs_app := fs_app s @ [rq]\<rparr>)"

definition err_view :: "nat \<Rightarrow> 'a fn_state \<Rightarrow> string \<Rightarrow> nat" where
  "err_view i s key = keyed_avail (fs_now s) (fs_limiters s ! i) key"

definition err_ok :: "nat \<Rightarrow> 'a fn_state \<Rightarrow> bool" where
  "err_ok i s \<longleftrightarrow> i < length (fs_limiters s) \<and> keyed_ok (fs_limiters s ! i)"

lemma rate_limit_err_step:
  fixes s :: "fn_request list fn_state"
  assumes ok: "err_ok i s" and st: "200 \<le> status rq" "status rq \<le> 999" and w: "wr_status w = None"
  shows "\<exists>w' s'. serve_route env (rate_limit_err_handler (re_lib env) i (logged_handler (re_lib env) status data)) rq w s = (None, w', s')
    \<and> err_ok i s' \<and> fs_now s' = fs_now s
    \<and> (if err_view i s (client_key rq) = 0
       then wr_status w' = Some 429 \<and> fs_app s' = fs_app s \<and> err_view i s' = err_view i s
       else wr_status w' = Some (status rq) \<and> fs_app s' = fs_app s @ [rq]
            \<and> err_view i s' = (\<lambda>k. if k = client_key rq \<and> 400 \<le> status rq then err_view i s k - 1 else err_view i s k))"
proof -
  let ?l = "fs_limiters s ! i" and ?now = "fs_now s" and ?key = "client_key rq"
  have i: "i < length (fs_limiters s)" and kok: "keyed_ok ?l" using ok by (simp_all add: err_ok_def)
  obtain a l where l: "keyed_is_limited ?now ?key ?l = (a, l)" by fastforce
  have lok: "keyed_ok l" and lav: "keyed_avail ?now l k = keyed_avail ?now ?l k" for k
    using kl.limited_ok[OF kok, of ?now ?key] kl.limited_avail[OF kok, of ?now ?key k] l by simp_all
  have aiff: "a = None \<longleftrightarrow> 0 < keyed_avail ?now ?l ?key"
    using kl.limited_iff[OF kok, of ?now ?key] l by simp
  have tk: "keyed_ok (snd (keyed_take ?now ?key l))"
    "keyed_avail ?now (snd (keyed_take ?now ?key l)) k = (if k = ?key then keyed_avail ?now ?l ?key - 1 else keyed_avail ?now ?l k)" for k
    using kl.take_ok[OF lok, of ?now ?key] kl.take_avail[OF lok, of ?now ?key k] lav by simp_all
  show ?thesis
  proof (cases a)
    case (Some e)
    obtain w' where "run_calls ?now (data_calls (re_lib env) 429 (DStr ''Too many requests'')) [] w ((fs_limiters s)[i := l])
        = (None, w', (fs_limiters s)[i := l])" "wr_status w' = Some 429"
      using data_calls_plain[of 429 w ?now "re_lib env" "DStr ''Too many requests''" "(fs_limiters s)[i := l]"] w by auto
    then show ?thesis using i lok lav aiff Some l
      by (auto simp: serve_route_def rate_limit_err_handler_def Let_def too_many_calls_def data_responder_def set_limiter_def
          err_ok_def err_view_def fun_eq_iff)
  next
    case None
    obtain w' where r: "run_calls ?now (data_calls (re_lib env) (status rq) (data rq))
          [\<lparr>sp_limiter = i, sp_key = ?key, sp_written = False\<rparr>] w ((fs_limiters s)[i := l])
        = (None, w', on_status_code ?now i ?key (status rq) ((fs_limiters s)[i := l]))" "wr_status w' = Some (status rq)"
      using data_calls_spied[OF st w] by blast
    show ?thesis using i lok lav aiff None l r tk
      by (auto simp: serve_route_def rate_limit_err_handler_def logged_handler_def Let_def data_responder_def set_limiter_def
          err_ok_def err_view_def on_status_code_def fun_eq_iff)
  qed
qed

text \<open>Requests served one after the other at one instant, each on a fresh writer: the statuses and the state.\<close>

fun serve_burst :: "res_env \<Rightarrow> 'a fn_handler \<Rightarrow> fn_request list \<Rightarrow> 'a fn_state \<Rightarrow> int option list \<times> 'a fn_state" where
  "serve_burst env h [] s = ([], s)"
| "serve_burst env h (rq # rqs) s =
     (case serve_route env h rq fresh_writer s of
        (p, w, s1) \<Rightarrow> (case serve_burst env h rqs s1 of (sts, s2) \<Rightarrow> (wr_status w # sts, s2)))"

definition err_requests :: "(fn_request \<Rightarrow> int) \<Rightarrow> string \<Rightarrow> fn_request list \<Rightarrow> fn_request list" where
  "err_requests status key rqs = filter (\<lambda>rq. client_key rq = key \<and> 400 \<le> status rq) rqs"



definition sample_fn_request :: "string \<Rightarrow> auth_ctx \<Rightarrow> string option \<Rightarrow> fn_request" where
  "sample_fn_request path ctx v =
     \<lparr>fq_http = \<lparr>hr_method = ''GET'', hr_path = path, hr_header = [], hr_cookies = [], hr_query = [], hr_body = [],
                hr_remote_addr = ''10.0.0.1:80''\<rparr>,
      fq_auth = ctx, fq_ip = Some ''1.2.3.4'', fq_ver = map_option new_ver v\<rparr>"

lemma sample_fn_key [simp]: "client_key (sample_fn_request path ctx v) = ''1.2.3.4''"
  by (simp add: client_key_def sample_fn_request_def key_from_request_def ctx_ip_def)

definition sample_fn_state :: "fn_request list fn_state" where
  "sample_fn_state = \<lparr>fs_now = 0, fs_limiters = [new_keyed 1 go_minute], fs_app = []\<rparr>"

lemma sample_fn_state_ok: "err_ok 0 sample_fn_state" and sample_fn_state_view: "err_view 0 sample_fn_state key = 1"
proof -
  show "err_ok 0 sample_fn_state"
    by (simp add: err_ok_def sample_fn_state_def new_keyed_def keyed_ok_def go_minute_def go_second_def)
  show "err_view 0 sample_fn_state key = 1"
    using round64_int[of 1]
    by (simp add: err_view_def sample_fn_state_def keyed_avail_def view_new new_keyed_def f64_count)
qed


text \<open>
  An error response that comes from a panic (as the checks of package \<open>er\<close> make them) is written
  below the watching writer: whatever its status, no token is taken.
\<close>

lemma panic_not_charged:
  assumes "err_ok i s" "\<And>rq s. next_h rq s = (Inl (p rq), s)"
  shows "err_view i (snd (snd (serve_route env (rate_limit_err_handler lib i next_h) rq w s))) key = err_view i s key"
proof -
  have kok: "keyed_ok (fs_limiters s ! i)" and i: "i < length (fs_limiters s)" using assms(1) by (simp_all add: err_ok_def)
  obtain a l where l: "keyed_is_limited (fs_now s) (client_key rq) (fs_limiters s ! i) = (a, l)" by fastforce
  have lav: "keyed_avail (fs_now s) l k = keyed_avail (fs_now s) (fs_limiters s ! i) k" for k
    using kl.limited_avail[OF kok, of "fs_now s" "client_key rq" k] l by simp
  have r: "\<exists>p w'. run_calls now (data_calls L 429 d) [] w ls = (p, w', ls)" for now L d w ls
    by (simp add: data_calls_def write_header_def split: option.split)
  show ?thesis
  proof (cases a)
    case None
    then show ?thesis using l lav i
      by (simp add: serve_route_def rate_limit_err_handler_def Let_def assms(2) err_view_def set_limiter_def split: prod.split)
  next
    case (Some e)
    obtain q w' where "run_calls (fs_now s) (data_calls lib 429 (DStr ''Too many requests'')) [] w ((fs_limiters s)[i := l])
        = (q, w', (fs_limiters s)[i := l])" using r by blast
    then show ?thesis using Some l lav i
      by (auto simp: serve_route_def rate_limit_err_handler_def Let_def err_view_def set_limiter_def too_many_calls_def
          data_responder_def split: prod.split option.split)
  qed
qed

section \<open>Versions\<close>

lemma versioned_scan_iff:
  "(\<exists>d. versioned_scan uniq dflt hs = Inr d) \<longleftrightarrow> distinct (map vh_version hs) \<and> set uniq \<inter> vh_version ` set hs = {}"
  by (induction uniq dflt hs rule: versioned_scan.induct) auto

lemma versioned_scan_default:
  "versioned_scan uniq dflt hs = Inr d \<Longrightarrow> \<forall>h\<in>set hs. vh_default h \<longrightarrow> vh_version h = [] \<Longrightarrow>
   d = (case find (\<lambda>h. vh_default h) hs of Some h \<Rightarrow> Some h | None \<Rightarrow> dflt)"
proof (induction uniq dflt hs rule: versioned_scan.induct)
  case (2 uniq dflt h hs)
  show ?case
  proof (cases "vh_default h")
    case True
    then have v: "vh_version h = []" using "2.prems"(2) by simp
    have ok: "vh_version h \<notin> set uniq" "versioned_scan (vh_version h # uniq) (Some h) hs = Inr d"
      using "2.prems"(1) True by (auto split: if_splits)
    have "set (vh_version h # uniq) \<inter> vh_version ` set hs = {}" using versioned_scan_iff[of "vh_version h # uniq" "Some h" hs] ok by blast
    then have "\<forall>h'\<in>set hs. vh_version h' \<noteq> []" using v by (metis Int_iff empty_iff image_eqI list.set_intros(1))
    then have "find (\<lambda>h. vh_default h) hs = None" using "2.prems"(2) by (auto simp: find_None_iff)
    moreover have "d = (case find (\<lambda>h. vh_default h) hs of Some h \<Rightarrow> Some h | None \<Rightarrow> Some h)"
      using "2.IH"[OF ok(1)] ok(2) "2.prems"(2) True by simp
    ultimately show ?thesis using True by simp
  next
    case False
    then show ?thesis using "2.IH" "2.prems" by (simp split: if_splits)
  qed
qed simp

lemma find_perm:
  "distinct (map f xs) \<Longrightarrow> x \<in> set xs \<Longrightarrow> find (\<lambda>y. f y = f x) xs = Some x"
  by (induction xs) (auto simp: image_iff)

text \<open>
  Dispatch by version.  \<^verbatim>\<open>Versioned\<close> refuses exactly the lists in which a version occurs twice.
  Otherwise a request with the version of an entry is answered by that entry, one with another
  version by the default handler, or by 404 when there is none: the order of the entries does not
  matter.
\<close>
theorem versioned_dispatch:
  fixes hs :: "'a versioned_handler list"
  assumes "\<forall>h\<in>set hs. vh_default h \<longrightarrow> vh_version h = []"
  shows "((\<exists>hd. versioned lib hs = Inr hd) \<longleftrightarrow> distinct (map vh_version hs))
    \<and> (\<forall>hd rq s (v :: ver). versioned lib hs = Inr hd \<longrightarrow> fq_ver rq = Some v \<longrightarrow>
        (\<forall>h\<in>set hs. vh_version h = ver_string v \<longrightarrow> hd rq s = vh_value h rq s)
        \<and> ((\<forall>h\<in>set hs. vh_version h \<noteq> ver_string v) \<longrightarrow>
            (\<forall>h\<in>set hs. vh_default h \<longrightarrow> hd rq s = vh_value h rq s)
            \<and> ((\<forall>h\<in>set hs. \<not> vh_default h) \<longrightarrow>
                hd rq s = (Inr (data_responder lib 404 (DStr ''No handler for that api-version'')), s))))"
proof -
  have iff: "(\<exists>hd. versioned lib hs = Inr hd) \<longleftrightarrow> distinct (map vh_version hs)"
    using versioned_scan_iff[of "[]" None hs] by (auto simp: versioned_def split: sum.splits)
  show ?thesis
  proof (intro conjI iff allI impI ballI)
    fix hd :: "'a fn_handler" and rq :: fn_request and s :: "'a fn_state" and v :: ver and h
    assume hd: "versioned lib hs = Inr hd" and v: "fq_ver rq = Some v"
    have d: "distinct (map vh_version hs)" using iff hd by blast
    obtain dflt where dflt: "versioned_scan [] None hs = Inr dflt" "hd = versioned_serve lib hs dflt"
      using hd by (auto simp: versioned_def split: sum.splits)
    have df: "dflt = find (\<lambda>h. vh_default h) hs"
      using versioned_scan_default[OF dflt(1) assms] by (simp split: option.splits)
    { assume "h \<in> set hs" "vh_version h = ver_string v"
      then show "hd rq s = vh_value h rq s"
        using find_perm[OF d, of h] by (simp add: dflt(2) versioned_serve_def v current_version_def)
    }
    { assume none: "\<forall>h\<in>set hs. vh_version h \<noteq> ver_string v"
      have f: "find (\<lambda>h. vh_version h = ver_string v) hs = None" using none by (simp add: find_None_iff)
      { assume h: "h \<in> set hs" "vh_default h"
        have "find (\<lambda>y. vh_default y) hs = Some h"
        proof (cases "find (\<lambda>y. vh_default y) hs")
          case (Some h')
          then have "h' \<in> set hs" "vh_default h'" by (auto simp: find_Some_iff)
          then have "vh_version h' = vh_version h" using assms h by simp
          then show ?thesis using Some d h(1) \<open>h' \<in> set hs\<close> by (metis find_perm option.inject)
        qed (use h in \<open>auto simp: find_None_iff\<close>)
        then show "hd rq s = vh_value h rq s" by (simp add: dflt(2) df versioned_serve_def v current_version_def f) }
      { assume "\<forall>h\<in>set hs. \<not> vh_default h"
        then have "dflt = None" by (simp add: df find_None_iff)
        then show "hd rq s = (Inr (data_responder lib 404 (DStr ''No handler for that api-version'')), s)"
          by (simp add: dflt(2) versioned_serve_def v current_version_def f) }
    }
  qed
qed


lemma versioned_dispatch_witness:
  "\<forall>hd. versioned lib [version_handler ''1.0'' (\<lambda>rq s. (Inl (PanicValue ''one'' None), s)), default_version (\<lambda>rq s. (Inl (PanicValue ''default'' None), s))] = Inr hd \<longrightarrow>
     (hd :: 'a fn_handler) (sample_fn_request ''/'' None (Some ''1.0'')) s = (Inl (PanicValue ''one'' None), s)
     \<and> hd (sample_fn_request ''/'' None (Some ''7.0'')) s = (Inl (PanicValue ''default'' None), s)"
proof (intro allI impI)
  let ?h1 = "version_handler ''1.0'' (\<lambda>rq s. (Inl (PanicValue ''one'' None), s))"
  let ?h2 = "default_version (\<lambda>rq s. (Inl (PanicValue ''default'' None), s))"
  fix hd :: "'a fn_handler" assume hd: "versioned lib [?h1, ?h2] = Inr hd"
  have a: "\<forall>h\<in>set [?h1, ?h2]. vh_default h \<longrightarrow> vh_version h = []" by (simp add: version_handler_def default_version_def)
  have s1: "ver_string (new_ver ''1.0'') = ''1.0''" and s7: "ver_string (new_ver ''7.0'') = ''7.0''"
    by (simp_all add: ver_string_def new_ver_def)
  have q: "fq_ver (sample_fn_request ''/'' None (Some v)) = Some (new_ver v)" for v by (simp add: sample_fn_request_def)
  note t = versioned_dispatch[OF a, of lib, THEN conjunct2, rule_format, OF hd q]
  have "hd (sample_fn_request ''/'' None (Some ''1.0'')) s = vh_value ?h1 (sample_fn_request ''/'' None (Some ''1.0'')) s"
    by (rule t[THEN conjunct1, rule_format]) (simp_all add: s1 version_handler_def)
  moreover have "hd (sample_fn_request ''/'' None (Some ''7.0'')) s = vh_value ?h2 (sample_fn_request ''/'' None (Some ''7.0'')) s"
    by (rule t[THEN conjunct2, THEN mp, THEN conjunct1, rule_format]) (auto simp: s7 version_handler_def default_version_def)
  ultimately show "hd (sample_fn_request ''/'' None (Some ''1.0'')) s = (Inl (PanicValue ''one'' None), s)
     \<and> hd (sample_fn_request ''/'' None (Some ''7.0'')) s = (Inl (PanicValue ''default'' None), s)"
    by (simp add: version_handler_def default_version_def)
qed

section \<open>Roles of a route\<close>

primrec cfg_roles :: "('u, 'a) route_config \<Rightarrow> role list" where
  "cfg_roles (CfgList cs) = concat (map cfg_roles cs)"
| "cfg_roles (CfgHandler h) = []"
| "cfg_roles (CfgRole r) = [r]"
| "cfg_roles (CfgMiddleware m) = []"
| "cfg_roles (CfgOther t) = []"

text \<open>However the options are nested, the required role is the union of all the roles among them.\<close>

lemma add_scan_role:
  "bit (ad_role (add_scan configs st)) n \<longleftrightarrow>
     bit (ad_role st) n \<or> (\<exists>items\<in>set configs. \<exists>c\<in>set items. \<exists>r\<in>set (cfg_roles c). bit r n)"
  by (induction configs st rule: add_scan.induct) (auto simp: bit_or_iff split: route_config.splits)

lemma has_role_bits: "has_role ctx q \<longleftrightarrow> (\<exists>u. ctx = Some u \<and> (\<exists>n. bit (ui_role u) n \<and> bit q n))"
  by (cases ctx) (auto simp: has_role_def is_authenticated_def auth_role_def current_def role_public_def word_nonzero_bit bit_and_iff)

text \<open>
  C35: Routes added with roles are guarded before anything else.  When one of the roles among the
  options is not public, the handler that is registered lets a request pass only if its user has one
  of those roles: for everybody else it answers 401 and neither the handler nor a middleware of the
  route runs; the rate limiters and the application's state are untouched.
\<close>
theorem added_route_guarded:
  assumes "fn_add lib method path config rt = Some rt'" and "\<exists>c\<in>set config. \<exists>r\<in>set (cfg_roles c). r \<noteq> role_public"
  shows "\<exists>before h inner. rt_routes (fr_router rt') = before @ [(method, path, AppEndpoint None h)]
    \<and> (\<forall>rq s. h rq s = (if \<exists>c\<in>set config. \<exists>r\<in>set (cfg_roles c). has_role (fq_auth rq) r
                          then inner rq s else (Inr (no_role_calls lib), s)))"
proof -
  let ?st = "add_scan [config] add_start"
  let ?R = "ad_role ?st"
  have bits: "bit ?R n \<longleftrightarrow> (\<exists>c\<in>set config. \<exists>r\<in>set (cfg_roles c). bit r n)" for n
    by (simp add: add_scan_role add_start_def role_public_def)
  have "?R \<noteq> role_public"
    using assms(2) unfolding role_public_def word_nonzero_bit bits by blast
  have hr: "has_role ctx ?R \<longleftrightarrow> (\<exists>c\<in>set config. \<exists>r\<in>set (cfg_roles c). has_role ctx r)" for ctx
    by (auto simp: has_role_bits bits)
  have app: "apply_middlewares (ms @ [m]) rt0 method path h =
      (case apply_middlewares ms rt0 method path h of None \<Rightarrow> None | Some (h', rt') \<Rightarrow> apply_middlewares [m] rt' method path h')" for ms m rt0 h
    by (induction ms arbitrary: rt0 h) (auto split: option.splits prod.splits)
  obtain h0 inner rt1 where "ad_handler ?st = Some h0"
    "apply_middlewares (ad_next ?st) (rt\<lparr>fr_has_route := True\<rparr>) method path h0 = Some (inner, rt1)"
    "route method path (AppEndpoint None (guard_handler lib ?R inner)) (fr_router rt1) = Some (fr_router rt')"
    using assms(1) \<open>?R \<noteq> role_public\<close>
    by (fastforce simp: fn_add_def Let_def configure_handler_def configure_add_def fn_route_def app require_role_mw_def
        split: option.splits)
  then have "rt_routes (fr_router rt') = rt_routes (fr_router rt1) @ [(method, path, AppEndpoint None (guard_handler lib ?R inner))]"
    by (auto simp: route_def split: if_splits dest: sym)
  moreover have "guard_handler lib ?R inner rq s =
      (if \<exists>c\<in>set config. \<exists>r\<in>set (cfg_roles c). has_role (fq_auth rq) r then inner rq s else (Inr (no_role_calls lib), s))" for rq s
    by (simp add: guard_handler_def hr)
  ultimately show ?thesis by blast
qed

text \<open>
  A route without roles, in a router without authentication: the set-up of the route itself panics
  on the nil authentication router, although the route is meant to be public.
\<close>

lemma public_route_needs_auth:
  assumes "fr_auth rt = None"
  shows "fn_add lib ''GET'' ''/ping'' [CfgHandler h] rt = None"
  using assms
  by (simp add: fn_add_def Let_def add_start_def fn_route_def configure_handler_def configure_add_def require_role_mw_def)

text \<open>An added public route exempts its path from authentication, and leaves the handler as it is.\<close>

lemma public_route_exempt:
  assumes "fr_auth rt = Some a"
  shows "\<exists>rt'. fn_add lib ''GET'' ''/ping'' [CfgHandler h] rt = Some rt'
    \<and> rt_routes (fr_router rt') = rt_routes (fr_router rt) @ [(''GET'', ''/ping'', AppEndpoint None h)]
    \<and> fr_auth rt' = Some (a\<lparr>as_ignore_routes := as_ignore_routes a @ [''/ping'']\<rparr>)"
  using assms
  by (simp add: fn_add_def Let_def add_start_def fn_route_def configure_handler_def configure_add_def require_role_mw_def route_def)

definition sample_fn_user :: "role \<Rightarrow> user_info" where
  "sample_fn_user rl = sample_user\<lparr>ui_role := rl\<rparr>"

lemma added_route_guarded_witness:
  "\<forall>lib s. \<exists>rt' before h. fn_add lib ''GET'' ''/x'' [CfgList [CfgRole 4], CfgHandler (\<lambda>rq s. (Inl nil_panic, s)), CfgRole 1] (new_fn_router :: ('u, 'a) fn_router) = Some rt'
     \<and> rt_routes (fr_router rt') = before @ [(''GET'', ''/x'', AppEndpoint None h)]
     \<and> h (sample_fn_request ''/x'' (Some (sample_fn_user 2)) None) s = (Inr (no_role_calls lib), s)"
proof (intro allI)
  fix lib :: res_lib and s :: "'a fn_state"
  let ?cfg = "[CfgList [CfgRole 4], CfgHandler (\<lambda>rq s. (Inl nil_panic, s)), CfgRole 1] :: ('u, 'a) route_config list"
  obtain rt' :: "('u, 'a) fn_router" where a: "fn_add lib ''GET'' ''/x'' ?cfg new_fn_router = Some rt'"
    by (simp add: fn_add_def Let_def add_start_def fn_route_def configure_handler_def configure_add_def require_role_mw_def
        route_def new_fn_router_def role_public_def)
  have n: "\<exists>c\<in>set ?cfg. \<exists>r\<in>set (cfg_roles c). r \<noteq> role_public" by (simp add: role_public_def)
  have q: "fq_auth (sample_fn_request ''/x'' (Some u) None) = Some u" for u by (simp add: sample_fn_request_def)
  have "\<not> has_role (Some (sample_fn_user 2)) 4" "\<not> has_role (Some (sample_fn_user 2)) 1"
    by (simp_all add: has_role_def is_authenticated_def auth_role_def current_def sample_fn_user_def)
  then have g: "\<not> (\<exists>c\<in>set ?cfg. \<exists>r\<in>set (cfg_roles c). has_role (fq_auth (sample_fn_request ''/x'' (Some (sample_fn_user 2)) None)) r)"
    by (simp add: q)
  obtain before h inner where r: "rt_routes (fr_router rt') = before @ [(''GET'', ''/x'', AppEndpoint None h)]"
    and f: "\<forall>rq s. h rq s = (if \<exists>c\<in>set ?cfg. \<exists>r\<in>set (cfg_roles c). has_role (fq_auth rq) r
                          then inner rq s else (Inr (no_role_calls lib), s))"
    using added_route_guarded[OF a n] by blast
  have "h (sample_fn_request ''/x'' (Some (sample_fn_user 2)) None) s = (Inr (no_role_calls lib), s)"
    by (subst f[rule_format]) (rule if_not_P[OF g])
  with a r show "\<exists>rt' before h. fn_add lib ''GET'' ''/x'' ?cfg (new_fn_router :: ('u, 'a) fn_router) = Some rt'
     \<and> rt_routes (fr_router rt') = before @ [(''GET'', ''/x'', AppEndpoint None h)]
     \<and> h (sample_fn_request ''/x'' (Some (sample_fn_user 2)) None) s = (Inr (no_role_calls lib), s)" by blast
qed

end
