(* ===== verification/RowMap.thy ===== *)
theory RowMap
  imports ModelTx TimeUtil GoText
begin

text \<open>
  Package \<^verbatim>\<open>model\<close>, rows and queries: the mapping of field names to columns (\<^verbatim>\<open>model/mapping.go\<close>), the
  value types (\<^verbatim>\<open>model/types.go\<close>), the queries of a transaction with their hooks
  (\<^verbatim>\<open>model/query.go\<close>, \<^verbatim>\<open>model/querymust.go\<close>, \<^verbatim>\<open>model/hooks.go\<close>, \<^verbatim>\<open>model/errutil.go\<close>) and the wrappers for the
  query builder with its unions (\<^verbatim>\<open>model/squtil/\<close>).
\<close>

section \<open>Names of columns\<close>

text \<open>What the code uses of package \<^verbatim>\<open>unicode\<close>; for names in ASCII it is \<open>ascii_unicode\<close>.\<close>

record 'r unicode_lib =
  un_is_upper :: "'r \<Rightarrow> bool"
  un_is_lower :: "'r \<Rightarrow> bool"
  un_is_digit :: "'r \<Rightarrow> bool"
  un_to_lower :: "'r \<Rightarrow> 'r"
  un_underscore :: 'r

definition ascii_unicode :: "char unicode_lib" where
  "ascii_unicode = \<lparr>un_is_upper = is_upper_letter, un_is_lower = is_lower_letter, un_is_digit = is_digit,
     un_to_lower = lower_char, un_underscore = CHR ''_''\<rparr>"

text \<open>The loop after the first rune; \<open>prev\<close> is the rune before.\<close>

fun snake_loop :: "'r unicode_lib \<Rightarrow> 'r \<Rightarrow> 'r list \<Rightarrow> 'r list" where
  "snake_loop U prev [] = []"
| "snake_loop U prev (c # cs) =
     (if un_is_upper U c
      then (if un_is_lower U prev \<or> un_is_digit U prev then [un_underscore U] else []) @ un_to_lower U c # snake_loop U c cs
      else if un_is_digit U c
      then (if \<not> un_is_digit U prev then [un_underscore U] else []) @ c # snake_loop U c cs
      else c # snake_loop U c cs)"

fun snake_runes :: "'r unicode_lib \<Rightarrow> 'r list \<Rightarrow> 'r list" where
  "snake_runes U [] = []"
| "snake_runes U (c # cs) = un_to_lower U c # snake_loop U c cs"

definition snake_case :: "string \<Rightarrow> string" where
  "snake_case struct_col = snake_runes ascii_unicode struct_col"

definition lower_camel_case :: "char unicode_lib \<Rightarrow> string \<Rightarrow> string" where
  "lower_camel_case U struct_col =
     (if struct_col = [] then struct_col
      else if struct_col = ''ID'' then ''id''
      else if struct_col = ''URL'' then ''url''
      else (case replace_all (replace_all struct_col ''ID'' ''Id'') ''URL'' ''Url'' of
              [] \<Rightarrow> []
            | c # cs \<Rightarrow> un_to_lower U c # cs))"

text \<open>\<^verbatim>\<open>SetStructNameMapping\<close>: every open database gets the mapper.\<close>

record 'm databases =
  dbs_default :: 'm
  dbs_other :: "(string \<times> 'm) list"

definition set_struct_name_mapping :: "'m \<Rightarrow> 'm databases \<Rightarrow> 'm databases" where
  "set_struct_name_mapping mapper d = \<lparr>dbs_default = mapper, dbs_other = map (\<lambda>(n, _). (n, mapper)) (dbs_other d)\<rparr>"

section \<open>Value types\<close>

text \<open>What a driver hands to \<^verbatim>\<open>Scan\<close>; \<open>'f\<close> are the float64 values.\<close>

datatype 'f driver_value = DvNil | DvInt int | DvFloat 'f | DvBool bool | DvBytes string | DvString string | DvTime local_time

text \<open>Type assertions that fail are panics: \<^const>\<open>None\<close>.\<close>

record null_bytes =
  nb_valid :: bool
  nb_bytes :: string

fun null_bytes_scan :: "'f driver_value \<Rightarrow> null_bytes option" where
  "null_bytes_scan DvNil = Some \<lparr>nb_valid = False, nb_bytes = []\<rparr>"
| "null_bytes_scan (DvBytes b) = Some \<lparr>nb_valid = True, nb_bytes = b\<rparr>"
| "null_bytes_scan _ = None"

definition date_value :: "local_time \<Rightarrow> 'f driver_value" where
  "date_value d = DvTime d"

fun date_scan :: "'f driver_value \<Rightarrow> string + local_time" where
  "date_scan (DvTime v) = Inr v"
| "date_scan _ = Inl ''invalid Scan for model.Date''"

text \<open>\<^verbatim>\<open>time.Format\<close> and \<^verbatim>\<open>time.Parse\<close> for the layout \<^verbatim>\<open>2006-01-02\<close>.\<close>

definition pad_int :: "nat \<Rightarrow> int \<Rightarrow> string" where
  "pad_int w i =
     (let digits = show_nat (nat \<bar>i\<bar>)
      in (if i < 0 then ''-'' else []) @ replicate (w - length digits) (CHR ''0'') @ digits)"

definition format_date :: "local_time \<Rightarrow> string" where
  "format_date d = pad_int 4 (lt_year d) @ ''-'' @ pad_int 2 (lt_month d) @ ''-'' @ pad_int 2 (lt_day d)"

fun parse_date :: "string \<Rightarrow> string + local_time" where
  "parse_date [y1, y2, y3, y4, s1, m1, m2, s2, d1, d2] =
     (let y = int (digits_val [y1, y2, y3, y4]); m = int (digits_val [m1, m2]); d = int (digits_val [d1, d2])
      in if list_all is_digit [y1, y2, y3, y4, m1, m2, d1, d2] \<and> s1 = CHR ''-'' \<and> s2 = CHR ''-''
            \<and> 1 \<le> m \<and> m \<le> 12 \<and> 1 \<le> d \<and> d \<le> days_in y m
         then Inr \<lparr>lt_year = y, lt_month = m, lt_day = d, lt_nanos = 0\<rparr>
         else Inl ''parsing time'')"
| "parse_date _ = Inl ''parsing time''"

text \<open>The JSON codec; \<open>decode\<close> is the library's decoding of a JSON text into a string.\<close>

definition quote_char :: char where "quote_char = CHR 0x22"

definition date_marshal_json :: "local_time \<Rightarrow> string" where
  "date_marshal_json d = quote_char # format_date d @ [quote_char]"

definition date_unmarshal_json :: "(string \<Rightarrow> string + string) \<Rightarrow> string \<Rightarrow> string + local_time" where
  "date_unmarshal_json decode b = (case decode b of Inl e \<Rightarrow> Inl e | Inr s \<Rightarrow> parse_date s)"

record 'f null_point =
  np_valid :: bool
  np_y :: 'f
  np_x :: 'f

text \<open>Float texts are the library's: \<open>fl_format\<close> is \<^verbatim>\<open>%v\<close>, \<open>fl_json\<close> the JSON form, \<open>fl_decode_xy\<close> the decoding of an object.\<close>

record 'f float_lib =
  fl_zero :: 'f
  fl_format :: "'f \<Rightarrow> string"
  fl_parse :: "string \<Rightarrow> 'f \<times> string option"
  fl_json :: "'f \<Rightarrow> string"
  fl_decode_xy :: "string \<Rightarrow> string + 'f \<times> 'f"

definition zero_point :: "'f float_lib \<Rightarrow> 'f null_point" where
  "zero_point F = \<lparr>np_valid = False, np_y = fl_zero F, np_x = fl_zero F\<rparr>"

definition point_marshal_json :: "'f float_lib \<Rightarrow> 'f null_point \<Rightarrow> string" where
  "point_marshal_json F p =
     (if \<not> np_valid p then ''null''
      else ''{'' @ [quote_char] @ ''x'' @ [quote_char] @ '':'' @ fl_json F (np_x p) @ '',''
           @ [quote_char] @ ''y'' @ [quote_char] @ '':'' @ fl_json F (np_y p) @ ''}'')"

definition point_unmarshal_json :: "'f float_lib \<Rightarrow> string \<Rightarrow> string option \<times> 'f null_point" where
  "point_unmarshal_json F b =
     (if b = ''null'' then (None, zero_point F)
      else (case fl_decode_xy F b of
              Inl e \<Rightarrow> (Some e, zero_point F)
            | Inr (x, y) \<Rightarrow> (None, \<lparr>np_valid = True, np_y = y, np_x = x\<rparr>)))"

text \<open>\<^verbatim>\<open>Scan\<close>: \<^const>\<open>None\<close> is the panic for another type, or for a text with fewer than two parts.\<close>

fun point_scan :: "'f float_lib \<Rightarrow> 'f driver_value \<Rightarrow> (string option \<times> 'f null_point) option" where
  "point_scan F DvNil = Some (None, zero_point F)"
| "point_scan F (DvBytes b) =
     (let parts = split_char (CHR '','') (trim_set [CHR ''('', CHR '')''] b)
      in case fl_parse F (parts ! 0) of
           (x, Some e) \<Rightarrow> Some (Some e, (zero_point F)\<lparr>np_x := x\<rparr>)
         | (x, None) \<Rightarrow>
             (if length parts \<le> 1 then None
              else (case fl_parse F (parts ! 1) of
                      (y, Some e) \<Rightarrow> Some (Some e, (zero_point F)\<lparr>np_x := x, np_y := y\<rparr>)
                    | (y, None) \<Rightarrow> Some (None, \<lparr>np_valid = True, np_y = y, np_x = x\<rparr>))))"
| "point_scan F _ = None"

definition point_value :: "'f float_lib \<Rightarrow> 'f null_point \<Rightarrow> 'f driver_value" where
  "point_value F p =
     (if \<not> np_valid p then DvNil else DvString (''('' @ fl_format F (np_x p) @ '','' @ fl_format F (np_y p) @ '')''))"


section \<open>Queries of a transaction\<close>

text \<open>
  The state of a request: its transaction and, when a hook is set, the calls made to it (method,
  query, error).  What the driver does with a query is an argument: its answer and what becomes of
  the transaction's working copy.
\<close>

record ('s, 'c) query_state =
  qs_tx :: "('s, 'c) tx_info"
  qs_hooked :: bool
  qs_hooks :: "(string \<times> string \<times> tx_error option) list"

type_synonym ('s, 'v) driver_call = "'s \<Rightarrow> (tx_error + 'v) \<times> 's"

definition set_hook :: "('s, 'c) query_state \<Rightarrow> ('s, 'c) query_state" where
  "set_hook st = st\<lparr>qs_hooked := True\<rparr>"

text \<open>\<^verbatim>\<open>preHook\<close>: what the function that it returns does with the error.\<close>

definition after_hook :: "string \<Rightarrow> string \<Rightarrow> tx_error option \<Rightarrow> ('s, 'c) query_state \<Rightarrow> ('s, 'c) query_state" where
  "after_hook method query err st = (if \<not> qs_hooked st then st else st\<lparr>qs_hooks := qs_hooks st @ [(method, query, err)]\<rparr>)"

definition report_error :: "tx_error option \<Rightarrow> ('s, 'c) query_state \<Rightarrow> ('s, 'c) query_state" where
  "report_error err st = st\<lparr>qs_tx := report_tx_error err (qs_tx st)\<rparr>"

definition run_driver :: "('s, 'v) driver_call \<Rightarrow> ('s, 'c) query_state \<Rightarrow> (tx_error + 'v) \<times> ('s, 'c) query_state" where
  "run_driver call st =
     (case call (db_work (qs_tx st)) of (r, db) \<Rightarrow> (r, st\<lparr>qs_tx := (qs_tx st)\<lparr>db_work := db\<rparr>\<rparr>))"

definition error_part :: "'e + 'v \<Rightarrow> 'e option" where
  "error_part r = (case r of Inl e \<Rightarrow> Some e | Inr v \<Rightarrow> None)"

definition exec_context :: "('s, unit) driver_call \<Rightarrow> string \<Rightarrow> ('s, 'c) query_state \<Rightarrow> tx_error option \<times> ('s, 'c) query_state" where
  "exec_context call query st =
     (case run_driver call st of (r, st1) \<Rightarrow>
        let err = error_part r in (err, after_hook ''ExecContext'' query err (report_error err st1)))"

text \<open>\<^verbatim>\<open>Insert\<close>: on PostgreSQL the row's id is scanned, elsewhere the driver is asked for it.\<close>

definition insert_context :: "bool \<Rightarrow> ('s, int) driver_call \<Rightarrow> (tx_error + int) \<Rightarrow> string \<Rightarrow> ('s, 'c) query_state
    \<Rightarrow> (tx_error + int) \<times> ('s, 'c) query_state" where
  "insert_context postgres call last_id query st =
     (case run_driver call st of (r, st1) \<Rightarrow>
        if postgres then (r, after_hook ''Insert'' query (error_part r) (report_error (error_part r) st1))
        else (case r of
                Inl e \<Rightarrow> (Inl e, after_hook ''Insert'' query (Some e) (report_error (Some e) st1))
              | Inr _ \<Rightarrow> (last_id, after_hook ''Insert'' query (error_part last_id) (report_error (error_part last_id) st1))))"

definition get_context :: "('s, 'v) driver_call \<Rightarrow> string \<Rightarrow> ('s, 'c) query_state \<Rightarrow> (tx_error + 'v) \<times> ('s, 'c) query_state" where
  "get_context call query st =
     (case run_driver call st of (r, st1) \<Rightarrow>
        (r, after_hook ''GetContext'' query (error_part r) (report_error (error_part r) st1)))"

definition select_context :: "('s, 'v) driver_call \<Rightarrow> string \<Rightarrow> ('s, 'c) query_state \<Rightarrow> (tx_error + 'v) \<times> ('s, 'c) query_state" where
  "select_context call query st =
     (case run_driver call st of (r, st1) \<Rightarrow>
        case r of
          Inl e \<Rightarrow> (Inl e, after_hook ''SelectContext'' query (Some e) (report_error (Some e) st1))
        | Inr v \<Rightarrow> (Inr v, after_hook ''SelectContext'' query None st1))"

text \<open>A row remembers whether its \<^verbatim>\<open>Scan\<close> must succeed; the driver's answer is scanned later.\<close>

record 'v db_row =
  rw_answer :: "tx_error + 'v"
  rw_must :: bool

definition query_row_context :: "('s, 'v) driver_call \<Rightarrow> string \<Rightarrow> ('s, 'c) query_state \<Rightarrow> 'v db_row \<times> ('s, 'c) query_state" where
  "query_row_context call query st =
     (case run_driver call st of (r, st1) \<Rightarrow>
        (\<lparr>rw_answer = r, rw_must = False\<rparr>, after_hook ''QueryRowContext'' query None st1))"

text \<open>A \<open>must\<close> function either returns or panics with the error of the database.\<close>

datatype 'v must_result = Returns 'v | Panics tx_error

definition must_of :: "tx_error + 'v \<Rightarrow> 'v must_result" where
  "must_of r = (case r of Inl e \<Rightarrow> Panics e | Inr v \<Rightarrow> Returns v)"

fun tx_error_text :: "tx_error \<Rightarrow> string" where
  "tx_error_text ErrCommitAlreadyCalled = ''transaction already closed''"
| "tx_error_text ErrNoRows = ''sql: no rows in result set''"
| "tx_error_text (DbError e) = e"
| "tx_error_text (ErrOther e) = e"

definition row_scan :: "'v db_row \<Rightarrow> ('s, 'c) query_state \<Rightarrow> (tx_error + 'v) must_result \<times> ('s, 'c) query_state" where
  "row_scan rw st =
     (let err = error_part (rw_answer rw);
          st1 = st\<lparr>qs_tx := (qs_tx st)\<lparr>last_error := map_option tx_error_text err\<rparr>\<rparr>
      in case err of
           Some e \<Rightarrow> (if rw_must rw then Panics e else Returns (rw_answer rw), st1)
         | None \<Rightarrow> (Returns (rw_answer rw), st1))"

definition must_exec_context :: "('s, unit) driver_call \<Rightarrow> string \<Rightarrow> ('s, 'c) query_state \<Rightarrow> unit must_result \<times> ('s, 'c) query_state" where
  "must_exec_context call query st =
     (case exec_context call query st of (err, st1) \<Rightarrow>
        (case err of None \<Rightarrow> Returns () | Some e \<Rightarrow> Panics e, report_error err st1))"

definition must_insert :: "bool \<Rightarrow> ('s, int) driver_call \<Rightarrow> (tx_error + int) \<Rightarrow> string \<Rightarrow> ('s, 'c) query_state
    \<Rightarrow> int must_result \<times> ('s, 'c) query_state" where
  "must_insert postgres call last_id query st =
     (case insert_context postgres call last_id query st of (r, st1) \<Rightarrow> (must_of r, report_error (error_part r) st1))"

definition must_query_row_context :: "('s, 'v) driver_call \<Rightarrow> string \<Rightarrow> ('s, 'c) query_state \<Rightarrow> 'v db_row \<times> ('s, 'c) query_state" where
  "must_query_row_context call query st =
     (case query_row_context call query st of (rw, st1) \<Rightarrow> (rw\<lparr>rw_must := True\<rparr>, st1))"

definition must_select_context :: "('s, 'v) driver_call \<Rightarrow> string \<Rightarrow> ('s, 'c) query_state \<Rightarrow> 'v must_result \<times> ('s, 'c) query_state" where
  "must_select_context call query st =
     (case select_context call query st of (r, st1) \<Rightarrow> (must_of r, report_error (error_part r) st1))"

definition must_get_context :: "('s, 'v) driver_call \<Rightarrow> string \<Rightarrow> ('s, 'c) query_state \<Rightarrow> 'v must_result \<times> ('s, 'c) query_state" where
  "must_get_context call query st =
     (case get_context call query st of (r, st1) \<Rightarrow> (must_of r, report_error (error_part r) st1))"

text \<open>\<^verbatim>\<open>IsDuplicateKeyError\<close>: the code of a PostgreSQL error, or \<^const>\<open>None\<close> for another error.\<close>

definition is_duplicate_key_error :: "string option \<Rightarrow> bool" where
  "is_duplicate_key_error pq_code = (case pq_code of None \<Rightarrow> False | Some code \<Rightarrow> code = ''23505'')"

section \<open>Queries of the builder\<close>

text \<open>A query of the builder is what its \<^verbatim>\<open>ToSql\<close> answers; \<open>run\<close> is what the driver does with a text and arguments.\<close>

type_synonym 'a to_sql = "string + string \<times> 'a list"

definition sq_exec_context :: "'a to_sql \<Rightarrow> ('a list \<Rightarrow> string \<Rightarrow> ('s, unit) driver_call) \<Rightarrow> ('s, 'c) query_state
    \<Rightarrow> tx_error option \<times> ('s, 'c) query_state" where
  "sq_exec_context qr run st =
     (case qr of Inl e \<Rightarrow> (Some (ErrOther e), st) | Inr (sql, args) \<Rightarrow> exec_context (run args sql) sql st)"

definition sq_insert :: "bool \<Rightarrow> 'a to_sql \<Rightarrow> ('a list \<Rightarrow> string \<Rightarrow> ('s, int) driver_call) \<Rightarrow> (tx_error + int) \<Rightarrow> ('s, 'c) query_state
    \<Rightarrow> (tx_error + int) \<times> ('s, 'c) query_state" where
  "sq_insert postgres qr run last_id st =
     (case qr of Inl e \<Rightarrow> (Inl (ErrOther e), st) | Inr (sql, args) \<Rightarrow> insert_context postgres (run args sql) last_id sql st)"

definition sq_get_context :: "'a to_sql \<Rightarrow> ('a list \<Rightarrow> string \<Rightarrow> ('s, 'v) driver_call) \<Rightarrow> ('s, 'c) query_state
    \<Rightarrow> (tx_error + 'v) \<times> ('s, 'c) query_state" where
  "sq_get_context qr run st =
     (case qr of Inl e \<Rightarrow> (Inl (ErrOther e), st) | Inr (sql, args) \<Rightarrow> get_context (run args sql) sql st)"

definition sq_select_context :: "'a to_sql \<Rightarrow> ('a list \<Rightarrow> string \<Rightarrow> ('s, 'v) driver_call) \<Rightarrow> ('s, 'c) query_state
    \<Rightarrow> (tx_error + 'v) \<times> ('s, 'c) query_state" where
  "sq_select_context qr run st =
     (case qr of Inl e \<Rightarrow> (Inl (ErrOther e), st) | Inr (sql, args) \<Rightarrow> select_context (run args sql) sql st)"

text \<open>\<^verbatim>\<open>QueryRowContext\<close> goes on after an error of \<^verbatim>\<open>ToSql\<close>, with the empty text it returned.\<close>

definition sq_query_row_context :: "'a to_sql \<Rightarrow> ('a list \<Rightarrow> string \<Rightarrow> ('s, 'v) driver_call) \<Rightarrow> ('s, 'c) query_state
    \<Rightarrow> 'v db_row \<times> ('s, 'c) query_state" where
  "sq_query_row_context qr run st =
     (case qr of Inl e \<Rightarrow> query_row_context (run [] []) [] st | Inr (sql, args) \<Rightarrow> query_row_context (run args sql) sql st)"

definition sq_must_select_context :: "'a to_sql \<Rightarrow> ('a list \<Rightarrow> string \<Rightarrow> ('s, 'v) driver_call) \<Rightarrow> ('s, 'c) query_state
    \<Rightarrow> 'v must_result \<times> ('s, 'c) query_state" where
  "sq_must_select_context qr run st =
     (case qr of Inl e \<Rightarrow> (Panics (ErrOther e), st) | Inr (sql, args) \<Rightarrow> must_select_context (run args sql) sql st)"

definition sq_must_query_row_context :: "'a to_sql \<Rightarrow> ('a list \<Rightarrow> string \<Rightarrow> ('s, 'v) driver_call) \<Rightarrow> ('s, 'c) query_state
    \<Rightarrow> 'v db_row must_result \<times> ('s, 'c) query_state" where
  "sq_must_query_row_context qr run st =
     (case qr of Inl e \<Rightarrow> (Panics (ErrOther e), st)
      | Inr (sql, args) \<Rightarrow> (case must_query_row_context (run args sql) sql st of (rw, st1) \<Rightarrow> (Returns rw, st1)))"

definition sq_must_get_context :: "'a to_sql \<Rightarrow> ('a list \<Rightarrow> string \<Rightarrow> ('s, 'v) driver_call) \<Rightarrow> ('s, 'c) query_state
    \<Rightarrow> 'v must_result \<times> ('s, 'c) query_state" where
  "sq_must_get_context qr run st =
     (case qr of Inl e \<Rightarrow> (Panics (ErrOther e), st) | Inr (sql, args) \<Rightarrow> must_get_context (run args sql) sql st)"

definition sq_must_exec_context :: "'a to_sql \<Rightarrow> ('a list \<Rightarrow> string \<Rightarrow> ('s, unit) driver_call) \<Rightarrow> ('s, 'c) query_state
    \<Rightarrow> unit must_result \<times> ('s, 'c) query_state" where
  "sq_must_exec_context qr run st =
     (case qr of Inl e \<Rightarrow> (Panics (ErrOther e), st) | Inr (sql, args) \<Rightarrow> must_exec_context (run args sql) sql st)"

definition sq_must_insert :: "bool \<Rightarrow> 'a to_sql \<Rightarrow> ('a list \<Rightarrow> string \<Rightarrow> ('s, int) driver_call) \<Rightarrow> (tx_error + int) \<Rightarrow> ('s, 'c) query_state
    \<Rightarrow> int must_result \<times> ('s, 'c) query_state" where
  "sq_must_insert postgres qr run last_id st =
     (case qr of Inl e \<Rightarrow> (Panics (ErrOther e), st) | Inr (sql, args) \<Rightarrow> must_insert postgres (run args sql) last_id sql st)"

section \<open>Unions\<close>

text \<open>
  A placeholder format is a function on the text; \<open>us_sql\<close> is what the selector answers once its
  format is \<^verbatim>\<open>Question\<close>, and \<open>us_format\<close> the format it had before.
\<close>

record 'a sel_query =
  us_sql :: "'a to_sql"
  us_format :: "(string \<Rightarrow> string) option"

record 'a union_data =
  ud_selects :: "(string \<times> 'a sel_query) list"
  ud_limit :: string
  ud_order_by :: "string list"
  ud_format :: "(string \<Rightarrow> string) option"

definition new_union :: "'a union_data" where
  "new_union = \<lparr>ud_selects = [], ud_limit = [], ud_order_by = [], ud_format = None\<rparr>"

definition union_add :: "'a sel_query \<Rightarrow> 'a union_data \<Rightarrow> 'a union_data" where
  "union_add sel u = u\<lparr>ud_selects := ud_selects u @ [(''UNION'', sel)]\<rparr>"

definition set_first_select :: "'a sel_query \<Rightarrow> 'a union_data \<Rightarrow> 'a union_data" where
  "set_first_select sel u = u\<lparr>ud_format := us_format sel, ud_selects := ud_selects u @ [([], sel)]\<rparr>"

definition union_of :: "'a sel_query \<Rightarrow> 'a sel_query \<Rightarrow> 'a union_data" where
  "union_of a b = union_add b (set_first_select a new_union)"

definition union_limit :: "nat \<Rightarrow> 'a union_data \<Rightarrow> 'a union_data" where
  "union_limit n u = u\<lparr>ud_limit := show_nat n\<rparr>"

definition union_order_by :: "string list \<Rightarrow> 'a union_data \<Rightarrow> 'a union_data" where
  "union_order_by cols u = u\<lparr>ud_order_by := cols\<rparr>"

definition union_placeholder_format :: "(string \<Rightarrow> string) \<Rightarrow> 'a union_data \<Rightarrow> 'a union_data" where
  "union_placeholder_format fmt u = u\<lparr>ud_format := Some fmt\<rparr>"

text \<open>The loop over the selects from index \<open>index\<close>.\<close>

fun union_loop :: "nat \<Rightarrow> (string \<times> 'a sel_query) list \<Rightarrow> string \<Rightarrow> 'a list \<Rightarrow> 'a to_sql" where
  "union_loop index [] buf args = Inr (buf, args)"
| "union_loop index ((op, sel) # sels) buf args =
     (case us_sql sel of
        Inl e \<Rightarrow> Inl e
      | Inr (sel_sql, sel_args) \<Rightarrow>
          union_loop (Suc index) sels
            (if index = 0 then buf @ sel_sql else buf @ '' '' @ op @ '' ( '' @ sel_sql @ '' ) '')
            (args @ sel_args))"

text \<open>\<^verbatim>\<open>ToSql\<close>: \<^const>\<open>None\<close> is the panic on a placeholder format that was never set.\<close>

definition union_to_sql :: "'a union_data \<Rightarrow> 'a to_sql option" where
  "union_to_sql u =
     (if ud_selects u = [] then Some (Inl ''require a minimum of 1 select clause in UnionBuilder'')
      else (case union_loop 0 (ud_selects u) [] [] of
              Inl e \<Rightarrow> Some (Inl e)
            | Inr (buf, args) \<Rightarrow>
                let buf1 = (if ud_order_by u \<noteq> [] then buf @ '' ORDER BY '' @ join_with '','' (ud_order_by u) else buf);
                    buf2 = (if ud_limit u \<noteq> [] then buf1 @ '' LIMIT '' @ ud_limit u else buf1)
                in (case ud_format u of None \<Rightarrow> None | Some fmt \<Rightarrow> Some (Inr (fmt buf2, args)))))"

text \<open>\<^verbatim>\<open>SelectFromUnion\<close>: the table the outer query selects from; \<open>sq_alias\<close> is the builder's text for an alias.\<close>

definition select_from_union :: "(string \<Rightarrow> string \<Rightarrow> string) \<Rightarrow> 'a union_data \<Rightarrow> string \<Rightarrow> 'a to_sql option" where
  "select_from_union sq_alias u alias =
     map_option (map_sum id (map_prod (\<lambda>sql. sq_alias sql alias) id))
       (union_to_sql (union_placeholder_format (\<lambda>s. s) u))"

section \<open>Facts on names\<close>

text \<open>A word of a field name: a capital and small letters, or digits.\<close>

definition camel_word :: "string \<Rightarrow> bool" where
  "camel_word w \<longleftrightarrow> (\<exists>c ls. w = c # ls \<and> is_upper_letter c \<and> ls \<noteq> [] \<and> list_all is_lower_letter ls)"

definition digit_word :: "string \<Rightarrow> bool" where
  "digit_word w \<longleftrightarrow> w \<noteq> [] \<and> list_all is_digit w"

text \<open>Such words, without two numbers next to each other.\<close>

fun field_words :: "string list \<Rightarrow> bool" where
  "field_words [] = True"
| "field_words (w # ws) \<longleftrightarrow> (camel_word w \<or> digit_word w) \<and> (digit_word w \<longrightarrow> ws = [] \<or> \<not> digit_word (hd ws)) \<and> field_words ws"

lemma letter_classes:
  "is_lower_letter c \<Longrightarrow> \<not> is_upper_letter c" "is_lower_letter c \<Longrightarrow> \<not> is_digit c"
  "is_digit c \<Longrightarrow> \<not> is_upper_letter c" "is_digit c \<Longrightarrow> \<not> is_lower_letter c"
  "is_upper_letter c \<Longrightarrow> \<not> is_digit c"
  by (auto simp: is_lower_letter_def is_upper_letter_def is_digit_def)

lemma lower_char_same: "\<not> is_upper_letter c \<Longrightarrow> lower_char c = c"
  by (simp add: lower_char_def)

lemma ascii_unicode_simps [simp]:
  "un_is_upper ascii_unicode = is_upper_letter" "un_is_lower ascii_unicode = is_lower_letter"
  "un_is_digit ascii_unicode = is_digit" "un_to_lower ascii_unicode = lower_char" "un_underscore ascii_unicode = CHR ''_''"
  by (simp_all add: ascii_unicode_def)

lemmas letters = is_lower_letter_def is_upper_letter_def is_digit_def

lemma lower_same:
  "list_all is_lower_letter ls \<Longrightarrow> map lower_char ls = ls" "list_all is_digit ls \<Longrightarrow> map lower_char ls = ls"
  by (induction ls) (auto simp: lower_char_def letters)

lemma snake_loop_lower:
  "list_all is_lower_letter ls \<Longrightarrow> snake_loop ascii_unicode p (ls @ rest) = ls @ snake_loop ascii_unicode (last (p # ls)) rest"
  by (induction ls arbitrary: p) (auto dest: letter_classes)

lemma snake_loop_digits:
  "list_all is_digit ds \<Longrightarrow> is_digit p \<Longrightarrow> snake_loop ascii_unicode p (ds @ rest) = ds @ snake_loop ascii_unicode (last (p # ds)) rest"
  by (induction ds arbitrary: p) (auto dest: letter_classes)

text \<open>What may precede the next word, so that it gets its underscore.\<close>

definition word_end :: "char \<Rightarrow> string list \<Rightarrow> bool" where
  "word_end p ws \<longleftrightarrow> is_lower_letter p \<or> is_digit p \<and> (ws = [] \<or> \<not> digit_word (hd ws))"

lemma snake_loop_words:
  "field_words ws \<Longrightarrow> word_end p ws \<Longrightarrow>
   snake_loop ascii_unicode p (concat ws) = concat (map (\<lambda>w. CHR ''_'' # map lower_char w) ws)"
proof (induction ws arbitrary: p)
  case (Cons w ws)
  have fw: "field_words ws" using Cons.prems(1) by simp
  consider (camel) "camel_word w" | (digit) "digit_word w" using Cons.prems(1) by auto
  then show ?case
  proof cases
    case camel
    then obtain c ls where w: "w = c # ls" "is_upper_letter c" "ls \<noteq> []" "list_all is_lower_letter ls" by (auto simp: camel_word_def)
    have p: "is_lower_letter p \<or> is_digit p" using Cons.prems(2) by (auto simp: word_end_def)
    have "is_lower_letter (last ls)" using w(3,4) by (simp add: list_all_iff)
    then have e: "word_end (last (c # ls)) ws" using w(3) by (simp add: word_end_def)
    have m: "map lower_char ls = ls" using w(4) by (rule lower_same)
    show ?thesis using Cons.IH[OF fw e] p w m by (simp add: snake_loop_lower)
  next
    case digit
    then obtain c ds where w: "w = c # ds" "is_digit c" "list_all is_digit ds" by (cases w) (auto simp: digit_word_def)
    have p: "is_lower_letter p" using Cons.prems(2) digit by (auto simp: word_end_def)
    have "is_digit (last (c # ds))" using w(2,3) by (cases ds rule: rev_cases) auto
    then have e: "word_end (last (c # ds)) ws" using Cons.prems(1) digit by (simp add: word_end_def)
    have m: "map lower_char ds = ds" using w(3) by (rule lower_same)
    have "\<not> is_upper_letter c" "\<not> is_digit p" using w(2) p by (auto dest: letter_classes)
    then show ?thesis using Cons.IH[OF fw e] w m by (simp add: snake_loop_digits lower_char_same)
  qed
qed simp

lemma join_with_concat: "join_with [d] (w # ws) = w @ concat (map (\<lambda>w. d # w) ws)"
  by (induction ws arbitrary: w) auto

lemma snake_case_join:
  assumes "field_words ws"
  shows "snake_case (concat ws) = join_with ''_'' (map (map lower_char) ws)"
proof (cases ws)
  case (Cons w ws')
  have fw: "field_words ws'" using assms Cons by simp
  consider (camel) "camel_word w" | (digit) "digit_word w" using assms Cons by auto
  then show ?thesis
  proof cases
    case camel
    then obtain c ls where w: "w = c # ls" "ls \<noteq> []" "list_all is_lower_letter ls" by (auto simp: camel_word_def)
    have "is_lower_letter (last ls)" using w(2,3) by (simp add: list_all_iff)
    then have e: "word_end (last (c # ls)) ws'" using w(2) by (simp add: word_end_def)
    have m: "map lower_char ls = ls" using w(3) by (rule lower_same)
    have "snake_case (concat ws) = lower_char c # ls @ concat (map (\<lambda>w. CHR ''_'' # map lower_char w) ws')"
      using snake_loop_words[OF fw e] w by (simp add: snake_case_def Cons snake_loop_lower)
    then show ?thesis by (simp only: Cons list.map join_with_concat w(1) m append_Cons map_map comp_def)
  next
    case digit
    then obtain c ds where w: "w = c # ds" "is_digit c" "list_all is_digit ds" by (cases w) (auto simp: digit_word_def)
    have "is_digit (last (c # ds))" using w(2,3) by (cases ds rule: rev_cases) auto
    then have e: "word_end (last (c # ds)) ws'" using assms Cons digit by (simp add: word_end_def)
    have m: "map lower_char ds = ds" using w(3) by (rule lower_same)
    have "snake_case (concat ws) = lower_char c # ds @ concat (map (\<lambda>w. CHR ''_'' # map lower_char w) ws')"
      using snake_loop_words[OF fw e] w by (simp add: snake_case_def Cons snake_loop_digits)
    then show ?thesis by (simp only: Cons list.map join_with_concat w(1) m append_Cons map_map comp_def)
  qed
qed (simp add: snake_case_def)

lemma snake_loop_chars:
  "c \<in> set (snake_loop ascii_unicode p s) \<Longrightarrow> (\<exists>x\<in>set s. c = lower_char x) \<or> c = CHR ''_''"
  by (induction s arbitrary: p) (auto simp: lower_char_same split: if_splits)

lemma split_join_words: "ws \<noteq> [] \<Longrightarrow> \<forall>w\<in>set ws. d \<notin> set w \<Longrightarrow> split_char d (join_with [d] ws) = ws"
  by (induction ws rule: induct_list012) (auto simp: split_char_append split_char_none)

text \<open>
  Field names and columns.  A field name that consists of capitalised words and numbers becomes
  the column that joins the words in small letters by underscores, from which they can be read back:
  fields made of different words never share a column.  Whatever the name is, a column made from
  letters, digits and underscores has no other characters, and no capitals.
\<close>
theorem snake_case_words:
  "(\<forall>ws. field_words ws \<and> ws \<noteq> [] \<longrightarrow> split_char (CHR ''_'') (snake_case (concat ws)) = map (map lower_char) ws)
    \<and> (\<forall>name. (\<forall>c\<in>set name. is_upper_letter c \<or> is_lower_letter c \<or> is_digit c \<or> c = CHR ''_'') \<longrightarrow>
        (\<forall>c\<in>set (snake_case name). is_lower_letter c \<or> is_digit c \<or> c = CHR ''_''))"
proof (intro conjI allI impI ballI)
  fix ws :: "string list" assume ws: "field_words ws \<and> ws \<noteq> []"
  have "field_words ws \<Longrightarrow> w \<in> set ws \<Longrightarrow> CHR ''_'' \<notin> set (map lower_char w)" for w
  proof (induction ws)
    case (Cons v ws)
    have "CHR ''_'' \<notin> set (map lower_char w)" if "camel_word w \<or> digit_word w"
    proof -
      have "\<forall>c\<in>set w. is_upper_letter c \<or> is_lower_letter c \<or> is_digit c"
        using that by (auto simp: camel_word_def digit_word_def list_all_iff)
      moreover have "lower_char c \<noteq> CHR ''_''" if "is_upper_letter c \<or> is_lower_letter c \<or> is_digit c" for c
      proof
        assume "lower_char c = CHR ''_''"
        then have "byte (lower_char c) = 95" by simp
        then show False using that by (auto simp: byte_lower_char is_upper_letter_def is_lower_letter_def is_digit_def split: if_splits)
      qed
      ultimately show ?thesis by fastforce
    qed
    with Cons show ?case by auto
  qed simp
  then have "\<forall>w\<in>set (map (map lower_char) ws). CHR ''_'' \<notin> set w" using ws by auto
  then show "split_char (CHR ''_'') (snake_case (concat ws)) = map (map lower_char) ws"
    using ws split_join_words[of "map (map lower_char) ws" "CHR ''_''"] by (simp add: snake_case_join)
next
  fix name c
  assume n: "\<forall>c\<in>set name. is_upper_letter c \<or> is_lower_letter c \<or> is_digit c \<or> c = CHR ''_''" and c: "c \<in> set (snake_case name)"
  have "(\<exists>x\<in>set name. c = lower_char x) \<or> c = CHR ''_''"
    using c snake_loop_chars by (cases name) (auto simp: snake_case_def)
  then show "is_lower_letter c \<or> is_digit c \<or> c = CHR ''_''"
    using n by (auto simp: is_lower_letter_def is_upper_letter_def is_digit_def byte_lower_char)
      (auto simp: lower_char_def is_lower_letter_def is_upper_letter_def is_digit_def)
qed

lemma snake_case_words_witness:
  "split_char (CHR ''_'') (snake_case ''SortOrder2'') = [''sort'', ''order'', ''2'']"
proof -
  have f: "field_words [''Sort'', ''Order'', ''2''] \<and> [''Sort'', ''Order'', ''2''] \<noteq> []"
    by (simp add: camel_word_def digit_word_def is_upper_letter_def is_lower_letter_def is_digit_def)
  have m: "map (map lower_char) [''Sort'', ''Order'', ''2''] = [''sort'', ''order'', ''2'']" by code_simp
  show ?thesis using snake_case_words[THEN conjunct1, rule_format, OF f] unfolding m by simp
qed

section \<open>Facts on values\<close>

lemma digits_val_append: "digits_val (a @ b) = digits_val a * 10 ^ length b + digits_val b"
  by (induction b rule: rev_induct) (simp_all flip: append_assoc)

lemma digits_val_zeros: "digits_val (replicate n (CHR ''0'') @ ds) = digits_val ds"
proof -
  have "foldl (\<lambda>a c. 10 * a + digit_val c) 0 (replicate n (CHR ''0'')) = 0"
    by (induction n) (simp_all add: digit_val_def)
  then show ?thesis by (simp add: digits_val_append) (simp add: digits_val_def)
qed

lemma show_nat_length: "n < 10 ^ w \<Longrightarrow> 0 < w \<Longrightarrow> length (show_nat n) \<le> w"
proof (induction n arbitrary: w rule: show_nat.induct)
  case (1 n)
  show ?case
  proof (cases "n < 10")
    case True
    then show ?thesis using 1 by (simp add: show_nat.simps[of n])
  next
    case False
    then obtain v where w: "w = Suc v" "0 < v" using "1.prems" by (cases w; cases "w - 1") auto
    have "n div 10 < 10 ^ v" using "1.prems"(1) w by (simp add: div_less_iff_less_mult mult.commute)
    then show ?thesis using "1.IH"[OF False _ w(2)] False w by (simp add: show_nat.simps[of n])
  qed
qed

lemma pad_int_digits:
  assumes "0 \<le> i" "i < 10 ^ w" "0 < w"
  shows "length (pad_int w i) = w \<and> list_all is_digit (pad_int w i) \<and> int (digits_val (pad_int w i)) = i"
proof -
  have "nat i < 10 ^ w" using assms by (simp add: nat_less_iff)
  then have "length (show_nat (nat i)) \<le> w" using assms(3) by (rule show_nat_length)
  moreover have "list_all is_digit (replicate k (CHR ''0''))" for k by (simp add: list_all_iff is_digit_def)
  ultimately show ?thesis using assms(1) by (simp add: pad_int_def Let_def digits_val_zeros)
qed

text \<open>A day as JSON gives the day back, without its time of day; \<open>decode\<close> need only read plain quoted texts.\<close>

definition json_plain_ok :: "(string \<Rightarrow> string + string) \<Rightarrow> bool" where
  "json_plain_ok decode \<longleftrightarrow>
     (\<forall>t. list_all (\<lambda>c. is_digit c \<or> c = CHR ''-'') t \<longrightarrow> decode (quote_char # t @ [quote_char]) = Inr t)"

lemma length_4: "length xs = 4 \<Longrightarrow> \<exists>a b c d. xs = [a, b, c, d]" and length_2: "length ys = 2 \<Longrightarrow> \<exists>a b. ys = [a, b]"
  by (auto simp: numeral_eq_Suc length_Suc_conv)

lemma parse_format_date:
  assumes d: "valid_time d" "0 \<le> lt_year d" "lt_year d < 10000"
  shows "parse_date (format_date d) = Inr (d\<lparr>lt_nanos := 0\<rparr>)" "list_all (\<lambda>c. is_digit c \<or> c = CHR ''-'') (format_date d)"
proof -
  have dd: "1 \<le> lt_day d" "lt_day d < 100" "1 \<le> lt_month d" "lt_month d < 100"
    using d by (auto simp: valid_time_def days_in_def split: if_splits)
  have y: "length (pad_int 4 (lt_year d)) = 4" "list_all is_digit (pad_int 4 (lt_year d))" "int (digits_val (pad_int 4 (lt_year d))) = lt_year d"
    using pad_int_digits[of "lt_year d" 4] d by simp_all
  have m: "length (pad_int 2 (lt_month d)) = 2" "list_all is_digit (pad_int 2 (lt_month d))" "int (digits_val (pad_int 2 (lt_month d))) = lt_month d"
    using pad_int_digits[of "lt_month d" 2] dd by simp_all
  have t: "length (pad_int 2 (lt_day d)) = 2" "list_all is_digit (pad_int 2 (lt_day d))" "int (digits_val (pad_int 2 (lt_day d))) = lt_day d"
    using pad_int_digits[of "lt_day d" 2] dd by simp_all
  obtain y1 y2 y3 y4 where Y: "pad_int 4 (lt_year d) = [y1, y2, y3, y4]" using length_4[OF y(1)] by blast
  obtain m1 m2 where M: "pad_int 2 (lt_month d) = [m1, m2]" using length_2[OF m(1)] by blast
  obtain d1 d2 where D: "pad_int 2 (lt_day d) = [d1, d2]" using length_2[OF t(1)] by blast
  have f: "format_date d = [y1, y2, y3, y4, CHR ''-'', m1, m2, CHR ''-'', d1, d2]" by (simp add: format_date_def Y M D)
  show "list_all (\<lambda>c. is_digit c \<or> c = CHR ''-'') (format_date d)" using y(2) m(2) t(2) by (simp add: f Y M D)
  show "parse_date (format_date d) = Inr (d\<lparr>lt_nanos := 0\<rparr>)"
    using d y(2,3) m(2,3) t(2,3) by (simp add: f Y M D Let_def valid_time_def)
qed

text \<open>
  Dates survive JSON.  Every valid date of the years 0 to 9999 is read back from the JSON text it is
  written as, at midnight; and whatever text is accepted denotes a day of the calendar.
\<close>
theorem date_json_roundtrip:
  assumes "json_plain_ok decode"
  shows "(\<forall>d. valid_time d \<and> 0 \<le> lt_year d \<and> lt_year d < 10000 \<longrightarrow>
        date_unmarshal_json decode (date_marshal_json d) = Inr (d\<lparr>lt_nanos := 0\<rparr>))
    \<and> (\<forall>b d. date_unmarshal_json decode b = Inr d \<longrightarrow> valid_time d \<and> 0 \<le> lt_year d \<and> lt_year d < 10000)"
proof (intro conjI allI impI)
  fix d assume d: "valid_time d \<and> 0 \<le> lt_year d \<and> lt_year d < 10000"
  then have "decode (date_marshal_json d) = Inr (format_date d)"
    using assms parse_format_date(2)[of d] by (simp add: json_plain_ok_def date_marshal_json_def)
  then show "date_unmarshal_json decode (date_marshal_json d) = Inr (d\<lparr>lt_nanos := 0\<rparr>)"
    using d parse_format_date(1)[of d] by (simp add: date_unmarshal_json_def)
next
  fix b d assume "date_unmarshal_json decode b = Inr d"
  then obtain s where p: "parse_date s = Inr d" by (auto simp: date_unmarshal_json_def split: sum.splits)
  show "valid_time d" using p by (induction s rule: parse_date.induct) (auto simp: Let_def valid_time_def split: if_splits)
  show "0 \<le> lt_year d" using p by (induction s rule: parse_date.induct) (auto simp: Let_def split: if_splits)
  show "lt_year d < 10000"
    using p
  proof (induction s rule: parse_date.induct)
    case (1 y1 y2 y3 y4 s1 m1 m2 s2 d1 d2)
    then have "list_all is_digit [y1, y2, y3, y4]" "lt_year d = int (digits_val [y1, y2, y3, y4])"
      by (auto simp: Let_def split: if_splits)
    then show ?case using digits_val_bound[of "[y1, y2, y3, y4]"] by simp
  qed auto
qed

definition sample_decode :: "string \<Rightarrow> string + string" where
  "sample_decode b =
     (if 2 \<le> length b \<and> hd b = quote_char \<and> last b = quote_char then Inr (butlast (tl b)) else Inl ''invalid character'')"

lemma date_json_roundtrip_witness:
  "date_unmarshal_json sample_decode (date_marshal_json \<lparr>lt_year = 2024, lt_month = 2, lt_day = 29, lt_nanos = 5\<rparr>)
     = Inr \<lparr>lt_year = 2024, lt_month = 2, lt_day = 29, lt_nanos = 0\<rparr>"
proof -
  have ok: "json_plain_ok sample_decode" by (auto simp: json_plain_ok_def sample_decode_def)
  have "valid_time \<lparr>lt_year = 2024, lt_month = 2, lt_day = 29, lt_nanos = 5\<rparr>" by (simp add: valid_time_def days_in_def is_leap_def)
  then show ?thesis using date_json_roundtrip[OF ok, THEN conjunct1, rule_format] by fastforce
qed

text \<open>A point written for the database is read back when floats are, and their texts hold no commas or parentheses.\<close>

lemma point_roundtrip:
  assumes "\<And>x. fl_parse F (fl_format F x) = (x, None)" "\<And>x. fl_format F x \<noteq> [] \<and> set (fl_format F x) \<inter> set ''(),'' = {}"
    and "np_valid p" and "point_value F p = DvString t"
  shows "point_scan F (DvBytes t) = Some (None, p)"
proof -
  let ?x = "fl_format F (np_x p)" and ?y = "fl_format F (np_y p)"
  have t: "t = CHR ''('' # (?x @ CHR '','' # ?y) @ [CHR '')'']" using assms(3,4) by (simp add: point_value_def)
  have n: "?x \<noteq> []" "?y \<noteq> []" "set ?x \<inter> {CHR ''('', CHR '')'', CHR '',''} = {}" "set ?y \<inter> {CHR ''('', CHR '')'', CHR '',''} = {}"
    using assms(2)[of "np_x p"] assms(2)[of "np_y p"] by auto
  let ?P = "\<lambda>c. c \<in> set [CHR ''('', CHR '')'']"
  have hd: "hd ?x \<in> set ?x" "last ?y \<in> set ?y" using n(1,2) by simp_all
  have l: "dropWhile ?P t = (?x @ CHR '','' # ?y) @ [CHR '')'']"
    using n hd by (cases ?x) (auto simp: t)
  have "dropWhile ?P (rev ((?x @ CHR '','' # ?y) @ [CHR '')''])) = rev (?x @ CHR '','' # ?y)"
    using n hd by (cases ?y rule: rev_cases) auto
  then have trim: "trim_set [CHR ''('', CHR '')''] t = ?x @ CHR '','' # ?y" unfolding trim_set_def l by simp
  have "CHR '','' \<notin> set ?x" "CHR '','' \<notin> set ?y" using n by auto
  then have "split_char (CHR '','') (?x @ CHR '','' # ?y) = [?x, ?y]" by (simp add: split_char_append split_char_none)
  then show ?thesis using assms(1,3) by (simp add: trim)
qed

text \<open>A text without a comma makes \<^verbatim>\<open>Scan\<close> panic, and so does the string that \<^verbatim>\<open>Value\<close> makes.\<close>

lemma point_scan_panics:
  assumes "fl_parse F ''1'' = (x, None)"
  shows "point_scan F (DvBytes ''(1)'') = None" and "np_valid p \<Longrightarrow> point_scan F (point_value F p) = None"
  using assms by (simp_all add: trim_set_def point_value_def)


section \<open>Facts on queries\<close>

text \<open>What \<^verbatim>\<open>TxLastError\<close> keeps of an error.\<close>

definition recorded :: "tx_error option \<Rightarrow> string option" where
  "recorded err = (case err of None \<Rightarrow> None | Some e \<Rightarrow> if e = ErrNoRows then None else Some (tx_error_text e))"

definition keep_last :: "tx_error option \<Rightarrow> string option \<Rightarrow> string option" where
  "keep_last err prev = (case recorded err of None \<Rightarrow> prev | Some t \<Rightarrow> Some t)"

lemma keep_last_idem [simp]: "keep_last err (keep_last err prev) = keep_last err prev"
  by (simp add: keep_last_def split: option.split)

lemma report_error_simps [simp]:
  "last_error (qs_tx (report_error err st)) = keep_last err (last_error (qs_tx st))"
  "db_work (qs_tx (report_error err st)) = db_work (qs_tx st)"
  "qs_hooked (report_error err st) = qs_hooked st" "qs_hooks (report_error err st) = qs_hooks st"
  by (auto simp: report_error_def report_tx_error_def keep_last_def recorded_def split: option.splits tx_error.splits)

lemma after_hook_simps [simp]:
  "qs_tx (after_hook m q err st) = qs_tx st" "qs_hooked (after_hook m q err st) = qs_hooked st"
  "qs_hooks (after_hook m q err st) = qs_hooks st @ (if qs_hooked st then [(m, q, err)] else [])"
  by (simp_all add: after_hook_def)

text \<open>
  What every query function promises: the driver runs once, the hook sees the query with its error,
  and the error is recorded.
\<close>

locale db_query =
  fixes runs :: "('s, 'v) driver_call \<Rightarrow> string \<Rightarrow> ('s, 'c) query_state \<Rightarrow> (tx_error + 'v) \<times> ('s, 'c) query_state"
    and label :: string
  assumes answer: "fst (runs call query st) = fst (call (db_work (qs_tx st)))"
    and work: "db_work (qs_tx (snd (runs call query st))) = snd (call (db_work (qs_tx st)))"
    and last: "last_error (qs_tx (snd (runs call query st))) = keep_last (error_part (fst (call (db_work (qs_tx st))))) (last_error (qs_tx st))"
    and hooked: "qs_hooked (snd (runs call query st)) = qs_hooked st"
    and hooks: "qs_hooks (snd (runs call query st)) =
      qs_hooks st @ (if qs_hooked st then [(label, query, error_part (fst (call (db_work (qs_tx st)))))] else [])"
begin

fun run_list :: "(('s, 'v) driver_call \<times> string) list \<Rightarrow> ('s, 'c) query_state \<Rightarrow> (tx_error + 'v) list \<times> ('s, 'c) query_state" where
  "run_list [] st = ([], st)"
| "run_list ((call, query) # qs) st =
     (case runs call query st of (r, st1) \<Rightarrow> (case run_list qs st1 of (rs, st2) \<Rightarrow> (r # rs, st2)))"

lemma run_list_recorded:
  "last_error (qs_tx (snd (run_list qs st))) = fold keep_last (map error_part (fst (run_list qs st))) (last_error (qs_tx st))
    \<and> qs_hooks (snd (run_list qs st)) = qs_hooks st @
        (if qs_hooked st then map (\<lambda>((call, query), r). (label, query, error_part r)) (zip qs (fst (run_list qs st))) else [])
    \<and> length (fst (run_list qs st)) = length qs"
proof (induction qs arbitrary: st)
  case (Cons q qs)
  obtain call query where q: "q = (call, query)" by fastforce
  show ?case
    using Cons.IH[of "snd (runs call query st)"] answer[of call query st] last[of call query st] hooked[of call query st] hooks[of call query st]
    by (simp add: q case_prod_beta)
qed simp

end

lemma run_driver_simps [simp]:
  "fst (run_driver call st) = fst (call (db_work (qs_tx st)))"
  "db_work (qs_tx (snd (run_driver call st))) = snd (call (db_work (qs_tx st)))"
  "last_error (qs_tx (snd (run_driver call st))) = last_error (qs_tx st)"
  "qs_hooked (snd (run_driver call st)) = qs_hooked st" "qs_hooks (snd (run_driver call st)) = qs_hooks st"
  by (simp_all add: run_driver_def split: prod.split)

lemma keep_last_none [simp]: "keep_last None prev = prev"
  by (simp add: keep_last_def recorded_def)

interpretation gq: db_query get_context "''GetContext''"
  by unfold_locales (simp_all add: get_context_def case_prod_beta)

interpretation sq: db_query select_context "''SelectContext''"
  by unfold_locales (auto simp: select_context_def case_prod_beta error_part_def split: sum.split)

interpretation iq: db_query "\<lambda>call. insert_context True call last_id" "''Insert''"
  for last_id
  by unfold_locales (simp_all add: insert_context_def case_prod_beta)

interpretation eq: db_query "\<lambda>call query st. map_prod (\<lambda>err. case err of None \<Rightarrow> Inr () | Some e \<Rightarrow> Inl e) id (exec_context call query st)" "''ExecContext''"
proof
  fix call :: "('s, unit) driver_call" and query and st :: "('s, 'c) query_state"
  have u: "(case error_part r of None \<Rightarrow> Inr () | Some e \<Rightarrow> Inl e) = (r :: tx_error + unit)" for r
    by (cases r) (simp_all add: error_part_def)
  show "fst (map_prod (\<lambda>err. case err of None \<Rightarrow> Inr () | Some e \<Rightarrow> Inl e) id (exec_context call query st)) = fst (call (db_work (qs_tx st)))"
    by (simp add: exec_context_def case_prod_beta Let_def u)
qed (simp_all add: exec_context_def case_prod_beta Let_def)

text \<open>
  No failed query goes unnoticed.  After a run of row selections in a transaction, each a single
  call of the driver, the hook has seen every one of them in order with the error it ended in, and
  \<^verbatim>\<open>TxLastError\<close> is the last error that is not merely the absence of rows.
\<close>
theorem queries_recorded:
  "last_error (qs_tx (snd (sq.run_list qs st))) = fold keep_last (map error_part (fst (sq.run_list qs st))) (last_error (qs_tx st))
    \<and> qs_hooks (snd (sq.run_list qs st)) = qs_hooks st @
        (if qs_hooked st then map (\<lambda>((call, query), r). (''SelectContext'', query, error_part r)) (zip qs (fst (sq.run_list qs st))) else [])
    \<and> length (fst (sq.run_list qs st)) = length qs"
  by (rule sq.run_list_recorded)

text \<open>The \<open>must\<close> functions panic exactly on the errors, with the same record.\<close>

lemma must_panics_iff:
  "(\<exists>e. fst (must_get_context call query st) = Panics e) \<longleftrightarrow> error_part (fst (call (db_work (qs_tx st)))) \<noteq> None"
  "(\<exists>e. fst (must_select_context call query st) = Panics e) \<longleftrightarrow> error_part (fst (call (db_work (qs_tx st)))) \<noteq> None"
  "last_error (qs_tx (snd (must_get_context call query st))) = last_error (qs_tx (snd (get_context call query st)))"
  using gq.answer[of call query st] sq.answer[of call query st] gq.last[of call query st]
  by (auto simp: must_get_context_def must_select_context_def must_of_def error_part_def split: sum.splits prod.splits)

text \<open>
  The scan of a row overwrites the record, unlike every other query: an error-free scan erases the
  error of an earlier query, and the absence of rows is recorded.
\<close>

lemma scan_erases_error:
  "last_error (qs_tx (snd (row_scan \<lparr>rw_answer = Inr v, rw_must = m\<rparr> st))) = None"
  "last_error (qs_tx (snd (row_scan \<lparr>rw_answer = Inl ErrNoRows, rw_must = False\<rparr> st))) = Some ''sql: no rows in result set''"
  by (simp_all add: row_scan_def error_part_def Let_def)

text \<open>A query that could not be built is run all the same, as an empty text.\<close>

lemma unbuilt_query_runs: "sq_query_row_context (Inl e) run st = query_row_context (run [] []) [] st"
  by (simp add: sq_query_row_context_def)

section \<open>Facts on unions\<close>

definition placeholders :: "string \<Rightarrow> nat" where
  "placeholders s = length (filter (\<lambda>c. c = CHR ''?'') s)"

lemma placeholders_simps [simp]:
  "placeholders [] = 0" "placeholders (a @ b) = placeholders a + placeholders b"
  "placeholders (c # a) = (if c = CHR ''?'' then 1 else 0) + placeholders a"
  by (simp_all add: placeholders_def)

lemma union_loop_args:
  "union_loop index sels buf args = Inr (sql, as) \<Longrightarrow> placeholders buf = length args \<Longrightarrow>
   \<forall>(op, sel)\<in>set sels. placeholders op = 0 \<and> (\<forall>q xs. us_sql sel = Inr (q, xs) \<longrightarrow> placeholders q = length xs) \<Longrightarrow>
   placeholders sql = length as \<and> as = args @ concat (map (\<lambda>(op, sel). case us_sql sel of Inl e \<Rightarrow> [] | Inr (q, xs) \<Rightarrow> xs) sels)"
  by (induction index sels buf args rule: union_loop.induct) (auto split: sum.splits if_splits)

lemma placeholders_join: "\<forall>p\<in>set ps. placeholders p = 0 \<Longrightarrow> placeholders (join_with '','' ps) = 0"
  by (induction ps rule: induct_list012) auto

lemma placeholders_show_nat [simp]: "placeholders (show_nat n) = 0"
proof -
  have "c \<noteq> CHR ''?''" if "c \<in> set (show_nat n)" for c
    using that show_nat_digits[of n] by (auto simp: list_all_iff is_digit_def)
  then show ?thesis by (auto simp: placeholders_def filter_empty_conv)
qed

text \<open>
  Unions keep arguments and placeholders together.  When every select has as many arguments as
  placeholders, so has the text of their union before it is numbered, and the arguments are those of
  the selects in their order.
\<close>
theorem union_args_match:
  assumes "union_to_sql (union_limit n (union_order_by cols (union_of a b))) = Some (Inr (sql, args))"
    and "\<forall>sel\<in>{a, b}. \<forall>q xs. us_sql sel = Inr (q, xs) \<longrightarrow> placeholders q = length xs"
    and "\<forall>c\<in>set cols. placeholders c = 0"
  shows "\<exists>fmt buf qa xa qb xb. us_format a = Some fmt \<and> sql = fmt buf \<and> placeholders buf = length args
    \<and> us_sql a = Inr (qa, xa) \<and> us_sql b = Inr (qb, xb) \<and> args = xa @ xb"
proof -
  obtain fmt where f: "us_format a = Some fmt"
    using assms(1) by (auto simp: union_to_sql_def union_limit_def union_order_by_def union_of_def union_add_def set_first_select_def
        new_union_def Let_def split: sum.splits option.splits)
  obtain qa xa where a: "us_sql a = Inr (qa, xa)"
    using assms(1) by (auto simp: union_to_sql_def union_limit_def union_order_by_def union_of_def union_add_def set_first_select_def
        new_union_def Let_def split: sum.splits option.splits)
  obtain qb xb where b: "us_sql b = Inr (qb, xb)"
    using assms(1) a by (auto simp: union_to_sql_def union_limit_def union_order_by_def union_of_def union_add_def set_first_select_def
        new_union_def Let_def split: sum.splits option.splits)
  let ?buf = "qa @ '' UNION ( '' @ qb @ '' ) ''"
  let ?buf1 = "if cols \<noteq> [] then ?buf @ '' ORDER BY '' @ join_with '','' cols else ?buf"
  have "sql = fmt (?buf1 @ '' LIMIT '' @ show_nat n) \<and> args = xa @ xb"
    using assms(1) f a b by (auto simp: union_to_sql_def union_limit_def union_order_by_def union_of_def union_add_def set_first_select_def
        new_union_def Let_def)
  moreover have "placeholders (?buf1 @ '' LIMIT '' @ show_nat n) = length (xa @ xb)"
    using assms(2) a b placeholders_join[OF assms(3)] by simp
  ultimately show ?thesis using f a b by blast
qed

lemma union_args_match_witness:
  "\<exists>fmt buf qa xa qb xb. Some (\<lambda>s. s) = Some fmt
    \<and> ''a = ? UNION ( b = ? )  ORDER BY id LIMIT 5'' = fmt buf \<and> placeholders buf = length [1, 2 :: nat]
    \<and> Inr (''a = ?'', [1]) = Inr (qa, xa) \<and> Inr (''b = ?'', [2]) = Inr (qb, xb) \<and> [1, 2 :: nat] = xa @ xb"
proof -
  let ?a = "\<lparr>us_sql = Inr (''a = ?'', [1 :: nat]), us_format = Some (\<lambda>s. s)\<rparr>"
  let ?b = "\<lparr>us_sql = Inr (''b = ?'', [2 :: nat]), us_format = None\<rparr>"
  have s5: "show_nat 5 = ''5''" by code_simp
  have u: "union_to_sql (union_limit 5 (union_order_by [''id''] (union_of ?a ?b)))
      = Some (Inr (''a = ? UNION ( b = ? )  ORDER BY id LIMIT 5'', [1, 2 :: nat]))"
    by (simp add: union_to_sql_def union_limit_def union_order_by_def union_of_def union_add_def set_first_select_def
        new_union_def Let_def s5)
  show ?thesis
    using union_args_match[OF u] by simp
qed

text \<open>A union built from \<^verbatim>\<open>NewUnion\<close> has no placeholder format: making its text panics.\<close>

lemma new_union_panics:
  "us_sql sel = Inr (q, xs) \<Longrightarrow> union_to_sql (union_add sel new_union) = None"
  by (simp add: union_to_sql_def union_add_def new_union_def Let_def)

end
