(* ===== verification/ModelUtil.thy ===== *)
theory ModelUtil
  imports RowMap
begin

text \<open>
  Package \<^verbatim>\<open>model/modelutil\<close>: tables as text, the columns of inserts and updates made from structs
  (\<^verbatim>\<open>main.go\<close>), and the caches that live in a context (\<^verbatim>\<open>cache.go\<close>, \<^verbatim>\<open>cache2.go\<close>).
\<close>

section \<open>Tables as text\<close>

text \<open>
  The libraries' part: decoding of UTF-8 into code points, their printability, base 64, and the
  texts of floats.
\<close>

record 'f text_lib =
  tl_utf8 :: "string \<Rightarrow> nat list option"
  tl_is_print :: "nat \<Rightarrow> bool"
  tl_base64 :: "string \<Rightarrow> string"
  tl_float :: "'f \<Rightarrow> string"

definition is_safe_string :: "'f text_lib \<Rightarrow> string \<Rightarrow> bool" where
  "is_safe_string L b =
     (case tl_utf8 L b of
        None \<Rightarrow> False
      | Some rs \<Rightarrow> list_all (\<lambda>r. r = 9 \<or> r = 10 \<or> r = 13 \<or> tl_is_print L r) rs)"

definition month_names :: "string list" where
  "month_names = [''Jan'', ''Feb'', ''Mar'', ''Apr'', ''May'', ''Jun'', ''Jul'', ''Aug'', ''Sep'', ''Oct'', ''Nov'', ''Dec'']"

text \<open>The layout \<^verbatim>\<open>2006-Jan-02 15:04:05\<close>.\<close>

definition format_table_time :: "local_time \<Rightarrow> string" where
  "format_table_time t =
     (let secs = lt_nanos t div 1000000000
      in pad_int 4 (lt_year t) @ ''-'' @ month_names ! nat (lt_month t - 1) @ ''-'' @ pad_int 2 (lt_day t) @ '' ''
         @ pad_int 2 (secs div 3600) @ '':'' @ pad_int 2 (secs div 60 mod 60) @ '':'' @ pad_int 2 (secs mod 60))"

fun string_scan :: "'f text_lib \<Rightarrow> string \<Rightarrow> 'f driver_value \<Rightarrow> string" where
  "string_scan L db_type DvNil = ''null''"
| "string_scan L db_type (DvInt v) = show_int v"
| "string_scan L db_type (DvFloat v) = tl_float L v"
| "string_scan L db_type (DvBool v) = (if v then ''true'' else ''false'')"
| "string_scan L db_type (DvBytes v) =
     (if db_type = ''NUMERIC'' then v else if is_safe_string L v then v else tl_base64 L v)"
| "string_scan L db_type (DvString v) = v"
| "string_scan L db_type (DvTime v) = format_table_time v"

record str_table =
  tb_headers :: "string list"
  tb_rows :: "string list list"

text \<open>
  The answer of a query: the columns with their types, the rows as \<^verbatim>\<open>Scan\<close> sees them (its error, or
  the values), and the error that ended the iteration, if one did.
\<close>

record 'f rows_answer =
  ra_columns :: "string + string list"
  ra_types :: "string + string list"
  ra_rows :: "(string + 'f driver_value list) list"
  ra_err :: "string option"

fun scan_rows :: "'f text_lib \<Rightarrow> string list \<Rightarrow> (string + 'f driver_value list) list \<Rightarrow> string + string list list" where
  "scan_rows L types [] = Inr []"
| "scan_rows L types (Inl e # rs) = Inl e"
| "scan_rows L types (Inr vs # rs) =
     (case scan_rows L types rs of
        Inl e \<Rightarrow> Inl e
      | Inr rows \<Rightarrow> Inr (map2 (string_scan L) types vs # rows))"

text \<open>
  \<^verbatim>\<open>SelectTable\<close>: \<open>begin_err\<close> is the outcome of opening a transaction, which happens when the context
  has none.
\<close>

definition select_table :: "'f text_lib \<Rightarrow> bool \<Rightarrow> string option \<Rightarrow> (string + 'f rows_answer) \<Rightarrow> string + str_table" where
  "select_table L has_tx begin_err answer =
     (case (if \<not> has_tx then begin_err else None) of
        Some e \<Rightarrow> Inl e
      | None \<Rightarrow>
          (case answer of
             Inl e \<Rightarrow> Inl e
           | Inr a \<Rightarrow>
               (case ra_columns a of
                  Inl e \<Rightarrow> Inl e
                | Inr cols \<Rightarrow>
                    (case ra_types a of
                       Inl e \<Rightarrow> Inl e
                     | Inr types \<Rightarrow>
                         (case scan_rows L types (ra_rows a) of
                            Inl e \<Rightarrow> Inl e
                          | Inr rows \<Rightarrow> Inr \<lparr>tb_headers = cols, tb_rows = rows\<rparr>)))))"

text \<open>The library's CSV writer with its defaults.\<close>

definition csv_needs_quotes :: "string \<Rightarrow> bool" where
  "csv_needs_quotes field =
     (if field = [] then False
      else if field = [CHR 0x5C, CHR ''.''] then True
      else list_ex (\<lambda>c. c = CHR '','' \<or> c = CHR 0x22 \<or> c = char_of (13 :: nat) \<or> c = char_of (10 :: nat)) field
           \<or> list_ex (\<lambda>r. has_prefix field r) space_runes)"

definition csv_field :: "string \<Rightarrow> string" where
  "csv_field field =
     (if csv_needs_quotes field
      then [CHR 0x22] @ concat (map (\<lambda>c. if c = CHR 0x22 then [c, c] else [c]) field) @ [CHR 0x22]
      else field)"

definition csv_record :: "string list \<Rightarrow> string" where
  "csv_record fs = join_with '','' (map csv_field fs) @ [char_of (10 :: nat)]"

definition to_csv :: "str_table \<Rightarrow> string" where
  "to_csv t = csv_record (tb_headers t) @ concat (map csv_record (tb_rows t))"

section \<open>Columns from structs\<close>

definition contains_field_name :: "string list \<Rightarrow> string \<Rightarrow> bool" where
  "contains_field_name names test \<longleftrightarrow> list_ex (\<lambda>value. value = test \<or> has_prefix test (value @ ''.'')) names"

definition is_sub_property :: "string \<Rightarrow> bool" where
  "is_sub_property k \<longleftrightarrow> str_contains k ''.''"

text \<open>The fields of a struct by the mapper, each name once; the columns as the builder gets them.\<close>

definition insert_columns :: "string list \<Rightarrow> (string \<times> 'v) list \<Rightarrow> (string \<times> 'v) list" where
  "insert_columns ignore_fields field_map =
     filter (\<lambda>(k, v). \<not> is_sub_property k \<and> \<not> contains_field_name (ignore_fields @ [''id'']) k) field_map"

record 'v update_builder =
  ub_table :: string
  ub_set :: "(string \<times> 'v) list"
  ub_where_id :: int

definition build_update_wl :: "string \<Rightarrow> (string \<times> 'v) list \<Rightarrow> int \<Rightarrow> string list \<Rightarrow> 'v update_builder" where
  "build_update_wl table field_map i allowed_fields =
     \<lparr>ub_table = table,
      ub_set = filter (\<lambda>(k, v). \<not> is_sub_property k \<and> contains_field_name allowed_fields k) field_map,
      ub_where_id = i\<rparr>"

definition build_update :: "string \<Rightarrow> (string \<times> 'v) list \<Rightarrow> int \<Rightarrow> string list \<Rightarrow> 'v update_builder" where
  "build_update table field_map i ignore_fields =
     \<lparr>ub_table = table,
      ub_set = filter (\<lambda>(k, v). \<not> is_sub_property k \<and> \<not> contains_field_name (ignore_fields @ [''id'']) k) field_map,
      ub_where_id = i\<rparr>"

text \<open>Running them; \<open>exec\<close> and \<open>ins\<close> are what the driver does with such a statement.\<close>

definition update_struct :: "('v update_builder \<Rightarrow> ('s, unit) driver_call) \<Rightarrow> ('v update_builder \<Rightarrow> string) \<Rightarrow> string
    \<Rightarrow> (string \<times> 'v) list \<Rightarrow> int \<Rightarrow> string list \<Rightarrow> ('s, 'c) query_state \<Rightarrow> unit must_result \<times> ('s, 'c) query_state" where
  "update_struct exec sql table field_map i ignore_fields st =
     (let u = build_update table field_map i ignore_fields in must_exec_context (exec u) (sql u) st)"

definition update_struct_wl :: "('v update_builder \<Rightarrow> ('s, unit) driver_call) \<Rightarrow> ('v update_builder \<Rightarrow> string) \<Rightarrow> string
    \<Rightarrow> (string \<times> 'v) list \<Rightarrow> int \<Rightarrow> string list \<Rightarrow> ('s, 'c) query_state \<Rightarrow> unit must_result \<times> ('s, 'c) query_state" where
  "update_struct_wl exec sql table field_map i allowed_fields st =
     (let u = build_update_wl table field_map i allowed_fields in must_exec_context (exec u) (sql u) st)"

definition insert_struct :: "bool \<Rightarrow> (string \<Rightarrow> (string \<times> 'v) list \<Rightarrow> ('s, int) driver_call) \<Rightarrow> (string \<Rightarrow> (string \<times> 'v) list \<Rightarrow> string)
    \<Rightarrow> (tx_error + int) \<Rightarrow> string \<Rightarrow> (string \<times> 'v) list \<Rightarrow> string list \<Rightarrow> ('s, 'c) query_state \<Rightarrow> int must_result \<times> ('s, 'c) query_state" where
  "insert_struct postgres ins sql last_id table field_map ignore_fields st =
     (let cols = insert_columns ignore_fields field_map in must_insert postgres (ins table cols) last_id (sql table cols) st)"

text \<open>\<^verbatim>\<open>PqArray\<close>: the list handed to the driver, where \<^const>\<open>None\<close> is nil; it is never nil.\<close>

definition pq_array :: "'v list option \<Rightarrow> 'v list option" where
  "pq_array input = (case input of None \<Rightarrow> Some [] | Some xs \<Rightarrow> if xs = [] then Some [] else Some xs)"

section \<open>Caches\<close>

text \<open>
  A context is the list of its values, the newest first.  Scopes are shared by all contexts derived
  from the one that made them, so a context holds references into a heap.  (\<open>ch_owner\<close> is auxiliary: the
  name of the cache that made a scope.)  \<open>'v\<close> stands for the
  values of all types; \<open>cc_tag\<close> tells the type of a cache.
\<close>

datatype ctx_key = CacheKey | NameKey string

type_synonym cache_ctx = "(ctx_key \<times> nat) list"

record 'v outer_cache =
  oc_label :: string
  oc_inner :: "string \<Rightarrow> (nat \<times> (int \<Rightarrow> 'v option)) option"

record 'v cache_heap =
  ch_next :: nat
  ch_owner :: "nat \<Rightarrow> string"
  ch_outer :: "nat \<Rightarrow> 'v outer_cache option"
  ch_inner2 :: "nat \<Rightarrow> (int \<Rightarrow> 'v option) option"

definition ctx_value :: "cache_ctx \<Rightarrow> ctx_key \<Rightarrow> nat option" where
  "ctx_value ctx k = map_of ctx k"

record 'v ctx_cache =
  cc_key :: string
  cc_tag :: nat
  cc_zero :: 'v

definition new_cache_scope2 :: "cache_ctx \<Rightarrow> string \<Rightarrow> 'v cache_heap \<Rightarrow> cache_ctx \<times> 'v cache_heap" where
  "new_cache_scope2 ctx label h =
     ((CacheKey, ch_next h) # ctx,
      h\<lparr>ch_next := ch_next h + 1, ch_outer := (ch_outer h)(ch_next h \<mapsto> \<lparr>oc_label = label, oc_inner = (\<lambda>_. None)\<rparr>)\<rparr>)"

definition new_cache_scope :: "cache_ctx \<Rightarrow> 'v cache_heap \<Rightarrow> cache_ctx \<times> 'v cache_heap" where
  "new_cache_scope ctx h = new_cache_scope2 ctx ''-'' h"

definition cache_middleware :: "(cache_ctx \<Rightarrow> 'v cache_heap \<Rightarrow> 'r) \<Rightarrow> cache_ctx \<Rightarrow> 'v cache_heap \<Rightarrow> 'r" where
  "cache_middleware next_handler ctx h =
     (case new_cache_scope2 ctx ''per-request:scope'' h of (ctx', h') \<Rightarrow> next_handler ctx' h')"

text \<open>The inner map of a cache, if there is one of its type.\<close>

definition inner_of :: "'v ctx_cache \<Rightarrow> 'v outer_cache \<Rightarrow> (int \<Rightarrow> 'v option) option" where
  "inner_of c oc = (case oc_inner oc (cc_key c) of None \<Rightarrow> None | Some (tag, m) \<Rightarrow> if tag = cc_tag c then Some m else None)"

definition cache_set :: "'v ctx_cache \<Rightarrow> cache_ctx \<Rightarrow> int \<Rightarrow> 'v \<Rightarrow> 'v cache_heap \<Rightarrow> 'v cache_heap" where
  "cache_set c ctx key2 v h =
     (case ctx_value ctx CacheKey of
        None \<Rightarrow> h
      | Some ref \<Rightarrow>
          (case ch_outer h ref of
             None \<Rightarrow> h
           | Some oc \<Rightarrow>
               let m = (case inner_of c oc of None \<Rightarrow> (\<lambda>_. None) | Some m \<Rightarrow> m)
               in h\<lparr>ch_outer := (ch_outer h)(ref \<mapsto> oc\<lparr>oc_inner := (oc_inner oc)(cc_key c \<mapsto> (cc_tag c, m(key2 \<mapsto> v)))\<rparr>)\<rparr>))"

definition cache_clear :: "'v ctx_cache \<Rightarrow> cache_ctx \<Rightarrow> int \<Rightarrow> 'v cache_heap \<Rightarrow> 'v cache_heap" where
  "cache_clear c ctx key2 h = cache_set c ctx key2 (cc_zero c) h"

definition cache_get :: "'v ctx_cache \<Rightarrow> cache_ctx \<Rightarrow> int \<Rightarrow> 'v cache_heap \<Rightarrow> 'v" where
  "cache_get c ctx key2 h =
     (case ctx_value ctx CacheKey of
        None \<Rightarrow> cc_zero c
      | Some ref \<Rightarrow>
          (case ch_outer h ref of
             None \<Rightarrow> cc_zero c
           | Some oc \<Rightarrow>
               (case inner_of c oc of
                  None \<Rightarrow> cc_zero c
                | Some m \<Rightarrow> (case m key2 of None \<Rightarrow> cc_zero c | Some v \<Rightarrow> v))))"

text \<open>\<^verbatim>\<open>NewCache2\<close> gives every cache a name of its own, from a counter.\<close>

definition new_cache2 :: "string \<Rightarrow> nat \<Rightarrow> 'v \<Rightarrow> nat \<Rightarrow> 'v ctx_cache \<times> nat" where
  "new_cache2 name tag zero counter =
     (\<lparr>cc_key = name @ ''-'' @ show_nat (counter + 1), cc_tag = tag, cc_zero = zero\<rparr>, counter + 1)"

definition cache2_new_scope :: "'v ctx_cache \<Rightarrow> cache_ctx \<Rightarrow> 'v cache_heap \<Rightarrow> cache_ctx \<times> 'v cache_heap" where
  "cache2_new_scope c ctx h =
     ((NameKey (cc_key c), ch_next h) # ctx,
      h\<lparr>ch_next := ch_next h + 1, ch_owner := (ch_owner h)(ch_next h := cc_key c),
        ch_inner2 := (ch_inner2 h)(ch_next h \<mapsto> (\<lambda>_. None))\<rparr>)"

definition cache2_set :: "'v ctx_cache \<Rightarrow> cache_ctx \<Rightarrow> int \<Rightarrow> 'v \<Rightarrow> 'v cache_heap \<Rightarrow> 'v cache_heap" where
  "cache2_set c ctx key v h =
     (case ctx_value ctx (NameKey (cc_key c)) of
        None \<Rightarrow> h
      | Some ref \<Rightarrow>
          (case ch_inner2 h ref of
             None \<Rightarrow> h
           | Some m \<Rightarrow> h\<lparr>ch_inner2 := (ch_inner2 h)(ref \<mapsto> m(key \<mapsto> v))\<rparr>))"

definition cache2_clear :: "'v ctx_cache \<Rightarrow> cache_ctx \<Rightarrow> int \<Rightarrow> 'v cache_heap \<Rightarrow> 'v cache_heap" where
  "cache2_clear c ctx key h = cache2_set c ctx key (cc_zero c) h"

definition cache2_get :: "'v ctx_cache \<Rightarrow> cache_ctx \<Rightarrow> int \<Rightarrow> 'v cache_heap \<Rightarrow> 'v" where
  "cache2_get c ctx key h =
     (case ctx_value ctx (NameKey (cc_key c)) of
        None \<Rightarrow> cc_zero c
      | Some ref \<Rightarrow>
          (case ch_inner2 h ref of
             None \<Rightarrow> cc_zero c
           | Some m \<Rightarrow> (case m key of None \<Rightarrow> cc_zero c | Some v \<Rightarrow> v)))"


section \<open>Facts on tables\<close>

text \<open>The error that ended the iteration over the rows is never looked at: a partial answer is a success.\<close>

lemma select_table_hides_error:
  "select_table L has_tx begin_err (Inr (a\<lparr>ra_err := Some e\<rparr>)) = select_table L has_tx begin_err (Inr (a\<lparr>ra_err := None\<rparr>))"
  by (simp add: select_table_def split: option.split sum.split)

section \<open>Facts on columns\<close>

lemma str_contains_dot: "str_contains s [d] \<longleftrightarrow> d \<in> set s"
  by (auto simp: str_contains_iff in_set_conv_decomp)

text \<open>For the columns it is asked about, the test for a prefix never matters: it is plain membership.\<close>

lemma contains_field_name_plain:
  "\<not> is_sub_property k \<Longrightarrow> contains_field_name names k \<longleftrightarrow> k \<in> set names"
  by (auto simp: contains_field_name_def is_sub_property_def str_contains_dot list_ex_iff has_prefix_iff)

text \<open>
  White lists and black lists.  An update by white list writes exactly the columns of the struct
  that are listed, one by black list exactly those that are not, apart from id; for the same list
  they never write the same column, together they write every column but an unlisted id, and an
  insert writes what an update by black list does.
\<close>
theorem update_columns_exact:
  "set (map fst (ub_set (build_update_wl table fm i names))) = {k \<in> fst ` set fm. CHR ''.'' \<notin> set k \<and> k \<in> set names}
    \<and> set (map fst (ub_set (build_update table fm i names))) = {k \<in> fst ` set fm. CHR ''.'' \<notin> set k \<and> k \<notin> set names \<and> k \<noteq> ''id''}
    \<and> set (map fst (ub_set (build_update_wl table fm i names))) \<inter> set (map fst (ub_set (build_update table fm i names))) = {}
    \<and> set (map fst (ub_set (build_update_wl table fm i names))) \<union> set (map fst (ub_set (build_update table fm i names)))
        = {k \<in> fst ` set fm. CHR ''.'' \<notin> set k \<and> (k = ''id'' \<longrightarrow> k \<in> set names)}
    \<and> ub_set (build_update table fm i names) = insert_columns names fm"
proof -
  have sub: "is_sub_property k \<longleftrightarrow> CHR ''.'' \<in> set k" for k by (simp add: is_sub_property_def str_contains_dot)
  have wl: "set (map fst (ub_set (build_update_wl table fm i names))) = {k \<in> fst ` set fm. CHR ''.'' \<notin> set k \<and> k \<in> set names}"
    using contains_field_name_plain[of _ names] by (force simp: build_update_wl_def sub)
  have bl: "set (map fst (ub_set (build_update table fm i names))) = {k \<in> fst ` set fm. CHR ''.'' \<notin> set k \<and> k \<notin> set names \<and> k \<noteq> ''id''}"
    using contains_field_name_plain[of _ "names @ [''id'']"] by (force simp: build_update_def sub)
  show ?thesis
    unfolding wl bl by (auto simp: build_update_def insert_columns_def)
qed

section \<open>Facts on caches\<close>

text \<open>
  What users of a cache rely on: in a scope, a key has the value that was set last; without one,
  nothing is kept; caches that are apart do not see each other, whatever the contexts.
\<close>

locale scoped_cache =
  fixes gets :: "'c \<Rightarrow> 'x \<Rightarrow> int \<Rightarrow> 'h \<Rightarrow> 'v"
    and sets :: "'c \<Rightarrow> 'x \<Rightarrow> int \<Rightarrow> 'v \<Rightarrow> 'h \<Rightarrow> 'h"
    and clear :: "'c \<Rightarrow> 'x \<Rightarrow> int \<Rightarrow> 'h \<Rightarrow> 'h"
    and zero :: "'c \<Rightarrow> 'v"
    and live :: "'c \<Rightarrow> 'x \<Rightarrow> 'h \<Rightarrow> bool"
    and apart :: "'c \<Rightarrow> 'c \<Rightarrow> bool"
    and ok :: "'x \<Rightarrow> 'h \<Rightarrow> bool"
  assumes get_set: "live c x h \<Longrightarrow> gets c x k (sets c x k v h) = v"
    and get_other: "k' \<noteq> k \<Longrightarrow> gets c x k' (sets c x k v h) = gets c x k' h"
    and frame: "apart c c' \<Longrightarrow> ok x h \<Longrightarrow> ok x' h \<Longrightarrow> gets c' x' k' (sets c x k v h) = gets c' x' k' h"
    and dead_set: "\<not> live c x h \<Longrightarrow> sets c x k v h = h"
    and dead_get: "\<not> live c x h \<Longrightarrow> gets c x k h = zero c"
    and live_set: "live c' x' (sets c x k v h) \<longleftrightarrow> live c' x' h"
    and ok_set: "ok x' (sets c x k v h) \<longleftrightarrow> ok x' h"
    and apart_ne: "apart c c' \<Longrightarrow> c \<noteq> c'"
    and clear_set: "clear c x k h = sets c x k (zero c) h"
begin

fun set_all :: "('c \<times> 'x \<times> int \<times> 'v) list \<Rightarrow> 'h \<Rightarrow> 'h" where
  "set_all [] h = h"
| "set_all ((c, x, k, v) # ops) h = set_all ops (sets c x k v h)"

text \<open>The value set last for a key, or what was there before.\<close>

fun last_set :: "'c \<Rightarrow> int \<Rightarrow> ('c \<times> 'x \<times> int \<times> 'v) list \<Rightarrow> 'v \<Rightarrow> 'v" where
  "last_set c k [] v0 = v0"
| "last_set c k ((c', x, k', v) # ops) v0 = last_set c k ops (if c' = c \<and> k' = k then v else v0)"

lemma live_set_all: "live c x (set_all ops h) \<longleftrightarrow> live c x h"
  by (induction ops h rule: set_all.induct) (simp_all add: live_set)

lemma get_set_all:
  assumes "live c x h" and "ok x h" and "\<forall>(c', x', k', v')\<in>set ops. ok x' h \<and> (c' = c \<and> x' = x \<or> apart c' c)"
  shows "gets c x k (set_all ops h) = last_set c k ops (gets c x k h)"
  using assms
proof (induction ops arbitrary: h)
  case (Cons op ops)
  obtain c' x' k' v' where op: "op = (c', x', k', v')" by (metis surj_pair)
  have "gets c x k (sets c' x' k' v' h) = (if c' = c \<and> k' = k then v' else gets c x k h)"
  proof (cases "c' = c \<and> x' = x")
    case True
    then show ?thesis using get_set[OF Cons.prems(1), of k v'] get_other[of k k' c x v' h] by auto
  next
    case False
    then have a: "apart c' c" "ok x' h" using Cons.prems(3) op by auto
    have "c' \<noteq> c" using apart_ne[OF a(1)] .
    then show ?thesis using frame[OF a Cons.prems(2)] by simp
  qed
  then show ?case using Cons.IH[of "sets c' x' k' v' h"] Cons.prems live_set[of c x c' x' k' v' h] by (simp add: op ok_set)
qed simp

end


definition cache_live :: "'v ctx_cache \<Rightarrow> cache_ctx \<Rightarrow> 'v cache_heap \<Rightarrow> bool" where
  "cache_live c ctx h \<longleftrightarrow> (\<exists>ref. ctx_value ctx CacheKey = Some ref \<and> ch_outer h ref \<noteq> None)"

definition cache2_live :: "'v ctx_cache \<Rightarrow> cache_ctx \<Rightarrow> 'v cache_heap \<Rightarrow> bool" where
  "cache2_live c ctx h \<longleftrightarrow> (\<exists>ref. ctx_value ctx (NameKey (cc_key c)) = Some ref \<and> ch_inner2 h ref \<noteq> None)"

definition cache_apart :: "'v ctx_cache \<Rightarrow> 'v ctx_cache \<Rightarrow> bool" where
  "cache_apart c c' \<longleftrightarrow> cc_key c \<noteq> cc_key c'"

interpretation c1: scoped_cache cache_get cache_set cache_clear cc_zero cache_live cache_apart "\<lambda>_ _. True"
  by unfold_locales
    (auto simp: cache_get_def cache_set_def cache_clear_def cache_live_def cache_apart_def inner_of_def Let_def split: option.splits)

text \<open>For the second kind a context must come from \<^verbatim>\<open>NewScope\<close>: its references belong to the caches they are kept under.\<close>

definition cache2_ctx_ok :: "cache_ctx \<Rightarrow> 'v cache_heap \<Rightarrow> bool" where
  "cache2_ctx_ok x h \<longleftrightarrow> (\<forall>n ref. map_of x (NameKey n) = Some ref \<longrightarrow> ch_owner h ref = n \<and> ref < ch_next h)"

lemma cache2_frame:
  "cache_apart c c' \<Longrightarrow> cache2_ctx_ok x h \<Longrightarrow> cache2_ctx_ok x' h \<Longrightarrow> cache2_get c' x' k' (cache2_set c x k v h) = cache2_get c' x' k' h"
  by (fastforce simp: cache2_get_def cache2_set_def cache_apart_def cache2_ctx_ok_def ctx_value_def split: option.splits)

interpretation c2: scoped_cache cache2_get cache2_set cache2_clear cc_zero cache2_live cache_apart cache2_ctx_ok
proof
  fix c c' :: "'v ctx_cache" and x x' :: cache_ctx and k k' v and h :: "'v cache_heap"
  show "cache_apart c c' \<Longrightarrow> cache2_ctx_ok x h \<Longrightarrow> cache2_ctx_ok x' h \<Longrightarrow> cache2_get c' x' k' (cache2_set c x k v h) = cache2_get c' x' k' h"
    by (rule cache2_frame)
qed (auto simp: cache2_get_def cache2_set_def cache2_clear_def cache2_live_def cache_apart_def cache2_ctx_ok_def split: option.splits)

lemma cache2_scope_ok:
  assumes "cache2_ctx_ok x h" "cache2_new_scope c x h = (x', h')"
  shows "cache2_ctx_ok x' h' \<and> cache2_live c x' h' \<and> (\<forall>y. cache2_ctx_ok y h \<longrightarrow> cache2_ctx_ok y h')
    \<and> (\<forall>k. cache2_get c x' k h' = cc_zero c)"
  using assms
  by (auto simp: cache2_ctx_ok_def cache2_new_scope_def cache2_live_def cache2_get_def ctx_value_def less_Suc_eq split: if_splits)
    (metis less_irrefl)+

text \<open>Names from the counter are never given twice.\<close>

lemma show_nat_inj: "show_nat a = show_nat b \<Longrightarrow> a = b"
  by (metis digits_val_show_nat)

lemma name_counter_inj:
  assumes "a @ CHR ''-'' # show_nat m = b @ CHR ''-'' # show_nat n"
  shows "m = n"
proof -
  have d: "CHR ''-'' \<notin> set (show_nat i)" for i
    using show_nat_digits[of i] by (auto simp: list_all_iff is_digit_def)
  have t: "takeWhile (\<lambda>c. c \<noteq> CHR ''-'') (rev (a @ CHR ''-'' # show_nat i)) = rev (show_nat i)" for a i
    using d[of i] by (simp add: takeWhile_append takeWhile_eq_all_conv)
  have "rev (show_nat m) = rev (show_nat n)" using t[of a m] t[of b n] assms by metis
  then show ?thesis using show_nat_inj by simp
qed

text \<open>
  Caches keep to themselves.  Take a cache made by \<^verbatim>\<open>NewCache2\<close> and a scope it opens in a context.
  After any number of sets through any caches made by other calls, in any contexts, and through
  this cache in its scope, a key of the cache has the value set last for it in the scope, or the
  zero value.
\<close>
theorem caches_isolated:
  assumes "new_cache2 name tag zero counter = (c, counter')"
    and "cache2_ctx_ok x h" and "cache2_new_scope c x h = (x1, h1)"
    and "\<forall>(c', x', k', v')\<in>set ops. cache2_ctx_ok x' h1
        \<and> (c' = c \<and> x' = x1 \<or> (\<exists>name' tag' zero' n. n \<noteq> counter \<and> c' = fst (new_cache2 name' tag' zero' n)))"
  shows "cache2_get c x1 k (c2.set_all ops h1) = c2.last_set c k ops zero"
proof -
  have s: "cache2_ctx_ok x1 h1" "cache2_live c x1 h1" "cache2_get c x1 k h1 = zero"
    using cache2_scope_ok[OF assms(2,3)] assms(1) by (auto simp: new_cache2_def)
  have "cache_apart c' c" if "n \<noteq> counter" "c' = fst (new_cache2 name' tag' zero' n)" for c' name' tag' zero' n
    using that assms(1) name_counter_inj[of name' "n + 1" name "counter + 1"]
    by (auto simp: cache_apart_def new_cache2_def)
  then have "\<forall>(c', x', k', v')\<in>set ops. cache2_ctx_ok x' h1 \<and> (c' = c \<and> x' = x1 \<or> cache_apart c' c)"
    using assms(4) by blast
  then show ?thesis using c2.get_set_all[OF s(2,1), of ops k] s(3) by simp
qed

definition empty_heap :: "'v cache_heap" where
  "empty_heap = \<lparr>ch_next = 0, ch_owner = (\<lambda>_. []), ch_outer = (\<lambda>_. None), ch_inner2 = (\<lambda>_. None)\<rparr>"

lemma caches_isolated_witness:
  "\<exists>x1 h1. cache2_new_scope (fst (new_cache2 ''user'' 0 (0 :: int) 0)) [] empty_heap = (x1, h1)
     \<and> cache2_get (fst (new_cache2 ''user'' 0 0 0)) x1 7
         (c2.set_all [(fst (new_cache2 ''user'' 0 0 0), x1, 7, 5), (fst (new_cache2 ''user'' 0 0 1), [], 7, 9)] h1) = 5"
proof -
  let ?c = "fst (new_cache2 ''user'' 0 (0 :: int) 0)"
  obtain x1 h1 where sc: "cache2_new_scope ?c [] empty_heap = (x1, h1)" by fastforce
  have ok: "cache2_ctx_ok [] h" for h :: "int cache_heap" by (simp add: cache2_ctx_ok_def)
  have ok1: "cache2_ctx_ok x1 h1" using cache2_scope_ok[OF ok sc] by blast
  have n: "new_cache2 ''user'' 0 (0 :: int) 0 = (?c, 1)" by (simp add: new_cache2_def)
  have "cache2_get ?c x1 7 (c2.set_all [(?c, x1, 7, 5), (fst (new_cache2 ''user'' 0 0 1), [], 7, 9)] h1)
      = c2.last_set ?c 7 [(?c, x1, 7, 5), (fst (new_cache2 ''user'' 0 0 1), [] :: cache_ctx, 7, 9)] 0"
  proof (rule caches_isolated[OF n ok sc])
    have "\<exists>name' tag' zero' n. n \<noteq> 0 \<and> fst (new_cache2 ''user'' 0 (0 :: int) 1) = fst (new_cache2 name' tag' zero' n)"
      by (rule exI[of _ "''user''"], rule exI[of _ 0], rule exI[of _ 0], rule exI[of _ 1]) simp
    then show "\<forall>(c', x', k', v')\<in>set [(?c, x1, 7 :: int, 5), (fst (new_cache2 ''user'' 0 0 1), [], 7, 9)]. cache2_ctx_ok x' h1
        \<and> (c' = ?c \<and> x' = x1 \<or> (\<exists>name' tag' zero' n. n \<noteq> 0 \<and> c' = fst (new_cache2 name' tag' zero' n)))"
      using ok ok1 by simp
  qed
  moreover have "fst (new_cache2 ''user'' 0 (0 :: int) 1) \<noteq> ?c"
  proof
    assume "fst (new_cache2 ''user'' 0 (0 :: int) 1) = ?c"
    then have "show_nat (1 + 1) = show_nat (0 + 1)" by (simp add: new_cache2_def)
    then show False using show_nat_inj by fastforce
  qed
  ultimately show ?thesis using sc by auto
qed

text \<open>Caches of the first kind share their scope by name: one of another type under the same name empties it.\<close>

lemma cache_name_clash:
  assumes "cache_live c ctx h" "cc_key c' = cc_key c" "cc_tag c' \<noteq> cc_tag c"
  shows "cache_get c ctx k (cache_set c' ctx k' v' (cache_set c ctx k v h)) = cc_zero c"
  using assms by (auto simp: cache_live_def cache_get_def cache_set_def inner_of_def Let_def)

end
