(* ===== verification/RqUtil.thy ===== *)
theory RqUtil
  imports RowMap ResCore AuthCore
begin

text \<open>
  Package \<^verbatim>\<open>res/rqutil\<close>: inserting and updating of structs, the sort order of a table, and listings.
  A struct is the list of its fields as reflection shows them.  Statements are data; running one is
  an argument.  The columns' names are those of \<open>snake_case\<close>.
\<close>

section \<open>Structs\<close>

text \<open>
  A field: its name and tags, whether it is exported, of type bool, or has its zero value, its value,
  and the integer it holds, if it holds one.
\<close>

record 'v field_info =
  fi_name :: string
  fi_rq :: string
  fi_db :: string
  fi_exported :: bool
  fi_bool :: bool
  fi_zero :: bool
  fi_value :: 'v
  fi_int :: "int option"

record 'v struct_value =
  sv_type :: string
  sv_fields :: "'v field_info list"

definition split_to_map :: "string \<Rightarrow> string list" where
  "split_to_map input = split_char (CHR '','') input"

definition has_tag :: "string \<Rightarrow> 'v field_info \<Rightarrow> bool" where
  "has_tag tag f \<longleftrightarrow> tag \<in> set (split_to_map (fi_rq f))"

definition field_by_name :: "'v struct_value \<Rightarrow> string \<Rightarrow> 'v field_info option" where
  "field_by_name obj name = find (\<lambda>f. fi_name f = name) (sv_fields obj)"

section \<open>Upserts\<close>

definition default_ignored_fields :: "string list" where
  "default_ignored_fields = [''UpdatedAt'', ''CreatedAt'', ''IDs'']"

definition upsert_fields :: "string list \<Rightarrow> 'v struct_value \<Rightarrow> string list" where
  "upsert_fields ignore obj =
     map fi_name (filter (\<lambda>f. \<not> has_tag ''upsert_ignore'' f
                              \<and> \<not> (has_tag ''omitempty'' f \<and> fi_zero f)
                              \<and> fi_name f \<notin> set (default_ignored_fields @ ignore)) (sv_fields obj))"

datatype 'v sql_value = VNow | VInt int | VField 'v

datatype 'v statement = InsertRow string "string \<Rightarrow> 'v sql_value option"
  | UpdateRow string "string \<Rightarrow> 'v sql_value option" int
  | RankRows string string string string int

definition field_column :: "'v field_info \<Rightarrow> string option" where
  "field_column f = (if fi_db f = ''-'' then None else if fi_db f \<noteq> [] then Some (fi_db f) else Some (snake_case (fi_name f)))"

definition ignored_columns :: "string list" where
  "ignored_columns = [''created_at'', ''id'']"

text \<open>The loop over the fields: the columns with their values, and the columns an update leaves alone.\<close>

fun upsert_scan :: "'v struct_value \<Rightarrow> string list \<Rightarrow> (string \<Rightarrow> 'v sql_value option) \<times> string list
    \<Rightarrow> string + (string \<Rightarrow> 'v sql_value option) \<times> string list" where
  "upsert_scan obj [] (mp, no_update) = Inr (mp, no_update)"
| "upsert_scan obj (name # names) (mp, no_update) =
     (case field_by_name obj name of
        None \<Rightarrow> Inl (''field '' @ [CHR 0x27] @ name @ [CHR 0x27] @ '' isn'' @ [CHR 0x27] @ ''t valid on type '' @ sv_type obj)
      | Some f \<Rightarrow>
          if \<not> fi_exported f then upsert_scan obj names (mp, no_update)
          else (case field_column f of
                  None \<Rightarrow> upsert_scan obj names (mp, no_update)
                | Some col \<Rightarrow>
                    if col \<in> set ignored_columns then upsert_scan obj names (mp, no_update)
                    else (let no_update' = (if has_tag ''no_update'' f then no_update @ [col] else no_update)
                          in if has_tag ''-'' f then upsert_scan obj names (mp, no_update')
                             else upsert_scan obj names (mp(col \<mapsto> VField (fi_value f)), no_update'))))"

text \<open>The statement of \<^verbatim>\<open>UpsertModel\<close>, with the id of the row it is for; \<open>Inl\<close> is a thrown error or a panic of reflection.\<close>

definition upsert_statement :: "auth_ctx \<Rightarrow> 'v struct_value \<Rightarrow> string \<Rightarrow> string list \<Rightarrow> string + 'v statement \<times> int" where
  "upsert_statement ctx obj table names =
     (case upsert_scan obj names ([''updated_at'' \<mapsto> VNow], []) of
        Inl e \<Rightarrow> Inl e
      | Inr (mp, no_update) \<Rightarrow>
          (case field_by_name obj ''ID'' of
             None \<Rightarrow> Inl (''field ID is required on type '' @ sv_type obj)
           | Some idf \<Rightarrow>
               let mp1 = (case field_by_name obj ''UpdatedBy'' of
                            None \<Rightarrow> mp
                          | Some _ \<Rightarrow> (case user_null ctx of None \<Rightarrow> mp | Some u \<Rightarrow> mp(''updated_by'' \<mapsto> VInt u)))
               in (case fi_int idf of
                     None \<Rightarrow> Inl ''reflect: call of reflect.Value.Int''
                   | Some i \<Rightarrow>
                       if i \<le> 0 then Inr (InsertRow table (mp1(''created_at'' \<mapsto> VNow)), i)
                       else Inr (UpdateRow table (\<lambda>c. if c \<in> set no_update then None else mp1 c) i, i))))"

section \<open>The sort order\<close>

text \<open>What the tags say: the column of the order, the partition and the terms of rows kept at the end.\<close>

fun sort_scan :: "'v field_info list \<Rightarrow> string \<times> string \<times> string \<Rightarrow> string + string \<times> string \<times> string" where
  "sort_scan [] acc = Inr acc"
| "sort_scan (f # fs) (order_col, part, omit) =
     (let part' = (if has_tag ''sort_order_partition'' f then ''partition by '' @ snake_case (fi_name f) else part)
      in if has_tag ''sort_order'' f \<and> order_col \<noteq> [] then Inl ''can only have 1 `rq:sort_order tag per struct`''
         else let order_col' = (if has_tag ''sort_order'' f then snake_case (fi_name f) else order_col)
              in if has_tag ''sort_order_omit'' f \<and> \<not> fi_bool f then Inl ''can only use `rq:sort_order_omit` tag on booleans''
                 else sort_scan fs (order_col', part',
                        if has_tag ''sort_order_omit'' f
                        then omit @ ''case when '' @ snake_case (fi_name f) @ '' = false then 0 else 1 end, '' else omit))"

definition sort_statement :: "bool \<Rightarrow> 'v struct_value \<Rightarrow> string \<Rightarrow> int \<Rightarrow> string + 'v statement option" where
  "sort_statement no_sort_order_update obj table i =
     (if no_sort_order_update then Inr None
      else (case sort_scan (sv_fields obj) ([], [], []) of
              Inl e \<Rightarrow> Inl e
            | Inr (order_col, part, omit) \<Rightarrow>
                if order_col = [] then Inr None else Inr (Some (RankRows table order_col part omit i))))"

text \<open>\<^verbatim>\<open>UpsertModel\<close>: \<open>db\<close> runs a statement and answers its error or, for an insert, the new id.\<close>

datatype upsert_error = Thrown string | DbPanic tx_error

definition upsert_model :: "('v statement \<Rightarrow> 's \<Rightarrow> (tx_error + int) \<times> 's) \<Rightarrow> auth_ctx \<Rightarrow> bool \<Rightarrow> 'v struct_value \<Rightarrow> string
    \<Rightarrow> string list \<Rightarrow> 's \<Rightarrow> (upsert_error + int) \<times> 's" where
  "upsert_model db ctx no_sort obj table names s =
     (case upsert_statement ctx obj table names of
        Inl e \<Rightarrow> (Inl (Thrown e), s)
      | Inr (stmt, i) \<Rightarrow>
          (case db stmt s of
             (Inl e, s1) \<Rightarrow> (Inl (DbPanic e), s1)
           | (Inr new_id, s1) \<Rightarrow>
               let row_id = (if i \<le> 0 then new_id else i)
               in (case sort_statement no_sort obj table row_id of
                     Inl e \<Rightarrow> (Inl (Thrown e), s1)
                   | Inr None \<Rightarrow> (Inr row_id, s1)
                   | Inr (Some rank) \<Rightarrow>
                       (case db rank s1 of
                          (Inl e, s2) \<Rightarrow> (Inl (DbPanic e), s2)
                        | (Inr _, s2) \<Rightarrow> (Inr row_id, s2)))))"

definition upsert_model_except :: "('v statement \<Rightarrow> 's \<Rightarrow> (tx_error + int) \<times> 's) \<Rightarrow> auth_ctx \<Rightarrow> bool \<Rightarrow> 'v struct_value \<Rightarrow> string
    \<Rightarrow> string list \<Rightarrow> 's \<Rightarrow> (upsert_error + int) \<times> 's" where
  "upsert_model_except db ctx no_sort obj table ignore s =
     upsert_model db ctx no_sort obj table (upsert_fields ignore obj) s"

definition upsert_model_all_fields :: "('v statement \<Rightarrow> 's \<Rightarrow> (tx_error + int) \<times> 's) \<Rightarrow> auth_ctx \<Rightarrow> bool \<Rightarrow> 'v struct_value \<Rightarrow> string
    \<Rightarrow> 's \<Rightarrow> (upsert_error + int) \<times> 's" where
  "upsert_model_all_fields db ctx no_sort obj table s = upsert_model_except db ctx no_sort obj table [] s"

text \<open>The setting in the context; without one the sort order is kept.\<close>

definition get_config :: "bool option \<Rightarrow> bool" where
  "get_config v = (case v of None \<Rightarrow> False | Some no_sort_order_update \<Rightarrow> no_sort_order_update)"

text \<open>
  What the statement does: a row has an id, the value of the partition column, the booleans of the
  rows kept at the end, and its place.  The rank within the partition counts the rows with a smaller
  key; the saved row comes first among equals.
\<close>

record 'p sort_row =
  so_id :: int
  so_part :: 'p
  so_omit :: "bool list"
  so_order :: int

definition sort_key :: "int \<Rightarrow> 'p sort_row \<Rightarrow> int list" where
  "sort_key saved r =
     map (\<lambda>b. if b = False then 0 else 1) (so_omit r) @ [so_order r, if so_id r = saved then 0 else so_id r]"

fun key_less :: "int list \<Rightarrow> int list \<Rightarrow> bool" where
  "key_less (x # xs) (y # ys) \<longleftrightarrow> x < y \<or> x = y \<and> key_less xs ys"
| "key_less [] (y # ys) = True"
| "key_less _ [] = False"

definition sort_rank :: "int \<Rightarrow> 'p sort_row list \<Rightarrow> 'p sort_row \<Rightarrow> int" where
  "sort_rank saved rows r =
     1 + int (length (filter (\<lambda>r'. so_part r' = so_part r \<and> key_less (sort_key saved r') (sort_key saved r)) rows))"

definition rank_rows :: "int \<Rightarrow> 'p sort_row list \<Rightarrow> 'p sort_row list" where
  "rank_rows saved rows =
     map (\<lambda>r. let rank = sort_rank saved rows r in if rank \<noteq> so_order r then r\<lparr>so_order := rank\<rparr> else r) rows"

section \<open>Reading rows\<close>

definition id_resp :: "int \<Rightarrow> responder option" where
  "id_resp value = ok_resp [DMap [(''id'', DNum value)]]"

definition raw_columns :: "'v field_info list \<Rightarrow> string list" where
  "raw_columns fs = map (\<lambda>f. snake_case (fi_name f)) (filter (\<lambda>f. fi_rq f \<noteq> ''-'') fs)"

definition list_columns :: "'v field_info list \<Rightarrow> string list" where
  "list_columns fs =
     concat (map (\<lambda>f. if fi_rq f = ''-'' then []
                      else if fi_db f = ''-'' then []
                      else if fi_db f = [] then [snake_case (fi_name f)]
                      else [fi_db f]) fs)"

text \<open>The calls made on the query builder.\<close>

datatype list_call = CallFrom string | CallColumns "string list" | CallWhereId int
  | CallAnyILike "(string \<times> string) list" | CallWhereArchived bool
  | CallOrderBy string | CallOffset int | CallLimit int

text \<open>\<^verbatim>\<open>GetRaw\<close>: \<open>ptr\<close> tells whether the type is a pointer type.\<close>

definition get_raw_query :: "bool \<Rightarrow> 'v field_info list \<Rightarrow> string \<Rightarrow> int \<Rightarrow> string + list_call list" where
  "get_raw_query ptr fs table i =
     (if \<not> ptr then Inl ''T must be a pointer type (e.g. *Project)''
      else Inr [CallColumns (raw_columns fs), CallFrom table, CallWhereId i])"

definition get_query :: "bool \<Rightarrow> 'v field_info list \<Rightarrow> http_request \<Rightarrow> string \<Rightarrow> string + list_call list" where
  "get_query ptr fs rq table = get_raw_query ptr fs table (get_query_int rq ''id'')"

definition uint64 :: "int \<Rightarrow> int" where
  "uint64 i = i mod 2 ^ 64"

text \<open>
  \<^verbatim>\<open>GetListQrOpt\<close>: \<open>from\<close> is the text of the builder's table, if it has one; the first component is
  the query whose rows are counted, the second the one whose rows are listed.
\<close>

definition list_query :: "http_request \<Rightarrow> string option \<Rightarrow> string list \<Rightarrow> list_call list \<Rightarrow> list_call list \<times> list_call list" where
  "list_query rq from search_fields qr =
     (let search = rq_query rq ''search'';
          qr1 = (if search \<noteq> [] then qr @ [CallAnyILike (map (\<lambda>f. (snake_case f, ''%'' @ search @ ''%'')) search_fields)] else qr);
          qr2 = qr1 @ [CallWhereArchived (rq_query rq ''archived'' = ''true'')];
          qr3 = (case from of
                   Some str \<Rightarrow> qr2 @ [CallOrderBy (last (split_char (CHR '' '') str) @ ''.id desc'')]
                 | None \<Rightarrow> qr2 @ [CallOrderBy ''id desc''])
      in (qr3, qr3 @ [CallOffset (uint64 (get_query_int rq ''offset'')), CallLimit 100]))"

text \<open>The response; \<open>rows\<close> and \<open>count\<close> run the queries (\<open>Inl\<close> is a panic of the database).\<close>

definition get_list_qr_opt :: "(list_call list \<Rightarrow> tx_error + res_data list) \<Rightarrow> (list_call list \<Rightarrow> tx_error + int)
    \<Rightarrow> (res_data \<Rightarrow> res_data) option \<Rightarrow> http_request \<Rightarrow> string option \<Rightarrow> string list \<Rightarrow> list_call list \<Rightarrow> tx_error + responder option" where
  "get_list_qr_opt rows count process rq from search_fields qr =
     (case list_query rq from search_fields qr of (counted, listed) \<Rightarrow>
        case rows listed of
          Inl e \<Rightarrow> Inl e
        | Inr data \<Rightarrow>
            let data' = (case process of None \<Rightarrow> data | Some f \<Rightarrow> map f data)
            in (case count counted of
                  Inl e \<Rightarrow> Inl e
                | Inr n \<Rightarrow> Inr (ok_resp [DMap [(''data'', DList data'), (''count'', DNum n)]])))"

definition get_list_qr :: "(list_call list \<Rightarrow> tx_error + res_data list) \<Rightarrow> (list_call list \<Rightarrow> tx_error + int)
    \<Rightarrow> http_request \<Rightarrow> string option \<Rightarrow> string list \<Rightarrow> list_call list \<Rightarrow> tx_error + responder option" where
  "get_list_qr rows count rq from search_fields qr = get_list_qr_opt rows count None rq from search_fields qr"

text \<open>\<^verbatim>\<open>GetList\<close>, for a pointer to a struct with these fields.\<close>

definition get_list :: "(list_call list \<Rightarrow> tx_error + res_data list) \<Rightarrow> (list_call list \<Rightarrow> tx_error + int)
    \<Rightarrow> 'v field_info list \<Rightarrow> http_request \<Rightarrow> string \<Rightarrow> string list \<Rightarrow> tx_error + responder option" where
  "get_list rows count fs rq table search_fields =
     get_list_qr rows count rq (Some table) search_fields [CallColumns (list_columns fs), CallFrom table]"

text \<open>\<^verbatim>\<open>DebugSQL\<close>: the text it prints, or an error for an argument of another type.\<close>

datatype debug_arg = DaString string | DaBool bool | DaInt int | DaOther

fun debug_text_of :: "debug_arg \<Rightarrow> string option" where
  "debug_text_of (DaString t) = Some ([CHR 0x27] @ t @ [CHR 0x27])"
| "debug_text_of (DaBool b) = Some (if b then ''true'' else ''false'')"
| "debug_text_of (DaInt i) = Some (show_int i)"
| "debug_text_of DaOther = None"

fun debug_sql_loop :: "nat \<Rightarrow> debug_arg list \<Rightarrow> string \<Rightarrow> string option" where
  "debug_sql_loop i [] sql = Some sql"
| "debug_sql_loop i (a # args) sql =
     (case debug_text_of a of
        None \<Rightarrow> None
      | Some t \<Rightarrow> debug_sql_loop (Suc i) args (replace_all sql (''$'' @ show_nat (i + 1)) t))"

definition debug_sql :: "string \<Rightarrow> debug_arg list \<Rightarrow> string option" where
  "debug_sql sql params = debug_sql_loop 0 params sql"


section \<open>Facts on upserts\<close>

definition scan_written :: "'v struct_value \<Rightarrow> string list \<Rightarrow> string \<Rightarrow> 'v sql_value \<Rightarrow> bool" where
  "scan_written obj names c v \<longleftrightarrow>
     (\<exists>name\<in>set names. \<exists>f. field_by_name obj name = Some f \<and> fi_exported f \<and> field_column f = Some c
        \<and> c \<notin> set ignored_columns \<and> \<not> has_tag ''-'' f \<and> v = VField (fi_value f))"

lemma upsert_scan_columns:
  "upsert_scan obj names (mp, nu) = Inr (mp', nu') \<Longrightarrow>
   (\<forall>c v. mp' c = Some v \<longrightarrow> mp c = Some v \<or> scan_written obj names c v)
   \<and> set nu \<subseteq> set nu'
   \<and> (\<forall>name\<in>set names. \<forall>f c. field_by_name obj name = Some f \<longrightarrow> fi_exported f \<longrightarrow> field_column f = Some c \<longrightarrow>
        c \<notin> set ignored_columns \<longrightarrow> has_tag ''no_update'' f \<longrightarrow> c \<in> set nu')
   \<and> (\<forall>c. mp' c = None \<longrightarrow> mp c = None)"
proof (induction names arbitrary: mp nu)
  case (Cons name names)
  then obtain f where f: "field_by_name obj name = Some f" by (auto split: option.splits)
  have w: "scan_written obj names c v \<Longrightarrow> scan_written obj (name # names) c v" for c v by (auto simp: scan_written_def)
  show ?case
  proof (cases "fi_exported f \<and> (\<exists>col. field_column f = Some col \<and> col \<notin> set ignored_columns)")
    case False
    then have r: "upsert_scan obj names (mp, nu) = Inr (mp', nu')" using Cons.prems f by (auto split: option.splits if_splits)
    note ih = Cons.IH[OF r]
    have "\<forall>c v. mp' c = Some v \<longrightarrow> mp c = Some v \<or> scan_written obj (name # names) c v" using ih[THEN conjunct1] w by blast
    moreover have "\<not> (fi_exported f \<and> field_column f = Some c \<and> c \<notin> set ignored_columns)" for c using False by blast
    ultimately show ?thesis using ih by (auto simp: f)
  next
    case True
    then obtain col where col: "field_column f = Some col" "col \<notin> set ignored_columns" "fi_exported f" by blast
    define nu1 where "nu1 = (if has_tag ''no_update'' f then nu @ [col] else nu)"
    define mp1 where "mp1 = (if has_tag ''-'' f then mp else mp(col \<mapsto> VField (fi_value f)))"
    have r: "upsert_scan obj names (mp1, nu1) = Inr (mp', nu')"
      using Cons.prems f col by (auto simp: nu1_def mp1_def Let_def split: if_splits)
    have sub: "set nu \<subseteq> set nu1" "has_tag ''no_update'' f \<Longrightarrow> col \<in> set nu1" by (auto simp: nu1_def)
    have m1: "mp1 c = Some v \<Longrightarrow> mp c = Some v \<or> scan_written obj (name # names) c v" for c v
      using f col by (auto simp: mp1_def scan_written_def split: if_splits)
    have m2: "mp1 c = None \<Longrightarrow> mp c = None" for c by (auto simp: mp1_def split: if_splits)
    note ih = Cons.IH[OF r]
    show ?thesis
    proof (intro conjI)
      show "\<forall>c v. mp' c = Some v \<longrightarrow> mp c = Some v \<or> scan_written obj (name # names) c v"
        using ih[THEN conjunct1] m1 w by blast
      show "set nu \<subseteq> set nu'" using ih sub(1) by blast
      show "\<forall>c. mp' c = None \<longrightarrow> mp c = None" using ih m2 by blast
      have l: "\<forall>n\<in>set names. \<forall>f c. field_by_name obj n = Some f \<longrightarrow> fi_exported f \<longrightarrow> field_column f = Some c \<longrightarrow>
        c \<notin> set ignored_columns \<longrightarrow> has_tag ''no_update'' f \<longrightarrow> c \<in> set nu'" using ih by blast
      have "has_tag ''no_update'' f \<longrightarrow> col \<in> set nu'" using ih sub(2) by blast
      with l show "\<forall>n\<in>set (name # names). \<forall>f c. field_by_name obj n = Some f \<longrightarrow> fi_exported f \<longrightarrow> field_column f = Some c \<longrightarrow>
        c \<notin> set ignored_columns \<longrightarrow> has_tag ''no_update'' f \<longrightarrow> c \<in> set nu'" by (simp add: f col)
    qed
  qed
qed simp

text \<open>
  C37: What an upsert may write.  An upsert of a row with an id is an update of that row only; it
  never writes the columns id and created\_at, and no column of a listed field that is tagged
  no\_update.  Every column written is the time of the update or the creation, the current user, or
  the value of a listed exported field whose tags allow it; for a struct with the field UpdatedBy and a
  logged-in user, the column for the last editor cannot be chosen by whoever filled the struct.
\<close>
theorem upsert_respects_tags:
  assumes "upsert_statement ctx obj table names = Inr (stmt, i)"
  shows "\<exists>mp. (stmt = (if i \<le> 0 then InsertRow table mp else UpdateRow table mp i))
    \<and> mp ''id'' = None
    \<and> (0 < i \<longrightarrow> mp ''created_at'' = None
         \<and> (\<forall>name\<in>set names. \<forall>f c. field_by_name obj name = Some f \<longrightarrow> fi_exported f \<longrightarrow> field_column f = Some c \<longrightarrow>
              has_tag ''no_update'' f \<longrightarrow> mp c = None))
    \<and> (\<forall>c v. mp c = Some v \<longrightarrow> scan_written obj names c v
         \<or> v = VNow \<and> (c = ''updated_at'' \<or> c = ''created_at'' \<and> i \<le> 0)
         \<or> (\<exists>u. user_null ctx = Some u \<and> c = ''updated_by'' \<and> v = VInt u))
    \<and> (\<forall>u v. field_by_name obj ''UpdatedBy'' \<noteq> None \<longrightarrow> user_null ctx = Some u \<longrightarrow> mp ''updated_by'' = Some v \<longrightarrow> v = VInt u)"
proof -
  obtain mp nu where s: "upsert_scan obj names ([''updated_at'' \<mapsto> VNow], []) = Inr (mp, nu)"
    using assms by (auto simp: upsert_statement_def split: sum.splits)
  note sc = upsert_scan_columns[OF s]
  define mp1 where "mp1 = (case field_by_name obj ''UpdatedBy'' of
        None \<Rightarrow> mp | Some _ \<Rightarrow> (case user_null ctx of None \<Rightarrow> mp | Some u \<Rightarrow> mp(''updated_by'' \<mapsto> VInt u)))"
  define mp2 where "mp2 = (if i \<le> 0 then mp1(''created_at'' \<mapsto> VNow) else (\<lambda>c. if c \<in> set nu then None else mp1 c))"
  have stmt: "stmt = (if i \<le> 0 then InsertRow table mp2 else UpdateRow table mp2 i)"
    using assms by (auto simp: upsert_statement_def s mp2_def mp1_def Let_def split: option.splits if_splits)
  have ign: "mp c = None" if c: "c \<in> set ignored_columns" for c
  proof (cases "mp c")
    case (Some v)
    then have "[''updated_at'' \<mapsto> VNow] c = Some v \<or> scan_written obj names c v" using sc by blast
    then show ?thesis using c by (auto simp: ignored_columns_def scan_written_def split: if_splits)
  qed simp
  have ign1: "mp1 c = None" if "c \<in> set ignored_columns" for c
    using ign[OF that] that by (auto simp: mp1_def ignored_columns_def split: option.split)
  have src: "scan_written obj names c v \<or> v = VNow \<and> c = ''updated_at'' \<or> (\<exists>u. user_null ctx = Some u \<and> c = ''updated_by'' \<and> v = VInt u)"
    if "mp1 c = Some v" for c v
  proof -
    have "mp c = Some v \<Longrightarrow> scan_written obj names c v \<or> v = VNow \<and> c = ''updated_at''"
      using sc[THEN conjunct1, rule_format, of c v] by (auto split: if_splits)
    then show ?thesis using that by (auto simp: mp1_def split: option.splits if_splits)
  qed
  show ?thesis
  proof (intro exI[of _ mp2] conjI)
    show "stmt = (if i \<le> 0 then InsertRow table mp2 else UpdateRow table mp2 i)" by (rule stmt)
    show "mp2 ''id'' = None" using ign1[of "''id''"] by (simp add: mp2_def ignored_columns_def)
    show "0 < i \<longrightarrow> mp2 ''created_at'' = None
         \<and> (\<forall>name\<in>set names. \<forall>f c. field_by_name obj name = Some f \<longrightarrow> fi_exported f \<longrightarrow> field_column f = Some c \<longrightarrow>
              has_tag ''no_update'' f \<longrightarrow> mp2 c = None)"
      using ign1 sc by (fastforce simp: mp2_def ignored_columns_def)
    show "\<forall>c v. mp2 c = Some v \<longrightarrow> scan_written obj names c v
         \<or> v = VNow \<and> (c = ''updated_at'' \<or> c = ''created_at'' \<and> i \<le> 0)
         \<or> (\<exists>u. user_null ctx = Some u \<and> c = ''updated_by'' \<and> v = VInt u)"
      using src by (auto simp: mp2_def split: if_splits)
    show "\<forall>u v. field_by_name obj ''UpdatedBy'' \<noteq> None \<longrightarrow> user_null ctx = Some u \<longrightarrow> mp2 ''updated_by'' = Some v \<longrightarrow> v = VInt u"
      by (auto simp: mp2_def mp1_def split: option.splits if_splits)
  qed
qed

definition sample_field :: "string \<Rightarrow> string \<Rightarrow> int \<Rightarrow> int field_info" where
  "sample_field name rq v =
     \<lparr>fi_name = name, fi_rq = rq, fi_db = [], fi_exported = True, fi_bool = False, fi_zero = (v = 0), fi_value = v, fi_int = Some v\<rparr>"

definition sample_struct :: "int struct_value" where
  "sample_struct = \<lparr>sv_type = ''<Item Value>'',
     sv_fields = [sample_field ''ID'' [] 7, sample_field ''Price'' ''no_update'' 3, sample_field ''Amount'' [] 4,
                  sample_field ''UpdatedBy'' [] 99]\<rparr>"

definition sample_ctx :: auth_ctx where
  "sample_ctx = Some \<lparr>ui_tz = 0, ui_user = 5, ui_company = 1, ui_role = 0, ui_extra = [], ui_token_type = [], ui_expires = None\<rparr>"


lemma upsert_respects_tags_witness:
  "\<exists>mp. upsert_statement sample_ctx sample_struct ''item'' [''ID'', ''Price'', ''Amount'', ''UpdatedBy''] = Inr (UpdateRow ''item'' mp 7, 7)
     \<and> mp ''id'' = None \<and> mp ''price'' = None \<and> mp ''updated_by'' \<noteq> Some (VField 99)"
proof -
  let ?names = "[''ID'', ''Price'', ''Amount'', ''UpdatedBy'']"
  have sn: "snake_case ''ID'' = ''id''" "snake_case ''Price'' = ''price''" "snake_case ''Amount'' = ''amount''"
    "snake_case ''UpdatedBy'' = ''updated_by''" by code_simp+
  have u: "user_null sample_ctx = Some 5" by (simp add: user_null_def is_authenticated_def auth_user_def current_def sample_ctx_def)
  obtain mp where st: "upsert_statement sample_ctx sample_struct ''item'' ?names = Inr (UpdateRow ''item'' mp 7, 7)"
    by (simp add: upsert_statement_def field_by_name_def sample_struct_def sample_field_def field_column_def sn ignored_columns_def u Let_def has_tag_def split_to_map_def)
  have pf: "field_by_name sample_struct ''Price'' = Some (sample_field ''Price'' ''no_update'' 3)" "fi_exported (sample_field ''Price'' ''no_update'' 3)"
    "field_column (sample_field ''Price'' ''no_update'' 3) = Some ''price''" "has_tag ''no_update'' (sample_field ''Price'' ''no_update'' 3)"
    "field_by_name sample_struct ''UpdatedBy'' \<noteq> None"
    by (simp_all add: field_by_name_def sample_struct_def sample_field_def field_column_def sn has_tag_def split_to_map_def)
  obtain mp' where m: "UpdateRow ''item'' mp 7 = (if (7 :: int) \<le> 0 then InsertRow ''item'' mp' else UpdateRow ''item'' mp' 7)"
    "mp' ''id'' = None"
    "0 < (7 :: int) \<longrightarrow> mp' ''created_at'' = None
         \<and> (\<forall>name\<in>set ?names. \<forall>f c. field_by_name sample_struct name = Some f \<longrightarrow> fi_exported f \<longrightarrow> field_column f = Some c \<longrightarrow>
              has_tag ''no_update'' f \<longrightarrow> mp' c = None)"
    "\<forall>u v. field_by_name sample_struct ''UpdatedBy'' \<noteq> None \<longrightarrow> user_null sample_ctx = Some u \<longrightarrow> mp' ''updated_by'' = Some v \<longrightarrow> v = VInt u"
    using upsert_respects_tags[OF st] by blast
  have "mp' ''price'' = None" using m(3) pf by simp
  moreover have "mp' ''updated_by'' \<noteq> Some (VField 99)" using m(4) pf(5) u by auto
  ultimately show ?thesis using st m(1,2) by auto
qed

section \<open>Facts on the sort order\<close>

lemma key_less_irrefl [simp]: "\<not> key_less k k"
  by (induction k) auto

lemma key_less_trans: "key_less a b \<Longrightarrow> key_less b c \<Longrightarrow> key_less a c"
proof (induction a b arbitrary: c rule: key_less.induct)
  case (1 x xs y ys)
  then show ?case by (cases c) auto
next
  case (2 y ys)
  then show ?case by (cases c) auto
qed auto

lemma key_less_total: "a \<noteq> b \<Longrightarrow> key_less a b \<or> key_less b a"
  by (induction a b rule: key_less.induct) (auto, metis neq_Nil_conv key_less.simps(2))

lemma sort_key_inj:
  assumes "so_id r \<noteq> so_id r'" "0 < so_id r" "0 < so_id r'" "length (so_omit r) = length (so_omit r')"
  shows "sort_key saved r \<noteq> sort_key saved r'"
  using assms by (auto simp: sort_key_def)

text \<open>The rows of a table: their ids are positive and all different, and they have the same columns.\<close>

definition sort_rows_ok :: "'p sort_row list \<Rightarrow> bool" where
  "sort_rows_ok rows \<longleftrightarrow>
     distinct (map so_id rows) \<and> (\<forall>r\<in>set rows. 0 < so_id r) \<and> (\<forall>r\<in>set rows. \<forall>r'\<in>set rows. length (so_omit r) = length (so_omit r'))"

definition below :: "int \<Rightarrow> 'p sort_row list \<Rightarrow> 'p sort_row \<Rightarrow> 'p sort_row set" where
  "below saved rows r = {r' \<in> set rows. so_part r' = so_part r \<and> key_less (sort_key saved r') (sort_key saved r)}"

lemma sort_rank_card:
  assumes "sort_rows_ok rows"
  shows "sort_rank saved rows r = 1 + int (card (below saved rows r))"
proof -
  have "distinct rows" using assms by (auto simp: sort_rows_ok_def distinct_map)
  then show ?thesis
    by (simp add: sort_rank_def below_def flip: distinct_card set_filter)
qed

lemma sort_rank_less:
  assumes ok: "sort_rows_ok rows" and r: "r \<in> set rows" "r' \<in> set rows" "so_part r = so_part r'"
    and l: "key_less (sort_key saved r) (sort_key saved r')"
  shows "sort_rank saved rows r < sort_rank saved rows r'"
proof -
  have "below saved rows r \<subset> below saved rows r'"
  proof
    show "below saved rows r \<subseteq> below saved rows r'" using r key_less_trans[OF _ l] by (auto simp: below_def)
    have "r \<in> below saved rows r'" "r \<notin> below saved rows r" using r l by (simp_all add: below_def)
    then show "below saved rows r \<noteq> below saved rows r'" by blast
  qed
  moreover have "finite (below saved rows r')" by (simp add: below_def)
  ultimately show ?thesis by (simp add: sort_rank_card[OF ok] psubset_card_mono)
qed

lemma so_order_rank: "map so_order (rank_rows saved rows) = map (sort_rank saved rows) rows"
  by (simp add: rank_rows_def Let_def)

text \<open>The ranks in one partition are the numbers from 1 on, each once.\<close>

lemma ranks_inj: "sort_rows_ok rows \<Longrightarrow> inj_on (sort_rank saved rows) (set (filter (\<lambda>r. so_part r = p) rows))"
proof
  assume ok: "sort_rows_ok rows"
  fix r r' assume r: "r \<in> set (filter (\<lambda>r. so_part r = p) rows)" "r' \<in> set (filter (\<lambda>r. so_part r = p) rows)"
    and e: "sort_rank saved rows r = sort_rank saved rows r'"
  show "r = r'"
  proof (rule ccontr)
    assume "r \<noteq> r'"
    then have "so_id r \<noteq> so_id r'" using ok r by (auto simp: sort_rows_ok_def distinct_map dest: inj_onD)
    then have "sort_key saved r \<noteq> sort_key saved r'" using ok r by (intro sort_key_inj) (auto simp: sort_rows_ok_def)
    then show False using key_less_total sort_rank_less[OF ok] e r by (metis (mono_tags, lifting) less_irrefl mem_Collect_eq set_filter)
  qed
qed

lemma partition_distinct: "sort_rows_ok rows \<Longrightarrow> distinct (filter (\<lambda>r. so_part r = p) rows)"
  by (auto simp: sort_rows_ok_def distinct_map)

lemma ranks_exact:
  assumes "sort_rows_ok rows"
  shows "sort_rank saved rows ` set (filter (\<lambda>r. so_part r = p) rows) = {1 .. int (length (filter (\<lambda>r. so_part r = p) rows))}"
proof -
  let ?R = "filter (\<lambda>r. so_part r = p) rows"
  note d = partition_distinct[OF assms, of p] and inj = ranks_inj[OF assms, of saved p]
  have "sort_rank saved rows ` set ?R \<subseteq> {1 .. int (length ?R)}"
  proof
    fix x assume "x \<in> sort_rank saved rows ` set ?R"
    then obtain r where r: "r \<in> set ?R" "x = sort_rank saved rows r" by blast
    have "below saved rows r \<subset> set ?R"
    proof
      show "below saved rows r \<subseteq> set ?R" using r(1) by (auto simp: below_def)
      have "r \<notin> below saved rows r" by (simp add: below_def)
      then show "below saved rows r \<noteq> set ?R" using r(1) by blast
    qed
    then have "card (below saved rows r) < length ?R" using psubset_card_mono[of "set ?R"] d by (simp add: distinct_card del: set_filter)
    then show "x \<in> {1 .. int (length ?R)}" by (simp add: r(2) sort_rank_card[OF assms])
  qed
  moreover have "card (sort_rank saved rows ` set ?R) = card {1 .. int (length ?R)}"
    using card_image[OF inj] d by (simp add: distinct_card del: set_filter)
  ultimately show ?thesis by (simp add: card_subset_eq del: set_filter)
qed

lemma ranked_orders:
  "map so_order (filter (\<lambda>r. so_part r = p) (rank_rows saved rows)) = map (sort_rank saved rows) (filter (\<lambda>r. so_part r = p) rows)"
proof -
  define upd where "upd = (\<lambda>r. let rank = sort_rank saved rows r in if rank \<noteq> so_order r then r\<lparr>so_order := rank\<rparr> else r)"
  have u: "so_part (upd r) = so_part r" "so_order (upd r) = sort_rank saved rows r" for r by (simp_all add: upd_def Let_def)
  have "filter (\<lambda>r. so_part r = p) (map upd rows) = map upd (filter (\<lambda>r. so_part r = p) rows)" by (simp add: filter_map o_def u)
  then show ?thesis unfolding rank_rows_def upd_def[symmetric] by (simp add: u)
qed


definition sample_rows :: "string sort_row list" where
  "sample_rows = map (\<lambda>(i, p, o'). \<lparr>so_id = i, so_part = p, so_omit = [], so_order = o'\<rparr>)
     [(1, ''a'', 1), (2, ''a'', 5), (3, ''b'', 9), (4, ''a'', 1)]"


text \<open>
  Because the saved row comes before the others with its number, a row that is moved one place down
  stays where it was: of three rows in order, the first one is saved with the number 2.
\<close>

lemma move_down_stays:
  "rank_rows 1 (map (\<lambda>(i, o'). \<lparr>so_id = i, so_part = (), so_omit = [], so_order = o'\<rparr>) [(1, 2), (2, 2), (3, 3)])
     = map (\<lambda>(i, o'). \<lparr>so_id = i, so_part = (), so_omit = [], so_order = o'\<rparr>) [(1, 1), (2, 2), (3, 3)]"
  by code_simp

text \<open>A field with its own column is read by that column in lists but not in \<^verbatim>\<open>GetRaw\<close>.\<close>

lemma raw_columns_ignore_tag:
  "list_columns [(sample_field ''Price'' [] 3)\<lparr>fi_db := ''amount''\<rparr>] = [''amount'']"
  "raw_columns [(sample_field ''Price'' [] 3)\<lparr>fi_db := ''amount''\<rparr>] = [''price'']"
  by code_simp+

text \<open>A negative offset becomes a huge one; the tenth placeholder is replaced by the first argument.\<close>

lemma negative_offset_wraps: "uint64 (- 1) = 18446744073709551615"
  by (simp add: uint64_def)

lemma debug_sql_tenth: "debug_sql ''a = $10'' [DaInt 7] = Some ''a = 70''"
  by code_simp

end
