(* ===== verification/Slots.thy ===== *)
theory Slots
  imports Main
begin

text \<open>Counting the members of a numbered family that hold something, shared by the step relations that hand out slots.\<close>

lemma card_fun_upd:
  fixes n :: nat
  assumes "i < n"
  shows "int (card {j. j < n \<and> P ((f(i := c)) j)}) =
    int (card {j. j < n \<and> P (f j)}) + (if P c then 1 else 0) - (if P (f i) then 1 else 0)"
proof -
  let ?A = "{j. j < n \<and> j \<noteq> i \<and> P (f j)}"
  have fin: "finite ?A" by simp
  have "{j. j < n \<and> P ((f(i := c)) j)} = (if P c then insert i ?A else ?A)" using assms by auto
  moreover have "{j. j < n \<and> P (f j)} = (if P (f i) then insert i ?A else ?A)" using assms by auto
  ultimately show ?thesis using fin by auto
qed

lemma card_fun_new:
  fixes n :: nat
  shows "\<not> P c \<Longrightarrow> {j. j < Suc n \<and> P ((f(n := c)) j)} = {j. j < n \<and> P (f j)}"
  by (auto simp: less_Suc_eq)

lemma card_slot_pos: "i < (n :: nat) \<Longrightarrow> P (f i) \<Longrightarrow> 0 < int (card {j. j < n \<and> P (f j)})"
  by (simp add: card_gt_0_iff) blast

text \<open>
  What the step relations that hand out slots promise: in every state that satisfies the invariant, a counter is
  exactly the number of members that hold a slot.
\<close>

locale slot_count =
  fixes inv :: "'s \<Rightarrow> bool" and num :: "'s \<Rightarrow> nat" and member :: "'s \<Rightarrow> nat \<Rightarrow> 'j" and holds :: "'j \<Rightarrow> bool" and count :: "'s \<Rightarrow> int"
  assumes exact: "inv s \<Longrightarrow> count s = int (card {i. i < num s \<and> holds (member s i)})"
begin

lemma count_nonneg: "inv s \<Longrightarrow> 0 \<le> count s"
  by (simp add: exact)

lemma held_counts: "inv s \<Longrightarrow> i < num s \<Longrightarrow> holds (member s i) \<Longrightarrow> 0 < count s"
  using card_slot_pos[of i "num s" holds "member s"] exact by simp

lemma none_held: "inv s \<Longrightarrow> count s \<le> 0 \<Longrightarrow> i < num s \<Longrightarrow> \<not> holds (member s i)"
  using held_counts by fastforce

lemma at_most: "inv s \<Longrightarrow> count s \<le> m \<Longrightarrow> int (card {i. i < num s \<and> holds (member s i)}) \<le> m"
  using exact by simp

text \<open>One member changes: the counter has to follow.\<close>

lemma count_change:
  assumes "inv s" "i < num s" "member s' = (member s)(i := c)" "num s' = num s"
  shows "int (card {j. j < num s' \<and> holds (member s' j)})
    = count s + (if holds c then 1 else 0) - (if holds (member s i) then 1 else 0)"
  using card_fun_upd[OF assms(2), of holds "member s" c] exact[OF assms(1)] assms(3,4) by simp

lemma count_new:
  assumes "inv s" "member s' = (member s)(num s := c)" "num s' = Suc (num s)" "\<not> holds c"
  shows "int (card {j. j < num s' \<and> holds (member s' j)}) = count s"
  using card_fun_new[of holds c "num s" "member s"] exact[OF assms(1)] assms(2-4) by simp

end

end
