(* ===== verification/Websocket.thy ===== *)
theory Websocket
  imports Slots GoPrelude "HOL-Library.Sublist"
begin

text \<open>
  Websocket connections (\<^verbatim>\<open>res/websocket.go\<close>): the slots that bound their number, the closing of a
  connection by several goroutines, and the messages handed to the handler.  Every request is a
  process; one step is what happens between two points at which goroutines can interleave: an
  atomic operation on the counter, a section under the connection's mutex, or an operation on a
  channel.
\<close>

section \<open>Slots\<close>

text \<open>The outcome of \<^verbatim>\<open>CompareAndSwap\<close> and the counter after it.\<close>

definition compare_and_swap :: "int \<Rightarrow> int \<Rightarrow> int \<Rightarrow> bool \<times> int" where
  "compare_and_swap old new counter = (if counter = old then (True, new) else (False, counter))"

text \<open>
  Where a request is in \<^verbatim>\<open>acquireWebSocketSlot\<close> and after it: the limit is read once, the counter is
  loaded and swapped until that succeeds.
\<close>

datatype ws_phase = PhNew | PhLoop int | PhLoaded int int | PhAcquired | PhRejected | PhFailed | PhOpen

definition after_limit :: "int \<Rightarrow> int \<Rightarrow> ws_phase \<times> int" where
  "after_limit limit counter = (if limit \<le> 0 then (PhAcquired, counter + 1) else (PhLoop limit, counter))"

definition after_load :: "int \<Rightarrow> int \<Rightarrow> ws_phase" where
  "after_load limit cur = (if limit \<le> cur then PhRejected else PhLoaded limit cur)"

definition after_swap :: "int \<Rightarrow> int \<Rightarrow> int \<Rightarrow> ws_phase \<times> int" where
  "after_swap limit cur counter =
     (case compare_and_swap cur (cur + 1) counter of
        (True, counter') \<Rightarrow> (PhAcquired, counter')
      | (False, counter') \<Rightarrow> (PhLoop limit, counter'))"

definition release_slot :: "int \<Rightarrow> int" where
  "release_slot counter = counter - 1"

section \<open>Connections\<close>

text \<open>
  \<open>cn_on_close\<close> tells whether the field still holds the channel (it is nil once closed), \<open>cn_closed\<close>
  whether the channel is closed; \<open>cn_closers\<close> counts the goroutines about to call \<^verbatim>\<open>closeChan\<close>.
  \<open>cn_released\<close> is set once the goroutine that waits for the channel has released the slot.
  \<open>cn_receive\<close> and \<open>cn_watch\<close> say where the two goroutines are: at the top of the loop, past the
  evaluation of the field (and whether that gave the channel, not nil), reading, or done.  The last
  three are the messages in the channel of capacity one, those the handler has read, and those the
  peer has sent.
\<close>

datatype ws_loop = LoopTop | LoopSelect bool | LoopRead | LoopDone

record 'm ws_conn =
  cn_phase :: ws_phase
  cn_on_close :: bool
  cn_closed :: bool
  cn_closers :: nat
  cn_released :: bool
  cn_receive :: ws_loop
  cn_watch :: ws_loop
  cn_incoming :: "'m list"
  cn_read :: "'m list"
  cn_sent :: "'m list"

definition new_conn :: "'m ws_conn" where
  "new_conn = \<lparr>cn_phase = PhNew, cn_on_close = False, cn_closed = False, cn_closers = 0, cn_released = False,
     cn_receive = LoopDone, cn_watch = LoopDone, cn_incoming = [], cn_read = [], cn_sent = []\<rparr>"

text \<open>After the upgrade: the channels are made and the goroutines started.\<close>

definition open_conn :: "'m ws_conn \<Rightarrow> 'm ws_conn" where
  "open_conn c = c\<lparr>cn_phase := PhOpen, cn_on_close := True, cn_receive := LoopTop, cn_watch := LoopTop\<rparr>"

text \<open>\<^verbatim>\<open>closeChan\<close>: closing a closed channel would panic, which is \<^const>\<open>None\<close>.\<close>

definition close_chan :: "'m ws_conn \<Rightarrow> 'm ws_conn option" where
  "close_chan c =
     (if cn_on_close c
      then (if cn_closed c then None else Some (c\<lparr>cn_closed := True, cn_on_close := False\<rparr>))
      else Some c)"

text \<open>
  \<^verbatim>\<open>OnClose\<close> gives the field as it is now: the channel, or nil.  A receive on the result is ready once
  the channel is closed, and never on nil.
\<close>

definition on_close_now :: "'m ws_conn \<Rightarrow> bool" where
  "on_close_now c = cn_on_close c"

definition channel_ready :: "bool \<Rightarrow> 'm ws_conn \<Rightarrow> bool" where
  "channel_ready got c \<longleftrightarrow> got \<and> cn_closed c"

text \<open>\<^verbatim>\<open>Close\<close>: only when closing the network connection succeeds is \<^verbatim>\<open>closeChan\<close> called.\<close>

definition close_conn :: "bool \<Rightarrow> 'm ws_conn \<Rightarrow> 'm ws_conn" where
  "close_conn net_ok c = (if \<not> net_ok then c else c\<lparr>cn_closers := cn_closers c + 1\<rparr>)"

text \<open>
  \<^verbatim>\<open>receive\<close>: the test at the top of a round; then reading fails, or a message is queued, or dropped
  when the queue stays full for a second.
\<close>

definition receive_test :: "bool \<Rightarrow> 'm ws_conn \<Rightarrow> 'm ws_conn" where
  "receive_test got c = c\<lparr>cn_receive := (if channel_ready got c then LoopDone else LoopRead)\<rparr>"

definition receive_fails :: "'m ws_conn \<Rightarrow> 'm ws_conn" where
  "receive_fails c = c\<lparr>cn_receive := LoopDone, cn_closers := cn_closers c + 1\<rparr>"

definition receive_message :: "'m \<Rightarrow> bool \<Rightarrow> 'm ws_conn \<Rightarrow> 'm ws_conn" where
  "receive_message m timed_out c =
     (let c1 = c\<lparr>cn_receive := LoopTop, cn_sent := cn_sent c @ [m]\<rparr>
      in if cn_incoming c = [] \<and> \<not> timed_out then c1\<lparr>cn_incoming := [m]\<rparr> else c1)"

text \<open>\<^verbatim>\<open>WaitFor\<close>: a message or a timeout; the text is decoded into the handler's value.\<close>

definition wait_for :: "('m \<Rightarrow> string + 'v) \<Rightarrow> bool \<Rightarrow> 'm ws_conn \<Rightarrow> (string + 'v) \<times> 'm ws_conn" where
  "wait_for decode timed_out c =
     (case cn_incoming c of
        m # ms \<Rightarrow> if timed_out then (Inl ''timeout'', c) else (decode m, c\<lparr>cn_incoming := ms, cn_read := cn_read c @ [m]\<rparr>)
      | [] \<Rightarrow> (Inl ''timeout'', c))"

text \<open>\<^verbatim>\<open>Send\<close> and \<^verbatim>\<open>ping\<close>: the outcomes of the deadline and of the write, and whether the pong came in time.\<close>

definition ws_send :: "string option \<Rightarrow> string option \<Rightarrow> string option" where
  "ws_send deadline_err write_err = (case deadline_err of Some e \<Rightarrow> Some e | None \<Rightarrow> write_err)"

definition ws_ping :: "string option \<Rightarrow> bool \<Rightarrow> string option" where
  "ws_ping write_err pong_in_time =
     (case write_err of
        Some e \<Rightarrow> Some e
      | None \<Rightarrow> if pong_in_time then None else Some (''ws: waited for pong but didn'' @ [CHR 0x27] @ ''t get one''))"

text \<open>
  \<^verbatim>\<open>watch\<close>: at the select, either the channel that was evaluated is ready, or the ticker fires and the
  peer is pinged.  When the watcher ends, its deferred \<^verbatim>\<open>Close\<close> runs.
\<close>

definition watch_closed :: "bool \<Rightarrow> 'm ws_conn \<Rightarrow> 'm ws_conn" where
  "watch_closed net_ok c = close_conn net_ok (c\<lparr>cn_watch := LoopDone\<rparr>)"

definition watch_tick :: "string option \<Rightarrow> bool \<Rightarrow> bool \<Rightarrow> 'm ws_conn \<Rightarrow> 'm ws_conn" where
  "watch_tick write_err pong_in_time net_ok c =
     (case ws_ping write_err pong_in_time of
        None \<Rightarrow> c\<lparr>cn_watch := LoopTop\<rparr>
      | Some e \<Rightarrow> close_conn net_ok (c\<lparr>cn_watch := LoopDone\<rparr>))"

section \<open>The process\<close>

record 'm ws_state =
  ws_limit :: int
  ws_count :: int
  ws_ids :: nat
  ws_conns :: "nat \<Rightarrow> 'm ws_conn"

definition ws_init :: "int \<Rightarrow> 'm ws_state" where
  "ws_init limit = \<lparr>ws_limit = limit, ws_count = 0, ws_ids = 0, ws_conns = (\<lambda>_. new_conn)\<rparr>"

definition upd_conn :: "nat \<Rightarrow> ('m ws_conn \<Rightarrow> 'm ws_conn) \<Rightarrow> 'm ws_state \<Rightarrow> 'm ws_state" where
  "upd_conn i f s = s\<lparr>ws_conns := (ws_conns s)(i := f (ws_conns s i))\<rparr>"

definition set_phase :: "nat \<Rightarrow> ws_phase \<times> int \<Rightarrow> 'm ws_state \<Rightarrow> 'm ws_state" where
  "set_phase i r s = (upd_conn i (\<lambda>c. c\<lparr>cn_phase := fst r\<rparr>) s)\<lparr>ws_count := snd r\<rparr>"

text \<open>
  The steps: a request arrives and takes an id; it goes through the acquisition; the upgrade fails
  or succeeds; goroutines read, close and release.  The application may change the limit.
\<close>

inductive ws_step :: "'m ws_state \<Rightarrow> 'm ws_state \<Rightarrow> bool" where
  request: "ws_step s (upd_conn (ws_ids s) (\<lambda>_. new_conn) (s\<lparr>ws_ids := ws_ids s + 1\<rparr>))"
| read_limit: "i < ws_ids s \<Longrightarrow> cn_phase (ws_conns s i) = PhNew \<Longrightarrow>
    ws_step s (set_phase i (after_limit (ws_limit s) (ws_count s)) s)"
| load: "i < ws_ids s \<Longrightarrow> cn_phase (ws_conns s i) = PhLoop limit \<Longrightarrow>
    ws_step s (set_phase i (after_load limit (ws_count s), ws_count s) s)"
| swap: "i < ws_ids s \<Longrightarrow> cn_phase (ws_conns s i) = PhLoaded limit cur \<Longrightarrow>
    ws_step s (set_phase i (after_swap limit cur (ws_count s)) s)"
| upgrade_fails: "i < ws_ids s \<Longrightarrow> cn_phase (ws_conns s i) = PhAcquired \<Longrightarrow>
    ws_step s (set_phase i (PhFailed, release_slot (ws_count s)) s)"
| upgrade: "i < ws_ids s \<Longrightarrow> cn_phase (ws_conns s i) = PhAcquired \<Longrightarrow>
    ws_step s (upd_conn i open_conn s)"
| receive_top: "i < ws_ids s \<Longrightarrow> cn_phase (ws_conns s i) = PhOpen \<Longrightarrow> cn_receive (ws_conns s i) = LoopTop \<Longrightarrow>
    ws_step s (upd_conn i (\<lambda>c. c\<lparr>cn_receive := LoopSelect (on_close_now c)\<rparr>) s)"
| receive_select: "i < ws_ids s \<Longrightarrow> cn_phase (ws_conns s i) = PhOpen \<Longrightarrow> cn_receive (ws_conns s i) = LoopSelect got \<Longrightarrow>
    ws_step s (upd_conn i (receive_test got) s)"
| message: "i < ws_ids s \<Longrightarrow> cn_phase (ws_conns s i) = PhOpen \<Longrightarrow> cn_receive (ws_conns s i) = LoopRead \<Longrightarrow>
    ws_step s (upd_conn i (receive_message m timed_out) s)"
| read_fails: "i < ws_ids s \<Longrightarrow> cn_phase (ws_conns s i) = PhOpen \<Longrightarrow> cn_receive (ws_conns s i) = LoopRead \<Longrightarrow>
    ws_step s (upd_conn i receive_fails s)"
| handler_reads: "i < ws_ids s \<Longrightarrow> cn_phase (ws_conns s i) = PhOpen \<Longrightarrow>
    ws_step s (upd_conn i (\<lambda>c. snd (wait_for (decode :: 'm \<Rightarrow> string + string) timed_out c)) s)"
| close_call: "i < ws_ids s \<Longrightarrow> cn_phase (ws_conns s i) = PhOpen \<Longrightarrow>
    ws_step s (upd_conn i (close_conn net_ok) s)"
| watch_top: "i < ws_ids s \<Longrightarrow> cn_phase (ws_conns s i) = PhOpen \<Longrightarrow> cn_watch (ws_conns s i) = LoopTop \<Longrightarrow>
    ws_step s (upd_conn i (\<lambda>c. c\<lparr>cn_watch := LoopSelect (on_close_now c)\<rparr>) s)"
| watch_ready: "i < ws_ids s \<Longrightarrow> cn_phase (ws_conns s i) = PhOpen \<Longrightarrow> cn_watch (ws_conns s i) = LoopSelect got \<Longrightarrow>
    channel_ready got (ws_conns s i) \<Longrightarrow> ws_step s (upd_conn i (watch_closed net_ok) s)"
| watch_pings: "i < ws_ids s \<Longrightarrow> cn_phase (ws_conns s i) = PhOpen \<Longrightarrow> cn_watch (ws_conns s i) = LoopSelect got \<Longrightarrow>
    ws_step s (upd_conn i (watch_tick write_err pong_in_time net_ok) s)"
| close_frame: "i < ws_ids s \<Longrightarrow> cn_phase (ws_conns s i) = PhOpen \<Longrightarrow>
    ws_step s (upd_conn i (\<lambda>c. c\<lparr>cn_closers := cn_closers c + 1\<rparr>) s)"
| close_section: "i < ws_ids s \<Longrightarrow> cn_phase (ws_conns s i) = PhOpen \<Longrightarrow> 0 < cn_closers (ws_conns s i) \<Longrightarrow>
    close_chan (ws_conns s i) = Some c \<Longrightarrow>
    ws_step s (upd_conn i (\<lambda>_. c\<lparr>cn_closers := cn_closers c - 1\<rparr>) s)"
| release: "i < ws_ids s \<Longrightarrow> cn_phase (ws_conns s i) = PhOpen \<Longrightarrow> cn_closed (ws_conns s i) \<Longrightarrow> \<not> cn_released (ws_conns s i) \<Longrightarrow>
    ws_step s ((upd_conn i (\<lambda>c. c\<lparr>cn_released := True\<rparr>) s)\<lparr>ws_count := release_slot (ws_count s)\<rparr>)"
| set_limit: "ws_step s (s\<lparr>ws_limit := limit\<rparr>)"


text \<open>Reachable states, when every limit that is ever set satisfies \<open>P\<close>.\<close>

inductive ws_reachable :: "(int \<Rightarrow> bool) \<Rightarrow> 'm ws_state \<Rightarrow> bool" for P where
  start: "P limit \<Longrightarrow> ws_reachable P (ws_init limit)"
| next_step: "ws_reachable P s \<Longrightarrow> ws_step s s' \<Longrightarrow> P (ws_limit s') \<Longrightarrow> ws_reachable P s'"

section \<open>The invariant\<close>

definition holds_slot :: "'m ws_conn \<Rightarrow> bool" where
  "holds_slot c \<longleftrightarrow> cn_phase c = PhAcquired \<or> cn_phase c = PhOpen \<and> \<not> cn_released c"

definition conn_ok :: "(int \<Rightarrow> bool) \<Rightarrow> 'm ws_conn \<Rightarrow> bool" where
  "conn_ok P c \<longleftrightarrow>
     (cn_phase c = PhOpen \<longrightarrow> (cn_on_close c \<longleftrightarrow> \<not> cn_closed c) \<and> (cn_released c \<longrightarrow> cn_closed c)
        \<and> (cn_receive c = LoopDone \<longrightarrow> cn_closed c \<or> 0 < cn_closers c))
     \<and> (cn_phase c \<noteq> PhOpen \<longrightarrow> \<not> cn_closed c \<and> \<not> cn_released c)
     \<and> subseq (cn_read c @ cn_incoming c) (cn_sent c) \<and> length (cn_incoming c) \<le> 1
     \<and> (case cn_phase c of PhLoop l \<Rightarrow> P l \<and> 0 < l | PhLoaded l cur \<Rightarrow> P l \<and> 0 < l \<and> cur < l | _ \<Rightarrow> True)"

definition ws_ok :: "(int \<Rightarrow> bool) \<Rightarrow> 'm ws_state \<Rightarrow> bool" where
  "ws_ok P s \<longleftrightarrow> ws_count s = int (card {i. i < ws_ids s \<and> holds_slot (ws_conns s i)}) \<and> (\<forall>i<ws_ids s. conn_ok P (ws_conns s i))
     \<and> P (ws_limit s)"

interpretation ws_slots: slot_count "ws_ok P" ws_ids ws_conns holds_slot ws_count for P
  by unfold_locales (simp add: ws_ok_def)

text \<open>A step of one connection keeps the invariant when its effect on the counter matches.\<close>

lemma ws_ok_conn:
  assumes "ws_ok P s" "i < ws_ids s" "conn_ok P c"
    and "ws_conns s' = (ws_conns s)(i := c)" "ws_ids s' = ws_ids s" "ws_limit s' = ws_limit s"
    and "ws_count s' = ws_count s + (if holds_slot c then 1 else 0) - (if holds_slot (ws_conns s i) then 1 else 0)"
  shows "ws_ok P s'"
  using assms ws_slots.count_change[OF assms(1,2,4,5)] by (auto simp: ws_ok_def)

lemma upd_conn_simps [simp]:
  "ws_conns (upd_conn i f s) = (ws_conns s)(i := f (ws_conns s i))" "ws_ids (upd_conn i f s) = ws_ids s"
  "ws_limit (upd_conn i f s) = ws_limit s" "ws_count (upd_conn i f s) = ws_count s"
  "ws_conns (set_phase i r s) = (ws_conns s)(i := (ws_conns s i)\<lparr>cn_phase := fst r\<rparr>)" "ws_ids (set_phase i r s) = ws_ids s"
  "ws_limit (set_phase i r s) = ws_limit s" "ws_count (set_phase i r s) = snd r"
  by (simp_all add: upd_conn_def set_phase_def)

lemma close_conn_simps [simp]:
  "cn_phase (close_conn b c) = cn_phase c" "cn_on_close (close_conn b c) = cn_on_close c" "cn_closed (close_conn b c) = cn_closed c"
  "cn_released (close_conn b c) = cn_released c" "cn_receive (close_conn b c) = cn_receive c" "cn_incoming (close_conn b c) = cn_incoming c"
  "cn_read (close_conn b c) = cn_read c" "cn_sent (close_conn b c) = cn_sent c"
  "cn_closers c \<le> cn_closers (close_conn b c)"
  by (simp_all add: close_conn_def)

lemma receive_message_simps:
  "cn_phase (receive_message m t c) = cn_phase c" "cn_released (receive_message m t c) = cn_released c"
  by (simp_all add: receive_message_def Let_def)

lemma receive_message_ok: "conn_ok P c \<Longrightarrow> cn_phase c = PhOpen \<Longrightarrow> conn_ok P (receive_message m timed_out c)"
  using list_emb_append_mono[of "(=)" "cn_read c @ cn_incoming c" "cn_sent c" "[]" "[m]"]
    list_emb_append_mono[of "(=)" "cn_read c" "cn_sent c" "[m]" "[m]"]
  by (auto simp: conn_ok_def receive_message_def Let_def)

lemma ws_ok_step:
  assumes "ws_step s s'" "ws_ok P s" "P (ws_limit s')"
  shows "ws_ok P s'"
  using assms
proof (cases rule: ws_step.cases)
  case request
  have "{j. j < ws_ids s + 1 \<and> holds_slot (((ws_conns s)(ws_ids s := new_conn)) j)} = {j. j < ws_ids s \<and> holds_slot (ws_conns s j)}"
    using card_fun_new[of holds_slot new_conn "ws_ids s" "ws_conns s"] by (simp add: holds_slot_def new_conn_def)
  moreover have "conn_ok P new_conn" by (simp add: conn_ok_def new_conn_def)
  ultimately show ?thesis using assms(2) request by (auto simp: ws_ok_def upd_conn_def less_Suc_eq)
next
  case (read_limit i)
  then show ?thesis using assms(2)
    by (intro ws_ok_conn[OF assms(2), of i "(ws_conns s i)\<lparr>cn_phase := fst (after_limit (ws_limit s) (ws_count s))\<rparr>"])
      (auto simp: ws_ok_def conn_ok_def holds_slot_def after_limit_def)
next
  case (load i limit)
  then show ?thesis using assms(2)
    by (intro ws_ok_conn[OF assms(2), of i "(ws_conns s i)\<lparr>cn_phase := after_load limit (ws_count s)\<rparr>"])
      (auto simp: ws_ok_def conn_ok_def holds_slot_def after_load_def)
next
  case (swap i limit cur)
  then show ?thesis using assms(2)
    by (intro ws_ok_conn[OF assms(2), of i "(ws_conns s i)\<lparr>cn_phase := fst (after_swap limit cur (ws_count s))\<rparr>"])
      (auto simp: ws_ok_def conn_ok_def holds_slot_def after_swap_def compare_and_swap_def)
next
  case (upgrade_fails i)
  then show ?thesis using assms(2)
    by (intro ws_ok_conn[OF assms(2), of i "(ws_conns s i)\<lparr>cn_phase := PhFailed\<rparr>"])
      (auto simp: ws_ok_def conn_ok_def holds_slot_def release_slot_def)
next
  case (upgrade i)
  then show ?thesis using assms(2)
    by (intro ws_ok_conn[OF assms(2), of i "open_conn (ws_conns s i)"])
      (auto simp: ws_ok_def conn_ok_def holds_slot_def open_conn_def)
next
  case (receive_top i)
  then show ?thesis using assms(2)
    by (intro ws_ok_conn[OF assms(2), of i "(ws_conns s i)\<lparr>cn_receive := LoopSelect (on_close_now (ws_conns s i))\<rparr>"])
      (auto simp: ws_ok_def conn_ok_def holds_slot_def)
next
  case (receive_select i got)
  then show ?thesis using assms(2)
    by (intro ws_ok_conn[OF assms(2), of i "receive_test got (ws_conns s i)"])
      (auto simp: ws_ok_def conn_ok_def holds_slot_def receive_test_def channel_ready_def)
next
  case (message i m timed_out)
  then show ?thesis using assms(2)
    by (intro ws_ok_conn[OF assms(2), of i "receive_message m timed_out (ws_conns s i)"])
      (auto simp: ws_ok_def holds_slot_def receive_message_ok receive_message_simps)
next
  case (read_fails i)
  then show ?thesis using assms(2)
    by (intro ws_ok_conn[OF assms(2), of i "receive_fails (ws_conns s i)"])
      (auto simp: ws_ok_def conn_ok_def holds_slot_def receive_fails_def)
next
  case (handler_reads i decode timed_out)
  then show ?thesis using assms(2)
    by (intro ws_ok_conn[OF assms(2), of i "snd (wait_for decode timed_out (ws_conns s i))"])
      (auto simp: ws_ok_def conn_ok_def holds_slot_def wait_for_def split: list.split)
next
  case (close_call i net_ok)
  then show ?thesis using assms(2)
    by (intro ws_ok_conn[OF assms(2), of i "close_conn net_ok (ws_conns s i)"])
      (auto simp: ws_ok_def conn_ok_def holds_slot_def close_conn_def)
next
  case (watch_top i)
  then show ?thesis using assms(2)
    by (intro ws_ok_conn[OF assms(2), of i "(ws_conns s i)\<lparr>cn_watch := LoopSelect (on_close_now (ws_conns s i))\<rparr>"])
      (auto simp: ws_ok_def conn_ok_def holds_slot_def)
next
  case (watch_ready i got net_ok)
  then show ?thesis using assms(2)
    by (intro ws_ok_conn[OF assms(2), of i "watch_closed net_ok (ws_conns s i)"])
      (auto simp: ws_ok_def conn_ok_def holds_slot_def watch_closed_def close_conn_def)
next
  case (watch_pings i got write_err pong_in_time net_ok)
  then show ?thesis using assms(2)
    by (intro ws_ok_conn[OF assms(2), of i "watch_tick write_err pong_in_time net_ok (ws_conns s i)"])
      (auto simp: ws_ok_def conn_ok_def holds_slot_def watch_tick_def close_conn_def split: option.split)
next
  case (close_frame i)
  then show ?thesis using assms(2)
    by (intro ws_ok_conn[OF assms(2), of i "(ws_conns s i)\<lparr>cn_closers := cn_closers (ws_conns s i) + 1\<rparr>"])
      (auto simp: ws_ok_def conn_ok_def holds_slot_def)
next
  case (close_section i c)
  then show ?thesis using assms(2)
    by (intro ws_ok_conn[OF assms(2), of i "c\<lparr>cn_closers := cn_closers c - 1\<rparr>"])
      (auto simp: ws_ok_def conn_ok_def holds_slot_def close_chan_def split: if_splits)
next
  case (release i)
  then show ?thesis using assms(2)
    by (intro ws_ok_conn[OF assms(2), of i "(ws_conns s i)\<lparr>cn_released := True\<rparr>"])
      (auto simp: ws_ok_def conn_ok_def holds_slot_def release_slot_def)
next
  case (set_limit limit)
  then show ?thesis using assms by (simp add: ws_ok_def)
qed

lemma ws_reachable_ok: "ws_reachable P s \<Longrightarrow> ws_ok P s"
proof (induction rule: ws_reachable.induct)
  case (start limit)
  then show ?case by (simp add: ws_ok_def ws_init_def)
next
  case (next_step s s')
  then show ?case using ws_ok_step by blast
qed


lemma ws_bound:
  assumes "ws_reachable P s" "\<And>l. P l \<Longrightarrow> 0 < l \<and> l \<le> L"
  shows "ws_count s \<le> L"
  using assms(1)
proof (induction rule: ws_reachable.induct)
  case (start limit)
  then show ?case using assms(2)[of limit] by (simp add: ws_init_def)
next
  case (next_step s s')
  have ok: "ws_ok P s" using ws_reachable_ok[OF next_step.hyps(1)] .
  show ?case using next_step.hyps(2)
  proof (cases rule: ws_step.cases)
    case (read_limit i)
    then show ?thesis using ok assms(2)[of "ws_limit s"] next_step.IH by (simp add: after_limit_def ws_ok_def)
  next
    case (swap i limit cur)
    then have "P limit" "cur < limit" using ok by (auto simp: ws_ok_def conn_ok_def split: ws_phase.splits)
    then show ?thesis using swap assms(2)[of limit] next_step.IH by (auto simp: after_swap_def compare_and_swap_def)
  qed (use next_step.IH in \<open>simp_all add: upd_conn_def set_phase_def release_slot_def\<close>)
qed

section \<open>Properties\<close>

text \<open>
  C33: Slots and channels.  However requests, goroutines and changes of the limit interleave, the
  counter is the number of connections between their acquisition and their release, so it never
  goes below zero and no slot is released twice; no limit in force is ever exceeded as long as the
  limits set are positive and at most \<open>L\<close>; no channel is closed twice; and the messages a handler
  has read and the one that waits for it are among those its peer has sent, in their order.
\<close>
theorem websocket_slots:
  assumes "ws_reachable P s"
  shows "ws_count s = int (card {i. i < ws_ids s \<and> holds_slot (ws_conns s i)})
    \<and> ((\<forall>l. P l \<longrightarrow> 0 < l \<and> l \<le> L) \<longrightarrow> ws_count s \<le> L)
    \<and> (\<forall>i<ws_ids s. cn_phase (ws_conns s i) = PhOpen \<longrightarrow> close_chan (ws_conns s i) \<noteq> None)
    \<and> (\<forall>i<ws_ids s. subseq (cn_read (ws_conns s i) @ cn_incoming (ws_conns s i)) (cn_sent (ws_conns s i))
         \<and> length (cn_incoming (ws_conns s i)) \<le> 1)"
  using ws_reachable_ok[OF assms] ws_bound[OF assms, of L]
  by (auto simp: ws_ok_def conn_ok_def close_chan_def)

text \<open>
  Slots come back.  From every reachable state in which the read loop of an open connection has
  ended, two steps that are enabled, whatever the handler and the watcher do, release its slot.
\<close>
theorem websocket_slot_returns:
  assumes "ws_reachable P s" "i < ws_ids s" "cn_phase (ws_conns s i) = PhOpen" "cn_receive (ws_conns s i) = LoopDone"
  shows "\<exists>s'. ws_step\<^sup>*\<^sup>* s s' \<and> \<not> holds_slot (ws_conns s' i)"
proof -
  have ok: "conn_ok P (ws_conns s i)" using ws_reachable_ok[OF assms(1)] assms(2) by (simp add: ws_ok_def)
  have rel: "\<exists>s''. ws_step\<^sup>*\<^sup>* s' s'' \<and> \<not> holds_slot (ws_conns s'' i)"
    if s': "i < ws_ids s'" "cn_phase (ws_conns s' i) = PhOpen" "cn_closed (ws_conns s' i)" for s' :: "'a ws_state"
  proof (cases "cn_released (ws_conns s' i)")
    case True
    then show ?thesis using s' by (auto simp: holds_slot_def)
  next
    case False
    let ?s = "(upd_conn i (\<lambda>c. c\<lparr>cn_released := True\<rparr>) s')\<lparr>ws_count := release_slot (ws_count s')\<rparr>"
    have "ws_step s' ?s" by (rule ws_step.release[OF s' False])
    then show ?thesis using s' by (intro exI[of _ ?s] conjI r_into_rtranclp) (auto simp: holds_slot_def)
  qed
  show ?thesis
  proof (cases "cn_closed (ws_conns s i)")
    case True
    then show ?thesis using rel assms by blast
  next
    case False
    then have c: "0 < cn_closers (ws_conns s i)" "cn_on_close (ws_conns s i)" using ok assms(3,4) by (auto simp: conn_ok_def)
    define c' where "c' = (ws_conns s i)\<lparr>cn_closed := True, cn_on_close := False\<rparr>"
    have "close_chan (ws_conns s i) = Some c'" using c(2) False by (simp add: close_chan_def c'_def)
    then have st: "ws_step s (upd_conn i (\<lambda>_. c'\<lparr>cn_closers := cn_closers c' - 1\<rparr>) s)"
      by (rule ws_step.close_section[OF assms(2,3) c(1)])
    have "\<exists>s''. ws_step\<^sup>*\<^sup>* (upd_conn i (\<lambda>_. c'\<lparr>cn_closers := cn_closers c' - 1\<rparr>) s) s'' \<and> \<not> holds_slot (ws_conns s'' i)"
      by (rule rel) (use assms(2,3) in \<open>simp_all add: c'_def\<close>)
    then show ?thesis using st by (meson converse_rtranclp_into_rtranclp)
  qed
qed

text \<open>A run: one request is admitted under a limit of one, its peer goes away, and the slot is free again.\<close>

definition sample_conn :: "ws_phase \<Rightarrow> nat ws_conn" where
  "sample_conn ph = new_conn\<lparr>cn_phase := ph\<rparr>"

definition sample_ws :: "nat ws_state" where
  "sample_ws = upd_conn 0 receive_fails
     (upd_conn 0 (receive_test True) (upd_conn 0 (\<lambda>c. c\<lparr>cn_receive := LoopSelect (on_close_now c)\<rparr>)
       (upd_conn 0 open_conn (set_phase 0 (after_swap 1 0 0) (set_phase 0 (after_load 1 0, 0)
         (set_phase 0 (after_limit 1 0)
           (upd_conn 0 (\<lambda>_. new_conn) ((ws_init 1)\<lparr>ws_ids := 1\<rparr>))))))))"

lemma sample_ws_reachable: "ws_reachable (\<lambda>l. l = 1) sample_ws"
proof -
  let ?s0 = "ws_init 1 :: nat ws_state"
  let ?s1 = "upd_conn 0 (\<lambda>_. new_conn) (?s0\<lparr>ws_ids := 1\<rparr>)"
  let ?s2 = "set_phase 0 (after_limit 1 0) ?s1"
  let ?s3 = "set_phase 0 (after_load 1 0, 0) ?s2"
  let ?s4 = "set_phase 0 (after_swap 1 0 0) ?s3"
  let ?s5 = "upd_conn 0 open_conn ?s4"
  let ?s6 = "upd_conn 0 (\<lambda>c. c\<lparr>cn_receive := LoopSelect (on_close_now c)\<rparr>) ?s5"
  let ?s7 = "upd_conn 0 (receive_test True) ?s6"
  note d = ws_init_def new_conn_def after_limit_def after_load_def after_swap_def compare_and_swap_def open_conn_def
    on_close_now_def receive_test_def channel_ready_def
  have r0: "ws_reachable (\<lambda>l. l = 1) ?s0" by (rule ws_reachable.start) simp
  have "ws_step ?s0 ?s1" using ws_step.request[of ?s0] by (simp add: d)
  then have r1: "ws_reachable (\<lambda>l. l = 1) ?s1" by (rule ws_reachable.next_step[OF r0]) (simp add: ws_init_def)
  have "ws_step ?s1 ?s2" using ws_step.read_limit[of 0 ?s1] by (simp add: d)
  then have r2: "ws_reachable (\<lambda>l. l = 1) ?s2" by (rule ws_reachable.next_step[OF r1]) (simp add: ws_init_def)
  have "ws_step ?s2 ?s3" using ws_step.load[of 0 ?s2 1] by (simp add: d)
  then have r3: "ws_reachable (\<lambda>l. l = 1) ?s3" by (rule ws_reachable.next_step[OF r2]) (simp add: ws_init_def)
  have "ws_step ?s3 ?s4" using ws_step.swap[of 0 ?s3 1 0] by (simp add: d)
  then have r4: "ws_reachable (\<lambda>l. l = 1) ?s4" by (rule ws_reachable.next_step[OF r3]) (simp add: ws_init_def)
  have "ws_step ?s4 ?s5" using ws_step.upgrade[of 0 ?s4] by (simp add: d)
  then have r5: "ws_reachable (\<lambda>l. l = 1) ?s5" by (rule ws_reachable.next_step[OF r4]) (simp add: ws_init_def)
  have "ws_step ?s5 ?s6" using ws_step.receive_top[of 0 ?s5] by (simp add: d)
  then have r6: "ws_reachable (\<lambda>l. l = 1) ?s6" by (rule ws_reachable.next_step[OF r5]) (simp add: ws_init_def)
  have "ws_step ?s6 ?s7" using ws_step.receive_select[of 0 ?s6 True] by (simp add: d)
  then have r7: "ws_reachable (\<lambda>l. l = 1) ?s7" by (rule ws_reachable.next_step[OF r6]) (simp add: ws_init_def)
  have "ws_step ?s7 sample_ws" unfolding sample_ws_def using ws_step.read_fails[of 0 ?s7] by (simp add: d)
  then show ?thesis by (rule ws_reachable.next_step[OF r7]) (simp add: sample_ws_def ws_init_def)
qed

lemma websocket_slots_witness: "ws_count sample_ws \<le> 1"
  using websocket_slots[OF sample_ws_reachable, of 1] by auto

lemma websocket_slot_returns_witness:
  "\<exists>s'. ws_step\<^sup>*\<^sup>* sample_ws s' \<and> \<not> holds_slot (ws_conns s' 0)"
  by (rule websocket_slot_returns[OF sample_ws_reachable])
    (simp_all add: sample_ws_def ws_init_def new_conn_def after_limit_def after_load_def after_swap_def compare_and_swap_def
      open_conn_def receive_fails_def receive_test_def)

text \<open>
  Who asks for the channel only after the connection was closed gets nil and waits for ever: the
  watcher itself learns of the end from a failing ping only.
\<close>

lemma on_close_lost:
  assumes "close_chan c = Some c'"
  shows "\<not> on_close_now c' \<and> \<not> channel_ready (on_close_now c') c'"
  using assms by (auto simp: close_chan_def on_close_now_def channel_ready_def split: if_splits)

text \<open>A message that arrives while another one waits is dropped after a second.\<close>

lemma slow_reader_loses:
  "cn_incoming c = [x] \<Longrightarrow> cn_incoming (receive_message m t c) = [x] \<and> cn_sent (receive_message m t c) = cn_sent c @ [m]"
  by (simp add: receive_message_def Let_def)

end
