(* ===== verification/BgTask.thy ===== *)
theory BgTask
  imports ResCore GoFloat
begin

text \<open>
  Packages \<^verbatim>\<open>bgtaskutil\<close> and \<^verbatim>\<open>bgtaskutil/userinterrupt\<close>: the delay after locking errors, the rules for
  retrying a job, and the interruption of running jobs by users, whose goroutines are a step relation.
\<close>

section \<open>The delay after locking errors\<close>

record delay_state =
  ds_count :: int
  ds_since :: gotime
  ds_delay :: int

definition initial_delay :: "gotime \<Rightarrow> delay_state" where
  "initial_delay zero_time = \<lparr>ds_count = 0, ds_since = zero_time, ds_delay = 0\<rparr>"

definition calc_requeue_delay :: "delay_state \<Rightarrow> delay_state" where
  "calc_requeue_delay d =
     d\<lparr>ds_delay := (if 4 < ds_count d then 20 * go_second
                    else if 2 \<le> ds_count d then 10 * go_second
                    else if ds_count d < 2 then go_second
                    else 30 * go_second)\<rparr>"

text \<open>The two cases of the manager's loop: an error is reported, the ticker fires.\<close>

definition delay_error :: "gotime \<Rightarrow> delay_state \<Rightarrow> delay_state" where
  "delay_error now d = calc_requeue_delay (d\<lparr>ds_count := ds_count d + 1, ds_since := now\<rparr>)"

definition delay_tick :: "gotime \<Rightarrow> delay_state \<Rightarrow> delay_state" where
  "delay_tick now d =
     (if ds_count d \<le> 0 then d\<lparr>ds_count := 0\<rparr>
      else let c = ds_count d - max (go_quo (ds_count d) 4) 1;
               c' = (if 60 * go_second < sub_time now (ds_since d) then 0 else c)
           in calc_requeue_delay (d\<lparr>ds_count := c'\<rparr>))"

text \<open>The jitter: \<open>r\<close> is the random float64 in \<open>[0, 1)\<close>; the products are rounded, the result is truncated.\<close>

definition locking_delay :: "rat \<Rightarrow> delay_state \<Rightarrow> int" where
  "locking_delay r d = ds_delay d + \<lfloor>fmul (fmul r (f64 (ds_delay d))) (1 / 4)\<rfloor>"

section \<open>Retries\<close>

definition locking_phrases :: "string list" where
  "locking_phrases = [''could not serialize access due to concurrent update'', ''deadlock detected'']"

text \<open>
  Adding the job again takes the time it starts after; \<open>add\<close> is \<^verbatim>\<open>AddOpt\<close> inside a transaction, with its
  error.  \<open>reported\<close> tells whether the manager takes the report.
\<close>

definition retry_job :: "gotime \<Rightarrow> int \<Rightarrow> (gotime \<Rightarrow> 's \<Rightarrow> string option \<times> 's) \<Rightarrow> 's \<Rightarrow> string option \<times> 's" where
  "retry_job now delay add s = add (now + delay) s"

definition retry_pq_locking_errors :: "(string option) \<Rightarrow> bool \<Rightarrow> rat \<Rightarrow> gotime \<Rightarrow> (gotime \<Rightarrow> 's \<Rightarrow> string option \<times> 's)
    \<Rightarrow> delay_state \<times> 's \<Rightarrow> bool \<times> delay_state \<times> 's" where
  "retry_pq_locking_errors reason reported r now add ds =
     (case ds of (d, s) \<Rightarrow>
        case reason of
          None \<Rightarrow> (False, d, s)
        | Some msg \<Rightarrow>
            if \<not> list_ex (\<lambda>search. str_contains msg search) locking_phrases then (False, d, s)
            else let d1 = (if reported then delay_error now d else d)
                 in (case add (now + locking_delay r d1) s of
                       (None, s1) \<Rightarrow> (True, d1, s1)
                     | (Some e, s1) \<Rightarrow> (False, d1, s1)))"

section \<open>Interrupts\<close>

definition interrupted_text :: string where
  "interrupted_text = ''user interrupted (retry)''"

text \<open>\<^verbatim>\<open>IsUserInterrupted\<close>: the error of the context and its cause.\<close>

definition is_user_interrupted :: "string option \<Rightarrow> string option \<Rightarrow> bool" where
  "is_user_interrupted ctx_err cause =
     (case ctx_err of
        None \<Rightarrow> False
      | Some _ \<Rightarrow> (case cause of None \<Rightarrow> False | Some c \<Rightarrow> str_contains c interrupted_text))"

definition is_user_interrupt :: "string option \<Rightarrow> string option \<Rightarrow> string option \<Rightarrow> bool" where
  "is_user_interrupt ctx_err cause reason =
     (let has_text = (case reason of None \<Rightarrow> False | Some msg \<Rightarrow> str_contains msg interrupted_text)
      in if \<not> has_text \<and> \<not> is_user_interrupted ctx_err cause then False else True)"

definition retry_user_interrupted :: "string option \<Rightarrow> string option \<Rightarrow> string option \<Rightarrow> gotime
    \<Rightarrow> (gotime \<Rightarrow> 's \<Rightarrow> string option \<times> 's) \<Rightarrow> 's \<Rightarrow> bool \<times> 's" where
  "retry_user_interrupted ctx_err cause reason now add s =
     (if \<not> is_user_interrupt ctx_err cause reason then (False, s)
      else (case add (now + 15 * go_second) s of (None, s1) \<Rightarrow> (True, s1) | (Some e, s1) \<Rightarrow> (False, s1)))"

text \<open>
  The registry.  A job is told apart by its number.  \<open>jb_listening\<close>: its goroutine still waits for an
  interrupt; \<open>jb_interrupted\<close>: its context was cancelled by a user; \<open>jb_removed\<close>, \<open>jb_cancelled\<close> and
  \<open>jb_closed\<close>: how far its cancel function is.
\<close>

record int_job =
  jb_key :: string
  jb_listening :: bool
  jb_interrupted :: bool
  jb_removed :: bool
  jb_cancelled :: bool
  jb_closed :: bool

text \<open>A user's call of \<^verbatim>\<open>UserInterrupt\<close>: looking the job up, trying to send, waiting for its end, returned, or panicked.\<close>

datatype int_call = CallLook string | CallSend nat | CallWait nat | CallDone "nat option" | CallPanic

record int_state =
  is_jobs :: "nat \<Rightarrow> int_job"
  is_next :: nat
  is_registry :: "nat list"
  is_calls :: "int_call list"

definition int_init :: int_state where
  "int_init = \<lparr>is_jobs = (\<lambda>_. \<lparr>jb_key = [], jb_listening = False, jb_interrupted = False, jb_removed = True, jb_cancelled = True, jb_closed = True\<rparr>),
     is_next = 0, is_registry = [], is_calls = []\<rparr>"

definition add_job :: "nat \<Rightarrow> nat list \<Rightarrow> nat list" where
  "add_job j jobs = jobs @ [j]"

text \<open>\<^verbatim>\<open>removeJob\<close>: the first entry for the job.\<close>

fun remove_job :: "nat \<Rightarrow> nat list \<Rightarrow> nat list" where
  "remove_job j [] = []"
| "remove_job j (k # ks) = (if k = j then ks else k # remove_job j ks)"

definition get_job :: "string \<Rightarrow> int_state \<Rightarrow> nat option" where
  "get_job key s = find (\<lambda>j. jb_key (is_jobs s j) = key) (is_registry s)"

definition upd_job :: "nat \<Rightarrow> (int_job \<Rightarrow> int_job) \<Rightarrow> int_state \<Rightarrow> int_state" where
  "upd_job j f s = s\<lparr>is_jobs := (is_jobs s)(j := f (is_jobs s j))\<rparr>"

definition set_call :: "nat \<Rightarrow> int_call \<Rightarrow> int_state \<Rightarrow> int_state" where
  "set_call c x s = s\<lparr>is_calls := (is_calls s)[c := x]\<rparr>"

definition make_worker_context :: "string \<Rightarrow> int_state \<Rightarrow> int_state" where
  "make_worker_context key s =
     s\<lparr>is_jobs := (is_jobs s)(is_next s := \<lparr>jb_key = key, jb_listening = True, jb_interrupted = False,
          jb_removed = False, jb_cancelled = False, jb_closed = False\<rparr>),
       is_next := is_next s + 1, is_registry := add_job (is_next s) (is_registry s)\<rparr>"

text \<open>Closing the channel at the end of the cancel function; a second time panics.\<close>

definition close_job :: "int_job \<Rightarrow> int_job option" where
  "close_job b = (if jb_closed b then None else Some (b\<lparr>jb_closed := True\<rparr>))"

text \<open>
  The steps: jobs start, users call; a call finds its job, is heard by the listening goroutine, sees
  the job end, or panics because its own context ended; and the cancel function of a job runs.
\<close>

inductive int_step :: "int_state \<Rightarrow> int_state \<Rightarrow> bool" where
  start_job: "int_step s (make_worker_context key s)"
| call: "int_step s (s\<lparr>is_calls := is_calls s @ [CallLook key]\<rparr>)"
| look: "c < length (is_calls s) \<Longrightarrow> is_calls s ! c = CallLook key \<Longrightarrow>
    int_step s (set_call c (case get_job key s of None \<Rightarrow> CallDone None | Some j \<Rightarrow> CallSend j) s)"
| send: "c < length (is_calls s) \<Longrightarrow> is_calls s ! c = CallSend j \<Longrightarrow> jb_listening (is_jobs s j) \<Longrightarrow>
    int_step s (set_call c (CallWait j) (upd_job j (\<lambda>b. b\<lparr>jb_listening := False, jb_interrupted := True\<rparr>) s))"
| send_closed: "c < length (is_calls s) \<Longrightarrow> is_calls s ! c = CallSend j \<Longrightarrow> jb_closed (is_jobs s j) \<Longrightarrow>
    int_step s (set_call c (CallDone (Some j)) s)"
| send_cancelled: "c < length (is_calls s) \<Longrightarrow> is_calls s ! c = CallSend j \<Longrightarrow>
    int_step s (set_call c CallPanic s)"
| wait_closed: "c < length (is_calls s) \<Longrightarrow> is_calls s ! c = CallWait j \<Longrightarrow> jb_closed (is_jobs s j) \<Longrightarrow>
    int_step s (set_call c (CallDone (Some j)) s)"
| job_removed: "j < is_next s \<Longrightarrow> \<not> jb_removed (is_jobs s j) \<Longrightarrow>
    int_step s (upd_job j (\<lambda>b. b\<lparr>jb_removed := True\<rparr>) (s\<lparr>is_registry := remove_job j (is_registry s)\<rparr>))"
| job_cancelled: "j < is_next s \<Longrightarrow> jb_removed (is_jobs s j) \<Longrightarrow>
    int_step s (upd_job j (\<lambda>b. b\<lparr>jb_cancelled := True\<rparr>) s)"
| job_closed: "j < is_next s \<Longrightarrow> jb_cancelled (is_jobs s j) \<Longrightarrow> close_job (is_jobs s j) = Some b \<Longrightarrow>
    int_step s (upd_job j (\<lambda>_. b) s)"
| listener_ends: "j < is_next s \<Longrightarrow> jb_listening (is_jobs s j) \<Longrightarrow> jb_cancelled (is_jobs s j) \<or> parent_done \<Longrightarrow>
    int_step s (upd_job j (\<lambda>b. b\<lparr>jb_listening := False\<rparr>) s)"

inductive int_reachable :: "int_state \<Rightarrow> bool" where
  start: "int_reachable int_init"
| next_step: "int_reachable s \<Longrightarrow> int_step s s' \<Longrightarrow> int_reachable s'"

section \<open>Results\<close>

definition json_error_result :: "(res_data \<Rightarrow> string) \<Rightarrow> bool \<Rightarrow> disclosure_config \<Rightarrow> string \<Rightarrow> handler_input \<Rightarrow> string" where
  "json_error_result marshal testing cfg correlation_id input =
     (let safe = snd (safe_error testing cfg correlation_id input)
      in marshal (DMap [(''error'', DStr (safe_error_text safe)), (''detail'', DStr (se_client_stack safe)),
         (''correlationId'', DStr (se_correlation_id safe))]))"

definition json_error_result2 :: "(res_data \<Rightarrow> string) \<Rightarrow> string \<Rightarrow> string" where
  "json_error_result2 marshal msg = marshal (DMap [(''error'', DStr msg)])"

definition blank_result :: string where
  "blank_result = ''{}''"

definition json_result :: "(res_data \<Rightarrow> string) \<Rightarrow> res_data \<Rightarrow> string" where
  "json_result marshal input = marshal input"

definition task_result :: "string \<Rightarrow> responder option" where
  "task_result i = ok_resp [DMap [(''task'', DStr i)]]"


section \<open>Facts on the delay\<close>

text \<open>The state between two events: the delay is the one computed from the count.\<close>

definition delay_ok :: "delay_state \<Rightarrow> bool" where
  "delay_ok d \<longleftrightarrow> 0 \<le> ds_count d \<and> (ds_delay d = 0 \<and> ds_count d = 0 \<or> ds_delay d = ds_delay (calc_requeue_delay d))"

lemma delay_ok_steps: "delay_ok d \<Longrightarrow> delay_ok (delay_error now d)" "delay_ok d \<Longrightarrow> delay_ok (delay_tick now d)"
proof -
  show "delay_ok d \<Longrightarrow> delay_ok (delay_error now d)"
    by (simp add: delay_ok_def delay_error_def calc_requeue_delay_def)
  have q: "0 < c \<Longrightarrow> 0 \<le> c - max (go_quo c 4) 1" for c
    by (simp add: go_quo_nonneg max_def) presburger
  show "delay_ok d \<Longrightarrow> delay_ok (delay_tick now d)"
    using q[of "ds_count d"] by (auto simp: delay_ok_def delay_tick_def calc_requeue_delay_def Let_def)
qed

datatype delay_event = LockError gotime | Tick gotime

fun delay_run :: "delay_event list \<Rightarrow> delay_state \<Rightarrow> delay_state" where
  "delay_run [] d = d"
| "delay_run (LockError now # es) d = delay_run es (delay_error now d)"
| "delay_run (Tick now # es) d = delay_run es (delay_tick now d)"

lemma delay_run_ok: "delay_ok d \<Longrightarrow> delay_ok (delay_run es d)"
  by (induction es d rule: delay_run.induct) (simp_all add: delay_ok_steps)

lemma tick_count: "delay_ok d \<Longrightarrow> ds_count (delay_tick now d) \<le> max 0 (ds_count d - 1)"
  by (auto simp: delay_ok_def delay_tick_def calc_requeue_delay_def Let_def)

lemma ticks_count:
  "delay_ok d \<Longrightarrow> ds_count (delay_run (map Tick ts) d) \<le> max 0 (ds_count d - int (length ts))"
proof (induction ts arbitrary: d)
  case (Cons t ts)
  have "ds_count (delay_run (map Tick ts) (delay_tick t d)) \<le> max 0 (ds_count (delay_tick t d) - int (length ts))"
    using Cons.IH[OF delay_ok_steps(2)[OF Cons.prems]] .
  then show ?case using tick_count[OF Cons.prems, of t] by simp
qed (simp add: delay_ok_def)

text \<open>
  The delay after locking errors.  Whatever errors and ticks happen, the delay is zero, one, ten or
  twenty seconds, more errors never shorten it, and with the jitter a job waits at most a quarter
  longer; after as many quiet ticks as there are errors on record it is back to a second.
\<close>
theorem locking_delay_bounds:
  assumes "0 \<le> r" "r < 1"
  shows "ds_delay (delay_run es (initial_delay z)) \<in> {0, go_second, 10 * go_second, 20 * go_second}
    \<and> ds_delay (delay_run es (initial_delay z)) \<le> ds_delay (delay_error now (delay_run es (initial_delay z)))
    \<and> ds_delay (delay_run es (initial_delay z)) \<le> locking_delay r (delay_run es (initial_delay z))
    \<and> 4 * locking_delay r (delay_run es (initial_delay z)) \<le> 5 * ds_delay (delay_run es (initial_delay z))
    \<and> (ds_count (delay_run es (initial_delay z)) \<le> int (length ts) \<and> ts \<noteq> [] \<longrightarrow>
        ds_delay (delay_run (map Tick ts) (delay_run es (initial_delay z))) \<in> {0, go_second})"
proof -
  let ?d = "delay_run es (initial_delay z)"
  have ok: "delay_ok ?d" by (rule delay_run_ok) (simp add: delay_ok_def initial_delay_def)
  have del: "ds_delay ?d \<in> {0, go_second, 10 * go_second, 20 * go_second}"
    using ok by (auto simp: delay_ok_def calc_requeue_delay_def)
  have mono: "ds_delay ?d \<le> ds_delay (delay_error now ?d)"
    using ok by (auto simp: delay_ok_def delay_error_def calc_requeue_delay_def go_second_def)
  have pos: "0 \<le> ds_delay ?d" using del by (auto simp: go_second_def)
  have small: "ds_delay ?d < 2 ^ 53" using del by (auto simp: go_second_def)
  obtain q where q: "ds_delay ?d = 4 * q" "0 \<le> q" "q < 2 ^ 53"
  proof
    show "ds_delay ?d = 4 * (ds_delay ?d div 4)" "0 \<le> ds_delay ?d div 4" "ds_delay ?d div 4 < 2 ^ 53"
      using del by (auto simp: go_second_def)
  qed
  have lo: "0 \<le> fmul (fmul r (f64 (ds_delay ?d))) (1 / 4)" by (simp add: fmul_def)
  have "r * of_int (ds_delay ?d) \<le> of_int (ds_delay ?d)"
    using assms(2) pos mult_right_mono[of r 1 "of_int (ds_delay ?d)"] by simp
  then have "fmul r (f64 (ds_delay ?d)) \<le> of_int (ds_delay ?d)"
    using round64_le_int[OF pos small] f64_int[OF pos small] by (simp add: fmul_def)
  then have "fmul r (f64 (ds_delay ?d)) * (1 / 4) \<le> of_int q" by (simp add: q(1))
  then have "fmul (fmul r (f64 (ds_delay ?d))) (1 / 4) \<le> of_int q"
    using round64_le_int[OF q(2,3)] by (simp add: fmul_def)
  then have "\<lfloor>fmul (fmul r (f64 (ds_delay ?d))) (1 / 4)\<rfloor> \<le> q" by (metis floor_mono floor_of_int)
  then have fl: "4 * \<lfloor>fmul (fmul r (f64 (ds_delay ?d))) (1 / 4)\<rfloor> \<le> ds_delay ?d" by (simp add: q(1))
  have settles: "ds_delay (delay_run (map Tick ts) ?d) \<in> {0, go_second}" if "ds_count ?d \<le> int (length ts)"
  proof -
    have "delay_ok (delay_run (map Tick ts) ?d)" using delay_run_ok[OF ok] .
    moreover have "ds_count (delay_run (map Tick ts) ?d) \<le> 0" using ticks_count[OF ok, of ts] that by simp
    ultimately show ?thesis by (auto simp: delay_ok_def calc_requeue_delay_def)
  qed
  show ?thesis using del mono lo fl settles by (auto simp: locking_delay_def)
qed

lemma locking_delay_bounds_witness:
  "ds_delay (delay_run [LockError 5, LockError 6] (initial_delay 0)) \<le> locking_delay (1 / 2) (delay_run [LockError 5, LockError 6] (initial_delay 0))
    \<and> ds_delay (delay_run [LockError 5, LockError 6] (initial_delay 0)) = 10 * go_second"
  using locking_delay_bounds[of "1 / 2" "[LockError 5, LockError 6]" 0 0 "[]"]
  by (simp add: delay_error_def calc_requeue_delay_def initial_delay_def)

text \<open>The last case of the switch is never taken: no count is neither above four, nor at least two, nor below two.\<close>

lemma long_delay_unreachable: "ds_delay (calc_requeue_delay d) \<noteq> 30 * go_second"
  by (simp add: calc_requeue_delay_def go_second_def)


section \<open>Facts on interrupts\<close>

text \<open>The job a call is about.\<close>

fun call_job :: "int_call \<Rightarrow> nat option" where
  "call_job (CallSend j) = Some j"
| "call_job (CallWait j) = Some j"
| "call_job (CallDone r) = r"
| "call_job _ = None"

definition int_ok :: "int_state \<Rightarrow> bool" where
  "int_ok s \<longleftrightarrow>
     distinct (is_registry s) \<and> set (is_registry s) = {j. j < is_next s \<and> \<not> jb_removed (is_jobs s j)}
     \<and> (\<forall>j<is_next s. (jb_closed (is_jobs s j) \<longrightarrow> jb_cancelled (is_jobs s j)) \<and> (jb_cancelled (is_jobs s j) \<longrightarrow> jb_removed (is_jobs s j)))
     \<and> (\<forall>c\<in>set (is_calls s). \<forall>j. call_job c = Some j \<longrightarrow> j < is_next s)
     \<and> (\<forall>j. CallDone (Some j) \<in> set (is_calls s) \<longrightarrow> jb_closed (is_jobs s j))
     \<and> (\<forall>j<is_next s. jb_interrupted (is_jobs s j) \<longrightarrow> \<not> jb_listening (is_jobs s j)
          \<and> (CallWait j \<in> set (is_calls s) \<or> CallDone (Some j) \<in> set (is_calls s)))"

lemma remove_job_remove1: "remove_job j ks = remove1 j ks"
  by (induction ks) auto

lemma get_job_registry: "get_job key s = Some j \<Longrightarrow> j \<in> set (is_registry s)"
  by (auto simp: get_job_def find_Some_iff)

lemma int_simps [simp]:
  "is_jobs (upd_job j f s) = (is_jobs s)(j := f (is_jobs s j))" "is_next (upd_job j f s) = is_next s"
  "is_registry (upd_job j f s) = is_registry s" "is_calls (upd_job j f s) = is_calls s"
  "is_jobs (set_call c x s) = is_jobs s" "is_next (set_call c x s) = is_next s"
  "is_registry (set_call c x s) = is_registry s" "is_calls (set_call c x s) = (is_calls s)[c := x]"
  by (simp_all add: upd_job_def set_call_def)

text \<open>A call moves on: nothing that others rely on is lost, unless it was the one that interrupted the job.\<close>

lemma in_set_update: "y \<in> set (xs[c := x]) \<Longrightarrow> y = x \<or> y \<in> set xs"
  using set_update_subset_insert by fastforce

lemma kept_by_update: "y \<in> set xs \<Longrightarrow> c < length xs \<Longrightarrow> xs ! c \<noteq> y \<Longrightarrow> y \<in> set (xs[c := x])"
  by (metis in_set_conv_nth length_list_update nth_list_update_neq)

lemma set_call_ok:
  assumes "int_ok s" "c < length (is_calls s)"
    and "\<And>j. call_job x = Some j \<Longrightarrow> j < is_next s" "\<And>j. x = CallDone (Some j) \<Longrightarrow> jb_closed (is_jobs s j)"
    and "\<And>j. is_calls s ! c = CallWait j \<Longrightarrow> x = CallDone (Some j)" "\<And>r. is_calls s ! c \<noteq> CallDone r"
  shows "int_ok (set_call c x s)"
proof -
  have k: "CallWait j \<in> set ((is_calls s)[c := x]) \<or> CallDone (Some j) \<in> set ((is_calls s)[c := x])"
    if "CallWait j \<in> set (is_calls s) \<or> CallDone (Some j) \<in> set (is_calls s)" for j
  proof (cases "is_calls s ! c = CallWait j")
    case True
    then show ?thesis using assms(2,5) set_update_memI by metis
  next
    case False
    then show ?thesis using that assms(2,6) kept_by_update by metis
  qed
  have "\<forall>y\<in>set (is_calls s). \<forall>j. call_job y = Some j \<longrightarrow> j < is_next s" using assms(1) by (simp add: int_ok_def)
  then have "\<forall>y\<in>set ((is_calls s)[c := x]). \<forall>j. call_job y = Some j \<longrightarrow> j < is_next s"
    using assms(3) in_set_update[of _ "is_calls s" c x] by blast
  moreover have "\<forall>j. CallDone (Some j) \<in> set (is_calls s) \<longrightarrow> jb_closed (is_jobs s j)" using assms(1) by (simp add: int_ok_def)
  then have "CallDone (Some j) \<in> set ((is_calls s)[c := x]) \<Longrightarrow> jb_closed (is_jobs s j)" for j
    using assms(4)[of j] in_set_update[of "CallDone (Some j)" "is_calls s" c x] by blast
  ultimately show ?thesis using assms(1) k by (simp add: int_ok_def)
qed

lemma call_in_range: "int_ok s \<Longrightarrow> c < length (is_calls s) \<Longrightarrow> call_job (is_calls s ! c) = Some j \<Longrightarrow> j < is_next s"
proof -
  assume "int_ok s" and c: "c < length (is_calls s)" "call_job (is_calls s ! c) = Some j"
  then have "\<forall>x\<in>set (is_calls s). \<forall>j. call_job x = Some j \<longrightarrow> j < is_next s" by (simp add: int_ok_def)
  then show "j < is_next s" using c nth_mem by blast
qed

lemma done_closed: "int_ok s \<Longrightarrow> CallDone (Some j) \<in> set (is_calls s) \<Longrightarrow> jb_closed (is_jobs s j)"
  by (simp add: int_ok_def)

lemma start_job_ok:
  assumes ok: "int_ok s"
  shows "int_ok (make_worker_context key s)"
proof -
  let ?n = "is_next s" and ?s = "make_worker_context key s"
  have c: "\<forall>x\<in>set (is_calls s). \<forall>j. call_job x = Some j \<longrightarrow> j < ?n" using ok by (simp add: int_ok_def)
  have j: "j < ?n \<Longrightarrow> is_jobs ?s j = is_jobs s j" for j by (simp add: make_worker_context_def)
  have n: "is_jobs ?s ?n = \<lparr>jb_key = key, jb_listening = True, jb_interrupted = False, jb_removed = False,
      jb_cancelled = False, jb_closed = False\<rparr>" by (simp add: make_worker_context_def)
  have r: "is_registry ?s = is_registry s @ [?n]" "is_next ?s = ?n + 1" "is_calls ?s = is_calls s"
    by (simp_all add: make_worker_context_def add_job_def)
  have split: "(\<forall>i<is_next ?s. P i) \<longleftrightarrow> (\<forall>i<?n. P i) \<and> P ?n" for P by (auto simp: r less_Suc_eq)
  have "distinct (is_registry ?s)" using ok by (simp add: r int_ok_def)
  moreover have "set (is_registry ?s) = {j. j < is_next ?s \<and> \<not> jb_removed (is_jobs ?s j)}"
  proof -
    have "{i. i < is_next ?s \<and> \<not> jb_removed (is_jobs ?s i)} = insert ?n {i. i < ?n \<and> \<not> jb_removed (is_jobs s i)}"
      using j n by (auto simp: r less_Suc_eq)
    then show ?thesis using ok by (simp add: r int_ok_def)
  qed
  moreover have "\<forall>i<is_next ?s. (jb_closed (is_jobs ?s i) \<longrightarrow> jb_cancelled (is_jobs ?s i))
      \<and> (jb_cancelled (is_jobs ?s i) \<longrightarrow> jb_removed (is_jobs ?s i))"
    unfolding split using ok j n by (simp add: int_ok_def)
  moreover have "\<forall>x\<in>set (is_calls ?s). \<forall>i. call_job x = Some i \<longrightarrow> i < is_next ?s" using c by (auto simp: r less_Suc_eq)
  moreover have "jb_closed (is_jobs ?s i)" if i: "CallDone (Some i) \<in> set (is_calls ?s)" for i
  proof -
    have "i < ?n" using c i by (auto simp: r)
    then show ?thesis using i done_closed[OF ok] j by (simp add: r)
  qed
  moreover have "\<forall>i<is_next ?s. jb_interrupted (is_jobs ?s i) \<longrightarrow> \<not> jb_listening (is_jobs ?s i)
      \<and> (CallWait i \<in> set (is_calls ?s) \<or> CallDone (Some i) \<in> set (is_calls ?s))"
    unfolding split using ok j n by (simp add: int_ok_def r)
  ultimately show ?thesis by (simp add: int_ok_def)
qed

text \<open>A step that changes one job and leaves its place in the registry alone.\<close>

lemma upd_job_ok:
  assumes ok: "int_ok s"
    and f: "jb_removed (f (is_jobs s j)) = jb_removed (is_jobs s j)"
      "jb_closed (f (is_jobs s j)) \<Longrightarrow> jb_cancelled (f (is_jobs s j))"
      "jb_cancelled (f (is_jobs s j)) \<Longrightarrow> jb_removed (is_jobs s j)"
      "jb_closed (is_jobs s j) \<Longrightarrow> jb_closed (f (is_jobs s j))"
      "jb_interrupted (f (is_jobs s j)) \<Longrightarrow> j < is_next s \<Longrightarrow> \<not> jb_listening (f (is_jobs s j))
        \<and> (CallWait j \<in> set (is_calls s) \<or> CallDone (Some j) \<in> set (is_calls s))"
  shows "int_ok (upd_job j f s)"
proof -
  let ?J = "(is_jobs s)(j := f (is_jobs s j))"
  have "jb_removed (?J k) = jb_removed (is_jobs s k)" for k using f(1) by simp
  then have reg: "{k. k < is_next s \<and> \<not> jb_removed (?J k)} = {k. k < is_next s \<and> \<not> jb_removed (is_jobs s k)}" by simp
  have "\<forall>k<is_next s. (jb_closed (is_jobs s k) \<longrightarrow> jb_cancelled (is_jobs s k)) \<and> (jb_cancelled (is_jobs s k) \<longrightarrow> jb_removed (is_jobs s k))"
    using ok by (simp add: int_ok_def)
  then have ends: "\<forall>k<is_next s. (jb_closed (?J k) \<longrightarrow> jb_cancelled (?J k)) \<and> (jb_cancelled (?J k) \<longrightarrow> jb_removed (?J k))"
    using f(1-3) by simp
  have "\<forall>k<is_next s. jb_interrupted (is_jobs s k) \<longrightarrow> \<not> jb_listening (is_jobs s k)
      \<and> (CallWait k \<in> set (is_calls s) \<or> CallDone (Some k) \<in> set (is_calls s))"
    using ok by (simp add: int_ok_def)
  then have int: "\<forall>k<is_next s. jb_interrupted (?J k) \<longrightarrow> \<not> jb_listening (?J k)
      \<and> (CallWait k \<in> set (is_calls s) \<or> CallDone (Some k) \<in> set (is_calls s))"
    using f(5) by simp
  show ?thesis
    unfolding int_ok_def int_simps reg
    using ok f(4) ends int by (intro conjI) (simp_all add: int_ok_def)
qed

lemma int_ok_step: "int_step s s' \<Longrightarrow> int_ok s \<Longrightarrow> int_ok s'"
proof (induction rule: int_step.induct)
  case (start_job s key)
  then show ?case by (simp add: start_job_ok)
next
  case (call s key)
  then show ?case by (auto simp: int_ok_def)
next
  case (look c s key)
  show ?case
  proof (rule set_call_ok[OF look.prems look.hyps(1)])
    show "\<And>j. call_job (case get_job key s of None \<Rightarrow> CallDone None | Some j \<Rightarrow> CallSend j) = Some j \<Longrightarrow> j < is_next s"
      using look.prems get_job_registry[of key s] by (fastforce simp: int_ok_def split: option.splits)
  qed (use look.hyps in \<open>auto split: option.splits\<close>)
next
  case (send c s j)
  have j: "j < is_next s" using call_in_range[OF send.prems send.hyps(1)] send.hyps(2) by simp
  have ok: "int_ok (set_call c (CallWait j) s)"
    by (rule set_call_ok[OF send.prems send.hyps(1)]) (use send.hyps j in auto)
  have w: "CallWait j \<in> set ((is_calls s)[c := CallWait j])" using send.hyps(1) by (rule set_update_memI)
  have ends: "jb_closed (is_jobs s j) \<longrightarrow> jb_cancelled (is_jobs s j)" "jb_cancelled (is_jobs s j) \<longrightarrow> jb_removed (is_jobs s j)"
    using send.prems j by (simp_all add: int_ok_def)
  have "int_ok (upd_job j (\<lambda>b. b\<lparr>jb_listening := False, jb_interrupted := True\<rparr>) (set_call c (CallWait j) s))"
    by (rule upd_job_ok[OF ok]) (use w ends in simp_all)
  moreover have "upd_job j f (set_call c x s) = set_call c x (upd_job j f s)" for f x
    by (rule int_state.equality) (simp_all add: upd_job_def set_call_def)
  ultimately show ?case by simp
next
  case (send_closed c s j)
  show ?case
    by (rule set_call_ok[OF send_closed.prems send_closed.hyps(1)])
      (use send_closed call_in_range[OF send_closed.prems send_closed.hyps(1)] in auto)
next
  case (send_cancelled c s j)
  show ?case
    by (rule set_call_ok[OF send_cancelled.prems send_cancelled.hyps(1)]) (use send_cancelled in auto)
next
  case (wait_closed c s j)
  show ?case
    by (rule set_call_ok[OF wait_closed.prems wait_closed.hyps(1)])
      (use wait_closed call_in_range[OF wait_closed.prems wait_closed.hyps(1)] in auto)
next
  case (job_removed j s)
  then have "set (remove_job j (is_registry s)) = {k. k < is_next s \<and> k \<noteq> j \<and> \<not> jb_removed (is_jobs s k)}"
    by (auto simp: int_ok_def remove_job_remove1)
  then show ?case using job_removed by (auto simp: int_ok_def remove_job_remove1 upd_job_def)
next
  case (job_cancelled j s)
  then show ?case by (intro upd_job_ok) (simp_all add: int_ok_def)
next
  case (job_closed j s b)
  then show ?case by (intro upd_job_ok) (auto simp: int_ok_def close_job_def split: if_splits)
next
  case (listener_ends j s parent_done)
  then show ?case by (intro upd_job_ok) (simp_all add: int_ok_def)
qed

lemma int_reachable_ok: "int_reachable s \<Longrightarrow> int_ok s"
proof (induction rule: int_reachable.induct)
  case start
  then show ?case by (simp add: int_ok_def int_init_def)
next
  case (next_step s s')
  then show ?case using int_ok_step by blast
qed

text \<open>
  Interrupting a job.  In every interleaving of workers and users the registry lists exactly the
  jobs that have not begun to end, each once; a call of \<^verbatim>\<open>UserInterrupt\<close> that returns for a job
  returns after the job has ended; and a job whose context was cancelled by a user has a call that
  waits for its end or has seen it.
\<close>
theorem interrupt_returns_after_end:
  assumes "int_reachable s"
  shows "distinct (is_registry s) \<and> set (is_registry s) = {j. j < is_next s \<and> \<not> jb_removed (is_jobs s j)}
    \<and> (\<forall>j. CallDone (Some j) \<in> set (is_calls s) \<longrightarrow> jb_closed (is_jobs s j))
    \<and> (\<forall>j<is_next s. jb_interrupted (is_jobs s j) \<longrightarrow> CallWait j \<in> set (is_calls s) \<or> CallDone (Some j) \<in> set (is_calls s))"
  using int_reachable_ok[OF assms] by (simp add: int_ok_def)

definition sample_int :: int_state where
  "sample_int = set_call 0 (CallSend 0) ((make_worker_context ''k'' int_init)\<lparr>is_calls := [CallLook ''k'']\<rparr>)"

lemma sample_int_reachable: "int_reachable sample_int"
proof -
  let ?s1 = "make_worker_context ''k'' int_init"
  have r1: "int_reachable ?s1" by (rule int_reachable.next_step[OF int_reachable.start int_step.start_job])
  have "int_step ?s1 (?s1\<lparr>is_calls := is_calls ?s1 @ [CallLook ''k'']\<rparr>)" by (rule int_step.call)
  then have r2: "int_reachable (?s1\<lparr>is_calls := [CallLook ''k'']\<rparr>)"
    using int_reachable.next_step[OF r1] by (simp add: make_worker_context_def int_init_def)
  have "int_step (?s1\<lparr>is_calls := [CallLook ''k'']\<rparr>) sample_int"
    using int_step.look[of 0 "?s1\<lparr>is_calls := [CallLook ''k'']\<rparr>" "''k''"]
    by (simp add: sample_int_def get_job_def make_worker_context_def int_init_def add_job_def)
  then show ?thesis by (rule int_reachable.next_step[OF r2])
qed

lemma interrupt_returns_after_end_witness: "set (is_registry sample_int) = {j. j < is_next sample_int \<and> \<not> jb_removed (is_jobs sample_int j)}"
  using interrupt_returns_after_end[OF sample_int_reachable] by blast

text \<open>A job whose cancel function runs lets every waiting call return.\<close>

lemma interrupt_can_return:
  assumes "int_reachable s" "c < length (is_calls s)" "is_calls s ! c = CallSend j \<or> is_calls s ! c = CallWait j"
  shows "\<exists>s'. int_step\<^sup>*\<^sup>* s s' \<and> is_calls s' ! c = CallDone (Some j)"
proof -
  have ok: "int_ok s" using int_reachable_ok[OF assms(1)] .
  have j: "j < is_next s" using call_in_range[OF ok assms(2)] assms(3) by auto
  have fin: "\<exists>s'. int_step\<^sup>*\<^sup>* t s' \<and> is_calls s' ! c = CallDone (Some j)"
    if t: "is_calls t = is_calls s" "jb_closed (is_jobs t j)" for t
  proof -
    have "int_step t (set_call c (CallDone (Some j)) t)"
      using assms(2,3) t int_step.send_closed[of c t j] int_step.wait_closed[of c t j] by auto
    then show ?thesis using assms(2) t(1) by (intro exI[of _ "set_call c (CallDone (Some j)) t"]) auto
  qed
  have clo: "\<exists>s'. int_step\<^sup>*\<^sup>* t s' \<and> is_calls s' ! c = CallDone (Some j)"
    if t: "is_calls t = is_calls s" "is_next t = is_next s" "jb_cancelled (is_jobs t j)" for t
  proof (cases "jb_closed (is_jobs t j)")
    case False
    let ?b = "(is_jobs t j)\<lparr>jb_closed := True\<rparr>"
    have "int_step t (upd_job j (\<lambda>_. ?b) t)" using int_step.job_closed[of j t ?b] False j t by (simp add: close_job_def)
    moreover obtain s' where "int_step\<^sup>*\<^sup>* (upd_job j (\<lambda>_. ?b) t) s'" "is_calls s' ! c = CallDone (Some j)"
      using fin[of "upd_job j (\<lambda>_. ?b) t"] t by auto
    ultimately show ?thesis by (meson converse_rtranclp_into_rtranclp)
  qed (use fin t in blast)
  have can: "\<exists>s'. int_step\<^sup>*\<^sup>* t s' \<and> is_calls s' ! c = CallDone (Some j)"
    if t: "is_calls t = is_calls s" "is_next t = is_next s" "jb_removed (is_jobs t j)" for t
  proof -
    let ?t = "upd_job j (\<lambda>b. b\<lparr>jb_cancelled := True\<rparr>) t"
    have "int_step t ?t" using int_step.job_cancelled[of j t] j t by simp
    moreover obtain s' where "int_step\<^sup>*\<^sup>* ?t s'" "is_calls s' ! c = CallDone (Some j)" using clo[of ?t] t by auto
    ultimately show ?thesis by (meson converse_rtranclp_into_rtranclp)
  qed
  show ?thesis
  proof (cases "jb_removed (is_jobs s j)")
    case False
    let ?t = "upd_job j (\<lambda>b. b\<lparr>jb_removed := True\<rparr>) (s\<lparr>is_registry := remove_job j (is_registry s)\<rparr>)"
    have "int_step s ?t" using int_step.job_removed[of j s] j False by simp
    moreover obtain s' where "int_step\<^sup>*\<^sup>* ?t s'" "is_calls s' ! c = CallDone (Some j)" using can[of ?t] by auto
    ultimately show ?thesis by (meson converse_rtranclp_into_rtranclp)
  qed (use can in blast)
qed

text \<open>Of two running jobs with one key only the older is found.\<close>

lemma only_first_interrupted:
  "get_job ''k'' (make_worker_context ''k'' (make_worker_context ''k'' int_init)) = Some 0"
  by (simp add: get_job_def make_worker_context_def int_init_def add_job_def)

text \<open>The cancel function must not be called twice, unlike those of the standard library.\<close>

lemma cancel_twice_panics: "close_job b = Some b' \<Longrightarrow> close_job b' = None"
  by (auto simp: close_job_def split: if_splits)

end
