(* ===== verification/TraceLog.thy ===== *)
theory TraceLog
  imports ResCore
begin

text \<open>
  Package \<^verbatim>\<open>lg\<close>: log lines under a trace key.  A context carries a pointer to a sender, which is a number
  here; messages go through a channel of a hundred places to the writer.  Callers, the writer and the
  options interleave in a step relation.
\<close>

section \<open>Senders and messages\<close>

record log_sender =
  ls_key :: string
  ls_parent :: string
  ls_start_meta :: "string \<rightharpoonup> string"
  ls_has_logged :: bool

text \<open>The extra values of a message: none, those of a call, or the map of the sender, read when the row is written.\<close>

datatype log_extra = NoExtra | StartMeta nat | CallExtra "string \<rightharpoonup> res_data"

record log_message =
  lm_sender :: "nat option"
  lm_when :: gotime
  lm_text :: string
  lm_caller :: string
  lm_extra :: log_extra

text \<open>
  The process: senders, goroutines with the messages they still have to send, the channel, and what
  was written.
\<close>

record log_state =
  lg_senders :: "nat \<Rightarrow> log_sender"
  lg_next :: nat
  lg_sending :: "log_message list list"
  lg_queue :: "log_message list"
  lg_written :: "log_message list"

definition queue_size :: nat where "queue_size = 100"

definition upd_sender :: "nat \<Rightarrow> (log_sender \<Rightarrow> log_sender) \<Rightarrow> log_state \<Rightarrow> log_state" where
  "upd_sender i f s = s\<lparr>lg_senders := (lg_senders s)(i := f (lg_senders s i))\<rparr>"

section \<open>Contexts\<close>

definition set_meta :: "string \<Rightarrow> string \<Rightarrow> log_sender \<Rightarrow> log_sender" where
  "set_meta key v s = s\<lparr>ls_start_meta := (ls_start_meta s)(key \<mapsto> v)\<rparr>"

definition opt_with_parent :: "string \<Rightarrow> log_sender \<Rightarrow> log_sender" where
  "opt_with_parent parent s = s\<lparr>ls_parent := parent, ls_start_meta := (ls_start_meta s)(''parent'' \<mapsto> parent)\<rparr>"

definition opt_with_request :: "string \<Rightarrow> string \<Rightarrow> log_sender \<Rightarrow> log_sender" where
  "opt_with_request http_verb url s =
     s\<lparr>ls_start_meta := (ls_start_meta s)(''req:method'' \<mapsto> http_verb, ''req:url'' \<mapsto> url)\<rparr>"

definition make_key :: "string \<Rightarrow> (gotime \<Rightarrow> string) \<Rightarrow> gotime \<Rightarrow> string" where
  "make_key chars format start = chars @ ''-'' @ format start"

text \<open>The context as it was, with its sender changed by the options; or one with a new sender.\<close>

definition new_log_context :: "string \<Rightarrow> (gotime \<Rightarrow> string) \<Rightarrow> (gotime \<Rightarrow> string) \<Rightarrow> gotime \<Rightarrow> (log_sender \<Rightarrow> log_sender) list
    \<Rightarrow> nat option \<Rightarrow> log_state \<Rightarrow> nat option \<times> log_state" where
  "new_log_context chars key_format rfc3339 start opts ctx s =
     (case ctx of
        Some i \<Rightarrow> (Some i, upd_sender i (fold (\<lambda>f. f) opts) s)
      | None \<Rightarrow>
          let sender = \<lparr>ls_key = make_key chars key_format start, ls_parent = [], ls_start_meta = [''start'' \<mapsto> rfc3339 start],
                ls_has_logged = False\<rparr>
          in (Some (lg_next s), (upd_sender (lg_next s) (\<lambda>_. fold (\<lambda>f. f) opts sender) s)\<lparr>lg_next := lg_next s + 1\<rparr>))"

text \<open>The middleware: the options of the application get the sender of the new context.\<close>

definition log_middleware :: "string \<Rightarrow> (gotime \<Rightarrow> string) \<Rightarrow> (gotime \<Rightarrow> string) \<Rightarrow> gotime \<Rightarrow> (log_sender \<Rightarrow> log_sender) list
    \<Rightarrow> string \<Rightarrow> string \<Rightarrow> nat option \<Rightarrow> log_state \<Rightarrow> nat option \<times> log_state" where
  "log_middleware chars key_format rfc3339 start mw_opts http_verb url ctx s =
     (case new_log_context chars key_format rfc3339 start [opt_with_request http_verb url] ctx s of
        (Some i, s1) \<Rightarrow> (Some i, upd_sender i (fold (\<lambda>f. f) mw_opts) s1)
      | (None, s1) \<Rightarrow> (None, s1))"

section \<open>Printing\<close>

text \<open>\<open>CompareAndSwap(false, true)\<close> on the flag of a sender.\<close>

definition swap_logged :: "nat \<Rightarrow> log_state \<Rightarrow> bool \<times> log_state" where
  "swap_logged i s =
     (if ls_has_logged (lg_senders s i) then (False, s) else (True, upd_sender i (\<lambda>x. x\<lparr>ls_has_logged := True\<rparr>) s))"

text \<open>\<^verbatim>\<open>checkSenderInit\<close>: the messages it has to send.\<close>

definition check_sender_init :: "gotime \<Rightarrow> string \<Rightarrow> nat option \<Rightarrow> log_state \<Rightarrow> log_message list \<times> log_state" where
  "check_sender_init now caller ctx s =
     (case ctx of
        None \<Rightarrow> ([], s)
      | Some i \<Rightarrow>
          (case swap_logged i s of
             (False, s1) \<Rightarrow> ([], s1)
           | (True, s1) \<Rightarrow> ([\<lparr>lm_sender = Some i, lm_when = now, lm_text = ''trace-origin'', lm_caller = caller, lm_extra = StartMeta i\<rparr>], s1)))"

text \<open>The values of \<^verbatim>\<open>Println\<close>, each already formatted.\<close>

fun join_values :: "nat \<Rightarrow> string list \<Rightarrow> string" where
  "join_values i [] = []"
| "join_values i (v # vs) = v @ (if 0 < i \<and> vs \<noteq> [] then '' '' else []) @ join_values (i + 1) vs"

definition log_println :: "gotime \<Rightarrow> string \<Rightarrow> string \<Rightarrow> nat option \<Rightarrow> string list \<Rightarrow> log_state \<Rightarrow> log_message list \<times> log_state" where
  "log_println now caller2 caller3 ctx vs s =
     (case check_sender_init now caller3 ctx s of
        (ms, s1) \<Rightarrow> (ms @ [\<lparr>lm_sender = ctx, lm_when = now, lm_text = join_values 0 vs, lm_caller = caller2, lm_extra = NoExtra\<rparr>], s1))"

definition log_print_obj :: "gotime \<Rightarrow> string \<Rightarrow> string \<Rightarrow> nat option \<Rightarrow> string \<Rightarrow> (string \<rightharpoonup> res_data) \<Rightarrow> log_state
    \<Rightarrow> log_message list \<times> log_state" where
  "log_print_obj now caller2 caller3 ctx text extra s =
     (case check_sender_init now caller3 ctx s of
        (ms, s1) \<Rightarrow> (ms @ [\<lparr>lm_sender = ctx, lm_when = now, lm_text = text, lm_caller = caller2, lm_extra = CallExtra extra\<rparr>], s1))"

definition trace_key :: "gotime \<Rightarrow> string \<Rightarrow> string \<Rightarrow> nat option \<Rightarrow> log_state \<Rightarrow> string \<times> log_message list \<times> log_state" where
  "trace_key now caller2 caller3 ctx s =
     (case ctx of
        None \<Rightarrow> (''<nil>'', [], s)
      | Some i \<Rightarrow>
          (case swap_logged i s of
             (False, s1) \<Rightarrow> (ls_key (lg_senders s1 i), [], s1)
           | (True, s1) \<Rightarrow>
               (case log_println now caller2 caller3 ctx [''extracting trace-key for background job''] s1 of
                  (ms, s2) \<Rightarrow> (ls_key (lg_senders s2 i), ms, s2))))"

section \<open>The writer\<close>

record log_row =
  lr_d :: string
  lr_t :: string
  lr_s :: string
  lr_e :: "(string \<rightharpoonup> res_data) option"
  lr_f :: string
  lr_pr :: string

text \<open>The encoder ends its output with a newline, or gives none when it fails.\<close>

definition to_json :: "(log_row \<Rightarrow> string) \<Rightarrow> log_row \<Rightarrow> string" where
  "to_json enc v = (let content = enc v in if content \<noteq> [] then butlast content else content)"

definition log_row_of :: "(gotime \<Rightarrow> string) \<Rightarrow> log_state \<Rightarrow> log_message \<Rightarrow> log_row" where
  "log_row_of format s m =
     \<lparr>lr_d = format (lm_when m),
      lr_t = (case lm_sender m of None \<Rightarrow> ''<nil>'' | Some i \<Rightarrow> ls_key (lg_senders s i)),
      lr_s = lm_text m,
      lr_e = (case lm_extra m of NoExtra \<Rightarrow> None | StartMeta i \<Rightarrow> Some (\<lambda>k. map_option DStr (ls_start_meta (lg_senders s i) k))
                | CallExtra e \<Rightarrow> Some e),
      lr_f = lm_caller m,
      lr_pr = (case lm_sender m of None \<Rightarrow> [] | Some i \<Rightarrow> ls_parent (lg_senders s i))\<rparr>"

definition written_line :: "(log_row \<Rightarrow> string) \<Rightarrow> (gotime \<Rightarrow> string) \<Rightarrow> log_state \<Rightarrow> log_message \<Rightarrow> string" where
  "written_line enc format s m = to_json enc (log_row_of format s m) @ [CHR 0x0A]"

section \<open>Interleavings\<close>

text \<open>
  A call becomes a goroutine with messages to send, in their order; a send waits for room in the
  channel, or is given up when the context of the call is done; the writer takes the oldest message.
\<close>

definition sending :: "log_message list \<times> log_state \<Rightarrow> log_state" where
  "sending r = (case r of (ms, s) \<Rightarrow> s\<lparr>lg_sending := lg_sending s @ [ms]\<rparr>)"

definition known_ctx :: "nat option \<Rightarrow> log_state \<Rightarrow> bool" where
  "known_ctx ctx s \<longleftrightarrow> (case ctx of None \<Rightarrow> True | Some i \<Rightarrow> i < lg_next s)"

text \<open>The options do not touch the flag: they are those of the package, or of the application through \<^verbatim>\<open>SetMeta\<close>.\<close>

datatype log_opt = OptParent string | OptRequest string string | OptMeta string string

fun opt_fun :: "log_opt \<Rightarrow> log_sender \<Rightarrow> log_sender" where
  "opt_fun (OptParent p) = opt_with_parent p"
| "opt_fun (OptRequest m u) = opt_with_request m u"
| "opt_fun (OptMeta k v) = set_meta k v"

inductive log_step :: "log_state \<Rightarrow> log_state \<Rightarrow> bool" where
  new_ctx: "known_ctx ctx s \<Longrightarrow>
    log_step s (snd (new_log_context chars kf rf now (map opt_fun opts) ctx s))"
| meta: "i < lg_next s \<Longrightarrow> log_step s (upd_sender i (opt_fun opt) s)"
| println: "known_ctx ctx s \<Longrightarrow> log_step s (sending (log_println now c2 c3 ctx vs s))"
| print_obj: "known_ctx ctx s \<Longrightarrow> log_step s (sending (log_print_obj now c2 c3 ctx text extra s))"
| trace: "known_ctx ctx s \<Longrightarrow> log_step s (sending (snd (trace_key now c2 c3 ctx s)))"
| send: "g < length (lg_sending s) \<Longrightarrow> lg_sending s ! g = m # ms \<Longrightarrow> length (lg_queue s) < queue_size \<Longrightarrow>
    log_step s (s\<lparr>lg_sending := (lg_sending s)[g := ms], lg_queue := lg_queue s @ [m]\<rparr>)"
| give_up: "g < length (lg_sending s) \<Longrightarrow> lg_sending s ! g = m # ms \<Longrightarrow>
    log_step s (s\<lparr>lg_sending := (lg_sending s)[g := ms]\<rparr>)"
| writer: "lg_queue s = m # ms \<Longrightarrow> log_step s (s\<lparr>lg_queue := ms, lg_written := lg_written s @ [m]\<rparr>)"

definition log_init :: "(nat \<Rightarrow> log_sender) \<Rightarrow> log_state" where
  "log_init x = \<lparr>lg_senders = x, lg_next = 0, lg_sending = [], lg_queue = [], lg_written = []\<rparr>"

inductive log_reachable :: "log_state \<Rightarrow> bool" where
  start: "log_reachable (log_init x)"
| next_step: "log_reachable s \<Longrightarrow> log_step s s' \<Longrightarrow> log_reachable s'"

section \<open>Facts\<close>

text \<open>How often the start of a trace is in a list of messages, and in the whole process.\<close>

definition origins_in :: "nat \<Rightarrow> log_message list \<Rightarrow> nat" where
  "origins_in i ms = length (filter (\<lambda>m. lm_extra m = StartMeta i) ms)"

definition origins :: "nat \<Rightarrow> log_state \<Rightarrow> nat" where
  "origins i s = sum_list (map (origins_in i) (lg_sending s)) + origins_in i (lg_queue s) + origins_in i (lg_written s)"

lemma origins_in_simps [simp]:
  "origins_in i [] = 0" "origins_in i (m # ms) = (if lm_extra m = StartMeta i then 1 else 0) + origins_in i ms"
  "origins_in i (ms @ ms') = origins_in i ms + origins_in i ms'"
  by (simp_all add: origins_in_def)

text \<open>The goroutines: what is left of a call is at most two messages, and only the first may be the start of a trace.\<close>

definition calls_ok :: "log_state \<Rightarrow> bool" where
  "calls_ok s \<longleftrightarrow> (\<forall>ms\<in>set (lg_sending s). length ms \<le> 2 \<and> (\<forall>m\<in>set (tl ms). \<forall>i. lm_extra m \<noteq> StartMeta i))"

definition logged :: "nat \<Rightarrow> log_state \<Rightarrow> bool" where
  "logged i s \<longleftrightarrow> i < lg_next s \<and> ls_has_logged (lg_senders s i)"

definition log_ok :: "log_state \<Rightarrow> bool" where
  "log_ok s \<longleftrightarrow> calls_ok s \<and> length (lg_queue s) \<le> queue_size \<and> (\<forall>i. origins i s \<le> (if logged i s then 1 else 0))"

lemma upd_sender_simps [simp]:
  "lg_senders (upd_sender i f s) = (lg_senders s)(i := f (lg_senders s i))" "lg_next (upd_sender i f s) = lg_next s"
  "lg_sending (upd_sender i f s) = lg_sending s" "lg_queue (upd_sender i f s) = lg_queue s" "lg_written (upd_sender i f s) = lg_written s"
  by (simp_all add: upd_sender_def)

lemma opt_keeps [simp]: "ls_has_logged (opt_fun a x) = ls_has_logged x" "ls_key (opt_fun a x) = ls_key x"
  by (cases a; simp add: opt_with_parent_def opt_with_request_def set_meta_def)+

lemma opts_keep [simp]: "ls_has_logged (fold (\<lambda>f. f) (map opt_fun as) x) = ls_has_logged x"
  by (induction as arbitrary: x) simp_all

text \<open>What a call does to the state before anything is sent: flags are only set, and a start is counted by a flag.\<close>

definition call_ok :: "log_state \<Rightarrow> log_message list \<times> log_state \<Rightarrow> bool" where
  "call_ok s r \<longleftrightarrow> lg_next (snd r) = lg_next s \<and> lg_sending (snd r) = lg_sending s \<and> lg_queue (snd r) = lg_queue s
     \<and> lg_written (snd r) = lg_written s \<and> length (fst r) \<le> 2 \<and> (\<forall>m\<in>set (tl (fst r)). \<forall>i. lm_extra m \<noteq> StartMeta i)
     \<and> (\<forall>i. origins_in i (fst r) + (if logged i s then 1 else 0) \<le> (if logged i (snd r) then 1 else 0))"

lemma check_sender_init_ok:
  "known_ctx ctx s \<Longrightarrow> call_ok s (check_sender_init now c ctx s) \<and> length (fst (check_sender_init now c ctx s)) \<le> 1"
  by (auto simp: check_sender_init_def call_ok_def swap_logged_def known_ctx_def logged_def split: option.splits)

lemma log_println_ok: "known_ctx ctx s \<Longrightarrow> call_ok s (log_println now c2 c3 ctx vs s)"
  using check_sender_init_ok[of ctx s now c3]
  by (cases "check_sender_init now c3 ctx s"; cases "fst (check_sender_init now c3 ctx s)")
    (auto simp: log_println_def call_ok_def)

lemma log_print_obj_ok: "known_ctx ctx s \<Longrightarrow> call_ok s (log_print_obj now c2 c3 ctx text extra s)"
  using check_sender_init_ok[of ctx s now c3]
  by (cases "check_sender_init now c3 ctx s"; cases "fst (check_sender_init now c3 ctx s)")
    (auto simp: log_print_obj_def call_ok_def)

lemma swap_logged_ok:
  assumes "i < lg_next s" "call_ok (snd (swap_logged i s)) r"
  shows "call_ok s r"
proof -
  have "origins_in j (fst r) + (if logged j s then 1 else 0) \<le> (if logged j (snd r) then 1 else 0)" for j
  proof -
    have "logged j s \<Longrightarrow> logged j (snd (swap_logged i s))" by (simp add: swap_logged_def logged_def)
    then have "(if logged j s then 1 else 0) \<le> (if logged j (snd (swap_logged i s)) then 1 else (0::nat))" by simp
    moreover have "origins_in j (fst r) + (if logged j (snd (swap_logged i s)) then 1 else 0) \<le> (if logged j (snd r) then 1 else 0)"
      using assms(2) unfolding call_ok_def by blast
    ultimately show ?thesis by linarith
  qed
  then show ?thesis using assms(2) by (simp add: call_ok_def swap_logged_def split: if_splits)
qed

lemma trace_key_ok: "known_ctx ctx s \<Longrightarrow> call_ok s (snd (trace_key now c2 c3 ctx s))"
proof (cases ctx)
  case (Some i)
  assume k: "known_ctx ctx s"
  then have i: "i < lg_next s" by (simp add: Some known_ctx_def)
  have "call_ok s ([], s)" by (simp add: call_ok_def)
  moreover have "call_ok (snd (swap_logged i s)) (log_println now c2 c3 ctx vs (snd (swap_logged i s)))" for vs
    by (rule log_println_ok) (use k in \<open>simp add: Some known_ctx_def swap_logged_def\<close>)
  then have "call_ok s (log_println now c2 c3 ctx vs (snd (swap_logged i s)))" for vs by (rule swap_logged_ok[OF i])
  ultimately show ?thesis
    by (cases "ls_has_logged (lg_senders s i)") (simp_all add: trace_key_def Some swap_logged_def case_prod_unfold)
qed (simp add: trace_key_def call_ok_def)

lemma sending_ok:
  assumes "log_ok s" "call_ok s r"
  shows "log_ok (sending r)"
proof -
  obtain ms s1 where r: "r = (ms, s1)" by (cases r)
  have o1: "origins i s1 = origins i s" for i using assms(2) by (simp add: r origins_def call_ok_def)
  have o2: "origins i (sending r) = origins_in i ms + origins i s1" for i by (simp add: r sending_def origins_def)
  have "origins i (sending r) \<le> (if logged i s1 then 1 else 0)" for i
  proof -
    have "origins i s \<le> (if logged i s then 1 else 0)" using assms(1) by (simp add: log_ok_def)
    moreover have "origins_in i ms + (if logged i s then 1 else 0) \<le> (if logged i s1 then 1 else 0)"
      using assms(2) by (simp add: r call_ok_def)
    ultimately show ?thesis using o1[of i] o2[of i] by linarith
  qed
  moreover have "logged i (sending r) = logged i s1" for i by (simp add: r sending_def logged_def)
  moreover have "calls_ok (sending r)" "length (lg_queue (sending r)) \<le> queue_size"
    using assms by (simp_all add: r sending_def log_ok_def call_ok_def calls_ok_def)
  ultimately show ?thesis by (simp add: log_ok_def)
qed

lemma take_message:
  "g < length xs \<Longrightarrow> xs ! g = m # ms \<Longrightarrow>
    sum_list (map (origins_in i) (xs[g := ms])) + (if lm_extra m = StartMeta i then 1 else 0) = sum_list (map (origins_in i) xs)"
proof (induction xs arbitrary: g)
  case (Cons x xs)
  then show ?case by (cases g) auto
qed simp

lemma calls_ok_take:
  assumes "calls_ok s" "g < length (lg_sending s)" "lg_sending s ! g = m # ms"
  shows "\<forall>x\<in>set ((lg_sending s)[g := ms]). length x \<le> 2 \<and> (\<forall>y\<in>set (tl x). \<forall>i. lm_extra y \<noteq> StartMeta i)"
proof
  fix x assume x: "x \<in> set ((lg_sending s)[g := ms])"
  have old: "\<forall>z\<in>set (lg_sending s). length z \<le> 2 \<and> (\<forall>y\<in>set (tl z). \<forall>i. lm_extra y \<noteq> StartMeta i)"
    using assms(1) by (simp add: calls_ok_def)
  then have "length (m # ms) \<le> 2 \<and> (\<forall>y\<in>set ms. \<forall>i. lm_extra y \<noteq> StartMeta i)"
    using assms(2,3) nth_mem by (metis list.sel(3))
  then have "length ms \<le> 2 \<and> (\<forall>y\<in>set (tl ms). \<forall>i. lm_extra y \<noteq> StartMeta i)" by (cases ms) auto
  then show "length x \<le> 2 \<and> (\<forall>y\<in>set (tl x). \<forall>i. lm_extra y \<noteq> StartMeta i)"
    using x old set_update_subset_insert[of "lg_sending s" g ms] by blast
qed

lemma new_context_keeps:
  assumes "known_ctx ctx s" and eq: "s' = snd (new_log_context chars kf rf now (map opt_fun opts) ctx s)"
  shows "lg_sending s' = lg_sending s" "lg_queue s' = lg_queue s" "origins i s' = origins i s" "logged i s \<Longrightarrow> logged i s'"
  using assms(1) by (auto simp: eq new_log_context_def logged_def origins_def known_ctx_def Let_def split: option.splits)

lemma call_sends_no_start:
  assumes "call_ok s r" "logged i s"
  shows "logged i (sending r) \<and> origins i (sending r) = origins i s"
proof -
  obtain ms s1 where r: "r = (ms, s1)" by (cases r)
  have "origins_in i ms + (if logged i s then 1 else 0) \<le> (if logged i s1 then 1 else 0)"
    using assms(1) unfolding call_ok_def r fst_conv snd_conv by blast
  then have "origins_in i ms + 1 \<le> (if logged i s1 then 1 else 0)" using assms(2) by simp
  then have "logged i s1" "origins_in i ms = 0" by (simp_all split: if_splits)
  then show ?thesis using assms(1) by (simp add: r call_ok_def sending_def origins_def logged_def)
qed

lemma log_ok_step: "log_step s s' \<Longrightarrow> log_ok s \<Longrightarrow> log_ok s'"
proof (induction rule: log_step.induct)
  case (new_ctx ctx s chars kf rf now opts)
  let ?s = "snd (new_log_context chars kf rf now (map opt_fun opts) ctx s)"
  note keeps = new_context_keeps(1,2)[OF new_ctx.hyps refl, of chars kf rf now opts]
  have "origins i ?s \<le> (if logged i ?s then 1 else 0)" for i
  proof -
    have "origins i s \<le> (if logged i s then 1 else 0)" using new_ctx.prems by (simp add: log_ok_def)
    then show ?thesis using new_context_keeps(3,4)[OF new_ctx.hyps refl, of i chars kf rf now opts]
      by (cases "logged i s") simp_all
  qed
  then show ?case using new_ctx.prems keeps by (simp add: log_ok_def calls_ok_def)
next
  case (meta i s opt)
  let ?s = "upd_sender i (opt_fun opt) s"
  have "origins j ?s = origins j s" "logged j ?s = logged j s" for j by (simp_all add: origins_def logged_def)
  then show ?case using meta.prems by (simp add: log_ok_def calls_ok_def)
next
  case (send g s m ms)
  let ?s = "s\<lparr>lg_sending := (lg_sending s)[g := ms], lg_queue := lg_queue s @ [m]\<rparr>"
  have "origins i ?s = origins i s" for i using take_message[OF send.hyps(1,2), of i] by (simp add: origins_def)
  then show ?case using send calls_ok_take[of s g m ms] by (simp add: log_ok_def logged_def calls_ok_def)
next
  case (give_up g s m ms)
  let ?s = "s\<lparr>lg_sending := (lg_sending s)[g := ms]\<rparr>"
  have le: "origins i ?s \<le> origins i s" for i using take_message[OF give_up.hyps(1,2), of i] by (simp add: origins_def)
  have "origins i ?s \<le> (if logged i ?s then 1 else 0)" for i
  proof -
    have "origins i s \<le> (if logged i s then 1 else 0)" using give_up.prems by (simp add: log_ok_def)
    moreover have "logged i ?s = logged i s" by (simp add: logged_def)
    ultimately have "origins i s \<le> (if logged i ?s then 1 else 0)" by simp
    then show ?thesis by (rule le_trans[OF le[of i]])
  qed
  then show ?case using give_up calls_ok_take[of s g m ms] by (simp add: log_ok_def calls_ok_def)
next
  case (writer s m ms)
  then have "origins i (s\<lparr>lg_queue := ms, lg_written := lg_written s @ [m]\<rparr>) = origins i s" for i by (simp add: origins_def)
  then show ?case using writer by (simp add: log_ok_def logged_def calls_ok_def)
qed (simp_all add: sending_ok log_println_ok log_print_obj_ok trace_key_ok)

text \<open>
  The start of a trace.  However callers and the writer interleave, the row with the start of a
  trace is sent at most once, and only for senders that have been used; it goes before the line of the
  call that sends it; and at most a hundred messages wait.
\<close>
theorem trace_start_once:
  assumes "log_reachable s"
  shows "origins i s \<le> 1 \<and> (0 < origins i s \<longrightarrow> i < lg_next s \<and> ls_has_logged (lg_senders s i))
    \<and> (\<forall>ms\<in>set (lg_sending s). \<forall>m\<in>set (tl ms). lm_extra m \<noteq> StartMeta i) \<and> length (lg_queue s) \<le> 100"
proof -
  have "log_ok s" using assms
  proof (induction rule: log_reachable.induct)
    case (start x)
    then show ?case by (simp add: log_ok_def log_init_def calls_ok_def origins_def)
  next
    case (next_step s s')
    then show ?case using log_ok_step by blast
  qed
  moreover from this have "origins i s \<le> (if logged i s then 1 else 0)" by (simp add: log_ok_def)
  ultimately show ?thesis by (auto simp: log_ok_def calls_ok_def queue_size_def logged_def split: if_splits)
qed

lemma trace_start_once_witness:
  "origins 0 (sending (log_println 0 [] [] None [''a''] (log_init (\<lambda>_. \<lparr>ls_key = [], ls_parent = [], ls_start_meta = Map.empty, ls_has_logged = False\<rparr>)))) \<le> 1"
proof -
  let ?x = "\<lambda>_. \<lparr>ls_key = [], ls_parent = [], ls_start_meta = Map.empty, ls_has_logged = False\<rparr>"
  have "log_step (log_init ?x) (sending (log_println 0 [] [] None [''a''] (log_init ?x)))"
    by (rule log_step.println) (simp add: known_ctx_def)
  then have "log_reachable (sending (log_println 0 [] [] None [''a''] (log_init ?x)))"
    by (rule log_reachable.next_step[OF log_reachable.start])
  from trace_start_once[OF this, of 0] show ?thesis by simp
qed

text \<open>
  A trace whose first use is \<^verbatim>\<open>TraceKey\<close> has its flag set before the line is printed, so its start is
  never sent: not by this call, and not by any later one.
\<close>

lemma start_never_sent_step: "log_step s s' \<Longrightarrow> logged i s \<Longrightarrow> origins i s = 0 \<Longrightarrow> logged i s' \<and> origins i s' = 0"
proof (induction rule: log_step.induct)
  case (new_ctx ctx s chars kf rf now opts)
  then show ?case using new_context_keeps(3,4)[OF new_ctx.hyps refl, of i chars kf rf now opts] by simp
next
  case (meta j s opt)
  then show ?case by (cases "i = j") (simp_all add: logged_def origins_def)
next
  case (send g s m ms)
  then show ?case using take_message[OF send.hyps(1,2), of i]
    by (simp add: origins_def logged_def del: sum_list_eq_0_iff split: if_splits)
next
  case (give_up g s m ms)
  then show ?case using take_message[OF give_up.hyps(1,2), of i]
    by (simp add: origins_def logged_def del: sum_list_eq_0_iff split: if_splits)
next
  case (writer s m ms)
  then show ?case by (simp add: origins_def logged_def)
next
  case (println ctx s now c2 c3 vs)
  then show ?case using call_sends_no_start[OF log_println_ok] by simp
next
  case (print_obj ctx s now c2 c3 t extra)
  then show ?case using call_sends_no_start[OF log_print_obj_ok] by simp
next
  case (trace ctx s now c2 c3)
  then show ?case using call_sends_no_start[OF trace_key_ok] by simp
qed

lemma trace_key_loses_start:
  assumes "i < lg_next s" "\<not> ls_has_logged (lg_senders s i)" "origins i s = 0" "log_step\<^sup>*\<^sup>* (sending (snd (trace_key now c2 c3 (Some i) s))) s'"
  shows "origins i s' = 0"
proof -
  let ?s = "sending (snd (trace_key now c2 c3 (Some i) s))"
  have "logged i ?s \<and> origins i ?s = 0"
    using assms(1-3) by (simp add: trace_key_def log_println_def check_sender_init_def swap_logged_def sending_def logged_def origins_def)
  with assms(4) have "logged i s' \<and> origins i s' = 0"
    by (induction rule: rtranclp_induct) (use start_never_sent_step in blast)+
  then show ?thesis by simp
qed

text \<open>\<^verbatim>\<open>Println\<close> puts no space after its first value.\<close>

lemma first_values_joined: "join_values 0 [''a'', ''b'', ''c''] = ''ab c''"
  by simp

end
