(* ===== verification/Tsv.thy ===== *)
theory Tsv
  imports GoText
begin

text \<open>
  Package \<^verbatim>\<open>encoding/tsv\<close>: rows of tab separated values.  A reader of the format is stated beside the
  encoder, and what the encoder writes is read back.
\<close>

section \<open>The encoder\<close>

definition special_chars :: "char list" where
  "special_chars = [CHR 0x0A, CHR 0x09, CHR 0x0D, CHR 0x5C, CHR 0x22]"

definition needs_quote :: "string \<Rightarrow> bool" where
  "needs_quote v = contains_any v special_chars"

definition quote_value :: "string \<Rightarrow> string" where
  "quote_value v = [CHR 0x22] @ replace_all v [CHR 0x22] [CHR 0x22, CHR 0x22] @ [CHR 0x22]"

text \<open>The loop over the caller's slice, which it changes.\<close>

fun encode_loop :: "nat \<Rightarrow> string list \<Rightarrow> string list" where
  "encode_loop 0 values = values"
| "encode_loop (Suc n) values =
     (let i = length values - Suc n; v = values ! i
      in encode_loop n (if \<not> needs_quote v then values else values[i := quote_value v]))"

definition encode_values :: "string list \<Rightarrow> string list" where
  "encode_values values = encode_loop (length values) values"

text \<open>\<^verbatim>\<open>WriteRow\<close>: the writer is a function from the text to its error; the caller's slice is returned as well.\<close>

definition row_text :: "string list \<Rightarrow> string" where
  "row_text values = join_with [CHR 0x09] (encode_values values) @ [CHR 0x0A]"

definition write_row :: "(string \<Rightarrow> string option) \<Rightarrow> string list \<Rightarrow> string option \<times> string list" where
  "write_row wr values = (wr (row_text values), encode_values values)"


section \<open>The reader\<close>

text \<open>
  A row ends at a newline; a value that starts with a quotation mark ends at the next one that is not
  doubled, any other value before the next tab or newline.
\<close>

fun read_quoted :: "string \<Rightarrow> (string \<times> string) option" where
  "read_quoted [] = None"
| "read_quoted (c # cs) =
     (if c = CHR 0x22
      then (case cs of
              d # ds \<Rightarrow> if d = CHR 0x22 then map_option (\<lambda>(v, r). (CHR 0x22 # v, r)) (read_quoted ds) else Some ([], cs)
            | [] \<Rightarrow> Some ([], []))
      else map_option (\<lambda>(v, r). (c # v, r)) (read_quoted cs))"

definition plain_char :: "char \<Rightarrow> bool" where
  "plain_char c \<longleftrightarrow> c \<noteq> CHR 0x09 \<and> c \<noteq> CHR 0x0A"

definition read_value :: "string \<Rightarrow> (string \<times> string) option" where
  "read_value s =
     (case s of
        c # cs \<Rightarrow> if c = CHR 0x22 then read_quoted cs else Some (takeWhile plain_char s, dropWhile plain_char s)
      | [] \<Rightarrow> Some ([], []))"

fun read_row :: "nat \<Rightarrow> string \<Rightarrow> (string list \<times> string) option" where
  "read_row 0 s = None"
| "read_row (Suc n) s =
     (case read_value s of
        None \<Rightarrow> None
      | Some (v, r) \<Rightarrow>
          (case r of
             [] \<Rightarrow> None
           | c # cs \<Rightarrow>
               if c = CHR 0x0A then Some ([v], cs)
               else if c = CHR 0x09 then map_option (\<lambda>(vs, t). (v # vs, t)) (read_row n cs)
               else None))"

text \<open>Several rows; a row takes at least one character, so the length of the text is enough fuel.\<close>

fun read_rows :: "nat \<Rightarrow> string \<Rightarrow> string list list option" where
  "read_rows 0 s = (if s = [] then Some [] else None)"
| "read_rows (Suc n) s =
     (if s = [] then Some []
      else (case read_row (length s) s of
              None \<Rightarrow> None
            | Some (vs, r) \<Rightarrow> map_option (Cons vs) (read_rows n r)))"


section \<open>Facts\<close>

lemma encode_loop_map: "n \<le> length vs \<Longrightarrow>
  encode_loop n vs = take (length vs - n) vs @ map (\<lambda>v. if needs_quote v then quote_value v else v) (drop (length vs - n) vs)"
proof (induction n arbitrary: vs)
  case (Suc n)
  let ?i = "length vs - Suc n"
  let ?q = "\<lambda>v. if needs_quote v then quote_value v else v"
  have i: "?i < length vs" and next_i: "length vs - n = Suc ?i" using Suc.prems by simp_all
  have "encode_loop (Suc n) vs = encode_loop n (vs[?i := ?q (vs ! ?i)])"
    by (simp add: Let_def del: encode_loop.simps(1))
  also have "\<dots> = take (Suc ?i) (vs[?i := ?q (vs ! ?i)]) @ map ?q (drop (Suc ?i) vs)"
    using Suc.IH[of "vs[?i := ?q (vs ! ?i)]"] Suc.prems next_i by simp
  also have "take (Suc ?i) (vs[?i := ?q (vs ! ?i)]) = take ?i vs @ [?q (vs ! ?i)]"
    using i by (simp add: take_Suc_conv_app_nth)
  also have "(take ?i vs @ [?q (vs ! ?i)]) @ map ?q (drop (Suc ?i) vs) = take ?i vs @ map ?q (drop ?i vs)"
    using i by (simp add: Cons_nth_drop_Suc[symmetric])
  finally show ?case .
qed simp

lemma encode_values_map: "encode_values vs = map (\<lambda>v. if needs_quote v then quote_value v else v) vs"
  by (simp add: encode_values_def encode_loop_map)

lemma replace_quotes_cons:
  "replace_all (c # cs) [CHR 0x22] [CHR 0x22, CHR 0x22] =
    (if c = CHR 0x22 then [CHR 0x22, CHR 0x22] else [c]) @ replace_all cs [CHR 0x22] [CHR 0x22, CHR 0x22]"
  by simp

lemma read_quoted_back:
  "(\<And>c cs. r = c # cs \<Longrightarrow> c \<noteq> CHR 0x22) \<Longrightarrow>
    read_quoted (replace_all v [CHR 0x22] [CHR 0x22, CHR 0x22] @ CHR 0x22 # r) = Some (v, r)"
proof (induction v)
  case Nil
  then show ?case by (auto split: list.splits)
next
  case (Cons c v)
  then show ?case by (simp only: replace_quotes_cons) simp
qed

lemma read_value_back:
  assumes "c = CHR 0x09 \<or> c = CHR 0x0A"
  shows "read_value ((if needs_quote v then quote_value v else v) @ c # r) = Some (v, c # r)"
proof (cases "needs_quote v")
  case True
  then show ?thesis using read_quoted_back[of "c # r" v] assms by (auto simp: read_value_def quote_value_def)
next
  case False
  then have n: "\<forall>x\<in>set v. x \<notin> set special_chars" by (auto simp: needs_quote_def contains_any_def list_ex_iff)
  then have p: "\<forall>x\<in>set v. plain_char x" by (auto simp: plain_char_def special_chars_def)
  have c: "\<not> plain_char c" using assms by (auto simp: plain_char_def)
  have "read_value (v @ c # r) = Some (takeWhile plain_char (v @ c # r), dropWhile plain_char (v @ c # r))"
  proof (cases v)
    case Nil
    then show ?thesis using assms by (auto simp: read_value_def)
  next
    case (Cons x xs)
    then have "x \<noteq> CHR 0x22" using n by (auto simp: special_chars_def)
    then show ?thesis using Cons by (simp add: read_value_def)
  qed
  also have "\<dots> = Some (v, c # r)" using p c by (simp add: takeWhile_append2 dropWhile_append2)
  finally show ?thesis using False by simp
qed

lemma read_row_back:
  "vs \<noteq> [] \<Longrightarrow> length vs \<le> n \<Longrightarrow>
    read_row n (join_with [CHR 0x09] (map (\<lambda>v. if needs_quote v then quote_value v else v) vs) @ CHR 0x0A # r) = Some (vs, r)"
proof (induction vs arbitrary: n)
  case (Cons v vs)
  then obtain m where n: "n = Suc m" by (cases n) auto
  show ?case
  proof (cases vs)
    case Nil
    then show ?thesis using read_value_back[of "CHR 0x0A" v r] by (simp add: n)
  next
    case (Cons w ws)
    let ?t = "join_with [CHR 0x09] (map (\<lambda>v. if needs_quote v then quote_value v else v) vs) @ CHR 0x0A # r"
    have "read_row m ?t = Some (vs, r)" using Cons.IH[of m] Cons.prems Cons n by simp
    then show ?thesis using read_value_back[of "CHR 0x09" v ?t] Cons by (simp add: n)
  qed
qed simp

lemma row_text_length: "vs \<noteq> [] \<Longrightarrow> length vs \<le> length (row_text vs)"
proof -
  have "vs \<noteq> [] \<Longrightarrow> length vs \<le> Suc (length (join_with [CHR 0x09] vs))" for vs :: "string list"
    by (induction "[CHR 0x09]" vs rule: join_with.induct) auto
  from this[of "encode_values vs"] show "vs \<noteq> [] \<Longrightarrow> ?thesis" by (simp add: row_text_def encode_values_map)
qed

text \<open>
  Tables.  What is written for any rows of values, whatever characters they contain, is read back as
  exactly those rows, when every row has a value.
\<close>
theorem tsv_roundtrip:
  assumes "\<forall>vs\<in>set rows. vs \<noteq> []"
  shows "read_rows (length rows) (concat (map row_text rows)) = Some rows"
  using assms
proof (induction rows)
  case (Cons vs rows)
  let ?s = "row_text vs @ concat (map row_text rows)"
  have "length vs \<le> length ?s" using row_text_length[of vs] Cons.prems by simp
  then have "read_row (length ?s) ?s = Some (vs, concat (map row_text rows))"
    using read_row_back[of vs "length ?s" "concat (map row_text rows)"] Cons.prems by (simp add: row_text_def encode_values_map)
  moreover have "?s \<noteq> []" by (simp add: row_text_def)
  ultimately show ?case using Cons by simp
qed simp

lemma tsv_roundtrip_witness:
  "read_rows 2 (concat (map row_text [[''a'', [CHR 0x22, CHR 0x09]], ['''']])) = Some [[''a'', [CHR 0x22, CHR 0x09]], ['''']]"
  using tsv_roundtrip[of "[[''a'', [CHR 0x22, CHR 0x09]], ['''']]"] by (simp add: numeral_2_eq_2 del: read_rows.simps)

text \<open>The caller's slice is changed: writing the same values again quotes them a second time.\<close>

lemma write_row_twice:
  "row_text (snd (write_row wr [[CHR 0x22]])) \<noteq> row_text [[CHR 0x22]]"
  by (simp add: write_row_def row_text_def encode_values_map needs_quote_def quote_value_def contains_any_def special_chars_def)

text \<open>A row without values cannot be told from a row with one empty value.\<close>

lemma empty_row_ambiguous: "row_text [] = row_text ['''']"
  by (simp add: row_text_def encode_values_map needs_quote_def contains_any_def)

end
