(* ===== verification/Settings.thy ===== *)
theory Settings
  imports GoText ResCore
begin

text \<open>
  Packages \<^verbatim>\<open>env\<close> and \<^verbatim>\<open>pkglog\<close>: settings from environment variables, and loggers whose levels are
  settings.  The environment is the function \<^verbatim>\<open>os.Getenv\<close>, which gives the empty text for what is not set.
\<close>

section \<open>Settings\<close>

type_synonym environ = "string \<Rightarrow> string"

text \<open>The process ends with a message, or goes on with a value and lines in its log.\<close>

datatype 'a setting = Exits string | Goes_on 'a "string list"

definition env_fatal :: "bool \<Rightarrow> string \<Rightarrow> 'a \<Rightarrow> string list \<Rightarrow> 'a setting" where
  "env_fatal unit_test message v lines = (if unit_test then Goes_on v (lines @ [message]) else Exits message)"

definition require_env :: "bool \<Rightarrow> environ \<Rightarrow> string \<Rightarrow> string setting" where
  "require_env unit_test env key =
     (let value = env key
      in if value = [] then env_fatal unit_test (''missing environment variable '' @ key) value [] else Goes_on value [])"

text \<open>\<^verbatim>\<open>strconv.ParseBool\<close>.\<close>

definition parse_bool :: "string \<Rightarrow> bool option" where
  "parse_bool s =
     (if s \<in> set [''1'', ''t'', ''T'', ''true'', ''TRUE'', ''True''] then Some True
      else if s \<in> set [''0'', ''f'', ''F'', ''false'', ''FALSE'', ''False''] then Some False
      else None)"

text \<open>After a failed conversion outside a unit test the process ends; in one, the value of the failed conversion is returned.\<close>

definition require_int :: "bool \<Rightarrow> environ \<Rightarrow> string \<Rightarrow> int setting" where
  "require_int unit_test env key =
     (case require_env unit_test env key of
        Exits m \<Rightarrow> Exits m
      | Goes_on text lines \<Rightarrow>
          let i = atoi_value text
          in if parse_int text = None
             then env_fatal unit_test (''invalid (non-integer) environment variable value for key '' @ key) i lines
             else Goes_on i lines)"

definition require_bool :: "bool \<Rightarrow> environ \<Rightarrow> string \<Rightarrow> bool setting" where
  "require_bool unit_test env key =
     (case require_env unit_test env key of
        Exits m \<Rightarrow> Exits m
      | Goes_on text lines \<Rightarrow>
          (case parse_bool text of
             None \<Rightarrow> env_fatal unit_test (''invalid (non-boolean) environment variable value for key '' @ key) False lines
           | Some b \<Rightarrow> Goes_on b lines))"

definition optional_env :: "environ \<Rightarrow> string \<Rightarrow> string \<Rightarrow> string" where
  "optional_env env key default_value = (let v = env key in if v \<noteq> [] then v else default_value)"

definition optional_bool :: "bool \<Rightarrow> environ \<Rightarrow> string \<Rightarrow> bool \<Rightarrow> bool setting" where
  "optional_bool unit_test env key default_value =
     (let v = env key
      in if v = [] then Goes_on default_value []
         else (case parse_bool v of
                 None \<Rightarrow> env_fatal unit_test
                   (''invalid environment variable value for key '' @ key @ '', should be true, false or undefined'') False []
               | Some b \<Rightarrow> Goes_on b []))"

definition optional_int :: "bool \<Rightarrow> environ \<Rightarrow> string \<Rightarrow> int \<Rightarrow> int setting" where
  "optional_int unit_test env key default_value =
     (let v = env key
      in if v = [] then Goes_on default_value []
         else let i = atoi_value v
              in if parse_int v = None
                 then env_fatal unit_test
                   (''invalid environment variable value for key '' @ key @ '', should be a number or undefined'') i []
                 else Goes_on i [])"

text \<open>
  Start-up.  \<open>exec_dir\<close> is the absolute directory of the program, or the error of finding it; \<open>exists\<close> is
  \<^verbatim>\<open>os.Stat\<close>, and \<open>load\<close> is the loader of the files of settings, with its error and the environment it
  leaves.
\<close>

definition env_file_in :: "string \<Rightarrow> string" where
  "env_file_in dir = (if dir = ''/'' then ''/.env'' else dir @ ''/.env'')"

definition auto_env_location :: "string + string \<Rightarrow> (string \<Rightarrow> bool) \<Rightarrow> string list" where
  "auto_env_location exec_dir exists =
     (let search = ''.env'' # (case exec_dir of Inl e \<Rightarrow> [] | Inr dir \<Rightarrow> [env_file_in dir])
      in (case find exists search of Some file \<Rightarrow> [file] | None \<Rightarrow> []))"

record env_state =
  es_unit_test :: bool
  es_testing :: bool
  es_environ :: environ

definition env_init :: "bool \<Rightarrow> string + string \<Rightarrow> (string \<Rightarrow> bool) \<Rightarrow> (string list \<Rightarrow> environ \<Rightarrow> string option \<times> environ)
    \<Rightarrow> environ \<Rightarrow> env_state setting" where
  "env_init testing exec_dir exists load env =
     (let searches = auto_env_location exec_dir exists;
          searches = (if env ''ENV_FILE'' \<noteq> [] then searches @ [env ''ENV_FILE''] else searches);
          (err, env') = load searches env;
          st = \<lparr>es_unit_test = testing, es_testing = (env' ''TEST'' = ''true''), es_environ = env'\<rparr>
      in case err of
           None \<Rightarrow> Goes_on st []
         | Some e \<Rightarrow>
             if testing then Goes_on st [''Error loading .env file: '' @ e]
             else Exits ''unable to load .env file'')"


section \<open>Levels of loggers\<close>

text \<open>\<^verbatim>\<open>Level\<close> is a number; its four constants.\<close>

definition lv_verbose :: int where "lv_verbose = 0"
definition lv_info :: int where "lv_info = 1"
definition lv_error :: int where "lv_error = 2"
definition lv_none :: int where "lv_none = 3"

lemmas levels = lv_verbose_def lv_info_def lv_error_def lv_none_def

text \<open>Errors are panics.\<close>

definition parse_level :: "(string \<Rightarrow> string) \<Rightarrow> string \<Rightarrow> string + int" where
  "parse_level uni text =
     (let value = to_lower uni text
      in if value = ''verbose'' then Inr lv_verbose
         else if value = ''info'' then Inr lv_info
         else if value = ''error'' then Inr lv_error
         else if value = ''none'' then Inr lv_none
         else Inl (''unexpected log level '' @ [CHR 0x27] @ value @ [CHR 0x27] @ '', should be something like ''
                @ [CHR 0x27] @ ''verbose'' @ [CHR 0x27] @ '', '' @ [CHR 0x27] @ ''info'' @ [CHR 0x27] @ '', ''
                @ [CHR 0x27] @ ''error'' @ [CHR 0x27] @ '', '' @ [CHR 0x27] @ ''none'' @ [CHR 0x27]))"

text \<open>An output is one of the two standard ones or an opened file.\<close>

datatype log_output = Stdout | Stderr | LogFile string

definition log_defaults :: "(string \<Rightarrow> string) \<Rightarrow> (string \<Rightarrow> string option) \<Rightarrow> environ \<Rightarrow> int \<Rightarrow> string + (int \<times> log_output \<times> int)" where
  "log_defaults uni open_file env flags =
     (case parse_level uni (optional_env env ''DEFAULT_LOG_LEVEL'' ''verbose'') of
        Inl p \<Rightarrow> Inl p
      | Inr level \<Rightarrow>
          (let out = optional_env env ''DEFAULT_LOG_OUTPUT'' ''stdout''
           in if out = ''stdout'' then Inr (level, Stdout, flags)
              else if out = ''stderr'' then Inr (level, Stderr, flags)
              else (case open_file out of
                      None \<Rightarrow> Inr (level, LogFile out, flags)
                    | Some e \<Rightarrow> Inl (''unable to open log file '' @ [CHR 0x27] @ out @ [CHR 0x27]
                        @ '' (parsed from env DEFAULT_LOG_OUTPUT): '' @ e))))"

definition log_key :: "(string \<Rightarrow> string) \<Rightarrow> (string \<Rightarrow> string) \<Rightarrow> string \<Rightarrow> string" where
  "log_key uni_lower uni_upper name =
     replace_all (to_upper uni_upper (to_lower uni_lower name)) ''.'' ''_'' @ ''_LOG_LEVEL''"

text \<open>
  A logger of the library: where its lines go (\<^const>\<open>None\<close> is \<^verbatim>\<open>io.Discard\<close>), its prefix and flags.
\<close>

record std_logger =
  sl_output :: "log_output option"
  sl_prefix :: string
  sl_flags :: int

record pkg_logger =
  pl_name :: string
  pl_level :: int
  pl_output :: log_output
  pl_flags :: int
  pl_verbose :: "std_logger option"
  pl_info :: "std_logger option"
  pl_error :: "std_logger option"

definition configure_one :: "std_logger option \<Rightarrow> log_output \<Rightarrow> string \<Rightarrow> int \<Rightarrow> bool \<Rightarrow> std_logger" where
  "configure_one l output prefix flags enabled =
     (let l1 = (case l of None \<Rightarrow> \<lparr>sl_output = Some output, sl_prefix = prefix, sl_flags = flags\<rparr> | Some l' \<Rightarrow> l');
          l2 = (if enabled then l1\<lparr>sl_output := Some output\<rparr> else l1\<lparr>sl_output := None\<rparr>)
      in l2\<lparr>sl_flags := flags, sl_prefix := prefix\<rparr>)"

definition configure_logger :: "pkg_logger \<Rightarrow> pkg_logger" where
  "configure_logger l =
     (let l1 = l\<lparr>pl_error := Some (configure_one (pl_error l) (pl_output l) (pl_name l @ '':error: '') (pl_flags l) (pl_level l \<le> lv_error))\<rparr>;
          l2 = l1\<lparr>pl_verbose := Some (configure_one (pl_verbose l1) (pl_output l1) (pl_name l1 @ '':verbose: '') (pl_flags l1) (pl_level l1 \<le> lv_verbose))\<rparr>
      in l2\<lparr>pl_info := Some (configure_one (pl_info l2) (pl_output l2) (pl_name l2 @ '':info: '') (pl_flags l2) (pl_level l2 \<le> lv_info))\<rparr>)"

definition new_logger :: "(string \<Rightarrow> string) \<Rightarrow> (string \<Rightarrow> string) \<Rightarrow> (string \<Rightarrow> string option) \<Rightarrow> environ \<Rightarrow> int \<Rightarrow> string
    \<Rightarrow> string + pkg_logger" where
  "new_logger uni_lower uni_upper open_file env default_flags name =
     (let name = to_lower uni_lower name;
          key = log_key uni_lower uni_upper name
      in case log_defaults uni_lower open_file env default_flags of
           Inl p \<Rightarrow> Inl p
         | Inr (level, output, flags) \<Rightarrow>
             (let level_text = optional_env env key []
              in case (if level_text \<noteq> [] then parse_level uni_lower level_text else Inr level) of
                   Inl p \<Rightarrow> Inl p
                 | Inr level \<Rightarrow> Inr (configure_logger \<lparr>pl_name = name, pl_level = level, pl_output = output, pl_flags = flags,
                     pl_verbose = None, pl_info = None, pl_error = None\<rparr>)))"

definition set_level :: "int \<Rightarrow> pkg_logger \<Rightarrow> pkg_logger" where
  "set_level level l = configure_logger (l\<lparr>pl_level := level\<rparr>)"

definition set_flags :: "int \<Rightarrow> pkg_logger \<Rightarrow> pkg_logger" where
  "set_flags flags l = configure_logger (l\<lparr>pl_flags := flags\<rparr>)"

definition set_output :: "log_output \<Rightarrow> pkg_logger \<Rightarrow> pkg_logger" where
  "set_output output l = configure_logger (l\<lparr>pl_output := output\<rparr>)"

text \<open>
  A line printed on one of the three loggers: where it goes and its text without the place in the
  code.  \<^verbatim>\<open>Print\<close>, \<^verbatim>\<open>Printf\<close> and \<^verbatim>\<open>Println\<close> of the logger itself use the one for information; the
  \<^verbatim>\<open>Fatal\<close> functions do too, and end the process whether or not the line goes anywhere.
\<close>

definition print_line :: "std_logger \<Rightarrow> string \<Rightarrow> (log_output \<times> string) option" where
  "print_line l text = map_option (\<lambda>out. (out, sl_prefix l @ text)) (sl_output l)"

definition pl_print :: "pkg_logger \<Rightarrow> string \<Rightarrow> (log_output \<times> string) option" where
  "pl_print l text = (case pl_info l of None \<Rightarrow> None | Some i \<Rightarrow> print_line i text)"

definition pl_fatal :: "pkg_logger \<Rightarrow> string \<Rightarrow> (log_output \<times> string) option \<times> bool" where
  "pl_fatal l text = (pl_print l text, True)"


section \<open>Facts\<close>

text \<open>Every operation leaves the three loggers as the fields of the logger say.\<close>

definition logger_at :: "pkg_logger \<Rightarrow> int \<Rightarrow> string \<Rightarrow> std_logger" where
  "logger_at l severity suffix =
     \<lparr>sl_output = (if pl_level l \<le> severity then Some (pl_output l) else None), sl_prefix = pl_name l @ suffix, sl_flags = pl_flags l\<rparr>"

definition logger_ok :: "pkg_logger \<Rightarrow> bool" where
  "logger_ok l \<longleftrightarrow> pl_verbose l = Some (logger_at l lv_verbose '':verbose: '')
     \<and> pl_info l = Some (logger_at l lv_info '':info: '') \<and> pl_error l = Some (logger_at l lv_error '':error: '')"

lemma configure_one_eq: "configure_one o1 output prefix flags enabled =
  \<lparr>sl_output = (if enabled then Some output else None), sl_prefix = prefix, sl_flags = flags\<rparr>"
  by (cases o1) (simp_all add: configure_one_def Let_def)

lemma configure_logger_ok [simp]: "logger_ok (configure_logger l)"
  by (simp add: logger_ok_def logger_at_def configure_logger_def configure_one_eq Let_def)

lemma configure_logger_fields [simp]:
  "pl_name (configure_logger l) = pl_name l" "pl_level (configure_logger l) = pl_level l"
  "pl_output (configure_logger l) = pl_output l" "pl_flags (configure_logger l) = pl_flags l"
  by (simp_all add: configure_logger_def Let_def)

datatype logger_op = OpLevel int | OpFlags int | OpOutput log_output

fun apply_op :: "logger_op \<Rightarrow> pkg_logger \<Rightarrow> pkg_logger" where
  "apply_op (OpLevel v) l = set_level v l"
| "apply_op (OpFlags f) l = set_flags f l"
| "apply_op (OpOutput out) l = set_output out l"

lemma logger_op_ok: "logger_ok (apply_op a l)"
  by (cases a) (simp_all add: set_level_def set_flags_def set_output_def)

lemma new_logger_ok: "new_logger ul uu opn env flags name = Inr l \<Longrightarrow> logger_ok l"
  by (auto simp: new_logger_def Let_def split: sum.splits)

lemma logger_ops_ok: "logger_ok l \<Longrightarrow> logger_ok (fold apply_op ops l)"
  by (induction ops arbitrary: l) (simp_all add: logger_op_ok)

lemma configured_level:
  "new_logger ul uu opn env flags name = Inr l \<Longrightarrow> env (log_key ul uu (to_lower ul name)) \<noteq> [] \<Longrightarrow>
    parse_level ul (env (log_key ul uu (to_lower ul name))) = Inr (pl_level l)"
  by (auto simp: new_logger_def optional_env_def Let_def split: sum.splits)

text \<open>
  Loggers.  Whatever changes a logger has seen since it was made, a line goes to its present output
  exactly if its severity is at least the present level, with the prefix of its severity; and a level
  that is set for the package wins over the default.
\<close>
theorem logger_filters:
  assumes "new_logger ul uu opn env flags name = Inr l0" "l = fold apply_op ops l0"
  shows "(\<exists>v i e. pl_verbose l = Some v \<and> pl_info l = Some i \<and> pl_error l = Some e
      \<and> print_line v text = (if pl_level l \<le> lv_verbose then Some (pl_output l, pl_name l @ '':verbose: '' @ text) else None)
      \<and> print_line i text = (if pl_level l \<le> lv_info then Some (pl_output l, pl_name l @ '':info: '' @ text) else None)
      \<and> print_line e text = (if pl_level l \<le> lv_error then Some (pl_output l, pl_name l @ '':error: '' @ text) else None))
    \<and> pl_print l text = (if pl_level l \<le> lv_info then Some (pl_output l, pl_name l @ '':info: '' @ text) else None)
    \<and> (env (log_key ul uu (to_lower ul name)) \<noteq> [] \<longrightarrow> parse_level ul (env (log_key ul uu (to_lower ul name))) = Inr (pl_level l0))"
proof -
  have "logger_ok l" using logger_ops_ok[OF new_logger_ok[OF assms(1)]] assms(2) by simp
  then show ?thesis using configured_level[OF assms(1)]
    by (simp add: logger_ok_def logger_at_def print_line_def pl_print_def)
qed

definition sample_environ :: environ where
  "sample_environ key = (if key = ''A_B_LOG_LEVEL'' then ''error'' else [])"

lemma logger_filters_witness:
  "pl_print (fold apply_op [OpFlags 3] (configure_logger \<lparr>pl_name = ''a.b'', pl_level = 2, pl_output = Stdout, pl_flags = 0,
     pl_verbose = None, pl_info = None, pl_error = None\<rparr>)) ''x'' = None"
proof -
  have "new_logger id id (\<lambda>_. None) sample_environ 0 ''a.b'' = Inr (configure_logger \<lparr>pl_name = ''a.b'', pl_level = 2, pl_output = Stdout,
     pl_flags = 0, pl_verbose = None, pl_info = None, pl_error = None\<rparr>)"
    by code_simp
  from logger_filters[OF this refl, of "[OpFlags 3]" "''x''"] show ?thesis
    by (simp add: set_flags_def lv_info_def)
qed

text \<open>Outside a unit test what a setting gives is what the environment says.\<close>

lemma settings_present:
  "require_env False env key = Goes_on v lines \<Longrightarrow> v = env key \<and> v \<noteq> [] \<and> lines = []"
  "require_int False env key = Goes_on i lines \<Longrightarrow> parse_int (env key) = Some i \<and> lines = []"
  "require_bool False env key = Goes_on b lines \<Longrightarrow> parse_bool (env key) = Some b \<and> lines = []"
  "optional_int False env key d = Goes_on i lines \<Longrightarrow> (if env key = [] then i = d else parse_int (env key) = Some i)"
  "optional_bool False env key c = Goes_on b lines \<Longrightarrow> (if env key = [] then b = c else parse_bool (env key) = Some b)"
  by (auto simp: require_env_def require_int_def require_bool_def optional_int_def optional_bool_def env_fatal_def atoi_value_def Let_def
      split: if_splits option.splits)

text \<open>The comment on the key of a package names another one than the code reads.\<close>

lemma documented_key_unused: "log_key id id ''importer.excel'' = ''IMPORTER_EXCEL_LOG_LEVEL''"
  by code_simp

end
