(* ===== verification/Mail.thy ===== *)
theory Mail
  imports Settings
begin

text \<open>
  Package \<^verbatim>\<open>email\<close>: sections of the template, start-up, and the sending of mail through one of two services.
  The template engine, the encoder of JSON, the table of content types and both services are arguments; the
  client of one service is the list of calls made on it, the other one is an HTTP request.
\<close>

section \<open>Base64\<close>

definition b64_chars :: string where
  "b64_chars = ''ABCDEFGHIJKLMNOPQRSTUVWXYZabcdefghijklmnopqrstuvwxyz0123456789+/''"

definition b64_char :: "nat \<Rightarrow> char" where
  "b64_char n = b64_chars ! n"

text \<open>\<^verbatim>\<open>base64.StdEncoding.EncodeToString\<close>.\<close>

fun base64_encode :: "string \<Rightarrow> string" where
  "base64_encode [] = []"
| "base64_encode [a] = [b64_char (byte a div 4), b64_char (byte a mod 4 * 16), CHR ''='', CHR ''='']"
| "base64_encode [a, b] =
     [b64_char (byte a div 4), b64_char (byte a mod 4 * 16 + byte b div 16), b64_char (byte b mod 16 * 4), CHR ''='']"
| "base64_encode (a # b # c # r) =
     b64_char (byte a div 4) # b64_char (byte a mod 4 * 16 + byte b div 16)
       # b64_char (byte b mod 16 * 4 + byte c div 64) # b64_char (byte c mod 64) # base64_encode r"

section \<open>Sections\<close>

record button_details =
  bd_text :: string
  bd_url :: string
  bd_variant :: string

record mail_section =
  sc_type :: string
  sc_width :: string
  sc_padding_left :: string
  sc_button :: button_details
  sc_html :: string

definition no_button :: button_details where
  "no_button = \<lparr>bd_text = [], bd_url = [], bd_variant = []\<rparr>"

definition blank_section :: "string \<Rightarrow> mail_section" where
  "blank_section t = \<lparr>sc_type = t, sc_width = [], sc_padding_left = [], sc_button = no_button, sc_html = []\<rparr>"

definition default_left_padding :: string where "default_left_padding = ''37px''"

definition section_html :: "string \<Rightarrow> mail_section" where
  "section_html html = (blank_section ''html'')\<lparr>sc_html := html\<rparr>"

definition combine_sections :: "mail_section list list \<Rightarrow> mail_section list" where
  "combine_sections input = fold (\<lambda>item flattened. flattened @ item) input []"

definition section_row_cell :: "mail_section \<Rightarrow> string \<Rightarrow> mail_section list" where
  "section_row_cell content width =
     [(blank_section ''flex-item-start'')\<lparr>sc_width := width\<rparr>, content\<lparr>sc_padding_left := ''0px''\<rparr>, blank_section ''flex-item-end'']"

text \<open>The first cell is indexed without a check: an empty one panics.\<close>

definition section_row :: "mail_section list list \<Rightarrow> mail_section list option" where
  "section_row cells =
     (case cells of
        [] \<Rightarrow> Some [blank_section ''flex-row-start'', blank_section ''flex-row-end'']
      | item # items \<Rightarrow>
          (case item of
             [] \<Rightarrow> None
           | s # ss \<Rightarrow> Some ([blank_section ''flex-row-start''] @ (s\<lparr>sc_padding_left := default_left_padding\<rparr> # ss) @ concat items
               @ [blank_section ''flex-row-end''])))"

definition section_button_variant :: "string \<Rightarrow> string \<Rightarrow> string \<Rightarrow> mail_section" where
  "section_button_variant label url variant =
     (blank_section ''button'')\<lparr>sc_padding_left := default_left_padding,
        sc_button := \<lparr>bd_text = label, bd_url = url, bd_variant = variant\<rparr>\<rparr>"

definition section_button :: "string \<Rightarrow> string \<Rightarrow> mail_section" where
  "section_button label url = section_button_variant label url []"

definition section_big_button :: "string \<Rightarrow> string \<Rightarrow> mail_section" where
  "section_big_button label url =
     (blank_section ''big-button'')\<lparr>sc_button := \<lparr>bd_text = label, bd_url = url, bd_variant = []\<rparr>\<rparr>"

section \<open>Start-up\<close>

record mail_config =
  mc_provider :: string
  mc_default_from :: string
  mc_mailgun_domain :: string
  mc_mailgun_key :: string
  mc_postmark_key :: string
  mc_postmark_stream :: string
  mc_testing :: bool

definition bind_setting :: "'a setting \<Rightarrow> ('a \<Rightarrow> 'b setting) \<Rightarrow> 'b setting" where
  "bind_setting m f =
     (case m of
        Exits e \<Rightarrow> Exits e
      | Goes_on v lines \<Rightarrow> (case f v of Exits e \<Rightarrow> Exits e | Goes_on w lines' \<Rightarrow> Goes_on w (lines @ lines')))"

definition mail_init :: "bool \<Rightarrow> bool \<Rightarrow> environ \<Rightarrow> mail_config setting" where
  "mail_init unit_test testing env =
     (let provider = optional_env env ''EMAIL_PROVIDER'' ''mailgun''
      in bind_setting (require_env unit_test env ''DEFAULT_EMAIL_FROM'') (\<lambda>from_addr.
           let c = \<lparr>mc_provider = provider, mc_default_from = from_addr, mc_mailgun_domain = [], mc_mailgun_key = [],
                    mc_postmark_key = [], mc_postmark_stream = [], mc_testing = testing\<rparr>
           in if provider = ''mailgun'' then
                bind_setting (require_env unit_test env ''MAILGUN_DOMAIN'') (\<lambda>domain.
                  bind_setting (require_env unit_test env ''MAILGUN_API_KEY'') (\<lambda>key.
                    Goes_on (c\<lparr>mc_mailgun_domain := domain, mc_mailgun_key := key\<rparr>) []))
              else if provider = ''postmark'' then
                bind_setting (require_env unit_test env ''POSTMARK_API_KEY'') (\<lambda>key.
                  Goes_on (c\<lparr>mc_postmark_stream := optional_env env ''POSTMARK_STREAM'' ''outbound'', mc_postmark_key := key\<rparr>) [])
              else Goes_on c []))"

section \<open>Mail\<close>

record mail_attachment =
  at_name :: string
  at_value :: string
  at_content_type :: string

record email =
  em_to :: "string list"
  em_from :: string
  em_reply_to :: string
  em_subject :: string
  em_text :: string
  em_html :: string
  em_attachments :: "mail_attachment list"

definition blank_email :: email where
  "blank_email = \<lparr>em_to = [], em_from = [], em_reply_to = [], em_subject = [], em_text = [], em_html = [], em_attachments = []\<rparr>"

text \<open>The calls made on the client of the first service, and the request to the second one.\<close>

datatype mailgun_call =
    NewMailgun string string
  | NewMessage string string string "string list"
  | EnableTestMode
  | SetReplyTo string
  | SetHtml string
  | AddBufferAttachment string string
  | SendMessage

datatype mail_sent = Mailgun "mailgun_call list" | Postmark string http_header string

text \<open>\<^verbatim>\<open>path.Ext\<close>: from the last dot after the last slash.\<close>

fun ext_loop :: "string \<Rightarrow> string \<Rightarrow> string" where
  "ext_loop [] acc = []"
| "ext_loop (c # cs) acc = (if c = CHR ''/'' then [] else if c = CHR ''.'' then c # acc else ext_loop cs (c # acc))"

definition path_ext :: "string \<Rightarrow> string" where
  "path_ext p = ext_loop (rev p) []"

definition postmark_attachment :: "(string \<Rightarrow> string) \<Rightarrow> mail_attachment \<Rightarrow> res_data" where
  "postmark_attachment mime_type a =
     DMap [(''Name'', DStr (at_name a)), (''Content'', DStr (base64_encode (at_value a))),
       (''ContentType'', DStr (mime_type (path_ext (at_name a))))]"

definition postmark_body :: "(string \<Rightarrow> string) \<Rightarrow> mail_config \<Rightarrow> email \<Rightarrow> (string \<times> res_data) list" where
  "postmark_body mime_type c e =
     [(''To'', DStr (join_with '', '' (em_to e))), (''From'', DStr (em_from e)), (''Subject'', DStr (em_subject e)),
      (''MessageStream'', DStr (mc_postmark_stream c))]
     @ (if em_reply_to e \<noteq> [] then [(''ReplyTo'', DStr (em_reply_to e))] else [])
     @ (if em_html e \<noteq> [] then [(''HtmlBody'', DStr (em_html e))] else [])
     @ (if em_text e \<noteq> [] then [(''TextBody'', DStr (em_text e))] else [])
     @ (if em_attachments e \<noteq> [] then [(''Attachments'', DList (map (postmark_attachment mime_type) (em_attachments e)))] else [])"

text \<open>
  The outside: the JSON encoder, content types, the answer of the second service (an error, or a status
  and the body or the error of reading it) and the error of the first one.
\<close>

record mail_lib =
  ml_marshal :: "res_data \<Rightarrow> string + string"
  ml_mime_type :: "string \<Rightarrow> string"
  ml_do :: "string \<Rightarrow> http_header \<Rightarrow> string \<Rightarrow> string + (int \<times> (string + string))"
  ml_mailgun :: "mailgun_call list \<Rightarrow> string option"

definition postmark_address :: string where "postmark_address = ''test@blackhole.postmarkapp.com''"

text \<open>The error, the email afterwards (its fields are changed) and what was sent.\<close>

definition send_postmark :: "mail_lib \<Rightarrow> mail_config \<Rightarrow> email \<Rightarrow> string option \<times> email \<times> mail_sent list" where
  "send_postmark L c e =
     (let e = (if mc_testing c then e\<lparr>em_to := [postmark_address]\<rparr> else e)
      in case ml_marshal L (DMap (postmark_body (ml_mime_type L) c e)) of
           Inl err \<Rightarrow> (Some err, e, [])
         | Inr json \<Rightarrow>
             (let url = ''https://api.postmarkapp.com/email'';
                  h = hdr_set ''Content-Type'' ''application/json'' (hdr_set ''Accept'' ''application/json''
                        (hdr_set ''X-Postmark-Server-Token'' (mc_postmark_key c) []));
                  sent = [Postmark url h json]
              in case ml_do L url h json of
                   Inl err \<Rightarrow> (Some err, e, sent)
                 | Inr (status, Inl err) \<Rightarrow> (Some err, e, sent)
                 | Inr (status, Inr result) \<Rightarrow>
                     (if 400 \<le> status then (Some (''postmark failed to send email: '' @ result), e, sent) else (None, e, sent))))"

definition mailgun_calls :: "mail_config \<Rightarrow> email \<Rightarrow> mailgun_call list" where
  "mailgun_calls c e =
     [NewMailgun (mc_mailgun_domain c) (mc_mailgun_key c), NewMessage (em_from e) (em_subject e) (em_text e) (em_to e)]
     @ (if mc_testing c then [EnableTestMode] else [])
     @ (if em_reply_to e \<noteq> [] then [SetReplyTo (em_reply_to e)] else [])
     @ (if em_html e \<noteq> [] then [SetHtml (em_html e)] else [])
     @ map (\<lambda>a. AddBufferAttachment (at_name a) (at_value a)) (em_attachments e) @ [SendMessage]"

definition send_mailgun :: "mail_lib \<Rightarrow> mail_config \<Rightarrow> email \<Rightarrow> string option \<times> email \<times> mail_sent list" where
  "send_mailgun L c e = (let calls = mailgun_calls c e in (ml_mailgun L calls, e, [Mailgun calls]))"

definition send_email :: "mail_lib \<Rightarrow> mail_config \<Rightarrow> email \<Rightarrow> string option \<times> email \<times> mail_sent list" where
  "send_email L c e =
     (if em_to e = [] then (Some ''no email recipients specified'', e, [])
      else if em_text e = [] \<and> em_html e = [] then (Some ''missing email content'', e, [])
      else let e = (if em_from e = [] then e\<lparr>em_from := mc_default_from c\<rparr> else e)
           in if mc_provider c = ''mailgun'' then send_mailgun L c e
              else if mc_provider c = ''postmark'' then send_postmark L c e
              else (Some (''invalid mail provider '' @ [CHR 0x27] @ mc_provider c @ [CHR 0x27]), e, []))"

definition send_html :: "mail_lib \<Rightarrow> mail_config \<Rightarrow> string \<Rightarrow> string \<Rightarrow> string \<Rightarrow> mail_attachment list \<Rightarrow> string option \<times> mail_sent list" where
  "send_html L c to_addr subject body attachments =
     (case send_email L c (blank_email\<lparr>em_to := [to_addr], em_subject := subject, em_html := body, em_attachments := attachments\<rparr>) of
        (err, e, sent) \<Rightarrow> (err, sent))"

definition send_plain :: "mail_lib \<Rightarrow> mail_config \<Rightarrow> string \<Rightarrow> string \<Rightarrow> string \<Rightarrow> string option \<times> mail_sent list" where
  "send_plain L c to_addr subject body =
     (case send_email L c (blank_email\<lparr>em_to := [to_addr], em_subject := subject, em_text := body\<rparr>) of (err, e, sent) \<Rightarrow> (err, sent))"

definition send_template :: "mail_lib \<Rightarrow> ('t \<Rightarrow> string + string) \<Rightarrow> mail_config \<Rightarrow> string \<Rightarrow> string \<Rightarrow> 't \<Rightarrow> mail_attachment list
    \<Rightarrow> string option \<times> mail_sent list" where
  "send_template L render c to_addr subject input attachments =
     (case render input of Inl err \<Rightarrow> (Some err, []) | Inr body \<Rightarrow> send_html L c to_addr subject body attachments)"


section \<open>Facts\<close>

text \<open>A reader of base64 beside the encoder.\<close>

fun index_of :: "char \<Rightarrow> string \<Rightarrow> nat" where
  "index_of c [] = 0"
| "index_of c (d # ds) = (if c = d then 0 else Suc (index_of c ds))"

definition b64_val :: "char \<Rightarrow> nat" where
  "b64_val c = index_of c b64_chars"

fun base64_decode :: "string \<Rightarrow> string" where
  "base64_decode (p # q # r # t # rest) =
     (if r = CHR ''='' then [char_of (4 * b64_val p + b64_val q div 16)]
      else if t = CHR ''='' then [char_of (4 * b64_val p + b64_val q div 16), char_of (b64_val q mod 16 * 16 + b64_val r div 4)]
      else char_of (4 * b64_val p + b64_val q div 16) # char_of (b64_val q mod 16 * 16 + b64_val r div 4)
             # char_of (b64_val r mod 4 * 64 + b64_val t) # base64_decode rest)"
| "base64_decode _ = []"

lemma b64_digits:
  assumes "n < 64"
  shows "b64_val (b64_char n) = n" "b64_char n \<noteq> CHR ''=''"
proof -
  have "list_all (\<lambda>n. b64_val (b64_char n) = n \<and> b64_char n \<noteq> CHR ''='') [0..<64]" by code_simp
  with assms show "b64_val (b64_char n) = n" "b64_char n \<noteq> CHR ''=''" by (simp_all add: list_all_iff)
qed

lemma sextets:
  fixes a b c :: nat
  assumes "a < 256" "b < 256" "c < 256"
  shows "a div 4 < 64" "a mod 4 * 16 + b div 16 < 64" "b mod 16 * 4 + c div 64 < 64" "c mod 64 < 64"
    "a mod 4 * 16 < 64" "b mod 16 * 4 < 64"
    "4 * (a div 4) + (a mod 4 * 16 + b div 16) div 16 = a" "(a mod 4 * 16 + b div 16) mod 16 * 16 + (b mod 16 * 4 + c div 64) div 4 = b"
    "(b mod 16 * 4 + c div 64) mod 4 * 64 + c mod 64 = c"
    "4 * (a div 4) + a mod 4 * 16 div 16 = a" "(a mod 4 * 16 + b div 16) mod 16 * 16 + b mod 16 * 4 div 4 = b"
proof -
  have bd: "b div 16 < 16" "c div 64 < 4" using assms by (simp_all add: less_mult_imp_div_less)
  have m: "a mod 4 < 4" "b mod 16 < 16" "c mod 64 < 64" by simp_all
  show "a div 4 < 64" "c mod 64 < 64" "a mod 4 * 16 < 64" "b mod 16 * 4 < 64" using assms m by (simp_all add: less_mult_imp_div_less)
  show "a mod 4 * 16 + b div 16 < 64" using m(1) bd(1) by linarith
  show "b mod 16 * 4 + c div 64 < 64" using m(2) bd(2) by linarith
  have q: "(a mod 4 * 16 + b div 16) div 16 = a mod 4" "(a mod 4 * 16 + b div 16) mod 16 = b div 16"
    "(b mod 16 * 4 + c div 64) div 4 = b mod 16" "(b mod 16 * 4 + c div 64) mod 4 = c div 64"
    using bd by simp_all
  show "4 * (a div 4) + (a mod 4 * 16 + b div 16) div 16 = a" "(a mod 4 * 16 + b div 16) mod 16 * 16 + (b mod 16 * 4 + c div 64) div 4 = b"
    "(b mod 16 * 4 + c div 64) mod 4 * 64 + c mod 64 = c"
    "4 * (a div 4) + a mod 4 * 16 div 16 = a" "(a mod 4 * 16 + b div 16) mod 16 * 16 + b mod 16 * 4 div 4 = b"
    unfolding q by simp_all
qed

lemma base64_roundtrip: "base64_decode (base64_encode s) = s"
proof (induction s rule: base64_encode.induct)
  case (2 a)
  then show ?case using sextets[of "byte a" 0 0] by (simp add: b64_digits)
next
  case (3 a b)
  then show ?case using sextets[of "byte a" "byte b" 0] by (simp add: b64_digits)
next
  case (4 a b c r)
  then show ?case using sextets[of "byte a" "byte b" "byte c"] by (simp add: b64_digits)
qed simp

text \<open>What the two services are told about an email.\<close>

definition from_of :: "mail_config \<Rightarrow> email \<Rightarrow> string" where
  "from_of c e = (if em_from e = [] then mc_default_from c else em_from e)"

definition recipients_of :: "mail_config \<Rightarrow> email \<Rightarrow> string list" where
  "recipients_of c e = (if mc_testing c then [postmark_address] else em_to e)"

lemma postmark_body_fields:
  "map_of (postmark_body m c e) ''To'' = Some (DStr (join_with '', '' (em_to e)))"
  "map_of (postmark_body m c e) ''From'' = Some (DStr (em_from e))"
  "map_of (postmark_body m c e) ''TextBody'' = (if em_text e = [] then None else Some (DStr (em_text e)))"
  "map_of (postmark_body m c e) ''HtmlBody'' = (if em_html e = [] then None else Some (DStr (em_html e)))"
  "map_of (postmark_body m c e) ''Attachments'' =
     (if em_attachments e = [] then None else Some (DList (map (postmark_attachment m) (em_attachments e))))"
  by (simp_all add: postmark_body_def)

lemma send_email_cases:
  assumes "send_email L c e = (err, e', sent)"
  obtains "em_to e = [] \<or> em_text e = [] \<and> em_html e = []" "sent = []" "err \<noteq> None"
  | "mc_provider c = ''mailgun''" "em_to e \<noteq> []" "em_text e \<noteq> [] \<or> em_html e \<noteq> []"
      "sent = [Mailgun (mailgun_calls c (e\<lparr>em_from := from_of c e\<rparr>))]"
  | json where "mc_provider c = ''postmark''" "em_to e \<noteq> []" "em_text e \<noteq> [] \<or> em_html e \<noteq> []"
      "ml_marshal L (DMap (postmark_body (ml_mime_type L) c (e\<lparr>em_from := from_of c e, em_to := recipients_of c e\<rparr>))) = Inr json"
      "\<exists>url h. sent = [Postmark url h json]"
  | "sent = []" "err \<noteq> None"
proof -
  have f: "(if em_from e = [] then e\<lparr>em_from := mc_default_from c\<rparr> else e) = e\<lparr>em_from := from_of c e\<rparr>" by (simp add: from_of_def)
  have t: "(if mc_testing c then d\<lparr>em_to := [postmark_address]\<rparr> else d) = d\<lparr>em_to := if mc_testing c then [postmark_address] else em_to d\<rparr>" for d :: email
    by simp
  show ?thesis
    using assms that
    by (auto simp: send_email_def f send_mailgun_def send_postmark_def t recipients_of_def Let_def split: if_splits sum.splits prod.splits)
qed

text \<open>
  Mail.  An email without recipients or without content is refused before anything leaves the program;
  when sending reports success exactly one message has left; it has the sender and all parts of the email
  with its attachments in order and readable; outside test mode it goes to exactly the recipients of the
  email, and in test mode to none of them, neither over the one service nor over the other.
\<close>
theorem mail_as_asked:
  assumes "send_email L c e = (err, e', sent)"
  shows "(em_to e = [] \<or> em_text e = [] \<and> em_html e = [] \<longrightarrow> sent = [] \<and> err \<noteq> None)
    \<and> (err = None \<longrightarrow> (\<exists>m. sent = [m]))
    \<and> (\<forall>calls. Mailgun calls \<in> set sent \<longrightarrow>
         (EnableTestMode \<in> set calls \<longleftrightarrow> mc_testing c)
         \<and> (\<exists>key. take 2 calls = [NewMailgun (mc_mailgun_domain c) key, NewMessage (from_of c e) (em_subject e) (em_text e) (em_to e)])
         \<and> filter (\<lambda>x. \<exists>n v. x = AddBufferAttachment n v) calls = map (\<lambda>a. AddBufferAttachment (at_name a) (at_value a)) (em_attachments e))
    \<and> (\<forall>url h json. Postmark url h json \<in> set sent \<longrightarrow>
         (\<exists>body. ml_marshal L (DMap body) = Inr json
           \<and> map_of body ''To'' = Some (DStr (join_with '', '' (if mc_testing c then [postmark_address] else em_to e)))
           \<and> map_of body ''From'' = Some (DStr (from_of c e))
           \<and> map_of body ''TextBody'' = (if em_text e = [] then None else Some (DStr (em_text e)))
           \<and> map_of body ''HtmlBody'' = (if em_html e = [] then None else Some (DStr (em_html e)))
           \<and> map_of body ''Attachments'' =
               (if em_attachments e = [] then None else Some (DList (map (postmark_attachment (ml_mime_type L)) (em_attachments e))))))
    \<and> map (\<lambda>a. base64_decode (base64_encode (at_value a))) (em_attachments e) = map at_value (em_attachments e)"
  using assms
proof (cases rule: send_email_cases)
  case 1
  then show ?thesis by (simp add: base64_roundtrip)
next
  case 2
  then show ?thesis by (auto simp: base64_roundtrip mailgun_calls_def filter_empty_conv intro!: filter_True)
next
  case (3 json)
  then obtain url h where sent: "sent = [Postmark url h json]" by blast
  show ?thesis
    using 3 by (auto simp: sent base64_roundtrip recipients_of_def postmark_body_fields
      intro!: exI[of _ "postmark_body (ml_mime_type L) c (e\<lparr>em_from := from_of c e, em_to := recipients_of c e\<rparr>)"])
next
  case 4
  then show ?thesis by (simp add: base64_roundtrip)
qed

definition sample_mail_lib :: mail_lib where
  "sample_mail_lib = \<lparr>ml_marshal = (\<lambda>_. Inr ''{}''), ml_mime_type = (\<lambda>_. []), ml_do = (\<lambda>_ _ _. Inr (200, Inr [])), ml_mailgun = (\<lambda>_. None)\<rparr>"

definition sample_mail_config :: mail_config where
  "sample_mail_config = \<lparr>mc_provider = ''mailgun'', mc_default_from = ''f'', mc_mailgun_domain = ''d'', mc_mailgun_key = ''k'',
     mc_postmark_key = [], mc_postmark_stream = [], mc_testing = True\<rparr>"

definition sample_email :: email where
  "sample_email = blank_email\<lparr>em_to := [''t''], em_text := ''x''\<rparr>"

lemma mail_as_asked_witness:
  "fst (send_email sample_mail_lib sample_mail_config sample_email) = None
    \<and> (\<exists>m. snd (snd (send_email sample_mail_lib sample_mail_config sample_email)) = [m])"
proof -
  obtain err e' sent where r: "send_email sample_mail_lib sample_mail_config sample_email = (err, e', sent)" by (metis prod.exhaust)
  have "fst (send_email sample_mail_lib sample_mail_config sample_email) = None" by code_simp
  then show ?thesis using mail_as_asked[OF r] r by simp
qed

text \<open>An attachment's own content type is not looked at, whatever the comment on the field says.\<close>

lemma content_type_ignored: "postmark_attachment mime_type (a\<lparr>at_content_type := t\<rparr>) = postmark_attachment mime_type a"
  by (simp add: postmark_attachment_def)

text \<open>In test mode sending changes the caller's list of recipients.\<close>

lemma test_mode_overwrites:
  "mc_testing c \<Longrightarrow> mc_provider c = ''postmark'' \<Longrightarrow> em_to e \<noteq> [] \<Longrightarrow> em_text e \<noteq> [] \<Longrightarrow> em_to (fst (snd (send_email L c e))) = [postmark_address]"
  by (auto simp: send_email_def send_postmark_def Let_def split: sum.splits prod.splits)

text \<open>A row that starts with a cell without sections panics.\<close>

lemma section_row_total: "section_row cells = None \<longleftrightarrow> (\<exists>r. cells = [] # r)"
  by (auto simp: section_row_def split: list.splits)

lemma combine_is_concat: "combine_sections input = concat input"
proof -
  have "fold (\<lambda>item flattened. flattened @ item) input acc = acc @ concat input" for acc :: "mail_section list"
    by (induction input arbitrary: acc) simp_all
  then show ?thesis by (simp add: combine_sections_def)
qed

end
