(* ===== verification/GithubCd.thy ===== *)
theory GithubCd
  imports HttpAuth
begin

text \<open>
  Packages \<^verbatim>\<open>integrations/github/githubcd\<close>, \<^verbatim>\<open>githubcdutil\<close> and the \<^verbatim>\<open>distributor\<close>: webhooks that are signed with
  a keyed hash of their body, the update they start, and the upgrade of one server after the other.
  The keyed hash is an argument; hexadecimal text is modelled.
\<close>

section \<open>Hexadecimal text\<close>

definition lower_hex :: "nat \<Rightarrow> char" where
  "lower_hex n = ''0123456789abcdef'' ! n"

fun hex_encode :: "string \<Rightarrow> string" where
  "hex_encode [] = []"
| "hex_encode (c # cs) = lower_hex (byte c div 16) # lower_hex (byte c mod 16) # hex_encode cs"

text \<open>\<^verbatim>\<open>hex.DecodeString\<close>: digits of either case, in pairs; \<^const>\<open>None\<close> for its errors.\<close>

fun hex_decode :: "string \<Rightarrow> string option" where
  "hex_decode [] = Some []"
| "hex_decode [c] = None"
| "hex_decode (a # b # r) =
     (case (hex_val a, hex_val b) of
        (Some x, Some y) \<Rightarrow> map_option (Cons (char_of (16 * x + y))) (hex_decode r)
      | _ \<Rightarrow> None)"

section \<open>Signatures\<close>

type_synonym mac = "string \<Rightarrow> string \<Rightarrow> string"

definition calc_signature :: "mac \<Rightarrow> string \<Rightarrow> string \<Rightarrow> string" where
  "calc_signature hmac secret body = hex_encode (hmac secret body)"

definition sign_and_set_header :: "mac \<Rightarrow> string \<Rightarrow> string \<Rightarrow> http_header \<Rightarrow> http_header" where
  "sign_and_set_header hmac secret body h =
     hdr_set ''x-hub-signature-256'' (''sha256='' @ calc_signature hmac secret body) h"

text \<open>\<^verbatim>\<open>Verify\<close>: \<open>body\<close> is the outcome of reading the request's body.\<close>

definition verify_request :: "mac \<Rightarrow> string \<Rightarrow> http_header \<Rightarrow> string + string \<Rightarrow> string + string" where
  "verify_request hmac secret h body =
     (let sig = trim_prefix (hdr_get ''x-hub-signature-256'' h) ''sha256=''
      in case body of
           Inl err \<Rightarrow> Inl err
         | Inr b \<Rightarrow>
             (case hex_decode sig of
                None \<Rightarrow> Inl ''invalid hash''
              | Some got \<Rightarrow> if got \<noteq> hmac secret b then Inl ''invalid hash'' else Inr b))"

section \<open>The handler\<close>

record cd_handler =
  cd_secret :: string
  cd_script :: string

definition new_cd :: "string \<Rightarrow> string \<Rightarrow> cd_handler" where
  "new_cd secret script = \<lparr>cd_secret = secret, cd_script = script\<rparr>"

definition default_github_cd_path :: string where "default_github_cd_path = ''/api/github-deploy''"

text \<open>The route is a plain handler: it is not checked for a leading slash as the other routes are.\<close>

definition github_continuous_deployment :: "string \<Rightarrow> string \<Rightarrow> string \<Rightarrow> (cd_handler \<Rightarrow> 'h) \<Rightarrow> 'h router \<Rightarrow> 'h router" where
  "github_continuous_deployment path secret script as_handler rt =
     rt\<lparr>rt_routes := rt_routes rt @ [(''POST'', coalesce path default_github_cd_path, as_handler (new_cd secret script))]\<rparr>"

text \<open>The commands that are started; \<open>git\<close> is the output of \<^verbatim>\<open>git pull -f\<close> and its error.\<close>

datatype cd_command = GitPull | RunScript string

definition do_update :: "string \<times> string option \<Rightarrow> cd_handler \<Rightarrow> string option \<times> cd_command list" where
  "do_update git h =
     (case git of
        (out, Some err) \<Rightarrow> (Some err, [GitPull])
      | (out, None) \<Rightarrow>
          if str_contains out ''Already up to date.'' then (None, [GitPull])
          else (None, [GitPull, RunScript (cd_script h)]))"

definition answer :: "int \<Rightarrow> string \<Rightarrow> http_writer \<Rightarrow> http_writer option" where
  "answer code text w = map_option (w_write text) (write_header code w)"

definition cd_serve :: "mac \<Rightarrow> string \<times> string option \<Rightarrow> cd_handler \<Rightarrow> http_request \<Rightarrow> string + string \<Rightarrow> http_writer
    \<Rightarrow> http_writer option \<times> cd_command list" where
  "cd_serve hmac git h r body w =
     (case verify_request hmac (cd_secret h) (hr_header r) body of
        Inl err \<Rightarrow> (answer 403 err w, [])
      | Inr _ \<Rightarrow>
          (case do_update git h of
             (Some err, cmds) \<Rightarrow> (answer 500 err w, cmds)
           | (None, cmds) \<Rightarrow> (answer 200 ''Accepted'' w, cmds)))"

section \<open>The distributor\<close>

definition trim_right :: "char \<Rightarrow> string \<Rightarrow> string" where
  "trim_right c s = rev (dropWhile (\<lambda>x. x = c) (rev s))"

definition server_base_url :: "string \<Rightarrow> string" where
  "server_base_url name =
     (if has_prefix name ''http://'' \<or> has_prefix name ''https://'' then trim_right CHR ''/'' name else ''https://'' @ name)"

definition split_servers :: "string \<Rightarrow> string list" where
  "split_servers s = split_char CHR '','' s"

text \<open>
  The network: whether a request can be made for an address, what answers the \<open>n\<close>-th request, and how
  long it takes.  \<open>log\<close> is the sequence of requests that are sent.
\<close>

datatype cd_call = Webhook string http_header string | Probe string

record cd_net =
  nt_valid :: "string \<Rightarrow> bool"
  nt_answer :: "nat \<Rightarrow> int option"
  nt_takes :: "nat \<Rightarrow> int"

text \<open>
  Waiting for a server: it is asked until it answers, with a second between two attempts, as long as
  the time is not up.  A call that returns takes no negative time.
\<close>

function probe_loop :: "cd_net \<Rightarrow> string \<Rightarrow> int \<Rightarrow> gotime \<Rightarrow> nat \<Rightarrow> cd_call list \<times> gotime \<times> nat" where
  "probe_loop net url timeout now n =
     (if \<not> now < timeout then ([], now, n)
      else let after = now + max 0 (nt_takes net n)
           in case nt_answer net n of
                Some code \<Rightarrow> ([Probe url], after, n + 1)
              | None \<Rightarrow> (case probe_loop net url timeout (after + go_second) (n + 1) of (cs, t, k) \<Rightarrow> (Probe url # cs, t, k)))"
  by pat_completeness auto
termination
  by (relation "measure (\<lambda>(net, url, timeout, now, n). nat (timeout - now))") (auto simp: go_second_def)

declare probe_loop.simps [simp del]

text \<open>One server of the loop; one that cannot be asked is passed over.\<close>

definition upgrade_server :: "mac \<Rightarrow> string \<Rightarrow> string \<Rightarrow> cd_net \<Rightarrow> string \<Rightarrow> string \<Rightarrow> gotime \<Rightarrow> nat \<Rightarrow> cd_call list \<times> gotime \<times> nat" where
  "upgrade_server hmac secret hook_path net body name now n =
     (let url = server_base_url name @ hook_path
      in if \<not> nt_valid net url then ([], now, n)
         else let hook = Webhook url (sign_and_set_header hmac secret body []) body;
                  now1 = now + max 0 (nt_takes net n)
              in case nt_answer net n of
                   None \<Rightarrow> ([hook], now1, n + 1)
                 | Some code \<Rightarrow>
                     (let start = now1 + 5 * go_second
                      in case probe_loop net (server_base_url name @ ''/'') (start + 30 * go_second) start (n + 1) of
                           (cs, t, k) \<Rightarrow> (hook # cs, t + go_second, k)))"

fun perform_upgrade :: "mac \<Rightarrow> string \<Rightarrow> string \<Rightarrow> cd_net \<Rightarrow> string \<Rightarrow> string list \<Rightarrow> gotime \<Rightarrow> nat \<Rightarrow> cd_call list \<times> gotime \<times> nat" where
  "perform_upgrade hmac secret hook_path net body [] now n = ([], now, n)"
| "perform_upgrade hmac secret hook_path net body (name # names) now n =
     (case upgrade_server hmac secret hook_path net body name now n of
        (cs, t, k) \<Rightarrow> (case perform_upgrade hmac secret hook_path net body names t k of (cs', t', k') \<Rightarrow> (cs @ cs', t', k')))"

text \<open>The distributor's own handler: the upgrade is started beside the response.\<close>

definition distributor_handler :: "mac \<Rightarrow> string \<Rightarrow> string \<Rightarrow> cd_net \<Rightarrow> string list \<Rightarrow> http_request \<Rightarrow> string + string \<Rightarrow> gotime
    \<Rightarrow> (responder + (http_writer \<Rightarrow> http_writer option)) \<times> cd_call list" where
  "distributor_handler hmac secret hook_path net servers r body now =
     (case verify_request hmac secret (hr_header r) body of
        Inl err \<Rightarrow> (Inl (with_code_and_message 403 ''bad signature''), [])
      | Inr b \<Rightarrow> (Inr (answer 200 ''Accepted''), fst (perform_upgrade hmac secret hook_path net b servers now 0)))"


section \<open>Facts\<close>

lemma hex_digits:
  assumes "n < 16"
  shows "hex_val (lower_hex n) = Some n" "lower_hex n \<noteq> CHR ''s''"
proof -
  have "list_all (\<lambda>n. hex_val (lower_hex n) = Some n \<and> lower_hex n \<noteq> CHR ''s'') [0..<16]" by code_simp
  with assms show "hex_val (lower_hex n) = Some n" "lower_hex n \<noteq> CHR ''s''" by (simp_all add: list_all_iff)
qed

lemma hex_roundtrip: "hex_decode (hex_encode s) = Some s"
proof (induction s)
  case (Cons c s)
  have "16 * (byte c div 16) + byte c mod 16 = byte c" by simp
  then have "char_of (16 * (byte c div 16) + byte c mod 16) = c" by simp
  moreover have "byte c div 16 < 16" "byte c mod 16 < 16" using byte_less_256[of c] by (simp_all add: less_mult_imp_div_less)
  ultimately show ?case using Cons by (simp add: hex_digits)
qed simp

lemma verified_iff:
  "verify_request hmac secret h body = Inr b \<longleftrightarrow>
    body = Inr b \<and> hex_decode (trim_prefix (hdr_get ''x-hub-signature-256'' h) ''sha256='') = Some (hmac secret b)"
  by (auto simp: verify_request_def Let_def split: sum.splits option.splits)

lemma signed_is_verified: "verify_request hmac secret (sign_and_set_header hmac secret body h) (Inr body) = Inr body"
  by (simp add: verified_iff sign_and_set_header_def calc_signature_def trim_prefix_def hex_roundtrip)

lemma cd_serve_runs: "snd (cd_serve hmac git h r body w) \<noteq> [] \<longleftrightarrow> (\<exists>b. verify_request hmac (cd_secret h) (hr_header r) body = Inr b)"
  by (auto simp: cd_serve_def do_update_def split: sum.splits prod.splits option.splits)

text \<open>The answers of the server, by what happens.\<close>

lemma cd_serve_fresh:
  "cd_serve hmac git h r body fresh_writer =
    (case verify_request hmac (cd_secret h) (hr_header r) body of
       Inl e \<Rightarrow> (Some \<lparr>wr_header = [], wr_status = Some 403, wr_body = [e]\<rparr>, [])
     | Inr b \<Rightarrow> (case git of
           (out, Some e) \<Rightarrow> (Some \<lparr>wr_header = [], wr_status = Some 500, wr_body = [e]\<rparr>, [GitPull])
         | (out, None) \<Rightarrow> (Some \<lparr>wr_header = [], wr_status = Some 200, wr_body = [''Accepted'']\<rparr>,
             if str_contains out ''Already up to date.'' then [GitPull] else [GitPull, RunScript (cd_script h)])))"
  by (auto simp: cd_serve_def do_update_def answer_def write_header_def w_write_def fresh_writer_def split: sum.splits prod.splits option.splits)

text \<open>
  C40: Deployments.  A request makes the program run commands, its script included, exactly if it carries
  the hexadecimal keyed hash of the body that was read; every other request is answered 403 and runs
  nothing; and what the distributor signs for a server with the same secret is accepted by it.
\<close>
theorem deploy_needs_mac:
  "(snd (cd_serve hmac git h r body fresh_writer) \<noteq> [] \<longleftrightarrow> (\<exists>b. body = Inr b \<and>
      hex_decode (trim_prefix (hdr_get ''x-hub-signature-256'' (hr_header r)) ''sha256='') = Some (hmac (cd_secret h) b)))
    \<and> (RunScript script \<in> set (snd (cd_serve hmac git h r body fresh_writer)) \<longleftrightarrow>
        script = cd_script h \<and> snd git = None \<and> \<not> str_contains (fst git) ''Already up to date.''
        \<and> (\<exists>b. verify_request hmac (cd_secret h) (hr_header r) body = Inr b))
    \<and> (map_option wr_status (fst (cd_serve hmac git h r body fresh_writer)) = Some (Some 403) \<longleftrightarrow>
        snd (cd_serve hmac git h r body fresh_writer) = [])
    \<and> verify_request hmac (cd_secret h) (sign_and_set_header hmac (cd_secret h) b []) (Inr b) = Inr b"
proof (intro conjI)
  show "snd (cd_serve hmac git h r body fresh_writer) \<noteq> [] \<longleftrightarrow> (\<exists>b. body = Inr b \<and>
      hex_decode (trim_prefix (hdr_get ''x-hub-signature-256'' (hr_header r)) ''sha256='') = Some (hmac (cd_secret h) b))"
    using cd_serve_runs[of hmac git h r body fresh_writer] by (simp add: verified_iff)
  show "RunScript script \<in> set (snd (cd_serve hmac git h r body fresh_writer)) \<longleftrightarrow>
      script = cd_script h \<and> snd git = None \<and> \<not> str_contains (fst git) ''Already up to date.''
      \<and> (\<exists>b. verify_request hmac (cd_secret h) (hr_header r) body = Inr b)"
    by (auto simp: cd_serve_fresh split: sum.splits prod.splits option.splits)
  show "map_option wr_status (fst (cd_serve hmac git h r body fresh_writer)) = Some (Some 403) \<longleftrightarrow>
      snd (cd_serve hmac git h r body fresh_writer) = []"
    by (auto simp: cd_serve_fresh split: sum.splits prod.splits option.splits)
qed (rule signed_is_verified)

text \<open>The field for the secret is documented as required, but an empty one is accepted: its hashes need no knowledge.\<close>

lemma empty_secret_accepted:
  "rt_routes (github_continuous_deployment [] [] script as_handler rt) = rt_routes rt @ [(''POST'', ''/api/github-deploy'', as_handler (new_cd [] script))]"
  by (simp add: github_continuous_deployment_def coalesce_def default_github_cd_path_def)

text \<open>Addresses of servers are https unless the setting says http, and have no slash at their end that would double.\<close>

lemma server_base_url_cases:
  "has_prefix (server_base_url name) ''https://'' \<or> has_prefix name ''http://'' \<or> (\<exists>k. name = ''https://'' @ k \<and> set k \<subseteq> {CHR ''/''})"
proof (cases "has_prefix name ''https://''")
  case False
  then show ?thesis by (cases "has_prefix name ''http://''") (simp_all add: server_base_url_def)
next
  case True
  then obtain k where k: "name = ''https://'' @ k" by (auto simp: has_prefix_iff)
  show ?thesis
  proof (cases "set k \<subseteq> {CHR ''/''}")
    case False
    then have "dropWhile (\<lambda>x. x = CHR ''/'') (rev k) \<noteq> []" by (auto simp: dropWhile_eq_Nil_conv)
    then have "trim_right CHR ''/'' name = ''https://'' @ trim_right CHR ''/'' k"
      by (auto simp: k trim_right_def dropWhile_append)
    then have "server_base_url name = ''https://'' @ trim_right CHR ''/'' k" using True by (simp add: server_base_url_def)
    then show ?thesis by (metis has_prefix_append)
  qed (use k in auto)
qed

text \<open>
  Waiting for a server ends: with a second between attempts at most thirty of them fit, and the loop
  never starts an attempt after its time.
\<close>

lemma probe_loop_bounded:
  "int (length (fst (probe_loop net url timeout now n))) * go_second \<le> max 0 (timeout - now + go_second - 1)"
proof (induction net url timeout now n rule: probe_loop.induct)
  case (1 net url timeout now n)
  show ?case
  proof (cases "now < timeout \<and> nt_answer net n = None")
    case True
    then show ?thesis using "1.IH"[of "now + max 0 (nt_takes net n)"]
      by (subst probe_loop.simps) (auto simp: Let_def go_second_def algebra_simps split: prod.splits)
  next
    case False
    then show ?thesis by (subst probe_loop.simps) (auto simp: Let_def go_second_def split: option.splits)
  qed
qed

lemma upgrade_attempts: "int (length (fst (probe_loop net url (start + 30 * go_second) start n))) \<le> 30"
  using probe_loop_bounded[of net url "start + 30 * go_second" start n] by (simp add: go_second_def)

text \<open>The servers are asked one after the other, each at most once to update, in the order of the setting.\<close>

fun webhook_urls :: "cd_call list \<Rightarrow> string list" where
  "webhook_urls [] = []"
| "webhook_urls (Webhook u h b # cs) = u # webhook_urls cs"
| "webhook_urls (Probe u # cs) = webhook_urls cs"

lemma webhook_urls_append [simp]: "webhook_urls (cs @ cs') = webhook_urls cs @ webhook_urls cs'"
  by (induction cs rule: webhook_urls.induct) simp_all

lemma probe_loop_no_hook: "webhook_urls (fst (probe_loop net url timeout now n)) = []"
proof (induction net url timeout now n rule: probe_loop.induct)
  case (1 net url timeout now n)
  then show ?case by (subst probe_loop.simps) (auto simp: Let_def split: option.splits prod.splits)
qed

lemma probe_loop_no_hook': "probe_loop net url timeout now n = (cs, t, k) \<Longrightarrow> webhook_urls cs = []"
  using probe_loop_no_hook[of net url timeout now n] by simp

lemma upgrade_server_hooks: "webhook_urls (fst (upgrade_server hmac secret hook_path net body name now n)) =
  (if nt_valid net (server_base_url name @ hook_path) then [server_base_url name @ hook_path] else [])"
  by (auto simp: upgrade_server_def Let_def split: option.splits prod.splits dest: probe_loop_no_hook')

lemma upgrade_in_order: "webhook_urls (fst (perform_upgrade hmac secret hook_path net body names now n)) =
  filter (nt_valid net) (map (\<lambda>name. server_base_url name @ hook_path) names)"
proof (induction names arbitrary: now n)
  case (Cons name names)
  obtain cs t k where u: "upgrade_server hmac secret hook_path net body name now n = (cs, t, k)" by (metis prod.exhaust)
  have "webhook_urls cs = (if nt_valid net (server_base_url name @ hook_path) then [server_base_url name @ hook_path] else [])"
    using upgrade_server_hooks[of hmac secret hook_path net body name now n] u by simp
  then show ?case using Cons.IH[of t k] u by (auto split: prod.splits)
qed simp

end
