(* ===== verification/S3fs.thy ===== *)
theory S3fs
  imports Mail "HOL-Library.Multiset"
begin

text \<open>
  Package \<^verbatim>\<open>integrations/s3fs\<close>: uploads by up to four workers as a step relation, the requests of the other
  operations, links and names.  The client library of the service is an argument: it answers a request, or
  fails; that of the uploader is one outcome per item.
\<close>

section \<open>Preparing an upload\<close>

record ('b, 'h) upload_input =
  ui_file_name :: string
  ui_key :: string
  ui_body :: "'b option"
  ui_header :: "'h option"

text \<open>
  \<^verbatim>\<open>initialize\<close>: the error, the inputs, whose bodies are set in place, and the files that were opened.
\<close>

fun initialize_loop :: "('h \<Rightarrow> string + 'b) \<Rightarrow> ('b, 'h) upload_input list \<Rightarrow> string option \<times> ('b, 'h) upload_input list \<times> 'b list" where
  "initialize_loop op [] = (None, [], [])"
| "initialize_loop op (x # xs) =
     (if ui_body x = None \<and> ui_header x = None
      then (Some ''can't pass an upload with neither Body or FileHeader present'', x # xs, [])
      else if ui_body x \<noteq> None \<and> ui_header x \<noteq> None
      then (Some ''can't pass an upload with both Body and FileHeader present'', x # xs, [])
      else (case ui_header x of
              None \<Rightarrow> (case initialize_loop op xs of (e, ys, fs) \<Rightarrow> (e, x # ys, fs))
            | Some h \<Rightarrow>
                (case op h of
                   Inl err \<Rightarrow> (Some (''failed to open FileHeader for upload: '' @ err), x # xs, [])
                 | Inr f \<Rightarrow> (case initialize_loop op xs of (e, ys, fs) \<Rightarrow> (e, x\<lparr>ui_body := Some f\<rparr> # ys, f # fs)))))"

section \<open>Running it\<close>

text \<open>
  A worker waits for an item, uploads one, has an error to hand over, or is gone.  The caller hands out
  items, counts the workers that are done, or has returned.
\<close>

datatype up_worker = WIdle | WBusy nat | WFail nat | WGone
datatype up_main = MDispatch nat | MWait nat | MReturn bool

record up_state =
  us_main :: up_main
  us_workers :: "up_worker list"
  us_done :: nat
  us_closed :: bool
  us_cancelled :: bool
  us_parent :: bool
  us_uploaded :: "nat list"

definition up_init :: "nat \<Rightarrow> up_state" where
  "up_init n = \<lparr>us_main = MDispatch 0, us_workers = replicate (min n 4) WIdle, us_done = 0, us_closed = False,
     us_cancelled = False, us_parent = False, us_uploaded = []\<rparr>"

definition set_worker :: "nat \<Rightarrow> up_worker \<Rightarrow> up_state \<Rightarrow> up_state" where
  "set_worker w x s = s\<lparr>us_workers := (us_workers s)[w := x]\<rparr>"

text \<open>A worker that ends puts a value into the buffered channel.\<close>

definition worker_ends :: "nat \<Rightarrow> up_state \<Rightarrow> up_state" where
  "worker_ends w s = (set_worker w WGone s)\<lparr>us_done := us_done s + 1\<rparr>"

text \<open>Returning runs the deferred cancel.\<close>

definition up_return :: "bool \<Rightarrow> up_state \<Rightarrow> up_state" where
  "up_return ok s = s\<lparr>us_main := MReturn ok, us_cancelled := True\<rparr>"

inductive up_step :: "nat \<Rightarrow> up_state \<Rightarrow> up_state \<Rightarrow> bool" for n where
  hand: "us_main s = MDispatch k \<Longrightarrow> k < n \<Longrightarrow> w < length (us_workers s) \<Longrightarrow> us_workers s ! w = WIdle \<Longrightarrow>
    up_step n s ((set_worker w (WBusy k) s)\<lparr>us_main := MDispatch (k + 1)\<rparr>)"
| dispatch_cancelled: "us_main s = MDispatch k \<Longrightarrow> k < n \<Longrightarrow> us_cancelled s \<Longrightarrow> up_step n s (up_return False s)"
| dispatch_error: "us_main s = MDispatch k \<Longrightarrow> k < n \<Longrightarrow> w < length (us_workers s) \<Longrightarrow> us_workers s ! w = WFail i \<Longrightarrow>
    up_step n s (up_return False ((worker_ends w s)\<lparr>us_closed := True\<rparr>))"
| dispatched: "us_main s = MDispatch n \<Longrightarrow> up_step n s (s\<lparr>us_main := MWait 0, us_closed := True\<rparr>)"
| uploaded: "w < length (us_workers s) \<Longrightarrow> us_workers s ! w = WBusy i \<Longrightarrow>
    up_step n s ((set_worker w WIdle s)\<lparr>us_uploaded := us_uploaded s @ [i]\<rparr>)"
| upload_fails: "w < length (us_workers s) \<Longrightarrow> us_workers s ! w = WBusy i \<Longrightarrow> up_step n s (set_worker w (WFail i) s)"
| no_more_items: "w < length (us_workers s) \<Longrightarrow> us_workers s ! w = WIdle \<Longrightarrow> us_closed s \<Longrightarrow> up_step n s (worker_ends w s)"
| error_dropped: "w < length (us_workers s) \<Longrightarrow> us_workers s ! w = WFail i \<Longrightarrow> us_cancelled s \<Longrightarrow> up_step n s (worker_ends w s)"
| wait_done: "us_main s = MWait ct \<Longrightarrow> ct < length (us_workers s) \<Longrightarrow> 0 < us_done s \<Longrightarrow>
    up_step n s (s\<lparr>us_main := MWait (ct + 1), us_done := us_done s - 1\<rparr>)"
| wait_cancelled: "us_main s = MWait ct \<Longrightarrow> ct < length (us_workers s) \<Longrightarrow> us_cancelled s \<Longrightarrow> up_step n s (up_return False s)"
| wait_error: "us_main s = MWait ct \<Longrightarrow> ct < length (us_workers s) \<Longrightarrow> w < length (us_workers s) \<Longrightarrow> us_workers s ! w = WFail i \<Longrightarrow>
    up_step n s (up_return False (worker_ends w s))"
| finished: "us_main s = MWait (length (us_workers s)) \<Longrightarrow> up_step n s (up_return True s)"
| caller_cancels: "\<not> us_cancelled s \<Longrightarrow> up_step n s (s\<lparr>us_cancelled := True, us_parent := True\<rparr>)"

inductive up_reachable :: "nat \<Rightarrow> up_state \<Rightarrow> bool" for n where
  start: "up_reachable n (up_init n)"
| next_step: "up_reachable n s \<Longrightarrow> up_step n s s' \<Longrightarrow> up_reachable n s'"

text \<open>
  \<^verbatim>\<open>Upload\<close>: the files that were opened are closed when the run is over, and only then; \<open>run\<close> is the outcome
  of the run on the inputs.
\<close>

definition s3_upload :: "('h \<Rightarrow> string + 'b) \<Rightarrow> (('b, 'h) upload_input list \<Rightarrow> string option) \<Rightarrow> ('b, 'h) upload_input list
    \<Rightarrow> string option \<times> ('b, 'h) upload_input list \<times> 'b list \<times> 'b list" where
  "s3_upload op run inputs =
     (case initialize_loop op inputs of
        (Some e, ys, fs) \<Rightarrow> (Some e, ys, fs, [])
      | (None, ys, fs) \<Rightarrow> (run ys, ys, fs, fs))"

section \<open>Requests\<close>

record s3_config =
  s3_bucket :: string
  s3_region :: string
  s3_endpoint :: string

definition s3_init :: "bool \<Rightarrow> environ \<Rightarrow> s3_config setting" where
  "s3_init unit_test env =
     bind_setting (require_env unit_test env ''AWS_BUCKET'') (\<lambda>bucket.
       bind_setting (require_env unit_test env ''AWS_ENDPOINT'') (\<lambda>endpoint.
         bind_setting (require_env unit_test env ''AWS_REGION'') (\<lambda>region.
           bind_setting (require_env unit_test env ''AWS_ACCESS_KEY_ID'') (\<lambda>_.
             bind_setting (require_env unit_test env ''AWS_SECRET_ACCESS_KEY'') (\<lambda>_.
               Goes_on \<lparr>s3_bucket = bucket, s3_region = region, s3_endpoint = endpoint\<rparr> [])))))"

text \<open>The base address and the region that a session is opened with; opening it may fail.\<close>

definition sess_opt :: "s3_config \<Rightarrow> string \<times> string" where
  "sess_opt c = (''https://'' @ s3_endpoint c, s3_region c)"

datatype s3_request =
    PutObject string string string
  | GetObject string string
  | PresignGet string string string "string option" int
  | PresignPut string string int
  | DeleteObject string string
  | PutObjectAcl string string string
  | HeadObject string string
  | CopyObject string string string
  | PutLifecycle string "(string \<times> int) list"

type_synonym 'r s3_client = "string \<times> string \<Rightarrow> string + (s3_request \<Rightarrow> string + 'r)"

definition s3_call :: "'r s3_client \<Rightarrow> s3_config \<Rightarrow> s3_request \<Rightarrow> string + 'r" where
  "s3_call client c rq = (case client (sess_opt c) of Inl e \<Rightarrow> Inl e | Inr api \<Rightarrow> api rq)"

definition upload_request :: "s3_config \<Rightarrow> ('b, 'h) upload_input \<Rightarrow> s3_request" where
  "upload_request c x = PutObject (s3_bucket c) (ui_key x) (''attachment; filename='' @ ui_file_name x)"

definition s3_download :: "'r s3_client \<Rightarrow> s3_config \<Rightarrow> string \<Rightarrow> string + 'r" where
  "s3_download client c key = s3_call client c (GetObject (s3_bucket c) key)"

definition s3_download_to_writer :: "'r s3_client \<Rightarrow> s3_config \<Rightarrow> string \<Rightarrow> string + 'r" where
  "s3_download_to_writer client c key = s3_call client c (GetObject (s3_bucket c) key)"

definition sanitize_download_file_name :: "string \<Rightarrow> string" where
  "sanitize_download_file_name name = replace_all name '','' []"

definition download_link2 :: "(string \<Rightarrow> string) \<Rightarrow> 'r s3_client \<Rightarrow> s3_config \<Rightarrow> string \<Rightarrow> string \<Rightarrow> string \<Rightarrow> string + 'r" where
  "download_link2 mime_type client c key download_type name =
     (let t = mime_type (path_ext name)
      in s3_call client c (PresignGet (s3_bucket c) key (download_type @ ''; filename='' @ sanitize_download_file_name name)
           (if t = [] then None else Some t) (5 * go_minute)))"

definition download_link :: "(string \<Rightarrow> string) \<Rightarrow> 'r s3_client \<Rightarrow> s3_config \<Rightarrow> string \<Rightarrow> string \<Rightarrow> string \<Rightarrow> string + 'r" where
  "download_link mime_type client c key download_type name = download_link2 mime_type client c key download_type name"

definition upload_url3 :: "'r s3_client \<Rightarrow> s3_config \<Rightarrow> string \<Rightarrow> int \<Rightarrow> string + 'r" where
  "upload_url3 client c key expiry = s3_call client c (PresignPut (s3_bucket c) key expiry)"

definition upload_url2 :: "'r s3_client \<Rightarrow> s3_config \<Rightarrow> string \<Rightarrow> string + 'r" where
  "upload_url2 client c key = upload_url3 client c key (5 * go_minute)"

definition upload_url :: "'r s3_client \<Rightarrow> s3_config \<Rightarrow> string \<Rightarrow> string + 'r" where
  "upload_url client c key = upload_url2 client c key"

definition s3_remove2 :: "'r s3_client \<Rightarrow> s3_config \<Rightarrow> string \<Rightarrow> string + 'r" where
  "s3_remove2 client c key = s3_call client c (DeleteObject (s3_bucket c) key)"

definition s3_remove :: "'r s3_client \<Rightarrow> s3_config \<Rightarrow> string \<Rightarrow> string + 'r" where
  "s3_remove client c key = s3_remove2 client c key"

definition set_permission :: "'r s3_client \<Rightarrow> s3_config \<Rightarrow> string \<Rightarrow> string \<Rightarrow> string + 'r" where
  "set_permission client c key acl = s3_call client c (PutObjectAcl (s3_bucket c) key acl)"

definition get_info :: "'r s3_client \<Rightarrow> s3_config \<Rightarrow> string \<Rightarrow> string + 'r" where
  "get_info client c key = s3_call client c (HeadObject (s3_bucket c) key)"

definition trim_suffix :: "string \<Rightarrow> string \<Rightarrow> string" where
  "trim_suffix s p = (if has_suffix s p then take (length s - length p) s else s)"

definition join_slash :: "string \<Rightarrow> string \<Rightarrow> string" where
  "join_slash a b = trim_suffix a ''/'' @ ''/'' @ trim_suffix b ''/''"

definition s3_copy :: "'r s3_client \<Rightarrow> s3_config \<Rightarrow> string \<Rightarrow> string \<Rightarrow> string + 'r" where
  "s3_copy client c source_key target_key = s3_call client c (CopyObject (s3_bucket c) (join_slash (s3_bucket c) source_key) target_key)"

record life_cycle_rule =
  lc_prefix :: string
  lc_days :: int

definition i32 :: "int \<Rightarrow> int" where
  "i32 n = (n + 2 ^ 31) mod 2 ^ 32 - 2 ^ 31"

definition set_life_cycle_rules :: "'r s3_client \<Rightarrow> s3_config \<Rightarrow> life_cycle_rule list \<Rightarrow> string + 'r" where
  "set_life_cycle_rules client c rules =
     s3_call client c (PutLifecycle (s3_bucket c) (map (\<lambda>r. (lc_prefix r, i32 (lc_days r))) rules))"


section \<open>Facts on runs\<close>

text \<open>The item a worker has, and all items that are uploaded, under way or still to be handed out.\<close>

fun worker_items :: "up_worker \<Rightarrow> nat multiset" where
  "worker_items (WBusy i) = {#i#}"
| "worker_items (WFail i) = {#i#}"
| "worker_items _ = {#}"

fun left_items :: "nat \<Rightarrow> up_main \<Rightarrow> nat multiset" where
  "left_items n (MDispatch k) = mset [k..<n]"
| "left_items n _ = {#}"

definition all_items :: "nat \<Rightarrow> up_state \<Rightarrow> nat multiset" where
  "all_items n s = mset (us_uploaded s) + sum_list (map worker_items (us_workers s)) + left_items n (us_main s)"

definition gone :: "up_state \<Rightarrow> nat" where
  "gone s = length (filter (\<lambda>x. x = WGone) (us_workers s))"

definition up_ok :: "nat \<Rightarrow> up_state \<Rightarrow> bool" where
  "up_ok n s \<longleftrightarrow>
     all_items n s \<subseteq># mset [0..<n]
     \<and> (\<not> us_parent s \<and> us_main s \<noteq> MReturn False \<longrightarrow> all_items n s = mset [0..<n])
     \<and> (\<not> us_parent s \<and> (\<forall>b. us_main s \<noteq> MReturn b) \<longrightarrow> \<not> us_cancelled s)
     \<and> (case us_main s of
          MDispatch k \<Rightarrow> k \<le> n \<and> \<not> us_closed s \<and> us_done s = gone s \<and> (0 < gone s \<longrightarrow> us_cancelled s)
        | MWait ct \<Rightarrow> us_closed s \<and> us_done s + ct = gone s
        | MReturn b \<Rightarrow> us_cancelled s \<and> (b \<longrightarrow> gone s = length (us_workers s)))
     \<and> (0 < n \<longrightarrow> us_workers s \<noteq> [])"

lemma up_simps [simp]:
  "us_main (set_worker w x s) = us_main s" "us_workers (set_worker w x s) = (us_workers s)[w := x]"
  "us_done (set_worker w x s) = us_done s" "us_closed (set_worker w x s) = us_closed s"
  "us_cancelled (set_worker w x s) = us_cancelled s" "us_parent (set_worker w x s) = us_parent s"
  "us_uploaded (set_worker w x s) = us_uploaded s"
  "us_main (worker_ends w s) = us_main s" "us_workers (worker_ends w s) = (us_workers s)[w := WGone]"
  "us_done (worker_ends w s) = us_done s + 1" "us_closed (worker_ends w s) = us_closed s"
  "us_cancelled (worker_ends w s) = us_cancelled s" "us_parent (worker_ends w s) = us_parent s"
  "us_uploaded (worker_ends w s) = us_uploaded s"
  "us_main (up_return b s) = MReturn b" "us_workers (up_return b s) = us_workers s"
  "us_done (up_return b s) = us_done s" "us_closed (up_return b s) = us_closed s"
  "us_cancelled (up_return b s) = True" "us_parent (up_return b s) = us_parent s"
  "us_uploaded (up_return b s) = us_uploaded s"
  by (simp_all add: set_worker_def worker_ends_def up_return_def)

text \<open>One worker changes: what happens to a sum over all of them.\<close>

lemma sum_list_set_worker:
  fixes f :: "up_worker \<Rightarrow> 'a :: cancel_comm_monoid_add"
  shows "w < length xs \<Longrightarrow> sum_list (map f (xs[w := x])) + f (xs ! w) = sum_list (map f xs) + f x"
proof (induction xs arbitrary: w)
  case (Cons y ys)
  then show ?case by (cases w) (auto simp: ac_simps)
qed simp

lemma gone_set: "w < length (us_workers s) \<Longrightarrow> us_workers s ! w \<noteq> WGone \<Longrightarrow>
  length (filter (\<lambda>x. x = WGone) ((us_workers s)[w := y])) = gone s + (if y = WGone then 1 else 0)"
  using sum_list_set_worker[of w "us_workers s" "\<lambda>x. if x = WGone then 1 else (0::nat)" y]
  by (simp add: gone_def sum_list_map_filter'[symmetric] sum_list_triv)

lemma all_items_set:
  "w < length (us_workers s) \<Longrightarrow>
    sum_list (map worker_items ((us_workers s)[w := x])) + worker_items (us_workers s ! w) = sum_list (map worker_items (us_workers s)) + worker_items x"
  by (rule sum_list_set_worker)

lemma rest_items: "k < n \<Longrightarrow> mset [k..<n] = add_mset k (mset [Suc k..<n])"
  by (simp add: upt_conv_Cons)

lemma gone_all: "gone s = length (us_workers s) \<Longrightarrow> x \<in> set (us_workers s) \<Longrightarrow> x = WGone"
  using length_filter_less[of x "us_workers s" "\<lambda>x. x = WGone"] unfolding gone_def by fastforce

lemma gone_le: "gone s \<le> length (us_workers s)"
  by (simp add: gone_def)

lemma no_items: "(\<And>x. x \<in> set xs \<Longrightarrow> x = WGone) \<Longrightarrow> sum_list (map worker_items xs) = {#}"
  by (induction xs) (simp, metis list.set_intros list.simps(9) sum_list.Cons worker_items.simps(4) add_0)

text \<open>A worker moves between states with the same items, or its item is uploaded or dropped.\<close>

lemma all_items_worker:
  assumes "w < length (us_workers s)" "us_workers s' = (us_workers s)[w := x]" "us_main s' = us_main s"
    and "mset (us_uploaded s') + worker_items x + d = mset (us_uploaded s) + worker_items (us_workers s ! w)"
  shows "all_items n s' + d = all_items n s"
proof -
  let ?S = "\<lambda>xs. sum_list (map worker_items xs)"
  have eq: "?S (us_workers s') + worker_items (us_workers s ! w) = ?S (us_workers s) + worker_items x"
    using all_items_set[OF assms(1)] assms(2) by simp
  have "(all_items n s' + d) + worker_items (us_workers s ! w)
      = (?S (us_workers s') + worker_items (us_workers s ! w)) + (mset (us_uploaded s') + d) + left_items n (us_main s)"
    by (simp add: all_items_def assms(3))
  also have "\<dots> = ?S (us_workers s) + (mset (us_uploaded s') + worker_items x + d) + left_items n (us_main s)"
    unfolding eq by simp
  also have "\<dots> = all_items n s + worker_items (us_workers s ! w)"
    unfolding assms(4) by (simp add: all_items_def)
  finally show ?thesis by simp
qed

lemma idle_items: "sum_list (map worker_items (replicate k WIdle)) = {#}"
  by (induction k) simp_all

lemma up_ok_init: "up_ok n (up_init n)"
  using idle_items[of "min n 4"] by (simp add: up_ok_def up_init_def all_items_def gone_def del: map_replicate)

lemma subset_drop: "(a :: nat multiset) + d = b \<Longrightarrow> b \<subseteq># c \<Longrightarrow> a \<subseteq># c"
  by (metis mset_subset_eq_add_left subset_mset.order_trans)

lemma error_return_ok:
  assumes "up_ok n s" "all_items n (up_return False s') + d = all_items n s" "length (us_workers s') = length (us_workers s)"
  shows "up_ok n (up_return False s')"
  using assms(1,3) subset_drop[OF assms(2)] by (simp add: up_ok_def ex_bool_eq flip: length_greater_0_conv)

lemma up_ok_step: "up_step n s s' \<Longrightarrow> up_ok n s \<Longrightarrow> up_ok n s'"
proof (induction rule: up_step.induct)
  case (hand s k w)
  let ?s = "(set_worker w (WBusy k) s)\<lparr>us_main := MDispatch (k + 1)\<rparr>"
  have "all_items n ?s = all_items n s"
    using all_items_set[OF hand.hyps(3), of "WBusy k"] hand.hyps by (simp add: all_items_def rest_items del: mset_upt)
  moreover have "gone ?s = gone s" using gone_set[OF hand.hyps(3), of "WBusy k"] hand.hyps(4) by (simp add: gone_def)
  ultimately show ?case using hand by (simp add: up_ok_def)
next
  case (dispatch_cancelled s k)
  have "all_items n (up_return False s) + mset [k..<n] = all_items n s" using dispatch_cancelled.hyps by (simp add: all_items_def)
  then show ?case by (rule error_return_ok[OF dispatch_cancelled.prems]) simp
next
  case (dispatch_error s k w i)
  have "all_items n (up_return False ((worker_ends w s)\<lparr>us_closed := True\<rparr>)) + (mset [k..<n] + {#i#}) = all_items n s"
    using all_items_set[OF dispatch_error.hyps(3), of WGone] dispatch_error.hyps by (simp add: all_items_def)
  then show ?case by (rule error_return_ok[OF dispatch_error.prems]) simp
next
  case (dispatched s)
  have "all_items n (s\<lparr>us_main := MWait 0, us_closed := True\<rparr>) = all_items n s"
    using dispatched.hyps by (simp add: all_items_def)
  moreover have "gone (s\<lparr>us_main := MWait 0, us_closed := True\<rparr>) = gone s" by (simp add: gone_def)
  ultimately show ?case using dispatched by (simp add: up_ok_def)
next
  case (uploaded w s i)
  let ?s = "(set_worker w WIdle s)\<lparr>us_uploaded := us_uploaded s @ [i]\<rparr>"
  have "all_items n ?s + {#} = all_items n s"
    by (rule all_items_worker[OF uploaded.hyps(1), of _ WIdle]) (simp_all add: uploaded.hyps)
  moreover have "gone ?s = gone s" using gone_set[OF uploaded.hyps(1), of WIdle] uploaded.hyps(2) by (simp add: gone_def)
  ultimately show ?case using uploaded by (simp add: up_ok_def split: up_main.splits)
next
  case (upload_fails w s i)
  have "all_items n (set_worker w (WFail i) s) + {#} = all_items n s"
    by (rule all_items_worker[OF upload_fails.hyps(1), of _ "WFail i"]) (simp_all add: upload_fails.hyps)
  moreover have "gone (set_worker w (WFail i) s) = gone s"
    using gone_set[OF upload_fails.hyps(1), of "WFail i"] upload_fails.hyps(2) by (simp add: gone_def)
  ultimately show ?case using upload_fails by (simp add: up_ok_def split: up_main.splits)
next
  case (no_more_items w s)
  have "all_items n (worker_ends w s) + {#} = all_items n s"
    by (rule all_items_worker[OF no_more_items.hyps(1), of _ WGone]) (simp_all add: no_more_items.hyps)
  moreover have "gone (worker_ends w s) = gone s + 1"
    using gone_set[OF no_more_items.hyps(1), of WGone] no_more_items.hyps(2) by (simp add: gone_def)
  moreover have "gone s < length (us_workers s)"
    using gone_all[of s WIdle] gone_le[of s] no_more_items.hyps(1,2) nth_mem by (metis nat_less_le up_worker.distinct(5))
  ultimately show ?case using no_more_items by (auto simp: up_ok_def split: up_main.splits)
next
  case (error_dropped w s i)
  have e: "all_items n (worker_ends w s) + {#i#} = all_items n s"
    by (rule all_items_worker[OF error_dropped.hyps(1), of _ WGone]) (simp_all add: error_dropped.hyps)
  have g: "gone (worker_ends w s) = gone s + 1"
    using gone_set[OF error_dropped.hyps(1), of WGone] error_dropped.hyps(2) by (simp add: gone_def)
  have l: "gone s < length (us_workers s)"
    using gone_all[of s "WFail i"] gone_le[of s] error_dropped.hyps(1,2) nth_mem by (metis nat_less_le up_worker.distinct(11))
  have "all_items n (worker_ends w s) \<subseteq># mset [0..<n]" using subset_drop[OF e] error_dropped.prems by (simp add: up_ok_def)
  moreover have "us_parent s \<or> (\<exists>b. us_main s = MReturn b)" using error_dropped by (auto simp: up_ok_def)
  ultimately show ?case using error_dropped g l by (auto simp: up_ok_def split: up_main.splits)
next
  case (wait_done s ct)
  let ?s = "s\<lparr>us_main := MWait (ct + 1), us_done := us_done s - 1\<rparr>"
  have "all_items n ?s = all_items n s" "gone ?s = gone s" using wait_done.hyps by (simp_all add: all_items_def gone_def)
  then show ?case using wait_done by (simp add: up_ok_def)
next
  case (wait_cancelled s ct)
  have "all_items n (up_return False s) + {#} = all_items n s" using wait_cancelled.hyps by (simp add: all_items_def)
  then show ?case by (rule error_return_ok[OF wait_cancelled.prems]) simp
next
  case (wait_error s ct w i)
  have "all_items n (up_return False (worker_ends w s)) + {#i#} = all_items n s"
    using all_items_set[OF wait_error.hyps(3), of WGone] wait_error.hyps by (simp add: all_items_def)
  then show ?case by (rule error_return_ok[OF wait_error.prems]) simp
next
  case (finished s)
  have "all_items n (up_return True s) = all_items n s" "gone (up_return True s) = gone s"
    using finished.hyps by (simp_all add: all_items_def gone_def)
  moreover have "gone s = length (us_workers s)" using finished gone_le[of s] by (simp add: up_ok_def)
  ultimately show ?case using finished by (simp add: up_ok_def ex_bool_eq)
next
  case (caller_cancels s)
  let ?s = "s\<lparr>us_cancelled := True, us_parent := True\<rparr>"
  have "all_items n ?s = all_items n s" "gone ?s = gone s" by (simp_all add: all_items_def gone_def)
  then show ?case using caller_cancels by (auto simp: up_ok_def split: up_main.splits)
qed

lemma up_reachable_ok: "up_reachable n s \<Longrightarrow> up_ok n s"
  by (induction rule: up_reachable.induct) (auto intro: up_ok_init up_ok_step)

text \<open>
  Every step brings a run closer to its end: items are handed out, workers go from busy to idle or to
  an error and end, and the caller's counting advances.
\<close>

fun worker_rank :: "up_worker \<Rightarrow> nat" where
  "worker_rank WIdle = 1"
| "worker_rank (WBusy i) = 3"
| "worker_rank (WFail i) = 2"
| "worker_rank WGone = 0"

fun main_rank :: "nat \<Rightarrow> nat \<Rightarrow> up_main \<Rightarrow> nat" where
  "main_rank n k (MDispatch i) = 3 * (n - i) + k + 2"
| "main_rank n k (MWait ct) = k - ct + 1"
| "main_rank n k (MReturn b) = 0"

definition up_rank :: "nat \<Rightarrow> up_state \<Rightarrow> nat" where
  "up_rank n s = sum_list (map worker_rank (us_workers s)) + main_rank n (length (us_workers s)) (us_main s)
     + (if us_cancelled s then 0 else 1)"

lemma rank_set: "w < length (us_workers s) \<Longrightarrow>
  sum_list (map worker_rank ((us_workers s)[w := x])) + worker_rank (us_workers s ! w) = sum_list (map worker_rank (us_workers s)) + worker_rank x"
  by (rule sum_list_set_worker)

lemma up_rank_less: "up_step n s s' \<Longrightarrow> up_rank n s' < up_rank n s"
proof (induction rule: up_step.induct)
  case (hand s k w)
  then show ?case using rank_set[OF hand.hyps(3), of "WBusy k"] by (simp add: up_rank_def)
next
  case (dispatch_error s k w i)
  then show ?case using rank_set[OF dispatch_error.hyps(3), of WGone] by (simp add: up_rank_def)
next
  case (uploaded w s i)
  then show ?case using rank_set[OF uploaded.hyps(1), of WIdle] by (simp add: up_rank_def)
next
  case (upload_fails w s i)
  then show ?case using rank_set[OF upload_fails.hyps(1), of "WFail i"] by (simp add: up_rank_def)
next
  case (no_more_items w s)
  then show ?case using rank_set[OF no_more_items.hyps(1), of WGone] by (simp add: up_rank_def)
next
  case (error_dropped w s i)
  then show ?case using rank_set[OF error_dropped.hyps(1), of WGone] by (simp add: up_rank_def)
next
  case (wait_error s ct w i)
  then show ?case using rank_set[OF wait_error.hyps(3), of WGone] by (simp add: up_rank_def)
qed (simp_all add: up_rank_def)

text \<open>A call that has not returned can always go on: with a busy worker, while it hands out, and while it waits.\<close>

lemma up_progress_dispatch:
  assumes ok: "up_ok n s" and m: "us_main s = MDispatch k"
    and nobusy: "\<forall>w<length (us_workers s). \<forall>i. us_workers s ! w \<noteq> WBusy i"
  shows "\<exists>s'. up_step n s s'"
proof (cases "k = n")
  case True
  then show ?thesis using up_step.dispatched m by blast
next
  case False
  then have k: "k < n" using ok m by (simp add: up_ok_def)
  then have w: "0 < length (us_workers s)" using ok by (simp add: up_ok_def)
  show ?thesis
  proof (cases "us_workers s ! 0")
    case WIdle
    then show ?thesis using up_step.hand[OF m k w] by blast
  next
    case (WBusy i)
    then show ?thesis using nobusy w by blast
  next
    case (WFail i)
    then show ?thesis using up_step.dispatch_error[OF m k w] by blast
  next
    case WGone
    then have "WGone \<in> set (us_workers s)" using w nth_mem by metis
    then have "0 < gone s" by (auto simp: gone_def filter_empty_conv)
    then have "us_cancelled s" using ok m by (simp add: up_ok_def)
    then show ?thesis using up_step.dispatch_cancelled[OF m k] by blast
  qed
qed

text \<open>As long as not all workers are gone, one is left that can do something.\<close>

lemma worker_left:
  assumes "gone s < length (us_workers s)"
  obtains w where "w < length (us_workers s)" "us_workers s ! w \<noteq> WGone"
proof -
  have "gone s = length (us_workers s)" if "\<forall>x\<in>set (us_workers s). x = WGone"
    unfolding gone_def filter_True[OF that] by (rule refl)
  then have "\<not> (\<forall>x\<in>set (us_workers s). x = WGone)" using assms by auto
  then show ?thesis using that by (metis in_set_conv_nth)
qed

lemma up_progress_wait:
  assumes ok: "up_ok n s" and m: "us_main s = MWait ct"
    and nobusy: "\<forall>w<length (us_workers s). \<forall>i. us_workers s ! w \<noteq> WBusy i"
  shows "\<exists>s'. up_step n s s'"
proof -
  have c: "us_closed s" "us_done s + ct = gone s" using ok m by (simp_all add: up_ok_def)
  consider "ct = length (us_workers s)" | "ct < length (us_workers s)" "0 < us_done s" | "gone s = ct" "ct < length (us_workers s)"
    using c(2) gone_le[of s] by linarith
  then show ?thesis
  proof cases
    case 1
    then show ?thesis using up_step.finished[of s n] m by blast
  next
    case 2
    then show ?thesis using up_step.wait_done[OF m] by blast
  next
    case 3
    then obtain w where w: "w < length (us_workers s)" "us_workers s ! w \<noteq> WGone" using worker_left[of s] by auto
    show ?thesis
    proof (cases "us_workers s ! w")
      case WIdle
      then show ?thesis using up_step.no_more_items[OF w(1) _ c(1)] by blast
    next
      case (WBusy i)
      then show ?thesis using nobusy w(1) by blast
    next
      case (WFail i)
      then show ?thesis using up_step.wait_error[OF m 3(2) w(1)] by blast
    qed (use w(2) in simp)
  qed
qed

lemma up_progress:
  assumes ok: "up_ok n s" and run: "\<forall>b. us_main s \<noteq> MReturn b"
  shows "\<exists>s'. up_step n s s'"
proof (cases "\<exists>w<length (us_workers s). \<exists>i. us_workers s ! w = WBusy i")
  case True
  then show ?thesis using up_step.uploaded by blast
next
  case False
  then have nobusy: "\<forall>w<length (us_workers s). \<forall>i. us_workers s ! w \<noteq> WBusy i" by blast
  show ?thesis using run up_progress_dispatch[OF ok _ nobusy] up_progress_wait[OF ok _ nobusy] by (cases "us_main s") auto
qed

lemma up_returns: "up_reachable n s \<Longrightarrow> \<exists>s' b. (up_step n)\<^sup>*\<^sup>* s s' \<and> us_main s' = MReturn b"
proof (induction "up_rank n s" arbitrary: s rule: less_induct)
  case less
  show ?case
  proof (cases "\<exists>b. us_main s = MReturn b")
    case False
    then obtain s' where s': "up_step n s s'" using up_progress[OF up_reachable_ok[OF less.prems]] by blast
    then have "up_reachable n s'" using up_reachable.next_step[OF less.prems] by blast
    then obtain s'' b where "(up_step n)\<^sup>*\<^sup>* s' s''" "us_main s'' = MReturn b" using less.hyps[OF up_rank_less[OF s']] by blast
    then show ?thesis using s' by (meson converse_rtranclp_into_rtranclp)
  qed blast
qed

text \<open>
  C27: Uploads.  However the workers and the caller interleave, no item is uploaded twice; when a run whose
  context was not cancelled reports success, every item has been uploaded exactly once and every worker
  has ended; and a run never hangs: no more steps than its rank are possible, and the only states without a
  step have returned.
\<close>
theorem upload_complete:
  assumes "up_reachable n s"
  shows "mset (us_uploaded s) \<subseteq># mset [0..<n]
    \<and> (us_main s = MReturn True \<and> \<not> us_parent s \<longrightarrow> mset (us_uploaded s) = mset [0..<n])
    \<and> (us_main s = MReturn True \<longrightarrow> (\<forall>x\<in>set (us_workers s). x = WGone))
    \<and> ((\<forall>s'. \<not> up_step n s s') \<longrightarrow> (\<exists>b. us_main s = MReturn b))
    \<and> (\<forall>s'. up_step n s s' \<longrightarrow> up_rank n s' < up_rank n s)"
proof -
  have ok: "up_ok n s" using up_reachable_ok[OF assms] .
  have "mset (us_uploaded s) \<subseteq># all_items n s" by (simp add: all_items_def)
  then have once: "mset (us_uploaded s) \<subseteq># mset [0..<n]" using ok by (meson up_ok_def subset_mset.order_trans)
  have gone: "us_main s = MReturn True \<Longrightarrow> gone s = length (us_workers s)" using ok by (simp add: up_ok_def)
  have all: "mset (us_uploaded s) = mset [0..<n]" if m: "us_main s = MReturn True" "\<not> us_parent s"
  proof -
    have "all_items n s = mset [0..<n]" using ok m by (simp add: up_ok_def)
    then show ?thesis using no_items[of "us_workers s"] gone_all[OF gone[OF m(1)]] m(1) by (simp add: all_items_def)
  qed
  show ?thesis
    using once gone_all[OF gone] all up_progress[OF ok] up_rank_less by blast
qed

text \<open>A run: the only item is uploaded, the worker ends, and the caller returns.\<close>

definition sample_end :: up_state where
  "sample_end = \<lparr>us_main = MReturn True, us_workers = [WGone], us_done = 0, us_closed = True, us_cancelled = True,
     us_parent = False, us_uploaded = [0]\<rparr>"

lemmas up_defs = up_init_def set_worker_def worker_ends_def up_return_def

lemma sample_end_reachable: "up_reachable 1 sample_end"
proof -
  let ?s1 = "(set_worker 0 (WBusy 0) (up_init 1))\<lparr>us_main := MDispatch 1\<rparr>"
  let ?s2 = "(set_worker 0 WIdle ?s1)\<lparr>us_uploaded := [0]\<rparr>"
  let ?s3 = "?s2\<lparr>us_main := MWait 0, us_closed := True\<rparr>"
  let ?s4 = "worker_ends 0 ?s3"
  let ?s5 = "?s4\<lparr>us_main := MWait 1, us_done := 0\<rparr>"
  have r1: "up_reachable 1 ?s1"
    using up_step.hand[of "up_init 1" 0 1 0] by (intro up_reachable.next_step[OF up_reachable.start]) (simp add: up_defs)
  have r2: "up_reachable 1 ?s2"
    using up_step.uploaded[of 0 ?s1 0 1] by (intro up_reachable.next_step[OF r1]) (simp add: up_defs)
  have r3: "up_reachable 1 ?s3"
    using up_step.dispatched[of ?s2 1] by (intro up_reachable.next_step[OF r2]) (simp add: up_defs)
  have r4: "up_reachable 1 ?s4"
    using up_step.no_more_items[of 0 ?s3 1] by (intro up_reachable.next_step[OF r3]) (simp add: up_defs)
  have r5: "up_reachable 1 ?s5"
    using up_step.wait_done[of ?s4 0 1] by (intro up_reachable.next_step[OF r4]) (simp add: up_defs)
  have "up_step 1 ?s5 sample_end"
    using up_step.finished[of ?s5 1] by (simp add: up_defs sample_end_def)
  then show ?thesis by (rule up_reachable.next_step[OF r5])
qed

lemma upload_complete_witness: "mset (us_uploaded sample_end) = mset [0..<1]"
proof -
  have "us_main sample_end = MReturn True" "\<not> us_parent sample_end" by (simp_all add: sample_end_def)
  then show ?thesis using upload_complete[OF sample_end_reachable] by blast
qed

text \<open>
  When the caller's context is cancelled while the workers are waited for, an upload that fails because of it may
  take the way of the cancelled context too; then all workers are counted as done and success is reported
  although the item was not uploaded.
\<close>

lemma upload_lost_when_cancelled:
  "\<exists>s. up_reachable 1 s \<and> us_main s = MReturn True \<and> us_uploaded s = []"
proof -
  let ?s1 = "(set_worker 0 (WBusy 0) (up_init 1))\<lparr>us_main := MDispatch 1\<rparr>"
  let ?s2 = "?s1\<lparr>us_main := MWait 0, us_closed := True\<rparr>"
  let ?s3 = "?s2\<lparr>us_cancelled := True, us_parent := True\<rparr>"
  let ?s4 = "set_worker 0 (WFail 0) ?s3"
  let ?s5 = "worker_ends 0 ?s4"
  let ?s6 = "?s5\<lparr>us_main := MWait 1, us_done := 0\<rparr>"
  have r1: "up_reachable 1 ?s1"
    using up_step.hand[of "up_init 1" 0 1 0] by (intro up_reachable.next_step[OF up_reachable.start]) (simp add: up_defs)
  have r2: "up_reachable 1 ?s2"
    using up_step.dispatched[of ?s1 1] by (intro up_reachable.next_step[OF r1]) (simp add: up_defs)
  have r3: "up_reachable 1 ?s3"
    using up_step.caller_cancels[of ?s2 1] by (intro up_reachable.next_step[OF r2]) (simp add: up_defs)
  have r4: "up_reachable 1 ?s4"
    using up_step.upload_fails[of 0 ?s3 0 1] by (intro up_reachable.next_step[OF r3]) (simp add: up_defs)
  have r5: "up_reachable 1 ?s5"
    using up_step.error_dropped[of 0 ?s4 0 1] by (intro up_reachable.next_step[OF r4]) (simp add: up_defs)
  have r6: "up_reachable 1 ?s6"
    using up_step.wait_done[of ?s5 0 1] by (intro up_reachable.next_step[OF r5]) (simp add: up_defs)
  have "up_reachable 1 (up_return True ?s6)"
    using up_step.finished[of ?s6 1] by (intro up_reachable.next_step[OF r6]) (simp add: up_defs)
  then show ?thesis by (intro exI[of _ "up_return True ?s6"]) (simp add: up_defs)
qed

text \<open>
  When the context is cancelled while items are handed out, the channel of items is never closed: a worker that
  waits for one waits for ever.
\<close>

lemma idle_worker_leaks:
  assumes "(up_step n)\<^sup>*\<^sup>* s s'" "us_main s = MReturn b" "\<not> us_closed s" "w < length (us_workers s)" "us_workers s ! w = WIdle"
  shows "us_workers s' ! w = WIdle"
proof -
  have "us_main s' = MReturn b \<and> \<not> us_closed s' \<and> w < length (us_workers s') \<and> us_workers s' ! w = WIdle"
    using assms(1)
  proof (induction rule: rtranclp_induct)
    case (step s1 s2)
    have "us_main s2 = MReturn b" "\<not> us_closed s2" "length (us_workers s2) = length (us_workers s1)"
      using step.hyps(2) step.IH by (auto elim!: up_step.cases)
    moreover have "us_workers s2 ! w = WIdle"
      using step.hyps(2) step.IH by (cases rule: up_step.cases) (auto simp: nth_list_update)
    ultimately show ?case using step.IH by simp
  qed (use assms in simp)
  then show ?thesis by simp
qed

lemma leak_reachable: "\<exists>s. up_reachable 1 s \<and> us_main s = MReturn False \<and> \<not> us_closed s \<and> us_workers s = [WIdle]"
proof -
  let ?s1 = "(up_init 1)\<lparr>us_cancelled := True, us_parent := True\<rparr>"
  have r1: "up_reachable 1 ?s1"
    using up_step.caller_cancels[of "up_init 1" 1] by (intro up_reachable.next_step[OF up_reachable.start]) (simp add: up_defs)
  have "up_step 1 ?s1 (up_return False ?s1)"
    by (rule up_step.dispatch_cancelled[of _ 0]) (simp_all add: up_init_def)
  then have "up_reachable 1 (up_return False ?s1)" by (rule up_reachable.next_step[OF r1])
  then show ?thesis by (intro exI[of _ "up_return False ?s1"]) (simp add: up_defs)
qed


section \<open>Facts on files and names\<close>

text \<open>When preparing fails, the files that were opened for earlier inputs stay open.\<close>

lemma initialize_error_leaks:
  assumes "op h = Inr f"
  shows "s3_upload op run [\<lparr>ui_file_name = a, ui_key = k, ui_body = None, ui_header = Some h\<rparr>, \<lparr>ui_file_name = a', ui_key = k', ui_body = None, ui_header = None\<rparr>]
    = (Some ''can't pass an upload with neither Body or FileHeader present'',
       [\<lparr>ui_file_name = a, ui_key = k, ui_body = Some f, ui_header = Some h\<rparr>, \<lparr>ui_file_name = a', ui_key = k', ui_body = None, ui_header = None\<rparr>], [f], [])"
  using assms by (simp add: s3_upload_def)

text \<open>Otherwise all of them are closed.\<close>

lemma upload_closes: "s3_upload op run xs = (e, ys, fs, closed) \<Longrightarrow> fst (initialize_loop op xs) = None \<Longrightarrow> closed = fs"
  by (auto simp: s3_upload_def split: prod.splits option.splits)

text \<open>The inputs are changed: uploading the same ones again, for example after an error, is refused.\<close>

lemma upload_twice_refused:
  assumes "initialize_loop op xs = (None, ys, fs)" "x \<in> set xs" "ui_header x \<noteq> None"
  shows "fst (s3_upload op run ys) = Some ''can't pass an upload with both Body and FileHeader present''"
proof -
  have "initialize_loop op xs = (None, ys, fs) \<Longrightarrow> \<exists>x\<in>set xs. ui_header x \<noteq> None \<Longrightarrow>
      fst (initialize_loop op ys) = Some ''can't pass an upload with both Body and FileHeader present''" for xs ys fs
  proof (induction xs arbitrary: ys fs)
    case (Cons z zs)
    then show ?case by (cases "ui_header z") (auto split: if_splits sum.splits prod.splits)
  qed simp
  then have "fst (initialize_loop op ys) = Some ''can't pass an upload with both Body and FileHeader present''"
    using assms by blast
  then show ?thesis by (auto simp: s3_upload_def split: prod.splits option.splits)
qed

text \<open>A file name is not quoted: it can bring parameters of its own into the header of the download.\<close>

lemma name_adds_parameter:
  "upload_request c x = PutObject (s3_bucket c) (ui_key x) ''attachment; filename=a; filename*=UTF-8b''"
  if "ui_file_name x = ''a; filename*=UTF-8b''"
  using that by (simp add: upload_request_def)

text \<open>A key that ends with a slash is copied from another key.\<close>

lemma copy_loses_slash: "join_slash ''bucket'' ''dir/'' = join_slash ''bucket'' ''dir''"
  by (simp add: join_slash_def trim_suffix_def has_suffix_def)

end
