(* ===== verification/PdfPrinter.thy ===== *)
theory PdfPrinter
  imports SsrfProxy GoUrl Slots
begin

text \<open>
  Package \<^verbatim>\<open>pdfprinter/pdfprinter2\<close> (\<^verbatim>\<open>playwright.go\<close>): the guard on the addresses a page may ask for, the
  steps of one print, and the life of the shared browser, where print calls, the manager of slots and the
  lock interleave in a step relation.  The browser library is a set of outcomes.
\<close>

section \<open>The guard\<close>

text \<open>\<open>resolve\<close> is the system's resolver, with its error.\<close>

definition host_resolves_to_blocked :: "bool \<Rightarrow> (string \<Rightarrow> string + ip list) \<Rightarrow> string \<Rightarrow> bool" where
  "host_resolves_to_blocked testing resolve host =
     (case parse_ip host of
        Some a \<Rightarrow> is_blocked_ip testing (Some a)
      | None \<Rightarrow>
          (case resolve host of
             Inl err \<Rightarrow> True
           | Inr ips \<Rightarrow> list_ex (\<lambda>a. is_blocked_ip testing (Some a)) ips))"

definition default_allow_request :: "bool \<Rightarrow> (string \<Rightarrow> string + ip list) \<Rightarrow> string \<Rightarrow> bool" where
  "default_allow_request testing resolve raw =
     (case url_parse raw of
        None \<Rightarrow> False
      | Some (scheme, hostport) \<Rightarrow>
          (let s = map lower_char scheme
           in if s \<in> set [''data'', ''blob'', ''about''] then True
              else if s \<in> set [''http'', ''https'']
              then (let host = url_hostname hostport in if host = [] then False else \<not> host_resolves_to_blocked testing resolve host)
              else False))"

datatype route_verdict = RouteContinue | RouteAbort

definition network_guard :: "bool \<Rightarrow> (string \<Rightarrow> string + ip list) \<Rightarrow> (string \<Rightarrow> bool) option \<Rightarrow> string \<Rightarrow> route_verdict" where
  "network_guard testing resolve allow raw =
     (let f = (case allow of None \<Rightarrow> default_allow_request testing resolve | Some g \<Rightarrow> g)
      in if f raw then RouteContinue else RouteAbort)"

section \<open>One print\<close>

record print_input =
  pi_html :: string
  pi_on_setup :: bool
  pi_on_render :: "(string + string) option"
  pi_allow :: "(string \<Rightarrow> bool) option"

text \<open>
  The outcomes: acquiring a browser context, installing the guard, the error of the context at each of
  the four places where it is looked at, creating the page, setting its content and printing it.
\<close>

record print_world =
  pw_setup :: "string option"
  pw_route :: "string option"
  pw_ctx :: "nat \<Rightarrow> string option"
  pw_page :: bool
  pw_content :: bool
  pw_pdf :: "string + string"

datatype print_event = EvRoute | EvPage | EvTimeout int | EvHook | EvContent string | EvCustom | EvEmulate
  | EvSettle int | EvPdf | EvClose | EvRelease

definition print_page :: "int \<Rightarrow> int \<Rightarrow> print_world \<Rightarrow> print_input \<Rightarrow> (string + string) \<times> print_event list" where
  "print_page timeout settle W x =
     (case pw_ctx W 1 of
        Some e \<Rightarrow> (Inl e, [])
      | None \<Rightarrow>
          let evs = [EvTimeout (go_quo timeout 1000000)] @ (if pi_on_setup x then [EvHook] else [])
                @ (if pi_html x \<noteq> [] then [EvContent (pi_html x)] else [])
          in if pi_html x \<noteq> [] \<and> \<not> pw_content W then (Inl ''pdfprinter: could not set content'', evs)
             else (case pw_ctx W 2 of
                     Some e \<Rightarrow> (Inl e, evs)
                   | None \<Rightarrow>
                       (case pi_on_render x of
                          Some r \<Rightarrow> (r, evs @ [EvCustom])
                        | None \<Rightarrow>
                            (case pw_ctx W 3 of
                               Some e \<Rightarrow> (Inl e, evs @ [EvEmulate, EvSettle settle])
                             | None \<Rightarrow> (pw_pdf W, evs @ [EvEmulate, EvSettle settle, EvPdf])))))"

definition pdf_print :: "int \<Rightarrow> int \<Rightarrow> int \<Rightarrow> print_world \<Rightarrow> print_input \<Rightarrow> (string + string) \<times> print_event list" where
  "pdf_print max_html timeout settle W x =
     (if 0 < max_html \<and> max_html < int (length (pi_html x)) then (Inl ''pdfprinter: html exceeds max size'', [])
      else (case pw_setup W of
              Some e \<Rightarrow> (Inl e, [])
            | None \<Rightarrow>
                (case pw_route W of
                   Some e \<Rightarrow> (Inl e, [EvRoute, EvClose, EvRelease])
                 | None \<Rightarrow>
                     (case pw_ctx W 0 of
                        Some e \<Rightarrow> (Inl e, [EvRoute, EvClose, EvRelease])
                      | None \<Rightarrow>
                          if \<not> pw_page W then (Inl ''pdfprinter: could not create page'', [EvRoute, EvPage, EvClose, EvRelease])
                          else (case print_page timeout settle W x of (r, evs) \<Rightarrow> (r, [EvRoute, EvPage] @ evs @ [EvClose, EvRelease]))))))"

text \<open>\<^verbatim>\<open>Print\<close> of both packages: only the content is given, so that the default guard applies.\<close>

definition pdf_print_html :: "int \<Rightarrow> int \<Rightarrow> int \<Rightarrow> print_world \<Rightarrow> string \<Rightarrow> (string + string) \<times> print_event list" where
  "pdf_print_html max_html timeout settle W html =
     pdf_print max_html timeout settle W \<lparr>pi_html = html, pi_on_setup = False, pi_on_render = None, pi_allow = None\<rparr>"

definition pdf_print_compat :: "int \<Rightarrow> int \<Rightarrow> int \<Rightarrow> print_world \<Rightarrow> string \<Rightarrow> (string + string) \<times> print_event list" where
  "pdf_print_compat max_html timeout settle W html = pdf_print_html max_html timeout settle W html"

section \<open>The browser\<close>

record pdf_chrome =
  pc_id :: nat
  pc_proxied :: bool
  pc_args :: "string list"
  pc_launched :: gotime

record pdf_browser =
  pb_installed :: bool
  pb_playwright :: bool
  pb_chrome :: "pdf_chrome option"
  pb_proxy :: bool

definition setup_instance :: "bool \<Rightarrow> pdf_browser \<Rightarrow> bool \<times> pdf_browser" where
  "setup_instance install_ok b =
     (if pb_installed b then (True, b) else if \<not> install_ok then (False, b) else (True, b\<lparr>pb_installed := True\<rparr>))"

definition shutdown_instance :: "pdf_browser \<Rightarrow> pdf_browser" where
  "shutdown_instance b = b\<lparr>pb_chrome := None, pb_proxy := False, pb_playwright := False\<rparr>"

record setup_outcome =
  so_install :: bool
  so_run :: bool
  so_proxy :: bool
  so_launch :: bool
  so_context :: bool
  so_script :: bool

definition proxy_args :: "string list" where
  "proxy_args = [''--proxy-bypass-list=<-loopback>'', ''--force-webrtc-ip-handling-policy=disable_non_proxied_udp'', ''--disable-quic'']"

text \<open>Launching, when there is no browser.\<close>

definition launch_chrome :: "bool \<Rightarrow> gotime \<Rightarrow> nat \<Rightarrow> setup_outcome \<Rightarrow> pdf_browser \<Rightarrow> bool \<times> pdf_browser" where
  "launch_chrome egress now n out b =
     (case pb_chrome b of
        Some c \<Rightarrow> (True, b)
      | None \<Rightarrow>
          if egress \<and> \<not> so_proxy out then (False, shutdown_instance b)
          else let b1 = (if egress then b\<lparr>pb_proxy := True\<rparr> else b)
               in if \<not> so_launch out then (False, shutdown_instance b1)
                  else (True, b1\<lparr>pb_chrome := Some \<lparr>pc_id = n, pc_proxied = egress,
                      pc_args = (if egress then proxy_args else []), pc_launched = now\<rparr>\<rparr>))"

text \<open>\<^verbatim>\<open>setupBrowser\<close> from the lock on: whether it succeeds.\<close>

definition setup_locked :: "bool \<Rightarrow> gotime \<Rightarrow> nat \<Rightarrow> setup_outcome \<Rightarrow> pdf_browser \<Rightarrow> bool \<times> pdf_browser" where
  "setup_locked egress now n out b =
     (case setup_instance (so_install out) b of
        (False, b1) \<Rightarrow> (False, b1)
      | (True, b1) \<Rightarrow>
          if \<not> pb_playwright b1 \<and> \<not> so_run out then (False, shutdown_instance b1)
          else (case launch_chrome egress now n out (b1\<lparr>pb_playwright := True\<rparr>) of
                  (False, b2) \<Rightarrow> (False, b2)
                | (True, b2) \<Rightarrow>
                    if \<not> so_context out then (False, shutdown_instance b2)
                    else if \<not> so_script out then (False, shutdown_instance b2)
                    else (True, b2)))"

section \<open>The manager\<close>

text \<open>
  A print call asks for a slot, has been granted one, sets the browser up under the lock, has failed to
  (and gives the slot back before it unlocks), renders with a browser, gives the slot back, or has ended;
  a refused one has ended too.  The manager installs, loops, drains, or waits for the lock to shut down,
  because of the idle time or of the age.
\<close>

datatype pdf_job = JAsk | JGranted | JSetup | JFailing | JUnlock | JRender nat | JEnding | JRefused | JEnd
datatype pdf_manager = MgInstall | MgLoop | MgDrain | MgStop bool

record pdf_state =
  ps_max :: int
  ps_life :: int
  ps_idle :: int
  ps_egress :: bool
  ps_manager :: pdf_manager
  ps_active :: int
  ps_inactive_at :: "gotime option"
  ps_max_at :: "gotime option"
  ps_lock :: "nat option"
  ps_browser :: pdf_browser
  ps_ids :: nat
  ps_jobs :: "nat \<Rightarrow> pdf_job"
  ps_next :: nat

definition pdf_init :: "int \<Rightarrow> int \<Rightarrow> int \<Rightarrow> bool \<Rightarrow> pdf_state" where
  "pdf_init m life idle egress =
     \<lparr>ps_max = m, ps_life = life, ps_idle = idle, ps_egress = egress, ps_manager = MgInstall, ps_active = 0,
      ps_inactive_at = None, ps_max_at = None, ps_lock = None,
      ps_browser = \<lparr>pb_installed = False, pb_playwright = False, pb_chrome = None, pb_proxy = False\<rparr>,
      ps_ids = 0, ps_jobs = (\<lambda>_. JEnd), ps_next = 0\<rparr>"

definition set_job :: "nat \<Rightarrow> pdf_job \<Rightarrow> pdf_state \<Rightarrow> pdf_state" where
  "set_job i j s = s\<lparr>ps_jobs := (ps_jobs s)(i := j)\<rparr>"

text \<open>The three cases of the manager's select: the answer to a request, a slot that comes back, the ticker.\<close>

definition on_increment :: "gotime \<Rightarrow> pdf_state \<Rightarrow> bool \<times> pdf_state" where
  "on_increment now s =
     (if ps_max s < ps_active s + 1 then (False, s)
      else let s1 = (if ps_active s = 0 then s\<lparr>ps_max_at := Some (now + ps_life s)\<rparr> else s)
           in (True, s1\<lparr>ps_active := ps_active s1 + 1, ps_inactive_at := None\<rparr>))"

definition on_decrement :: "gotime \<Rightarrow> pdf_state \<Rightarrow> pdf_state" where
  "on_decrement now s =
     (let s1 = s\<lparr>ps_active := ps_active s - 1\<rparr>
      in if ps_active s1 \<le> 0 then s1\<lparr>ps_active := 0, ps_inactive_at := Some (now + ps_idle s)\<rparr> else s1)"

definition after_time :: "gotime \<Rightarrow> gotime option \<Rightarrow> bool" where
  "after_time now t = (case t of None \<Rightarrow> False | Some x \<Rightarrow> x < now)"

definition on_tick :: "gotime \<Rightarrow> pdf_state \<Rightarrow> pdf_state" where
  "on_tick now s =
     (if after_time now (ps_inactive_at s)
      then (if ps_active s \<le> 0 then s\<lparr>ps_manager := MgStop True\<rparr> else s\<lparr>ps_inactive_at := None\<rparr>)
      else if after_time now (ps_max_at s) then s\<lparr>ps_manager := MgDrain\<rparr>
      else s)"

text \<open>While draining only slots that come back are looked at.\<close>

definition drain_decrement :: "pdf_state \<Rightarrow> pdf_state" where
  "drain_decrement s = s\<lparr>ps_active := ps_active s - 1\<rparr>"

definition manager_shutdown :: "bool \<Rightarrow> pdf_state \<Rightarrow> pdf_state" where
  "manager_shutdown idle s =
     (let s1 = s\<lparr>ps_browser := shutdown_instance (ps_browser s), ps_manager := MgLoop\<rparr>
      in if idle then s1\<lparr>ps_inactive_at := None\<rparr> else s1\<lparr>ps_max_at := None\<rparr>)"

text \<open>A slot that comes back goes to the manager where it is.\<close>

definition receive_decrement :: "gotime \<Rightarrow> pdf_state \<Rightarrow> pdf_state option" where
  "receive_decrement now s =
     (case ps_manager s of MgLoop \<Rightarrow> Some (on_decrement now s) | MgDrain \<Rightarrow> Some (drain_decrement s) | _ \<Rightarrow> None)"

inductive pdf_step :: "pdf_state \<Rightarrow> pdf_state \<Rightarrow> bool" where
  call: "pdf_step s ((set_job (ps_next s) JAsk s)\<lparr>ps_next := ps_next s + 1\<rparr>)"
| call_given_up: "i < ps_next s \<Longrightarrow> ps_jobs s i = JAsk \<Longrightarrow> pdf_step s (set_job i JEnd s)"
| install: "ps_manager s = MgInstall \<Longrightarrow> ps_lock s = None \<Longrightarrow>
    pdf_step s (s\<lparr>ps_manager := MgLoop, ps_browser := snd (setup_instance ok (ps_browser s))\<rparr>)"
| increment: "ps_manager s = MgLoop \<Longrightarrow> i < ps_next s \<Longrightarrow> ps_jobs s i = JAsk \<Longrightarrow> on_increment now s = (ok, s1) \<Longrightarrow>
    pdf_step s (set_job i (if ok then JGranted else JRefused) s1)"
| lock: "i < ps_next s \<Longrightarrow> ps_jobs s i = JGranted \<Longrightarrow> ps_lock s = None \<Longrightarrow>
    pdf_step s ((set_job i JSetup s)\<lparr>ps_lock := Some i\<rparr>)"
| setup_ok: "i < ps_next s \<Longrightarrow> ps_jobs s i = JSetup \<Longrightarrow> setup_locked (ps_egress s) now (ps_ids s) out (ps_browser s) = (True, b) \<Longrightarrow>
    pb_chrome b = Some c \<Longrightarrow>
    pdf_step s ((set_job i (JRender (pc_id c)) s)\<lparr>ps_lock := None, ps_browser := b, ps_ids := ps_ids s + 1\<rparr>)"
| setup_fails: "i < ps_next s \<Longrightarrow> ps_jobs s i = JSetup \<Longrightarrow> setup_locked (ps_egress s) now (ps_ids s) out (ps_browser s) = (False, b) \<Longrightarrow>
    pdf_step s ((set_job i JFailing s)\<lparr>ps_browser := b, ps_ids := ps_ids s + 1\<rparr>)"
| give_back_failed: "i < ps_next s \<Longrightarrow> ps_jobs s i = JFailing \<Longrightarrow> receive_decrement now s = Some s1 \<Longrightarrow>
    pdf_step s (set_job i JUnlock s1)"
| unlock: "i < ps_next s \<Longrightarrow> ps_jobs s i = JUnlock \<Longrightarrow> pdf_step s ((set_job i JEnd s)\<lparr>ps_lock := None\<rparr>)"
| rendered: "i < ps_next s \<Longrightarrow> ps_jobs s i = JRender c \<Longrightarrow> pdf_step s (set_job i JEnding s)"
| give_back: "i < ps_next s \<Longrightarrow> ps_jobs s i = JEnding \<Longrightarrow> receive_decrement now s = Some s1 \<Longrightarrow> pdf_step s (set_job i JEnd s1)"
| tick: "ps_manager s = MgLoop \<Longrightarrow> pdf_step s (on_tick now s)"
| drained: "ps_manager s = MgDrain \<Longrightarrow> ps_active s \<le> 0 \<Longrightarrow> pdf_step s (s\<lparr>ps_manager := MgStop False\<rparr>)"
| stop: "ps_manager s = MgStop idle \<Longrightarrow> ps_lock s = None \<Longrightarrow> pdf_step s (manager_shutdown idle s)"
| settings: "pdf_step s (s\<lparr>ps_max := m, ps_life := l, ps_idle := d, ps_egress := e\<rparr>)"

text \<open>Reachable states, when no limit that is ever set is above \<open>L\<close>.\<close>

inductive pdf_reachable :: "int \<Rightarrow> pdf_state \<Rightarrow> bool" for L where
  start: "m \<le> L \<Longrightarrow> pdf_reachable L (pdf_init m life idle egress)"
| next_step: "pdf_reachable L s \<Longrightarrow> pdf_step s s' \<Longrightarrow> ps_max s' \<le> L \<Longrightarrow> pdf_reachable L s'"


section \<open>Facts on the guard and on prints\<close>

text \<open>A page may only ask for content without egress or for hosts none of whose addresses is in a blocked network.\<close>

lemma guard_default_allows:
  assumes "default_allow_request testing resolve raw" "url_parse raw = Some (scheme, hostport)"
    and "\<And>host. \<forall>a. (parse_ip host = Some a \<or> (\<exists>ips. resolve host = Inr ips \<and> a \<in> set ips)) \<longrightarrow> ip_ok a"
  shows "map lower_char scheme \<in> {''data'', ''blob'', ''about''}
    \<or> map lower_char scheme \<in> {''http'', ''https''} \<and> url_hostname hostport \<noteq> []
      \<and> (\<forall>a n. (parse_ip (url_hostname hostport) = Some a \<or> parse_ip (url_hostname hostport) = None
            \<and> (\<exists>ips. resolve (url_hostname hostport) = Inr ips \<and> a \<in> set ips))
          \<and> n \<in> set (blocked_nets testing) \<longrightarrow> \<not> net_contains n a)"
proof (cases "map lower_char scheme \<in> {''data'', ''blob'', ''about''}")
  case False
  let ?h = "url_hostname hostport"
  have h: "map lower_char scheme \<in> {''http'', ''https''}" "?h \<noteq> []" "\<not> host_resolves_to_blocked testing resolve ?h"
    using assms(1,2) False by (auto simp: default_allow_request_def Let_def split: if_splits)
  have "\<not> net_contains n a"
    if a: "parse_ip ?h = Some a \<or> parse_ip ?h = None \<and> (\<exists>ips. resolve ?h = Inr ips \<and> a \<in> set ips)" and n: "n \<in> set (blocked_nets testing)" for a n
  proof -
    have "ip_ok a" using assms(3)[of ?h] a by blast
    moreover have "\<not> is_blocked_ip testing (Some a)"
      using h(3) a by (auto simp: host_resolves_to_blocked_def list_ex_iff split: option.splits)
    ultimately show ?thesis using blocked_exact[of a testing] n by blast
  qed
  then show ?thesis using h(1,2) by blast
qed blast

text \<open>
  In every print that gets a browser the guard is installed before anything else, and the context is closed and
  the slot given back at the end, whatever fails between.
\<close>

lemma print_guarded_first:
  assumes "pdf_print max_html timeout settle W x = (r, evs)"
  shows "evs = [] \<or> (\<exists>ms. evs = EvRoute # ms @ [EvClose, EvRelease] \<and> set ms \<inter> {EvRoute, EvClose, EvRelease} = {}
    \<and> (ms = [] \<or> hd ms = EvPage))"
proof -
  let ?m = "snd (print_page timeout settle W x)"
  have m: "set ?m \<inter> {EvRoute, EvClose, EvRelease} = {}"
    by (auto simp: print_page_def Let_def split: option.splits)
  have "evs = [] \<or> evs = [EvRoute, EvClose, EvRelease] \<or> evs = [EvRoute, EvPage, EvClose, EvRelease]
      \<or> evs = [EvRoute, EvPage] @ ?m @ [EvClose, EvRelease]"
    using assms by (simp add: pdf_print_def case_prod_unfold split: if_splits option.splits)
  then consider "evs = []" | "evs = EvRoute # [] @ [EvClose, EvRelease]" | "evs = EvRoute # [EvPage] @ [EvClose, EvRelease]"
    | "evs = EvRoute # (EvPage # ?m) @ [EvClose, EvRelease]" by auto
  then show ?thesis
  proof cases
    case 4
    then show ?thesis using m by (intro disjI2 exI[of _ "EvPage # ?m"]) auto
  qed (use exI[of _ "[EvPage]"] in fastforce)+
qed

section \<open>Facts on slots and the browser\<close>

fun has_slot :: "pdf_job \<Rightarrow> bool" where
  "has_slot JGranted = True"
| "has_slot JSetup = True"
| "has_slot JFailing = True"
| "has_slot (JRender c) = True"
| "has_slot JEnding = True"
| "has_slot _ = False"

fun has_lock :: "pdf_job \<Rightarrow> bool" where
  "has_lock JSetup = True"
| "has_lock JFailing = True"
| "has_lock JUnlock = True"
| "has_lock _ = False"

definition slots :: "pdf_state \<Rightarrow> int" where
  "slots s = int (card {i. i < ps_next s \<and> has_slot (ps_jobs s i)})"

text \<open>The browser: a proxied one has its proxy running.\<close>

definition browser_ok :: "pdf_browser \<Rightarrow> bool" where
  "browser_ok b \<longleftrightarrow> (\<forall>c. pb_chrome b = Some c \<and> pc_proxied c \<longrightarrow> pb_proxy b \<and> pc_args c = proxy_args)"

definition pdf_ok :: "int \<Rightarrow> pdf_state \<Rightarrow> bool" where
  "pdf_ok L s \<longleftrightarrow> ps_active s = slots s \<and> ps_active s \<le> max 0 L
     \<and> (\<forall>i<ps_next s. has_lock (ps_jobs s i) \<longleftrightarrow> ps_lock s = Some i) \<and> (\<forall>i. ps_lock s = Some i \<longrightarrow> i < ps_next s)
     \<and> (ps_manager s \<in> {MgInstall, MgStop True, MgStop False} \<longrightarrow> slots s = 0)
     \<and> browser_ok (ps_browser s) \<and> ps_max s \<le> L"

interpretation pdf_slots: slot_count "pdf_ok L" ps_next ps_jobs has_slot ps_active for L
  by unfold_locales (simp add: pdf_ok_def slots_def)

lemma set_job_simps [simp]:
  "ps_jobs (set_job i j s) = (ps_jobs s)(i := j)" "ps_next (set_job i j s) = ps_next s" "ps_active (set_job i j s) = ps_active s"
  "ps_lock (set_job i j s) = ps_lock s" "ps_manager (set_job i j s) = ps_manager s" "ps_browser (set_job i j s) = ps_browser s"
  "ps_max (set_job i j s) = ps_max s" "ps_egress (set_job i j s) = ps_egress s"
  by (simp_all add: set_job_def)

lemma slots_nonneg: "0 \<le> slots s"
  by (simp add: slots_def)

lemma slots_same: "ps_jobs s' = ps_jobs s \<Longrightarrow> ps_next s' = ps_next s \<Longrightarrow> slots s' = slots s"
  by (simp add: slots_def)

lemma shutdown_browser_ok [simp]: "browser_ok (shutdown_instance b)"
  by (simp add: browser_ok_def shutdown_instance_def)

lemma setup_instance_ok: "browser_ok b \<Longrightarrow> browser_ok (snd (setup_instance ok b))"
  by (auto simp: browser_ok_def setup_instance_def)

lemma setup_locked_ok: "browser_ok b \<Longrightarrow> setup_locked egress now n out b = (r, b') \<Longrightarrow> browser_ok b'"
  by (auto simp: setup_locked_def launch_chrome_def setup_instance_def browser_ok_def shutdown_instance_def Let_def
      split: if_splits option.splits prod.splits bool.splits)


text \<open>One job moves, and the rest follows: the count, the lock and where the manager is.\<close>

lemma pdf_ok_job:
  assumes ok: "pdf_ok L s" and i: "i < ps_next s" and upd: "ps_jobs s' = (ps_jobs s)(i := j)" "ps_next s' = ps_next s"
    and active: "ps_active s' = ps_active s + (if has_slot j then 1 else 0) - (if has_slot (ps_jobs s i) then 1 else 0)"
    and bound: "ps_active s' \<le> max 0 L" "ps_max s' \<le> L"
    and lk: "ps_lock s' = (if has_lock j then Some i else if has_lock (ps_jobs s i) then None else ps_lock s)"
    and free: "has_lock j \<Longrightarrow> ps_lock s = None \<or> ps_lock s = Some i"
    and mg: "ps_manager s' = ps_manager s" "has_slot j \<Longrightarrow> has_slot (ps_jobs s i) \<or> ps_manager s = MgLoop"
    and br: "browser_ok (ps_browser s')"
  shows "pdf_ok L s'"
proof -
  have count: "slots s' = slots s + (if has_slot j then 1 else 0) - (if has_slot (ps_jobs s i) then 1 else 0)"
    using pdf_slots.count_change[OF ok i upd] ok by (simp add: slots_def pdf_ok_def)
  have act: "ps_active s = slots s" and locks: "\<forall>k<ps_next s. has_lock (ps_jobs s k) \<longleftrightarrow> ps_lock s = Some k"
    and range: "\<forall>k. ps_lock s = Some k \<longrightarrow> k < ps_next s"
    and quiet: "ps_manager s \<in> {MgInstall, MgStop True, MgStop False} \<longrightarrow> slots s = 0"
    using ok by (simp_all add: pdf_ok_def)
  have "\<forall>k<ps_next s'. has_lock (ps_jobs s' k) \<longleftrightarrow> ps_lock s' = Some k"
    using locks free lk upd i by auto
  moreover have "\<forall>k. ps_lock s' = Some k \<longrightarrow> k < ps_next s'" using range lk upd(2) i by auto
  moreover have "ps_manager s' \<in> {MgInstall, MgStop True, MgStop False} \<longrightarrow> slots s' = 0"
  proof
    assume m: "ps_manager s' \<in> {MgInstall, MgStop True, MgStop False}"
    then have z: "slots s = 0" using quiet mg(1) by simp
    then have "\<not> has_slot (ps_jobs s i)" using pdf_slots.none_held[OF ok _ i] act by simp
    then show "slots s' = 0" using z count mg m by auto
  qed
  ultimately show ?thesis using act active count bound br by (simp add: pdf_ok_def)
qed

lemma on_increment_simps:
  assumes "on_increment now s = (ok, s1)"
  shows "ok \<longleftrightarrow> ps_active s + 1 \<le> ps_max s" "ps_active s1 = ps_active s + (if ok then 1 else 0)" "ps_jobs s1 = ps_jobs s" "ps_next s1 = ps_next s"
    "ps_lock s1 = ps_lock s" "ps_manager s1 = ps_manager s" "ps_browser s1 = ps_browser s" "ps_max s1 = ps_max s"
  using assms by (auto simp: on_increment_def Let_def split: if_splits)

lemma receive_decrement_simps:
  assumes "receive_decrement now s = Some s1" "0 < ps_active s"
  shows "ps_active s1 = ps_active s - 1" "ps_jobs s1 = ps_jobs s" "ps_next s1 = ps_next s"
    "ps_lock s1 = ps_lock s" "ps_manager s1 = ps_manager s" "ps_browser s1 = ps_browser s" "ps_max s1 = ps_max s"
  using assms by (auto simp: receive_decrement_def on_decrement_def drain_decrement_def Let_def split: pdf_manager.splits if_splits)

lemma pdf_ok_parts:
  assumes "pdf_ok L s"
  shows "ps_active s = slots s" "ps_active s \<le> max 0 L" "ps_max s \<le> L" "browser_ok (ps_browser s)"
    "i < ps_next s \<Longrightarrow> has_lock (ps_jobs s i) \<Longrightarrow> ps_lock s = Some i"
    "i < ps_next s \<Longrightarrow> has_slot (ps_jobs s i) \<Longrightarrow> 0 < ps_active s"
    "i < ps_next s \<Longrightarrow> has_slot (ps_jobs s i) \<Longrightarrow> ps_manager s = MgLoop \<or> ps_manager s = MgDrain"
proof -
  show "ps_active s = slots s" "ps_active s \<le> max 0 L" "ps_max s \<le> L" "browser_ok (ps_browser s)" using assms by (simp_all add: pdf_ok_def)
  show "i < ps_next s \<Longrightarrow> has_lock (ps_jobs s i) \<Longrightarrow> ps_lock s = Some i" using assms by (auto simp: pdf_ok_def)
  show "i < ps_next s \<Longrightarrow> has_slot (ps_jobs s i) \<Longrightarrow> 0 < ps_active s" by (rule pdf_slots.held_counts[OF assms])
  show "ps_manager s = MgLoop \<or> ps_manager s = MgDrain" if "i < ps_next s" "has_slot (ps_jobs s i)"
  proof -
    have "ps_manager s \<notin> {MgInstall, MgStop True, MgStop False}" using pdf_slots.held_counts[OF assms that] assms by (auto simp: pdf_ok_def)
    then show ?thesis by (cases "ps_manager s") (metis (full_types) insertCI)+
  qed
qed

text \<open>A step that moves no job.\<close>

lemma pdf_ok_manager:
  assumes "pdf_ok L s" "ps_jobs s' = ps_jobs s" "ps_next s' = ps_next s" "ps_active s' = ps_active s" "ps_lock s' = ps_lock s"
    "ps_max s' \<le> L" "browser_ok (ps_browser s')"
    "ps_manager s' \<in> {MgInstall, MgStop True, MgStop False} \<Longrightarrow> ps_active s \<le> 0"
  shows "pdf_ok L s'"
  using assms slots_same[OF assms(2,3)] slots_nonneg[of s] by (auto simp: pdf_ok_def)

lemma pdf_ok_step: "pdf_step s s' \<Longrightarrow> pdf_ok L s \<Longrightarrow> ps_max s' \<le> L \<Longrightarrow> pdf_ok L s'"
proof (induction rule: pdf_step.induct)
  case (call s)
  let ?s = "(set_job (ps_next s) JAsk s)\<lparr>ps_next := ps_next s + 1\<rparr>"
  have "slots ?s = slots s" using card_fun_new[of has_slot JAsk "ps_next s" "ps_jobs s"] by (simp add: slots_def set_job_def)
  moreover have "\<forall>i<ps_next ?s. has_lock (ps_jobs ?s i) \<longleftrightarrow> ps_lock ?s = Some i"
    using call.prems by (auto simp: pdf_ok_def less_Suc_eq)
  ultimately show ?case using call.prems by (auto simp: pdf_ok_def)
next
  case (call_given_up i s)
  show ?case by (rule pdf_ok_job[OF call_given_up.prems(1) call_given_up.hyps(1)])
      (use call_given_up pdf_ok_parts[OF call_given_up.prems(1)] in auto)
next
  case (install s ok)
  show ?case by (rule pdf_ok_manager[OF install.prems(1)])
      (use install pdf_ok_parts[OF install.prems(1)] in \<open>simp_all add: setup_instance_ok\<close>)
next
  case (increment s i now ok s1)
  note parts = pdf_ok_parts[OF increment.prems(1)] and inc = on_increment_simps[OF increment.hyps(4)]
  show ?case by (rule pdf_ok_job[OF increment.prems(1) increment.hyps(2), of _ "if ok then JGranted else JRefused"])
      (use increment.hyps parts inc in auto)
next
  case (lock i s)
  show ?case by (rule pdf_ok_job[OF lock.prems(1) lock.hyps(1), of _ JSetup])
      (use lock pdf_ok_parts[OF lock.prems(1)] in auto)
next
  case (setup_ok i s now out b c)
  show ?case by (rule pdf_ok_job[OF setup_ok.prems(1) setup_ok.hyps(1), of _ "JRender (pc_id c)"])
      (use setup_ok pdf_ok_parts[OF setup_ok.prems(1)] setup_locked_ok in auto)
next
  case (setup_fails i s now out b)
  show ?case by (rule pdf_ok_job[OF setup_fails.prems(1) setup_fails.hyps(1), of _ JFailing])
      (use setup_fails pdf_ok_parts[OF setup_fails.prems(1)] setup_locked_ok in auto)
next
  case (give_back_failed i s now s1)
  note parts = pdf_ok_parts[OF give_back_failed.prems(1)]
  have "0 < ps_active s" using parts(6)[OF give_back_failed.hyps(1)] give_back_failed.hyps(2) by simp
  note dec = receive_decrement_simps[OF give_back_failed.hyps(3) this]
  show ?case by (rule pdf_ok_job[OF give_back_failed.prems(1) give_back_failed.hyps(1), of _ JUnlock])
      (use give_back_failed.hyps parts dec in auto)
next
  case (unlock i s)
  show ?case by (rule pdf_ok_job[OF unlock.prems(1) unlock.hyps(1), of _ JEnd])
      (use unlock pdf_ok_parts[OF unlock.prems(1)] in auto)
next
  case (rendered i s c)
  show ?case by (rule pdf_ok_job[OF rendered.prems(1) rendered.hyps(1), of _ JEnding])
      (use rendered pdf_ok_parts[OF rendered.prems(1)] in auto)
next
  case (give_back i s now s1)
  note parts = pdf_ok_parts[OF give_back.prems(1)]
  have "0 < ps_active s" using parts(6)[OF give_back.hyps(1)] give_back.hyps(2) by simp
  note dec = receive_decrement_simps[OF give_back.hyps(3) this]
  show ?case by (rule pdf_ok_job[OF give_back.prems(1) give_back.hyps(1), of _ JEnd])
      (use give_back.hyps parts dec in auto)
next
  case (tick s now)
  show ?case by (rule pdf_ok_manager[OF tick.prems(1)])
      (use tick pdf_ok_parts[OF tick.prems(1)] in \<open>auto simp: on_tick_def split: if_splits\<close>)
next
  case (drained s)
  show ?case by (rule pdf_ok_manager[OF drained.prems(1)]) (use drained pdf_ok_parts[OF drained.prems(1)] in simp_all)
next
  case (stop s idle)
  show ?case by (rule pdf_ok_manager[OF stop.prems(1)])
      (use stop pdf_ok_parts[OF stop.prems(1)] in \<open>auto simp: manager_shutdown_def Let_def split: if_splits\<close>)
next
  case (settings s m l d e)
  show ?case by (rule pdf_ok_manager[OF settings.prems(1)])
      (use settings pdf_ok_parts[OF settings.prems(1)] in \<open>auto simp: pdf_ok_def\<close>)
qed

lemma pdf_reachable_ok: "pdf_reachable L s \<Longrightarrow> pdf_ok L s"
proof (induction rule: pdf_reachable.induct)
  case (start m life idle egress)
  then show ?case by (simp add: pdf_ok_def pdf_init_def slots_def browser_ok_def)
next
  case (next_step s s')
  then show ?case using pdf_ok_step by blast
qed


text \<open>Steps that leave the limit alone, so that reachability goes on.\<close>

definition pdf_move :: "pdf_state \<Rightarrow> pdf_state \<Rightarrow> bool" where
  "pdf_move s s' \<longleftrightarrow> pdf_step s s' \<and> ps_max s' = ps_max s"

lemma pdf_move_reachable: "pdf_move s s' \<Longrightarrow> pdf_reachable L s \<Longrightarrow> pdf_reachable L s'"
  using pdf_reachable.next_step pdf_ok_parts(3)[OF pdf_reachable_ok] by (simp add: pdf_move_def)

lemma slot_received:
  assumes "pdf_reachable L s" "i < ps_next s" "has_slot (ps_jobs s i)"
  obtains s1 where "receive_decrement now s = Some s1" "ps_jobs s1 = ps_jobs s" "ps_next s1 = ps_next s" "ps_max s1 = ps_max s" "ps_lock s1 = ps_lock s"
proof -
  note parts = pdf_ok_parts[OF pdf_reachable_ok[OF assms(1)]]
  have "ps_manager s = MgLoop \<or> ps_manager s = MgDrain" using parts(7)[OF assms(2,3)] .
  then obtain s1 where s1: "receive_decrement now s = Some s1" by (auto simp: receive_decrement_def)
  show ?thesis using that[OF s1] receive_decrement_simps[OF s1 parts(6)[OF assms(2,3)]] by simp
qed

lemma setup_gives_chrome: "setup_locked egress now n out b = (True, b') \<Longrightarrow> \<exists>c. pb_chrome b' = Some c"
  by (auto simp: setup_locked_def launch_chrome_def Let_def split: if_splits option.splits prod.splits bool.splits)

text \<open>From the point where the lock is held on, a job's own steps give its slot back and free the lock.\<close>

lemma ending_returns:
  assumes "pdf_reachable L s" "i < ps_next s" "ps_jobs s i = JEnding"
  shows "\<exists>s'. pdf_move s s' \<and> \<not> has_slot (ps_jobs s' i)"
proof -
  obtain s1 where "receive_decrement 0 s = Some s1" "ps_max s1 = ps_max s" using slot_received[OF assms(1,2)] assms(3) by auto
  then have "pdf_move s (set_job i JEnd s1)" using pdf_step.give_back[OF assms(2,3)] by (simp add: pdf_move_def)
  then show ?thesis by fastforce
qed

lemma render_returns:
  assumes "pdf_reachable L s" "i < ps_next s" "ps_jobs s i = JRender c"
  shows "\<exists>s'. pdf_move\<^sup>*\<^sup>* s s' \<and> \<not> has_slot (ps_jobs s' i)"
proof -
  have m: "pdf_move s (set_job i JEnding s)" using pdf_step.rendered[OF assms(2,3)] by (simp add: pdf_move_def)
  obtain s' where "pdf_move (set_job i JEnding s) s'" "\<not> has_slot (ps_jobs s' i)"
    using ending_returns[OF pdf_move_reachable[OF m assms(1)], of i] assms(2) by auto
  then show ?thesis using m by (meson converse_rtranclp_into_rtranclp r_into_rtranclp)
qed

text \<open>The lock comes free by the steps of its holder alone, which then renders or has no slot any more.\<close>

definition lock_comes_free :: "int \<Rightarrow> nat \<Rightarrow> pdf_state \<Rightarrow> bool" where
  "lock_comes_free L k t \<longleftrightarrow> (\<exists>s'. pdf_move\<^sup>*\<^sup>* t s' \<and> pdf_reachable L s' \<and> ps_lock s' = None \<and> ps_next s' = ps_next t
    \<and> (\<forall>j. j \<noteq> k \<longrightarrow> ps_jobs s' j = ps_jobs t j) \<and> (has_slot (ps_jobs s' k) \<longrightarrow> (\<exists>c. ps_jobs s' k = JRender c)))"

lemma comes_free_later:
  assumes "pdf_move s t" "lock_comes_free L k t" "ps_next t = ps_next s" "\<forall>j. j \<noteq> k \<longrightarrow> ps_jobs t j = ps_jobs s j"
  shows "lock_comes_free L k s"
proof -
  obtain s' where s': "pdf_move\<^sup>*\<^sup>* t s'" "pdf_reachable L s'" "ps_lock s' = None" "ps_next s' = ps_next t"
    "\<forall>j. j \<noteq> k \<longrightarrow> ps_jobs s' j = ps_jobs t j" "has_slot (ps_jobs s' k) \<longrightarrow> (\<exists>c. ps_jobs s' k = JRender c)"
    using assms(2) unfolding lock_comes_free_def by blast
  have "pdf_move\<^sup>*\<^sup>* s s'" using assms(1) s'(1) by (rule converse_rtranclp_into_rtranclp)
  then show ?thesis unfolding lock_comes_free_def using s' assms(3,4) by (intro exI[of _ s']) simp
qed

lemma comes_free_now:
  assumes "pdf_move s t" "pdf_reachable L t" "ps_lock t = None" "ps_next t = ps_next s" "\<forall>j. j \<noteq> k \<longrightarrow> ps_jobs t j = ps_jobs s j"
    "has_slot (ps_jobs t k) \<longrightarrow> (\<exists>c. ps_jobs t k = JRender c)"
  shows "lock_comes_free L k s"
  unfolding lock_comes_free_def using assms by (intro exI[of _ t]) (auto intro: r_into_rtranclp)

lemma unlock_frees:
  assumes "pdf_reachable L t" "k < ps_next t" "ps_jobs t k = JUnlock"
  shows "lock_comes_free L k t"
proof -
  let ?t = "(set_job k JEnd t)\<lparr>ps_lock := None\<rparr>"
  have m: "pdf_move t ?t" using pdf_step.unlock[OF assms(2,3)] by (simp add: pdf_move_def)
  show ?thesis by (rule comes_free_now[OF m pdf_move_reachable[OF m assms(1)]]) simp_all
qed

lemma failing_frees:
  assumes "pdf_reachable L t" "k < ps_next t" "ps_jobs t k = JFailing"
  shows "lock_comes_free L k t"
proof -
  obtain t1 where t1: "receive_decrement 0 t = Some t1" "ps_jobs t1 = ps_jobs t" "ps_next t1 = ps_next t" "ps_max t1 = ps_max t"
    using slot_received[OF assms(1,2)] assms(3) by auto
  have m: "pdf_move t (set_job k JUnlock t1)" using pdf_step.give_back_failed[OF assms(2,3) t1(1)] t1(4) by (simp add: pdf_move_def)
  have "lock_comes_free L k (set_job k JUnlock t1)"
    by (rule unlock_frees[OF pdf_move_reachable[OF m assms(1)]]) (use assms(2) t1(3) in simp_all)
  then show ?thesis by (rule comes_free_later[OF m]) (use t1 in simp_all)
qed

lemma setup_frees:
  assumes "pdf_reachable L s" "k < ps_next s" "ps_jobs s k = JSetup"
  shows "lock_comes_free L k s"
proof -
  obtain out :: setup_outcome where True by blast
  obtain r b where sl: "setup_locked (ps_egress s) 0 (ps_ids s) out (ps_browser s) = (r, b)" by (metis prod.exhaust)
  show ?thesis
  proof (cases r)
    case True
    then obtain c where c: "pb_chrome b = Some c"
      using setup_gives_chrome[of "ps_egress s" 0 "ps_ids s" out "ps_browser s" b] sl by auto
    let ?t = "(set_job k (JRender (pc_id c)) s)\<lparr>ps_lock := None, ps_browser := b, ps_ids := ps_ids s + 1\<rparr>"
    have m: "pdf_move s ?t" using pdf_step.setup_ok[OF assms(2,3) _ c] sl True by (simp add: pdf_move_def)
    show ?thesis by (rule comes_free_now[OF m pdf_move_reachable[OF m assms(1)]]) simp_all
  next
    case False
    let ?t = "(set_job k JFailing s)\<lparr>ps_browser := b, ps_ids := ps_ids s + 1\<rparr>"
    have m: "pdf_move s ?t" using pdf_step.setup_fails[OF assms(2,3)] sl False by (simp add: pdf_move_def)
    have "lock_comes_free L k ?t" by (rule failing_frees[OF pdf_move_reachable[OF m assms(1)]]) (use assms(2) in simp_all)
    then show ?thesis by (rule comes_free_later[OF m]) simp_all
  qed
qed

lemma lock_freed:
  assumes "pdf_reachable L s" "ps_lock s = Some k"
  shows "\<exists>s'. pdf_move\<^sup>*\<^sup>* s s' \<and> pdf_reachable L s' \<and> ps_lock s' = None \<and> ps_next s' = ps_next s
    \<and> (\<forall>j. j \<noteq> k \<longrightarrow> ps_jobs s' j = ps_jobs s j) \<and> (has_slot (ps_jobs s' k) \<longrightarrow> (\<exists>c. ps_jobs s' k = JRender c))"
proof -
  have k: "k < ps_next s" "has_lock (ps_jobs s k)" using pdf_reachable_ok[OF assms(1)] assms(2) by (auto simp: pdf_ok_def)
  then have "lock_comes_free L k s"
    using setup_frees[OF assms(1)] failing_frees[OF assms(1)] unlock_frees[OF assms(1)] by (cases "ps_jobs s k") auto
  then show ?thesis unfolding lock_comes_free_def .
qed

lemma setup_returns:
  assumes "pdf_reachable L s" "i < ps_next s" "ps_jobs s i = JSetup \<or> ps_jobs s i = JFailing"
  shows "\<exists>s'. pdf_move\<^sup>*\<^sup>* s s' \<and> \<not> has_slot (ps_jobs s' i)"
proof -
  have "ps_lock s = Some i" using pdf_ok_parts(5)[OF pdf_reachable_ok[OF assms(1)] assms(2)] assms(3) by auto
  then obtain s1 where s1: "pdf_move\<^sup>*\<^sup>* s s1" "pdf_reachable L s1" "ps_next s1 = ps_next s"
    "has_slot (ps_jobs s1 i) \<longrightarrow> (\<exists>c. ps_jobs s1 i = JRender c)"
    using lock_freed[OF assms(1)] by blast
  show ?thesis
  proof (cases "has_slot (ps_jobs s1 i)")
    case True
    then obtain c where c: "ps_jobs s1 i = JRender c" using s1(4) by blast
    obtain s' where "pdf_move\<^sup>*\<^sup>* s1 s'" "\<not> has_slot (ps_jobs s' i)" using render_returns[OF s1(2) _ c] s1(3) assms(2) by auto
    then show ?thesis using s1(1) by (meson rtranclp_trans)
  qed (use s1 in blast)
qed

text \<open>
  Slots come back.  From every reachable state the print call of every granted slot can go on to give it back:
  whoever holds the lock can free it, and the manager never waits for the lock while a slot is out, so there is no
  deadlock between the two.
\<close>
lemma pdf_slot_returns:
  assumes "pdf_reachable L s" "i < ps_next s" "has_slot (ps_jobs s i)"
  shows "\<exists>s'. pdf_step\<^sup>*\<^sup>* s s' \<and> \<not> has_slot (ps_jobs s' i)"
proof -
  have granted: "\<exists>s'. pdf_move\<^sup>*\<^sup>* t s' \<and> \<not> has_slot (ps_jobs s' i)"
    if t: "pdf_reachable L t" "i < ps_next t" "ps_jobs t i = JGranted" "ps_lock t = None" for t
  proof -
    let ?t = "(set_job i JSetup t)\<lparr>ps_lock := Some i\<rparr>"
    have m: "pdf_move t ?t" using pdf_step.lock[OF t(2-4)] by (simp add: pdf_move_def)
    have "\<exists>s'. pdf_move\<^sup>*\<^sup>* ?t s' \<and> \<not> has_slot (ps_jobs s' i)"
      by (rule setup_returns[OF pdf_move_reachable[OF m t(1)]]) (use t(2) in simp_all)
    then show ?thesis using m by (meson converse_rtranclp_into_rtranclp)
  qed
  have "\<exists>s'. pdf_move\<^sup>*\<^sup>* s s' \<and> \<not> has_slot (ps_jobs s' i)"
  proof (cases "ps_jobs s i")
    case JGranted
    show ?thesis
    proof (cases "ps_lock s")
      case None
      then show ?thesis using granted[OF assms(1,2) JGranted] by simp
    next
      case (Some k)
      then have "i \<noteq> k" using pdf_reachable_ok[OF assms(1)] JGranted by (auto simp: pdf_ok_def)
      then obtain s1 where s1: "pdf_move\<^sup>*\<^sup>* s s1" "pdf_reachable L s1" "ps_lock s1 = None" "ps_next s1 = ps_next s" "ps_jobs s1 i = JGranted"
        using lock_freed[OF assms(1) Some] JGranted by metis
      show ?thesis using granted[OF s1(2) _ s1(5,3)] s1(1,4) assms(2) by (metis rtranclp_trans)
    qed
  next
    case JEnding
    then show ?thesis using ending_returns[OF assms(1,2)] by blast
  qed (use assms render_returns setup_returns in auto)
  moreover have "pdf_move\<^sup>*\<^sup>* t t' \<Longrightarrow> pdf_step\<^sup>*\<^sup>* t t'" for t t'
    by (induction rule: rtranclp_induct) (auto simp: pdf_move_def intro: rtranclp.rtrancl_into_rtrancl)
  ultimately show ?thesis by blast
qed


section \<open>Concrete runs and findings\<close>

definition all_ok :: setup_outcome where
  "all_ok = \<lparr>so_install = True, so_run = True, so_proxy = True, so_launch = True, so_context = True, so_script = True\<rparr>"

lemma pdf_run: "pdf_reachable L s \<Longrightarrow> pdf_step s s' \<Longrightarrow> s' = t \<Longrightarrow> ps_max t \<le> L \<Longrightarrow> pdf_reachable L t"
  using pdf_reachable.next_step by blast

text \<open>One call has its slot: \<open>granted_state\<close> is what the first steps of a program with limit \<open>m\<close> give.\<close>

definition idle_state :: "int \<Rightarrow> pdf_state" where
  "idle_state m = (set_job 0 JAsk (pdf_init m 1800 300 True))\<lparr>ps_next := 1, ps_manager := MgLoop,
     ps_browser := \<lparr>pb_installed = True, pb_playwright = False, pb_chrome = None, pb_proxy = False\<rparr>\<rparr>"

definition granted_state :: "int \<Rightarrow> pdf_state" where
  "granted_state m = set_job 0 JGranted (snd (on_increment 0 (idle_state m)))"

lemma idle_reachable: "m \<le> L \<Longrightarrow> pdf_reachable L (idle_state m)"
proof -
  assume m: "m \<le> L"
  have "pdf_reachable L (pdf_init m 1800 300 True)" using m by (rule pdf_reachable.start)
  then have "pdf_reachable L ((set_job 0 JAsk (pdf_init m 1800 300 True))\<lparr>ps_next := 1\<rparr>)" (is "pdf_reachable L ?s")
    by (rule pdf_run[OF _ pdf_step.call]) (use m in \<open>simp_all add: pdf_init_def set_job_def\<close>)
  then show ?thesis
    by (rule pdf_run[OF _ pdf_step.install[where ok = True]])
      (use m in \<open>simp_all add: pdf_init_def set_job_def setup_instance_def idle_state_def\<close>)
qed

lemma granted_reachable: "1 \<le> m \<Longrightarrow> m \<le> L \<Longrightarrow> pdf_reachable L (granted_state m)"
proof -
  assume m: "1 \<le> m" "m \<le> L"
  show ?thesis
    by (rule pdf_run[OF idle_reachable[OF m(2)] pdf_step.increment[where i = 0 and now = 0 and ok = True]])
      (use m in \<open>auto simp: idle_state_def on_increment_def pdf_init_def set_job_def granted_state_def Let_def\<close>)
qed

lemmas run_defs = granted_state_def idle_state_def on_increment_def pdf_init_def set_job_def Let_def


text \<open>
  The comment on \<^verbatim>\<open>MaxConcurrentRenders\<close> says that excess calls block until a slot frees: the manager answers a
  request above the limit with false at once, and the call fails.
\<close>

lemma overload_refused:
  assumes "ps_manager s = MgLoop" "i < ps_next s" "ps_jobs s i = JAsk" "ps_max s \<le> ps_active s"
  shows "pdf_step s (set_job i JRefused s)"
  using pdf_step.increment[OF assms(1-3), of 0 False s] assms(4) by (simp add: on_increment_def)

text \<open>It also says that values below one are treated as one: a limit below one refuses every call.\<close>

lemma low_limit_refuses_all: "ps_max s < 1 \<Longrightarrow> 0 \<le> ps_active s \<Longrightarrow> on_increment now s = (False, s)"
  by (simp add: on_increment_def)

text \<open>
  The age of the browser is not what \<^verbatim>\<open>MaxBrowserLifetime\<close> bounds: the first render after an idle moment starts
  the time anew, so a browser that is used with gaps is never recycled for its age.
\<close>

lemma lifetime_restarts:
  assumes "ps_active s = 0" "1 \<le> ps_max s"
  shows "on_increment now s = (True, s\<lparr>ps_max_at := Some (now + ps_life s), ps_active := 1, ps_inactive_at := None\<rparr>)"
    and "t \<le> now + ps_life s \<Longrightarrow> ps_manager s = MgLoop \<Longrightarrow> ps_manager (on_tick t (snd (on_increment now s))) = MgLoop"
  using assms by (simp_all add: on_increment_def on_tick_def after_time_def)

text \<open>
  A call whose context cannot be made shuts the browser down that others are rendering with, although it is
  documented to be recycled only while idle, never in a render.
\<close>

lemma context_failure_kills_renders:
  fixes out :: setup_outcome
  assumes "pb_installed b" "pb_playwright b" "pb_chrome b = Some c" "\<not> so_context out"
    and "i < ps_next s" "ps_jobs s i = JSetup" "ps_browser s = b" "j < ps_next s" "j \<noteq> i" "ps_jobs s j = JRender (pc_id c)"
  shows "\<exists>s'. pdf_step s s' \<and> ps_jobs s' j = JRender (pc_id c) \<and> pb_chrome (ps_browser s') = None"
proof -
  have "setup_locked (ps_egress s) 0 (ps_ids s) out (ps_browser s) = (False, shutdown_instance (b\<lparr>pb_playwright := True\<rparr>))"
    using assms by (simp add: setup_locked_def setup_instance_def launch_chrome_def)
  from pdf_step.setup_fails[OF assms(5,6) this] show ?thesis using assms(9,10) by (auto simp: shutdown_instance_def intro!: exI)
qed

end
