(* ===== verification/React.thy ===== *)
theory React
  imports ResCore RemoteZip
begin

text \<open>
  The front end (\<^verbatim>\<open>res/react.go\<close>, and \<^verbatim>\<open>StaticFileDir\<close> and \<^verbatim>\<open>ReactApp\<close> of \<^verbatim>\<open>res/router.go\<close>): serving the files
  of a build, and the reverse proxy of tests.  The file system is a function from cleaned paths; Go's file server
  is modelled as far as which file it answers with.
\<close>

section \<open>Go's file server\<close>

text \<open>What opening a path gives; an error carries the status that the library makes of it.\<close>

datatype fs_entry = FsFile | FsDir | FsMissing | FsError int

type_synonym file_system = "string \<Rightarrow> fs_entry"

definition file_join :: "string \<Rightarrow> string \<Rightarrow> string" where
  "file_join a b = (if a = [] \<and> b = [] then [] else if a = [] then clean_path b else if b = [] then clean_path a else clean_path (a @ ''/'' @ b))"

text \<open>\<^verbatim>\<open>path.Base\<close>.\<close>

definition path_base :: "string \<Rightarrow> string" where
  "path_base p =
     (if p = [] then ''.''
      else let q = rev (dropWhile (\<lambda>c. c = CHR ''/'') (rev p))
           in if q = [] then ''/'' else last (split_char (CHR ''/'') q))"

text \<open>The name in an \<^verbatim>\<open>http.Dir\<close>.\<close>

definition dir_path :: "string \<Rightarrow> string \<Rightarrow> string" where
  "dir_path root name = file_join (if root = [] then ''.'' else root) (clean_path (''/'' @ name))"

datatype file_reply = FileBody string | DirList string | FileRedirect string | FileError int | NotYours int string

text \<open>\<^verbatim>\<open>serveFile\<close>; \<open>url\<close> is the path of the request.\<close>

definition ends_slash :: "string \<Rightarrow> bool" where
  "ends_slash p \<longleftrightarrow> p \<noteq> [] \<and> last p = CHR ''/''"

definition without_last_slash :: "string \<Rightarrow> string" where
  "without_last_slash p = (if ends_slash p then butlast p else p)"

definition serve_file :: "file_system \<Rightarrow> string \<Rightarrow> string \<Rightarrow> string \<Rightarrow> bool \<Rightarrow> file_reply" where
  "serve_file fs root url name redirect =
     (if has_suffix url ''/index.html'' then FileRedirect ''./''
      else case fs (dir_path root name) of
             FsMissing \<Rightarrow> FileError 404
           | FsError c \<Rightarrow> FileError c
           | FsFile \<Rightarrow>
               if redirect \<and> ends_slash url
               then (if path_base url \<in> set [''/'', ''.''] then FileError 500 else FileRedirect (''../'' @ path_base url))
               else FileBody (dir_path root name)
           | FsDir \<Rightarrow>
               if \<not> ends_slash url then FileRedirect (path_base url @ ''/'')
               else (let index = dir_path root (without_last_slash name @ ''/index.html'')
                     in case fs index of FsFile \<Rightarrow> FileBody index | FsDir \<Rightarrow> DirList index | _ \<Rightarrow> DirList (dir_path root name)))"

text \<open>\<^verbatim>\<open>http.FileServer\<close> and \<^verbatim>\<open>http.ServeFile\<close>, which refuses requests whose path has the component \<^verbatim>\<open>..\<close>.\<close>

definition file_server :: "file_system \<Rightarrow> string \<Rightarrow> string \<Rightarrow> file_reply" where
  "file_server fs root url =
     (let upath = (if has_prefix url ''/'' then url else ''/'' @ url) in serve_file fs root upath (clean_path upath) True)"

definition has_dot_dot :: "string \<Rightarrow> bool" where
  "has_dot_dot p \<longleftrightarrow> ''..'' \<in> set (split_char (CHR ''/'') (map (\<lambda>c. if c = CHR 0x5C then CHR ''/'' else c) p))"

definition serve_named_file :: "file_system \<Rightarrow> string \<Rightarrow> string \<Rightarrow> file_reply" where
  "serve_named_file fs url name =
     (if has_dot_dot url then NotYours 400 ''invalid URL path''
      else let parts = split_char (CHR ''/'') name
           in serve_file fs (join_with ''/'' (butlast parts) @ (if tl parts = [] then [] else ''/'')) url (last parts) False)"

text \<open>\<^verbatim>\<open>http.StripPrefix\<close>, for paths without an encoded form of their own; \<^const>\<open>None\<close> is not found.\<close>

definition strip_prefix :: "string \<Rightarrow> http_request \<Rightarrow> http_request option" where
  "strip_prefix pre r =
     (if pre = [] then Some r
      else let p = trim_prefix (hr_path r) pre
           in if length p < length (hr_path r) then Some (r\<lparr>hr_path := p\<rparr>) else None)"

section \<open>Configuration\<close>

datatype react_config = ReactIndex "http_request \<Rightarrow> string" | ReactFallback string | ReactUnknown

record react_router =
  rr_static :: string
  rr_fallback :: string
  rr_addr :: string
  rr_index :: "http_request \<Rightarrow> string"

fun react_option :: "react_config \<Rightarrow> react_router \<Rightarrow> react_router" where
  "react_option (ReactIndex f) rr = rr\<lparr>rr_index := f\<rparr>"
| "react_option (ReactFallback d) rr = rr\<lparr>rr_fallback := d\<rparr>"
| "react_option ReactUnknown rr = rr"

definition react_app :: "string \<Rightarrow> string \<Rightarrow> react_config list \<Rightarrow> react_router" where
  "react_app dir addr cfg =
     fold react_option cfg \<lparr>rr_static = dir, rr_fallback = '''', rr_addr = addr, rr_index = (\<lambda>_. ''index.html'')\<rparr>"

section \<open>Serving the build\<close>

definition has_access_to_source_maps :: "string \<Rightarrow> http_request \<Rightarrow> bool" where
  "has_access_to_source_maps token r \<longleftrightarrow>
     token = '''' \<or> map_of (hr_cookies r) ''react-source-map-token'' = Some token
     \<or> hdr_get ''X-REACT_SOURCE_MAP_TOKEN'' (hr_header r) = token"

text \<open>\<open>os.IsNotExist\<close> of the error of \<open>os.Stat\<close>.\<close>

definition not_there :: "file_system \<Rightarrow> string \<Rightarrow> bool" where
  "not_there fs p \<longleftrightarrow> fs p = FsMissing"

text \<open>The folder whose files are served: the build's, unless only the fallback has the file; \<^const>\<open>None\<close> when neither has.\<close>

definition react_folder :: "file_system \<Rightarrow> react_router \<Rightarrow> string \<Rightarrow> string option" where
  "react_folder fs rr url =
     (if \<not> not_there fs (file_join (rr_static rr) (clean_path url)) then Some (rr_static rr)
      else if rr_fallback rr \<noteq> [] \<and> \<not> not_there fs (file_join (rr_fallback rr) (clean_path url)) then Some (rr_fallback rr)
      else None)"

definition react_serve :: "string \<Rightarrow> file_system \<Rightarrow> string \<Rightarrow> react_router \<Rightarrow> http_request \<Rightarrow> http_writer \<Rightarrow> http_writer \<times> file_reply" where
  "react_serve epoch fs token rr r w =
     (case (if hr_path r = ''/'' then None else react_folder fs rr (hr_path r)) of
        None \<Rightarrow>
          (case no_cache_func epoch r w of (r', w') \<Rightarrow> (w', serve_named_file fs (hr_path r') (file_join (rr_static rr) (rr_index rr r))))
      | Some dir \<Rightarrow>
          (let w' = (if has_prefix (hr_path r) ''/static'' then set_header ''Cache-Control'' ''max-age=31536000'' w else w)
           in if has_suffix (hr_path r) ''.js.map'' \<and> \<not> has_access_to_source_maps token r
              then (w', NotYours 403 ''You don't have access to source maps.'')
              else (w', file_server fs dir (hr_path r))))"

text \<open>\<^verbatim>\<open>Router.StaticFileDir\<close> and \<^verbatim>\<open>Router.ReactApp\<close>, for requests that the library routes here.\<close>

definition static_file_dir :: "file_system \<Rightarrow> string \<Rightarrow> string \<Rightarrow> http_request \<Rightarrow> file_reply" where
  "static_file_dir fs pre dir r =
     (case strip_prefix pre r of None \<Rightarrow> FileError 404 | Some r' \<Rightarrow> file_server fs dir (hr_path r'))"

definition mounted_react_app :: "bool \<Rightarrow> string \<Rightarrow> (http_request \<Rightarrow> http_writer \<Rightarrow> http_writer \<times> file_reply)
    \<Rightarrow> http_request \<Rightarrow> http_writer \<Rightarrow> http_writer \<times> file_reply" where
  "mounted_react_app testing pre app r w =
     (if has_prefix (hr_path r) pre
      then (if testing then app r w
            else (case strip_prefix pre r of None \<Rightarrow> (w, FileError 404) | Some r' \<Rightarrow> app r' w))
      else (w, FileError 404))"

section \<open>The reverse proxy\<close>

text \<open>
  \<open>client\<close> makes the request and answers it, or fails; it gets the body, or nothing when an earlier request has
  read it.
\<close>

record proxy_url =
  xu_scheme :: string
  xu_host :: string
  xu_path :: string
  xu_query :: "(string \<times> string) list"

record proxy_response =
  xr_status :: int
  xr_header :: http_header
  xr_body :: string

definition copy_header :: "http_header \<Rightarrow> http_header \<Rightarrow> http_header" where
  "copy_header src h = fold (\<lambda>(k, vs) h. fold (hdr_add k) vs (header_del k h)) src h"

function reverse_proxy :: "(string \<Rightarrow> proxy_url \<Rightarrow> string option \<Rightarrow> string + proxy_response) \<Rightarrow> string \<Rightarrow> proxy_url \<Rightarrow> string option
    \<Rightarrow> http_writer \<Rightarrow> http_writer option" where
  "reverse_proxy client meth u body w =
     (case client meth u body of
        Inl e \<Rightarrow> write_header 400 w
      | Inr res \<Rightarrow>
          if xr_status res = 404 \<and> xu_path u \<noteq> ''/'' then reverse_proxy client meth (u\<lparr>xu_path := ''/''\<rparr>) None w
          else (case write_header (xr_status res) (w\<lparr>wr_header := copy_header (xr_header res) (wr_header w)\<rparr>) of
                  None \<Rightarrow> None
                | Some w' \<Rightarrow> Some (if xr_body res = [] then w' else w_write (xr_body res) w')))"
  by pat_completeness auto
termination
  by (relation "measure (\<lambda>(client, meth, u, body, w). if xu_path u = ''/'' then 0 else 1)") auto

declare reverse_proxy.simps [simp del]

definition serve_create_react_app :: "(string \<Rightarrow> proxy_url \<Rightarrow> string option \<Rightarrow> string + proxy_response) \<Rightarrow> react_router
    \<Rightarrow> http_request \<Rightarrow> http_writer \<Rightarrow> http_writer option" where
  "serve_create_react_app client rr r w =
     reverse_proxy client (hr_method r) \<lparr>xu_scheme = ''http'', xu_host = rr_addr rr, xu_path = hr_path r, xu_query = hr_query r\<rparr> (Some (hr_body r)) w"

section \<open>Facts on paths\<close>

text \<open>The components that cleaning looks at.\<close>

definition path_parts :: "string \<Rightarrow> string list" where
  "path_parts p = filter (\<lambda>c. c \<noteq> '''' \<and> c \<noteq> ''.'') (split_char (CHR ''/'') p)"

lemma path_parts_append: "path_parts (a @ CHR ''/'' # b) = path_parts a @ path_parts b"
  by (simp add: path_parts_def split_char_append)

lemma path_parts_slash [simp]: "path_parts (CHR ''/'' # b) = path_parts b"
  using path_parts_append[of "[]" b] by (simp add: path_parts_def)

lemma path_parts_join: "\<forall>c\<in>set st. plain_component c \<Longrightarrow> path_parts (join_with ''/'' st) = st"
proof (cases "st = []")
  case False
  assume st: "\<forall>c\<in>set st. plain_component c"
  then have "filter (\<lambda>c. c \<noteq> '''' \<and> c \<noteq> ''.'') st = st" by (auto simp: filter_id_conv plain_component_def)
  then show ?thesis by (simp add: path_parts_def join_plain(2)[OF False st])
qed (simp add: path_parts_def)

lemma clean_slash: "clean_path (CHR ''/'' # n) = CHR ''/'' # join_with ''/'' (foldl (clean_step True) [] (path_parts n))"
  using clean_rooted[of n] by (simp add: path_parts_def)

lemma clean_slash_plain:
  obtains st where "\<forall>c\<in>set st. plain_component c" "clean_path (CHR ''/'' # n) = CHR ''/'' # join_with ''/'' st"
proof -
  have "\<forall>c\<in>set (path_parts n). c \<noteq> '''' \<and> c \<noteq> ''.'' \<and> CHR ''/'' \<notin> set c" by (auto simp: path_parts_def dest: split_char_parts)
  from clean_stack[OF this, of "[]"] show ?thesis using that clean_slash by auto
qed

lemma clean_plain: "\<forall>c\<in>set st. plain_component c \<Longrightarrow> clean_path (CHR ''/'' # join_with ''/'' st) = CHR ''/'' # join_with ''/'' st"
  by (simp add: clean_slash path_parts_join clean_stack_id)

text \<open>A path of a file lies in a folder: from there on only plain components follow, so that it cannot climb.\<close>

definition inside :: "string \<Rightarrow> string \<Rightarrow> bool" where
  "inside root p \<longleftrightarrow> (\<exists>st. (\<forall>c\<in>set st. plain_component c) \<and> p = clean_path ((if root = [] then ''.'' else root) @ ''//'' @ join_with ''/'' st))"

lemma dir_path_inside [simp]: "inside root (dir_path root name)"
proof -
  obtain st where st: "\<forall>c\<in>set st. plain_component c" "clean_path (CHR ''/'' # name) = CHR ''/'' # join_with ''/'' st"
    by (rule clean_slash_plain)
  then show ?thesis unfolding inside_def by (intro exI[of _ st]) (auto simp: dir_path_def file_join_def)
qed

lemma join_with_last: "st \<noteq> [] \<Longrightarrow> \<exists>y. join_with ''/'' st = y @ last st \<and> (y = [] \<or> last y = CHR ''/'')"
proof (induction st rule: induct_list012)
  case (3 a b st)
  then obtain y where y: "join_with ''/'' (b # st) = y @ last (b # st)" "y = [] \<or> last y = CHR ''/''" by auto
  then show ?case by (intro exI[of _ "a @ ''/'' @ y"]) auto
qed auto

lemma suffix_of_last:
  assumes "has_suffix (y @ c) suf" "y = [] \<or> last y = CHR ''/''" "CHR ''/'' \<notin> set suf"
  shows "has_suffix c suf"
proof (cases "length suf \<le> length c")
  case True
  then show ?thesis using assms(1) by (auto simp: has_suffix_iff append_eq_append_conv2)
next
  case False
  obtain r where r: "y @ c = r @ suf" using assms(1) by (auto simp: has_suffix_iff)
  then have y: "y \<noteq> []" using False by (cases y) auto
  obtain us where "suf = us @ c \<and> y = r @ us" using r False by (auto simp: append_eq_append_conv2)
  then have "us \<noteq> []" "suf = us @ c" "last y = last us" using False by auto
  then have "last y \<in> set suf" by auto
  then show ?thesis using assms(2,3) y by auto
qed

text \<open>The last component of a plain name is the last one of the path.\<close>

lemma dir_path_suffix:
  assumes "st \<noteq> []" "\<forall>c\<in>set st. plain_component c" "has_suffix (dir_path root (CHR ''/'' # join_with ''/'' st)) suf" "CHR ''/'' \<notin> set suf"
  shows "has_suffix (last st) suf"
proof -
  let ?root = "if root = [] then ''.'' else root" and ?j = "join_with ''/'' st"
  have "clean_path (CHR ''/'' # CHR ''/'' # ?j) = CHR ''/'' # ?j" using clean_plain[OF assms(2)] by (simp add: clean_slash)
  then have d: "dir_path root (CHR ''/'' # ?j) = clean_path (?root @ CHR ''/'' # CHR ''/'' # ?j)" by (simp add: dir_path_def file_join_def)
  let ?rooted = "has_prefix (?root @ CHR ''/'' # CHR ''/'' # ?j) ''/''"
  let ?st = "foldl (clean_step ?rooted) [] (path_parts ?root) @ st"
  have "path_parts (?root @ CHR ''/'' # CHR ''/'' # ?j) = path_parts ?root @ st"
    using path_parts_append[of ?root "CHR ''/'' # ?j"] path_parts_join[OF assms(2)] by simp
  then have "foldl (clean_step ?rooted) [] (path_parts (?root @ CHR ''/'' # CHR ''/'' # ?j)) = ?st"
    by (simp add: clean_stack_id[OF assms(2)])
  then have c: "dir_path root (CHR ''/'' # ?j) = (let x = (if ?rooted then ''/'' else '''') @ join_with ''/'' ?st in if x = [] then ''.'' else x)"
    unfolding d clean_path_def path_parts_def[symmetric] Let_def by simp
  obtain y where y: "join_with ''/'' ?st = y @ last st" "y = [] \<or> last y = CHR ''/''"
    using join_with_last[of ?st] assms(1) by auto
  have "last st \<noteq> []" using assms(1,2) by (auto simp: plain_component_def)
  then have e: "dir_path root (CHR ''/'' # ?j) = ((if ?rooted then ''/'' else '''') @ y) @ last st"
    using c y(1) by (simp add: Let_def)
  show ?thesis by (rule suffix_of_last[OF assms(3)[unfolded e] _ assms(4)]) (use y(2) in auto)
qed

section \<open>Facts on serving\<close>

lemma serve_file_inside: "serve_file fs root url name redirect = FileBody p \<Longrightarrow> inside root p"
  by (auto simp: serve_file_def Let_def split: if_splits fs_entry.splits)

lemma file_server_inside: "file_server fs root url = FileBody p \<Longrightarrow> inside root p"
  using serve_file_inside by (auto simp: file_server_def Let_def)

text \<open>For a cleaned path other than the root, the file server gives the file of that very name.\<close>

lemma file_server_clean:
  assumes "file_server fs root (CHR ''/'' # join_with ''/'' st) = FileBody p" "\<forall>c\<in>set st. plain_component c" "st \<noteq> []"
  shows "p = dir_path root (CHR ''/'' # join_with ''/'' st)"
proof -
  let ?u = "CHR ''/'' # join_with ''/'' st"
  have "last ?u \<noteq> CHR ''/''"
  proof -
    obtain y where "join_with ''/'' st = y @ last st" using join_with_last[OF assms(3)] by blast
    moreover have "last st \<noteq> []" "CHR ''/'' \<notin> set (last st)" using assms(2,3) by (auto simp: plain_component_def)
    ultimately show ?thesis by (auto dest: last_in_set)
  qed
  then have "\<not> ends_slash ?u" by (simp add: ends_slash_def)
  moreover have "file_server fs root ?u = serve_file fs root ?u ?u True"
    using clean_plain[OF assms(2)] by (simp add: file_server_def Let_def)
  ultimately show ?thesis using assms(1) by (auto simp: serve_file_def Let_def split: if_splits fs_entry.splits)
qed

lemma react_folder_dir: "react_folder fs rr url = Some dir \<Longrightarrow> dir \<in> {rr_static rr, rr_fallback rr}"
  by (auto simp: react_folder_def split: if_splits)

definition clean_url :: "string \<Rightarrow> bool" where
  "clean_url u \<longleftrightarrow> has_prefix u ''/'' \<and> clean_path u = u"

lemma clean_url_stack:
  assumes "clean_url u" "u \<noteq> ''/''"
  obtains st where "st \<noteq> []" "\<forall>c\<in>set st. plain_component c" "u = CHR ''/'' # join_with ''/'' st"
proof -
  obtain v where v: "u = CHR ''/'' # v" using assms(1) by (cases u) (auto simp: clean_url_def)
  obtain st where st: "\<forall>c\<in>set st. plain_component c" "clean_path u = CHR ''/'' # join_with ''/'' st"
    unfolding v by (rule clean_slash_plain)
  then have "u = CHR ''/'' # join_with ''/'' st" using assms(1) by (simp add: clean_url_def)
  then show ?thesis using that[of st] st(1) assms(2) by (cases "st = []") auto
qed

text \<open>
  Files of the front end.  A body that the handler answers with is a file inside the build folder or the
  fallback folder, named by plain components below it, whatever path, cookies and headers the request has and
  whatever is on the disk -- or else it is the index file, which is only given without caching, for the root and for
  paths that neither folder has.  When a source map token is set, a request with a cleaned path (as the router
  makes it) gets a file whose name ends in \<^verbatim>\<open>.js.map\<close> only with that token.
\<close>
theorem react_files_safe:
  assumes "react_serve epoch fs token rr r w = (w', FileBody p)"
  shows "(hr_path r = ''/'' \<or> react_folder fs rr (hr_path r) = None) \<and> w' = snd (no_cache_func epoch r w)
      \<and> serve_named_file fs (hr_path r) (file_join (rr_static rr) (rr_index rr r)) = FileBody p
    \<or> (inside (rr_static rr) p \<or> inside (rr_fallback rr) p)
      \<and> (token \<noteq> '''' \<and> \<not> has_access_to_source_maps token r \<and> clean_url (hr_path r) \<longrightarrow> \<not> has_suffix p ''.js.map'')"
proof (cases "hr_path r = ''/'' \<or> react_folder fs rr (hr_path r) = None")
  case True
  then have "react_serve epoch fs token rr r w =
      (snd (no_cache_func epoch r w), serve_named_file fs (hr_path r) (file_join (rr_static rr) (rr_index rr r)))"
    by (auto simp: react_serve_def no_cache_func_def)
  then show ?thesis using assms True by simp
next
  case False
  then obtain dir where dir: "react_folder fs rr (hr_path r) = Some dir" and np: "hr_path r \<noteq> ''/''" by auto
  have served: "file_server fs dir (hr_path r) = FileBody p"
    and map: "\<not> (has_suffix (hr_path r) ''.js.map'' \<and> \<not> has_access_to_source_maps token r)"
    using assms dir np by (auto simp: react_serve_def Let_def split: if_splits)
  have "\<not> has_suffix p ''.js.map''" if t: "\<not> has_access_to_source_maps token r" "clean_url (hr_path r)"
  proof
    assume suf: "has_suffix p ''.js.map''"
    obtain st where st: "st \<noteq> []" "\<forall>c\<in>set st. plain_component c" "hr_path r = CHR ''/'' # join_with ''/'' st"
      by (rule clean_url_stack[OF t(2) np])
    have "p = dir_path dir (CHR ''/'' # join_with ''/'' st)" using file_server_clean[OF _ st(2,1)] served st(3) by simp
    then have "has_suffix (last st) ''.js.map''" using dir_path_suffix[OF st(1,2), of dir "''.js.map''"] suf by simp
    moreover obtain y where "join_with ''/'' st = y @ last st" using join_with_last[OF st(1)] by blast
    ultimately have "has_suffix (hr_path r) ''.js.map''" using st(3) by (auto simp: has_suffix_iff intro: exI[of _ "CHR ''/'' # y @ _"])
    then show False using map t(1) by blast
  qed
  then show ?thesis using react_folder_dir[OF dir] file_server_inside[OF served] by auto
qed

text \<open>A build, and a request to it.\<close>

definition sample_fs :: file_system where
  "sample_fs p =
     (if p \<in> set [''build/index.html'', ''build/admin.html'', ''build/static/a.js.map'', ''build/static/a.js''] then FsFile
      else if p \<in> set [''build'', ''build/static''] then FsDir else FsMissing)"

definition get_request :: "string \<Rightarrow> http_request" where
  "get_request p = \<lparr>hr_method = ''GET'', hr_path = p, hr_header = [], hr_cookies = [], hr_query = [], hr_body = '''', hr_remote_addr = ''''\<rparr>"

definition sample_app :: react_router where
  "sample_app = react_app ''build'' ''localhost:3000'' [ReactIndex (\<lambda>_. ''admin.html'')]"

lemma plain_static [simp]: "plain_component ''static''" "plain_component ''a.js''"
  by (simp_all add: plain_component_def)

lemmas serve_defs = react_serve_def react_folder_def not_there_def file_join_def clean_path_def clean_step_def sample_app_def react_app_def
  sample_fs_def get_request_def file_server_def serve_file_def dir_path_def ends_slash_def has_suffix_def Let_def

lemma sample_js: "react_serve epoch sample_fs token sample_app (get_request ''/static/a.js'') fresh_writer
    = (set_header ''Cache-Control'' ''max-age=31536000'' fresh_writer, FileBody ''build/static/a.js'')"
  by (simp add: serve_defs)

lemma react_files_safe_witness: "inside ''build'' ''build/static/a.js'' \<or> inside '''' ''build/static/a.js''"
  using react_files_safe[OF sample_js] by (simp add: serve_defs)

section \<open>Findings\<close>

text \<open>
  Mounted at \<^verbatim>\<open>/\<close>, as the documentation shows it, the handler sees the root as the empty path: the index comes
  from the file server, with the configured index file not asked for and without the headers against caching.  And
  paths of static files have lost their slash, so that they are never marked for the cache.
\<close>

lemma mounted_root_skips_index:
  "mounted_react_app False ''/'' (react_serve epoch sample_fs token sample_app) (get_request ''/'') fresh_writer
    = (fresh_writer, FileBody ''build/index.html'')"
  by (simp add: serve_defs mounted_react_app_def strip_prefix_def trim_prefix_def without_last_slash_def)

lemma root_gives_custom_index:
  "react_serve epoch sample_fs token sample_app (get_request ''/'') fresh_writer
    = (snd (no_cache_func epoch (get_request ''/'') fresh_writer), FileBody ''build/admin.html'')"
  by (simp add: serve_defs no_cache_func_def serve_named_file_def has_dot_dot_def)

lemma mounted_static_not_cached:
  "mounted_react_app False ''/'' (react_serve epoch sample_fs token sample_app) (get_request ''/static/a.js'') fresh_writer
    = (fresh_writer, FileBody ''build/static/a.js'')"
  by (simp add: serve_defs mounted_react_app_def strip_prefix_def trim_prefix_def)

text \<open>
  Without a router that cleans paths the check on source maps can be avoided: the file server cleans the path after
  the suffix was looked at.
\<close>

lemma source_map_without_token:
  "react_serve epoch sample_fs ''secret'' sample_app (get_request ''/static/a.js.map/.'') fresh_writer
    = (set_header ''Cache-Control'' ''max-age=31536000'' fresh_writer, FileBody ''build/static/a.js.map'')"
  by (simp add: serve_defs)

text \<open>A directory of the build is listed, and the listing may be cached for a year; it is no route of the app.\<close>

lemma directory_is_listed:
  "react_serve epoch sample_fs token sample_app (get_request ''/static/'') fresh_writer
    = (set_header ''Cache-Control'' ''max-age=31536000'' fresh_writer, DirList ''build/static'')"
  by (simp add: serve_defs without_last_slash_def)

section \<open>Facts on the proxy\<close>

text \<open>At most two requests are made, and what the writer gets is the last answer.\<close>

lemma reverse_proxy_root: "xu_path u = ''/'' \<Longrightarrow> reverse_proxy client meth u body w =
    (case client meth u body of
       Inl e \<Rightarrow> write_header 400 w
     | Inr res \<Rightarrow> map_option (\<lambda>w'. if xr_body res = [] then w' else w_write (xr_body res) w')
         (write_header (xr_status res) (w\<lparr>wr_header := copy_header (xr_header res) (wr_header w)\<rparr>)))"
  by (simp add: reverse_proxy.simps split: sum.splits option.splits)

lemma header_values_adds: "header_values n (fold (hdr_add k) vs h) = (if n = canonical_key k then header_values n h @ vs else header_values n h)"
  by (induction vs arbitrary: h) auto

text \<open>The headers of the answer replace those of the writer.\<close>

lemma copy_header_values:
  assumes "distinct (map fst src)" "\<forall>(k, vs)\<in>set src. canonical_key k = k"
  shows "header_values n (copy_header src h) = (case map_of src n of Some vs \<Rightarrow> vs | None \<Rightarrow> header_values n h)"
  using assms unfolding copy_header_def
proof (induction src arbitrary: h)
  case (Cons kv src)
  obtain k vs where kv: "kv = (k, vs)" by (cases kv)
  then show ?case using Cons by (auto simp: header_values_adds map_of_eq_None_iff[symmetric] split: option.splits)
qed simp

end
