(* ===== verification/PageData.thy ===== *)
theory PageData
  imports HttpAuth "HOL-Library.Sublist"
begin

text \<open>
  What pages are told: data in scripts (\<^verbatim>\<open>jsutil/main.go\<close>), the version of the front end
  (\<^verbatim>\<open>res/reactappver/main.go\<close>), and the time limits of the server (\<^verbatim>\<open>httpdefaults/main.go\<close>).
\<close>

section \<open>Data in scripts\<close>

definition line_sep :: string where "line_sep = [CHR 0xE2, CHR 0x80, CHR 0xA8]"
definition para_sep :: string where "para_sep = [CHR 0xE2, CHR 0x80, CHR 0xA9]"
definition line_sep_esc :: string where "line_sep_esc = CHR 0x5C # ''u2028''"
definition para_sep_esc :: string where "para_sep_esc = CHR 0x5C # ''u2029''"

text \<open>\<open>marshal\<close> is the JSON library's encoder with its escaping of HTML; its error panics.\<close>

definition js_encode :: "('a \<Rightarrow> string + string) \<Rightarrow> 'a \<Rightarrow> string + string" where
  "js_encode marshal x =
     (case marshal x of
        Inl e \<Rightarrow> Inl e
      | Inr content \<Rightarrow> Inr (replace_all (replace_all content line_sep line_sep_esc) para_sep para_sep_esc))"

definition js_encode_string :: "('a \<Rightarrow> string + string) \<Rightarrow> 'a \<Rightarrow> string + string" where
  "js_encode_string marshal x = js_encode marshal x"

section \<open>The version of the front end\<close>

record watcher_input =
  wi_scheme :: string
  wi_host :: string
  wi_port :: string
  wi_path :: string
  wi_meta :: string

definition version_url :: "watcher_input \<Rightarrow> string" where
  "version_url x = coalesce (wi_scheme x) ''http:'' @ ''//'' @ coalesce (wi_host x) ''localhost'' @ '':''
     @ coalesce (wi_port x) ''80'' @ coalesce (wi_path x) ''/index.html''"

text \<open>
  \<open>fetch\<close> gets an address, \<open>attribute\<close> reads the content of the first element that a selector finds in a
  document, if the document can be read.
\<close>

definition get_file_version :: "(string \<Rightarrow> string + 'doc) \<Rightarrow> ('doc \<Rightarrow> string \<Rightarrow> string + string option) \<Rightarrow> watcher_input \<Rightarrow> string" where
  "get_file_version fetch attribute x =
     (case fetch (version_url x) of
        Inl e \<Rightarrow> ''''
      | Inr doc \<Rightarrow>
          (case attribute doc (''meta[name='' @ [CHR 0x22] @ coalesce (wi_meta x) ''app_version'' @ [CHR 0x22] @ '']'') of
             Inl e \<Rightarrow> ''''
           | Inr None \<Rightarrow> ''''
           | Inr (Some v) \<Rightarrow> v))"

text \<open>The watcher's loop: a tick reads the version anew, a reader is given the one at hand.\<close>

datatype watch_event = WatchTick string | WatchAsk

fun version_watcher :: "string \<Rightarrow> watch_event list \<Rightarrow> string list" where
  "version_watcher v [] = []"
| "version_watcher v (WatchTick v2 # es) = version_watcher v2 es"
| "version_watcher v (WatchAsk # es) = v # version_watcher v es"

text \<open>\<^verbatim>\<open>CurrentVersion\<close>: \<^const>\<open>None\<close> stands for a context that is done before the watcher answers.\<close>

definition current_version :: "string option \<Rightarrow> string" where
  "current_version answer = (case answer of None \<Rightarrow> '''' | Some v \<Rightarrow> v)"

section \<open>The server\<close>

record http_server =
  hs_addr :: string
  hs_read :: int
  hs_read_header :: int
  hs_write :: int
  hs_idle :: int

definition default_server :: "string \<Rightarrow> http_server" where
  "default_server port = \<lparr>hs_addr = '':'' @ port, hs_read = 5 * go_second, hs_read_header = 5 * go_second,
     hs_write = 10 * go_second, hs_idle = 30 * go_second\<rparr>"

section \<open>Facts\<close>

text \<open>
  Bytes of a multi-byte character are not ASCII, and escapes are: replacing one by the other makes no new
  occurrence of such bytes.
\<close>

definition high :: "string \<Rightarrow> bool" where
  "high u \<longleftrightarrow> u \<noteq> [] \<and> (\<forall>c\<in>set u. \<not> is_ascii c)"

definition low :: "string \<Rightarrow> bool" where
  "low u \<longleftrightarrow> u \<noteq> [] \<and> (\<forall>c\<in>set u. is_ascii c)"

lemma high_prefix_replaced:
  assumes "\<forall>c\<in>set u. \<not> is_ascii c" "low new" "prefix u (replace_all s old new)"
  shows "prefix u s"
  using assms
proof (induction s old new arbitrary: u rule: replace_all.induct)
  case (2 c cs old new)
  show ?case
  proof (cases "old \<noteq> [] \<and> has_prefix (c # cs) old")
    case True
    obtain d ds where d: "new = d # ds" "is_ascii d" using "2.prems"(2) by (cases new) (auto simp: low_def)
    then have "u = []" using "2.prems"(1,3) True by (cases u) auto
    then show ?thesis by simp
  next
    case False
    show ?thesis
    proof (cases u)
      case (Cons a as)
      then have "prefix as cs" using "2.IH"(2)[OF False, of as] "2.prems" False by auto
      then show ?thesis using Cons "2.prems"(3) False by auto
    qed simp
  qed
qed simp

lemma low_high_sublist:
  assumes "low new" "high u" "sublist u (new @ r)"
  shows "sublist u r"
proof -
  have step: "sublist u (vs @ r) \<Longrightarrow> sublist u r" if "\<forall>c\<in>set vs. is_ascii c" for vs
    using that assms(2)
  proof (induction vs)
    case (Cons a vs)
    have "prefix u (a # vs @ r) \<or> sublist u (vs @ r)" using Cons.prems(1) by (simp add: sublist_Cons_right)
    moreover have "\<not> prefix u (a # vs @ r)" using Cons.prems(2,3) by (cases u) (auto simp: high_def)
    ultimately show ?case using Cons by auto
  qed simp
  show ?thesis by (rule step[of new]) (use assms(1,3) in \<open>simp_all add: low_def\<close>)
qed

lemma replaced_no_new:
  assumes "low new" "high u" "sublist u (replace_all s old new)"
  shows "sublist u s"
  using assms
proof (induction s old new rule: replace_all.induct)
  case (2 c cs old new)
  show ?case
  proof (cases "old \<noteq> [] \<and> has_prefix (c # cs) old")
    case True
    then have "sublist u (replace_all (drop (length old) (c # cs)) old new)"
      using low_high_sublist[OF "2.prems"(1,2)] "2.prems"(3) by simp
    then have "sublist u (drop (length old) (c # cs))" using "2.IH"(1)[OF True "2.prems"(1,2)] by blast
    then show ?thesis using sublist_drop sublist_order.order_trans by blast
  next
    case False
    then have "prefix u (c # replace_all cs old new) \<or> sublist u (replace_all cs old new)"
      using "2.prems"(3) by (auto simp: sublist_Cons_right)
    then show ?thesis
    proof
      assume p: "prefix u (c # replace_all cs old new)"
      then obtain us where us: "u = c # us" using "2.prems"(2) by (cases u) (auto simp: high_def)
      then have "prefix us cs" using high_prefix_replaced[of us new cs old] "2.prems"(1,2) p by (simp add: high_def)
      then show ?thesis using us by (simp add: sublist_Cons_right)
    next
      assume "sublist u (replace_all cs old new)"
      then show ?thesis using "2.IH"(2)[OF False "2.prems"(1,2)] by (simp add: sublist_Cons_right)
    qed
  qed
qed simp

lemma replaced_gone:
  assumes "low new" "high old"
  shows "\<not> sublist old (replace_all s old new)"
  using assms
proof (induction s old new rule: replace_all.induct)
  case (2 c cs old new)
  show ?case
  proof (cases "old \<noteq> [] \<and> has_prefix (c # cs) old")
    case True
    then show ?thesis using low_high_sublist[OF "2.prems"] "2.IH"(1)[OF True "2.prems"] by auto
  next
    case False
    have "\<not> prefix old (c # replace_all cs old new)"
    proof
      assume p: "prefix old (c # replace_all cs old new)"
      then obtain us where us: "old = c # us" using "2.prems"(2) by (cases old) (auto simp: high_def)
      then have "prefix us cs" using high_prefix_replaced[of us new cs old] "2.prems" p by (simp add: high_def)
      then have "has_prefix (c # cs) old" using us by (auto simp: has_prefix_iff prefix_def)
      then show False using False us by simp
    qed
    then show ?thesis using "2.IH"(2)[OF False "2.prems"] False by (auto simp: sublist_Cons_right)
  qed
qed (simp add: high_def)

lemma set_replace_all: "set (replace_all s old new) \<subseteq> set s \<union> set new"
proof (induction s old new rule: replace_all.induct)
  case (2 c cs old new)
  then show ?case using set_drop_subset[of "length old" "c # cs"] by auto
qed simp

lemma separators [simp]: "high line_sep" "high para_sep" "low line_sep_esc" "low para_sep_esc"
  by (simp_all add: high_def low_def is_ascii_def line_sep_def para_sep_def line_sep_esc_def para_sep_esc_def)

text \<open>
  Data embedded in a script ends neither the script nor a line of it, when the library's encoder escapes the
  characters of HTML, as it documents.
\<close>

lemma js_encode_safe:
  assumes "\<And>x c. marshal x = Inr c \<Longrightarrow> set c \<inter> set ''<>&'' = {}" "js_encode marshal x = Inr out"
  shows "set out \<inter> set ''<>&'' = {} \<and> \<not> sublist line_sep out \<and> \<not> sublist para_sep out"
proof -
  obtain c where c: "marshal x = Inr c" "out = replace_all (replace_all c line_sep line_sep_esc) para_sep para_sep_esc"
    using assms(2) by (auto simp: js_encode_def split: sum.splits)
  have "set out \<subseteq> set c \<union> set line_sep_esc \<union> set para_sep_esc"
    unfolding c(2) using set_replace_all by (metis (no_types, lifting) Un_mono order_refl order_trans)
  then have "set out \<inter> set ''<>&'' = {}" using assms(1)[OF c(1)] by (auto simp: line_sep_esc_def para_sep_esc_def)
  moreover have "\<not> sublist line_sep out" unfolding c(2)
    using replaced_no_new[of para_sep_esc line_sep] replaced_gone[of line_sep_esc line_sep] by auto
  ultimately show ?thesis unfolding c(2) using replaced_gone[of para_sep_esc para_sep] by auto
qed

lemma js_encode_safe_example:
  "js_encode (\<lambda>s :: string. Inr s) (''a'' @ line_sep @ ''b'' @ para_sep) = Inr (''a'' @ line_sep_esc @ ''b'' @ para_sep_esc)"
  by (simp add: js_encode_def line_sep_def para_sep_def line_sep_esc_def para_sep_esc_def)

text \<open>A reader is given the version of the last tick before it.\<close>

fun last_tick :: "string \<Rightarrow> watch_event list \<Rightarrow> string" where
  "last_tick v [] = v"
| "last_tick v (WatchTick v2 # es) = last_tick v2 es"
| "last_tick v (WatchAsk # es) = last_tick v es"

lemma watcher_latest: "version_watcher v (es @ WatchAsk # es') = version_watcher v es @ last_tick v es # version_watcher (last_tick v es) es'"
  by (induction v es rule: version_watcher.induct) auto

text \<open>When the page cannot be fetched once, readers are given the empty version until the next tick.\<close>

lemma failed_poll_clears_version:
  assumes "fetch (version_url x) = Inl e"
  shows "version_watcher ''1.0'' [WatchAsk, WatchTick (get_file_version fetch attribute x), WatchAsk] = [''1.0'', '''']"
  using assms by (simp add: get_file_version_def)

end
