(* ===== verification/ResEdge.thy ===== *)
theory ResEdge
  imports ResCore
begin

text \<open>
  The rest of the router (\<^verbatim>\<open>res/router.go\<close>): making one, what is called when no route matches, the middlewares of
  the library's router, and the handling of panics for handlers that the router does not wrap.
\<close>

section \<open>Making a router\<close>

record 'h mux_router = "'h router" +
  mr_not_found :: "'h option"
  mr_middlewares :: "('h \<Rightarrow> 'h) list"

definition new_router :: "'h mux_router" where
  "new_router = \<lparr>rt_routes = [], mr_not_found = None, mr_middlewares = []\<rparr>"

definition not_found_handler :: "'h \<Rightarrow> 'h mux_router \<Rightarrow> 'h mux_router" where
  "not_found_handler h rt = rt\<lparr>mr_not_found := Some h\<rparr>"

definition router_use :: "('h \<Rightarrow> 'h) list \<Rightarrow> 'h mux_router \<Rightarrow> 'h mux_router" where
  "router_use mws rt = rt\<lparr>mr_middlewares := mr_middlewares rt @ mws\<rparr>"

text \<open>What the library's router does with them: the middlewares go around a route's handler, not around the one for no route.\<close>

definition mux_handler :: "'h mux_router \<Rightarrow> (string \<times> string \<times> 'h \<Rightarrow> bool) \<Rightarrow> 'h option" where
  "mux_handler rt matches =
     (case find matches (rt_routes rt) of
        Some (_, _, h) \<Rightarrow> Some (foldr (\<lambda>m h. m h) (mr_middlewares rt) h)
      | None \<Rightarrow> mr_not_found rt)"

section \<open>Requests\<close>

definition get_cookie_value :: "http_request \<Rightarrow> string \<Rightarrow> string" where
  "get_cookie_value r name = (case map_of (hr_cookies r) name of None \<Rightarrow> '''' | Some v \<Rightarrow> v)"

definition parse_json :: "(string \<Rightarrow> go_error + 'a) \<Rightarrow> string \<Rightarrow> go_error + 'a" where
  "parse_json decode body = decode body"

section \<open>Panics\<close>

text \<open>Go's \<^verbatim>\<open>recover\<close> gives the value of a panic only to a function that is deferred itself.\<close>

definition go_recover :: "bool \<Rightarrow> panic_value option \<Rightarrow> panic_value option" where
  "go_recover deferred p = (if deferred then p else None)"

text \<open>\<^verbatim>\<open>er.HandleErrors\<close> with a callback that answers the request; the panic that goes on, if any.\<close>

definition handle_http_errors :: "bool \<Rightarrow> res_env \<Rightarrow> http_request \<Rightarrow> panic_value option \<Rightarrow> http_writer \<Rightarrow> panic_value option \<times> http_writer" where
  "handle_http_errors deferred env r p w =
     (case go_recover deferred p of None \<Rightarrow> (p, w) | Some q \<Rightarrow> recover_panic env r q w)"

text \<open>\<^verbatim>\<open>AutoHandleHttpPanics\<close>, deferred by a handler: what it calls is not deferred itself.\<close>

definition auto_handle_http_panics :: "res_env \<Rightarrow> http_request \<Rightarrow> panic_value option \<Rightarrow> http_writer \<Rightarrow> panic_value option \<times> http_writer" where
  "auto_handle_http_panics env r p w = handle_http_errors False env r p w"

text \<open>
  So it never handles any: the panic of a handler that relies on it goes on, and nothing is written.  Deferring
  \<^verbatim>\<open>er.HandleErrors\<close>, as \<^verbatim>\<open>WrapHTTPFunc\<close> does, recovers every one.
\<close>

lemma auto_handle_never: "auto_handle_http_panics env r p w = (p, w)"
  by (simp add: auto_handle_http_panics_def handle_http_errors_def go_recover_def)

lemma deferred_handles: "handle_http_errors True env r (Some p) w = recover_panic env r p w"
  by (simp add: handle_http_errors_def go_recover_def)

lemma wrapped_recovers:
  "handler r (read_limited max_body (hr_body r)) = Panicked p \<Longrightarrow>
     wrap_http_func env max_body handler r w = handle_http_errors True env r (Some p) w"
  by (simp add: wrap_http_func_def deferred_handles)

end
