(* ===== verification/Azure.thy ===== *)
theory Azure
  imports Mail Currency JvColl ErCore GoFloat "HOL-Library.List_Lexorder"
begin

text \<open>
  The clients of the document services (\<^verbatim>\<open>integrations/azure/azuredocintel\<close>, \<^verbatim>\<open>azureformrecognize\<close>): their
  requests, which differ in the name of the service, and the headers of the tables that come back.
\<close>

section \<open>Query parameters\<close>

text \<open>\<^verbatim>\<open>url.Values\<close>, its \<^verbatim>\<open>Set\<close> and its \<^verbatim>\<open>Encode\<close>, which sorts by the keys.\<close>

type_synonym url_values = "(string \<times> string list) list"

definition values_set :: "string \<Rightarrow> string \<Rightarrow> url_values \<Rightarrow> url_values" where
  "values_set k v q = filter (\<lambda>(k', _). k' \<noteq> k) q @ [(k, [v])]"

definition unreserved :: "char \<Rightarrow> bool" where
  "unreserved c \<longleftrightarrow> is_digit c \<or> is_lower_letter c \<or> is_upper_letter c \<or> c \<in> set ''-_.~''"

fun query_escape :: "string \<Rightarrow> string" where
  "query_escape [] = []"
| "query_escape (c # cs) =
     (if c = CHR '' '' then CHR ''+'' # query_escape cs
      else if unreserved c then c # query_escape cs
      else CHR ''%'' # upper_hex (byte c div 16) # upper_hex (byte c mod 16) # query_escape cs)"

definition query_pairs :: "url_values \<Rightarrow> (string \<times> string) list" where
  "query_pairs q = concat (map (\<lambda>(k, vs). map (Pair k) vs) (sort_key (\<lambda>kv. map byte (fst kv)) q))"

definition query_encode :: "url_values \<Rightarrow> string" where
  "query_encode q = join_with ''&'' (map (\<lambda>(k, v). query_escape k @ ''='' @ query_escape v) (query_pairs q))"

section \<open>Requests\<close>

record azure_config =
  az_subscription :: string
  az_verbose :: bool
  az_module :: string
  az_version :: string
  az_api_version :: string
  az_endpoint :: string

definition azure_init :: "string \<Rightarrow> string \<Rightarrow> string \<Rightarrow> bool \<Rightarrow> environ \<Rightarrow> azure_config setting" where
  "azure_init prefix_name modname api unit_test env =
     bind_setting (require_env unit_test env ''AZURE_SUBSCRIPTION_ID'') (\<lambda>sub.
       bind_setting (optional_bool unit_test env (prefix_name @ ''_VERBOSE'') False) (\<lambda>verb.
         bind_setting (require_env unit_test env (prefix_name @ ''_ENDPOINT'')) (\<lambda>endpoint.
           Goes_on \<lparr>az_subscription = sub, az_verbose = verb,
             az_module = optional_env env (prefix_name @ ''_TRACE_MODULE_NAME'') modname,
             az_version = optional_env env (prefix_name @ ''_TRACE_MODULE_VERSION'') ''v1.0'',
             az_api_version = optional_env env (prefix_name @ ''_API_VERSION'') api, az_endpoint = endpoint\<rparr> [])))"

definition doc_intel_init :: "bool \<Rightarrow> environ \<Rightarrow> azure_config setting" where
  "doc_intel_init = azure_init ''AZURE_DOC_INTEL'' ''gobase_azuredocintel'' ''2024-11-30''"

definition form_init :: "bool \<Rightarrow> environ \<Rightarrow> azure_config setting" where
  "form_init = azure_init ''AZURE_FORM_RECOGNIZE'' ''gobase_azureformrecognize'' ''2023-07-31''"

record analyze_body =
  ab_body :: string
  ab_content_type :: string

definition analyze_from_reader :: "string \<Rightarrow> string \<Rightarrow> analyze_body" where
  "analyze_from_reader body content_type = \<lparr>ab_body = body, ab_content_type = content_type\<rparr>"

text \<open>\<open>marshal\<close> is the JSON encoder on a map of texts.\<close>

definition analyze_from_url :: "((string \<times> string) list \<Rightarrow> string) \<Rightarrow> string \<Rightarrow> analyze_body" where
  "analyze_from_url marshal url = \<lparr>ab_body = marshal [(''urlSource'', url)], ab_content_type = ''application/json''\<rparr>"

record job_builder =
  jb_query :: url_values
  jb_headers :: http_header

record azure_request =
  az_method :: string
  az_url :: string
  az_headers :: http_header
  az_body :: "analyze_body option"

record azure_response =
  zr_status :: int
  zr_headers :: http_header
  zr_body :: string

text \<open>The pipeline of the client library: making a request, giving it a body, and sending it can fail.\<close>

record azure_client =
  zc_new :: "string \<Rightarrow> string \<Rightarrow> string option"
  zc_set_body :: "analyze_body \<Rightarrow> string option"
  zc_do :: "azure_request \<Rightarrow> string + azure_response"

text \<open>Configured headers are put into the map as they are spelled.\<close>

definition put_headers :: "http_header \<Rightarrow> http_header \<Rightarrow> http_header" where
  "put_headers extra h = fold (\<lambda>(k, vs) h. filter (\<lambda>(k', _). k' \<noteq> k) h @ [(k, vs)]) extra h"

definition request_headers :: "azure_config \<Rightarrow> job_builder \<Rightarrow> http_header" where
  "request_headers cfg bld = put_headers (jb_headers bld) (hdr_set ''Ocp-Apim-Subscription-Key'' (az_subscription cfg) [])"

definition start_builder :: "azure_config \<Rightarrow> (job_builder \<Rightarrow> job_builder) list \<Rightarrow> job_builder" where
  "start_builder cfg opts =
     fold (\<lambda>f. f) opts \<lparr>jb_query = values_set ''stringIndexType'' ''utf16CodeUnit''
       (values_set ''api-version'' (az_api_version cfg) (values_set ''locale'' ''en-US'' [])), jb_headers = []\<rparr>"

definition start_url :: "string \<Rightarrow> azure_config \<Rightarrow> string \<Rightarrow> url_values \<Rightarrow> string" where
  "start_url service cfg model q =
     ''https://'' @ az_endpoint cfg @ ''/'' @ service @ ''/documentModels/'' @ model @ '':analyze?'' @ query_encode q"

definition azure_start :: "string \<Rightarrow> azure_config \<Rightarrow> azure_client \<Rightarrow> analyze_body \<Rightarrow> string \<Rightarrow> (job_builder \<Rightarrow> job_builder) list \<Rightarrow> string + string" where
  "azure_start service cfg client body model opts =
     (let bld = start_builder cfg opts; u = start_url service cfg model (jb_query bld)
      in case zc_new client ''POST'' u of
           Some e \<Rightarrow> Inl e
         | None \<Rightarrow>
             (case zc_set_body client body of
                Some e \<Rightarrow> Inl e
              | None \<Rightarrow>
                  (case zc_do client \<lparr>az_method = ''POST'', az_url = u, az_headers = request_headers cfg bld, az_body = Some body\<rparr> of
                     Inl e \<Rightarrow> Inl e
                   | Inr rs \<Rightarrow>
                       (let job_id = hdr_get ''apim-request-id'' (zr_headers rs)
                        in if 0 < length job_id \<and> zr_status rs < 400 then Inr job_id else Inl (zr_body rs)))))"

definition job_builder_of :: "azure_config \<Rightarrow> (job_builder \<Rightarrow> job_builder) list \<Rightarrow> job_builder" where
  "job_builder_of cfg opts =
     fold (\<lambda>f. f) opts \<lparr>jb_query = values_set ''api-version'' (az_api_version cfg) [], jb_headers = []\<rparr>"

definition job_url :: "string \<Rightarrow> azure_config \<Rightarrow> string \<Rightarrow> string \<Rightarrow> url_values \<Rightarrow> string" where
  "job_url service cfg model job_id q =
     ''https://'' @ az_endpoint cfg @ ''/'' @ service @ ''/documentModels/'' @ model @ ''/analyzeResults/'' @ job_id @ ''?'' @ query_encode q"

text \<open>A result that is decoded only in part comes with the error.\<close>

definition azure_get_job :: "string \<Rightarrow> azure_config \<Rightarrow> azure_client \<Rightarrow> (string \<Rightarrow> 'r \<times> string option) \<Rightarrow> string \<Rightarrow> string
    \<Rightarrow> (job_builder \<Rightarrow> job_builder) list \<Rightarrow> 'r option \<times> string option" where
  "azure_get_job service cfg client decode job_id model opts =
     (let bld = job_builder_of cfg opts; u = job_url service cfg model job_id (jb_query bld)
      in case zc_new client ''GET'' u of
           Some e \<Rightarrow> (None, Some e)
         | None \<Rightarrow>
             (case zc_do client \<lparr>az_method = ''GET'', az_url = u, az_headers = request_headers cfg bld, az_body = None\<rparr> of
                Inl e \<Rightarrow> (None, Some e)
              | Inr res \<Rightarrow>
                  if 400 \<le> zr_status res then (None, Some (zr_body res))
                  else (case decode (zr_body res) of (r, e) \<Rightarrow> (Some r, e))))"

section \<open>Results\<close>

text \<open>
  Numbers and times of the decoder are of the types \<open>'f\<close> and \<open>'t\<close>; the tables of the two services differ in the
  regions of their cells.  Amounts are texts, which \<^verbatim>\<open>currency\<close> reads.
\<close>

record 'f value_currency =
  vc_symbol :: string
  vc_amount :: 'f

datatype 'f document_field = DocumentField (df_type: string) (df_array: "'f document_field list")
  (df_object: "(string \<times> 'f document_field) list") (df_string: string) (df_number: 'f) (df_phone: string)
  (df_currency: "'f value_currency option") (df_content: string) (df_confidence: 'f)

record 'f analyze_document =
  ad_type :: string
  ad_fields :: "(string \<times> 'f document_field) list"

record ('f, 'tab) analyze_result =
  ar_tables :: "'tab list"
  ar_documents :: "'f analyze_document list"

record ('f, 't, 'tab) job_result =
  jr_created :: 't
  jr_updated :: 't
  jr_state :: string
  jr_result :: "('f, 'tab) analyze_result option"

definition status_failed :: string where "status_failed = ''failed''"
definition status_running :: string where "status_running = ''running''"
definition status_succeeded :: string where "status_succeeded = ''succeeded''"
definition status_not_started :: string where "status_not_started = ''notStarted''"

record 'f receipt_item =
  ri_total_price :: string
  ri_description :: string
  ri_quantity :: 'f
  ri_price :: string
  ri_product_code :: string
  ri_quantity_unit :: string

record ('f, 't) analyze_receipt =
  rc_merchant_name :: string
  rc_merchant_phone :: string
  rc_merchant_address :: string
  rc_total :: string
  rc_date :: 't
  rc_time :: 't
  rc_subtotal :: string
  rc_total_tax :: string
  rc_tip :: string
  rc_items :: "'f receipt_item list"
  rc_taxes :: "string list"

record form_cell =
  fc_kind :: string
  fc_row :: int
  fc_column :: int
  fc_content :: string
  fc_column_span :: int
  fc_row_span :: int

record form_table =
  ft_row_count :: int
  ft_column_count :: int
  ft_cells :: "form_cell list"

type_synonym ('f, 't) form_job_result = "('f, 't, form_table) job_result"

record bounding_region =
  br_page :: int

record analyze_cell =
  ac_kind :: string
  ac_row :: int
  ac_column :: int
  ac_content :: string
  ac_column_span :: int
  ac_row_span :: int
  ac_regions :: "bounding_region list"

record analyze_table =
  at_row_count :: int
  at_column_count :: int
  at_cells :: "analyze_cell list"

text \<open>The two services.\<close>

definition doc_intel_start :: "azure_config \<Rightarrow> azure_client \<Rightarrow> analyze_body \<Rightarrow> string \<Rightarrow> (job_builder \<Rightarrow> job_builder) list \<Rightarrow> string + string" where
  "doc_intel_start = azure_start ''documentintelligence''"

definition form_start :: "azure_config \<Rightarrow> azure_client \<Rightarrow> analyze_body \<Rightarrow> string \<Rightarrow> (job_builder \<Rightarrow> job_builder) list \<Rightarrow> string + string" where
  "form_start = azure_start ''formrecognizer''"

definition doc_intel_job :: "azure_config \<Rightarrow> azure_client \<Rightarrow> (string \<Rightarrow> ('f, 't, analyze_table) job_result \<times> string option) \<Rightarrow> string \<Rightarrow> string
    \<Rightarrow> (job_builder \<Rightarrow> job_builder) list \<Rightarrow> ('f, 't, analyze_table) job_result option \<times> string option" where
  "doc_intel_job = azure_get_job ''documentintelligence''"

definition form_job :: "azure_config \<Rightarrow> azure_client \<Rightarrow> (string \<Rightarrow> ('f, 't) form_job_result \<times> string option) \<Rightarrow> string \<Rightarrow> string
    \<Rightarrow> (job_builder \<Rightarrow> job_builder) list \<Rightarrow> ('f, 't) form_job_result option \<times> string option" where
  "form_job = azure_get_job ''formrecognizer''"

definition header_cells :: "analyze_table \<Rightarrow> analyze_cell list" where
  "header_cells t =
     (let headers = jv_filter (at_cells t) (\<lambda>c. ac_kind c = ''columnHeader'');
          rows = jv_mapper headers ac_row
      in if 1 < length rows
         then (case jv_min rows of None \<Rightarrow> headers | Some row \<Rightarrow> jv_filter headers (\<lambda>c. ac_row c = row))
         else headers)"

text \<open>The sort is not stable: \<open>get_header t out\<close> when \<open>out\<close> is a result that it may give.\<close>

definition get_header :: "analyze_table \<Rightarrow> string list \<Rightarrow> bool" where
  "get_header t out \<longleftrightarrow> (\<exists>sorted. sort_fx (\<lambda>c. f64 (ac_column c)) (header_cells t) sorted \<and> out = jv_mapper sorted ac_content)"

definition headers_match :: "analyze_table \<Rightarrow> analyze_table \<Rightarrow> bool \<Rightarrow> bool" where
  "headers_match t u r \<longleftrightarrow> (\<exists>a b. get_header t a \<and> get_header u b \<and> r = array_item_compare a b)"

text \<open>The pages of a table, in the order in which Go visits the map of them.\<close>

definition page_set :: "analyze_table \<Rightarrow> int list" where
  "page_set t = fold (\<lambda>c ps. fold (\<lambda>r ps. List.insert (br_page r) ps) (ac_regions c) ps) (at_cells t) []"

definition table_pages :: "(int list \<Rightarrow> int list) \<Rightarrow> analyze_table \<Rightarrow> int list" where
  "table_pages order t = order (page_set t)"

text \<open>\<^verbatim>\<open>CurrencyString\<close>.\<close>

definition amount_cents :: "string \<Rightarrow> currency_error + cents" where
  "amount_cents c = parse_cents c"

definition must_get_cents :: "string \<Rightarrow> (currency_error \<Rightarrow> go_error) \<Rightarrow> string \<Rightarrow> panic_value option \<times> cents" where
  "must_get_cents st err c =
     (case parse_cents c of
        Inl e \<Rightarrow> (er_check st (Some (err e)), 0)
      | Inr v \<Rightarrow> (None, v))"

section \<open>Facts on queries\<close>

text \<open>A reader of queries: parts between ampersands, each with its first equals sign, unescaped.\<close>

fun query_unescape :: "string \<Rightarrow> string" where
  "query_unescape [] = []"
| "query_unescape (c # cs) =
     (if c = CHR ''+'' then CHR '' '' # query_unescape cs
      else if c = CHR ''%'' then
        (case cs of a # b # r \<Rightarrow> char_of (16 * upper_hex_val a + upper_hex_val b) # query_unescape r | _ \<Rightarrow> c # cs)
      else c # query_unescape cs)"

definition read_pair :: "string \<Rightarrow> string \<times> string" where
  "read_pair p = (query_unescape (takeWhile (\<lambda>c. c \<noteq> CHR ''='') p), query_unescape (tl (dropWhile (\<lambda>c. c \<noteq> CHR ''='') p)))"

definition query_read :: "string \<Rightarrow> (string \<times> string) list" where
  "query_read q = (if q = [] then [] else map read_pair (split_char (CHR ''&'') q))"

lemma unreserved_chars: "unreserved c \<Longrightarrow> c \<notin> set ''%+&=?#/ ''"
  by (auto simp: unreserved_def is_digit_def is_lower_letter_def is_upper_letter_def)

lemma query_unescape_escape [simp]: "query_unescape (query_escape s) = s"
proof (induction s)
  case (Cons c s)
  have b: "byte c div 16 < 16" "byte c mod 16 < 16" by (simp_all add: less_mult_imp_div_less)
  show ?case
    using Cons unreserved_chars[of c] upper_hex_facts(1)[OF b(1)] upper_hex_facts(1)[OF b(2)] by simp
qed simp

lemma upper_hex_plain: "n < 16 \<Longrightarrow> unreserved (upper_hex n)"
proof -
  have "list_all (\<lambda>n. unreserved (upper_hex n)) [0..<16]" by code_simp
  then show "n < 16 \<Longrightarrow> unreserved (upper_hex n)" by (simp add: list_all_iff)
qed

lemma query_escape_chars: "c \<in> set (query_escape s) \<Longrightarrow> unreserved c \<or> c = CHR ''%'' \<or> c = CHR ''+''"
proof (induction s)
  case (Cons d s)
  have "byte d div 16 < 16" "byte d mod 16 < 16" by (simp_all add: less_mult_imp_div_less)
  with Cons show ?case by (auto simp: upper_hex_plain split: if_splits)
qed simp

lemma escaped_harmless: "CHR ''&'' \<notin> set (query_escape s)" "CHR ''='' \<notin> set (query_escape s)" "CHR ''#'' \<notin> set (query_escape s)"
  "CHR ''/'' \<notin> set (query_escape s)" "CHR ''?'' \<notin> set (query_escape s)"
  using query_escape_chars unreserved_chars by fastforce+

lemma read_pair_escaped: "read_pair (query_escape k @ ''='' @ query_escape v) = (k, v)"
proof -
  have n: "\<forall>c\<in>set (query_escape k). c \<noteq> CHR ''=''" using escaped_harmless(2) by blast
  then have "takeWhile (\<lambda>c. c \<noteq> CHR ''='') (query_escape k @ ''='' @ query_escape v) = query_escape k"
    "dropWhile (\<lambda>c. c \<noteq> CHR ''='') (query_escape k @ ''='' @ query_escape v) = ''='' @ query_escape v"
    by (simp_all add: takeWhile_append2 dropWhile_append2)
  then show ?thesis by (simp add: read_pair_def)
qed

text \<open>Whatever the parameters are, the encoded query is read back as just these, in the order of the keys.\<close>

lemma query_read_encode: "query_read (query_encode q) = query_pairs q"
proof -
  let ?ps = "map (\<lambda>(k, v). query_escape k @ ''='' @ query_escape v) (query_pairs q)"
  show ?thesis
  proof (cases "query_pairs q = []")
    case True
    then show ?thesis by (simp add: query_read_def query_encode_def)
  next
    case False
    have "\<forall>p\<in>set ?ps. CHR ''&'' \<notin> set p" using escaped_harmless(1) by auto
    then have s: "split_char (CHR ''&'') (join_with ''&'' ?ps) = ?ps" using False by (intro split_join) auto
    moreover have "join_with ''&'' ?ps \<noteq> []"
    proof
      assume "join_with ''&'' ?ps = []"
      then have "?ps = [[]]" using s by simp
      then show False by (auto simp: map_eq_Cons_conv)
    qed
    moreover have "map read_pair ?ps = query_pairs q"
      by (auto simp: read_pair_escaped[simplified] intro!: map_idI)
    ultimately show ?thesis by (simp add: query_read_def query_encode_def)
  qed
qed

lemma query_pairs_set: "set (query_pairs q) = (\<Union>(k, vs)\<in>set q. Pair k ` set vs)"
  by (auto simp: query_pairs_def)

text \<open>
  Without options a start asks for the configured version of the interface, and with the model's name harmless no
  option can reach beyond the query.
\<close>

lemma start_query:
  "query_read (query_encode (jb_query (start_builder cfg opts))) = query_pairs (jb_query (start_builder cfg opts))"
  by (rule query_read_encode)

lemma start_parameters:
  "set (query_pairs (jb_query (start_builder cfg []))) =
     {(''locale'', ''en-US''), (''api-version'', az_api_version cfg), (''stringIndexType'', ''utf16CodeUnit'')}"
proof -
  have "jb_query (start_builder cfg []) = [(''locale'', [''en-US'']), (''api-version'', [az_api_version cfg]), (''stringIndexType'', [''utf16CodeUnit''])]"
    by (simp add: start_builder_def values_set_def)
  then show ?thesis by (simp only: query_pairs_set) (simp add: insert_commute)
qed

text \<open>A start succeeds exactly with the number of a job in an answer below 400.\<close>

lemma azure_start_ok:
  assumes "bld = start_builder cfg opts" "u = start_url service cfg model (jb_query bld)"
    "rq = \<lparr>az_method = ''POST'', az_url = u, az_headers = request_headers cfg bld, az_body = Some body\<rparr>"
  shows "azure_start service cfg client body model opts = Inr job \<longleftrightarrow>
     zc_new client ''POST'' u = None \<and> zc_set_body client body = None \<and> job \<noteq> ''''
     \<and> (\<exists>rs. zc_do client rq = Inr rs \<and> zr_status rs < 400 \<and> hdr_get ''apim-request-id'' (zr_headers rs) = job)"
  unfolding azure_start_def Let_def assms(1)[symmetric] assms(2)[symmetric] assms(3)[symmetric]
  by (cases "zc_new client ''POST'' u"; cases "zc_set_body client body"; cases "zc_do client rq") auto

text \<open>
  Neither the name of a model nor the number of a job is escaped: they can end the path of the address and give
  parameters of their own, before those of the client.
\<close>

lemma job_id_not_escaped:
  "job_url service cfg model (job @ ''?api-version=1&x='') q =
     ''https://'' @ az_endpoint cfg @ ''/'' @ service @ ''/documentModels/'' @ model @ ''/analyzeResults/'' @ job @ ''?api-version=1&x=?'' @ query_encode q"
  by (simp add: job_url_def)

section \<open>Facts on tables\<close>

lemma jv_mapper_map: "jv_mapper xs f = map f xs"
proof -
  have "mapper_loop out xs f = out @ map f xs" for out by (induction xs arbitrary: out) auto
  then show ?thesis by (simp add: jv_mapper_def)
qed

lemma jv_min_least: "jv_min (rows :: int list) = Some m \<Longrightarrow> m \<in> set rows \<and> (\<forall>r\<in>set rows. m \<le> r)"
proof -
  have loop: "min_loop a xs \<in> insert a (set xs) \<and> min_loop a xs \<le> a \<and> (\<forall>r\<in>set xs. min_loop a xs \<le> r)" for a :: int and xs
  proof (induction xs arbitrary: a)
    case (Cons x xs)
    let ?b = "if x < a then x else a"
    have b: "?b \<le> a" "?b \<le> x" "?b = a \<or> ?b = x" by simp_all
    have ih: "min_loop ?b xs \<in> insert ?b (set xs)" "min_loop ?b xs \<le> ?b" "\<forall>r\<in>set xs. min_loop ?b xs \<le> r"
      using Cons.IH[of ?b] by blast+
    have "min_loop ?b xs \<le> a" "min_loop ?b xs \<le> x" using order_trans[OF ih(2)] b(1,2) by blast+
    moreover have "min_loop ?b xs \<in> insert a (set (x # xs))" using ih(1) b(3) by auto
    ultimately show ?case using ih(3) by simp
  qed simp
  assume "jv_min rows = Some m"
  then show ?thesis using loop[of "hd rows" rows] by (cases rows) (auto simp: jv_min_def)
qed

text \<open>The header cells are the ones of the first row that has any.\<close>

lemma header_cells_first_row:
  "set (header_cells t) = {c \<in> set (at_cells t). ac_kind c = ''columnHeader''
     \<and> (\<forall>d\<in>set (at_cells t). ac_kind d = ''columnHeader'' \<longrightarrow> ac_row c \<le> ac_row d)}"
proof -
  let ?h = "filter (\<lambda>c. ac_kind c = ''columnHeader'') (at_cells t)"
  have rows: "jv_mapper ?h ac_row = map ac_row ?h" by (rule jv_mapper_map)
  have at: "set (at_cells t) \<inter> {c. ac_kind c = ''columnHeader''} = set ?h" by auto
  show ?thesis
  proof (cases "1 < length ?h")
    case True
    then obtain m where m: "jv_min (map ac_row ?h) = Some m" by (cases ?h) (auto simp: jv_min_def)
    have "header_cells t = filter (\<lambda>c. ac_row c = m) ?h" using True m by (simp add: header_cells_def rows Let_def)
    moreover have "m \<in> ac_row ` set ?h" "\<forall>d\<in>set ?h. m \<le> ac_row d" using jv_min_least[OF m] by auto
    ultimately show ?thesis by (auto intro: order.antisym)
  next
    case False
    then have "header_cells t = ?h" by (simp add: header_cells_def rows Let_def)
    moreover have "length ?h \<le> 1" using False by simp
    then have "\<forall>c\<in>set ?h. \<forall>d\<in>set ?h. c = d" by (cases ?h) auto
    ultimately show ?thesis by auto
  qed
qed

text \<open>With different columns (within the range of exact numbers) the header is unique, in the order of the columns.\<close>

lemma sorted_unique:
  fixes f :: "'a \<Rightarrow> rat"
  assumes "mset xs = mset ys" "sorted_wrt (\<lambda>a b. \<not> f b < f a) xs" "sorted_wrt (\<lambda>a b. \<not> f b < f a) ys" "inj_on f (set xs)"
  shows "xs = ys"
proof -
  have "sorted (map f xs)" "sorted (map f ys)" using assms(2,3) by (auto simp: sorted_map linorder_not_less)
  moreover have "mset (map f xs) = mset (map f ys)" using assms(1) by simp
  ultimately have "map f xs = map f ys" by (metis properties_for_sort)
  moreover have "set xs = set ys" using assms(1) by (metis set_mset_mset)
  ultimately show ?thesis using assms(4) by (simp add: inj_on_map_eq_map)
qed

lemma get_header_unique:
  assumes "get_header t a" "get_header t b" "inj_on ac_column (set (header_cells t))"
    "\<forall>c\<in>set (header_cells t). 0 \<le> ac_column c \<and> ac_column c < 2 ^ 53"
  shows "a = b"
proof -
  let ?f = "\<lambda>c. f64 (ac_column c)"
  obtain xs ys where xs: "sort_fx ?f (header_cells t) xs" "a = jv_mapper xs ac_content"
    and ys: "sort_fx ?f (header_cells t) ys" "b = jv_mapper ys ac_content" using assms(1,2) by (auto simp: get_header_def)
  have m: "mset xs = mset (header_cells t)" using xs(1) by (simp add: sort_fx_def sort_result_def)
  then have s: "set xs = set (header_cells t)" by (metis set_mset_mset)
  have "inj_on ?f (set xs)" unfolding s using assms(3,4) by (auto simp: inj_on_def)
  then have "xs = ys" using xs(1) ys(1) m by (intro sorted_unique[of xs ys ?f]) (simp_all add: sort_fx_def sort_result_def)
  then show ?thesis using xs(2) ys(2) by simp
qed

lemma get_header_exists: "\<exists>a. get_header t a"
proof -
  have "sort_fx (\<lambda>c. f64 (ac_column c)) (header_cells t) (sort_key (\<lambda>c. f64 (ac_column c)) (header_cells t))"
    using sorted_sort_key[of "\<lambda>c. f64 (ac_column c)" "header_cells t"]
    by (auto simp: sort_fx_def sort_result_def sorted_map linorder_not_less)
  then show ?thesis by (auto simp: get_header_def)
qed

text \<open>The pages are those of the regions, each once.\<close>

lemma page_set_pages: "distinct (page_set t)" "set (page_set t) = {br_page r | r c. c \<in> set (at_cells t) \<and> r \<in> set (ac_regions c)}"
proof -
  have one: "distinct ps \<Longrightarrow> distinct (fold (\<lambda>r ps. List.insert (br_page r) ps) rs ps)
      \<and> set (fold (\<lambda>r ps. List.insert (br_page r) ps) rs ps) = set ps \<union> br_page ` set rs" for rs ps
    by (induction rs arbitrary: ps) auto
  have "distinct ps \<Longrightarrow> distinct (fold (\<lambda>c ps. fold (\<lambda>r ps. List.insert (br_page r) ps) (ac_regions c) ps) cs ps)
      \<and> set (fold (\<lambda>c ps. fold (\<lambda>r ps. List.insert (br_page r) ps) (ac_regions c) ps) cs ps)
        = set ps \<union> {br_page r | r c. c \<in> set cs \<and> r \<in> set (ac_regions c)}" for cs ps
  proof (induction cs arbitrary: ps)
    case (Cons c cs)
    note o = one[OF Cons.prems, of "ac_regions c"]
    show ?case using Cons.IH[OF conjunct1[OF o]] o by auto
  qed simp
  from this[of "[]" "at_cells t"] show "distinct (page_set t)"
    "set (page_set t) = {br_page r | r c. c \<in> set (at_cells t) \<and> r \<in> set (ac_regions c)}" by (simp_all add: page_set_def)
qed

end
