(* ===== verification/ImgUtil.thy ===== *)
theory ImgUtil
  imports GoFloat
begin

text \<open>
  Package \<^verbatim>\<open>imgutil\<close> (\<^verbatim>\<open>imgutil/main.go\<close>): fitting an image into a frame.  The size is computed in float32, for
  positive sizes; the scaling itself is the library's.  An image is its size and its pixels; outside of it, as in
  a fresh image, there is the blank pixel.
\<close>

record 'c go_image =
  im_width :: int
  im_height :: int
  im_pixel :: "int \<Rightarrow> int \<Rightarrow> 'c"

definition image_at :: "'c \<Rightarrow> 'c go_image \<Rightarrow> int \<Rightarrow> int \<Rightarrow> 'c" where
  "image_at blank im x y = (if 0 \<le> x \<and> x < im_width im \<and> 0 \<le> y \<and> y < im_height im then im_pixel im x y else blank)"

text \<open>Rounding to 24 significant bits, ties to even.\<close>

definition round32 :: "rat \<Rightarrow> rat" where
  "round32 x =
     (if x \<le> 0 then 0
      else let s = 2 powi (binary_exponent x - 23) in of_int (round_half_even (x / s)) * s)"

definition f32 :: "int \<Rightarrow> rat" where "f32 n = round32 (of_int n)"

definition contain_size :: "int \<Rightarrow> int \<Rightarrow> int \<Rightarrow> int \<Rightarrow> int \<times> int" where
  "contain_size w h width height =
     (let src_ratio = round32 (f32 w / f32 h); dst_ratio = round32 (f32 width / f32 height)
      in if dst_ratio < src_ratio then (width, \<lfloor>round32 (f32 width / src_ratio)\<rfloor>)
         else (\<lfloor>round32 (f32 height * src_ratio)\<rfloor>, height))"

definition pad_columns :: "'c \<Rightarrow> 'c \<Rightarrow> int \<Rightarrow> int \<Rightarrow> 'c go_image \<Rightarrow> 'c go_image" where
  "pad_columns blank pad width height im =
     (let start = (width - im_width im) div 2; stop = im_width im + start
      in \<lparr>im_width = width, im_height = height,
          im_pixel = (\<lambda>x y. if x < start \<or> stop < x then pad else image_at blank im (x - start) y)\<rparr>)"

definition pad_rows :: "'c \<Rightarrow> 'c \<Rightarrow> int \<Rightarrow> int \<Rightarrow> 'c go_image \<Rightarrow> 'c go_image" where
  "pad_rows blank pad width height im =
     (let start = (height - im_height im) div 2; stop = im_height im + start
      in \<lparr>im_width = width, im_height = height,
          im_pixel = (\<lambda>x y. if y < start \<or> stop < y then pad else image_at blank im x (y - start))\<rparr>)"

definition resize_contain :: "('c go_image \<Rightarrow> int \<Rightarrow> int \<Rightarrow> 'c go_image) \<Rightarrow> 'c \<Rightarrow> 'c \<Rightarrow> int \<Rightarrow> int \<Rightarrow> 'c go_image \<Rightarrow> 'c go_image" where
  "resize_contain scale blank pad width height im =
     (let (dw, dh) = contain_size (im_width im) (im_height im) width height; scaled = scale im dw dh
      in if dw = width \<and> dh = height then scaled
         else if dw < width then pad_columns blank pad width height scaled
         else pad_rows blank pad width height scaled)"

section \<open>Facts\<close>

text \<open>The result has the asked size, and the scaled image lies in it, at a place that is centred up to one pixel.\<close>

lemma resize_contain_size:
  assumes "\<And>w h. im_width (scale im w h) = w" "\<And>w h. im_height (scale im w h) = h"
  shows "im_width (resize_contain scale blank pad width height im) = width \<and> im_height (resize_contain scale blank pad width height im) = height"
  using assms by (auto simp: resize_contain_def pad_columns_def pad_rows_def Let_def split: prod.splits)

lemma pad_columns_pixels:
  assumes "start = (width - im_width im) div 2" "im_width im < width" "0 \<le> im_width im" "im_height im = height" "0 \<le> y" "y < height"
  shows "0 \<le> x \<Longrightarrow> x < im_width im \<Longrightarrow> im_pixel (pad_columns blank pad width height im) (x + start) y = im_pixel im x y"
    and "0 \<le> x \<Longrightarrow> x < start \<Longrightarrow> im_pixel (pad_columns blank pad width height im) x y = pad"
    and "start + im_width im < x \<Longrightarrow> im_pixel (pad_columns blank pad width height im) x y = pad"
    and "0 \<le> start" "start + im_width im < width" "width - (start + im_width im) - start \<in> {0, 1}"
  using assms by (auto simp: pad_columns_def image_at_def Let_def)

text \<open>
  The first column right of the image (and the first row below it) is not padded: it is copied from
  outside of the image, so that it is blank.
\<close>

lemma first_column_blank: "im_pixel (pad_columns blank pad width height im) ((width - im_width im) div 2 + im_width im) y = blank"
  if "0 \<le> im_width im"
  using that by (simp add: pad_columns_def image_at_def Let_def)

lemma first_row_blank: "im_pixel (pad_rows blank pad width height im) x ((height - im_height im) div 2 + im_height im) = blank"
  if "0 \<le> im_height im"
  using that by (simp add: pad_rows_def image_at_def Let_def)

text \<open>In the frame of a square, an image of half its width.\<close>

lemma contain_size_example: "contain_size 1 2 4 4 = (2, 4)"
  by code_simp

end
