(* ===== verification/DbConn.thy ===== *)
theory DbConn
  imports Mail
begin

text \<open>
  The registry of database connections (\<^verbatim>\<open>model/main.go\<close>): the default connection, the others by their keys, and
  which one a context uses.  A pool is a number; the driver's answers are arguments.
\<close>

datatype open_outcome = OpenFails string | PingFails string | PoolReady

record db_registry =
  dr_type :: string
  dr_default :: "nat option"
  dr_others :: "string \<rightharpoonup> nat"
  dr_open :: "nat list"
  dr_next :: nat

definition empty_registry :: "string \<Rightarrow> db_registry" where
  "empty_registry db_type = \<lparr>dr_type = db_type, dr_default = None, dr_others = Map.empty, dr_open = [], dr_next = 0\<rparr>"

definition default_connection_key :: string where "default_connection_key = ''default''"

text \<open>A pool is open as soon as the driver has made it; the ping that follows may fail.\<close>

definition create_connection :: "open_outcome \<Rightarrow> db_registry \<Rightarrow> (string + nat) \<times> db_registry" where
  "create_connection out s =
     (case out of
        OpenFails e \<Rightarrow> (Inl e, s)
      | PingFails e \<Rightarrow> (Inl e, s\<lparr>dr_open := dr_next s # dr_open s, dr_next := dr_next s + 1\<rparr>)
      | PoolReady \<Rightarrow> (Inr (dr_next s), s\<lparr>dr_open := dr_next s # dr_open s, dr_next := dr_next s + 1\<rparr>))"

definition model_init :: "bool \<Rightarrow> environ \<Rightarrow> (string \<Rightarrow> string \<Rightarrow> open_outcome) \<Rightarrow> db_registry setting" where
  "model_init unit_test env opener =
     (let db_type = optional_env env ''DB_TYPE'' ''postgres''
      in bind_setting (optional_bool unit_test env ''DB_NO_CONNECT_ON_INIT'' False) (\<lambda>skip.
           if skip \<or> unit_test then Goes_on (empty_registry db_type) []
           else bind_setting (require_env unit_test env ''CONNECTION_STRING'') (\<lambda>conn.
             case create_connection (opener db_type conn) (empty_registry db_type) of
               (Inl e, s) \<Rightarrow> Exits (e @ '': check the environment value for CONNECTION_STRING'')
             | (Inr db, s) \<Rightarrow> Goes_on (s\<lparr>dr_default := Some db, dr_others := (dr_others s)(default_connection_key \<mapsto> db)\<rparr>) [])))"

definition add_connection :: "string \<Rightarrow> open_outcome \<Rightarrow> db_registry \<Rightarrow> string option \<times> db_registry" where
  "add_connection key out s =
     (if dr_others s key \<noteq> None then (Some (''key '' @ [CHR 0x27] @ key @ [CHR 0x27] @ '' is already assigned to another database connection''), s)
      else (case create_connection out s of
              (Inl e, s1) \<Rightarrow> (Some e, s1)
            | (Inr db, s1) \<Rightarrow>
                (None, s1\<lparr>dr_default := (if dr_default s1 = None \<or> key = default_connection_key then Some db else dr_default s1),
                  dr_others := (dr_others s1)(key \<mapsto> db)\<rparr>)))"

text \<open>The key in a context, which \<^verbatim>\<open>UseConnection\<close> sets; an unknown key is logged and gives the default.\<close>

definition get_db :: "string option \<Rightarrow> db_registry \<Rightarrow> nat option \<times> string list" where
  "get_db key s =
     (case key of
        None \<Rightarrow> (dr_default s, [])
      | Some k \<Rightarrow>
          (case dr_others s k of
             None \<Rightarrow> (dr_default s, [''gobase/model: unable to find database for key '' @ [CHR 0x27] @ k @ [CHR 0x27] @ '', falling back to defaultDb''])
           | Some db \<Rightarrow> (Some db, [])))"

definition use_connection :: "string option \<Rightarrow> string \<Rightarrow> string option" where
  "use_connection ctx key = Some key"

text \<open>\<^verbatim>\<open>NewConnection\<close> makes a connection that the registry does not know.\<close>

definition new_connection :: "bool \<Rightarrow> environ \<Rightarrow> (string \<Rightarrow> string \<Rightarrow> open_outcome) \<Rightarrow> db_registry \<Rightarrow> ((string + nat) \<times> db_registry) setting" where
  "new_connection unit_test env opener s =
     bind_setting (require_env unit_test env ''CONNECTION_STRING'') (\<lambda>conn. Goes_on (create_connection (opener (dr_type s) conn) s) [])"

text \<open>Lines are written only when verbose logging is on.\<close>

definition verbose_log :: "bool \<Rightarrow> string option \<Rightarrow> string \<Rightarrow> string list" where
  "verbose_log enabled err query =
     (if \<not> enabled then []
      else (case err of None \<Rightarrow> [] | Some e \<Rightarrow> [''query failed: '' @ e]) @ [''query input: '' @ query])"

definition verbose_error :: "bool \<Rightarrow> string \<Rightarrow> string list" where
  "verbose_error enabled err = (if \<not> enabled then [] else [''gobase/model: '' @ err])"

section \<open>Facts\<close>

text \<open>
  The registry is sound: what it hands out is open, there is a default as soon as there is any connection, and no
  two keys share a pool.
\<close>

definition registry_ok :: "db_registry \<Rightarrow> bool" where
  "registry_ok s \<longleftrightarrow> (\<forall>p\<in>set (dr_open s). p < dr_next s) \<and> ran (dr_others s) \<subseteq> set (dr_open s)
     \<and> (\<forall>p. dr_default s = Some p \<longrightarrow> p \<in> ran (dr_others s)) \<and> (dr_default s = None \<longrightarrow> dr_others s = Map.empty)
     \<and> inj_on (dr_others s) (dom (dr_others s))"

lemma empty_registry_ok: "registry_ok (empty_registry t)"
  by (simp add: registry_ok_def empty_registry_def)

lemma new_pool_ok:
  assumes ok: "registry_ok s" and free: "dr_others s k = None"
    and d: "d = (if dr_default s = None \<or> u then Some (dr_next s) else dr_default s)"
  shows "registry_ok (s\<lparr>dr_open := dr_next s # dr_open s, dr_next := dr_next s + 1, dr_default := d, dr_others := (dr_others s)(k \<mapsto> dr_next s)\<rparr>)"
proof -
  have open_less: "\<forall>p\<in>set (dr_open s). p < dr_next s" and sub: "ran (dr_others s) \<subseteq> set (dr_open s)"
    and def_in: "\<forall>p. dr_default s = Some p \<longrightarrow> p \<in> ran (dr_others s)" and inj: "inj_on (dr_others s) (dom (dr_others s))"
    using ok by (simp_all add: registry_ok_def)
  have ran: "ran ((dr_others s)(k \<mapsto> dr_next s)) = insert (dr_next s) (ran (dr_others s))" using free by (rule ran_map_upd)
  have fresh: "dr_next s \<notin> ran (dr_others s)" using open_less sub by blast
  have "inj_on ((dr_others s)(k \<mapsto> dr_next s)) (insert k (dom (dr_others s)))"
  proof (rule inj_onI)
    fix x y assume x: "x \<in> insert k (dom (dr_others s))" and y: "y \<in> insert k (dom (dr_others s))"
      and e: "((dr_others s)(k \<mapsto> dr_next s)) x = ((dr_others s)(k \<mapsto> dr_next s)) y"
    have "dr_others s z \<noteq> Some (dr_next s)" for z using fresh by (auto simp: ran_def)
    then have "x = k \<longleftrightarrow> y = k" using e by (metis fun_upd_other fun_upd_same)
    then show "x = y" using x y e inj by (auto simp: inj_on_def split: if_splits)
  qed
  then show ?thesis using open_less sub def_in d by (auto simp: registry_ok_def ran)
qed

lemma leaked_pool_ok: "registry_ok s \<Longrightarrow> registry_ok (s\<lparr>dr_open := dr_next s # dr_open s, dr_next := dr_next s + 1\<rparr>)"
  by (auto simp: registry_ok_def)

lemma add_connection_ok: "registry_ok s \<Longrightarrow> add_connection key out s = (e, s') \<Longrightarrow> registry_ok s'"
proof -
  assume ok: "registry_ok s" and a: "add_connection key out s = (e, s')"
  show "registry_ok s'"
  proof (cases "dr_others s key = None \<and> out = PoolReady")
    case True
    then have s': "s' = s\<lparr>dr_open := dr_next s # dr_open s, dr_next := dr_next s + 1,
        dr_default := (if dr_default s = None \<or> key = default_connection_key then Some (dr_next s) else dr_default s),
        dr_others := (dr_others s)(key \<mapsto> dr_next s)\<rparr>"
      using a by (cases "dr_default s = None \<or> key = default_connection_key") (auto simp: add_connection_def create_connection_def)
    show ?thesis unfolding s' by (rule new_pool_ok[OF ok conjunct1[OF True], of _ "key = default_connection_key"]) simp
  next
    case False
    then show ?thesis using a ok leaked_pool_ok[OF ok]
      by (auto simp: add_connection_def create_connection_def split: open_outcome.splits if_splits)
  qed
qed

text \<open>A key keeps its connection for ever, and a context with that key uses it.\<close>

lemma add_connection_keeps:
  "add_connection key out s = (e, s') \<Longrightarrow> dr_others s k = Some db \<Longrightarrow> dr_others s' k = Some db \<and> fst (get_db (use_connection ctx k) s') = Some db"
  by (auto simp: add_connection_def create_connection_def get_db_def use_connection_def split: open_outcome.splits if_splits)

lemma added_is_used: "add_connection key out s = (None, s') \<Longrightarrow> \<exists>db. dr_others s' key = Some db \<and> get_db (use_connection ctx key) s' = (Some db, [])"
  by (auto simp: add_connection_def create_connection_def get_db_def use_connection_def split: open_outcome.splits if_splits)

text \<open>Every context gets an open connection once there is one.\<close>

lemma get_db_open: "registry_ok s \<Longrightarrow> dr_default s \<noteq> None \<Longrightarrow> \<exists>db. fst (get_db key s) = Some db \<and> db \<in> set (dr_open s)"
  by (auto simp: registry_ok_def get_db_def ran_def split: option.splits)

text \<open>A pool whose ping fails stays open although nobody has it.\<close>

lemma failed_ping_leaks:
  assumes "dr_others s key = None" "registry_ok s"
  shows "\<exists>s'. add_connection key (PingFails e) s = (Some e, s') \<and> dr_next s \<in> set (dr_open s') \<and> dr_next s \<notin> ran (dr_others s')"
  using assms by (auto simp: add_connection_def create_connection_def registry_ok_def)

end
