(* ===== verification/WqSetup.thy ===== *)
theory WqSetup
  imports Mail ErCore
begin

text \<open>
  The start of the work queue (\<^verbatim>\<open>pqworkqueue/main.go\<close>, \<^verbatim>\<open>pqshared/main.go\<close>): the migration of the job table, the
  connection that listens for notifications, and the small operations of a queue.
\<close>

section \<open>Migration\<close>

text \<open>The statements on the table and its indexes, with the columns an index needs, and the schema they work on.\<close>

datatype ddl =
    CreateTable "(string \<times> string) list"
  | AddColumns "(string \<times> string) list"
  | CreateIndex string "string list" string
  | DropIndex string

record db_schema =
  sc_columns :: "(string \<times> string) list option"
  sc_indexes :: "(string \<times> string list \<times> string) list"

definition exec_ddl :: "ddl \<Rightarrow> db_schema \<Rightarrow> string + db_schema" where
  "exec_ddl d s =
     (case d of
        CreateTable cs \<Rightarrow> Inr (if sc_columns s = None then s\<lparr>sc_columns := Some cs\<rparr> else s)
      | AddColumns cs \<Rightarrow>
          (case sc_columns s of
             None \<Rightarrow> Inl ''relation does not exist''
           | Some old \<Rightarrow> Inr (s\<lparr>sc_columns := Some (old @ filter (\<lambda>c. fst c \<notin> set (map fst old)) cs)\<rparr>))
      | CreateIndex n cs cond \<Rightarrow>
          (case sc_columns s of
             None \<Rightarrow> Inl ''relation does not exist''
           | Some cols \<Rightarrow>
               if n \<in> set (map fst (sc_indexes s)) then Inr s
               else if \<not> set cs \<subseteq> set (map fst cols) then Inl ''column does not exist''
               else Inr (s\<lparr>sc_indexes := (n, cs, cond) # sc_indexes s\<rparr>))
      | DropIndex n \<Rightarrow> Inr (s\<lparr>sc_indexes := filter (\<lambda>i. fst i \<noteq> n) (sc_indexes s)\<rparr>))"

fun run_ddl :: "ddl list \<Rightarrow> db_schema \<Rightarrow> string + db_schema" where
  "run_ddl [] s = Inr s"
| "run_ddl (d # ds) s = (case exec_ddl d s of Inl e \<Rightarrow> Inl e | Inr s' \<Rightarrow> run_ddl ds s')"

definition wq_migrations :: "ddl list" where
  "wq_migrations =
     [CreateTable [(''id'', ''text not null unique''), (''queue_name'', ''text not null''), (''debounce_key'', ''text not null''),
        (''job_arg'', ''json not null''), (''result'', ''bytea null''), (''created_at'', ''timestamp not null''),
        (''start_after'', ''timestamp not null''), (''started_at'', ''timestamp null''), (''completed_at'', ''timestamp null''),
        (''retain_until'', ''timestamp null''), (''commit_error'', ''text null'')],
      AddColumns [(''debounce_key'', ''text not null default '' @ [CHR 0x27, CHR 0x27]), (''start_after'', ''timestamp not null default current_timestamp''),
        (''commit_error'', ''text null'')],
      AddColumns [(''usr'', ''bigint null''), (''company'', ''bigint null'')],
      CreateIndex ''ix_pq_worker_queue_retain'' [''retain_until''] [],
      DropIndex ''ix_pq_worker_queue_pending'',
      CreateIndex ''ix_pq_worker_queue_pending2'' [''queue_name'', ''start_after''] ''started_at is null'',
      DropIndex ''ix_pq_worker_debounce'',
      CreateIndex ''ix_pq_worker_queue_id'' [''id''] []]"

definition wq_init :: "bool \<Rightarrow> environ \<Rightarrow> (ddl list \<Rightarrow> 's \<Rightarrow> string + 's) \<Rightarrow> 's \<Rightarrow> (bool \<times> 's) setting" where
  "wq_init unit_test env run s =
     bind_setting (optional_bool unit_test env ''PQWORKQUEUE_PRINT_JOB_STATS'' False) (\<lambda>stats.
       bind_setting (optional_bool unit_test env ''PQWORKQUEUE_SKIP_MIGRATE'' False) (\<lambda>skip_all.
         let skip_this = (optional_env env ''PQWORKQUEUE_MIGRATION_LEVEL'' '''' = ''2026-July-24'')
         in if \<not> skip_all \<and> \<not> skip_this
            then (case run wq_migrations s of
                    Inl e \<Rightarrow> Exits (''failed to setup worker table: '' @ e)
                  | Inr s' \<Rightarrow> Goes_on (stats, s') [])
            else Goes_on (stats, s) []))"

text \<open>The pool of \<^verbatim>\<open>pqshared\<close>.\<close>

definition pool_init :: "bool \<Rightarrow> environ \<Rightarrow> (string \<Rightarrow> string + 'pool) \<Rightarrow> 'pool setting" where
  "pool_init unit_test env new_pool =
     bind_setting (require_env unit_test env ''CONNECTION_STRING'') (\<lambda>conn.
       case new_pool conn of
         Inl e \<Rightarrow> Exits (''failed to connect to postgres using environment variable CONNECTION_STRING'' @ e)
       | Inr p \<Rightarrow> Goes_on p [])"

section \<open>Notifications\<close>

text \<open>
  What waiting gives: an error, or the name of a queue; the channel of signals has room at that time, or not, and
  then the notification is left out.
\<close>

fun notification_loop :: "(string + string \<times> bool) list \<Rightarrow> string list \<times> string option" where
  "notification_loop [] = ([], None)"
| "notification_loop (Inl e # ns) = ([], Some e)"
| "notification_loop (Inr (payload, has_room) # ns) =
     (case notification_loop ns of (sent, e) \<Rightarrow> (if has_room then payload # sent else sent, e))"

text \<open>The signals that are sent, the line that is logged, and whether a connection was taken and given back.\<close>

definition watch_for_db_notification :: "string option \<Rightarrow> string option \<Rightarrow> (string + string \<times> bool) list
    \<Rightarrow> string list \<times> string option \<times> bool" where
  "watch_for_db_notification acquire listen ns =
     (case acquire of
        Some e \<Rightarrow> ([], Some e, False)
      | None \<Rightarrow>
          (case listen of
             Some e \<Rightarrow> ([], Some e, True)
           | None \<Rightarrow> (case notification_loop ns of (sent, e) \<Rightarrow> (sent, e, True))))"

text \<open>\<^verbatim>\<open>monitorDbNotifications\<close>: one watch after another, a second apart.\<close>

definition monitor_db_notifications :: "(string option \<times> string option \<times> (string + string \<times> bool) list) list \<Rightarrow> string list" where
  "monitor_db_notifications rounds = concat (map (\<lambda>(a, l, ns). fst (watch_for_db_notification a l ns)) rounds)"

section \<open>Queues\<close>

record job_queue =
  jq_name :: string

definition new_queue :: "string \<Rightarrow> job_queue" where
  "new_queue name = \<lparr>jq_name = name\<rparr>"

text \<open>\<open>notify\<close> sends a payload on the channel \<^verbatim>\<open>pqworkerqueue\<close>.\<close>

definition queue_notify :: "(string \<Rightarrow> string option) \<Rightarrow> job_queue \<Rightarrow> string option" where
  "queue_notify notify q = notify (jq_name q)"

text \<open>\<^verbatim>\<open>MustAdd\<close> and \<^verbatim>\<open>MustAddOpt\<close>: the error of adding becomes a panic.\<close>

definition must_add :: "string \<Rightarrow> go_error + string \<Rightarrow> panic_value + string" where
  "must_add st added =
     (case added of
        Inl e \<Rightarrow> (case er_check st (Some e) of None \<Rightarrow> Inr [] | Some p \<Rightarrow> Inl p)
      | Inr i \<Rightarrow> Inr i)"

section \<open>Facts\<close>

definition index_names :: "db_schema \<Rightarrow> string set" where
  "index_names s = set (map fst (sc_indexes s))"

definition column_names :: "db_schema \<Rightarrow> string set" where
  "column_names s = (case sc_columns s of None \<Rightarrow> {} | Some cs \<Rightarrow> set (map fst cs))"

text \<open>What is true of a schema once a statement has run on it.\<close>

fun done_by :: "ddl \<Rightarrow> db_schema \<Rightarrow> bool" where
  "done_by (CreateTable cs) s = (sc_columns s \<noteq> None)"
| "done_by (AddColumns cs) s = (sc_columns s \<noteq> None \<and> set (map fst cs) \<subseteq> column_names s)"
| "done_by (CreateIndex n cs cond) s = (sc_columns s \<noteq> None \<and> n \<in> index_names s)"
| "done_by (DropIndex n) s = (n \<notin> index_names s)"

lemma filtered_names: "fst ` set (filter (\<lambda>c. fst c \<notin> A) cs) = fst ` set cs - A"
  by (induction cs) auto

lemma added_names: "fst ` set (old @ filter (\<lambda>c. fst c \<notin> set (map fst old)) cs) = fst ` set old \<union> fst ` set cs"
  by (simp add: image_Un filtered_names del: set_filter)

lemma exec_columns:
  assumes "exec_ddl d s = Inr s'"
  shows "column_names s \<subseteq> column_names s'" "sc_columns s \<noteq> None \<Longrightarrow> sc_columns s' \<noteq> None"
    "d = AddColumns cs \<Longrightarrow> sc_columns s' \<noteq> None \<and> set (map fst cs) \<subseteq> column_names s'"
proof -
  have "column_names s \<subseteq> column_names s' \<and> (sc_columns s \<noteq> None \<longrightarrow> sc_columns s' \<noteq> None)
    \<and> (\<forall>cs. d = AddColumns cs \<longrightarrow> sc_columns s' \<noteq> None \<and> set (map fst cs) \<subseteq> column_names s')"
  proof (cases "\<exists>cs. d = AddColumns cs")
    case True
    then obtain cs old where cs: "d = AddColumns cs" "sc_columns s = Some old"
      "sc_columns s' = Some (old @ filter (\<lambda>c. fst c \<notin> set (map fst old)) cs)"
      using assms by (auto simp: exec_ddl_def split: option.splits)
    then have "column_names s = fst ` set old" "column_names s' = fst ` set old \<union> fst ` set cs"
      using added_names[of old cs] by (simp_all add: column_names_def image_Un del: set_filter)
    then show ?thesis using cs by simp
  next
    case False
    then have "sc_columns s' = sc_columns s \<or> sc_columns s = None"
      using assms by (cases d) (auto simp: exec_ddl_def split: if_splits option.splits)
    then show ?thesis using False by (auto simp: column_names_def)
  qed
  then show "column_names s \<subseteq> column_names s'" "sc_columns s \<noteq> None \<Longrightarrow> sc_columns s' \<noteq> None"
    "d = AddColumns cs \<Longrightarrow> sc_columns s' \<noteq> None \<and> set (map fst cs) \<subseteq> column_names s'" by blast+
qed

lemma exec_done:
  assumes "exec_ddl d s = Inr s'"
  shows "done_by d s'"
proof (cases d)
  case (AddColumns cs)
  then show ?thesis using exec_columns(3)[OF assms, of cs] by simp
next
  case (CreateIndex n cs cond)
  then show ?thesis using assms by (auto simp: exec_ddl_def index_names_def split: if_splits option.splits)
qed (use assms in \<open>auto simp: exec_ddl_def index_names_def split: if_splits\<close>)

lemma done_settled: "done_by d s \<Longrightarrow> exec_ddl d s = Inr s"
  by (cases d; cases s) (auto simp: exec_ddl_def index_names_def column_names_def filter_empty_conv filter_id_conv split: option.splits)

text \<open>Two statements do not undo each other when none drops the index that the other makes.\<close>

fun undoes :: "ddl \<Rightarrow> ddl \<Rightarrow> bool" where
  "undoes (CreateIndex n cs cond) (DropIndex m) = (n = m)"
| "undoes (DropIndex m) (CreateIndex n cs cond) = (n = m)"
| "undoes d e = False"

lemma exec_indexes:
  assumes "exec_ddl e s = Inr s'"
  shows "n \<in> index_names s \<Longrightarrow> e \<noteq> DropIndex n \<Longrightarrow> n \<in> index_names s'"
    "n \<notin> index_names s \<Longrightarrow> (\<forall>cs cond. e \<noteq> CreateIndex n cs cond) \<Longrightarrow> n \<notin> index_names s'"
  using assms by (cases e; auto simp: exec_ddl_def index_names_def split: if_splits option.splits)+

lemma exec_keeps:
  assumes "done_by d s" "exec_ddl e s = Inr s'" "\<not> undoes d e"
  shows "done_by d s'"
  using assms(1,3) exec_columns(1,2)[OF assms(2)] exec_indexes[OF assms(2)] by (cases d) (auto, (cases e; auto)+)

lemma run_keeps: "done_by d s \<Longrightarrow> run_ddl ds s = Inr s' \<Longrightarrow> \<forall>e\<in>set ds. \<not> undoes d e \<Longrightarrow> done_by d s'"
proof (induction ds arbitrary: s)
  case (Cons e ds)
  then obtain s1 where "exec_ddl e s = Inr s1" "run_ddl ds s1 = Inr s'" by (auto split: sum.splits)
  then show ?case using Cons exec_keeps[of d s e s1] by simp
qed simp

lemma run_done: "run_ddl ds s = Inr s' \<Longrightarrow> \<forall>d\<in>set ds. \<forall>e\<in>set ds. \<not> undoes d e \<Longrightarrow> \<forall>d\<in>set ds. done_by d s'"
proof (induction ds arbitrary: s)
  case (Cons d ds)
  then obtain s1 where s1: "exec_ddl d s = Inr s1" "run_ddl ds s1 = Inr s'" by (auto split: sum.splits)
  then have "done_by d s'" using run_keeps[OF exec_done[OF s1(1)] s1(2)] Cons.prems(2) by simp
  then show ?case using Cons.IH[OF s1(2)] Cons.prems(2) by simp
qed simp

lemma run_done_again: "\<forall>d\<in>set ds. done_by d s \<Longrightarrow> run_ddl ds s = Inr s"
  by (induction ds) (auto simp: done_settled)

lemma migrations_compatible: "\<forall>d\<in>set wq_migrations. \<forall>e\<in>set wq_migrations. \<not> undoes d e"
  by (simp add: wq_migrations_def)

text \<open>
  Every successful migration reaches the same end: running it once more changes nothing, the table has all columns
  that the statements of the queue use, the current indexes are there and the old ones are not.
\<close>

lemma migration_idempotent: "run_ddl wq_migrations s = Inr s' \<Longrightarrow> run_ddl wq_migrations s' = Inr s'"
  using run_done[OF _ migrations_compatible] run_done_again by blast

lemma migration_result:
  assumes "run_ddl wq_migrations s = Inr s'"
  shows "{''debounce_key'', ''start_after'', ''commit_error'', ''usr'', ''company''} \<subseteq> column_names s'"
    and "{''ix_pq_worker_queue_retain'', ''ix_pq_worker_queue_pending2'', ''ix_pq_worker_queue_id''} \<subseteq> index_names s'"
    and "''ix_pq_worker_queue_pending'' \<notin> index_names s'" "''ix_pq_worker_debounce'' \<notin> index_names s'"
  using run_done[OF assms migrations_compatible] by (simp_all add: wq_migrations_def)

text \<open>It succeeds on an empty database.\<close>

lemma migration_from_nothing: "\<exists>s'. run_ddl wq_migrations \<lparr>sc_columns = None, sc_indexes = []\<rparr> = Inr s'"
  by (simp add: wq_migrations_def exec_ddl_def)

text \<open>
  On a table of an early version without the time until which a result is kept, it fails and ends the program: that
  column is in no statement that alters the table.
\<close>

lemma old_table_without_retain_fails:
  "run_ddl wq_migrations \<lparr>sc_columns = Some [(''id'', ''text''), (''queue_name'', ''text''), (''started_at'', ''timestamp'')], sc_indexes = []\<rparr>
    = Inl ''column does not exist''"
  by (simp add: wq_migrations_def exec_ddl_def)

text \<open>What is signalled is what came before the first error while the channel had room; a connection that was taken is given back.\<close>

lemma notification_signals:
  "notification_loop (map (\<lambda>p. Inr (p, room p)) ps) = (filter room ps, None)"
  by (induction ps) auto

lemma notification_error: "notification_loop (map (\<lambda>p. Inr (p, room p)) ps @ Inl e # ns) = (filter room ps, Some e)"
  by (induction ps) auto

lemma watch_released: "snd (snd (watch_for_db_notification acquire listen ns)) \<longleftrightarrow> acquire = None"
  by (auto simp: watch_for_db_notification_def split: option.splits prod.splits)

lemma must_add_id: "must_add st added = Inr i \<longleftrightarrow> added = Inr i"
  by (auto simp: must_add_def er_check_def split: sum.splits)

end
