(* ===== verification/PqListen.thy ===== *)
theory PqListen
  imports PqChan
begin

text \<open>
  The connection of \<^verbatim>\<open>pqchan\<close> (\<^verbatim>\<open>pqchan/main.go\<close>): one run of the listener, and the channel that a receiver reads
  from.  The outputs do not change while a run is looked at.
\<close>

text \<open>The notifications that are handed to an output, with its name, the error that ends the run, and what is logged of it.\<close>

fun listen_loop :: "pq_state \<Rightarrow> (string + string \<times> string) list \<Rightarrow> (string \<times> string) list \<times> string option" where
  "listen_loop s [] = ([], None)"
| "listen_loop s (Inl e # ns) = ([], Some e)"
| "listen_loop s (Inr (channel, payload) # ns) =
     (case listen_loop s ns of (sent, e) \<Rightarrow>
        ((case broadcast_target channel s of None \<Rightarrow> sent | Some name \<Rightarrow> (name, payload) # sent), e))"

definition db_listener :: "bool \<Rightarrow> string option \<Rightarrow> string option \<Rightarrow> (string + string \<times> string) list \<Rightarrow> pq_state
    \<Rightarrow> (string \<times> string) list \<times> string option \<times> pq_state" where
  "db_listener cancelled acquire listen ns s =
     (let log = (\<lambda>m. if cancelled then None else Some m)
      in case acquire of
           Some e \<Rightarrow> ([], log (''unable to get connection'' @ e), s)
         | None \<Rightarrow>
             (case listen of
                Some e \<Rightarrow> ([], log (''unable to setup listeners'' @ e), s)
              | None \<Rightarrow>
                  (let s' = setup_listens s
                   in case listen_loop s' ns of
                        (sent, None) \<Rightarrow> (sent, None, s')
                      | (sent, Some e) \<Rightarrow> (sent, log e, s'))))"

text \<open>The goroutine of a receiver: each value is taken by the reader, or the context is done and the channel is closed.\<close>

fun forward_values :: "('v \<times> bool) list \<Rightarrow> 'v list" where
  "forward_values [] = []"
| "forward_values ((v, taken) # vs) = (if taken then v # forward_values vs else [])"

section \<open>Facts\<close>

text \<open>
  A run hands every notification of a known name, up to the first error, to its output in order, and nothing else;
  it says nothing of the error that its own cancelling caused.
\<close>

lemma listen_loop_sent:
  "fst (listen_loop s (map Inr ns)) = [(name, payload). (channel, payload) \<leftarrow> ns, name \<leftarrow> (case broadcast_target channel s of None \<Rightarrow> [] | Some n \<Rightarrow> [n])]"
  by (induction ns) (auto split: option.splits prod.splits)

lemma listen_loop_error: "listen_loop s (map Inr ns @ Inl e # rest) = (fst (listen_loop s (map Inr ns)), Some e)"
  by (induction ns) (auto split: option.splits prod.splits)

lemma listener_silent_when_cancelled: "fst (snd (db_listener True acquire listen ns s)) = None"
  by (auto simp: db_listener_def Let_def split: option.splits prod.splits)

lemma forwarded_prefix: "\<exists>n. forward_values vs = take n (map fst vs)"
proof (induction vs)
  case (Cons x vs)
  then obtain n where "forward_values vs = take n (map fst vs)" by blast
  then show ?case by (cases x; cases "snd x") (auto intro: exI[of _ "Suc n"] exI[of _ 0])
qed simp

end
