(* ===== verification/WorkerDb.thy ===== *)
theory WorkerDb
  imports Parallelize ModelTx
begin

text \<open>
  The middlewares of workers: a time limit (\<^verbatim>\<open>worker/main.go\<close>) and a transaction around every run
  (\<^verbatim>\<open>worker/dbworker/middleware.go\<close>).
\<close>

text \<open>A context is its deadline, if any, and the worker it belongs to; \<^verbatim>\<open>WithTimeout\<close> never makes a deadline later.\<close>

record worker_context =
  wx_deadline :: "int option"
  wx_worker :: "string option"

definition with_timeout :: "int \<Rightarrow> int \<Rightarrow> worker_context \<Rightarrow> worker_context" where
  "with_timeout now limit ctx =
     ctx\<lparr>wx_deadline := Some (case wx_deadline ctx of None \<Rightarrow> now + limit | Some d \<Rightarrow> min d (now + limit))\<rparr>"

definition with_time_limit_middleware :: "int \<Rightarrow> int \<Rightarrow> (worker_context \<Rightarrow> 'i \<Rightarrow> 'r) \<Rightarrow> worker_context \<Rightarrow> 'i \<Rightarrow> 'r" where
  "with_time_limit_middleware now limit next ctx input = next (with_timeout now limit ctx) input"

text \<open>\<^verbatim>\<open>Current\<close>: the worker of a context that its loop made; any other panics (\<^const>\<open>None\<close>).\<close>

definition loop_context :: "string \<Rightarrow> worker_context" where
  "loop_context name = \<lparr>wx_deadline = None, wx_worker = Some name\<rparr>"

definition current_worker :: "worker_context \<Rightarrow> string option" where
  "current_worker ctx = wx_worker ctx"

text \<open>The transaction: \<open>next\<close> is the work inside it.\<close>

definition db_worker_middleware ::
  "string option \<Rightarrow> string option \<Rightarrow> string option
   \<Rightarrow> ('i \<Rightarrow> 'r \<Rightarrow> ('s, 'c) tx_info \<Rightarrow> outcome \<times> 'r \<times> ('s, 'c) tx_info) \<Rightarrow> 'i \<Rightarrow> 'r \<Rightarrow> 's
   \<Rightarrow> outcome \<times> 'r \<times> ('s, 'c) tx_info" where
  "db_worker_middleware bg cm rb next input r db = with_tx bg cm rb (next input) r db"

section \<open>Facts\<close>

text \<open>Limits only shorten: the deadline is the earliest one, whatever the order of nested limits.\<close>

lemma nested_limits:
  "with_timeout now a (with_timeout now b ctx) = with_timeout now b (with_timeout now a ctx)"
  "with_timeout now a (with_timeout now b ctx) = with_timeout now (min a b) ctx"
  by (auto simp: with_timeout_def min_def split: option.splits)

lemma limit_keeps_worker: "current_worker (with_timeout now limit (loop_context name)) = Some name"
  by (simp add: current_worker_def with_timeout_def loop_context_def)

text \<open>A run whose transaction cannot be begun does not call the worker's function, and a failing one fails with its own error.\<close>

lemma db_worker_begin_fails: "db_worker_middleware (Some e) cm rb next input r db = (Failed (DbError e), r, begin_tx ''with-tx'' db)"
  by (simp add: db_worker_middleware_def with_tx_def with_tx2_def)

lemma db_worker_failure:
  assumes "next input r (begin_tx ''with-tx'' db) = (Failed e, r1, t1)"
  shows "db_worker_middleware None cm rb next input r db = (Failed e, r1, tx_cleanup rb t1)"
  using assms by (simp add: db_worker_middleware_def with_tx_def with_tx2_def)

end
