(* ===== verification/PageDate.thy ===== *)
theory PageDate
  imports RowMap
begin

text \<open>
  The type \<^verbatim>\<open>Date\<close> of listings (\<^verbatim>\<open>paginate/main.go\<close>): a time that tables show as a day.  The JSON forms are those
  of Go's \<^verbatim>\<open>time.Time\<close>, which are arguments.
\<close>

definition page_date_csv :: "local_time \<Rightarrow> string" where
  "page_date_csv t = format_date t"

definition page_date_json :: "(local_time \<Rightarrow> string + string) \<Rightarrow> local_time \<Rightarrow> string + string" where
  "page_date_json marshal t = marshal t"

definition page_date_unmarshal :: "(string \<Rightarrow> string + local_time) \<Rightarrow> string \<Rightarrow> local_time \<Rightarrow> string option \<times> local_time" where
  "page_date_unmarshal unmarshal data old = (case unmarshal data of Inl e \<Rightarrow> (Some e, old) | Inr t \<Rightarrow> (None, t))"

text \<open>A value of the driver: a time, or something else.\<close>

definition page_date_scan :: "local_time option \<Rightarrow> local_time \<Rightarrow> string option \<times> local_time" where
  "page_date_scan value old = (case value of None \<Rightarrow> (Some ''expecting time.Time'', old) | Some t \<Rightarrow> (None, t))"

definition page_date_value :: "local_time \<Rightarrow> local_time" where
  "page_date_value t = t"

section \<open>Facts\<close>

text \<open>The day of a table is read back from its text.\<close>

lemma page_date_csv_read:
  "valid_time t \<Longrightarrow> 0 \<le> lt_year t \<Longrightarrow> lt_year t < 10000 \<Longrightarrow> parse_date (page_date_csv t) = Inr (t\<lparr>lt_nanos := 0\<rparr>)"
  by (simp add: page_date_csv_def parse_format_date)

text \<open>What the database gave is given back, and a text of another type changes nothing.\<close>

lemma page_date_scan_value: "page_date_scan (Some (page_date_value t)) old = (None, t)" "page_date_scan None old = (Some e, t) \<Longrightarrow> t = old"
  by (simp_all add: page_date_scan_def page_date_value_def)

lemma page_date_json_back:
  assumes "\<And>t s. marshal t = Inr s \<Longrightarrow> unmarshal s = Inr t" "page_date_json marshal t = Inr s"
  shows "page_date_unmarshal unmarshal s old = (None, t)"
  using assms by (simp add: page_date_unmarshal_def page_date_json_def)

end
